(* ===== verification/Protocol_Types.thy ===== *)
theory Protocol_Types
  imports Complex_Main PyDict
begin

text \<open>
  \<open>protocol/subagents.py\<close>: the types every part of the subagent runtime exchanges, and the
  parsers that turn raw configuration values into permission specifications. Enum classes are
  datatypes, frozen dataclasses are records, raw configuration values are \<open>pyval\<close>.
  Floats are rationals; rounding is not modelled.
\<close>

section \<open>Raw configuration values and Python exceptions\<close>

datatype pyval =
    PNone
  | PBool bool
  | PInt int
  | PFloat rat
  | PStr string
  | PList "pyval list"
  | PDict "(string \<times> pyval) list"

datatype py_exc =
    ValueError
  | TypeError
  | AttributeError
  | KeyError
  | StopIteration
  | RuntimeError

text \<open>\<open>isinstance(x, int)\<close>, which holds of booleans too, and the integer it then denotes.\<close>

fun as_int :: "pyval \<Rightarrow> int option" where
  "as_int (PInt i) = Some i"
| "as_int (PBool b) = Some (if b then 1 else 0)"
| "as_int _ = None"

text \<open>\<open>bool(x)\<close>.\<close>

fun truthy :: "pyval \<Rightarrow> bool" where
  "truthy PNone = False"
| "truthy (PBool b) = b"
| "truthy (PInt i) = (i \<noteq> 0)"
| "truthy (PFloat r) = (r \<noteq> 0)"
| "truthy (PStr s) = (s \<noteq> [])"
| "truthy (PList xs) = (xs \<noteq> [])"
| "truthy (PDict d) = (d \<noteq> [])"

section \<open>Enumerations\<close>

datatype agent_mode = PRIMARY | SUBAGENT | ALL_MODES

datatype trigger_kind = AUTOMATIC | MENTION | COMMAND | TEAM

datatype child_status =
    CREATED
  | QUEUED
  | RUNNING
  | FINALIZING
  | COMPLETED
  | FAILED
  | CANCELLED
  | DENIED
  | TIMED_OUT

datatype workspace_mode = READ_ONLY | LEASED_WRITE | ISOLATED_WORKTREE

datatype permission_verdict = ALLOW | ASK | DENY

fun child_status_value :: "child_status \<Rightarrow> string" where
  "child_status_value CREATED = ''created''"
| "child_status_value QUEUED = ''queued''"
| "child_status_value RUNNING = ''running''"
| "child_status_value FINALIZING = ''finalizing''"
| "child_status_value COMPLETED = ''completed''"
| "child_status_value FAILED = ''failed''"
| "child_status_value CANCELLED = ''cancelled''"
| "child_status_value DENIED = ''denied''"
| "child_status_value TIMED_OUT = ''timed_out''"

text \<open>The enum constructors called on a raw value: \<open>ValueError\<close> when it names no member.\<close>

definition agent_mode_of :: "pyval \<Rightarrow> py_exc + agent_mode" where
  "agent_mode_of v =
     (if v = PStr ''primary'' then Inr PRIMARY
      else if v = PStr ''subagent'' then Inr SUBAGENT
      else if v = PStr ''all'' then Inr ALL_MODES
      else Inl ValueError)"

definition workspace_mode_of :: "pyval \<Rightarrow> py_exc + workspace_mode" where
  "workspace_mode_of v =
     (if v = PStr ''read_only'' then Inr READ_ONLY
      else if v = PStr ''leased_write'' then Inr LEASED_WRITE
      else if v = PStr ''isolated_worktree'' then Inr ISOLATED_WORKTREE
      else Inl ValueError)"

definition permission_verdict_of :: "pyval \<Rightarrow> py_exc + permission_verdict" where
  "permission_verdict_of v =
     (if v = PStr ''allow'' then Inr ALLOW
      else if v = PStr ''ask'' then Inr ASK
      else if v = PStr ''deny'' then Inr DENY
      else Inl ValueError)"

section \<open>Permission types\<close>

record permission_rule =
  pr_pattern :: string
  pr_verdict :: permission_verdict

definition permission_rule_from_raw :: "pyval \<Rightarrow> py_exc + permission_rule" where
  "permission_rule_from_raw raw =
     (case raw of
        PStr s \<Rightarrow>
          bind_result (permission_verdict_of raw)
            (\<lambda>v. Inr \<lparr>pr_pattern = ''**'', pr_verdict = v\<rparr>)
      | PDict [] \<Rightarrow> Inl StopIteration
      | PDict ((pattern, verdict) # _) \<Rightarrow>
          bind_result (permission_verdict_of verdict)
            (\<lambda>v. Inr \<lparr>pr_pattern = pattern, pr_verdict = v\<rparr>)
      | _ \<Rightarrow> Inl AttributeError)"

record tool_permission =
  tp_rules :: "permission_rule list"

definition no_rules :: tool_permission where
  "no_rules = \<lparr>tp_rules = []\<rparr>"

text \<open>
  A \<open>StopIteration\<close> that escapes the body of a generator expression surfaces as
  \<open>RuntimeError\<close> (PEP 479).
\<close>

definition in_generator :: "(py_exc + 'a) \<Rightarrow> py_exc + 'a" where
  "in_generator r = (case r of Inl StopIteration \<Rightarrow> Inl RuntimeError | _ \<Rightarrow> r)"

definition tool_permission_from_raw :: "pyval \<Rightarrow> py_exc + tool_permission" where
  "tool_permission_from_raw raw =
     (case raw of
        PNone \<Rightarrow> Inr no_rules
      | PStr s \<Rightarrow>
          bind_result (permission_verdict_of raw)
            (\<lambda>v. Inr \<lparr>tp_rules = [\<lparr>pr_pattern = ''**'', pr_verdict = v\<rparr>]\<rparr>)
      | PDict d \<Rightarrow>
          bind_result (map_result (\<lambda>(k, v). in_generator (permission_rule_from_raw (PDict [(k, v)]))) d)
            (\<lambda>rs. Inr \<lparr>tp_rules = rs\<rparr>)
      | PList xs \<Rightarrow>
          bind_result (map_result (\<lambda>item. in_generator (permission_rule_from_raw item)) xs)
            (\<lambda>rs. Inr \<lparr>tp_rules = rs\<rparr>)
      | _ \<Rightarrow> Inl TypeError)"

record permission_spec =
  ps_read :: tool_permission
  ps_edit :: tool_permission
  ps_bash :: tool_permission
  ps_webfetch :: tool_permission
  ps_websearch :: tool_permission
  ps_task :: tool_permission
  ps_external_directory :: permission_verdict

definition default_permission_spec :: permission_spec where
  "default_permission_spec =
     \<lparr>ps_read = no_rules, ps_edit = no_rules, ps_bash = no_rules, ps_webfetch = no_rules,
      ps_websearch = no_rules, ps_task = no_rules, ps_external_directory = DENY\<rparr>"

definition raw_get :: "(string \<times> pyval) list \<Rightarrow> string \<Rightarrow> pyval" where
  "raw_get d k = dict_get_or d k PNone"

definition permission_spec_from_raw :: "pyval \<Rightarrow> py_exc + permission_spec" where
  "permission_spec_from_raw raw =
     (case raw of
        PNone \<Rightarrow> Inr default_permission_spec
      | PDict d \<Rightarrow>
          bind_result (tool_permission_from_raw (raw_get d ''read'')) (\<lambda>r.
          bind_result (tool_permission_from_raw (raw_get d ''edit'')) (\<lambda>e.
          bind_result (tool_permission_from_raw (raw_get d ''bash'')) (\<lambda>b.
          bind_result (tool_permission_from_raw (raw_get d ''webfetch'')) (\<lambda>wf.
          bind_result (tool_permission_from_raw (raw_get d ''websearch'')) (\<lambda>ws.
          bind_result (tool_permission_from_raw (raw_get d ''task'')) (\<lambda>t.
          bind_result (permission_verdict_of (dict_get_or d ''external_directory'' (PStr ''deny''))) (\<lambda>x.
            Inr \<lparr>ps_read = r, ps_edit = e, ps_bash = b, ps_webfetch = wf, ps_websearch = ws,
                 ps_task = t, ps_external_directory = x\<rparr>)))))))
      | _ \<Rightarrow> Inl AttributeError)"

section \<open>Task permission\<close>

record task_permission_spec =
  allowed_agents :: "string list"
  denied_agents :: "string list"
  default_verdict :: permission_verdict

definition task_allows :: "task_permission_spec \<Rightarrow> string \<Rightarrow> bool" where
  "task_allows tp target =
     (if target \<in> set (denied_agents tp) then False
      else if target \<in> set (allowed_agents tp) then True
      else default_verdict tp = ALLOW)"

definition task_permission_of_verdict :: "permission_verdict \<Rightarrow> task_permission_spec" where
  "task_permission_of_verdict v =
     \<lparr>allowed_agents = [], denied_agents = [], default_verdict = v\<rparr>"

text \<open>The loop over the items of \<open>permission.task\<close>; \<open>ask\<close> entries for a named agent fall through.\<close>

fun task_permission_items ::
  "(string \<times> pyval) list \<Rightarrow> task_permission_spec \<Rightarrow> py_exc + task_permission_spec" where
  "task_permission_items [] acc = Inr acc"
| "task_permission_items ((agent_id, raw) # items) acc =
     bind_result (permission_verdict_of raw) (\<lambda>verdict.
       task_permission_items items
         (if agent_id = ''**'' then acc\<lparr>default_verdict := verdict\<rparr>
          else if verdict = ALLOW then acc\<lparr>allowed_agents := allowed_agents acc @ [agent_id]\<rparr>
          else if verdict = DENY then acc\<lparr>denied_agents := denied_agents acc @ [agent_id]\<rparr>
          else acc))"

definition task_permission_from_raw :: "pyval \<Rightarrow> py_exc + task_permission_spec" where
  "task_permission_from_raw raw =
     (case raw of
        PNone \<Rightarrow> Inr (task_permission_of_verdict DENY)
      | PStr s \<Rightarrow>
          bind_result (permission_verdict_of raw) (\<lambda>v. Inr (task_permission_of_verdict v))
      | PDict d \<Rightarrow> task_permission_items d (task_permission_of_verdict DENY)
      | _ \<Rightarrow> Inl AttributeError)"

section \<open>Agent definitions\<close>

record agent_definition =
  ad_id :: string
  ad_description :: string
  ad_mode :: agent_mode
  ad_prompt :: "string option"
  ad_model :: "string option"
  ad_steps :: "int option"
  ad_permission :: permission_spec
  ad_task_permission :: task_permission_spec
  ad_hidden :: bool
  ad_subagent_depth :: int
  ad_workspace_scope :: workspace_mode
  ad_extra :: "(string, pyval) pydict"

definition is_primary_capable :: "agent_definition \<Rightarrow> bool" where
  "is_primary_capable d = (ad_mode d = PRIMARY \<or> ad_mode d = ALL_MODES)"

definition is_subagent_capable :: "agent_definition \<Rightarrow> bool" where
  "is_subagent_capable d = (ad_mode d = SUBAGENT \<or> ad_mode d = ALL_MODES)"

definition can_create_children :: "agent_definition \<Rightarrow> bool" where
  "can_create_children d = (ad_subagent_depth d > 0 \<and> is_primary_capable d)"

section \<open>Requests, policies and results\<close>

datatype visibility = Full | Summary

record context_reference =
  cr_kind :: string
  cr_path :: string
  cr_item_id :: string
  cr_sha256 :: string
  cr_visibility :: visibility

record context_envelope =
  ce_parent_session_id :: string
  ce_task :: string
  ce_references :: "context_reference list"
  ce_attachments :: "string list"
  ce_redactions :: "string list"
  ce_max_context_tokens :: int

record budget_spec =
  max_steps :: int
  max_tokens :: int
  max_wall_time_seconds :: int
  max_concurrent_children :: int

record workspace_scope =
  ws_mode :: workspace_mode
  ws_leased_paths :: "string list"
  ws_lease_id :: string

text \<open>The defaults of the dataclasses.\<close>

definition default_budget :: budget_spec where
  "default_budget = \<lparr>max_steps = 12, max_tokens = 8000, max_wall_time_seconds = 300,
     max_concurrent_children = 3\<rparr>"

definition default_workspace :: workspace_scope where
  "default_workspace = \<lparr>ws_mode = READ_ONLY, ws_leased_paths = [], ws_lease_id = []\<rparr>"

record task_request =
  tr_request_id :: string
  tr_parent_session_id :: string
  tr_agent_id :: string
  tr_prompt :: string
  tr_context :: "context_envelope option"
  tr_trigger :: trigger_kind
  tr_output_schema :: "string option"
  tr_requested_budget :: "budget_spec option"
  tr_requested_workspace :: "workspace_scope option"

record effective_task_policy =
  ep_task_permission :: task_permission_spec
  ep_subagent_depth :: int
  ep_remaining_child_depth :: int
  ep_budget :: budget_spec
  ep_workspace :: workspace_scope
  ep_permission :: permission_spec

definition default_request :: "string \<Rightarrow> task_request" where
  "default_request request_id =
     \<lparr>tr_request_id = request_id, tr_parent_session_id = [], tr_agent_id = [], tr_prompt = [],
      tr_context = None, tr_trigger = AUTOMATIC, tr_output_schema = None,
      tr_requested_budget = None, tr_requested_workspace = None\<rparr>"

definition default_policy :: effective_task_policy where
  "default_policy =
     \<lparr>ep_task_permission = task_permission_of_verdict DENY, ep_subagent_depth = 1,
      ep_remaining_child_depth = 0, ep_budget = default_budget, ep_workspace = default_workspace,
      ep_permission = default_permission_spec\<rparr>"

record artifact_ref =
  ar_kind :: string
  ar_ref :: string
  ar_sha256 :: string

record evidence_ref =
  er_path :: string
  er_line :: int
  er_sha256 :: string

datatype reporting_status = Reported | Partial | Not_Reported

record usage_record =
  ur_steps :: int
  ur_input_tokens :: "int option"
  ur_output_tokens :: "int option"
  ur_cache_hit_tokens :: "int option"
  ur_wall_time_ms :: int
  ur_retry_count :: int
  ur_reporting_status :: reporting_status

text \<open>\<open>__post_init__\<close> of \<open>UsageRecord\<close>: derive the reporting state unless the caller set one.\<close>

definition usage_post_init :: "usage_record \<Rightarrow> usage_record" where
  "usage_post_init u =
     (if ur_reporting_status u \<noteq> Not_Reported then u
      else
        let vals = [ur_input_tokens u, ur_output_tokens u, ur_cache_hit_tokens u] in
        if \<not> list_ex (\<lambda>v. v \<noteq> None) vals then u
        else u\<lparr>ur_reporting_status :=
               (if list_all (\<lambda>v. v \<noteq> None) vals then Reported else Partial)\<rparr>)"

definition default_usage :: usage_record where
  "default_usage =
     \<lparr>ur_steps = 0, ur_input_tokens = None, ur_output_tokens = None, ur_cache_hit_tokens = None,
      ur_wall_time_ms = 0, ur_retry_count = 0, ur_reporting_status = Not_Reported\<rparr>"

record error_record =
  err_code :: string
  err_message :: string
  err_details :: "(string, pyval) pydict"

record task_result =
  res_request_id :: string
  res_child_session_id :: string
  res_status :: child_status
  res_summary :: string
  res_artifacts :: "artifact_ref list"
  res_evidence :: "evidence_ref list"
  res_usage :: usage_record
  res_error :: "error_record option"
  res_telemetry :: "(string, pyval) pydict"

definition terminal_status :: "child_status \<Rightarrow> bool" where
  "terminal_status st =
     (st = COMPLETED \<or> st = FAILED \<or> st = CANCELLED \<or> st = DENIED \<or> st = TIMED_OUT)"

definition result_is_terminal :: "task_result \<Rightarrow> bool" where
  "result_is_terminal r = terminal_status (res_status r)"

section \<open>What the parsers guarantee\<close>

lemmas parse_defs =
  permission_verdict_of_def permission_rule_from_raw_def tool_permission_from_raw_def
  task_permission_from_raw_def task_permission_of_verdict_def

lemma permission_rule_from_raw_single:
  "in_generator (permission_rule_from_raw (PDict [(k, v)])) =
   bind_result (permission_verdict_of v) (\<lambda>x. Inr \<lparr>pr_pattern = k, pr_verdict = x\<rparr>)"
  by (auto simp: permission_rule_from_raw_def in_generator_def permission_verdict_of_def)

text \<open>A dict of rules keeps its order, one rule for each entry.\<close>

lemma tool_permission_from_dict_patterns:
  "tool_permission_from_raw (PDict d) = Inr tp \<Longrightarrow> map pr_pattern (tp_rules tp) = map fst d"
proof -
  assume "tool_permission_from_raw (PDict d) = Inr tp"
  then obtain rs where rs: "map_result (\<lambda>(k, v). in_generator (permission_rule_from_raw (PDict [(k, v)]))) d = Inr rs"
    and tp: "tp = \<lparr>tp_rules = rs\<rparr>"
    by (auto simp: tool_permission_from_raw_def bind_result_Inr_iff)
  have "map pr_pattern rs = map fst d" using rs
    by (induction d arbitrary: rs) (auto simp: permission_rule_from_raw_single bind_result_Inr_iff)
  with tp show ?thesis by simp
qed

text \<open>The state of the loop over \<open>permission.task\<close> in terms of the raw entries.\<close>

definition task_entry ::
  "string \<Rightarrow> permission_verdict \<Rightarrow> task_permission_spec \<Rightarrow> task_permission_spec" where
  "task_entry agent_id verdict acc =
     (if agent_id = ''**'' then acc\<lparr>default_verdict := verdict\<rparr>
      else if verdict = ALLOW then acc\<lparr>allowed_agents := allowed_agents acc @ [agent_id]\<rparr>
      else if verdict = DENY then acc\<lparr>denied_agents := denied_agents acc @ [agent_id]\<rparr>
      else acc)"

lemma task_permission_items_Cons:
  "task_permission_items ((a, raw) # items) acc = Inr tp \<longleftrightarrow>
     (\<exists>v. permission_verdict_of raw = Inr v \<and> task_permission_items items (task_entry a v acc) = Inr tp)"
  by (auto simp: bind_result_Inr_iff task_entry_def)

lemma permission_verdict_of_Inr_iff:
  "permission_verdict_of raw = Inr v \<longleftrightarrow>
     raw = PStr (case v of ALLOW \<Rightarrow> ''allow'' | ASK \<Rightarrow> ''ask'' | DENY \<Rightarrow> ''deny'')"
  by (cases v) (auto simp: permission_verdict_of_def)

lemma task_permission_items_denied:
  "task_permission_items d acc = Inr tp \<Longrightarrow>
   set (denied_agents tp) = set (denied_agents acc) \<union> {a. a \<noteq> ''**'' \<and> (a, PStr ''deny'') \<in> set d}"
proof (induction d arbitrary: acc)
  case Nil
  then show ?case by simp
next
  case (Cons p d)
  obtain a raw where p: "p = (a, raw)" by (cases p)
  then obtain v where v: "permission_verdict_of raw = Inr v"
    and tp: "task_permission_items d (task_entry a v acc) = Inr tp"
    using Cons.prems by (auto simp only: task_permission_items_Cons)
  show ?case using Cons.IH [OF tp] v p
    by (cases v) (auto simp: task_entry_def permission_verdict_of_Inr_iff)
qed

lemma task_permission_items_allowed:
  "task_permission_items d acc = Inr tp \<Longrightarrow>
   set (allowed_agents tp) = set (allowed_agents acc) \<union> {a. a \<noteq> ''**'' \<and> (a, PStr ''allow'') \<in> set d}"
proof (induction d arbitrary: acc)
  case Nil
  then show ?case by simp
next
  case (Cons p d)
  obtain a raw where p: "p = (a, raw)" by (cases p)
  then obtain v where v: "permission_verdict_of raw = Inr v"
    and tp: "task_permission_items d (task_entry a v acc) = Inr tp"
    using Cons.prems by (auto simp only: task_permission_items_Cons)
  show ?case using Cons.IH [OF tp] v p
    by (cases v) (auto simp: task_entry_def permission_verdict_of_Inr_iff)
qed

lemma task_permission_items_default:
  "task_permission_items d acc = Inr tp \<Longrightarrow> ''**'' \<notin> fst ` set d \<Longrightarrow>
   default_verdict tp = default_verdict acc"
proof (induction d arbitrary: acc)
  case Nil
  then show ?case by simp
next
  case (Cons p d)
  obtain a raw where p: "p = (a, raw)" by (cases p)
  then obtain v where tp: "task_permission_items d (task_entry a v acc) = Inr tp"
    using Cons.prems(1) by (auto simp only: task_permission_items_Cons)
  show ?case using Cons.IH [OF tp] Cons.prems(2) p by (auto simp: task_entry_def)
qed

text \<open>
  What a parsed \<open>permission.task\<close> dict permits: a named \<open>deny\<close> always refuses, a named \<open>allow\<close>
  admits, and without a \<open>**\<close> entry nothing else is admitted.
\<close>

lemma task_permission_from_raw_allows_iff:
  assumes "task_permission_from_raw (PDict d) = Inr tp" and "''**'' \<notin> fst ` set d"
  shows "task_allows tp a \<longleftrightarrow> (a, PStr ''allow'') \<in> set d \<and> (a, PStr ''deny'') \<notin> set d"
proof -
  have it: "task_permission_items d (task_permission_of_verdict DENY) = Inr tp"
    using assms(1) by (simp add: task_permission_from_raw_def)
  have "a \<noteq> ''**''" if "(a, x) \<in> set d" for x using that assms(2) by force
  then show ?thesis
    using task_permission_items_denied [OF it] task_permission_items_allowed [OF it]
      task_permission_items_default [OF it assms(2)]
    by (auto simp: task_allows_def task_permission_of_verdict_def)
qed

lemma task_permission_from_raw_denied:
  assumes "task_permission_from_raw (PDict d) = Inr tp"
    and "(a, PStr ''deny'') \<in> set d" and "a \<noteq> ''**''"
  shows "\<not> task_allows tp a"
  using assms task_permission_items_denied
  by (fastforce simp: task_permission_from_raw_def task_allows_def)

end
