(* ===== verification/Machine.thy ===== *)
theory Machine
  imports Prelude
begin

text \<open>
  The contract every stateful component of the development meets: a step function over the
  component's commands that keeps an invariant, and, for some, a preorder that each step
  moves along (what was logged stays logged, what is terminal stays terminal). The lemmas
  lift one-step facts to every run and are proved once, here; each component interprets the
  locales on its own operations.
\<close>

fun run :: "('s \<Rightarrow> 'c \<Rightarrow> 's) \<Rightarrow> 's \<Rightarrow> 'c list \<Rightarrow> 's" where
  "run step s [] = s"
| "run step s (c # cs) = run step (step s c) cs"

lemma run_append: "run step s (xs @ ys) = run step (run step s xs) ys"
  by (induction xs arbitrary: s) auto

lemma run_foldl: "run step s cs = foldl step s cs"
  by (induction cs arbitrary: s) auto

locale machine =
  fixes step :: "'s \<Rightarrow> 'c \<Rightarrow> 's"
    and inv :: "'s \<Rightarrow> bool"
  assumes step_inv: "inv s \<Longrightarrow> inv (step s c)"
begin

lemma run_inv: "inv s \<Longrightarrow> inv (run step s cs)"
  by (induction cs arbitrary: s) (auto intro: step_inv)

text \<open>Every state passed on the way satisfies the invariant too.\<close>

lemma prefix_inv: "inv s \<Longrightarrow> inv (run step s (take n cs))"
  by (rule run_inv)

end

locale ordered_machine = machine +
  fixes le :: "'a \<Rightarrow> 'a \<Rightarrow> bool"
  assumes le_refl: "le s s"
    and le_trans: "le s t \<Longrightarrow> le t u \<Longrightarrow> le s u"
    and step_le: "inv s \<Longrightarrow> le s (step s c)"
begin

lemma run_le: "inv s \<Longrightarrow> le s (run step s cs)"
proof (induction cs arbitrary: s)
  case Nil
  show ?case by (simp add: le_refl)
next
  case (Cons c cs)
  have "le s (step s c)" using Cons.prems by (rule step_le)
  moreover have "le (step s c) (run step (step s c) cs)"
    using Cons.prems by (intro Cons.IH step_inv)
  ultimately show ?case by (auto intro: le_trans)
qed

lemma run_le_later: "inv s \<Longrightarrow> le (run step s cs) (run step s (cs @ ds))"
  by (simp add: run_append run_le run_inv)

end

section \<open>Refinement of an abstract transition relation\<close>

text \<open>
  A trail of an abstract relation, with the events it takes. A machine whose steps answer with
  observations refines the relation when each step is matched by a trail from the abstraction of
  the state before to that of the state after, whose visible events are the step's
  observations; every run is then matched too.
\<close>

inductive trail :: "('a \<Rightarrow> 'e \<Rightarrow> 'a \<Rightarrow> bool) \<Rightarrow> 'a \<Rightarrow> 'e list \<Rightarrow> 'a \<Rightarrow> bool" for R where
  trail_Nil: "trail R a [] a"
| trail_Cons: "R a e b \<Longrightarrow> trail R b es c \<Longrightarrow> trail R a (e # es) c"

inductive_cases trail_NilE: "trail R a [] b"
inductive_cases trail_ConsE: "trail R a (e # es) c"

lemma trail_append: "trail R a es b \<Longrightarrow> trail R b fs c \<Longrightarrow> trail R a (es @ fs) c"
  by (induction rule: trail.induct) (auto intro: trail.intros)

lemma trail_single: "R a e b \<Longrightarrow> trail R a [e] b"
  by (blast intro: trail.intros)

lemma trail_invariant:
  assumes "trail R a es b" and "P a"
    and "\<And>x e y. R x e y \<Longrightarrow> e \<in> set es \<Longrightarrow> P x \<Longrightarrow> P y"
  shows "P b"
  using assms
proof (induction rule: trail.induct)
  case (trail_Nil a)
  then show ?case by simp
next
  case (trail_Cons a e b es c)
  have "P b" using trail_Cons.hyps(1) trail_Cons.prems by (auto intro: trail_Cons.prems(2))
  then show ?case by (rule trail_Cons.IH) (rule trail_Cons.prems(2), auto)
qed

lemma trail_appendE:
  assumes "trail R a (es @ fs) c"
  obtains b where "trail R a es b" and "trail R b fs c"
  using assms
proof (induction es arbitrary: a thesis)
  case Nil
  then show ?case by (auto intro: trail_Nil)
next
  case (Cons e es)
  from Cons.prems(2) obtain b where "R a e b" and b: "trail R b (es @ fs) c"
    by (auto elim: trail_ConsE)
  from b obtain d where "trail R b es d" and "trail R d fs c" by (rule Cons.IH [rotated])
  then show ?case using \<open>R a e b\<close> by (intro Cons.prems(1)) (auto intro: trail_Cons)
qed

fun run_obs :: "('s \<Rightarrow> 'c \<Rightarrow> 'e list \<times> 's) \<Rightarrow> 's \<Rightarrow> 'c list \<Rightarrow> 'e list \<times> 's" where
  "run_obs step s [] = ([], s)"
| "run_obs step s (c # cs) =
     (case step s c of (vs, s') \<Rightarrow> case run_obs step s' cs of (ws, t) \<Rightarrow> (vs @ ws, t))"

lemma run_obs_append:
  "run_obs step s (cs @ ds) =
     (case run_obs step s cs of (vs, t) \<Rightarrow> case run_obs step t ds of (ws, u) \<Rightarrow> (vs @ ws, u))"
  by (induction cs arbitrary: s) (auto split: prod.splits)

text \<open>
  A machine whose invariant speaks about the events so far, for commands that meet a condition.
\<close>

locale logged_machine =
  fixes step :: "'s \<Rightarrow> 'c \<Rightarrow> 'e list \<times> 's"
    and inv :: "'s \<Rightarrow> 'e list \<Rightarrow> bool"
    and ok :: "'c \<Rightarrow> bool"
  assumes step_logged: "inv s h \<Longrightarrow> ok c \<Longrightarrow> step s c = (vs, s') \<Longrightarrow> inv s' (h @ vs)"
begin

lemma run_logged: "inv s h \<Longrightarrow> \<forall>c\<in>set cs. ok c \<Longrightarrow> run_obs step s cs = (vs, t) \<Longrightarrow> inv t (h @ vs)"
proof (induction cs arbitrary: s h vs t)
  case Nil
  then show ?case by simp
next
  case (Cons c cs)
  obtain us s' where 1: "step s c = (us, s')" by force
  obtain ws u where 2: "run_obs step s' cs = (ws, u)" by force
  have eq: "vs = us @ ws" "t = u" using Cons.prems(3) 1 2 by auto
  have "inv s' (h @ us)" using Cons.prems(1,2) 1 by (intro step_logged) simp_all
  then have "inv u ((h @ us) @ ws)" by (rule Cons.IH) (use Cons.prems(2) 2 in simp_all)
  then show ?case using eq by simp
qed

end

text \<open>A condition on every event and the events before it.\<close>

definition prefix_all :: "('e list \<Rightarrow> 'e \<Rightarrow> bool) \<Rightarrow> 'e list \<Rightarrow> bool" where
  "prefix_all P h \<longleftrightarrow> (\<forall>xs e ys. h = xs @ e # ys \<longrightarrow> P xs e)"

lemma prefix_all_Nil [simp]: "prefix_all P []"
  by (simp add: prefix_all_def)

lemma prefix_all_snoc [simp]: "prefix_all P (h @ [e]) \<longleftrightarrow> prefix_all P h \<and> P h e"
proof
  assume "prefix_all P (h @ [e])"
  then show "prefix_all P h \<and> P h e" by (auto simp: prefix_all_def)
next
  assume a: "prefix_all P h \<and> P h e"
  show "prefix_all P (h @ [e])" unfolding prefix_all_def
  proof (intro allI impI)
    fix xs x ys
    assume eq: "h @ [e] = xs @ x # ys"
    show "P xs x"
    proof (cases ys rule: rev_cases)
      case Nil
      then show ?thesis using eq a by simp
    next
      case (snoc zs z)
      then have "h = xs @ x # zs" using eq by (metis append_Cons append_assoc butlast_snoc)
      then show ?thesis using a by (auto simp: prefix_all_def)
    qed
  qed
qed

lemma prefix_allD: "prefix_all P (xs @ e # ys) \<Longrightarrow> P xs e"
  by (simp add: prefix_all_def)

locale refines =
  fixes step :: "'s \<Rightarrow> 'c \<Rightarrow> 'e list \<times> 's"
    and abs :: "'s \<Rightarrow> 'a"
    and astep :: "'a \<Rightarrow> 'e \<Rightarrow> 'a \<Rightarrow> bool"
    and visible :: "'e \<Rightarrow> bool"
  assumes step_sim:
    "step s c = (vs, s') \<Longrightarrow> \<exists>es. trail astep (abs s) es (abs s') \<and> filter visible es = vs"
begin

lemma run_sim:
  "run_obs step s cs = (vs, t) \<Longrightarrow>
   \<exists>es. trail astep (abs s) es (abs t) \<and> filter visible es = vs"
proof (induction cs arbitrary: s vs t)
  case Nil
  then show ?case by (auto intro!: exI [of _ "[]"] trail_Nil)
next
  case (Cons c cs)
  obtain us s' where 1: "step s c = (us, s')" by force
  obtain ws u where 2: "run_obs step s' cs = (ws, u)" by force
  have eq: "vs = us @ ws" "t = u" using Cons.prems 1 2 by auto
  from step_sim [OF 1] obtain es where es: "trail astep (abs s) es (abs s')" "filter visible es = us"
    by blast
  from Cons.IH [OF 2] obtain fs where fs: "trail astep (abs s') fs (abs u)" "filter visible fs = ws"
    by blast
  have "trail astep (abs s) (es @ fs) (abs t)" using es(1) fs(1) eq(2) by (auto intro: trail_append)
  moreover have "filter visible (es @ fs) = vs" using es(2) fs(2) eq(1) by simp
  ultimately show ?case by blast
qed

end

end
