(* ===== verification/Definitions.thy ===== *)
theory Definitions
  imports Protocol_Types Machine "HOL-Library.List_Lexorder" "HOL-Library.Char_ord"
begin

text \<open>
  \<open>core/subagents/definitions.py\<close>, \<open>config_loader.py\<close>, \<open>builtin_agents.py\<close>: reading agent
  definitions from files, normalising and validating them, and the registry. JSON and YAML
  decoding are arguments (\<open>None\<close> when the library raises); \<open>str_other\<close> is Python's \<open>str\<close> on
  values that are not strings.
\<close>

section \<open>Normalisation\<close>

text \<open>\<open>int(s)\<close> for a string: surrounding space, a sign, digits with single underscores between.\<close>

definition digit_value :: "char \<Rightarrow> int option" where
  "digit_value c = (if 48 \<le> code_point c \<and> code_point c \<le> 57 then Some (int (code_point c) - 48) else None)"

fun parse_digits :: "bool \<Rightarrow> int \<Rightarrow> string \<Rightarrow> int option" where
  "parse_digits after_digit acc [] = (if after_digit then Some acc else None)"
| "parse_digits after_digit acc (c # cs) =
     (if c = CHR ''_'' then (if after_digit \<and> cs \<noteq> [] then parse_digits False acc cs else None)
      else (case digit_value c of
              None \<Rightarrow> None
            | Some d \<Rightarrow> parse_digits True (acc * 10 + d) cs))"

definition parse_int :: "string \<Rightarrow> int option" where
  "parse_int s =
     (case strip s of
        [] \<Rightarrow> None
      | c # cs \<Rightarrow>
          if c = CHR ''-'' then map_option uminus (parse_digits False 0 cs)
          else if c = CHR ''+'' then parse_digits False 0 cs
          else parse_digits False 0 (c # cs))"

text \<open>\<open>int(x)\<close>; \<open>None\<close> when it raises \<open>TypeError\<close> or \<open>ValueError\<close>.\<close>

fun py_int :: "pyval \<Rightarrow> int option" where
  "py_int (PInt i) = Some i"
| "py_int (PBool b) = Some (if b then 1 else 0)"
| "py_int (PFloat r) = Some (if r \<ge> 0 then \<lfloor>r\<rfloor> else \<lceil>r\<rceil>)"
| "py_int (PStr s) = parse_int s"
| "py_int _ = None"

definition py_str :: "(pyval \<Rightarrow> string) \<Rightarrow> pyval \<Rightarrow> string" where
  "py_str str_other v = (case v of PStr s \<Rightarrow> s | _ \<Rightarrow> str_other v)"

type_synonym raw_config = "(string, pyval) pydict"

text \<open>\<open>if k in raw: normalized[k] = f(raw[k])\<close>.\<close>

definition copy_key :: "(pyval \<Rightarrow> pyval) \<Rightarrow> raw_config \<Rightarrow> string \<Rightarrow> raw_config \<Rightarrow> raw_config" where
  "copy_key f raw k d = (case dict_get raw k of None \<Rightarrow> d | Some v \<Rightarrow> dict_set k (f v) d)"

definition normalize_permission :: "pyval \<Rightarrow> pyval" where
  "normalize_permission perm =
     (case perm of
        PStr s \<Rightarrow> PDict [(''read'', perm), (''edit'', perm), (''bash'', perm), (''task'', perm)]
      | _ \<Rightarrow> perm)"

definition known_keys :: "string list" where
  "known_keys =
     [''id'', ''description'', ''mode'', ''model'', ''steps'', ''prompt'', ''permission'',
      ''hidden'', ''subagent_depth'', ''workspace_scope'', ''task_permission'']"

definition normalize_raw_config :: "(pyval \<Rightarrow> string) \<Rightarrow> raw_config \<Rightarrow> raw_config" where
  "normalize_raw_config str_other raw =
     (let n1 = fold (copy_key id raw) [''id'', ''description'', ''mode'', ''model'', ''steps'', ''prompt''] [];
          n2 = copy_key (\<lambda>v. PBool (truthy v)) raw ''hidden'' n1;
          n3 = copy_key (\<lambda>v. case py_int v of Some i \<Rightarrow> PInt i | None \<Rightarrow> v) raw ''subagent_depth'' n2;
          n4 = copy_key (\<lambda>v. PStr (py_str str_other v)) raw ''workspace_scope'' n3;
          n5 = copy_key normalize_permission raw ''permission'' n4;
          n6 = copy_key id raw ''task_permission'' n5
      in fold (\<lambda>(k, v) d. if k \<in> set known_keys then d else dict_set k v d) raw n6)"

section \<open>Validation\<close>

datatype definition_error =
    DefinitionError string string \<comment> \<open>field and agent id\<close>
  | ConfigLoadError
  | Raised py_exc

definition RESERVED_IDS :: "string list" where
  "RESERVED_IDS = [''primary'', ''system'', ''root'', ''admin'']"

definition is_lower_letter :: "char \<Rightarrow> bool" where
  "is_lower_letter c = (97 \<le> code_point c \<and> code_point c \<le> 122)"

definition is_id_char :: "char \<Rightarrow> bool" where
  "is_id_char c = (is_lower_letter c \<or> digit_value c \<noteq> None \<or> c = CHR ''_'' \<or> c = CHR ''-'')"

text \<open>
  \<^verbatim>\<open>^[a-z][a-z0-9_-]{0,63}$\<close> with \<open>match\<close>: the dollar sign also matches before a final
  newline.
\<close>

definition agent_id_body :: "string \<Rightarrow> bool" where
  "agent_id_body s =
     (case s of [] \<Rightarrow> False
      | c # cs \<Rightarrow> is_lower_letter c \<and> length cs \<le> 63 \<and> list_all is_id_char cs)"

definition agent_id_matches :: "string \<Rightarrow> bool" where
  "agent_id_matches s =
     (agent_id_body s \<or> (s \<noteq> [] \<and> last s = CHR 0x0A \<and> agent_id_body (butlast s)))"

definition raise_py :: "(py_exc + 'a) \<Rightarrow> definition_error + 'a" where
  "raise_py r = (case r of Inl e \<Rightarrow> Inl (Raised e) | Inr x \<Rightarrow> Inr x)"

definition validate_id :: "raw_config \<Rightarrow> definition_error + string" where
  "validate_id raw =
     (let v = dict_get_or raw ''id'' (PStr []) in
      if \<not> truthy v then Inl (DefinitionError ''id'' [])
      else
        (case v of
           PStr s \<Rightarrow>
             if \<not> agent_id_matches s then Inl (DefinitionError ''id'' s)
             else if s \<in> set RESERVED_IDS then Inl (DefinitionError ''id'' s)
             else Inr s
         | _ \<Rightarrow> Inl (Raised TypeError)))"

definition validate_description :: "string \<Rightarrow> raw_config \<Rightarrow> definition_error + string" where
  "validate_description agent_id raw =
     (let v = dict_get_or raw ''description'' (PStr []) in
      if \<not> truthy v then Inl (DefinitionError ''description'' agent_id)
      else
        (case v of
           PStr s \<Rightarrow> if strip s = [] then Inl (DefinitionError ''description'' agent_id) else Inr s
         | _ \<Rightarrow> Inl (Raised AttributeError)))"

definition validate_steps :: "string \<Rightarrow> raw_config \<Rightarrow> definition_error + int option" where
  "validate_steps agent_id raw =
     (case raw_get raw ''steps'' of
        PNone \<Rightarrow> Inr None
      | v \<Rightarrow>
          (case as_int v of
             None \<Rightarrow> Inl (DefinitionError ''steps'' agent_id)
           | Some i \<Rightarrow> if i < 1 then Inl (DefinitionError ''steps'' agent_id) else Inr (Some i)))"

definition validate_depth :: "string \<Rightarrow> raw_config \<Rightarrow> definition_error + int" where
  "validate_depth agent_id raw =
     (case as_int (dict_get_or raw ''subagent_depth'' (PInt 1)) of
        None \<Rightarrow> Inl (DefinitionError ''subagent_depth'' agent_id)
      | Some i \<Rightarrow> if i < 0 then Inl (DefinitionError ''subagent_depth'' agent_id) else Inr i)"

definition validate_text :: "string \<Rightarrow> string \<Rightarrow> raw_config \<Rightarrow> definition_error + string option" where
  "validate_text agent_id field raw =
     (case raw_get raw field of
        PNone \<Rightarrow> Inr None
      | PStr s \<Rightarrow> Inr (Some s)
      | _ \<Rightarrow> Inl (DefinitionError field agent_id))"

text \<open>\<open>permission_raw.get("task") if permission_raw else None\<close>.\<close>

definition permission_task :: "pyval \<Rightarrow> py_exc + pyval" where
  "permission_task permission_raw =
     (if \<not> truthy permission_raw then Inr PNone
      else (case permission_raw of PDict d \<Rightarrow> Inr (raw_get d ''task'') | _ \<Rightarrow> Inl AttributeError))"

definition enum_field :: "string \<Rightarrow> string \<Rightarrow> (py_exc + 'a) \<Rightarrow> definition_error + 'a" where
  "enum_field field agent_id r =
     (case r of Inl ValueError \<Rightarrow> Inl (DefinitionError field agent_id)
      | Inl e \<Rightarrow> Inl (Raised e) | Inr x \<Rightarrow> Inr x)"

definition validate_agent_definition :: "raw_config \<Rightarrow> definition_error + agent_definition" where
  "validate_agent_definition raw =
     bind_result (validate_id raw) (\<lambda>agent_id.
     bind_result (validate_description agent_id raw) (\<lambda>description.
     bind_result (enum_field ''mode'' agent_id
       (agent_mode_of (dict_get_or raw ''mode'' (PStr ''subagent'')))) (\<lambda>mode.
     bind_result (validate_steps agent_id raw) (\<lambda>steps.
     bind_result (validate_depth agent_id raw) (\<lambda>depth.
     bind_result (enum_field ''workspace_scope'' agent_id
       (workspace_mode_of (dict_get_or raw ''workspace_scope'' (PStr ''read_only'')))) (\<lambda>scope.
     bind_result (raise_py (permission_spec_from_raw (raw_get raw ''permission''))) (\<lambda>permission.
     if dict_has raw ''task_permission'' then Inl (DefinitionError ''task_permission'' agent_id)
     else
     bind_result (raise_py (permission_task (raw_get raw ''permission''))) (\<lambda>task_raw.
     bind_result (raise_py (task_permission_from_raw task_raw)) (\<lambda>task_permission.
     bind_result (validate_text agent_id ''prompt'' raw) (\<lambda>prompt.
     bind_result (validate_text agent_id ''model'' raw) (\<lambda>model.
       Inr \<lparr>ad_id = agent_id, ad_description = description, ad_mode = mode, ad_prompt = prompt,
            ad_model = model, ad_steps = steps, ad_permission = permission,
            ad_task_permission = task_permission,
            ad_hidden = truthy (dict_get_or raw ''hidden'' (PBool False)),
            ad_subagent_depth = depth, ad_workspace_scope = scope,
            ad_extra = filter (\<lambda>(k, _). k \<notin> set known_keys) raw\<rparr>)))))))))))"

section \<open>The registry\<close>

record agent_registry =
  reg_agents :: "(string, agent_definition) pydict"
  reg_builtin_ids :: "string list"

definition empty_registry :: agent_registry where
  "empty_registry = \<lparr>reg_agents = [], reg_builtin_ids = []\<rparr>"

definition register :: "bool \<Rightarrow> agent_definition \<Rightarrow> agent_registry \<Rightarrow> (definition_error, unit, agent_registry) outcome" where
  "register builtin d r =
     (if ad_id d \<in> set (reg_builtin_ids r) then
        (if \<not> builtin then (Inl (DefinitionError [] (ad_id d)), r) else (Inr (), r))
      else
        let r' = (if builtin then r\<lparr>reg_builtin_ids := reg_builtin_ids r @ [ad_id d]\<rparr> else r)
        in (Inr (), r'\<lparr>reg_agents := dict_set (ad_id d) d (reg_agents r')\<rparr>))"

definition registry_get :: "agent_registry \<Rightarrow> string \<Rightarrow> agent_definition option" where
  "registry_get r agent_id = dict_get (reg_agents r) agent_id"

definition list_visible :: "agent_registry \<Rightarrow> agent_definition list" where
  "list_visible r = filter (\<lambda>a. is_subagent_capable a \<and> \<not> ad_hidden a) (dict_values (reg_agents r))"

definition list_agents :: "agent_registry \<Rightarrow> agent_definition list" where
  "list_agents r = dict_values (reg_agents r)"

section \<open>Loading files\<close>

definition object_root :: "pyval option \<Rightarrow> definition_error + raw_config" where
  "object_root v = (case v of Some (PDict d) \<Rightarrow> Inr d | _ \<Rightarrow> Inl ConfigLoadError)"

definition load_agent_from_json :: "(string \<Rightarrow> pyval option) \<Rightarrow> string \<Rightarrow> definition_error + raw_config" where
  "load_agent_from_json json_loads text = object_root (json_loads text)"

definition load_agent_from_yaml :: "(string \<Rightarrow> pyval option) \<Rightarrow> string \<Rightarrow> definition_error + raw_config" where
  "load_agent_from_yaml safe_load text = object_root (safe_load text)"

text \<open>
  The front matter: what \<^verbatim>\<open>^---\s*\n(.*?)\n---\s*\n?\<close> (dot matches newlines) matches, as the
  group and the text after the match. The opening run of spaces is tried longest first, the
  group shortest first.
\<close>

fun find_closing :: "string \<Rightarrow> string \<Rightarrow> (string \<times> string) option" where
  "find_closing acc [] = None"
| "find_closing acc (c # cs) =
     (if starts_with (c # cs) (CHR 0x0A # ''---'')
      then Some (acc, dropWhile is_space (drop 4 (c # cs)))
      else find_closing (acc @ [c]) cs)"

text \<open>Split points of the opening run: after each newline in it, the last one first.\<close>

definition opening_rests :: "string \<Rightarrow> string list" where
  "opening_rests s =
     (let n = length (takeWhile is_space s) in
      map (\<lambda>i. drop (Suc i) s) (filter (\<lambda>i. s ! i = CHR 0x0A) (rev [0..<n])))"

definition match_frontmatter :: "string \<Rightarrow> (string \<times> string) option" where
  "match_frontmatter text =
     (if starts_with text ''---''
      then (case List.map_filter (find_closing []) (opening_rests (drop 3 text)) of
              [] \<Rightarrow> None | m # _ \<Rightarrow> Some m)
      else None)"

definition load_agent_from_markdown :: "(string \<Rightarrow> pyval option) \<Rightarrow> string \<Rightarrow> definition_error + raw_config" where
  "load_agent_from_markdown safe_load text =
     (case match_frontmatter text of
        None \<Rightarrow> Inl ConfigLoadError
      | Some (frontmatter, after) \<Rightarrow>
          let body = strip after in
          bind_result (load_agent_from_yaml safe_load frontmatter) (\<lambda>data.
            Inr (if \<not> dict_has data ''prompt'' \<and> body \<noteq> [] then dict_set ''prompt'' (PStr body) data else data)))"

text \<open>\<open>Path(name).suffix\<close>.\<close>

definition path_suffix :: "string \<Rightarrow> string" where
  "path_suffix name =
     (let ext = rev (takeWhile (\<lambda>c. c \<noteq> CHR ''.'') (rev name)); stem_len = length name - length ext - 1
      in if CHR ''.'' \<in> set name \<and> ext \<noteq> [] \<and> 0 < stem_len then CHR ''.'' # ext else [])"

record loaders =
  json_loads :: "string \<Rightarrow> pyval option"
  yaml_safe_load :: "string \<Rightarrow> pyval option"
  str_other :: "pyval \<Rightarrow> string"

definition parse_definition_file :: "loaders \<Rightarrow> string \<Rightarrow> string \<Rightarrow> definition_error + raw_config" where
  "parse_definition_file ld ext text =
     (if ext = ''.json'' then load_agent_from_json (json_loads ld) text
      else if ext = ''.yaml'' \<or> ext = ''.yml'' then load_agent_from_yaml (yaml_safe_load ld) text
      else load_agent_from_markdown (yaml_safe_load ld) text)"

definition agent_from_file :: "loaders \<Rightarrow> string \<Rightarrow> string option \<Rightarrow> definition_error + agent_definition" where
  "agent_from_file ld ext text =
     (case text of
        None \<Rightarrow> Inl ConfigLoadError
      | Some t \<Rightarrow>
          bind_result (parse_definition_file ld ext t) (\<lambda>raw.
            validate_agent_definition (normalize_raw_config (str_other ld) raw)))"

text \<open>
  A directory is the list of its files with their texts (\<open>None\<close>: reading raises \<open>OSError\<close>);
  \<open>None\<close> for no directory. The loop stops at the first error and keeps what it registered.
\<close>

fun load_files ::
  "loaders \<Rightarrow> bool \<Rightarrow> (string \<times> string option) list \<Rightarrow> agent_registry \<Rightarrow>
   (definition_error, unit, agent_registry) outcome" where
  "load_files ld builtin [] r = (Inr (), r)"
| "load_files ld builtin ((name, text) # files) r =
     (let ext = lower (path_suffix name) in
      if ext \<notin> {''.json'', ''.md'', ''.yaml'', ''.yml''} then load_files ld builtin files r
      else
        (case agent_from_file ld ext text of
           Inl e \<Rightarrow> (Inl e, r)
         | Inr d \<Rightarrow>
             (case register builtin d r of
                (Inl e, r') \<Rightarrow> (Inl e, r')
              | (Inr _, r') \<Rightarrow> load_files ld builtin files r')))"

type_synonym agent_dir = "(string \<times> string option) list option"

definition load_from_directory ::
  "loaders \<Rightarrow> bool \<Rightarrow> agent_dir \<Rightarrow> agent_registry \<Rightarrow> (definition_error, unit, agent_registry) outcome" where
  "load_from_directory ld builtin dir r =
     (case dir of None \<Rightarrow> (Inr (), r) | Some files \<Rightarrow> load_files ld builtin (sort_key fst files) r)"

definition load_agent_definitions ::
  "loaders \<Rightarrow> agent_dir \<Rightarrow> agent_dir \<Rightarrow> agent_registry \<Rightarrow> (definition_error, unit, agent_registry) outcome" where
  "load_agent_definitions ld builtin_dir user_dir r =
     (case load_from_directory ld True builtin_dir r of
        (Inl e, r') \<Rightarrow> (Inl e, r')
      | (Inr _, r') \<Rightarrow> load_from_directory ld False user_dir r')"

definition primary_definition :: agent_definition where
  "primary_definition =
     \<lparr>ad_id = ''primary'', ad_description = ''Primary policy for built-in isolated subagents'',
      ad_mode = PRIMARY, ad_prompt = None, ad_model = None, ad_steps = None,
      ad_permission = default_permission_spec,
      ad_task_permission = \<lparr>allowed_agents = [''explore'', ''general'', ''reviewer'', ''scout''],
                            denied_agents = [], default_verdict = DENY\<rparr>,
      ad_hidden = True, ad_subagent_depth = 1, ad_workspace_scope = READ_ONLY, ad_extra = []\<rparr>"

definition load_builtin_agents ::
  "loaders \<Rightarrow> agent_dir \<Rightarrow> agent_registry \<Rightarrow> (definition_error, unit, agent_registry) outcome" where
  "load_builtin_agents ld builtin_dir r =
     (case load_agent_definitions ld builtin_dir None r of
        (Inl e, r') \<Rightarrow> (Inl e, r')
      | (Inr _, r') \<Rightarrow> register True primary_definition r')"

definition builtin_agent_ids :: "agent_registry \<Rightarrow> string list" where
  "builtin_agent_ids r = sort (map ad_id (list_agents r))"

end
