(* ===== verification/Paths.thy ===== *)
theory Paths
  imports Prelude
begin

text \<open>
  The part of \<open>pathlib\<close> the sources use. The file system enters as \<open>path_env\<close>: what
  \<open>Path.resolve\<close> returns for a path (\<open>None\<close> when it raises \<open>OSError\<close>) and what \<open>Path.absolute\<close>
  returns, as the list of components below the file system's top directory.
\<close>

record path_env =
  pe_resolve :: "string \<Rightarrow> string list option"
  pe_absolute :: "string \<Rightarrow> string list"

definition is_absolute :: "string \<Rightarrow> bool" where
  "is_absolute p = starts_with p ''/''"

definition path_str :: "string list \<Rightarrow> string" where
  "path_str comps = ''/'' @ join_with ''/'' comps"

text \<open>\<open>a in p.parents\<close>: a proper prefix of the components.\<close>

definition in_parents :: "string list \<Rightarrow> string list \<Rightarrow> bool" where
  "in_parents a p = strict_prefix a p"

text \<open>A file system without links, for examples: resolving splits the path at its slashes.\<close>

definition plain_env :: path_env where
  "plain_env = \<lparr>pe_resolve = (\<lambda>p. Some (filter (\<lambda>s. s \<noteq> []) (split_on CHR ''/'' p))),
                pe_absolute = (\<lambda>p. filter (\<lambda>s. s \<noteq> []) (split_on CHR ''/'' p))\<rparr>"

end
