(* ===== verification/Permissions.thy ===== *)
theory Permissions
  imports Paths Protocol_Types Machine
begin

text \<open>
  \<open>core/subagents/permissions.py\<close>: matching a tool call against permission patterns, the
  decision of a policy, and the approvals that an \<open>ask\<close> creates. \<open>fnmatch\<close> is the standard
  library's (on POSIX, where it does not fold case); canonical tool names come from
  \<open>core/safety/policy.py\<close>.
\<close>

section \<open>fnmatch\<close>

datatype glob =
    GStar
  | GAny
  | GClass bool string \<comment> \<open>negated?, members and ranges\<close>
  | GLit char

fun class_member :: "string \<Rightarrow> char \<Rightarrow> bool" where
  "class_member [] x = False"
| "class_member [a] x = (x = a)"
| "class_member [a, b] x = (x = a \<or> x = b)"
| "class_member (a # b # c # r) x =
     (if b = CHR ''-''
      then (code_point a \<le> code_point x \<and> code_point x \<le> code_point c) \<or> class_member r x
      else x = a \<or> class_member (b # c # r) x)"

text \<open>
  The text after an opening bracket: the class it opens and the rest of the pattern, or
  \<open>None\<close> when no closing bracket follows. A bracket right after the opening (or after the
  exclamation mark) is a member.
\<close>

definition parse_class :: "string \<Rightarrow> (glob \<times> string) option" where
  "parse_class r =
     (let neg = starts_with r ''!'';
          r1 = (if neg then tl r else r);
          first = (if starts_with r1 '']'' then '']'' else []);
          r2 = drop (length first) r1;
          body = takeWhile (\<lambda>c. c \<noteq> CHR '']'') r2;
          after = dropWhile (\<lambda>c. c \<noteq> CHR '']'') r2
      in if after = [] then None else Some (GClass neg (first @ body), tl after))"

lemma parse_class_length: "parse_class r = Some (g, r') \<Longrightarrow> length r' < length r"
proof -
  assume p: "parse_class r = Some (g, r')"
  have d: "length (dropWhile P xs) \<le> length xs" for P and xs :: string
    by (rule length_dropWhile_le)
  let ?r1 = "if starts_with r ''!'' then tl r else r"
  let ?r2 = "drop (length (if starts_with ?r1 '']'' then '']'' else [])) ?r1"
  have "r' = tl (dropWhile (\<lambda>c. c \<noteq> CHR '']'') ?r2)" "dropWhile (\<lambda>c. c \<noteq> CHR '']'') ?r2 \<noteq> []"
    using p by (auto simp: parse_class_def Let_def split: if_splits)
  then have "length r' < length (dropWhile (\<lambda>c. c \<noteq> CHR '']'') ?r2)" by (cases "dropWhile (\<lambda>c. c \<noteq> CHR '']'') ?r2") auto
  also have "\<dots> \<le> length ?r2" by (rule d)
  also have "\<dots> \<le> length r" by (auto simp: le_diff_conv)
  finally show ?thesis .
qed

function parse_glob :: "string \<Rightarrow> glob list" where
  "parse_glob p =
     (case p of
        [] \<Rightarrow> []
      | c # r \<Rightarrow>
          if c = CHR ''*'' then GStar # parse_glob r
          else if c = CHR ''?'' then GAny # parse_glob r
          else if c = CHR ''['' then
            (case parse_class r of
               None \<Rightarrow> GLit c # parse_glob r
             | Some (g, r') \<Rightarrow> g # parse_glob r')
          else GLit c # parse_glob r)"
  by pat_completeness auto
termination
  by (relation "measure length") (auto dest: parse_class_length)

declare parse_glob.simps [simp del]

fun glob_match :: "glob list \<Rightarrow> string \<Rightarrow> bool" where
  "glob_match [] s = (s = [])"
| "glob_match (GStar # gs) s = list_ex (\<lambda>k. glob_match gs (drop k s)) [0..<Suc (length s)]"
| "glob_match (GAny # gs) s = (case s of [] \<Rightarrow> False | _ # cs \<Rightarrow> glob_match gs cs)"
| "glob_match (GClass neg body # gs) s =
     (case s of [] \<Rightarrow> False | c # cs \<Rightarrow> (class_member body c \<noteq> neg) \<and> glob_match gs cs)"
| "glob_match (GLit l # gs) s = (case s of [] \<Rightarrow> False | c # cs \<Rightarrow> c = l \<and> glob_match gs cs)"

definition fnmatch :: "string \<Rightarrow> string \<Rightarrow> bool" where
  "fnmatch name pat = glob_match (parse_glob pat) name"

section \<open>Pattern matching\<close>

fun match_segments :: "string list \<Rightarrow> string list \<Rightarrow> bool" where
  "match_segments [] val_segs = (val_segs = [])"
| "match_segments (first # rest) val_segs =
     (if first = ''**'' then
        list_ex (\<lambda>consumed. match_segments rest (drop consumed val_segs)) [0..<Suc (length val_segs)]
      else
        (case val_segs of
           [] \<Rightarrow> False
         | head # tail \<Rightarrow>
             if fnmatch head first \<or> head = first then match_segments rest tail else False))"

definition pattern_matches :: "string \<Rightarrow> string \<Rightarrow> bool \<Rightarrow> bool" where
  "pattern_matches pattern val path_mode =
     (if pattern = ''**'' \<or> pattern = ''*'' then True
      else if pattern = val then True
      else if path_mode then match_segments (split_on CHR ''/'' pattern) (split_on CHR ''/'' val)
      else fnmatch val pattern)"

section \<open>Tool names\<close>

definition TOOL_NAME_ALIASES :: "(string, string) pydict" where
  "TOOL_NAME_ALIASES =
     [(''web_search'', ''websearch''), (''search_web'', ''websearch''),
      (''web_fetch'', ''webfetch''), (''fetch_url'', ''webfetch''),
      (''open'', ''open_file''), (''browser'', ''open_file''), (''shell'', ''bash''),
      (''final-answer'', ''final_answer''), (''finalanswer'', ''final_answer'')]"

definition canonical_tool_name :: "string \<Rightarrow> string" where
  "canonical_tool_name name =
     (let lowered = lower (strip name) in dict_get_or TOOL_NAME_ALIASES lowered lowered)"

section \<open>Decisions\<close>

datatype decision_kind = D_ALLOW | D_ASK | D_DENY

definition decision_of_verdict :: "permission_verdict \<Rightarrow> decision_kind" where
  "decision_of_verdict v = (case v of ALLOW \<Rightarrow> D_ALLOW | ASK \<Rightarrow> D_ASK | DENY \<Rightarrow> D_DENY)"

record permission_decision =
  dc_kind :: decision_kind
  dc_tool :: string
  dc_matched_rule :: string
  dc_rule_version :: string
  dc_reason :: string

definition decision_allows :: "permission_decision \<Rightarrow> bool" where
  "decision_allows d = (dc_kind d = D_ALLOW)"

definition decision_requires_approval :: "permission_decision \<Rightarrow> bool" where
  "decision_requires_approval d = (dc_kind d = D_ASK)"

definition SYSTEM_HARD_DENY_TOOLS :: "(string, string list) pydict" where
  "SYSTEM_HARD_DENY_TOOLS =
     [(''edit'', [''**/.git/**'', ''**/venv/**'', ''**/.venv/**'']),
      (''delete'', [''**'']),
      (''bash'', [''git push **'', ''rm -rf **'', ''rm -fr **'', ''pip uninstall **'', ''npm publish **''])]"

definition is_path_tool :: "string \<Rightarrow> bool" where
  "is_path_tool tool = (tool \<in> {''read'', ''edit'', ''open_file''})"

definition is_system_hard_denied :: "string \<Rightarrow> string \<Rightarrow> string option" where
  "is_system_hard_denied raw_tool val =
     (let tool = canonical_tool_name raw_tool in
      find (\<lambda>pattern. pattern_matches pattern val (is_path_tool tool))
        (dict_get_or SYSTEM_HARD_DENY_TOOLS tool []))"

record permission_policy =
  pp_permission :: permission_spec
  pp_definition_version :: string
  pp_external_directory :: permission_verdict
  pp_workspace_root :: "string option"

definition policy_from_definition :: "permission_spec \<Rightarrow> string \<Rightarrow> string option \<Rightarrow> permission_policy" where
  "policy_from_definition spec version rt =
     \<lparr>pp_permission = spec, pp_definition_version = version,
      pp_external_directory = ps_external_directory spec, pp_workspace_root = rt\<rparr>"

definition rules_for :: "permission_policy \<Rightarrow> string \<Rightarrow> permission_rule list" where
  "rules_for pol tool =
     (let p = pp_permission pol in
      case dict_get [(''read'', ps_read p), (''edit'', ps_edit p), (''bash'', ps_bash p),
                     (''webfetch'', ps_webfetch p), (''websearch'', ps_websearch p), (''task'', ps_task p)] tool of
        None \<Rightarrow> [] | Some tp \<Rightarrow> tp_rules tp)"

definition touches_external_path :: "path_env \<Rightarrow> permission_policy \<Rightarrow> string \<Rightarrow> string \<Rightarrow> bool" where
  "touches_external_path fs pol raw_tool val =
     (let tool = canonical_tool_name raw_tool in
      if tool \<notin> {''read'', ''edit'', ''bash'', ''open_file''} then False
      else if val = [] then False
      else
        (case pp_workspace_root pol of
           None \<Rightarrow> False
         | Some rt \<Rightarrow>
             if \<not> is_absolute val then False
             else
               (case (pe_resolve fs val, pe_resolve fs rt) of
                  (Some p, Some r) \<Rightarrow> \<not> in_parents p r \<and> p \<noteq> r
                | _ \<Rightarrow> True)))"

text \<open>The loop that keeps the last matching rule.\<close>

definition last_match :: "bool \<Rightarrow> string \<Rightarrow> permission_rule list \<Rightarrow> permission_rule option" where
  "last_match path_mode val rules =
     foldl (\<lambda>matched rule. if pattern_matches (pr_pattern rule) val path_mode then Some rule else matched)
       None rules"

definition evaluate :: "path_env \<Rightarrow> permission_policy \<Rightarrow> string \<Rightarrow> string \<Rightarrow> permission_decision" where
  "evaluate fs pol raw_tool val =
     (let tool = canonical_tool_name raw_tool; version = pp_definition_version pol in
      case is_system_hard_denied tool val of
        Some hard \<Rightarrow>
          \<lparr>dc_kind = D_DENY, dc_tool = tool, dc_matched_rule = ''system:'' @ hard,
           dc_rule_version = version, dc_reason = ''system hard-reject''\<rparr>
      | None \<Rightarrow>
          if touches_external_path fs pol tool val \<and> pp_external_directory pol \<noteq> ALLOW then
            \<lparr>dc_kind = decision_of_verdict (if pp_external_directory pol = ASK then ASK else DENY),
             dc_tool = tool, dc_matched_rule = ''external_directory'', dc_rule_version = version,
             dc_reason = ''path outside workspace''\<rparr>
          else
            (case last_match (is_path_tool tool) val (rules_for pol tool) of
               None \<Rightarrow>
                 \<lparr>dc_kind = D_DENY, dc_tool = tool, dc_matched_rule = ''(no-rule)'',
                  dc_rule_version = version, dc_reason = ''no matching rule; default deny''\<rparr>
             | Some m \<Rightarrow>
                 \<lparr>dc_kind = decision_of_verdict (pr_verdict m), dc_tool = tool,
                  dc_matched_rule = pr_pattern m, dc_rule_version = version, dc_reason = []\<rparr>))"

section \<open>Approvals\<close>

datatype approval_decision = APPROVED | REJECTED | ALLOW_ONCE | ALWAYS_ALLOW_LEVEL

record approval_request =
  aq_approval_id :: string
  aq_session_id :: string
  aq_tool_call_id :: string
  aq_tool :: string
  aq_args_summary :: string
  aq_matched_rule :: string
  aq_rule_version :: string
  aq_reason :: string
  aq_created_at :: rat
  aq_decision :: "approval_decision option"
  aq_decided_at :: "rat option"

record approval_log_entry =
  al_approval_id :: string
  al_request :: approval_request
  al_decision :: approval_decision
  al_decided_at :: rat

record approval_manager =
  am_pending :: "(string, approval_request) pydict"
  am_resolved_ids :: "string list"
  am_log :: "approval_log_entry list"

definition new_approval_manager :: approval_manager where
  "new_approval_manager = \<lparr>am_pending = [], am_resolved_ids = [], am_log = []\<rparr>"

definition approval_create :: "approval_request \<Rightarrow> approval_manager \<Rightarrow> approval_request \<times> approval_manager" where
  "approval_create req m = (req, m\<lparr>am_pending := dict_set (aq_approval_id req) req (am_pending m)\<rparr>)"

definition approval_resolve ::
  "rat \<Rightarrow> string \<Rightarrow> approval_decision \<Rightarrow> approval_manager \<Rightarrow> py_exc + approval_request \<times> approval_manager" where
  "approval_resolve now aid decision m =
     (if aid \<in> set (am_resolved_ids m) then Inl ValueError
      else
        (case dict_get (am_pending m) aid of
           None \<Rightarrow> Inl KeyError
         | Some req \<Rightarrow>
             let req' = req\<lparr>aq_decision := Some decision, aq_decided_at := Some now\<rparr>;
                 entry = \<lparr>al_approval_id = aid, al_request = req', al_decision = decision, al_decided_at = now\<rparr>
             in Inr (req', m\<lparr>am_log := am_log m @ [entry],
                             am_pending := dict_del aid (am_pending m),
                             am_resolved_ids := am_resolved_ids m @ [aid]\<rparr>)))"

definition approval_get_pending :: "approval_manager \<Rightarrow> string \<Rightarrow> approval_request option" where
  "approval_get_pending m aid = dict_get (am_pending m) aid"

definition pending_for_session :: "approval_manager \<Rightarrow> string \<Rightarrow> approval_request list" where
  "pending_for_session m sid = filter (\<lambda>r. aq_session_id r = sid) (dict_values (am_pending m))"

definition approval_is_resolved :: "approval_manager \<Rightarrow> string \<Rightarrow> bool" where
  "approval_is_resolved m aid = (\<not> dict_has (am_pending m) aid)"

definition approval_len :: "approval_manager \<Rightarrow> nat" where
  "approval_len m = length (am_pending m)"

end
