(* ===== verification/Read_Only_Commands.thy ===== *)
theory Read_Only_Commands
  imports Prelude
begin

text \<open>
  \<open>core/subagents/workspace.py\<close>, first part: the check that a shell command of a read-only
  child is read-only. Each scanning loop of the source is a recursive function over the
  remaining characters with the loop's quote state as an argument.
\<close>

section \<open>Tables\<close>

definition READ_ONLY_COMMANDS :: "string list" where
  "READ_ONLY_COMMANDS =
     [''ls'', ''cat'', ''head'', ''tail'', ''grep'', ''rg'', ''find'', ''wc'',
      ''git status'', ''git diff'', ''git log'',
      ''git show'', ''pwd'', ''echo'', ''whoami'', ''env'']"

definition EXECUTING_OPTIONS :: "string list" where
  "EXECUTING_OPTIONS =
     [''--output'', ''--output-file'', ''--out'', ''--out-file'', ''--save'', ''--write'',
      ''--in-place'', ''--log-file'', ''--result-file'', ''--to-file'', ''--patch-file'',
      ''--ext-diff'', ''--textconv'', ''--open-files-in-pager'', ''--pre'']"

definition FIND_EXECUTING_FLAGS :: "string list" where
  "FIND_EXECUTING_FLAGS =
     [''-exec'', ''-execdir'', ''-delete'', ''-fprint'', ''-fprint0'', ''-fprintf'', ''-fls'',
      ''-ok'', ''-okdir'']"

definition EXECUTABLE_CONSTRUCTS :: "string list" where
  "EXECUTABLE_CONSTRUCTS =
     [''('', '')'', ''['', '']'', ''{'', ''}'', ''$'', ''`'', ''::'', ''@'', ''>'', ''<'']"

abbreviation SQ :: char where "SQ \<equiv> CHR 0x27"
abbreviation DQ :: char where "DQ \<equiv> CHR 0x22"
abbreviation BSL :: char where "BSL \<equiv> CHR 0x5C"
abbreviation BTICK :: char where "BTICK \<equiv> CHR 0x60"

datatype quote = Unquoted | Single_Quoted | Double_Quoted

section \<open>The checks\<close>

definition option_name :: "string \<Rightarrow> string" where
  \<comment> \<open>\<open>option.split("=", 1)[0]\<close>\<close>
  "option_name opt = takeWhile (\<lambda>c. c \<noteq> CHR ''='') opt"

definition arguments_execute_or_write :: "string list \<Rightarrow> bool" where
  "arguments_execute_or_write tokens =
     (case tokens of
        [] \<Rightarrow> True
      | tok # rest \<Rightarrow>
          let head = lower tok in
          if head = ''env'' \<and> rest \<noteq> [] then True
          else list_ex (\<lambda>token.
            let opt = lower token; name = option_name opt in
            name \<in> set EXECUTING_OPTIONS
            \<or> (head = ''find'' \<and> name \<in> set FIND_EXECUTING_FLAGS)
            \<or> (head = ''git'' \<and> (opt = ''-c'' \<or> name = ''--config-env''))) rest)"

fun mask_from :: "quote \<Rightarrow> string \<Rightarrow> string" where
  "mask_from q [] = (if q = Unquoted then [] else ''('')"
| "mask_from Single_Quoted (c # cs) =
     (if c = SQ then CHR ''Q'' # mask_from Unquoted cs else mask_from Single_Quoted cs)"
| "mask_from Double_Quoted (c # cs) =
     (if c = BSL then
        (case cs of
           [] \<Rightarrow> mask_from Double_Quoted cs
         | d # ds \<Rightarrow> if d = DQ then mask_from Double_Quoted ds else mask_from Double_Quoted (d # ds))
      else if c = DQ then CHR ''Q'' # mask_from Unquoted cs
      else if c = BTICK then c # mask_from Double_Quoted cs
      else if c = CHR ''$'' then
        (case cs of
           [] \<Rightarrow> mask_from Double_Quoted cs
         | d # ds \<Rightarrow>
             if d = CHR ''('' \<or> d = CHR ''{'' then c # d # mask_from Double_Quoted ds
             else mask_from Double_Quoted (d # ds))
      else mask_from Double_Quoted cs)"
| "mask_from Unquoted (c # cs) =
     (if c = BSL then (case cs of [] \<Rightarrow> [] | d # ds \<Rightarrow> mask_from Unquoted ds)
      else if c = SQ then mask_from Single_Quoted cs
      else if c = DQ then mask_from Double_Quoted cs
      else c # mask_from Unquoted cs)"

definition mask_quoted :: "string \<Rightarrow> string" where
  "mask_quoted s = mask_from Unquoted s"

definition is_separator :: "char \<Rightarrow> bool" where
  "is_separator c = (c \<in> {CHR '';'', CHR ''&'', CHR ''|'', CHR 0x0A, CHR 0x0D})"

text \<open>The first argument is the open quote character, the second the segment read so far.\<close>

fun split_segments_from :: "char option \<Rightarrow> string \<Rightarrow> string \<Rightarrow> string list" where
  "split_segments_from q current [] = [current]"
| "split_segments_from (Some q) current (c # cs) =
     split_segments_from (if c = q then None else Some q) (current @ [c]) cs"
| "split_segments_from None current (c # cs) =
     (if c = SQ \<or> c = DQ then split_segments_from (Some c) (current @ [c]) cs
      else if is_separator c then current # split_segments_from None [] cs
      else split_segments_from None (current @ [c]) cs)"

definition split_command_segments :: "string \<Rightarrow> string list" where
  "split_command_segments command =
     filter (\<lambda>s. s \<noteq> []) (map strip (split_segments_from None [] command))"

definition flush :: "string \<Rightarrow> string list" where
  "flush current = (if current = [] then [] else [current])"

fun tokens_from :: "quote \<Rightarrow> string \<Rightarrow> string \<Rightarrow> string list" where
  "tokens_from q current [] = flush current"
| "tokens_from Single_Quoted current (c # cs) =
     (if c = SQ then tokens_from Unquoted current cs
      else tokens_from Single_Quoted (current @ [c]) cs)"
| "tokens_from Double_Quoted current (c # cs) =
     (if c = DQ then tokens_from Unquoted current cs
      else if c = BTICK then
        (case cs of
           [] \<Rightarrow> tokens_from Double_Quoted (current @ [c]) []
         | d # ds \<Rightarrow> tokens_from Double_Quoted (current @ [c, d]) ds)
      else tokens_from Double_Quoted (current @ [c]) cs)"
| "tokens_from Unquoted current (c # cs) =
     (if c = SQ then tokens_from Single_Quoted current cs
      else if c = DQ then tokens_from Double_Quoted current cs
      else if is_space c then flush current @ tokens_from Unquoted [] cs
      else tokens_from Unquoted (current @ [c]) cs)"

definition real_tokens :: "string \<Rightarrow> string list" where
  "real_tokens segment = tokens_from Unquoted [] segment"

text \<open>
  The substitution of stderr-only redirections: what the regular expression
  \<^verbatim>\<open>\d?>&\d|\d?>\s*/dev/null\<close> matches at the start of the text, as the length of the match.
\<close>

definition is_digit :: "char \<Rightarrow> bool" where
  "is_digit c = (48 \<le> code_point c \<and> code_point c \<le> 57)"

definition match_after_gt :: "string \<Rightarrow> nat option" where
  "match_after_gt s =
     (case s of
        c # d # _ \<Rightarrow>
          if c = CHR ''&'' \<and> is_digit d then Some 2
          else let ws = takeWhile is_space s; r = dropWhile is_space s in
               if starts_with r ''/dev/null'' then Some (length ws + 9) else None
      | _ \<Rightarrow> None)"

definition match_redirect :: "string \<Rightarrow> nat option" where
  "match_redirect s =
     (case s of
        [] \<Rightarrow> None
      | c # cs \<Rightarrow>
          if c = CHR ''>'' then map_option (\<lambda>n. n + 1) (match_after_gt cs)
          else if is_digit c then
            (case cs of
               [] \<Rightarrow> None
             | d # ds \<Rightarrow> if d = CHR ''>'' then map_option (\<lambda>n. n + 2) (match_after_gt ds) else None)
          else None)"

lemma match_redirect_pos: "match_redirect s = Some n \<Longrightarrow> 0 < n"
  by (auto simp: match_redirect_def split: list.splits if_splits)

function sub_redirects :: "string \<Rightarrow> string" where
  "sub_redirects s =
     (case s of
        [] \<Rightarrow> []
      | c # cs \<Rightarrow>
          (case match_redirect s of
             Some n \<Rightarrow> CHR '' '' # sub_redirects (drop n s)
           | None \<Rightarrow> c # sub_redirects cs))"
  by pat_completeness auto
termination
  by (relation "measure length") (auto dest: match_redirect_pos)

declare sub_redirects.simps [simp del]

definition segment_is_read_only :: "string \<Rightarrow> bool" where
  "segment_is_read_only segment =
     (let masked = mask_quoted segment in
      if list_ex (contains_str masked) EXECUTABLE_CONSTRUCTS then False
      else if \<not> list_ex (\<lambda>p. masked = p \<or> starts_with masked (p @ '' '')) READ_ONLY_COMMANDS then False
      else if arguments_execute_or_write (real_tokens segment) then False
      else True)"

definition is_read_only_command :: "string \<Rightarrow> bool" where
  "is_read_only_command command =
     (let cmd = strip command in
      if cmd = [] then False
      else
        let segments = split_command_segments (sub_redirects cmd) in
        if segments = [] then False
        else list_all segment_is_read_only segments)"

end
