(* ===== verification/Sessions.thy ===== *)
theory Sessions
  imports Protocol_Types Machine
begin

text \<open>
  \<open>core/subagents/sessions.py\<close>: the life cycle of one child session, the tree of the child
  sessions under one Primary session, and recursive cancellation. A clock reading is an
  argument (\<open>now\<close>); a cancellation callback is the identifier of the runtime whose token it
  sets, and the callbacks that ran are returned beside the tree.
\<close>

section \<open>Child sessions\<close>

record child_session =
  cs_session_id :: string
  cs_parent_session_id :: string
  cs_root_session_id :: string
  cs_agent_id :: string
  cs_trigger :: trigger_kind
  cs_definition_version :: string
  cs_created_at :: rat
  cs_started_at :: "rat option"
  cs_terminal_at :: "rat option"
  cs_policy :: effective_task_policy
  cs_event_cursor :: int
  cs_result :: "task_result option"
  cs_status :: child_status
  cs_cancel_callback :: "string option"

definition TERMINAL_STATES :: "child_status list" where
  "TERMINAL_STATES = [COMPLETED, FAILED, CANCELLED, DENIED, TIMED_OUT]"

definition ACTIVE_STATES :: "child_status list" where
  "ACTIVE_STATES = [CREATED, QUEUED, RUNNING, FINALIZING]"

definition is_terminal :: "child_session \<Rightarrow> bool" where
  "is_terminal s = (cs_status s \<in> set TERMINAL_STATES)"

definition is_active :: "child_session \<Rightarrow> bool" where
  "is_active s = (cs_status s \<in> set ACTIVE_STATES)"

fun VALID_TRANSITIONS :: "child_status \<Rightarrow> child_status list" where
  "VALID_TRANSITIONS CREATED = [QUEUED, CANCELLED, DENIED]"
| "VALID_TRANSITIONS QUEUED = [RUNNING, CANCELLED]"
| "VALID_TRANSITIONS RUNNING = [FINALIZING, COMPLETED, FAILED, CANCELLED, TIMED_OUT]"
| "VALID_TRANSITIONS FINALIZING = [COMPLETED, FAILED, CANCELLED, TIMED_OUT]"
| "VALID_TRANSITIONS COMPLETED = []"
| "VALID_TRANSITIONS FAILED = []"
| "VALID_TRANSITIONS CANCELLED = []"
| "VALID_TRANSITIONS DENIED = []"
| "VALID_TRANSITIONS TIMED_OUT = []"

datatype session_error =
    InvalidStateTransition string child_status child_status
  | SessionNotFound string
  | SessionAlreadyExists string

definition transition :: "rat \<Rightarrow> child_session \<Rightarrow> child_status \<Rightarrow> session_error + child_session" where
  "transition now s target =
     (let current = cs_status s; allowed = VALID_TRANSITIONS current in
      if target \<in> set allowed then
        (let s' = s\<lparr>cs_status := target\<rparr> in
         if target \<in> set TERMINAL_STATES then Inr (s'\<lparr>cs_terminal_at := Some now\<rparr>)
         else if target = RUNNING then Inr (s'\<lparr>cs_started_at := Some now\<rparr>)
         else Inr s')
      else if current \<in> set TERMINAL_STATES \<and> current = target then Inr s
      else Inl (InvalidStateTransition (cs_session_id s) current target))"

section \<open>The session tree\<close>

record session_tree =
  tree_root :: string
  t_sessions :: "(string, child_session) pydict"
  t_children :: "(string, string list) pydict"

definition new_tree :: "string \<Rightarrow> session_tree" where
  "new_tree rid = \<lparr>tree_root = rid, t_sessions = [], t_children = []\<rparr>"

text \<open>\<open>session.parent_session_id or self.root_session_id\<close>.\<close>

definition parent_key :: "session_tree \<Rightarrow> child_session \<Rightarrow> string" where
  "parent_key t s = (if cs_parent_session_id s \<noteq> [] then cs_parent_session_id s else tree_root t)"

definition tree_add :: "child_session \<Rightarrow> session_tree \<Rightarrow> session_error + session_tree" where
  "tree_add s t =
     (if dict_has (t_sessions t) (cs_session_id s) then Inl (SessionAlreadyExists (cs_session_id s))
      else
        let p = parent_key t s in
        Inr (t\<lparr>t_sessions := dict_set (cs_session_id s) s (t_sessions t),
               t_children := dict_set p (dict_get_or (t_children t) p [] @ [cs_session_id s]) (t_children t)\<rparr>))"

definition tree_get :: "session_tree \<Rightarrow> string \<Rightarrow> session_error + child_session" where
  "tree_get t sid =
     (case dict_get (t_sessions t) sid of None \<Rightarrow> Inl (SessionNotFound sid) | Some s \<Rightarrow> Inr s)"

definition get_children :: "session_tree \<Rightarrow> string \<Rightarrow> child_session list" where
  "get_children t sid =
     List.map_filter (dict_get (t_sessions t)) (dict_get_or (t_children t) sid [])"

definition get_active_children :: "session_tree \<Rightarrow> string \<Rightarrow> child_session list" where
  "get_active_children t sid = filter is_active (get_children t sid)"

definition list_terminal :: "session_tree \<Rightarrow> child_session list" where
  "list_terminal t = filter is_terminal (dict_values (t_sessions t))"

definition list_active :: "session_tree \<Rightarrow> child_session list" where
  "list_active t = filter is_active (dict_values (t_sessions t))"

definition list_all_sessions :: "session_tree \<Rightarrow> child_session list" where
  "list_all_sessions t = sort_key cs_created_at (dict_values (t_sessions t))"

definition tree_len :: "session_tree \<Rightarrow> nat" where
  "tree_len t = length (t_sessions t)"

definition tree_contains :: "session_tree \<Rightarrow> string \<Rightarrow> bool" where
  "tree_contains t sid = dict_has (t_sessions t) sid"

definition update_session :: "string \<Rightarrow> child_session \<Rightarrow> session_tree \<Rightarrow> session_tree" where
  "update_session sid s t = t\<lparr>t_sessions := dict_set sid s (t_sessions t)\<rparr>"

subsection \<open>Recursive cancellation\<close>

text \<open>
  The body of \<open>cancel_session\<close> after its loop: cancel the session itself unless it is
  terminal, then run its callback. The second component lists the callbacks that ran.
\<close>

definition cancel_self :: "rat \<Rightarrow> string \<Rightarrow> session_tree \<times> string list \<Rightarrow> session_tree \<times> string list" where
  "cancel_self now sid st =
     (case dict_get (t_sessions (fst st)) sid of
        None \<Rightarrow> st
      | Some s \<Rightarrow>
          if is_active s then
            ((case transition now s CANCELLED of
                Inl _ \<Rightarrow> fst st
              | Inr s' \<Rightarrow> update_session sid s' (fst st)),
             (case cs_cancel_callback s of None \<Rightarrow> snd st | Some cb \<Rightarrow> snd st @ [cb]))
          else st)"

text \<open>
  The recursion is Python's and has no bound of its own, so the model spends fuel: \<open>None\<close> is
  a recursion deeper than the fuel.
\<close>

fun cancel_session ::
    "nat \<Rightarrow> rat \<Rightarrow> string \<Rightarrow> session_tree \<times> string list \<Rightarrow>
     (session_error + session_tree \<times> string list) option"
  and cancel_sessions ::
    "nat \<Rightarrow> rat \<Rightarrow> string list \<Rightarrow> session_tree \<times> string list \<Rightarrow>
     (session_error + session_tree \<times> string list) option" where
  "cancel_session 0 now sid st = None"
| "cancel_session (Suc n) now sid st =
     (case tree_get (fst st) sid of
        Inl e \<Rightarrow> Some (Inl e)
      | Inr _ \<Rightarrow>
          (case cancel_sessions n now (map cs_session_id (get_children (fst st) sid)) st of
             None \<Rightarrow> None
           | Some (Inl e) \<Rightarrow> Some (Inl e)
           | Some (Inr st') \<Rightarrow> Some (Inr (cancel_self now sid st'))))"
| "cancel_sessions n now [] st = Some (Inr st)"
| "cancel_sessions n now (c # cs) st =
     (case cancel_session n now c st of
        None \<Rightarrow> None
      | Some (Inl e) \<Rightarrow> Some (Inl e)
      | Some (Inr st') \<Rightarrow> cancel_sessions n now cs st')"

definition cancel_all ::
  "nat \<Rightarrow> rat \<Rightarrow> session_tree \<times> string list \<Rightarrow> (session_error + session_tree \<times> string list) option" where
  "cancel_all n now st =
     cancel_sessions n now (map cs_session_id (get_children (fst st) (tree_root (fst st)))) st"

section \<open>Creating sessions\<close>

definition mode_value :: "agent_mode \<Rightarrow> string" where
  "mode_value m = (case m of PRIMARY \<Rightarrow> ''primary'' | SUBAGENT \<Rightarrow> ''subagent'' | ALL_MODES \<Rightarrow> ''all'')"

definition str_optional_int :: "int option \<Rightarrow> string" where
  "str_optional_int v = (case v of None \<Rightarrow> ''None'' | Some i \<Rightarrow> str_int i)"

text \<open>\<open>sha256_hex\<close> stands for \<open>hashlib.sha256(key.encode()).hexdigest()\<close>.\<close>

definition definition_fingerprint :: "(string \<Rightarrow> string) \<Rightarrow> agent_definition option \<Rightarrow> string" where
  "definition_fingerprint sha256_hex d =
     (case d of
        None \<Rightarrow> ''unknown''
      | Some d \<Rightarrow>
          take 12 (sha256_hex
            (ad_id d @ '':'' @ mode_value (ad_mode d) @ '':'' @ str_optional_int (ad_steps d) @ '':''
             @ str_int (ad_subagent_depth d))))"

definition create_child_session ::
  "(string \<Rightarrow> string) \<Rightarrow> string \<Rightarrow> rat \<Rightarrow> task_request \<Rightarrow> effective_task_policy \<Rightarrow>
   agent_definition option \<Rightarrow> child_session" where
  "create_child_session sha256_hex uuid_hex now req policy d =
     \<lparr>cs_session_id = ''ses_child_'' @ take 12 uuid_hex,
      cs_parent_session_id = tr_parent_session_id req,
      cs_root_session_id = tr_parent_session_id req,
      cs_agent_id = tr_agent_id req,
      cs_trigger = tr_trigger req,
      cs_definition_version = definition_fingerprint sha256_hex d,
      cs_created_at = now, cs_started_at = None, cs_terminal_at = None,
      cs_policy = policy, cs_event_cursor = 0, cs_result = None,
      cs_status = CREATED, cs_cancel_callback = None\<rparr>"

end
