(* ===== verification/Workspace.thy ===== *)
theory Workspace
  imports Read_Only_Commands Paths Sessions
begin

text \<open>
  \<open>core/subagents/workspace.py\<close>, second part: write leases over paths and the validation of a
  child's edits and shell commands against its workspace scope. The file system enters as
  \<open>path_env\<close> (theory Paths); clock readings and new identifiers are arguments.
\<close>

section \<open>Errors\<close>

datatype workspace_error =
    LeaseConflictError string string
  | NoWorkspaceScopeError string string
  | OutsidePathError string workspace_mode
  | LeaseExpiredError string string
  | WorkspaceError string string

fun workspace_error_code :: "workspace_error \<Rightarrow> string" where
  "workspace_error_code (LeaseConflictError p h) = ''workspace.conflict''"
| "workspace_error_code (NoWorkspaceScopeError s t) = ''workspace.no_scope''"
| "workspace_error_code (OutsidePathError p m) = ''workspace.outside_path''"
| "workspace_error_code (LeaseExpiredError p l) = ''workspace.lease_expired''"
| "workspace_error_code (WorkspaceError msg code) = code"

definition workspace_mode_value :: "workspace_mode \<Rightarrow> string" where
  "workspace_mode_value m =
     (case m of READ_ONLY \<Rightarrow> ''read_only'' | LEASED_WRITE \<Rightarrow> ''leased_write''
      | ISOLATED_WORKTREE \<Rightarrow> ''isolated_worktree'')"

definition quoted :: "string \<Rightarrow> string" where
  "quoted s = [SQ] @ s @ [SQ]"

fun workspace_error_message :: "workspace_error \<Rightarrow> string" where
  "workspace_error_message (LeaseConflictError p h) =
     ''Workspace lease conflict: '' @ quoted p @ '' is held by '' @ quoted h"
| "workspace_error_message (NoWorkspaceScopeError s t) =
     ''Session '' @ quoted s @ '' attempted '' @ quoted t @ '' without write ''
     @ ''WorkspaceScope (leased_write or isolated_worktree required)''"
| "workspace_error_message (OutsidePathError p m) =
     ''Path '' @ quoted p @ '' is outside the '' @ quoted (workspace_mode_value m) @ '' workspace scope''"
| "workspace_error_message (LeaseExpiredError p l) =
     ''Write to '' @ quoted p @ '' rejected: lease '' @ quoted l @ '' has expired''"
| "workspace_error_message (WorkspaceError msg code) = msg"

section \<open>Leases\<close>

record lease =
  ls_lease_id :: string
  ls_session_id :: string
  ls_path :: string
  ls_acquired_at :: rat
  ls_expires_at :: rat
  ls_released :: bool

definition lease_is_expired :: "rat \<Rightarrow> lease \<Rightarrow> bool" where
  "lease_is_expired now l =
     (if ls_released l then True
      else if ls_expires_at l \<le> 0 then False
      else now > ls_expires_at l)"

definition lease_is_active :: "rat \<Rightarrow> lease \<Rightarrow> bool" where
  "lease_is_active now l = (\<not> ls_released l \<and> \<not> lease_is_expired now l)"

record lease_manager =
  default_lease_ttl_seconds :: rat
  lm_leases :: "(string, lease) pydict"

definition new_lease_manager :: lease_manager where
  "new_lease_manager = \<lparr>default_lease_ttl_seconds = 300, lm_leases = []\<rparr>"

definition lm_normalize :: "path_env \<Rightarrow> string \<Rightarrow> string" where
  "lm_normalize fs p =
     (case pe_resolve fs p of Some comps \<Rightarrow> path_str comps | None \<Rightarrow> path_str (pe_absolute fs p))"

definition lm_conflict :: "rat \<Rightarrow> string \<Rightarrow> lease_manager \<Rightarrow> string \<Rightarrow> string option" where
  "lm_conflict now sid lm key =
     (case dict_get (lm_leases lm) key of
        None \<Rightarrow> None
      | Some l \<Rightarrow> if lease_is_active now l \<and> ls_session_id l \<noteq> sid then Some (ls_session_id l) else None)"

fun lm_first_conflict :: "rat \<Rightarrow> string \<Rightarrow> lease_manager \<Rightarrow> string list \<Rightarrow> workspace_error option" where
  "lm_first_conflict now sid lm [] = None"
| "lm_first_conflict now sid lm (key # keys) =
     (case lm_conflict now sid lm key of
        Some holder \<Rightarrow> Some (LeaseConflictError key holder)
      | None \<Rightarrow> lm_first_conflict now sid lm keys)"

definition lm_acquire ::
  "path_env \<Rightarrow> string \<Rightarrow> rat \<Rightarrow> string \<Rightarrow> string list \<Rightarrow> rat option \<Rightarrow> lease_manager \<Rightarrow>
   workspace_error + lease \<times> lease_manager" where
  "lm_acquire fs new_id now sid paths ttl_seconds lm =
     (let norm_paths = map (lm_normalize fs) paths in
      case lm_first_conflict now sid lm norm_paths of
        Some e \<Rightarrow> Inl e
      | None \<Rightarrow>
          let ttl = (case ttl_seconds of Some t \<Rightarrow> t | None \<Rightarrow> default_lease_ttl_seconds lm);
              expires_at = (if ttl \<le> 0 then 0 else now + ttl);
              l = \<lparr>ls_lease_id = new_id, ls_session_id = sid,
                   ls_path = (case norm_paths of [] \<Rightarrow> [] | p # _ \<Rightarrow> p),
                   ls_acquired_at = now, ls_expires_at = expires_at, ls_released = False\<rparr>
          in Inr (l, lm\<lparr>lm_leases := fold (\<lambda>key. dict_set key l) norm_paths (lm_leases lm)\<rparr>))"

definition lm_is_held_by :: "path_env \<Rightarrow> rat \<Rightarrow> string \<Rightarrow> string \<Rightarrow> lease_manager \<Rightarrow> bool" where
  "lm_is_held_by fs now lid p lm =
     (case dict_get (lm_leases lm) (lm_normalize fs p) of
        None \<Rightarrow> False
      | Some l \<Rightarrow> ls_lease_id l = lid \<and> lease_is_active now l)"

definition lm_holder :: "path_env \<Rightarrow> rat \<Rightarrow> string \<Rightarrow> lease_manager \<Rightarrow> lease option" where
  "lm_holder fs now p lm =
     (case dict_get (lm_leases lm) (lm_normalize fs p) of
        None \<Rightarrow> None
      | Some l \<Rightarrow> if lease_is_active now l then Some l else None)"

text \<open>
  The releasing loops delete every entry they match. The \<open>_released\<close> flag they set is on the
  lease object, which no longer is in the dict afterwards.
\<close>

definition lm_drop :: "(lease \<Rightarrow> bool) \<Rightarrow> lease_manager \<Rightarrow> nat \<times> lease_manager" where
  "lm_drop P lm =
     (length (filter (\<lambda>(key, l). P l) (lm_leases lm)),
      lm\<lparr>lm_leases := filter (\<lambda>(key, l). \<not> P l) (lm_leases lm)\<rparr>)"

definition lm_release :: "string \<Rightarrow> lease_manager \<Rightarrow> lease_manager" where
  "lm_release lid lm = snd (lm_drop (\<lambda>l. ls_lease_id l = lid) lm)"

definition lm_release_all_for_session :: "string \<Rightarrow> lease_manager \<Rightarrow> nat \<times> lease_manager" where
  "lm_release_all_for_session sid lm = lm_drop (\<lambda>l. ls_session_id l = sid) lm"

definition lm_recover_expired :: "rat \<Rightarrow> lease_manager \<Rightarrow> nat \<times> lease_manager" where
  "lm_recover_expired now lm = lm_drop (lease_is_expired now) lm"

section \<open>Validation\<close>

record workspace_validator =
  wv_scope :: workspace_scope
  wv_root :: "string option"

definition make_validator :: "workspace_scope \<Rightarrow> string option \<Rightarrow> workspace_validator" where
  "make_validator scope rt = \<lparr>wv_scope = scope, wv_root = rt\<rparr>"

definition check_path_in_scope ::
  "path_env \<Rightarrow> workspace_validator \<Rightarrow> string \<Rightarrow> workspace_mode \<Rightarrow> workspace_error + unit" where
  "check_path_in_scope fs v p mode =
     (case wv_root v of
        None \<Rightarrow> Inr ()
      | Some rt \<Rightarrow>
          if \<not> is_absolute p then Inr ()
          else
            (case (pe_resolve fs p, pe_resolve fs rt) of
               (Some resolved, Some root_resolved) \<Rightarrow>
                 if resolved \<noteq> root_resolved \<and> \<not> in_parents root_resolved resolved
                 then Inl (OutsidePathError p mode) else Inr ()
             | _ \<Rightarrow> Inl (OutsidePathError p mode)))"

definition check_edit ::
  "path_env \<Rightarrow> rat \<Rightarrow> workspace_validator \<Rightarrow> string \<Rightarrow> string \<Rightarrow> lease_manager option \<Rightarrow>
   workspace_error + unit" where
  "check_edit fs now v sid p lm =
     (if ws_mode (wv_scope v) = READ_ONLY then Inl (NoWorkspaceScopeError sid ''edit'')
      else
        bind_result (check_path_in_scope fs v p (ws_mode (wv_scope v))) (\<lambda>_.
          if ws_mode (wv_scope v) = ISOLATED_WORKTREE then Inr ()
          else if ws_mode (wv_scope v) = LEASED_WRITE then
            (case lm of
               None \<Rightarrow> Inl (NoWorkspaceScopeError sid ''edit'')
             | Some m \<Rightarrow>
                 (case lm_holder fs now p m of
                    None \<Rightarrow> Inl (NoWorkspaceScopeError sid (''edit (no lease on '' @ quoted p @ '')''))
                  | Some h \<Rightarrow>
                      if ls_session_id h \<noteq> sid
                      then Inl (NoWorkspaceScopeError sid (''edit (no lease on '' @ quoted p @ '')''))
                      else Inr ()))
          else Inl (NoWorkspaceScopeError sid ''edit'')))"

definition check_bash :: "workspace_validator \<Rightarrow> string \<Rightarrow> string \<Rightarrow> workspace_error + unit" where
  "check_bash v sid command =
     (if ws_mode (wv_scope v) = READ_ONLY \<and> \<not> is_read_only_command command
      then Inl (NoWorkspaceScopeError sid (''bash: '' @ take 40 command))
      else Inr ())"

end
