(* ===== verification/Budget.thy ===== *)
theory Budget
  imports Protocol_Types Machine
begin

text \<open>
  \<open>core/subagents/budget.py\<close>: the limits of one child session (steps, tokens, wall clock), the
  limits of one Primary root (children running at a time, tasks in total) and the mapping of
  a violation to a terminal status. \<open>now_ms\<close> is \<open>int(time.time() * 1000)\<close> at the call.
\<close>

section \<open>Errors\<close>

datatype budget_error =
    StepLimitExceeded int int
  | TokenLimitExceeded int int
  | TimeLimitExceeded int int
  | ConcurrencyLimitExceeded int int
  | TotalTaskLimitExceeded int int
  | BudgetError string string \<comment> \<open>message and explicit code\<close>

fun budget_error_code :: "budget_error \<Rightarrow> string" where
  "budget_error_code (StepLimitExceeded u m) = ''budget.steps''"
| "budget_error_code (TokenLimitExceeded u m) = ''budget.tokens''"
| "budget_error_code (TimeLimitExceeded u m) = ''budget.time''"
| "budget_error_code (ConcurrencyLimitExceeded u m) = ''budget.concurrency''"
| "budget_error_code (TotalTaskLimitExceeded u m) = ''budget.total_tasks''"
| "budget_error_code (BudgetError msg code) = (if code = [] then ''budget.error'' else code)"

fun budget_error_message :: "budget_error \<Rightarrow> string" where
  "budget_error_message (StepLimitExceeded u m) =
     ''Step limit exceeded: '' @ str_int u @ ''/'' @ str_int m"
| "budget_error_message (TokenLimitExceeded u m) =
     ''Token limit exceeded: '' @ str_int u @ ''/'' @ str_int m"
| "budget_error_message (TimeLimitExceeded u m) =
     ''Wall-clock limit exceeded: '' @ str_int (u div 1000) @ ''s/'' @ str_int m @ ''s''"
| "budget_error_message (ConcurrencyLimitExceeded u m) =
     ''Concurrency limit exceeded: '' @ str_int u @ ''/'' @ str_int m @ '' active''"
| "budget_error_message (TotalTaskLimitExceeded u m) =
     ''Total task limit exceeded: '' @ str_int u @ ''/'' @ str_int m"
| "budget_error_message (BudgetError msg code) = msg"

section \<open>BudgetGuard\<close>

record budget_guard =
  bg_budget :: budget_spec
  steps_used :: int
  tokens_used :: int
  wall_start_ms :: int

definition new_guard :: "budget_spec \<Rightarrow> int \<Rightarrow> budget_guard" where
  "new_guard b now_ms = \<lparr>bg_budget = b, steps_used = 0, tokens_used = 0, wall_start_ms = now_ms\<rparr>"

text \<open>The counter is increased before the limit is tested, so a refused call is counted too.\<close>

definition consume_step :: "budget_guard \<Rightarrow> (budget_error, unit, budget_guard) outcome" where
  "consume_step g =
     (let g' = g\<lparr>steps_used := steps_used g + 1\<rparr> in
      if steps_used g' > max_steps (bg_budget g')
      then (Inl (StepLimitExceeded (steps_used g') (max_steps (bg_budget g'))), g')
      else (Inr (), g'))"

definition consume_tokens :: "int \<Rightarrow> budget_guard \<Rightarrow> (budget_error, unit, budget_guard) outcome" where
  "consume_tokens cnt g =
     (let g' = g\<lparr>tokens_used := tokens_used g + cnt\<rparr> in
      if tokens_used g' > max_tokens (bg_budget g')
      then (Inl (TokenLimitExceeded (tokens_used g') (max_tokens (bg_budget g'))), g')
      else (Inr (), g'))"

definition remaining_steps :: "budget_guard \<Rightarrow> int" where
  "remaining_steps g = max 0 (max_steps (bg_budget g) - steps_used g)"

definition remaining_tokens :: "budget_guard \<Rightarrow> int" where
  "remaining_tokens g = max 0 (max_tokens (bg_budget g) - tokens_used g)"

definition elapsed_wall_ms :: "int \<Rightarrow> budget_guard \<Rightarrow> int" where
  "elapsed_wall_ms now_ms g = now_ms - wall_start_ms g"

definition check_wall_clock :: "int \<Rightarrow> budget_guard \<Rightarrow> budget_error + unit" where
  "check_wall_clock now_ms g =
     (let max_ms = max_wall_time_seconds (bg_budget g) * 1000 in
      if max_ms > 0 \<and> elapsed_wall_ms now_ms g > max_ms
      then Inl (TimeLimitExceeded (elapsed_wall_ms now_ms g) (max_wall_time_seconds (bg_budget g)))
      else Inr ())"

definition is_exhausted :: "int \<Rightarrow> budget_guard \<Rightarrow> bool" where
  "is_exhausted now_ms g =
     (if remaining_steps g \<le> 0 \<or> remaining_tokens g \<le> 0 then True
      else let max_ms = max_wall_time_seconds (bg_budget g) * 1000
           in max_ms > 0 \<and> elapsed_wall_ms now_ms g > max_ms)"

definition guard_usage :: "int \<Rightarrow> budget_guard \<Rightarrow> usage_record" where
  "guard_usage now_ms g =
     usage_post_init
       \<lparr>ur_steps = steps_used g, ur_input_tokens = Some (tokens_used g), ur_output_tokens = None,
        ur_cache_hit_tokens = None, ur_wall_time_ms = elapsed_wall_ms now_ms g, ur_retry_count = 0,
        ur_reporting_status = (if tokens_used g \<noteq> 0 then Partial else Not_Reported)\<rparr>"

section \<open>ConcurrencyGuard\<close>

record concurrency_guard =
  max_concurrent :: int
  max_total_tasks :: int
  cg_active :: "(string, string list) pydict" \<comment> \<open>the values are sets: no duplicates\<close>
  cg_total :: "(string, int) pydict"

definition new_concurrency_guard :: "int \<Rightarrow> int \<Rightarrow> concurrency_guard" where
  "new_concurrency_guard mc mt =
     \<lparr>max_concurrent = mc, max_total_tasks = mt, cg_active = [], cg_total = []\<rparr>"

definition set_add :: "string \<Rightarrow> string list \<Rightarrow> string list" where
  "set_add x xs = (if x \<in> set xs then xs else xs @ [x])"

definition set_discard :: "string \<Rightarrow> string list \<Rightarrow> string list" where
  "set_discard x xs = filter (\<lambda>y. y \<noteq> x) xs"

definition cg_acquire ::
  "string \<Rightarrow> string \<Rightarrow> concurrency_guard \<Rightarrow> (budget_error, unit, concurrency_guard) outcome" where
  "cg_acquire rid sid g =
     (let active = dict_get_or (cg_active g) rid [];
          g1 = (if dict_has (cg_active g) rid then g else g\<lparr>cg_active := dict_set rid [] (cg_active g)\<rparr>);
          total = dict_get_or (cg_total g1) rid 0
      in
      if total + 1 > max_total_tasks g1 then (Inl (TotalTaskLimitExceeded total (max_total_tasks g1)), g1)
      else if int (length active) \<ge> max_concurrent g1 then
        (Inl (ConcurrencyLimitExceeded (int (length active)) (max_concurrent g1)), g1)
      else (Inr (), g1\<lparr>cg_active := dict_set rid (set_add sid active) (cg_active g1),
                       cg_total := dict_set rid (total + 1) (cg_total g1)\<rparr>))"

definition cg_release :: "string \<Rightarrow> string \<Rightarrow> concurrency_guard \<Rightarrow> concurrency_guard" where
  "cg_release rid sid g =
     (case dict_get (cg_active g) rid of
        None \<Rightarrow> g
      | Some active \<Rightarrow> g\<lparr>cg_active := dict_set rid (set_discard sid active) (cg_active g)\<rparr>)"

definition active_count :: "concurrency_guard \<Rightarrow> string \<Rightarrow> nat" where
  "active_count g rid = length (dict_get_or (cg_active g) rid [])"

definition total_count :: "concurrency_guard \<Rightarrow> string \<Rightarrow> int" where
  "total_count g rid = dict_get_or (cg_total g) rid 0"

definition release_all_for_root :: "string \<Rightarrow> concurrency_guard \<Rightarrow> nat \<times> concurrency_guard" where
  "release_all_for_root rid g =
     (length (dict_get_or (cg_active g) rid []), g\<lparr>cg_active := dict_del rid (cg_active g)\<rparr>)"

section \<open>CancellationScope\<close>

record cancellation_scope =
  scope_cancelled :: bool

definition new_scope :: cancellation_scope where
  "new_scope = \<lparr>scope_cancelled = False\<rparr>"

definition scope_cancel :: "cancellation_scope \<Rightarrow> cancellation_scope" where
  "scope_cancel s = s\<lparr>scope_cancelled := True\<rparr>"

definition scope_throw_if_cancelled :: "cancellation_scope \<Rightarrow> string + unit" where
  "scope_throw_if_cancelled s =
     (if scope_cancelled s then Inl ''Child session cancelled via scope'' else Inr ())"

definition terminate_for_budget_error :: "budget_error \<Rightarrow> string" where
  "terminate_for_budget_error e =
     (if budget_error_code e = ''budget.time'' then ''timed_out''
      else if budget_error_code e \<in> {''budget.concurrency'', ''budget.total_tasks''} then ''failed''
      else ''failed'')"

section \<open>Correctness of BudgetGuard\<close>

definition guard_step :: "budget_guard \<Rightarrow> unit \<Rightarrow> budget_guard" where
  "guard_step g u = snd (consume_step g)"

lemma consume_step_simps [step_simps]:
  "ok (fst (consume_step g)) \<longleftrightarrow> steps_used g < max_steps (bg_budget g)"
  "steps_used (snd (consume_step g)) = steps_used g + 1"
  "bg_budget (snd (consume_step g)) = bg_budget g"
  by (auto simp: consume_step_def Let_def)

lemma run_guard_step:
  "steps_used (run guard_step g us) = steps_used g + int (length us)"
  "bg_budget (run guard_step g us) = bg_budget g"
  by (induction us arbitrary: g) (auto simp: guard_step_def step_simps)

lemma consume_tokens_simps [step_simps]:
  "ok (fst (consume_tokens c g)) \<longleftrightarrow> tokens_used g + c \<le> max_tokens (bg_budget g)"
  "tokens_used (snd (consume_tokens c g)) = tokens_used g + c"
  "bg_budget (snd (consume_tokens c g)) = bg_budget g"
  by (auto simp: consume_tokens_def Let_def)

lemma run_consume_tokens:
  "tokens_used (run (\<lambda>g c. snd (consume_tokens c g)) g cs) = tokens_used g + sum_list cs"
  "bg_budget (run (\<lambda>g c. snd (consume_tokens c g)) g cs) = bg_budget g"
  by (induction cs arbitrary: g) (auto simp: step_simps)

text \<open>
  A child gets exactly its step budget: after \<open>n\<close> calls of \<open>consume_step\<close>, refused or
  not, the next one succeeds exactly when \<open>n\<close> is below the limit, and the remaining steps are
  the difference down to zero. The same for tokens: after a sequence of consumptions the next
  succeeds exactly when the sum stays within the limit.
\<close>

theorem guard_enforces_limits:
  "ok (fst (consume_step (run guard_step (new_guard b t) us))) = (int (length us) < max_steps b) \<and>
   remaining_steps (run guard_step (new_guard b t) us) = max 0 (max_steps b - int (length us)) \<and>
   ok (fst (consume_tokens c (run (\<lambda>g c. snd (consume_tokens c g)) (new_guard b t) cs))) =
     (sum_list cs + c \<le> max_tokens b)"
  by (simp add: step_simps run_guard_step run_consume_tokens new_guard_def remaining_steps_def)

text \<open>
  The usage a guard reports is never \<open>not_reported\<close>: with no token consumed it passes
  \<open>not_reported\<close> together with an input count of 0, and \<open>UsageRecord\<close> derives \<open>partial\<close> from it.
\<close>

theorem guard_usage_partial: "ur_reporting_status (guard_usage now_ms g) = Partial"
  by (simp add: guard_usage_def usage_post_init_def)

section \<open>Correctness of ConcurrencyGuard\<close>

datatype slot_cmd = Slot_Acquire string string | Slot_Release string string | Slot_Release_All string

fun slot_step :: "concurrency_guard \<Rightarrow> slot_cmd \<Rightarrow> concurrency_guard" where
  "slot_step g (Slot_Acquire rid sid) = snd (cg_acquire rid sid g)"
| "slot_step g (Slot_Release rid sid) = cg_release rid sid g"
| "slot_step g (Slot_Release_All rid) = snd (release_all_for_root rid g)"

definition root_wf :: "concurrency_guard \<Rightarrow> string \<Rightarrow> bool" where
  "root_wf g rid \<longleftrightarrow>
     distinct (dict_get_or (cg_active g) rid []) \<and>
     int (active_count g rid) \<le> max 0 (max_concurrent g) \<and>
     int (active_count g rid) \<le> total_count g rid \<and>
     total_count g rid \<le> max 0 (max_total_tasks g)"

definition slots_wf :: "concurrency_guard \<Rightarrow> bool" where
  "slots_wf g \<longleftrightarrow> (\<forall>rid. root_wf g rid)"

definition slots_le :: "concurrency_guard \<Rightarrow> concurrency_guard \<Rightarrow> bool" where
  "slots_le g g' \<longleftrightarrow> max_concurrent g' = max_concurrent g \<and> max_total_tasks g' = max_total_tasks g \<and>
     (\<forall>rid. total_count g rid \<le> total_count g' rid)"

lemma cg_acquire_ok_iff:
  "ok (fst (cg_acquire rid sid g)) \<longleftrightarrow>
     total_count g rid < max_total_tasks g \<and> int (active_count g rid) < max_concurrent g"
  by (auto simp: cg_acquire_def Let_def total_count_def active_count_def)

lemma cg_acquire_view [step_simps]:
  "dict_get_or (cg_active (snd (cg_acquire rid sid g))) r [] =
     (if ok (fst (cg_acquire rid sid g)) \<and> r = rid then set_add sid (dict_get_or (cg_active g) rid [])
      else dict_get_or (cg_active g) r [])"
  "total_count (snd (cg_acquire rid sid g)) r =
     (if ok (fst (cg_acquire rid sid g)) \<and> r = rid then total_count g rid + 1 else total_count g r)"
  "max_concurrent (snd (cg_acquire rid sid g)) = max_concurrent g"
  "max_total_tasks (snd (cg_acquire rid sid g)) = max_total_tasks g"
  by (auto simp: cg_acquire_def Let_def total_count_def dict_get_or_absent)

lemma cg_release_view [step_simps]:
  "dict_get_or (cg_active (cg_release rid sid g)) r [] =
     (if r = rid then set_discard sid (dict_get_or (cg_active g) rid []) else dict_get_or (cg_active g) r [])"
  "total_count (cg_release rid sid g) r = total_count g r"
  "max_concurrent (cg_release rid sid g) = max_concurrent g"
  "max_total_tasks (cg_release rid sid g) = max_total_tasks g"
  by (auto simp: cg_release_def total_count_def dict_get_or_def set_discard_def split: option.splits)

lemma release_all_view [step_simps]:
  "dict_get_or (cg_active (snd (release_all_for_root rid g))) r [] =
     (if r = rid then [] else dict_get_or (cg_active g) r [])"
  "total_count (snd (release_all_for_root rid g)) r = total_count g r"
  "max_concurrent (snd (release_all_for_root rid g)) = max_concurrent g"
  "max_total_tasks (snd (release_all_for_root rid g)) = max_total_tasks g"
  by (auto simp: release_all_for_root_def total_count_def)

lemma set_add_length: "distinct xs \<Longrightarrow> distinct (set_add x xs) \<and> length (set_add x xs) \<le> Suc (length xs)"
  by (auto simp: set_add_def)

lemma set_discard_length: "distinct xs \<Longrightarrow> distinct (set_discard x xs) \<and> length (set_discard x xs) \<le> length xs"
  by (auto simp: set_discard_def)

lemma slot_acquire_wf: "root_wf g r \<Longrightarrow> root_wf (snd (cg_acquire rid sid g)) r"
  using set_add_length [of "dict_get_or (cg_active g) rid []" sid]
  by (auto simp: root_wf_def step_simps cg_acquire_ok_iff active_count_def)

lemma slot_release_wf: "root_wf g r \<Longrightarrow> root_wf (cg_release rid sid g) r"
  using set_discard_length [of "dict_get_or (cg_active g) rid []" sid]
  by (auto simp: root_wf_def step_simps active_count_def)

lemma slot_release_all_wf: "root_wf g r \<Longrightarrow> root_wf (snd (release_all_for_root rid g)) r"
  by (auto simp: root_wf_def step_simps active_count_def)

interpretation slots: ordered_machine slot_step slots_wf slots_le
proof
  fix g c assume wf: "slots_wf g"
  show "slots_wf (slot_step g c)"
    using wf by (cases c)
      (auto simp: slots_wf_def intro: slot_acquire_wf slot_release_wf slot_release_all_wf)
  show "slots_le g (slot_step g c)"
    by (cases c) (auto simp: slots_le_def step_simps)
qed (auto simp: slots_le_def intro: order_trans)

lemma new_slots_wf: "slots_wf (new_concurrency_guard mc mt)"
  by (simp add: slots_wf_def root_wf_def new_concurrency_guard_def active_count_def total_count_def dict_get_or_def)

text \<open>
  No sequence of acquisitions and releases ever gives a root more running children than its
  concurrency cap or more tasks than its total cap; releasing never gives back a task of the
  total; and an acquisition is refused only when one of the two caps is reached.
\<close>

theorem concurrency_caps_hold:
  "let g = run slot_step (new_concurrency_guard mc mt) cmds in
   int (active_count g rid) \<le> max 0 mc \<and> total_count g rid \<le> max 0 mt \<and>
   total_count g rid \<le> total_count (run slot_step g later) rid \<and>
   ok (fst (cg_acquire rid sid g)) = (total_count g rid < mt \<and> int (active_count g rid) < mc)"
proof -
  define g where "g = run slot_step (new_concurrency_guard mc mt) cmds"
  have wf: "slots_wf g" unfolding g_def by (rule slots.run_inv [OF new_slots_wf])
  have "slots_le (new_concurrency_guard mc mt) g" unfolding g_def by (rule slots.run_le [OF new_slots_wf])
  then have lim: "max_concurrent g = mc" "max_total_tasks g = mt"
    by (simp_all add: slots_le_def new_concurrency_guard_def)
  have "slots_le g (run slot_step g later)" by (rule slots.run_le [OF wf])
  then have "total_count g rid \<le> total_count (run slot_step g later) rid" by (simp add: slots_le_def)
  then show ?thesis using wf lim
    by (simp add: slots_wf_def root_wf_def cg_acquire_ok_iff flip: g_def)
qed

end
