(* ===== verification/Prompt.thy ===== *)
theory Prompt
  imports Protocol_Types
begin

text \<open>
  \<open>core/subagents/prompt.py\<close>: the source labels on the texts a child reads. The system prompt
  itself is fixed text and is not modelled.
\<close>

definition FROM_MAIN_AGENT :: string where "FROM_MAIN_AGENT = ''[FROM_MAIN_AGENT]''"
definition FROM_USER :: string where "FROM_USER = ''[FROM_USER]''"
definition FROM_SUBAGENT :: string where "FROM_SUBAGENT = ''[FROM_SUBAGENT]''"
definition TOOL_RESULT :: string where "TOOL_RESULT = ''[TOOL_RESULT]''"

definition SOURCE_TAGS :: "string list" where
  "SOURCE_TAGS = [FROM_MAIN_AGENT, FROM_USER, FROM_SUBAGENT, TOOL_RESULT]"

lemmas tag_defs = FROM_MAIN_AGENT_def FROM_USER_def FROM_SUBAGENT_def TOOL_RESULT_def SOURCE_TAGS_def

abbreviation NL :: char where "NL \<equiv> CHR 0x0A"

definition label_block :: "string \<Rightarrow> string \<Rightarrow> py_exc + string" where
  "label_block source text =
     (if source \<notin> set SOURCE_TAGS then Inl ValueError
      else
        let body = strip text in
        if body = [] then Inr []
        else if starts_with body source then Inr body
        else Inr (source @ [NL] @ body))"

definition collaboration_note :: "string \<Rightarrow> string \<Rightarrow> string \<Rightarrow> string" where
  "collaboration_note sender_id text status =
     (let sender = (if strip sender_id = [] then ''unknown'' else strip sender_id);
          ls = [FROM_SUBAGENT, ''sender='' @ sender] @
               (if status = [] then [] else [''status='' @ status]) @ [strip text]
      in strip (join_with [NL] ls))"

definition model_visible_tool_result :: "string \<Rightarrow> py_exc + string" where
  "model_visible_tool_result text = label_block TOOL_RESULT text"

section \<open>Correctness\<close>

lemma lstrip_append_nonspace: "\<not> is_space (hd p) \<Longrightarrow> p \<noteq> [] \<Longrightarrow> lstrip (p @ s) = p @ s"
  by (cases p) (auto simp: lstrip_def)

lemma strip_prefix_kept:
  assumes "p \<noteq> []" and "\<not> is_space (hd p)" and "\<not> is_space (last p)"
  shows "prefix p (strip (p @ s))"
proof -
  have "strip (p @ s) = rev (lstrip (rev s @ rev p))"
    using lstrip_append_nonspace [OF assms(2,1)] by (simp add: strip_def)
  moreover have "\<exists>u. lstrip (r @ rev p) = u @ rev p" for r
  proof (induction r)
    case Nil
    then show ?case using assms(1,3) by (simp add: lstrip_append_nonspace [of "rev p" "[]", simplified] hd_rev)
  next
    case (Cons c r)
    then show ?case by (auto simp: lstrip_def)
  qed
  ultimately obtain u where "strip (p @ s) = rev (u @ rev p)" by metis
  then show ?thesis by simp
qed

lemma tags_apart: "s \<in> set SOURCE_TAGS \<Longrightarrow> t \<in> set SOURCE_TAGS \<Longrightarrow> prefix s t \<Longrightarrow> s = t"
  unfolding tag_defs set_simps insert_iff empty_iff by (elim disjE FalseE) simp_all

lemma tag_edges: "t \<in> set SOURCE_TAGS \<Longrightarrow> t \<noteq> [] \<and> \<not> is_space (hd t) \<and> \<not> is_space (last t)"
  unfolding tag_defs set_simps insert_iff empty_iff
  by (elim disjE FalseE) (simp_all add: is_space_def code_point_def)

text \<open>
  Labels: a labelled block is empty or begins with the tag of the source it was labelled
  for, labelling it again changes nothing, no text can therefore present itself at the start
  of a block under another source's tag, a tool result always begins with the tool tag, and a
  note between agents always begins with the sub-agent tag.
\<close>

theorem label_block_spec:
  "case label_block source text of
     Inl e \<Rightarrow> e = ValueError \<and> source \<notin> set SOURCE_TAGS
   | Inr b \<Rightarrow> source \<in> set SOURCE_TAGS \<and> (b = [] \<or> starts_with b source) \<and> (b = []) = (strip text = []) \<and>
       label_block source b = Inr b \<and>
       list_all (\<lambda>tag. (tag = source) = (starts_with b tag) \<or> b = []) SOURCE_TAGS \<and>
       starts_with (collaboration_note sender text status) FROM_SUBAGENT"
proof (cases "source \<in> set SOURCE_TAGS")
  case False
  then show ?thesis by (simp add: label_block_def)
next
  case True
  define b where "b = (if strip text = [] then [] else if starts_with (strip text) source then strip text
    else source @ [NL] @ strip text)"
  have b: "label_block source text = Inr b" using True by (simp add: label_block_def b_def Let_def)
  have shape: "b = [] \<and> strip text = [] \<or>
            strip text \<noteq> [] \<and> prefix source b \<and> (b = strip text \<or> b = source @ [NL] @ strip text)"
    by (auto simp: b_def starts_with_def)
  have edge: "source \<noteq> []" "\<not> is_space (hd source)" "\<not> is_space (last source)"
    using tag_edges [OF True] by simp_all
  have stripped: "strip b = b"
  proof (cases "b = source @ [NL] @ strip text \<and> strip text \<noteq> []")
    case True
    then have "b = (source @ [NL]) @ strip text" "strip text \<noteq> []" by simp_all
    then have ends: "last b = last (strip text)" "b \<noteq> []" by (simp_all only: last_append append_is_Nil_conv if_False) simp
    have "\<not> is_space (last b)" using True strip_no_outer_space [of "text"] ends by simp
    then have "lstrip (rev b) = rev b" using ends(2)
      by (cases b rule: rev_cases) (auto simp: lstrip_def)
    moreover have "lstrip b = b" using True edge by (simp add: lstrip_append_nonspace)
    ultimately show ?thesis by (simp add: strip_def)
  next
    case False
    with shape consider "b = []" | "b = strip text" by blast
    then show ?thesis
    proof cases
      case 1
      then show ?thesis by (simp add: strip_def lstrip_def)
    next
      case 2
      then show ?thesis by (simp only: strip_idem)
    qed
  qed
  have again: "label_block source b = Inr b"
    using True shape stripped by (auto simp: label_block_def Let_def starts_with_def)
  have unique: "tag = source" if "tag \<in> set SOURCE_TAGS" "prefix tag b" "prefix source b" for tag
    using prefix_same_cases [OF that(2,3)] that(1) True tags_apart by blast
  have "prefix FROM_SUBAGENT (collaboration_note sender text status)"
  proof -
    have "FROM_SUBAGENT \<in> set SOURCE_TAGS" by (simp add: SOURCE_TAGS_def)
    note edges = tag_edges [OF this]
    have "\<exists>s. collaboration_note sender text status = strip (FROM_SUBAGENT @ s)"
      by (auto simp: collaboration_note_def Let_def)
    then show ?thesis using strip_prefix_kept [of FROM_SUBAGENT] edges by auto
  qed
  moreover have "(tag = source) = prefix tag b \<or> b = []" if "tag \<in> set SOURCE_TAGS" for tag
    using that unique shape by blast
  moreover have "b = [] \<or> prefix source b" "(b = []) = (strip text = [])" using shape edge(1) by auto
  ultimately show ?thesis using True
    unfolding b sum.case starts_with_def list_all_iff by (intro conjI ballI again) blast+
qed

end
