(* ===== verification/Runtime.thy ===== *)
theory Runtime
  imports Definitions Permissions Workspace Budget Prompt
begin

text \<open>
  \<open>core/subagents/runtime.py\<close>: the isolated runtime of one child. Its state is the record
  \<open>child_runtime\<close>. The model's own tool loop (\<open>AgentV2.run\<close>) is outside; one run of it enters as
  \<open>agent_run\<close>: the tool calls it makes, each with the clock and the lease table it meets, and how
  it ends. Every call goes through \<open>guarded_execute\<close>, as in the source.
\<close>

section \<open>Namespaces, cancellation, tools, audit\<close>

record namespace =
  ns_session_id :: string
  ns_memory :: "(string, pyval) pydict"
  ns_cache :: "(string, pyval) pydict"

definition new_namespace :: "string \<Rightarrow> namespace" where
  "new_namespace sid = \<lparr>ns_session_id = sid, ns_memory = [], ns_cache = []\<rparr>"

definition memory_key :: "namespace \<Rightarrow> string \<Rightarrow> string" where
  "memory_key ns key = ''child:'' @ ns_session_id ns @ '':mem:'' @ key"

definition cache_key :: "namespace \<Rightarrow> string \<Rightarrow> string" where
  "cache_key ns key = ''child:'' @ ns_session_id ns @ '':cache:'' @ key"

definition memory_set :: "string \<Rightarrow> pyval \<Rightarrow> namespace \<Rightarrow> namespace" where
  "memory_set key v ns = ns\<lparr>ns_memory := dict_set key v (ns_memory ns)\<rparr>"

definition memory_get :: "namespace \<Rightarrow> string \<Rightarrow> pyval option" where
  "memory_get ns key = dict_get (ns_memory ns) key"

definition cache_set :: "string \<Rightarrow> pyval \<Rightarrow> namespace \<Rightarrow> namespace" where
  "cache_set key v ns = ns\<lparr>ns_cache := dict_set key v (ns_cache ns)\<rparr>"

definition cache_get :: "namespace \<Rightarrow> string \<Rightarrow> pyval option" where
  "cache_get ns key = dict_get (ns_cache ns) key"

definition namespace_clear :: "namespace \<Rightarrow> namespace" where
  "namespace_clear ns = ns\<lparr>ns_memory := [], ns_cache := []\<rparr>"

text \<open>A tool's callable is an identifier; \<open>invoke\<close> returns the one to call.\<close>

record tool_registry =
  tl_agent_id :: string
  tl_schemas :: "(string, pyval) pydict"
  tl_callables :: "(string, nat) pydict"

definition tool_register :: "string \<Rightarrow> pyval \<Rightarrow> nat \<Rightarrow> tool_registry \<Rightarrow> tool_registry" where
  "tool_register name schema callable r =
     r\<lparr>tl_schemas := dict_set name schema (tl_schemas r),
       tl_callables := dict_set name callable (tl_callables r)\<rparr>"

definition list_tools :: "tool_registry \<Rightarrow> pyval list" where
  "list_tools r = dict_values (tl_schemas r)"

definition get_tool :: "tool_registry \<Rightarrow> string \<Rightarrow> pyval option" where
  "get_tool r name = dict_get (tl_schemas r) name"

definition tool_invoke :: "tool_registry \<Rightarrow> string \<Rightarrow> py_exc + nat" where
  "tool_invoke r name =
     (case dict_get (tl_callables r) name of None \<Rightarrow> Inl ValueError | Some c \<Rightarrow> Inr c)"

definition tools_is_empty :: "tool_registry \<Rightarrow> bool" where
  "tools_is_empty r = (length (tl_schemas r) = 0)"

record audit_entry =
  ae_event :: string
  ae_session_id :: string
  ae_agent_id :: string
  ae_fields :: "(string \<times> string) list"

record audit_scope =
  au_session_id :: string
  au_agent_id :: string
  au_entries :: "audit_entry list"

definition new_audit :: "string \<Rightarrow> string \<Rightarrow> audit_scope" where
  "new_audit sid aid = \<lparr>au_session_id = sid, au_agent_id = aid, au_entries = []\<rparr>"

definition audit_record :: "string \<Rightarrow> (string \<times> string) list \<Rightarrow> audit_scope \<Rightarrow> audit_scope" where
  "audit_record ev kv a =
     a\<lparr>au_entries := au_entries a @
        [\<lparr>ae_event = ev, ae_session_id = au_session_id a, ae_agent_id = au_agent_id a, ae_fields = kv\<rparr>]\<rparr>"

definition audit_tool_call :: "string \<Rightarrow> string \<Rightarrow> audit_scope \<Rightarrow> audit_scope" where
  "audit_tool_call tool args a = audit_record ''tool_call'' [(''tool'', tool), (''args'', args)] a"

definition audit_permission :: "string \<Rightarrow> string \<Rightarrow> string \<Rightarrow> audit_scope \<Rightarrow> audit_scope" where
  "audit_permission tool verdict rl a =
     audit_record ''permission'' [(''tool'', tool), (''verdict'', verdict), (''rule'', rl)] a"

definition audit_terminal :: "string \<Rightarrow> string \<Rightarrow> audit_scope \<Rightarrow> audit_scope" where
  "audit_terminal status reason a = audit_record ''terminal'' [(''status'', status), (''reason'', reason)] a"

section \<open>The runtime\<close>

record child_runtime =
  rt_definition :: agent_definition
  rt_session_id :: string
  rt_trigger :: trigger_kind
  rt_policy :: effective_task_policy
  rt_workspace_root :: "string option"
  rt_namespace :: namespace
  rt_tools :: tool_registry
  rt_budget :: budget_guard
  rt_cancelled :: bool
  rt_audit :: audit_scope
  rt_inbox :: "string list"

definition create_child_runtime ::
  "int \<Rightarrow> agent_definition \<Rightarrow> child_session \<Rightarrow> string option \<Rightarrow> child_runtime" where
  "create_child_runtime now_ms d s rt_root =
     \<lparr>rt_definition = d, rt_session_id = cs_session_id s, rt_trigger = cs_trigger s,
      rt_policy = cs_policy s, rt_workspace_root = rt_root,
      rt_namespace = new_namespace (cs_session_id s),
      rt_tools = \<lparr>tl_agent_id = ad_id d, tl_schemas = [], tl_callables = []\<rparr>,
      rt_budget = new_guard (ep_budget (cs_policy s)) now_ms, rt_cancelled = False,
      rt_audit = new_audit (cs_session_id s) (ad_id d), rt_inbox = []\<rparr>"

definition is_read_only :: "child_runtime \<Rightarrow> bool" where
  "is_read_only rt = (ws_mode (ep_workspace (rt_policy rt)) = READ_ONLY)"

definition cancel_runtime :: "child_runtime \<Rightarrow> child_runtime" where
  "cancel_runtime rt = rt\<lparr>rt_cancelled := True\<rparr>"

definition post_message :: "string \<Rightarrow> string \<Rightarrow> child_runtime \<Rightarrow> (py_exc, unit, child_runtime) outcome" where
  "post_message text source rt =
     (case label_block source text of
        Inl e \<Rightarrow> (Inl e, rt)
      | Inr labeled \<Rightarrow> (Inr (), if labeled = [] then rt else rt\<lparr>rt_inbox := rt_inbox rt @ [labeled]\<rparr>))"

definition post_labeled :: "string \<Rightarrow> child_runtime \<Rightarrow> child_runtime" where
  "post_labeled text rt =
     (let body = strip text in if body = [] then rt else rt\<lparr>rt_inbox := rt_inbox rt @ [body]\<rparr>)"

definition drain_inbox :: "child_runtime \<Rightarrow> string list \<times> child_runtime" where
  "drain_inbox rt = (rt_inbox rt, rt\<lparr>rt_inbox := []\<rparr>)"

subsection \<open>The tool gate\<close>

type_synonym tool_args = "(string, pyval) pydict"

text \<open>\<open>str(args.get(k1) or args.get(k2) or "")\<close>.\<close>

definition arg_text :: "(pyval \<Rightarrow> string) \<Rightarrow> tool_args \<Rightarrow> string list \<Rightarrow> string" where
  "arg_text so args ks =
     (case filter truthy (map (raw_get args) ks) of [] \<Rightarrow> [] | v # _ \<Rightarrow> py_str so v)"

definition COLLAB_TOOLS :: "string list" where
  "COLLAB_TOOLS = [''spawn_subagent'', ''cancel_subagent'', ''send_message_to_subagent'', ''list_agents'']"

definition tool_value :: "(pyval \<Rightarrow> string) \<Rightarrow> string \<Rightarrow> tool_args \<Rightarrow> string" where
  "tool_value so name args =
     (if name \<in> {''read'', ''edit'', ''open_file'', ''write'', ''patch''} then arg_text so args [''filePath'', ''path'']
      else if name = ''bash'' then arg_text so args [''command'']
      else if name \<in> {''websearch'', ''webfetch''} then arg_text so args [''url'', ''query'']
      else [])"

definition tool_category :: "string \<Rightarrow> string" where
  "tool_category name =
     (if name \<in> {''write'', ''edit'', ''patch'', ''open_file''} then ''edit''
      else if name \<in> {''read'', ''grep'', ''ls'', ''glob''} then ''read''
      else name)"

definition decision_value :: "decision_kind \<Rightarrow> string" where
  "decision_value k = (case k of D_ALLOW \<Rightarrow> ''allow'' | D_ASK \<Rightarrow> ''ask'' | D_DENY \<Rightarrow> ''deny'')"

definition check_tool ::
  "(pyval \<Rightarrow> string) \<Rightarrow> path_env \<Rightarrow> rat \<Rightarrow> lease_manager option \<Rightarrow> string \<Rightarrow> tool_args \<Rightarrow> child_runtime \<Rightarrow>
   (workspace_error, bool, child_runtime) outcome" where
  "check_tool so fs now lm raw_name args rt =
     (let name = canonical_tool_name raw_name in
      if name = ''final_answer'' then
        (Inr True, rt\<lparr>rt_audit := audit_permission name ''allow'' ''builtin:exit-signal'' (rt_audit rt)\<rparr>)
      else if name \<in> set COLLAB_TOOLS then
        (Inr True, rt\<lparr>rt_audit := audit_permission name ''allow'' ''builtin:collab'' (rt_audit rt)\<rparr>)
      else
        let val = tool_value so name args;
            category = tool_category name;
            pol = policy_from_definition (ad_permission (rt_definition rt)) ''unknown'' None;
            decision = evaluate fs pol category val;
            rt' = rt\<lparr>rt_audit := audit_permission name (decision_value (dc_kind decision))
                                  (dc_matched_rule decision) (rt_audit rt)\<rparr>
        in
        if dc_kind decision \<noteq> D_ALLOW then (Inr False, rt')
        else
          let validator = make_validator (ep_workspace (rt_policy rt')) (rt_workspace_root rt') in
          (bind_result
             (if category = ''edit'' then check_edit fs now validator (rt_session_id rt') val lm
              else if name = ''bash'' then check_bash validator (rt_session_id rt') val
              else Inr ())
             (\<lambda>_. Inr True), rt'))"

record tool_call =
  tc_name :: string
  tc_args :: tool_args
  tc_now :: rat
  tc_leases :: "lease_manager option"

datatype call_outcome =
    Blocked string
  | Gate_Raised workspace_error
  | Executed string tool_args

definition guarded_execute ::
  "(pyval \<Rightarrow> string) \<Rightarrow> path_env \<Rightarrow> tool_call \<Rightarrow> child_runtime \<Rightarrow> call_outcome \<times> child_runtime" where
  "guarded_execute so fs c rt =
     (case check_tool so fs (tc_now c) (tc_leases c) (tc_name c) (tc_args c) rt of
        (Inl e, rt') \<Rightarrow> (Gate_Raised e, rt')
      | (Inr False, rt') \<Rightarrow> (Blocked (tc_name c), rt')
      | (Inr True, rt') \<Rightarrow>
          (Executed (tc_name c) (tc_args c),
           rt'\<lparr>rt_audit := audit_tool_call (tc_name c) (take 500 (so (PDict (tc_args c)))) (rt_audit rt')\<rparr>))"

fun run_tool_calls ::
  "(pyval \<Rightarrow> string) \<Rightarrow> path_env \<Rightarrow> tool_call list \<Rightarrow> child_runtime \<Rightarrow> call_outcome list \<times> child_runtime" where
  "run_tool_calls so fs [] rt = ([], rt)"
| "run_tool_calls so fs (c # cs) rt =
     (case guarded_execute so fs c rt of
        (oc, rt') \<Rightarrow> (case run_tool_calls so fs cs rt' of (ocs, rt'') \<Rightarrow> (oc # ocs, rt'')))"

subsection \<open>Execution\<close>

datatype run_end =
    Answered string
  | Wall_Timeout
  | Run_Cancelled \<comment> \<open>\<open>asyncio.CancelledError\<close>\<close>
  | Run_Raised string string \<comment> \<open>exception type and text\<close>

record agent_run =
  ag_calls :: "tool_call list"
  ag_end :: run_end
  ag_token_cancelled :: bool \<comment> \<open>the cancellation token was set while it ran\<close>
  ag_input_tokens :: int
  ag_output_tokens :: int
  ag_cache_hit_tokens :: int
  ag_evidence :: "pyval list"
  ag_elapsed_ms :: int
  ag_finished_ms :: int \<comment> \<open>the wall clock after the run\<close>

text \<open>The prompt \<open>execute\<close> hands to the agent.\<close>

definition execution_prompt :: "string \<Rightarrow> child_runtime \<Rightarrow> py_exc + string" where
  "execution_prompt task_prompt rt =
     (let opening = (if rt_trigger rt = MENTION then FROM_USER else FROM_MAIN_AGENT) in
      bind_result (label_block opening task_prompt) (\<lambda>task_block.
        let extra = join_with [NL, NL] (filter (\<lambda>b. b \<noteq> []) (rt_inbox rt));
            p = ''/fast'' @ [NL] @ task_block
        in Inr (if extra = [] then p else p @ [NL, NL] @ extra)))"

text \<open>The loops over the agent's evidence.\<close>

definition add_new :: "string \<Rightarrow> string list \<Rightarrow> string list" where
  "add_new x xs = (if x \<noteq> [] \<and> x \<notin> set xs then xs @ [x] else xs)"

definition truthy_text :: "(pyval \<Rightarrow> string) \<Rightarrow> pyval \<Rightarrow> string" where
  "truthy_text so v = (if truthy v then py_str so v else [])"

definition evidence_tools :: "(pyval \<Rightarrow> string) \<Rightarrow> pyval list \<Rightarrow> string list" where
  "evidence_tools so ev =
     fold (\<lambda>item acc. case item of PDict d \<Rightarrow> add_new (truthy_text so (raw_get d ''tool'')) acc | _ \<Rightarrow> acc) ev []"

definition artifact_path :: "(pyval \<Rightarrow> string) \<Rightarrow> pyval \<Rightarrow> string" where
  "artifact_path so v =
     (case v of PDict d \<Rightarrow> if truthy (raw_get d ''exists'') then truthy_text so (raw_get d ''path'') else []
      | _ \<Rightarrow> [])"

definition evidence_artifacts :: "(pyval \<Rightarrow> string) \<Rightarrow> pyval list \<Rightarrow> string list" where
  "evidence_artifacts so ev =
     fold (\<lambda>item acc. case item of
         PDict d \<Rightarrow> (case raw_get d ''artifacts'' of
             PList xs \<Rightarrow> fold (\<lambda>a acc. add_new (artifact_path so a) acc) xs acc | _ \<Rightarrow> acc)
       | _ \<Rightarrow> acc) ev []"

definition run_telemetry :: "(pyval \<Rightarrow> string) \<Rightarrow> agent_run \<Rightarrow> (string, pyval) pydict" where
  "run_telemetry so arun =
     (let tools = evidence_tools so (ag_evidence arun) in
      [(''tool_calls'', PList (map PStr tools)),
       (''evidence'', PList (ag_evidence arun)),
       (''artifacts'', PList (map PStr (evidence_artifacts so (ag_evidence arun)))),
       (''mcp_calls'', PList (map PStr (filter (\<lambda>t. contains_str (lower t) ''mcp'') tools))),
       (''skill_calls'', PList (map PStr (filter (\<lambda>t. contains_str (lower t) ''skill'') tools))),
       (''cache_usage'', PDict [(''source'', PStr ''not_reported''),
          (''reason'', PStr ''global token stats cannot be split safely under concurrency'')])])"

definition base_result :: "child_runtime \<Rightarrow> child_status \<Rightarrow> string \<Rightarrow> usage_record \<Rightarrow> task_result" where
  "base_result rt status summary usage =
     \<lparr>res_request_id = [], res_child_session_id = rt_session_id rt, res_status = status,
      res_summary = summary, res_artifacts = [], res_evidence = [], res_usage = usage,
      res_error = None, res_telemetry = []\<rparr>"

definition reported_usage :: "int \<Rightarrow> int \<Rightarrow> int \<Rightarrow> int \<Rightarrow> bool \<Rightarrow> int \<Rightarrow> usage_record" where
  "reported_usage steps inp outp cache reported wall =
     usage_post_init
       \<lparr>ur_steps = steps, ur_input_tokens = (if reported then Some inp else None),
        ur_output_tokens = (if reported then Some outp else None),
        ur_cache_hit_tokens = (if reported then Some cache else None),
        ur_wall_time_ms = wall, ur_retry_count = 0,
        ur_reporting_status = (if reported then Reported else Not_Reported)\<rparr>"

definition steps_usage :: "child_runtime \<Rightarrow> usage_record" where
  "steps_usage rt = usage_post_init (default_usage\<lparr>ur_steps := steps_used (rt_budget rt)\<rparr>)"

definition finish_budget_error :: "agent_run \<Rightarrow> budget_error \<Rightarrow> child_runtime \<Rightarrow> task_result \<times> child_runtime" where
  "finish_budget_error arun e rt =
     (let status = (if terminate_for_budget_error e = ''timed_out'' then TIMED_OUT else FAILED);
          anyu = (ag_input_tokens arun \<noteq> 0 \<or> ag_output_tokens arun \<noteq> 0 \<or> ag_cache_hit_tokens arun \<noteq> 0)
      in ((base_result rt status (budget_error_message e)
             (reported_usage (steps_used (rt_budget rt)) (max 0 (ag_input_tokens arun))
                (max 0 (ag_output_tokens arun)) (max 0 (ag_cache_hit_tokens arun)) anyu
                (elapsed_wall_ms (ag_finished_ms arun) (rt_budget rt))))
          \<lparr>res_error := Some \<lparr>err_code = budget_error_code e, err_message = budget_error_message e, err_details = []\<rparr>\<rparr>,
          rt\<lparr>rt_audit := audit_terminal (child_status_value status) (budget_error_code e) (rt_audit rt)\<rparr>))"

definition finish_cancelled :: "string \<Rightarrow> child_runtime \<Rightarrow> task_result \<times> child_runtime" where
  "finish_cancelled summary rt =
     (base_result rt CANCELLED summary (steps_usage rt),
      rt\<lparr>rt_audit := audit_terminal ''cancelled'' [] (rt_audit rt)\<rparr>)"

definition finish_failed :: "string \<Rightarrow> string \<Rightarrow> child_runtime \<Rightarrow> task_result \<times> child_runtime" where
  "finish_failed exc_type msg rt =
     ((base_result rt FAILED ''Child execution failed'' (steps_usage rt))
        \<lparr>res_error := Some \<lparr>err_code = ''child_execution_failed'', err_message = msg, err_details = []\<rparr>\<rparr>,
      rt\<lparr>rt_audit := audit_terminal ''failed'' exc_type (rt_audit rt)\<rparr>)"

text \<open>After \<open>agent.run\<close> has answered.\<close>

definition finish_answer ::
  "(pyval \<Rightarrow> string) \<Rightarrow> agent_run \<Rightarrow> string \<Rightarrow> child_runtime \<Rightarrow> task_result \<times> child_runtime" where
  "finish_answer so arun answer rt =
     (let inp = max 0 (ag_input_tokens arun); outp = max 0 (ag_output_tokens arun);
          cache = max 0 (ag_cache_hit_tokens arun);
          reported = (inp \<noteq> 0 \<or> outp \<noteq> 0 \<or> cache \<noteq> 0)
      in case consume_tokens (inp + outp) (rt_budget rt) of
           (Inl e, g) \<Rightarrow> finish_budget_error arun e (rt\<lparr>rt_budget := g\<rparr>)
         | (Inr _, g) \<Rightarrow>
             (case check_wall_clock (ag_finished_ms arun) g of
                Inl e \<Rightarrow> finish_budget_error arun e (rt\<lparr>rt_budget := g\<rparr>)
              | Inr _ \<Rightarrow>
                  ((base_result rt COMPLETED answer
                      (reported_usage (steps_used g) inp outp cache reported (ag_elapsed_ms arun)))
                     \<lparr>res_telemetry := run_telemetry so arun\<rparr>,
                   rt\<lparr>rt_budget := g, rt_audit := audit_terminal ''completed'' [] (rt_audit rt)\<rparr>)))"

definition finish_run :: "(pyval \<Rightarrow> string) \<Rightarrow> agent_run \<Rightarrow> child_runtime \<Rightarrow> task_result \<times> child_runtime" where
  "finish_run so arun rt =
     (let wall = max_wall_time_seconds (bg_budget (rt_budget rt)) in
      case ag_end arun of
        Answered answer \<Rightarrow>
          if rt_cancelled rt then finish_cancelled ''Cancelled'' rt else finish_answer so arun answer rt
      | Wall_Timeout \<Rightarrow> finish_budget_error arun (TimeLimitExceeded (wall * 1000) wall) rt
      | Run_Cancelled \<Rightarrow> finish_cancelled ''Cancelled during execution'' rt
      | Run_Raised exc_type msg \<Rightarrow> finish_failed exc_type msg rt)"

text \<open>
  \<open>execute\<close>: \<open>Inl\<close> when the token is already set at the start (the check stands before the
  \<open>try\<close>), else the outcomes of the calls and the result.
\<close>

definition execute ::
  "(pyval \<Rightarrow> string) \<Rightarrow> path_env \<Rightarrow> agent_run \<Rightarrow> string \<Rightarrow> child_runtime \<Rightarrow>
   (string, call_outcome list \<times> task_result, child_runtime) outcome" where
  "execute so fs arun task_prompt rt =
     (if rt_cancelled rt then (Inl ''Child session was cancelled'', rt)
      else
        (case consume_step (rt_budget rt) of
           (Inl e, g) \<Rightarrow>
             (case finish_budget_error (arun\<lparr>ag_input_tokens := 0, ag_output_tokens := 0, ag_cache_hit_tokens := 0\<rparr>)
                     e (rt\<lparr>rt_budget := g\<rparr>) of
                (res, rt') \<Rightarrow> (Inr ([], res), rt'))
         | (Inr _, g) \<Rightarrow>
             (case run_tool_calls so fs (ag_calls arun)
                     (rt\<lparr>rt_budget := g,
                         rt_audit := audit_record ''execute'' [(''prompt'', task_prompt)] (rt_audit rt),
                         rt_inbox := []\<rparr>) of
                (ocs, rt1) \<Rightarrow>
                  (case finish_run so arun (rt1\<lparr>rt_cancelled := rt_cancelled rt1 \<or> ag_token_cancelled arun\<rparr>) of
                     (res, rt2) \<Rightarrow> (Inr (ocs, res), rt2)))))"

definition release_runtime :: "child_runtime \<Rightarrow> child_runtime" where
  "release_runtime rt = rt\<lparr>rt_namespace := namespace_clear (rt_namespace rt)\<rparr>"

definition shutdown_runtime :: "child_runtime \<Rightarrow> child_runtime" where
  "shutdown_runtime rt =
     rt\<lparr>rt_cancelled := True, rt_namespace := namespace_clear (rt_namespace rt)\<rparr>"

end
