(* ===== verification/Events.thy ===== *)
theory Events
  imports Protocol_Types Machine "HOL-Library.List_Lexorder" "HOL-Library.Char_ord"
begin

text \<open>
  \<open>core/subagents/events.py\<close>: the event log of the child sessions, its persistence to one
  JSON-lines file for each session, its recovery after a restart, and the bus that delivers
  events to subscribers. The persist directory is a dict from session ids to the lines of the
  session's file; a line is the event it decodes to (JSON encoding and decoding are inverse on
  events whose payloads are JSON values), or \<open>None\<close> for a line that is blank or does not decode.
\<close>

section \<open>Event names\<close>

definition EVENT_CREATED :: string where "EVENT_CREATED = ''child_session/created''"
definition EVENT_QUEUED :: string where "EVENT_QUEUED = ''child_session/queued''"
definition EVENT_STARTED :: string where "EVENT_STARTED = ''child_session/started''"
definition EVENT_COMPLETED :: string where "EVENT_COMPLETED = ''child_session/completed''"
definition EVENT_FAILED :: string where "EVENT_FAILED = ''child_session/failed''"
definition EVENT_CANCELLED :: string where "EVENT_CANCELLED = ''child_session/cancelled''"

definition TERMINAL_EVENTS :: "string list" where
  "TERMINAL_EVENTS =
     [EVENT_COMPLETED, EVENT_FAILED, EVENT_CANCELLED,
      ''child_session/timed_out'', ''child_session/denied'']"

lemmas event_name_defs = EVENT_CREATED_def EVENT_QUEUED_def EVENT_STARTED_def EVENT_COMPLETED_def
  EVENT_FAILED_def EVENT_CANCELLED_def

section \<open>Events and their store\<close>

record child_session_event =
  ev_event_name :: string
  ev_session_id :: string
  ev_parent_session_id :: string
  ev_root_session_id :: string
  ev_request_id :: string
  ev_seq :: int
  ev_timestamp :: rat
  ev_definition_version :: string
  ev_redaction_metadata :: string
  ev_payload :: "(string, pyval) pydict"
  ev_event_id :: string

type_synonym event_disk = "(string, child_session_event option list) pydict"

record event_store =
  es_disk :: "event_disk option" \<comment> \<open>\<open>None\<close>: no persist directory\<close>
  es_events :: "child_session_event list"
  es_next_seq :: int
  es_by_id :: "(string, child_session_event) pydict"

definition persist :: "child_session_event \<Rightarrow> event_disk option \<Rightarrow> event_disk option" where
  "persist e d =
     map_option (\<lambda>d. dict_set (ev_session_id e) (dict_get_or d (ev_session_id e) [] @ [Some e]) d) d"

definition store_append :: "child_session_event \<Rightarrow> event_store \<Rightarrow> child_session_event \<times> event_store" where
  "store_append event st =
     (case dict_get (es_by_id st) (ev_event_id event) of
        Some old \<Rightarrow> (old, st)
      | None \<Rightarrow>
          let e = event\<lparr>ev_seq := es_next_seq st\<rparr> in
          (e, st\<lparr>es_next_seq := es_next_seq st + 1,
                 es_events := es_events st @ [e],
                 es_by_id := dict_set (ev_event_id e) e (es_by_id st),
                 es_disk := persist e (es_disk st)\<rparr>))"

definition events_from :: "event_store \<Rightarrow> int \<Rightarrow> child_session_event list" where
  "events_from st cursor = filter (\<lambda>e. ev_seq e > cursor) (es_events st)"

definition events_for_session :: "event_store \<Rightarrow> string \<Rightarrow> child_session_event list" where
  "events_for_session st sid = filter (\<lambda>e. ev_session_id e = sid) (es_events st)"

definition events_for_subtree :: "event_store \<Rightarrow> string list \<Rightarrow> child_session_event list" where
  "events_for_subtree st sids = filter (\<lambda>e. ev_session_id e \<in> set sids) (es_events st)"

definition latest_cursor :: "event_store \<Rightarrow> int" where
  "latest_cursor st = es_next_seq st - 1"

definition detect_gaps :: "event_store \<Rightarrow> int \<Rightarrow> int \<Rightarrow> int list" where
  "detect_gaps st from_seq to_seq =
     (let present = map ev_seq (filter (\<lambda>e. from_seq < ev_seq e \<and> ev_seq e \<le> to_seq) (es_events st))
      in filter (\<lambda>s. s \<notin> set present) [from_seq + 1..to_seq])"

definition is_terminal_event :: "child_session_event \<Rightarrow> bool" where
  "is_terminal_event e = (ev_event_name e \<in> set TERMINAL_EVENTS)"

definition has_terminal_event :: "event_store \<Rightarrow> string \<Rightarrow> bool" where
  "has_terminal_event st sid =
     list_ex (\<lambda>e. ev_session_id e = sid \<and> is_terminal_event e) (es_events st)"

definition terminal_status_for :: "event_store \<Rightarrow> string \<Rightarrow> string option" where
  "terminal_status_for st sid =
     map_option ev_event_name
       (find (\<lambda>e. ev_session_id e = sid \<and> is_terminal_event e) (rev (es_events st)))"

section \<open>Recovery\<close>

definition load_event :: "child_session_event \<Rightarrow> event_store \<Rightarrow> event_store" where
  "load_event e st =
     st\<lparr>es_events := es_events st @ [e],
        es_by_id := dict_set (ev_event_id e) e (es_by_id st),
        es_next_seq := (if ev_seq e \<ge> es_next_seq st then ev_seq e + 1 else es_next_seq st)\<rparr>"

definition load_line :: "child_session_event option \<Rightarrow> event_store \<Rightarrow> event_store" where
  "load_line l st = (case l of None \<Rightarrow> st | Some e \<Rightarrow> load_event e st)"

text \<open>The files in the order of their sorted names.\<close>

definition sorted_files :: "event_disk \<Rightarrow> (string \<times> child_session_event option list) list" where
  "sorted_files d = sort_key (\<lambda>f. fst f @ ''.jsonl'') d"

definition load_persisted :: "event_store \<Rightarrow> event_store" where
  "load_persisted st =
     (case es_disk st of
        None \<Rightarrow> st
      | Some d \<Rightarrow> fold (\<lambda>f st. fold load_line (snd f) st) (sorted_files d) st)"

definition new_store :: "event_disk option \<Rightarrow> event_store" where
  "new_store d = load_persisted \<lparr>es_disk = d, es_events = [], es_next_seq = 1, es_by_id = []\<rparr>"

section \<open>The event bus\<close>

text \<open>A subscriber is an identifier; what it does is outside the bus.\<close>

record event_bus =
  bus_store :: event_store
  bus_subscribers :: "(string set \<times> nat) list"

definition subscribe :: "string list \<Rightarrow> nat \<Rightarrow> event_bus \<Rightarrow> event_bus" where
  "subscribe sids subscriber b = b\<lparr>bus_subscribers := bus_subscribers b @ [(set sids, subscriber)]\<rparr>"

text \<open>The closure \<open>subscribe\<close> returns, called.\<close>

definition unsubscribe :: "string list \<Rightarrow> nat \<Rightarrow> event_bus \<Rightarrow> event_bus" where
  "unsubscribe sids subscriber b =
     (if (set sids, subscriber) \<in> set (bus_subscribers b)
      then b\<lparr>bus_subscribers := remove1 (set sids, subscriber) (bus_subscribers b)\<rparr> else b)"

text \<open>The subscribers called, in order; one that raises does not stop the loop.\<close>

definition publish :: "child_session_event \<Rightarrow> event_bus \<Rightarrow> nat list" where
  "publish event b = map snd (filter (\<lambda>(ids, s). ev_session_id event \<in> ids) (bus_subscribers b))"

definition replay :: "string list \<Rightarrow> int \<Rightarrow> event_bus \<Rightarrow> child_session_event list" where
  "replay sids cursor b =
     filter (\<lambda>e. ev_session_id e \<in> set sids) (events_from (bus_store b) cursor)"

section \<open>Helpers\<close>

definition build_event ::
  "string \<Rightarrow> rat \<Rightarrow> string \<Rightarrow> string \<Rightarrow> string \<Rightarrow> string \<Rightarrow> string \<Rightarrow> string \<Rightarrow> string \<Rightarrow>
   (string, pyval) pydict option \<Rightarrow> child_session_event" where
  "build_event uuid now event_name session_id parent_session_id request_id root_session_id
     definition_version redaction payload =
     \<lparr>ev_event_name = event_name, ev_session_id = session_id, ev_parent_session_id = parent_session_id,
      ev_root_session_id = (if root_session_id = [] then parent_session_id else root_session_id),
      ev_request_id = request_id, ev_seq = 0, ev_timestamp = now,
      ev_definition_version = definition_version, ev_redaction_metadata = redaction,
      ev_payload = (case payload of None \<Rightarrow> [] | Some p \<Rightarrow> p), ev_event_id = uuid\<rparr>"

fun terminal_event_name_for :: "child_status \<Rightarrow> string" where
  "terminal_event_name_for COMPLETED = EVENT_COMPLETED"
| "terminal_event_name_for FAILED = EVENT_FAILED"
| "terminal_event_name_for CANCELLED = EVENT_CANCELLED"
| "terminal_event_name_for TIMED_OUT = ''child_session/timed_out''"
| "terminal_event_name_for DENIED = ''child_session/denied''"
| "terminal_event_name_for _ = EVENT_FAILED"

end
