(* ===== verification/Modes.thy ===== *)
theory Modes
  imports Protocol_Types
begin

text \<open>
  \<open>core/subagents/modes.py\<close>: feature flags from the environment, the capability report, and
  the rules for which agent mode may start as what. \<open>env\<close> is the process environment.
\<close>

record feature_flags =
  subagents_enabled :: bool
  subagents_task :: bool
  subagents_mention :: bool
  subagents_child_tasks :: bool

definition default_flags :: feature_flags where
  "default_flags = \<lparr>subagents_enabled = False, subagents_task = False, subagents_mention = False,
     subagents_child_tasks = False\<rparr>"

record capability =
  cap_protocol_version :: int
  cap_subagents_enabled :: bool
  cap_task :: bool
  cap_mention :: bool
  cap_child_tasks :: bool

definition build_capability :: "feature_flags \<Rightarrow> capability" where
  "build_capability flags =
     \<lparr>cap_protocol_version = 1, cap_subagents_enabled = subagents_enabled flags,
      cap_task = subagents_task flags, cap_mention = subagents_mention flags,
      cap_child_tasks = subagents_child_tasks flags\<rparr>"

definition validate_primary_entry :: "agent_mode \<Rightarrow> py_exc + unit" where
  "validate_primary_entry m = (if m \<noteq> PRIMARY \<and> m \<noteq> ALL_MODES then Inl ValueError else Inr ())"

definition validate_subagent_entry :: "agent_mode \<Rightarrow> bool \<Rightarrow> py_exc + unit" where
  "validate_subagent_entry m is_subtask_command =
     (if is_subtask_command then
        (if m \<notin> {PRIMARY, SUBAGENT, ALL_MODES} then Inl ValueError else Inr ())
      else if m \<noteq> SUBAGENT \<and> m \<noteq> ALL_MODES then Inl ValueError
      else Inr ())"

record subagent_config =
  default_subagent_depth :: int
  default_task_permission_deny :: bool
  default_max_tokens :: int
  cfg_flags :: feature_flags

definition default_config :: subagent_config where
  "default_config = \<lparr>default_subagent_depth = 1, default_task_permission_deny = True,
     default_max_tokens = 131072, cfg_flags = default_flags\<rparr>"

definition TRUE_WORDS :: "string list" where
  "TRUE_WORDS = [''1'', ''true'', ''yes'', ''on'']"

definition FALSE_WORDS :: "string list" where
  "FALSE_WORDS = [''0'', ''false'', ''no'', ''off'']"

definition env_flag :: "(string \<Rightarrow> string option) \<Rightarrow> string \<Rightarrow> bool \<Rightarrow> bool" where
  "env_flag env name deflt =
     (case env name of
        None \<Rightarrow> deflt
      | Some raw \<Rightarrow>
          let v = lower (strip raw) in
          if v = [] then deflt
          else if v \<in> set TRUE_WORDS then True
          else if v \<in> set FALSE_WORDS then False
          else deflt)"

definition subagent_config_from_env :: "(string \<Rightarrow> string option) \<Rightarrow> pyval \<Rightarrow> subagent_config" where
  "subagent_config_from_env env max_tokens_arg =
     (let enabled = env_flag env ''RXYCODE_SUBAGENTS'' True in
      \<lparr>default_subagent_depth = 1, default_task_permission_deny = True,
       default_max_tokens = (case as_int max_tokens_arg of
           Some i \<Rightarrow> if i > 0 then i else 131072 | None \<Rightarrow> 131072),
       cfg_flags =
         \<lparr>subagents_enabled = enabled,
          subagents_task = (enabled \<and> env_flag env ''RXYCODE_SUBAGENTS_TASK'' True),
          subagents_mention = (enabled \<and> env_flag env ''RXYCODE_SUBAGENTS_MENTION'' True),
          subagents_child_tasks = (enabled \<and> env_flag env ''RXYCODE_SUBAGENTS_CHILD_TASKS'' False)\<rparr>\<rparr>)"

text \<open>
  The master switch: the flags are all off when \<open>RXYCODE_SUBAGENTS\<close> reads as off, and a
  feature is on only with the master switch on; an unset environment gives the documented
  defaults, and children may delegate only when a true word says so explicitly.
\<close>

theorem master_switch:
  "let f = cfg_flags (subagent_config_from_env env mt) in
   (if env_flag env ''RXYCODE_SUBAGENTS'' True then subagents_enabled f else f = default_flags) \<and>
   (subagents_enabled f \<or> f = default_flags) \<and>
   subagents_child_tasks f =
     (subagents_enabled f \<and> (\<exists>raw. env ''RXYCODE_SUBAGENTS_CHILD_TASKS'' = Some raw \<and> lower (strip raw) \<in> set TRUE_WORDS)) \<and>
   cfg_flags (subagent_config_from_env (\<lambda>_. None) mt) =
     \<lparr>subagents_enabled = True, subagents_task = True, subagents_mention = True, subagents_child_tasks = False\<rparr> \<and>
   0 < default_max_tokens (subagent_config_from_env env mt)"
proof -
  have child: "env_flag env n False \<longleftrightarrow> (\<exists>raw. env n = Some raw \<and> lower (strip raw) \<in> set TRUE_WORDS)" for n
    by (auto simp: env_flag_def Let_def TRUE_WORDS_def split: option.splits)
  show ?thesis
    unfolding subagent_config_from_env_def Let_def subagent_config.simps feature_flags.simps child
    by (auto simp: default_flags_def env_flag_def split: option.splits)
qed

end
