(* ===== verification/Context_Builder.thy ===== *)
theory Context_Builder
  imports Protocol_Types Machine
begin

text \<open>
  \<open>core/subagents/context.py\<close>: the builder of the context a child receives. Reading a file
  and hashing it are arguments: \<open>file_hash p\<close> is the SHA-256 of the file's bytes, \<open>None\<close> when
  reading raises \<open>OSError\<close>.
\<close>

definition DEFAULT_REDACTION_FIELDS :: "string list" where
  "DEFAULT_REDACTION_FIELDS =
     [''secret'', ''api_key'', ''apikey'', ''authorization'', ''auth'',
      ''password'', ''passwd'', ''token'', ''credential'', ''private_key'']"

text \<open>An absent and an empty sequence both mean the defaults.\<close>

definition or_default :: "'a list option \<Rightarrow> 'a list \<Rightarrow> 'a list" where
  "or_default xs d = (case xs of None \<Rightarrow> d | Some [] \<Rightarrow> d | Some (x # r) \<Rightarrow> x # r)"

definition is_field_redacted :: "string list option \<Rightarrow> string \<Rightarrow> bool" where
  "is_field_redacted redactions field_name =
     (lower field_name \<in> set (map lower (or_default redactions DEFAULT_REDACTION_FIELDS)))"

datatype context_error =
    ReferenceValidationError string
  | ContextValidationError int int \<comment> \<open>estimate and maximum\<close>

record context_builder =
  cb_parent_session_id :: string
  cb_task :: string
  cb_workspace :: workspace_scope
  cb_max_context_tokens :: int
  cb_redactions :: "string list"
  cb_references :: "context_reference list"
  cb_attachments :: "string list"

definition new_builder ::
  "string \<Rightarrow> string \<Rightarrow> workspace_scope option \<Rightarrow> int \<Rightarrow> string list option \<Rightarrow> context_builder" where
  "new_builder parent_session_id task ws mt redactions =
     \<lparr>cb_parent_session_id = parent_session_id, cb_task = task,
      cb_workspace = (case ws of None \<Rightarrow> default_workspace | Some w \<Rightarrow> w),
      cb_max_context_tokens = mt,
      cb_redactions = or_default redactions DEFAULT_REDACTION_FIELDS,
      cb_references = [], cb_attachments = []\<rparr>"

definition add_reference :: "context_reference \<Rightarrow> context_builder \<Rightarrow> context_builder" where
  "add_reference ref b = b\<lparr>cb_references := cb_references b @ [ref]\<rparr>"

definition validate_file_reference ::
  "(string \<Rightarrow> string option) \<Rightarrow> context_reference \<Rightarrow> context_error + unit" where
  "validate_file_reference file_hash ref =
     (if cr_path ref = [] then Inl (ReferenceValidationError ''File reference must have a path'')
      else if cr_sha256 ref = [] then Inr ()
      else
        (case file_hash (cr_path ref) of
           None \<Rightarrow> Inl (ReferenceValidationError (''Cannot read referenced file '' @ cr_path ref))
         | Some actual \<Rightarrow>
             if actual \<noteq> cr_sha256 ref
             then Inl (ReferenceValidationError (''sha256 mismatch for '' @ cr_path ref))
             else Inr ()))"

definition add_file_reference ::
  "(string \<Rightarrow> string option) \<Rightarrow> string \<Rightarrow> string \<Rightarrow> context_builder \<Rightarrow> (context_error, unit, context_builder) outcome" where
  "add_file_reference file_hash path sha256 b =
     (let ref = \<lparr>cr_kind = ''file'', cr_path = path, cr_item_id = [], cr_sha256 = sha256, cr_visibility = Summary\<rparr> in
      case validate_file_reference file_hash ref of
        Inl e \<Rightarrow> (Inl e, b)
      | Inr _ \<Rightarrow> (Inr (), add_reference ref b))"

definition add_directory_reference :: "string \<Rightarrow> context_builder \<Rightarrow> context_builder" where
  "add_directory_reference path b =
     add_reference \<lparr>cr_kind = ''directory'', cr_path = path, cr_item_id = [], cr_sha256 = [], cr_visibility = Summary\<rparr> b"

definition add_item_reference :: "string \<Rightarrow> string \<Rightarrow> context_builder \<Rightarrow> context_builder" where
  "add_item_reference item_id vis b =
     add_reference \<lparr>cr_kind = ''item'', cr_path = [], cr_item_id = item_id, cr_sha256 = [],
                    cr_visibility = (if vis = ''summary'' then Summary else Full)\<rparr> b"

definition add_artifact_reference :: "string \<Rightarrow> string \<Rightarrow> context_builder \<Rightarrow> context_builder" where
  "add_artifact_reference artifact_id sha256 b =
     add_reference \<lparr>cr_kind = ''artifact'', cr_path = [], cr_item_id = artifact_id, cr_sha256 = sha256,
                    cr_visibility = Summary\<rparr> b"

definition add_attachment :: "string \<Rightarrow> context_builder \<Rightarrow> context_builder" where
  "add_attachment content_block_id b = b\<lparr>cb_attachments := cb_attachments b @ [content_block_id]\<rparr>"

definition estimate_tokens :: "context_builder \<Rightarrow> int" where
  "estimate_tokens b =
     (int (length (cb_task b))
      + sum_list (map (\<lambda>r. int (length (cr_path r)) + int (length (cr_item_id r)) + 50) (cb_references b))
      + sum_list (map (\<lambda>a. int (length a) + 20) (cb_attachments b))) div 4"

definition build_context :: "context_builder \<Rightarrow> context_error + context_envelope" where
  "build_context b =
     (if estimate_tokens b > cb_max_context_tokens b
      then Inl (ContextValidationError (estimate_tokens b) (cb_max_context_tokens b))
      else Inr \<lparr>ce_parent_session_id = cb_parent_session_id b, ce_task = cb_task b,
                ce_references = cb_references b, ce_attachments = cb_attachments b,
                ce_redactions = cb_redactions b, ce_max_context_tokens = cb_max_context_tokens b\<rparr>)"

definition create_minimal_context :: "string \<Rightarrow> string \<Rightarrow> int \<Rightarrow> context_envelope" where
  "create_minimal_context parent_session_id task mt =
     \<lparr>ce_parent_session_id = parent_session_id, ce_task = task, ce_references = [], ce_attachments = [],
      ce_redactions = [], ce_max_context_tokens = mt\<rparr>"

section \<open>Correctness\<close>

datatype builder_cmd =
    Add_File string string
  | Add_Directory string
  | Add_Item string string
  | Add_Artifact string string
  | Add_Attachment string

fun builder_step :: "(string \<Rightarrow> string option) \<Rightarrow> context_builder \<Rightarrow> builder_cmd \<Rightarrow> context_builder" where
  "builder_step h b (Add_File p s) = snd (add_file_reference h p s b)"
| "builder_step h b (Add_Directory p) = add_directory_reference p b"
| "builder_step h b (Add_Item i v) = add_item_reference i v b"
| "builder_step h b (Add_Artifact i s) = add_artifact_reference i s b"
| "builder_step h b (Add_Attachment a) = add_attachment a b"

text \<open>Every file reference names a file and, where it carries a hash, the file has that hash.\<close>

definition reference_checked :: "(string \<Rightarrow> string option) \<Rightarrow> context_reference \<Rightarrow> bool" where
  "reference_checked h r \<longleftrightarrow>
     cr_kind r \<noteq> ''file'' \<or> cr_path r \<noteq> [] \<and> (cr_sha256 r = [] \<or> h (cr_path r) = Some (cr_sha256 r))"

definition builder_wf :: "(string \<Rightarrow> string option) \<Rightarrow> context_builder \<Rightarrow> bool" where
  "builder_wf h b \<longleftrightarrow> list_all (reference_checked h) (cb_references b)"

definition builder_le :: "context_builder \<Rightarrow> context_builder \<Rightarrow> bool" where
  "builder_le b b' \<longleftrightarrow> prefix (cb_references b) (cb_references b') \<and> prefix (cb_attachments b) (cb_attachments b') \<and>
     cb_task b' = cb_task b \<and> cb_max_context_tokens b' = cb_max_context_tokens b \<and>
     cb_redactions b' = cb_redactions b \<and> cb_parent_session_id b' = cb_parent_session_id b"

lemmas add_defs = add_file_reference_def add_directory_reference_def add_item_reference_def
  add_artifact_reference_def add_attachment_def add_reference_def

interpretation builder: ordered_machine "builder_step h" "builder_wf h" builder_le for h
proof
  fix b c assume "builder_wf h b"
  then show "builder_wf h (builder_step h b c)"
    by (cases c) (auto simp: builder_wf_def add_defs reference_checked_def validate_file_reference_def
        Let_def split: sum.splits option.splits if_splits)
  show "builder_le b (builder_step h b c)"
    by (cases c) (auto simp: builder_le_def add_defs Let_def split: sum.splits)
qed (auto simp: builder_le_def)

text \<open>
  Whatever is added to a builder, in whatever order: building succeeds exactly when the
  token estimate is within the maximum given at the start, the envelope then carries the
  task, the default redactions and every reference and attachment added, every file
  reference in it was checked against its hash, and the task itself is shorter than four
  times the maximum plus four characters.
\<close>

theorem build_context_spec:
  "let b = run (builder_step h) (new_builder parent task ws m redactions) cmds in
   case build_context b of
     Inl e \<Rightarrow> e = ContextValidationError (estimate_tokens b) m \<and> estimate_tokens b > m
   | Inr env \<Rightarrow>
       ce_task env = task \<and> ce_parent_session_id env = parent \<and> ce_max_context_tokens env = m \<and>
       ce_references env = cb_references b \<and> ce_attachments env = cb_attachments b \<and>
       ce_redactions env = or_default redactions DEFAULT_REDACTION_FIELDS \<and>
       list_all (reference_checked h) (ce_references env) \<and>
       int (length task) < 4 * m + 4"
proof -
  define b0 where "b0 = new_builder parent task ws m redactions"
  define b where "b = run (builder_step h) b0 cmds"
  have wf0: "builder_wf h b0" by (simp add: b0_def new_builder_def builder_wf_def)
  have wf: "builder_wf h b" unfolding b_def by (rule builder.run_inv [OF wf0])
  have "builder_le b0 b" unfolding b_def by (rule builder.run_le [OF wf0])
  then have b: "cb_task b = task" "cb_max_context_tokens b = m" "cb_parent_session_id b = parent"
    "cb_redactions b = or_default redactions DEFAULT_REDACTION_FIELDS"
    by (simp_all add: builder_le_def b0_def new_builder_def)
  have "0 \<le> sum_list (map (\<lambda>r. int (length (cr_path r)) + int (length (cr_item_id r)) + 50) (cb_references b))"
    by (rule sum_list_nonneg) auto
  moreover have "0 \<le> sum_list (map (\<lambda>a. int (length a) + 20) (cb_attachments b))"
    by (rule sum_list_nonneg) auto
  ultimately have "int (length task) < 4 * m + 4" if "estimate_tokens b \<le> m"
    using that unfolding estimate_tokens_def b(1) by linarith
  then show ?thesis using wf b
    by (simp add: build_context_def builder_wf_def Let_def flip: b0_def b_def)
qed

end
