(* ===== verification/Manager.thy ===== *)
theory Manager
  imports Runtime Events Modes Context_Builder
begin

text \<open>
  \<open>core/subagents/manager.py\<close>: the one dispatch path of all child sessions, with the trees, the
  event store, the lease table and the runtimes in flight. \<open>dispatch\<close> has one suspension point,
  the execution of the child; the model splits it there: \<open>dispatch_begin\<close> is everything before,
  \<open>dispatch_finish\<close> everything after, and other operations may run between the two. Clock
  readings and fresh identifiers of one dispatch are in \<open>dispatch_env\<close>, by the name of the event
  or transition that takes them. The run journal of the web worker is not modelled.
\<close>

section \<open>State\<close>

datatype dispatch_error =
    FeatureDisabledError string
  | AgentNotFoundError string
  | ModeMismatchError string
  | DepthLimitExceededError int int
  | TaskPermissionDeniedError string string
  | ContextError context_error
  | SessionError session_error
  | RetryError string string \<comment> \<open>code and session id\<close>
  | RecursionError

fun dispatch_error_code :: "dispatch_error \<Rightarrow> string" where
  "dispatch_error_code (FeatureDisabledError f) = ''feature_disabled''"
| "dispatch_error_code (AgentNotFoundError a) = ''agent_not_found''"
| "dispatch_error_code (ModeMismatchError a) = ''mode_mismatch''"
| "dispatch_error_code (DepthLimitExceededError d m) = ''depth_limit_exceeded''"
| "dispatch_error_code (TaskPermissionDeniedError a p) = ''task_permission_denied''"
| "dispatch_error_code (RetryError c s) = c"
| "dispatch_error_code _ = ''dispatch_error''"

record dispatch_env =
  de_session_uuid :: string
  de_lease_uuid :: string
  de_uuid :: "string \<Rightarrow> string"
  de_now :: "string \<Rightarrow> rat"
  de_now_ms :: int
  de_sha256 :: "string \<Rightarrow> string"
  de_fs :: path_env
  de_str :: "pyval \<Rightarrow> string"

record child_manager =
  cm_registry :: agent_registry
  cm_config :: subagent_config
  cm_primary_agent_id :: string
  cm_workspace_root :: "string option"
  cm_trees :: "(string, session_tree) pydict"
  cm_store :: "event_store option"
  cm_emitted :: "child_session_event list" \<comment> \<open>calls of the event emitter\<close>
  cm_request_ids :: "(string, string) pydict"
  cm_requests :: "(string, task_request) pydict"
  cm_leases :: lease_manager
  cm_running :: "(string, task_request \<times> child_runtime) pydict" \<comment> \<open>suspended in \<open>_run_child\<close>\<close>

definition new_manager :: "agent_registry \<Rightarrow> subagent_config \<Rightarrow> event_store option \<Rightarrow> child_manager" where
  "new_manager reg cfg store =
     \<lparr>cm_registry = reg, cm_config = cfg, cm_primary_agent_id = ''primary'', cm_workspace_root = None,
      cm_trees = [], cm_store = store, cm_emitted = [], cm_request_ids = [], cm_requests = [],
      cm_leases = new_lease_manager, cm_running = []\<rparr>"

section \<open>Looking up sessions\<close>

fun find_in_trees :: "session_tree list \<Rightarrow> string \<Rightarrow> child_session option" where
  "find_in_trees [] sid = None"
| "find_in_trees (t # ts) sid =
     (case dict_get (t_sessions t) sid of Some s \<Rightarrow> Some s | None \<Rightarrow> find_in_trees ts sid)"

definition manager_trees :: "child_manager \<Rightarrow> session_tree list" where
  "manager_trees m = dict_values (cm_trees m)"

definition find_session :: "child_manager \<Rightarrow> string \<Rightarrow> child_session option" where
  "find_session m sid = (if sid = [] then None else find_in_trees (manager_trees m) sid)"

definition root_for_parent :: "child_manager \<Rightarrow> string \<Rightarrow> string" where
  "root_for_parent m pid = (case find_session m pid of Some p \<Rightarrow> cs_root_session_id p | None \<Rightarrow> pid)"

definition tree_for :: "string \<Rightarrow> child_manager \<Rightarrow> session_tree \<times> child_manager" where
  "tree_for rid m =
     (case dict_get (cm_trees m) rid of
        Some t \<Rightarrow> (t, m)
      | None \<Rightarrow> (new_tree rid, m\<lparr>cm_trees := dict_set rid (new_tree rid) (cm_trees m)\<rparr>))"

definition put_tree :: "string \<Rightarrow> session_tree \<Rightarrow> child_manager \<Rightarrow> child_manager" where
  "put_tree rid t m = m\<lparr>cm_trees := dict_set rid t (cm_trees m)\<rparr>"

text \<open>A write to the session object, which lives in the tree of its root.\<close>

definition put_session :: "child_session \<Rightarrow> child_manager \<Rightarrow> child_manager" where
  "put_session s m =
     (case dict_get (cm_trees m) (cs_root_session_id s) of
        None \<Rightarrow> m
      | Some t \<Rightarrow> put_tree (cs_root_session_id s) (update_session (cs_session_id s) s t) m)"

definition get_session :: "string \<Rightarrow> string \<Rightarrow> child_manager \<Rightarrow> (dispatch_error, child_session, child_manager) outcome" where
  "get_session rid sid m =
     (case tree_for rid m of
        (t, m') \<Rightarrow> (case tree_get t sid of Inl e \<Rightarrow> (Inl (SessionError e), m') | Inr s \<Rightarrow> (Inr s, m')))"

section \<open>Events\<close>

definition payload_text :: "(string, pyval) pydict \<Rightarrow> string \<Rightarrow> string \<Rightarrow> string" where
  "payload_text payload k d = (case dict_get payload k of Some (PStr s) \<Rightarrow> s | _ \<Rightarrow> d)"

definition session_event ::
  "dispatch_env \<Rightarrow> string \<Rightarrow> (string, pyval) pydict \<Rightarrow> child_manager \<Rightarrow> child_session_event" where
  "session_event env name payload m =
     (let sid = payload_text payload ''session_id'' [];
          parent = (case find_session m sid of Some s \<Rightarrow> cs_parent_session_id s
                    | None \<Rightarrow> payload_text payload ''parent_session_id'' []);
          rid = (case find_session m sid of Some s \<Rightarrow> cs_root_session_id s
                 | None \<Rightarrow> payload_text payload ''root_session_id'' parent);
          request_id = dict_get_or (cm_request_ids m) sid (payload_text payload ''request_id'' []);
          version = (case find_session m sid of Some s \<Rightarrow> cs_definition_version s | None \<Rightarrow> [])
      in build_event (de_uuid env name) (de_now env name) name sid parent request_id rid version [] (Some payload))"

definition emit :: "dispatch_env \<Rightarrow> string \<Rightarrow> (string, pyval) pydict \<Rightarrow> child_manager \<Rightarrow> child_manager" where
  "emit env name payload m =
     (let sid = payload_text payload ''session_id'' [] in
      if (case cm_store m of None \<Rightarrow> False
          | Some st \<Rightarrow> name \<in> set TERMINAL_EVENTS \<and> has_terminal_event st sid) then m
      else
        (let event = session_event env name payload m in
         case cm_store m of
           None \<Rightarrow> m\<lparr>cm_emitted := cm_emitted m @ [event]\<rparr>
         | Some st \<Rightarrow>
             (case store_append event st of
                (event', st') \<Rightarrow> m\<lparr>cm_store := Some st', cm_emitted := cm_emitted m @ [event']\<rparr>)))"

section \<open>Validation of a request\<close>

definition parent_task_permission :: "child_manager \<Rightarrow> task_request \<Rightarrow> task_permission_spec" where
  "parent_task_permission m req =
     (case find_in_trees (manager_trees m) (tr_parent_session_id req) of
        Some p \<Rightarrow> ep_task_permission (cs_policy p)
      | None \<Rightarrow>
          (case registry_get (cm_registry m) (cm_primary_agent_id m) of
             Some d \<Rightarrow> ad_task_permission d
           | None \<Rightarrow>
               if default_task_permission_deny (cm_config m)
               then task_permission_of_verdict DENY else task_permission_of_verdict ALLOW))"

definition check_task_permission :: "child_manager \<Rightarrow> task_request \<Rightarrow> agent_definition \<Rightarrow> dispatch_error + unit" where
  "check_task_permission m req d =
     (if tr_trigger req = MENTION then Inr ()
      else if \<not> task_allows (parent_task_permission m req) (ad_id d)
      then Inl (TaskPermissionDeniedError (ad_id d) (tr_parent_session_id req))
      else Inr ())"

definition parent_depth_limit :: "child_manager \<Rightarrow> task_request \<Rightarrow> int" where
  "parent_depth_limit m req =
     (case find_in_trees (manager_trees m) (tr_parent_session_id req) of
        Some p \<Rightarrow> ep_remaining_child_depth (cs_policy p)
      | None \<Rightarrow>
          (case registry_get (cm_registry m) (cm_primary_agent_id m) of
             Some d \<Rightarrow> ad_subagent_depth d
           | None \<Rightarrow> default_subagent_depth (cm_config m)))"

text \<open>
  The walk up the lineage, with the set of ids seen. It ends because each round adds an id
  that was not seen before to that set.
\<close>

definition lineage_ids :: "session_tree list \<Rightarrow> child_session \<Rightarrow> string set" where
  "lineage_ids ts s = insert (cs_session_id s) (cs_session_id ` (\<Union>t \<in> set ts. set (dict_values (t_sessions t))))"

lemma finite_lineage_ids [simp]: "finite (lineage_ids ts s)"
  by (simp add: lineage_ids_def)

lemma find_in_trees_lineage: "find_in_trees ts sid = Some p \<Longrightarrow> lineage_ids ts p \<subseteq> lineage_ids ts s"
  by (induction ts) (auto simp: lineage_ids_def dest: dict_get_in_values split: option.splits)

function depth_from :: "session_tree list \<Rightarrow> string list \<Rightarrow> child_session \<Rightarrow> nat" where
  "depth_from ts visited s =
     (if cs_parent_session_id s \<noteq> [] \<and> cs_session_id s \<notin> set visited
      then (case find_in_trees ts (cs_parent_session_id s) of
              None \<Rightarrow> 0
            | Some p \<Rightarrow> Suc (depth_from ts (cs_session_id s # visited) p))
      else 0)"
  by pat_completeness auto
termination
proof (relation "measure (\<lambda>(ts, visited, s). card (lineage_ids ts s - set visited))")
  fix ts :: "session_tree list" and visited :: "string list" and s p :: child_session
  assume g: "cs_parent_session_id s \<noteq> [] \<and> cs_session_id s \<notin> set visited"
    and p: "find_in_trees ts (cs_parent_session_id s) = Some p"
  have "lineage_ids ts p - set (cs_session_id s # visited) \<subset> lineage_ids ts s - set visited"
    using find_in_trees_lineage [OF p, of s] g by (auto simp: lineage_ids_def)
  then show "((ts, cs_session_id s # visited, p), ts, visited, s)
      \<in> measure (\<lambda>(ts, visited, s). card (lineage_ids ts s - set visited))"
    by (simp add: psubset_card_mono)
qed simp

declare depth_from.simps [simp del]

definition depth_of :: "child_manager \<Rightarrow> child_session \<Rightarrow> nat" where
  "depth_of m s = depth_from (manager_trees m) [] s"

definition current_depth :: "child_manager \<Rightarrow> string \<Rightarrow> int" where
  "current_depth m pid =
     (if pid = [] then 0
      else (case find_in_trees (manager_trees m) pid of
              None \<Rightarrow> 0 | Some p \<Rightarrow> int (depth_of m p) + 1))"

section \<open>The effective policy\<close>

definition workspace_level :: "workspace_mode \<Rightarrow> nat" where
  "workspace_level md = (case md of READ_ONLY \<Rightarrow> 0 | LEASED_WRITE \<Rightarrow> 1 | ISOLATED_WORKTREE \<Rightarrow> 2)"

definition workspace_order :: "workspace_mode list" where
  "workspace_order = [READ_ONLY, LEASED_WRITE, ISOLATED_WORKTREE]"

definition resolve_workspace_mode :: "workspace_mode option \<Rightarrow> agent_definition \<Rightarrow> workspace_mode" where
  "resolve_workspace_mode requested d =
     (case requested of
        None \<Rightarrow> ad_workspace_scope d
      | Some r \<Rightarrow> workspace_order ! min (workspace_level r) (workspace_level (ad_workspace_scope d)))"

definition compute_policy :: "subagent_config \<Rightarrow> task_request \<Rightarrow> agent_definition \<Rightarrow> effective_task_policy" where
  "compute_policy cfg req d =
     (let rb = tr_requested_budget req;
          steps = min (case rb of Some b \<Rightarrow> max_steps b | None \<Rightarrow> 2 ^ 31)
                      (case ad_steps d of Some n \<Rightarrow> if n = 0 then 12 else n | None \<Rightarrow> 12);
          server_tokens = (case as_int (raw_get (ad_extra d) ''max_tokens'') of
             Some i \<Rightarrow> if i > 0 then i else default_max_tokens cfg
           | None \<Rightarrow> default_max_tokens cfg);
          tokens = min (case rb of Some b \<Rightarrow> max_tokens b | None \<Rightarrow> 2 ^ 31) server_tokens;
          wall = (case rb of Some b \<Rightarrow> max_wall_time_seconds b | None \<Rightarrow> 300);
          conc = (case rb of Some b \<Rightarrow> max_concurrent_children b | None \<Rightarrow> 3);
          mode = resolve_workspace_mode (map_option ws_mode (tr_requested_workspace req)) d;
          leased = (case tr_requested_workspace req of Some w \<Rightarrow> ws_leased_paths w | None \<Rightarrow> [])
      in \<lparr>ep_task_permission = ad_task_permission d, ep_subagent_depth = ad_subagent_depth d,
          ep_remaining_child_depth = max 0 (ad_subagent_depth d - 1),
          ep_budget = \<lparr>max_steps = steps, max_tokens = tokens, max_wall_time_seconds = wall,
                       max_concurrent_children = conc\<rparr>,
          ep_workspace = \<lparr>ws_mode = mode, ws_leased_paths = leased, ws_lease_id = []\<rparr>,
          ep_permission = ad_permission d\<rparr>)"

definition build_request_context :: "task_request \<Rightarrow> context_error + context_envelope" where
  "build_request_context req =
     (case tr_context req of
        Some c \<Rightarrow> Inr c
      | None \<Rightarrow> build_context (new_builder (tr_parent_session_id req) (tr_prompt req) None 12000 None))"

section \<open>Dispatch, up to the execution\<close>

definition terminal_result ::
  "task_request \<Rightarrow> child_session \<Rightarrow> child_status \<Rightarrow> string \<Rightarrow> error_record option \<Rightarrow> task_result" where
  "terminal_result req s status summary err =
     \<lparr>res_request_id = tr_request_id req, res_child_session_id = cs_session_id s, res_status = status,
      res_summary = summary, res_artifacts = [], res_evidence = [], res_usage = usage_post_init default_usage,
      res_error = err, res_telemetry = []\<rparr>"

definition make_error :: "string \<Rightarrow> string \<Rightarrow> error_record" where
  "make_error code msg = \<lparr>err_code = code, err_message = msg, err_details = []\<rparr>"

text \<open>\<open>transition(session, st)\<close>, unchanged when it raises; \<open>force_status\<close> is the swallowed raise.\<close>

definition force_status :: "rat \<Rightarrow> child_status \<Rightarrow> child_session \<Rightarrow> child_session" where
  "force_status now st s = (case transition now s st of Inl _ \<Rightarrow> s | Inr s' \<Rightarrow> s')"

definition status_payload :: "string \<Rightarrow> string \<Rightarrow> (string, pyval) pydict" where
  "status_payload sid status = [(''session_id'', PStr sid), (''status'', PStr status)]"

definition error_payload :: "string \<Rightarrow> string \<Rightarrow> string \<Rightarrow> (string, pyval) pydict" where
  "error_payload sid code msg =
     status_payload sid ''failed'' @
       [(''error'', PDict [(''code'', PStr code), (''message'', PStr msg)])]"

text \<open>Fail a running child before its execution: transition, event, result.\<close>

definition fail_child ::
  "dispatch_env \<Rightarrow> task_request \<Rightarrow> child_session \<Rightarrow> string \<Rightarrow> string \<Rightarrow> child_manager \<Rightarrow> task_result \<times> child_manager" where
  "fail_child env req s code msg m =
     (let s' = force_status (de_now env ''failed'') FAILED s;
          m' = emit env EVENT_FAILED (error_payload (cs_session_id s) code msg) (put_session s' m)
      in (terminal_result req s' FAILED msg (Some (make_error code msg)), m'))"

datatype start =
    Finished task_result
  | Suspended string \<comment> \<open>waiting in the execution of this session\<close>

definition running_siblings :: "child_manager \<Rightarrow> child_session \<Rightarrow> nat" where
  "running_siblings m s =
     length (filter (\<lambda>c. cs_session_id c \<noteq> cs_session_id s \<and> cs_status c = RUNNING)
       (list_active (fst (tree_for (cs_root_session_id s) m))))"

definition concurrency_message :: "nat \<Rightarrow> int \<Rightarrow> string" where
  "concurrency_message n limit =
     ''Concurrency limit exceeded: '' @ str_int (int n) @ ''/'' @ str_int limit @ '' active''"

definition with_lease :: "string \<Rightarrow> child_session \<Rightarrow> child_session" where
  "with_lease lid s =
     s\<lparr>cs_policy := (cs_policy s)\<lparr>ep_workspace := (ep_workspace (cs_policy s))\<lparr>ws_lease_id := lid\<rparr>\<rparr>\<rparr>"

definition lease_for ::
  "dispatch_env \<Rightarrow> child_session \<Rightarrow> lease_manager \<Rightarrow> workspace_error + child_session \<times> lease_manager" where
  "lease_for env s lm =
     (let w = ep_workspace (cs_policy s) in
      if ws_mode w \<noteq> LEASED_WRITE then Inr (s, lm)
      else if ws_leased_paths w = [] then
        Inl (WorkspaceError ''leased_write requires at least one leased path'' ''workspace.no_scope'')
      else
        (case lm_acquire (de_fs env) (de_lease_uuid env) (de_now env ''lease'') (cs_session_id s)
                (ws_leased_paths w) None lm of
           Inl e \<Rightarrow> Inl e
         | Inr (l, lm') \<Rightarrow> Inr (with_lease (ls_lease_id l) s, lm')))"

text \<open>\<open>_run_child\<close> up to the \<open>await\<close>.\<close>

definition start_child ::
  "dispatch_env \<Rightarrow> task_request \<Rightarrow> child_session \<Rightarrow> agent_definition \<Rightarrow> child_manager \<Rightarrow> start \<times> child_manager" where
  "start_child env req s d m =
     (case transition (de_now env ''started'') s RUNNING of
        Inl _ \<Rightarrow> (Finished (terminal_result req s CANCELLED ''Cancelled before start'' None), m)
      | Inr s1 \<Rightarrow>
          let m1 = snd (tree_for (cs_root_session_id s1) (put_session s1 m));
              n = running_siblings m1 s1;
              limit = max_concurrent_children (ep_budget (cs_policy s1))
          in
          if int n \<ge> limit then
            (case fail_child env req s1 ''budget.concurrency'' (concurrency_message n limit) m1 of
               (res, m2) \<Rightarrow> (Finished res, m2))
          else
            let m2 = emit env EVENT_STARTED [(''session_id'', PStr (cs_session_id s1))] m1 in
            (case lease_for env s1 (cm_leases m2) of
               Inl e \<Rightarrow>
                 (case fail_child env req s1 (workspace_error_code e) (workspace_error_message e) m2 of
                    (res, m3) \<Rightarrow> (Finished res, m3))
             | Inr (s2, lm) \<Rightarrow>
                 let s3 = s2\<lparr>cs_cancel_callback := Some (cs_session_id s2)\<rparr>;
                     rt = create_child_runtime (de_now_ms env) d s3 (cm_workspace_root m2)
                 in (Suspended (cs_session_id s3),
                     (put_session s3 m2)\<lparr>cm_leases := lm,
                        cm_running := dict_set (cs_session_id s3) (req, rt) (cm_running m2)\<rparr>)))"

definition feature_gate :: "feature_flags \<Rightarrow> task_request \<Rightarrow> dispatch_error + unit" where
  "feature_gate flags req =
     (if \<not> subagents_enabled flags then Inl (FeatureDisabledError ''subagents'')
      else if tr_trigger req = AUTOMATIC \<and> \<not> subagents_task flags then Inl (FeatureDisabledError ''task'')
      else if tr_trigger req = MENTION \<and> \<not> subagents_mention flags then Inl (FeatureDisabledError ''mention'')
      else Inr ())"

text \<open>The checks of \<open>dispatch\<close> in their order, to the definition and policy the child gets.\<close>

definition admit :: "child_manager \<Rightarrow> task_request \<Rightarrow> dispatch_error + agent_definition \<times> effective_task_policy" where
  "admit m req =
     bind_result (feature_gate (cfg_flags (cm_config m)) req) (\<lambda>_.
     case registry_get (cm_registry m) (tr_agent_id req) of
       None \<Rightarrow> Inl (AgentNotFoundError (tr_agent_id req))
     | Some d \<Rightarrow>
         (case validate_subagent_entry (ad_mode d) (tr_trigger req = COMMAND) of
            Inl _ \<Rightarrow> Inl (ModeMismatchError (tr_agent_id req))
          | Inr _ \<Rightarrow>
              (case build_request_context req of
                 Inl e \<Rightarrow> Inl (ContextError e)
               | Inr _ \<Rightarrow>
                   let policy = compute_policy (cm_config m) req d;
                       depth = current_depth m (tr_parent_session_id req);
                       limit = parent_depth_limit m req
                   in
                   if depth \<ge> limit then Inl (DepthLimitExceededError depth limit)
                   else bind_result (check_task_permission m req d) (\<lambda>_. Inr (d, policy)))))"

definition trigger_value :: "trigger_kind \<Rightarrow> string" where
  "trigger_value t = (case t of AUTOMATIC \<Rightarrow> ''automatic'' | MENTION \<Rightarrow> ''mention'' | COMMAND \<Rightarrow> ''command'' | TEAM \<Rightarrow> ''team'')"

definition new_child :: "dispatch_env \<Rightarrow> child_manager \<Rightarrow> task_request \<Rightarrow> agent_definition \<Rightarrow> effective_task_policy \<Rightarrow> child_session" where
  "new_child env m req d policy =
     (let s = create_child_session (de_sha256 env) (de_session_uuid env) (de_now env ''created'') req policy (Some d);
          r = root_for_parent m (tr_parent_session_id req)
      in s\<lparr>cs_root_session_id := (if r = [] then cs_session_id s else r)\<rparr>)"

definition dispatch_begin ::
  "dispatch_env \<Rightarrow> task_request \<Rightarrow> child_manager \<Rightarrow> (dispatch_error, start, child_manager) outcome" where
  "dispatch_begin env req m =
     (case admit m req of
        Inl e \<Rightarrow> (Inl e, m)
      | Inr (d, policy) \<Rightarrow>
          let s = new_child env m req d policy; sid = cs_session_id s in
          (case tree_for (cs_root_session_id s) m of
             (t, m1) \<Rightarrow>
               (case tree_add s t of
                  Inl e \<Rightarrow> (Inl (SessionError e), m1)
                | Inr t' \<Rightarrow>
                    let m2 = (put_tree (cs_root_session_id s) t' m1)
                               \<lparr>cm_request_ids := dict_set sid (tr_request_id req) (cm_request_ids m1),
                                cm_requests := dict_set sid req (cm_requests m1)\<rparr>;
                        m3 = emit env EVENT_CREATED
                               [(''session_id'', PStr sid), (''parent_session_id'', PStr (tr_parent_session_id req)),
                                (''request_id'', PStr (tr_request_id req)), (''agent_id'', PStr (tr_agent_id req)),
                                (''trigger'', PStr (trigger_value (tr_trigger req))),
                                (''status'', PStr (child_status_value (cs_status s)))] m2;
                        s1 = force_status (de_now env ''queued'') QUEUED s;
                        m4 = emit env EVENT_QUEUED [(''session_id'', PStr sid)] (put_session s1 m3)
                    in (case start_child env req s1 d m4 of (st, m5) \<Rightarrow> (Inr st, m5)))))"

section \<open>Dispatch, after the execution\<close>

definition status_from_result :: "child_status \<Rightarrow> child_status" where
  "status_from_result st = (if st \<in> {COMPLETED, FAILED, CANCELLED, DENIED, TIMED_OUT} then st else FAILED)"

definition opt_int :: "int option \<Rightarrow> pyval" where
  "opt_int v = (case v of None \<Rightarrow> PNone | Some i \<Rightarrow> PInt i)"

definition usage_payload :: "usage_record \<Rightarrow> pyval" where
  "usage_payload u =
     PDict [(''steps'', PInt (ur_steps u)), (''input_tokens'', opt_int (ur_input_tokens u)),
            (''output_tokens'', opt_int (ur_output_tokens u)),
            (''cache_hit_tokens'', opt_int (ur_cache_hit_tokens u)),
            (''wall_time_ms'', PInt (ur_wall_time_ms u)), (''retry_count'', PInt (ur_retry_count u)),
            (''reporting_status'', PStr (case ur_reporting_status u of
               Reported \<Rightarrow> ''reported'' | Partial \<Rightarrow> ''partial'' | Not_Reported \<Rightarrow> ''not_reported''))]"

definition result_payload :: "string \<Rightarrow> child_status \<Rightarrow> task_result \<Rightarrow> (string, pyval) pydict" where
  "result_payload sid st res =
     status_payload sid (child_status_value st) @
       [(''summary'', PStr (res_summary res)),
        (''artifacts'', PList (map (\<lambda>a. PDict [(''kind'', PStr (ar_kind a)), (''ref'', PStr (ar_ref a)),
                                              (''sha256'', PStr (ar_sha256 a))]) (res_artifacts res))),
        (''evidence'', PList (map (\<lambda>e. PDict [(''path'', PStr (er_path e)), (''line'', PInt (er_line e)),
                                             (''sha256'', PStr (er_sha256 e))]) (res_evidence res))),
        (''error'', (case res_error res of None \<Rightarrow> PNone
           | Some e \<Rightarrow> PDict [(''code'', PStr (err_code e)), (''message'', PStr (err_message e)),
                            (''details'', PDict (err_details e))])),
        (''usage'', usage_payload (res_usage res))]"

text \<open>\<open>release_all_for_session\<close> and the end of the suspended call.\<close>

definition release_child :: "string \<Rightarrow> child_manager \<Rightarrow> child_manager" where
  "release_child sid m =
     m\<lparr>cm_leases := snd (lm_release_all_for_session sid (cm_leases m)),
       cm_running := dict_del sid (cm_running m)\<rparr>"

text \<open>
  \<open>_run_child\<close> after the \<open>await\<close>: the session of the tree gets the result and, as far as the
  transitions are allowed, its status; then the terminal event, then the release.
\<close>

definition conclude ::
  "dispatch_env \<Rightarrow> task_request \<Rightarrow> child_session \<Rightarrow> task_result \<Rightarrow> child_manager \<Rightarrow> task_result \<times> child_manager" where
  "conclude env req s res m =
     (let st = status_from_result (res_status res);
          s1 = s\<lparr>cs_result := Some res\<rparr>;
          s2 = (case transition (de_now env ''finalizing'') s1 FINALIZING of
                  Inl _ \<Rightarrow> s1
                | Inr s1' \<Rightarrow> force_status (de_now env ''terminal'') st s1');
          m1 = emit env (''child_session/'' @ child_status_value st) (result_payload (cs_session_id s) st res)
                 (put_session s2 m)
      in (res\<lparr>res_request_id := tr_request_id req, res_child_session_id := cs_session_id s, res_status := st\<rparr>, m1))"

definition dispatch_finish ::
  "dispatch_env \<Rightarrow> string \<Rightarrow> agent_run \<Rightarrow> child_manager \<Rightarrow> task_result option \<times> child_manager" where
  "dispatch_finish env sid arun m =
     (case (dict_get (cm_running m) sid, find_session m sid) of
        (Some (req, rt), Some s) \<Rightarrow>
          (case execute (de_str env) (de_fs env) (arun\<lparr>ag_token_cancelled := rt_cancelled rt \<or> ag_token_cancelled arun\<rparr>)
                  (strip (tr_prompt req)) (rt\<lparr>rt_cancelled := False\<rparr>) of
             (Inr (ocs, res), rt') \<Rightarrow>
               (case conclude env req s res m of (r, m') \<Rightarrow> (Some r, release_child sid m'))
           | (Inl msg, rt') \<Rightarrow>
               (let s' = force_status (de_now env ''failed'') FAILED s in
                (Some (terminal_result req s' FAILED (''Runtime failure: '' @ msg) (Some (make_error ''internal_error'' msg))),
                 release_child sid (put_session s' m))))
      | _ \<Rightarrow> (None, m))"

section \<open>Cancellation\<close>

definition cancel_runtimes :: "string list \<Rightarrow> child_manager \<Rightarrow> child_manager" where
  "cancel_runtimes cbs m =
     m\<lparr>cm_running := map (\<lambda>(k, (req, rt)). (k, (req, if k \<in> set cbs then cancel_runtime rt else rt))) (cm_running m)\<rparr>"

text \<open>The event and the lease release of one session that the cancellation ended.\<close>

definition announce_cancelled :: "dispatch_env \<Rightarrow> string list \<Rightarrow> child_session \<Rightarrow> child_manager \<Rightarrow> child_manager" where
  "announce_cancelled env active_before s m =
     (if cs_session_id s \<in> set active_before \<and> cs_status s = CANCELLED then
        (let m' = emit (env\<lparr>de_uuid := (\<lambda>n. de_uuid env (n @ cs_session_id s))\<rparr>) EVENT_CANCELLED
                    (status_payload (cs_session_id s) ''cancelled'') m
         in m'\<lparr>cm_leases := snd (lm_release_all_for_session (cs_session_id s) (cm_leases m'))\<rparr>)
      else m)"

definition cancel_in_manager ::
  "dispatch_env \<Rightarrow> string \<Rightarrow> string option \<Rightarrow> child_manager \<Rightarrow> (dispatch_error, unit, child_manager) outcome" where
  "cancel_in_manager env rid target m =
     (case tree_for rid m of
        (t, m1) \<Rightarrow>
          let active_before = map cs_session_id (list_active t); fuel = Suc (tree_len t) in
          (case (case target of
                   Some sid \<Rightarrow> cancel_session fuel (de_now env ''cancel'') sid (t, [])
                 | None \<Rightarrow> cancel_all fuel (de_now env ''cancel'') (t, [])) of
             None \<Rightarrow> (Inl RecursionError, m1)
           | Some (Inl e) \<Rightarrow> (Inl (SessionError e), m1)
           | Some (Inr (t', cbs)) \<Rightarrow>
               (Inr (), fold (announce_cancelled env active_before) (list_all_sessions t')
                          (cancel_runtimes cbs (put_tree rid t' m1)))))"

definition manager_cancel_session ::
  "dispatch_env \<Rightarrow> string \<Rightarrow> string \<Rightarrow> child_manager \<Rightarrow> (dispatch_error, unit, child_manager) outcome" where
  "manager_cancel_session env rid sid m = cancel_in_manager env rid (Some sid) m"

definition cancel_root ::
  "dispatch_env \<Rightarrow> string \<Rightarrow> child_manager \<Rightarrow> (dispatch_error, unit, child_manager) outcome" where
  "cancel_root env rid m = cancel_in_manager env rid None m"

definition active_lease_count :: "rat \<Rightarrow> child_manager \<Rightarrow> nat" where
  "active_lease_count now m =
     length (remdups (map ls_lease_id (filter (lease_is_active now) (dict_values (lm_leases (cm_leases m))))))"

definition retry_session ::
  "dispatch_env \<Rightarrow> string \<Rightarrow> string \<Rightarrow> string \<Rightarrow> child_manager \<Rightarrow> (dispatch_error, start, child_manager) outcome" where
  "retry_session env rid sid request_id m =
     (case get_session rid sid m of
        (Inl e, m1) \<Rightarrow> (Inl e, m1)
      | (Inr s, m1) \<Rightarrow>
          if \<not> is_terminal s then (Inl (RetryError ''retry_active_session'' sid), m1)
          else
            (case dict_get (cm_requests m1) sid of
               None \<Rightarrow> (Inl (RetryError ''retry_request_unavailable'' sid), m1)
             | Some original \<Rightarrow> dispatch_begin env (original\<lparr>tr_request_id := request_id\<rparr>) m1))"

end
