(* ===== verification/Workspace_Correct.thy ===== *)
theory Workspace_Correct
  imports Workspace
begin

text \<open>
  Leases are exclusive: what a session was granted stays granted until it is released or
  expires, no other session can take it, and an edit in leased mode passes only for the
  session that holds the path.
\<close>

section \<open>The lease manager as a machine\<close>

definition lm_wf :: "lease_manager \<Rightarrow> bool" where
  "lm_wf lm \<longleftrightarrow> dict_wf (lm_leases lm) \<and> list_all (\<lambda>(k, l). \<not> ls_released l) (lm_leases lm)"

datatype lease_cmd =
    Acquire string rat string "string list" "rat option"
  | Release string
  | Release_All string
  | Recover rat

fun lease_step :: "path_env \<Rightarrow> lease_manager \<Rightarrow> lease_cmd \<Rightarrow> lease_manager" where
  "lease_step fs lm (Acquire lid now sid ps ttl) =
     (case lm_acquire fs lid now sid ps ttl lm of Inl _ \<Rightarrow> lm | Inr (_, lm') \<Rightarrow> lm')"
| "lease_step fs lm (Release lid) = lm_release lid lm"
| "lease_step fs lm (Release_All sid) = snd (lm_release_all_for_session sid lm)"
| "lease_step fs lm (Recover now) = snd (lm_recover_expired now lm)"

lemma lm_wf_not_released: "lm_wf lm \<Longrightarrow> dict_get (lm_leases lm) k = Some l \<Longrightarrow> \<not> ls_released l"
  by (fastforce simp: lm_wf_def list_all_iff dest: dict_get_SomeD)

lemma lm_drop_get:
  "lm_wf lm \<Longrightarrow> dict_get (lm_leases (snd (lm_drop P lm))) k =
     (case dict_get (lm_leases lm) k of None \<Rightarrow> None | Some l \<Rightarrow> if P l then None else Some l)"
  by (auto simp: lm_drop_def dict_get_filter lm_wf_def split: option.splits)

lemma lm_drop_wf: "lm_wf lm \<Longrightarrow> lm_wf (snd (lm_drop P lm))"
  by (auto simp: lm_wf_def lm_drop_def dict_wf_filter list_all_iff)

lemma lm_acquire_cases:
  assumes "lm_acquire fs lid now sid ps ttl lm = Inr (l, lm')"
  shows "lm_first_conflict now sid lm (map (lm_normalize fs) ps) = None"
    and "ls_session_id l = sid" and "ls_lease_id l = lid" and "\<not> ls_released l"
    and "lease_is_active now l"
    and "lm_leases lm' = fold (\<lambda>key. dict_set key l) (map (lm_normalize fs) ps) (lm_leases lm)"
  using assms
  by (auto simp: lm_acquire_def Let_def lease_is_active_def lease_is_expired_def
      split: option.splits if_splits)

lemma lm_acquire_get:
  assumes "lm_acquire fs lid now sid ps ttl lm = Inr (l, lm')"
  shows "dict_get (lm_leases lm') k =
           (if k \<in> set (map (lm_normalize fs) ps) then Some l else dict_get (lm_leases lm) k)"
  unfolding lm_acquire_cases(6) [OF assms] by (rule pd.get_fold_put)

lemma dict_fold_set_all:
  "list_all (\<lambda>(k, l). \<not> ls_released l) d \<Longrightarrow> \<not> ls_released l \<Longrightarrow>
   list_all (\<lambda>(k, l). \<not> ls_released l) (fold (\<lambda>key. dict_set key l) ks d)"
proof (induction ks arbitrary: d)
  case Nil
  then show ?case by simp
next
  case (Cons k ks)
  have "list_all (\<lambda>(k, l). \<not> ls_released l) (dict_set k l d)"
    using Cons.prems by (induction k l d rule: dict_set.induct) auto
  then show ?case using Cons by simp
qed

lemma lm_acquire_wf: "lm_wf lm \<Longrightarrow> lm_acquire fs lid now sid ps ttl lm = Inr (l, lm') \<Longrightarrow> lm_wf lm'"
  using lm_acquire_cases(4,6) [of fs lid now sid ps ttl lm l lm']
  by (simp add: lm_wf_def pd.invar_fold_put dict_fold_set_all)

interpretation leases: machine "lease_step fs" lm_wf for fs
proof
  fix lm c assume "lm_wf lm"
  then show "lm_wf (lease_step fs lm c)"
    by (cases c) (auto simp: lm_release_def lm_release_all_for_session_def lm_recover_expired_def
        lm_drop_wf split: sum.splits intro: lm_acquire_wf)
qed

section \<open>Conflicts\<close>

lemma lm_first_conflict_None_iff:
  "lm_first_conflict now sid lm keys = None \<longleftrightarrow> (\<forall>k \<in> set keys. lm_conflict now sid lm k = None)"
  by (induction keys) (auto split: option.splits)

lemma lm_first_conflict_Some:
  "lm_first_conflict now sid lm keys = Some e \<Longrightarrow>
   \<exists>k h. k \<in> set keys \<and> e = LeaseConflictError k h \<and> lm_conflict now sid lm k = Some h"
  by (induction keys) (auto split: option.splits)

lemma lm_conflict_iff:
  "lm_conflict now sid lm k = Some h \<longleftrightarrow>
     (\<exists>l. dict_get (lm_leases lm) k = Some l \<and> lease_is_active now l \<and> ls_session_id l = h \<and> h \<noteq> sid)"
  by (auto simp: lm_conflict_def split: option.splits)

section \<open>Foreign commands\<close>

text \<open>
  A command leaves a lease alone when it is not the owner's and the lease has not expired at
  the time it reads.
\<close>

fun foreign :: "lease \<Rightarrow> lease_cmd \<Rightarrow> bool" where
  "foreign l (Acquire lid now sid ps ttl) = (sid \<noteq> ls_session_id l \<and> lease_is_active now l)"
| "foreign l (Release lid) = (lid \<noteq> ls_lease_id l)"
| "foreign l (Release_All sid) = (sid \<noteq> ls_session_id l)"
| "foreign l (Recover now) = lease_is_active now l"

lemma foreign_step:
  assumes wf: "lm_wf lm" and l: "dict_get (lm_leases lm) k = Some l" and f: "foreign l c"
  shows "dict_get (lm_leases (lease_step fs lm c)) k = Some l"
proof (cases c)
  case (Acquire lid now sid ps ttl)
  show ?thesis
  proof (cases "lm_acquire fs lid now sid ps ttl lm")
    case (Inr r)
    then obtain l' lm' where acq: "lm_acquire fs lid now sid ps ttl lm = Inr (l', lm')" by (cases r) auto
    have "lm_conflict now sid lm k = Some (ls_session_id l)"
      using l f Acquire by (auto simp: lm_conflict_def)
    then have "k \<notin> set (map (lm_normalize fs) ps)"
      using lm_acquire_cases(1) [OF acq] unfolding lm_first_conflict_None_iff by force
    then show ?thesis using lm_acquire_get [OF acq] l Acquire acq by simp
  qed (simp add: Acquire l)
qed (use assms in \<open>auto simp: lm_release_def lm_release_all_for_session_def lm_recover_expired_def
       lm_drop_get lease_is_active_def\<close>)

section \<open>Properties\<close>

text \<open>
  Acquisition: it raises \<open>LeaseConflictError\<close> for the first requested path that another
  session actively holds, and changes nothing; otherwise it grants one lease to the session
  over exactly the requested paths, active from now on, and leaves all other paths as they
  were.
\<close>

theorem lm_acquire_spec:
  "case lm_acquire fs lid now sid ps ttl lm of
     Inl e \<Rightarrow> \<exists>p l. p \<in> set ps \<and> lm_holder fs now p lm = Some l \<and> ls_session_id l \<noteq> sid \<and>
               e = LeaseConflictError (lm_normalize fs p) (ls_session_id l)
   | Inr (l, lm') \<Rightarrow>
       list_all (\<lambda>p. case lm_holder fs now p lm of None \<Rightarrow> True | Some h \<Rightarrow> ls_session_id h = sid) ps \<and>
       ls_session_id l = sid \<and>
       list_all (\<lambda>p. lm_holder fs now p lm' = Some l) ps \<and>
       list_all (\<lambda>p. lm_normalize fs p \<in> set (map (lm_normalize fs) ps)
                    \<or> lm_holder fs now p lm' = lm_holder fs now p lm) qs"
proof (cases "lm_acquire fs lid now sid ps ttl lm")
  case (Inl e)
  then have "lm_first_conflict now sid lm (map (lm_normalize fs) ps) = Some e"
    by (auto simp: lm_acquire_def Let_def split: option.splits)
  then obtain p h where "p \<in> set ps" "e = LeaseConflictError (lm_normalize fs p) h"
    "lm_conflict now sid lm (lm_normalize fs p) = Some h"
    by (auto dest!: lm_first_conflict_Some)
  then show ?thesis using Inl by (auto simp: lm_conflict_iff lm_holder_def)
next
  case (Inr r)
  obtain l lm' where r: "r = (l, lm')" by (cases r)
  note acq = Inr [unfolded r]
  have free: "\<forall>p \<in> set ps. lm_conflict now sid lm (lm_normalize fs p) = None"
    using lm_acquire_cases(1) [OF acq] by (simp add: lm_first_conflict_None_iff)
  have "list_all (\<lambda>p. case lm_holder fs now p lm of None \<Rightarrow> True | Some h \<Rightarrow> ls_session_id h = sid) ps"
    using free by (auto simp: list_all_iff lm_holder_def lm_conflict_def split: option.splits if_splits)
  moreover have "list_all (\<lambda>p. lm_holder fs now p lm' = Some l) ps"
    using lm_acquire_cases(5) [OF acq] by (simp add: list_all_iff lm_holder_def lm_acquire_get [OF acq])
  moreover have "list_all (\<lambda>p. lm_normalize fs p \<in> set (map (lm_normalize fs) ps)
      \<or> lm_holder fs now p lm' = lm_holder fs now p lm) qs"
    by (simp add: list_all_iff lm_holder_def lm_acquire_get [OF acq])
  ultimately show ?thesis using lm_acquire_cases(2) [OF acq] acq by simp
qed

text \<open>
  A granted lease cannot be lost to others: whatever sequence of acquisitions, releases and
  expiry sweeps the other sessions cause, the path stays with its lease as long as that lease
  has not expired at the times those operations read.
\<close>

theorem lease_is_stable:
  assumes "lm_wf lm" and "dict_get (lm_leases lm) key = Some l" and "list_all (foreign l) cmds"
  shows "dict_get (lm_leases (run (lease_step fs) lm cmds)) key = Some l"
  using assms
proof (induction cmds arbitrary: lm)
  case Nil
  then show ?case by simp
next
  case (Cons c cmds)
  have "dict_get (lm_leases (lease_step fs lm c)) key = Some l"
    using Cons.prems by (auto intro: foreign_step)
  then show ?case using Cons by (simp add: leases.step_inv)
qed

definition sample_leases :: lease_manager where
  "sample_leases =
     (case lm_acquire plain_env ''L1'' 100 ''alice'' [''/ws/a.py''] None new_lease_manager of
        Inl _ \<Rightarrow> new_lease_manager | Inr (_, lm) \<Rightarrow> lm)"

lemma sample_leases_eq:
  "sample_leases = \<lparr>default_lease_ttl_seconds = 300,
     lm_leases = [(''/ws/a.py'', \<lparr>ls_lease_id = ''L1'', ls_session_id = ''alice'', ls_path = ''/ws/a.py'',
        ls_acquired_at = 100, ls_expires_at = 400, ls_released = False\<rparr>)]\<rparr>"
  by (simp add: sample_leases_def lm_acquire_def new_lease_manager_def plain_env_def lm_normalize_def
      path_str_def lm_conflict_def Let_def)

theorem lease_is_stable_witness:
  "dict_get (lm_leases (run (lease_step plain_env) sample_leases
      [Acquire ''L2'' 150 ''bob'' [''/ws/a.py''] None, Recover 300, Release ''L2'', Release_All ''bob'']))
     ''/ws/a.py'' = dict_get (lm_leases sample_leases) ''/ws/a.py''"
proof -
  define l where "l = \<lparr>ls_lease_id = ''L1'', ls_session_id = ''alice'', ls_path = ''/ws/a.py'',
        ls_acquired_at = 100, ls_expires_at = 400, ls_released = False\<rparr>"
  have 1: "lm_wf sample_leases" by (simp add: sample_leases_eq lm_wf_def dict_wf_def)
  have 2: "dict_get (lm_leases sample_leases) ''/ws/a.py'' = Some l"
    by (simp add: sample_leases_eq l_def dict_get_def)
  have 3: "list_all (foreign l) [Acquire ''L2'' 150 ''bob'' [''/ws/a.py''] None, Recover 300,
      Release ''L2'', Release_All ''bob'']"
    by (simp add: l_def lease_is_active_def lease_is_expired_def)
  show ?thesis using lease_is_stable [OF 1 2 3] 2 by simp
qed

lemma check_edit_ok_iff:
  "ok (check_edit fs now v sid p lm) \<longleftrightarrow>
     ws_mode (wv_scope v) \<noteq> READ_ONLY \<and>
     (case wv_root v of None \<Rightarrow> True
      | Some rt \<Rightarrow> is_absolute p \<longrightarrow>
          (\<exists>r q. pe_resolve fs rt = Some r \<and> pe_resolve fs p = Some q \<and> prefix r q)) \<and>
     (ws_mode (wv_scope v) = LEASED_WRITE \<longrightarrow>
        (\<exists>m l. lm = Some m \<and> lm_holder fs now p m = Some l \<and> ls_session_id l = sid))"
proof -
  have scope: "check_path_in_scope fs v p md = Inr u \<longleftrightarrow>
      (case wv_root v of None \<Rightarrow> True
       | Some rt \<Rightarrow> is_absolute p \<longrightarrow>
          (\<exists>r q. pe_resolve fs rt = Some r \<and> pe_resolve fs p = Some q \<and> prefix r q))" for md u
    by (auto simp: check_path_in_scope_def in_parents_def strict_prefix_def
        split: option.splits if_splits)
  show ?thesis
    by (cases "ws_mode (wv_scope v)")
       (auto simp: check_edit_def ok_iff bind_result_Inr_iff scope split: option.splits)
qed

text \<open>
  An edit passes exactly when the scope permits it. Read-only scopes never pass; an absolute
  path must resolve to the root or below it; in leased mode the session must hold the active
  lease of that very path.
\<close>

theorem check_edit_iff:
  "ok (check_edit fs now v sid p lm) \<longleftrightarrow>
     ws_mode (wv_scope v) \<noteq> READ_ONLY \<and>
     (case wv_root v of None \<Rightarrow> True
      | Some rt \<Rightarrow> is_absolute p \<longrightarrow>
          (\<exists>r q. pe_resolve fs rt = Some r \<and> pe_resolve fs p = Some q \<and> prefix r q)) \<and>
     (ws_mode (wv_scope v) = LEASED_WRITE \<longrightarrow>
        (\<exists>m l. lm = Some m \<and> lm_holder fs now p m = Some l \<and> ls_session_id l = sid))"
  by (rule check_edit_ok_iff)

theorem check_edit_iff_witness:
  "ok (check_edit plain_env 200 (make_validator \<lparr>ws_mode = LEASED_WRITE, ws_leased_paths = [''/ws/a.py''],
       ws_lease_id = ''L1''\<rparr> (Some ''/ws'')) ''alice'' ''/ws/a.py'' (Some sample_leases))"
  unfolding check_edit_iff
  by (simp add: make_validator_def plain_env_def is_absolute_def starts_with_def lm_holder_def
      lm_normalize_def path_str_def sample_leases_eq dict_get_def lease_is_active_def lease_is_expired_def)

text \<open>
  A lease of a directory covers no file below it: leases are looked up by the exact path.
\<close>

lemma directory_lease_does_not_cover_files:
  "case lm_acquire plain_env ''L1'' 100 ''alice'' [''/ws/src''] None new_lease_manager of
     Inl _ \<Rightarrow> False
   | Inr (l, lm) \<Rightarrow>
       \<not> ok (check_edit plain_env 101 (make_validator \<lparr>ws_mode = LEASED_WRITE,
               ws_leased_paths = [''/ws/src''], ws_lease_id = ''L1''\<rparr> (Some ''/ws'')) ''alice'' ''/ws/src/a.py'' (Some lm))
       \<and> ok (lm_acquire plain_env ''L2'' 101 ''bob'' [''/ws/src/a.py''] None lm)"
  unfolding check_edit_ok_iff
  by (simp add: lm_acquire_def new_lease_manager_def plain_env_def lm_normalize_def path_str_def
      lm_conflict_def Let_def make_validator_def lm_holder_def dict_get_def)

lemma check_edit_exclusive:
  assumes "ws_mode (wv_scope v) = LEASED_WRITE" and "ws_mode (wv_scope w) = LEASED_WRITE"
    and "ok (check_edit fs now v s p lm)" and "ok (check_edit fs now w s' p lm)"
  shows "s = s'"
  using assms by (auto simp: check_edit_ok_iff)

text \<open>A relative path is never compared with the workspace root, dots included.\<close>

lemma relative_path_unchecked:
  "check_path_in_scope fs (make_validator scope (Some ''/ws'')) ''../../etc/passwd'' md = Inr ()"
  by (simp add: check_path_in_scope_def make_validator_def is_absolute_def starts_with_def)

end
