(* ===== verification/Tree_Correct.thy ===== *)
theory Tree_Correct
  imports Sessions_Correct
begin

text \<open>
  The session tree: its well-formedness (a forest in which a parent precedes its children),
  kept by \<open>add\<close>, and the correctness of recursive cancellation.
\<close>

section \<open>Well-formed trees\<close>

definition key_index :: "session_tree \<Rightarrow> string \<Rightarrow> nat" where
  "key_index t k = length (takeWhile (\<lambda>x. x \<noteq> k) (dict_keys (t_sessions t)))"

definition child_ids :: "session_tree \<Rightarrow> string \<Rightarrow> string list" where
  "child_ids t p = dict_get_or (t_children t) p []"

definition tree_wf :: "session_tree \<Rightarrow> bool" where
  "tree_wf t \<longleftrightarrow>
     dict_wf (t_sessions t) \<and> dict_wf (t_children t) \<and>
     (\<forall>(k, s) \<in> set (t_sessions t). cs_session_id s = k \<and> k \<in> set (child_ids t (parent_key t s))) \<and>
     (\<forall>(p, cs) \<in> set (t_children t). distinct cs \<and>
        (\<forall>c \<in> set cs. (case dict_get (t_sessions t) c of None \<Rightarrow> False | Some s \<Rightarrow> parent_key t s = p)
           \<and> (tree_contains t p \<longrightarrow> key_index t p < key_index t c)))"

lemma tree_wf_id: "tree_wf t \<Longrightarrow> dict_get (t_sessions t) k = Some s \<Longrightarrow> cs_session_id s = k"
  by (fastforce simp: tree_wf_def dest: dict_get_SomeD)

lemma child_ids_cases:
  assumes "c \<in> set (child_ids t p)"
  obtains cs where "dict_get (t_children t) p = Some cs" and "c \<in> set cs" and "(p, cs) \<in> set (t_children t)"
  using assms by (cases "dict_get (t_children t) p") (auto simp: child_ids_def dict_get_or_def dest: dict_get_SomeD)

lemma tree_wf_child:
  assumes "tree_wf t" and "c \<in> set (child_ids t p)"
  obtains s where "dict_get (t_sessions t) c = Some s" and "parent_key t s = p"
    and "cs_session_id s = c" and "tree_contains t p \<Longrightarrow> key_index t p < key_index t c"
proof -
  obtain cs where cs: "c \<in> set cs" "(p, cs) \<in> set (t_children t)"
    using assms(2) by (rule child_ids_cases)
  have c: "(case dict_get (t_sessions t) c of None \<Rightarrow> False | Some s \<Rightarrow> parent_key t s = p) \<and>
      (tree_contains t p \<longrightarrow> key_index t p < key_index t c)"
    using assms(1) cs unfolding tree_wf_def by blast
  then obtain s where s: "dict_get (t_sessions t) c = Some s" "parent_key t s = p"
    by (cases "dict_get (t_sessions t) c") auto
  show thesis
    by (rule that [OF s tree_wf_id [OF assms(1) s(1)]]) (use c in simp)
qed

lemma map_filter_ids:
  assumes "tree_wf t" and "set cs \<subseteq> set (child_ids t p)"
  shows "map cs_session_id (List.map_filter (dict_get (t_sessions t)) cs) = cs"
  using assms(2)
proof (induction cs)
  case Nil
  show ?case by (simp add: List.map_filter_def)
next
  case (Cons c cs)
  have "c \<in> set (child_ids t p)" using Cons.prems by simp
  then obtain s where "dict_get (t_sessions t) c = Some s" "cs_session_id s = c"
    using tree_wf_child [OF assms(1)] by metis
  with Cons show ?case by (simp add: List.map_filter_simps)
qed

lemma get_children_ids: "tree_wf t \<Longrightarrow> map cs_session_id (get_children t p) = child_ids t p"
  unfolding get_children_def child_ids_def [symmetric] by (rule map_filter_ids [where p = p]) simp_all

lemma key_index_bound: "tree_contains t k \<Longrightarrow> key_index t k < tree_len t"
proof -
  assume "tree_contains t k"
  then have "k \<in> set (dict_keys (t_sessions t))" by (simp add: tree_contains_def dict_has_iff)
  then have "length (takeWhile (\<lambda>x. x \<noteq> k) (dict_keys (t_sessions t))) < length (dict_keys (t_sessions t))"
    by (rule length_takeWhile_neq)
  then show ?thesis by (simp add: key_index_def tree_len_def dict_keys_def)
qed

section \<open>Changing sessions in place\<close>

definition map_sessions :: "(string \<Rightarrow> child_session \<Rightarrow> child_session) \<Rightarrow> session_tree \<Rightarrow> session_tree" where
  "map_sessions f t = t\<lparr>t_sessions := map (\<lambda>(k, s). (k, f k s)) (t_sessions t)\<rparr>"

definition keeps_links :: "(string \<Rightarrow> child_session \<Rightarrow> child_session) \<Rightarrow> bool" where
  "keeps_links f \<longleftrightarrow> (\<forall>k s. cs_session_id (f k s) = cs_session_id s \<and>
                          cs_parent_session_id (f k s) = cs_parent_session_id s)"

lemma map_sessions_keys [simp]: "dict_keys (t_sessions (map_sessions f t)) = dict_keys (t_sessions t)"
  by (auto simp: map_sessions_def dict_keys_def)

lemma map_sessions_children [simp]:
  "t_children (map_sessions f t) = t_children t" "tree_root (map_sessions f t) = tree_root t"
  by (simp_all add: map_sessions_def)

lemma map_sessions_get:
  "dict_get (t_sessions (map_sessions f t)) k = map_option (f k) (dict_get (t_sessions t) k)"
proof -
  have "map_of (map (\<lambda>(k, s). (k, f k s)) xs) k = map_option (f k) (map_of xs k)" for xs
    by (induction xs) auto
  then show ?thesis by (simp add: map_sessions_def dict_get_def)
qed

lemma map_sessions_shape [simp]:
  "key_index (map_sessions f t) = key_index t"
  "child_ids (map_sessions f t) = child_ids t"
  "tree_contains (map_sessions f t) = tree_contains t"
  "tree_len (map_sessions f t) = tree_len t"
proof -
  show "key_index (map_sessions f t) = key_index t"
    by (simp add: key_index_def fun_eq_iff)
  show "child_ids (map_sessions f t) = child_ids t"
    by (simp add: child_ids_def fun_eq_iff)
  show "tree_contains (map_sessions f t) = tree_contains t"
    by (simp add: tree_contains_def dict_has_iff fun_eq_iff)
  show "tree_len (map_sessions f t) = tree_len t"
    by (simp add: tree_len_def map_sessions_def)
qed

lemma map_sessions_wf:
  assumes wf: "tree_wf t" and links: "keeps_links f"
  shows "tree_wf (map_sessions f t)"
proof -
  let ?t = "map_sessions f t"
  have keys: "map fst (t_sessions ?t) = map fst (t_sessions t)"
    using map_sessions_keys [of f t] by (simp add: dict_keys_def)
  have parent: "parent_key ?t (f k s) = parent_key t s" for k s
    using links by (simp add: parent_key_def keeps_links_def)
  have sess: "\<forall>(k, s) \<in> set (t_sessions ?t).
      cs_session_id s = k \<and> k \<in> set (child_ids t (parent_key ?t s))"
  proof (clarify)
    fix k s assume "(k, s) \<in> set (t_sessions ?t)"
    then obtain s0 where "(k, s0) \<in> set (t_sessions t)" "s = f k s0"
      by (auto simp: map_sessions_def)
    then show "cs_session_id s = k \<and> k \<in> set (child_ids t (parent_key ?t s))"
      using wf parent links unfolding tree_wf_def keeps_links_def by fastforce
  qed
  have ch: "\<forall>(p, cs) \<in> set (t_children t). distinct cs \<and>
      (\<forall>c \<in> set cs. (case dict_get (t_sessions ?t) c of None \<Rightarrow> False
                     | Some s \<Rightarrow> parent_key ?t s = p)
         \<and> (tree_contains t p \<longrightarrow> key_index t p < key_index t c))"
  proof (clarify, intro conjI ballI)
    fix p cs assume p: "(p, cs) \<in> set (t_children t)"
    then show "distinct cs" using wf unfolding tree_wf_def by blast
    fix c assume "c \<in> set cs"
    then have "(case dict_get (t_sessions t) c of None \<Rightarrow> False | Some s \<Rightarrow> parent_key t s = p) \<and>
        (tree_contains t p \<longrightarrow> key_index t p < key_index t c)"
      using wf p unfolding tree_wf_def by blast
    then show "case dict_get (t_sessions ?t) c of None \<Rightarrow> False | Some s \<Rightarrow> parent_key ?t s = p"
      and "tree_contains t p \<longrightarrow> key_index t p < key_index t c"
      by (auto simp: map_sessions_get parent split: option.splits)
  qed
  show ?thesis using wf sess ch unfolding tree_wf_def dict_wf_def keys by simp
qed

lemma dict_set_map:
  "dict_wf d \<Longrightarrow> dict_get d k = Some s \<Longrightarrow>
   dict_set k v d = map (\<lambda>(k', s'). (k', if k' = k then v else s')) d"
proof (induction k v d rule: dict_set.induct)
  case (1 k v)
  then show ?case by simp
next
  case (2 k v k' v' d)
  show ?case
  proof (cases "k = k'")
    case True
    have "map (\<lambda>(k'', s'). (k'', if k'' = k then v else s')) d = d"
      using 2(2) True by (intro map_idI) (force simp: dict_wf_def)
    with True show ?thesis by simp
  next
    case False
    then show ?thesis using 2 by (simp add: dict_wf_def dict_get_def)
  qed
qed

lemma update_session_map:
  assumes "tree_wf t" and "dict_get (t_sessions t) sid = Some s"
  shows "update_session sid s' t = map_sessions (\<lambda>k x. if k = sid then s' else x) t"
  using assms dict_set_map [of "t_sessions t" sid s s']
  by (simp add: update_session_def map_sessions_def tree_wf_def)

lemma update_session_wf:
  assumes wf: "tree_wf t" and s: "dict_get (t_sessions t) sid = Some s"
    and links: "cs_session_id s' = cs_session_id s" "cs_parent_session_id s' = cs_parent_session_id s"
  shows "tree_wf (update_session sid s' t)"
proof -
  let ?f = "\<lambda>k x. if k = sid \<and> x = s then s' else x"
  have same: "x = s" if "(sid, x) \<in> set (t_sessions t)" for x
    using that s wf by (metis dict_get_Some_iff option.inject tree_wf_def)
  have "map (\<lambda>(k, x). (k, if k = sid then s' else x)) (t_sessions t) =
      map (\<lambda>(k, x). (k, ?f k x)) (t_sessions t)"
    using same by (intro map_cong) auto
  then have "update_session sid s' t = map_sessions ?f t"
    by (simp add: update_session_map [OF wf s] map_sessions_def)
  moreover have "keeps_links ?f" using links by (simp add: keeps_links_def)
  ultimately show ?thesis using wf by (simp add: map_sessions_wf)
qed

section \<open>Cancelling a set of sessions\<close>

definition cancelled :: "rat \<Rightarrow> child_session \<Rightarrow> child_session" where
  "cancelled now s = (if is_active s then s\<lparr>cs_status := CANCELLED, cs_terminal_at := Some now\<rparr> else s)"

definition cancel_in :: "rat \<Rightarrow> string set \<Rightarrow> session_tree \<Rightarrow> session_tree" where
  "cancel_in now D = map_sessions (\<lambda>k s. if k \<in> D then cancelled now s else s)"

definition callbacks_in :: "string set \<Rightarrow> session_tree \<Rightarrow> string set" where
  "callbacks_in D t =
     {cb. \<exists>k s. k \<in> D \<and> dict_get (t_sessions t) k = Some s \<and> is_active s \<and> cs_cancel_callback s = Some cb}"

lemma cancelled_inactive: "\<not> is_active (cancelled now s)"
  by (simp add: cancelled_def is_active_def ACTIVE_STATES_def)

lemma cancelled_idem [simp]: "cancelled now (cancelled now s) = cancelled now s"
  by (metis cancelled_def cancelled_inactive)

lemma cancelled_ids [simp]:
  "cs_session_id (cancelled now s) = cs_session_id s"
  "cs_parent_session_id (cancelled now s) = cs_parent_session_id s"
  by (simp_all add: cancelled_def)

lemma cancel_in_shape [simp]:
  "t_children (cancel_in now D t) = t_children t"
  "tree_root (cancel_in now D t) = tree_root t"
  "key_index (cancel_in now D t) = key_index t"
  "child_ids (cancel_in now D t) = child_ids t"
  "tree_contains (cancel_in now D t) = tree_contains t"
  "tree_len (cancel_in now D t) = tree_len t"
  by (simp_all add: cancel_in_def)

lemma cancel_in_get:
  "dict_get (t_sessions (cancel_in now D t)) k =
     map_option (\<lambda>s. if k \<in> D then cancelled now s else s) (dict_get (t_sessions t) k)"
  by (simp add: cancel_in_def map_sessions_get)

lemma cancel_in_wf: "tree_wf t \<Longrightarrow> tree_wf (cancel_in now D t)"
  unfolding cancel_in_def by (rule map_sessions_wf) (auto simp: keeps_links_def)

lemma cancel_in_compose: "cancel_in now E (cancel_in now D t) = cancel_in now (D \<union> E) t"
proof -
  have "(\<lambda>(k, s). (k, if k \<in> E then cancelled now s else s)) \<circ>
      (\<lambda>(k, s). (k, if k \<in> D then cancelled now s else s)) =
      (\<lambda>(k, s). (k, if k \<in> D \<union> E then cancelled now s else s))"
    by (auto simp: fun_eq_iff)
  then show ?thesis by (simp add: cancel_in_def map_sessions_def)
qed

lemma cancel_in_empty [simp]: "cancel_in now {} t = t"
  by (simp add: cancel_in_def map_sessions_def)

lemma callbacks_in_cancel: "callbacks_in E (cancel_in now D t) = callbacks_in (E - D) t"
proof -
  have "\<not> is_active (if k \<in> D then cancelled now s else s) \<longleftrightarrow> k \<in> D \<or> \<not> is_active s" for k s
    by (simp add: cancelled_inactive)
  then show ?thesis
    by (fastforce simp: callbacks_in_def cancel_in_get)
qed

lemma callbacks_in_union: "callbacks_in (D \<union> (E - D)) t = callbacks_in D t \<union> callbacks_in (E - D) t"
  by (auto simp: callbacks_in_def)

lemma cancel_self_cancel_in:
  assumes wf: "tree_wf t" and has: "tree_contains t sid"
  shows "\<exists>xs. cancel_self now sid (t, calls) = (cancel_in now {sid} t, calls @ xs) \<and> set xs = callbacks_in {sid} t"
proof -
  obtain s where s: "dict_get (t_sessions t) sid = Some s"
    using has by (auto simp: tree_contains_def dict_has_def)
  have dwf: "dict_wf (t_sessions t)" using wf by (simp add: tree_wf_def)
  have pair: "s' = s" if "(sid, s') \<in> set (t_sessions t)" for s'
    using that s dict_get_Some_iff [OF dwf] by (metis option.inject)
  show ?thesis
  proof (cases "is_active s")
    case True
    have tr: "transition now s CANCELLED = Inr (cancelled now s)"
      using True by (cases "cs_status s")
        (auto simp: transition_def cancelled_def is_active_def ACTIVE_STATES_def TERMINAL_STATES_def Let_def)
    have "map (\<lambda>(k, x). (k, if k = sid then cancelled now s else x)) (t_sessions t) =
        map (\<lambda>(k, x). (k, if k \<in> {sid} then cancelled now x else x)) (t_sessions t)"
      using pair by (intro map_cong) auto
    then have "update_session sid (cancelled now s) t = cancel_in now {sid} t"
      by (simp add: update_session_map [OF wf s] cancel_in_def map_sessions_def)
    then show ?thesis using s True tr
      by (cases "cs_cancel_callback s") (auto simp: cancel_self_def callbacks_in_def)
  next
    case False
    have "cancel_in now {sid} t = t"
      using False pair by (auto simp: cancel_in_def map_sessions_def cancelled_def intro!: session_tree.equality map_idI)
    then show ?thesis using s False by (auto simp: cancel_self_def callbacks_in_def)
  qed
qed

section \<open>Recursive cancellation\<close>

definition child_of :: "session_tree \<Rightarrow> string \<Rightarrow> string \<Rightarrow> bool" where
  "child_of t p c \<longleftrightarrow> c \<in> set (child_ids t p)"

definition descendants :: "session_tree \<Rightarrow> string \<Rightarrow> string set" where
  "descendants t sid = {k. (child_of t)\<^sup>*\<^sup>* sid k}"

lemma descendants_unfold:
  "descendants t sid = insert sid (\<Union>c \<in> set (child_ids t sid). descendants t c)"
  by (auto simp: descendants_def child_of_def elim: converse_rtranclpE
      intro: converse_rtranclp_into_rtranclp)

lemma descendants_cancel_in [simp]: "descendants (cancel_in now D t) = descendants t"
proof -
  have "child_of (cancel_in now D t) = child_of t"
    by (simp add: child_of_def fun_eq_iff)
  then show ?thesis unfolding descendants_def by (simp only:)
qed

text \<open>
  Total correctness of the recursion: fuel that covers the sessions added after the target is
  enough, because a child was always added after its parent.
\<close>

lemma cancel_correct:
  "\<lbrakk>tree_wf (fst st); tree_contains (fst st) sid; tree_len (fst st) \<le> n + key_index (fst st) sid\<rbrakk> \<Longrightarrow>
   \<exists>xs. cancel_session n now sid st =
          Some (Inr (cancel_in now (descendants (fst st) sid) (fst st), snd st @ xs))
        \<and> set xs = callbacks_in (descendants (fst st) sid) (fst st)"
  "\<lbrakk>tree_wf (fst st); \<forall>c \<in> set cs. tree_contains (fst st) c \<and>
      tree_len (fst st) \<le> n + key_index (fst st) c\<rbrakk> \<Longrightarrow>
   \<exists>xs. cancel_sessions n now cs st =
          Some (Inr (cancel_in now (\<Union>c \<in> set cs. descendants (fst st) c) (fst st), snd st @ xs))
        \<and> set xs = callbacks_in (\<Union>c \<in> set cs. descendants (fst st) c) (fst st)"
proof (induction n now sid st and n now cs st rule: cancel_session_cancel_sessions.induct)
  case (1 now sid st)
  then show ?case using key_index_bound [of "fst st" sid] by simp
next
  case (2 n now sid st)
  obtain t calls where st: "st = (t, calls)" by (cases st)
  have wf: "tree_wf t" and has: "tree_contains t sid"
    and fuel: "tree_len t \<le> Suc n + key_index t sid" using "2.prems" st by auto
  obtain s where s: "tree_get t sid = Inr s"
    using has by (auto simp: tree_get_def tree_contains_def dict_has_def)
  let ?cs = "child_ids t sid" and ?D = "\<Union>c \<in> set (child_ids t sid). descendants t c"
  have ch: "tree_contains t c \<and> tree_len t \<le> n + key_index t c" if "c \<in> set ?cs" for c
    using tree_wf_child [OF wf that] has fuel by (fastforce simp: tree_contains_def dict_has_def)
  then obtain xs where xs: "cancel_sessions n now ?cs st = Some (Inr (cancel_in now ?D t, calls @ xs))"
    and xs_set: "set xs = callbacks_in ?D t"
    using "2.IH" [of s] s wf st by (auto simp: get_children_ids)
  obtain ys where ys: "cancel_self now sid (cancel_in now ?D t, calls @ xs) =
      (cancel_in now {sid} (cancel_in now ?D t), (calls @ xs) @ ys)"
    and ys_set: "set ys = callbacks_in {sid} (cancel_in now ?D t)"
    using cancel_self_cancel_in [OF cancel_in_wf [OF wf], of now ?D sid now "calls @ xs"] has by auto
  have D: "descendants t sid = ?D \<union> {sid}" by (subst descendants_unfold) auto
  have set_eq: "set (xs @ ys) = callbacks_in (descendants t sid) t"
    unfolding D using xs_set ys_set callbacks_in_union [of ?D "{sid}" t]
    by (simp add: callbacks_in_cancel)
  have "cancel_session (Suc n) now sid st =
      Some (Inr (cancel_in now (descendants t sid) t, calls @ (xs @ ys)))"
    using s xs ys st wf by (simp add: get_children_ids cancel_in_compose D)
  then show ?case using set_eq st by (metis fst_conv snd_conv)
next
  case (3 n now st)
  then show ?case by (auto simp: callbacks_in_def)
next
  case (4 n now c cs st)
  obtain t calls where st: "st = (t, calls)" by (cases st)
  let ?D = "descendants t c" and ?E = "\<Union>c \<in> set cs. descendants t c"
  have wf: "tree_wf t" using "4.prems"(1) st by simp
  obtain xs where xs: "cancel_session n now c st = Some (Inr (cancel_in now ?D t, calls @ xs))"
    and xs_set: "set xs = callbacks_in ?D t"
    using "4.IH"(1) "4.prems" st by auto
  have "\<exists>ys. cancel_sessions n now cs (cancel_in now ?D t, calls @ xs) =
          Some (Inr (cancel_in now ?E (cancel_in now ?D t), (calls @ xs) @ ys))
        \<and> set ys = callbacks_in ?E (cancel_in now ?D t)"
    using "4.IH"(2) [OF xs refl] "4.prems" st cancel_in_wf [OF wf] by simp
  then obtain ys where ys: "cancel_sessions n now cs (cancel_in now ?D t, calls @ xs) =
          Some (Inr (cancel_in now (?D \<union> ?E) t, calls @ (xs @ ys)))"
    and ys_set: "set ys = callbacks_in (?E - ?D) t"
    by (auto simp: cancel_in_compose callbacks_in_cancel)
  have "set (xs @ ys) = callbacks_in (?D \<union> ?E) t"
    using xs_set ys_set callbacks_in_union [of ?D ?E t] by simp
  then show ?case using xs ys st by auto
qed

section \<open>Adding sessions\<close>

lemma key_index_add:
  "dict_get (t_sessions t) sid = None \<Longrightarrow> k \<noteq> sid \<Longrightarrow> tree_contains t k \<Longrightarrow>
   key_index (t\<lparr>t_sessions := dict_set sid s (t_sessions t), t_children := ch\<rparr>) k = key_index t k"
  by (auto simp: key_index_def dict_set_fresh dict_keys_def tree_contains_def dict_has_iff
      takeWhile_append1 takeWhile_append2)

lemma key_index_new:
  "dict_get (t_sessions t) sid = None \<Longrightarrow>
   key_index (t\<lparr>t_sessions := dict_set sid s (t_sessions t), t_children := ch\<rparr>) sid = tree_len t"
proof -
  assume fresh: "dict_get (t_sessions t) sid = None"
  then have "sid \<notin> set (map fst (t_sessions t))"
    by (simp add: dict_get_None_iff dict_keys_def)
  then have "takeWhile (\<lambda>x. x \<noteq> sid) (map fst (t_sessions t) @ [sid]) = map fst (t_sessions t)"
    by (subst takeWhile_append2) (auto simp: image_iff)
  then show ?thesis using fresh
    by (simp add: key_index_def dict_set_fresh dict_keys_def tree_len_def)
qed

text \<open>
  The identifier of a new session must be new to the tree: not a session, and not the parent
  any existing session names. This is what a fresh uuid gives.
\<close>

definition fresh_id :: "session_tree \<Rightarrow> child_session \<Rightarrow> bool" where
  "fresh_id t s \<longleftrightarrow>
     dict_get (t_sessions t) (cs_session_id s) = None \<and>
     dict_get (t_children t) (cs_session_id s) = None \<and>
     parent_key t s \<noteq> cs_session_id s"

lemma tree_add_fresh:
  "fresh_id t s \<Longrightarrow> tree_add s t =
     Inr (t\<lparr>t_sessions := dict_set (cs_session_id s) s (t_sessions t),
            t_children := dict_set (parent_key t s) (child_ids t (parent_key t s) @ [cs_session_id s]) (t_children t)\<rparr>)"
  by (simp add: tree_add_def fresh_id_def dict_has_def Let_def child_ids_def)

lemma tree_add_wf:
  assumes wf: "tree_wf t" and fresh: "fresh_id t s" and add: "tree_add s t = Inr t'"
  shows "tree_wf t'"
proof -
  let ?sid = "cs_session_id s" and ?p = "parent_key t s"
  let ?cs = "child_ids t ?p"
  have no: "dict_get (t_sessions t) ?sid = None" "dict_get (t_children t) ?sid = None" "?p \<noteq> ?sid"
    using fresh by (simp_all add: fresh_id_def)
  have t': "t' = t\<lparr>t_sessions := dict_set ?sid s (t_sessions t),
      t_children := dict_set ?p (?cs @ [?sid]) (t_children t)\<rparr>"
    using add tree_add_fresh [OF fresh] by simp
  have dwf: "dict_wf (t_sessions t)" "dict_wf (t_children t)" using wf by (simp_all add: tree_wf_def)
  have ids: "child_ids t' q = (if q = ?p then ?cs @ [?sid] else child_ids t q)" for q
    by (simp add: t' child_ids_def dict_get_or_def)
  have pk: "parent_key t' x = parent_key t x" for x
    by (simp add: t' parent_key_def)
  have sess: "cs_session_id x = k \<and> k \<in> set (child_ids t' (parent_key t' x))"
    if "(k, x) \<in> set (t_sessions t')" for k x
  proof -
    from that have "(k, x) = (?sid, s) \<or> (k, x) \<in> set (t_sessions t)"
      using no by (auto simp: t' dict_set_fresh)
    then show ?thesis using wf by (auto simp: pk ids tree_wf_def)
  qed
  have get': "dict_get (t_sessions t') k = (if k = ?sid then Some s else dict_get (t_sessions t) k)" for k
    by (simp add: t')
  have link: "(case dict_get (t_sessions t') c of None \<Rightarrow> False | Some x \<Rightarrow> parent_key t' x = q) \<and>
      (tree_contains t' q \<longrightarrow> key_index t' q < key_index t' c)"
    if old: "c \<in> set (child_ids t q)" for c q
  proof -
    obtain x where x: "dict_get (t_sessions t) c = Some x" "parent_key t x = q"
      and le: "tree_contains t q \<Longrightarrow> key_index t q < key_index t c"
      using tree_wf_child [OF wf old] by metis
    have "q \<noteq> ?sid" using old no(2) by (auto simp: child_ids_def dict_get_or_def)
    then have "tree_contains t' q = tree_contains t q"
      by (simp add: tree_contains_def dict_has_def get')
    moreover have "key_index t' k = key_index t k" if "tree_contains t k" "k \<noteq> ?sid" for k
      unfolding t' by (rule key_index_add [OF no(1) that(2,1)])
    moreover have "tree_contains t c" "c \<noteq> ?sid"
      using x(1) no(1) by (auto simp: tree_contains_def dict_has_def)
    ultimately show ?thesis using x le \<open>q \<noteq> ?sid\<close> by (simp add: get' pk)
  qed
  have link_new: "(case dict_get (t_sessions t') ?sid of None \<Rightarrow> False | Some x \<Rightarrow> parent_key t' x = ?p) \<and>
      (tree_contains t' ?p \<longrightarrow> key_index t' ?p < key_index t' ?sid)"
  proof -
    have "key_index t' ?p < tree_len t" if "tree_contains t' ?p"
    proof -
      have "tree_contains t ?p" using that no(3) by (simp add: tree_contains_def dict_has_def get')
      then show ?thesis
        using key_index_add [OF no(1) no(3)] key_index_bound by (simp add: t')
    qed
    moreover have "key_index t' ?sid = tree_len t" unfolding t' by (rule key_index_new [OF no(1)])
    ultimately show ?thesis by (simp add: get' pk)
  qed
  have ch: "distinct cs \<and> (\<forall>c \<in> set cs.
        (case dict_get (t_sessions t') c of None \<Rightarrow> False | Some x \<Rightarrow> parent_key t' x = q) \<and>
        (tree_contains t' q \<longrightarrow> key_index t' q < key_index t' c))"
    if q: "(q, cs) \<in> set (t_children t')" for q cs
  proof -
    have dwf': "dict_wf (t_children t')" using dwf by (simp add: t' dict_wf_set)
    then have cs: "cs = child_ids t' q" using q
      by (simp add: child_ids_def dict_get_or_def flip: dict_get_Some_iff)
    have d: "distinct (child_ids t q)" for q
    proof (cases "dict_get (t_children t) q")
      case (Some ds)
      then show ?thesis using wf by (fastforce simp: child_ids_def dict_get_or_def tree_wf_def dest: dict_get_SomeD)
    qed (simp add: child_ids_def dict_get_or_def)
    have "?sid \<notin> set ?cs" using tree_wf_child [OF wf, of ?sid ?p] no(1) by (metis option.distinct(1))
    then show ?thesis using cs d link link_new by (auto simp: ids)
  qed
  show ?thesis using sess ch dwf unfolding tree_wf_def by (fastforce simp: t' dict_wf_set)
qed

section \<open>Properties\<close>

text \<open>
  Registering a child keeps the tree well formed: under a fresh identifier \<open>add\<close> succeeds,
  every session stays listed under its own parent exactly once, and a parent precedes its
  children, so the tree has no cycle.
\<close>

theorem tree_add_preserves:
  assumes "tree_wf t" and "fresh_id t s"
  shows "\<exists>t'. tree_add s t = Inr t' \<and> tree_wf t' \<and>
              dict_get (t_sessions t') (cs_session_id s) = Some s \<and>
              child_ids t' (parent_key t s) = child_ids t (parent_key t s) @ [cs_session_id s] \<and>
              (\<forall>k. k \<noteq> cs_session_id s \<longrightarrow> dict_get (t_sessions t') k = dict_get (t_sessions t) k)"
proof -
  obtain t' where t': "tree_add s t = Inr t'" using tree_add_fresh [OF assms(2)] by blast
  moreover have "tree_wf t'" using assms t' by (rule tree_add_wf)
  ultimately show ?thesis using tree_add_fresh [OF assms(2)]
    by (auto simp: child_ids_def dict_get_or_def)
qed

text \<open>A two-level example tree: \<open>a\<close> below the root and \<open>b\<close> below \<open>a\<close>.\<close>

definition sample_session :: "string \<Rightarrow> string \<Rightarrow> child_session" where
  "sample_session sid parent =
     (create_child_session (\<lambda>_. []) [] 1
        ((default_request ''r'')\<lparr>tr_parent_session_id := parent\<rparr>) default_policy None)
     \<lparr>cs_session_id := sid, cs_cancel_callback := Some sid\<rparr>"

definition sample_tree :: session_tree where
  "sample_tree =
     (case tree_add (sample_session ''a'' []) (new_tree ''r'') of
        Inl _ \<Rightarrow> new_tree ''r''
      | Inr t \<Rightarrow> (case tree_add (sample_session ''b'' ''a'') t of Inl _ \<Rightarrow> t | Inr t' \<Rightarrow> t'))"

lemma sample_tree_eq:
  "sample_tree = \<lparr>tree_root = ''r'',
     t_sessions = [(''a'', sample_session ''a'' []), (''b'', sample_session ''b'' ''a'')],
     t_children = [(''r'', [''a'']), (''a'', [''b''])]\<rparr>"
  by (simp add: sample_tree_def tree_add_def new_tree_def dict_has_def dict_get_def parent_key_def
      sample_session_def create_child_session_def default_request_def Let_def dict_get_or_def)

lemma sample_tree_wf: "tree_wf sample_tree"
  by (simp add: sample_tree_eq tree_wf_def dict_wf_def child_ids_def dict_get_or_def dict_get_def
      parent_key_def sample_session_def create_child_session_def default_request_def key_index_def
      dict_keys_def tree_contains_def dict_has_def)

theorem tree_add_preserves_witness:
  "\<exists>t'. tree_add (sample_session ''c'' ''b'') sample_tree = Inr t' \<and> tree_wf t' \<and>
        child_ids t' ''b'' = [''c'']"
proof -
  have "fresh_id sample_tree (sample_session ''c'' ''b'')"
    by (simp add: fresh_id_def sample_tree_eq dict_get_def parent_key_def sample_session_def
        create_child_session_def default_request_def)
  from tree_add_preserves [OF sample_tree_wf this] show ?thesis
    by (auto simp: child_ids_def sample_tree_eq dict_get_or_def dict_get_def parent_key_def
        sample_session_def create_child_session_def default_request_def)
qed

text \<open>
  Cancelling a session terminates and cancels exactly its subtree: every active session at
  or below the target becomes CANCELLED with its end stamped, sessions already terminal and
  sessions outside the subtree are unchanged, and the callbacks run are those of the sessions
  that were active. Recursion depth is bounded by the number of sessions.
\<close>

theorem cancel_session_exact:
  assumes "tree_wf t" and "tree_contains t sid" and "tree_len t \<le> n"
  shows "\<exists>t' calls. cancel_session n now sid (t, []) = Some (Inr (t', calls)) \<and> tree_wf t' \<and>
           (\<forall>k. dict_get (t_sessions t') k =
              map_option (\<lambda>s. if k \<in> descendants t sid \<and> is_active s
                             then s\<lparr>cs_status := CANCELLED, cs_terminal_at := Some now\<rparr> else s)
                (dict_get (t_sessions t) k)) \<and>
           set calls = callbacks_in (descendants t sid) t"
proof -
  have "tree_len t \<le> n + key_index t sid" using assms(3) by simp
  then obtain xs where
    "cancel_session n now sid (t, []) = Some (Inr (cancel_in now (descendants t sid) t, xs))"
    "set xs = callbacks_in (descendants t sid) t"
    using cancel_correct(1) [of "(t, [])" sid n now] assms(1,2) by auto
  moreover have "tree_wf (cancel_in now (descendants t sid) t)" using assms(1) by (rule cancel_in_wf)
  moreover have "dict_get (t_sessions (cancel_in now D t)) k =
      map_option (\<lambda>s. if k \<in> D \<and> is_active s
                     then s\<lparr>cs_status := CANCELLED, cs_terminal_at := Some now\<rparr> else s)
        (dict_get (t_sessions t) k)" for k D
    unfolding cancel_in_get by (cases "dict_get (t_sessions t) k") (auto simp: cancelled_def)
  ultimately show ?thesis by blast
qed

theorem cancel_session_exact_witness:
  "\<exists>t' calls. cancel_session 2 9 ''a'' (sample_tree, []) = Some (Inr (t', calls)) \<and>
     (\<exists>s. dict_get (t_sessions t') ''b'' = Some s \<and> cs_status s = CANCELLED)"
proof -
  have b: "''b'' \<in> descendants sample_tree ''a''"
    unfolding descendants_def child_of_def
    by (auto simp: sample_tree_eq child_ids_def dict_get_or_def dict_get_def)
  have "tree_contains sample_tree ''a''" "tree_len sample_tree \<le> 2"
    by (simp_all add: sample_tree_eq tree_contains_def dict_has_def dict_get_def tree_len_def)
  from cancel_session_exact [OF sample_tree_wf this, of 9] b show ?thesis
    by (fastforce simp: sample_tree_eq dict_get_def sample_session_def create_child_session_def
        is_active_def ACTIVE_STATES_def)
qed

end
