(* ===== verification/Runtime_Correct.thy ===== *)
theory Runtime_Correct
  imports Runtime Workspace_Correct Tree_Correct
begin

text \<open>
  One execution of a child: its status is decided by the budget, the cancellation token and the
  end of the run alone, it leaves exactly one terminal audit entry at the end, and every tool
  call that got through was permitted by the definition and the workspace scope.
\<close>

section \<open>What the tool calls leave alone\<close>

lemma check_tool_frame [frame_simps]:
  "snd (check_tool so fs now lm name args rt) = rt\<lparr>rt_audit := rt_audit (snd (check_tool so fs now lm name args rt))\<rparr>"
  by (simp add: check_tool_def Let_def)

lemma guarded_execute_frame [frame_simps]:
  "\<exists>a. snd (guarded_execute so fs c rt) = rt\<lparr>rt_audit := a\<rparr>"
proof -
  obtain r rt' where ct: "check_tool so fs (tc_now c) (tc_leases c) (tc_name c) (tc_args c) rt = (r, rt')"
    by (cases "check_tool so fs (tc_now c) (tc_leases c) (tc_name c) (tc_args c) rt")
  have "rt' = rt\<lparr>rt_audit := rt_audit rt'\<rparr>"
    using check_tool_frame [of so fs "tc_now c" "tc_leases c" "tc_name c" "tc_args c" rt] ct by simp
  then obtain a where "rt' = rt\<lparr>rt_audit := a\<rparr>" by blast
  then show ?thesis using ct
    by (auto simp: guarded_execute_def split: sum.splits bool.splits)
qed

lemma run_tool_calls_frame: "\<exists>a. snd (run_tool_calls so fs cs rt) = rt\<lparr>rt_audit := a\<rparr>"
proof (induction cs arbitrary: rt)
  case Nil
  show ?case by (simp add: exI [of _ "rt_audit rt"])
next
  case (Cons c cs)
  obtain oc rt1 where g: "guarded_execute so fs c rt = (oc, rt1)" by (cases "guarded_execute so fs c rt")
  then obtain a where a: "rt1 = rt\<lparr>rt_audit := a\<rparr>" using guarded_execute_frame [of so fs c rt] by auto
  obtain b where "snd (run_tool_calls so fs cs rt1) = rt1\<lparr>rt_audit := b\<rparr>" using Cons.IH by blast
  then show ?case using g a by (auto simp: split: prod.splits)
qed

section \<open>The outcome of an execution\<close>

text \<open>The status as a decision on the inputs of the execution.\<close>

definition execution_status :: "agent_run \<Rightarrow> child_runtime \<Rightarrow> child_status" where
  "execution_status arun rt =
     (let b = bg_budget (rt_budget rt) in
      if steps_used (rt_budget rt) \<ge> max_steps b then FAILED
      else
        (case ag_end arun of
           Run_Cancelled \<Rightarrow> CANCELLED
         | Run_Raised t m \<Rightarrow> FAILED
         | Wall_Timeout \<Rightarrow> TIMED_OUT
         | Answered a \<Rightarrow>
             if ag_token_cancelled arun then CANCELLED
             else if tokens_used (rt_budget rt) + max 0 (ag_input_tokens arun) + max 0 (ag_output_tokens arun) > max_tokens b
             then FAILED
             else if max_wall_time_seconds b > 0 \<and>
                     ag_finished_ms arun - wall_start_ms (rt_budget rt) > max_wall_time_seconds b * 1000
             then TIMED_OUT
             else COMPLETED))"

definition ends_with :: "child_status \<Rightarrow> task_result \<times> child_runtime \<Rightarrow> child_runtime \<Rightarrow> bool" where
  "ends_with st r rt \<longleftrightarrow>
     res_status (fst r) = st \<and> res_child_session_id (fst r) = rt_session_id rt \<and>
     (res_error (fst r) = None) = (st \<in> {COMPLETED, CANCELLED}) \<and>
     (\<exists>reason. au_entries (rt_audit (snd r)) = au_entries (rt_audit rt) @
        [\<lparr>ae_event = ''terminal'', ae_session_id = au_session_id (rt_audit rt),
          ae_agent_id = au_agent_id (rt_audit rt),
          ae_fields = [(''status'', child_status_value st), (''reason'', reason)]\<rparr>])"

lemmas finish_defs = ends_with_def finish_budget_error_def finish_cancelled_def finish_failed_def
  base_result_def audit_terminal_def audit_record_def

lemma finish_budget_error_ends:
  "ends_with (if budget_error_code e = ''budget.time'' then TIMED_OUT else FAILED)
     (finish_budget_error arun e rt') rt"
  if "rt_audit rt' = rt_audit rt" "rt_session_id rt' = rt_session_id rt"
  using that by (auto simp: finish_defs terminate_for_budget_error_def Let_def)

lemma finish_answer_ends:
  "ends_with
     (if tokens_used (rt_budget rt) + max 0 (ag_input_tokens arun) + max 0 (ag_output_tokens arun)
           > max_tokens (bg_budget (rt_budget rt)) then FAILED
      else if max_wall_time_seconds (bg_budget (rt_budget rt)) > 0 \<and>
              ag_finished_ms arun - wall_start_ms (rt_budget rt) > max_wall_time_seconds (bg_budget (rt_budget rt)) * 1000
      then TIMED_OUT else COMPLETED)
     (finish_answer so arun answer rt) rt"
proof -
  define g where "g = (rt_budget rt)\<lparr>tokens_used :=
     tokens_used (rt_budget rt) + (max 0 (ag_input_tokens arun) + max 0 (ag_output_tokens arun))\<rparr>"
  have c: "consume_tokens (max 0 (ag_input_tokens arun) + max 0 (ag_output_tokens arun)) (rt_budget rt) =
      (if tokens_used g > max_tokens (bg_budget g)
       then (Inl (TokenLimitExceeded (tokens_used g) (max_tokens (bg_budget g))), g) else (Inr (), g))"
    by (simp add: consume_tokens_def Let_def g_def)
  have g: "bg_budget g = bg_budget (rt_budget rt)" "wall_start_ms g = wall_start_ms (rt_budget rt)"
    "tokens_used g = tokens_used (rt_budget rt) + max 0 (ag_input_tokens arun) + max 0 (ag_output_tokens arun)"
    by (simp_all add: g_def)
  have fail: "ends_with FAILED (finish_budget_error arun (TokenLimitExceeded u m) (rt\<lparr>rt_budget := g\<rparr>)) rt"
    and late: "ends_with TIMED_OUT (finish_budget_error arun (TimeLimitExceeded u m) (rt\<lparr>rt_budget := g\<rparr>)) rt" for u m
    using finish_budget_error_ends [of "rt\<lparr>rt_budget := g\<rparr>" rt "TokenLimitExceeded u m" arun]
      finish_budget_error_ends [of "rt\<lparr>rt_budget := g\<rparr>" rt "TimeLimitExceeded u m" arun]
    by simp_all
  show ?thesis
  proof (cases "tokens_used g > max_tokens (bg_budget g)")
    case True
    then have "finish_answer so arun answer rt =
        finish_budget_error arun (TokenLimitExceeded (tokens_used g) (max_tokens (bg_budget g))) (rt\<lparr>rt_budget := g\<rparr>)"
      unfolding finish_answer_def Let_def c by simp
    then show ?thesis using True fail g by simp
  next
    case False
    note within = this
    show ?thesis
    proof (cases "max_wall_time_seconds (bg_budget g) > 0 \<and>
        ag_finished_ms arun - wall_start_ms g > max_wall_time_seconds (bg_budget g) * 1000")
      case True
      then have "finish_answer so arun answer rt =
          finish_budget_error arun (TimeLimitExceeded (elapsed_wall_ms (ag_finished_ms arun) g)
            (max_wall_time_seconds (bg_budget g))) (rt\<lparr>rt_budget := g\<rparr>)"
        unfolding finish_answer_def Let_def c using within by (simp add: check_wall_clock_def elapsed_wall_ms_def)
      then show ?thesis using within True late g by simp
    next
      case False
      then have "check_wall_clock (ag_finished_ms arun) g = Inr ()"
        by (auto simp: check_wall_clock_def elapsed_wall_ms_def Let_def)
      then show ?thesis unfolding finish_answer_def Let_def c using within False g
        by (auto simp: ends_with_def base_result_def audit_terminal_def audit_record_def)
    qed
  qed
qed

lemma execute_spec:
  "case execute so fs arun task rt of
     (Inl msg, rt') \<Rightarrow> rt_cancelled rt \<and> rt' = rt
   | (Inr (ocs, res), rt') \<Rightarrow>
       \<not> rt_cancelled rt \<and> res_status res = execution_status arun rt \<and> result_is_terminal res \<and>
       res_child_session_id res = rt_session_id rt \<and>
       (res_error res = None) = (res_status res \<in> {COMPLETED, CANCELLED}) \<and>
       ae_event (last (au_entries (rt_audit rt'))) = ''terminal'' \<and>
       (\<exists>reason. ae_fields (last (au_entries (rt_audit rt'))) =
          [(''status'', child_status_value (res_status res)), (''reason'', reason)])"
proof (cases "rt_cancelled rt")
  case True
  then show ?thesis by (simp add: execute_def)
next
  case False
  have final: "terminal_status (execution_status arun rt)"
    by (auto simp: execution_status_def terminal_status_def Let_def split: run_end.splits)
  define g where "g = snd (consume_step (rt_budget rt))"
  have g: "bg_budget g = bg_budget (rt_budget rt)" "steps_used g = steps_used (rt_budget rt) + 1"
    "tokens_used g = tokens_used (rt_budget rt)" "wall_start_ms g = wall_start_ms (rt_budget rt)"
    by (simp_all add: g_def consume_step_def Let_def)
  obtain r ocs rt0 where e: "execute so fs arun task rt = (Inr (ocs, fst r), snd r)"
    and r: "ends_with (execution_status arun rt) r rt0" and sid: "rt_session_id rt0 = rt_session_id rt"
  proof (cases "steps_used (rt_budget rt) < max_steps (bg_budget (rt_budget rt))")
    case False
    let ?e = "StepLimitExceeded (steps_used g) (max_steps (bg_budget g))"
    have cs: "consume_step (rt_budget rt) = (Inl ?e, g)"
      using False by (simp add: consume_step_def Let_def g_def)
    let ?r = "finish_budget_error (arun\<lparr>ag_input_tokens := 0, ag_output_tokens := 0, ag_cache_hit_tokens := 0\<rparr>)
       ?e (rt\<lparr>rt_budget := g\<rparr>)"
    have "execute so fs arun task rt = (Inr ([], fst ?r), snd ?r)"
      using \<open>\<not> rt_cancelled rt\<close> by (simp add: execute_def cs split: prod.split)
    moreover have "ends_with (execution_status arun rt) ?r rt"
      using finish_budget_error_ends [of "rt\<lparr>rt_budget := g\<rparr>" rt ?e] False
      by (simp add: execution_status_def)
    ultimately show ?thesis using that by blast
  next
    case True
    have cs: "consume_step (rt_budget rt) = (Inr (), g)"
      using True by (simp add: consume_step_def Let_def g_def)
    define rtb where "rtb = rt\<lparr>rt_budget := g,
        rt_audit := audit_record ''execute'' [(''prompt'', task)] (rt_audit rt), rt_inbox := []\<rparr>"
    obtain ocs rt1 where c: "run_tool_calls so fs (ag_calls arun) rtb = (ocs, rt1)"
      by (cases "run_tool_calls so fs (ag_calls arun) rtb")
    then obtain a where rt1: "rt1 = rtb\<lparr>rt_audit := a\<rparr>"
      using run_tool_calls_frame [of so fs "ag_calls arun" rtb] by auto
    define rt2 where "rt2 = rt1\<lparr>rt_cancelled := rt_cancelled rt1 \<or> ag_token_cancelled arun\<rparr>"
    let ?r = "finish_run so arun rt2"
    have "execute so fs arun task rt = (Inr (ocs, fst ?r), snd ?r)"
      using \<open>\<not> rt_cancelled rt\<close> c by (simp add: execute_def cs rt2_def rtb_def split: prod.split)
    moreover have rt2: "rt_cancelled rt2 = ag_token_cancelled arun" "rt_budget rt2 = g" "rt_session_id rt2 = rt_session_id rt"
      using \<open>\<not> rt_cancelled rt\<close> by (simp_all add: rt2_def rt1 rtb_def)
    have canc: "ends_with CANCELLED (finish_cancelled m rt2) rt2" for m by (auto simp: finish_defs)
    have failed: "ends_with FAILED (finish_failed t m rt2) rt2" for t m by (auto simp: finish_defs)
    have "ends_with (execution_status arun rt) ?r rt2"
    proof (cases "ag_end arun")
      case (Answered x)
      then show ?thesis using True finish_answer_ends [of rt2 arun so x, unfolded rt2 g] canc
        by (simp add: finish_run_def execution_status_def rt2 g Let_def)
    next
      case Wall_Timeout
      then show ?thesis using True finish_budget_error_ends [of rt2 rt2 "TimeLimitExceeded u m" for u m]
        by (simp add: finish_run_def execution_status_def Let_def)
    next
      case Run_Cancelled
      then show ?thesis using True canc by (simp add: finish_run_def execution_status_def Let_def)
    next
      case (Run_Raised t m)
      then show ?thesis using True failed by (simp add: finish_run_def execution_status_def Let_def)
    qed
    ultimately show ?thesis using that rt2(3) by blast
  qed
  show ?thesis using False r final unfolding e
    by (auto simp: ends_with_def result_is_terminal_def sid)
qed

text \<open>
  Execution: it raises only when the child was cancelled before it started; otherwise it
  returns a result with the session's id and a terminal status, which is exactly
  \<open>execution_status\<close> of the run: completed only when the run answered, was not cancelled and kept
  the step, token and wall-clock limits. An error record is present exactly for failures and
  timeouts, and the audit ends with the terminal entry of that status.
\<close>

theorem execute_outcome:
  "case execute so fs arun task rt of
     (Inl msg, rt') \<Rightarrow> rt_cancelled rt \<and> rt' = rt
   | (Inr (ocs, res), rt') \<Rightarrow>
       \<not> rt_cancelled rt \<and> res_status res = execution_status arun rt \<and> result_is_terminal res \<and>
       res_child_session_id res = rt_session_id rt \<and>
       (res_error res = None) = (res_status res \<in> {COMPLETED, CANCELLED}) \<and>
       ae_event (last (au_entries (rt_audit rt'))) = ''terminal'' \<and>
       (\<exists>reason. ae_fields (last (au_entries (rt_audit rt'))) =
          [(''status'', child_status_value (res_status res)), (''reason'', reason)])"
  by (rule execute_spec)

section \<open>The tool gate\<close>

definition gate_allows ::
  "(pyval \<Rightarrow> string) \<Rightarrow> path_env \<Rightarrow> tool_call \<Rightarrow> child_runtime \<Rightarrow> bool" where
  "gate_allows so fs c rt =
     (let n = canonical_tool_name (tc_name c); val = tool_value so n (tc_args c);
          v = make_validator (ep_workspace (rt_policy rt)) (rt_workspace_root rt) in
      n = ''final_answer'' \<or> n \<in> set COLLAB_TOOLS \<or>
      (decision_allows (evaluate fs (policy_from_definition (ad_permission (rt_definition rt)) ''unknown'' None)
         (tool_category n) val) \<and>
       (if tool_category n = ''edit'' then ok (check_edit fs (tc_now c) v (rt_session_id rt) val (tc_leases c))
        else if n = ''bash'' then ok (check_bash v (rt_session_id rt) val) else True)))"

lemma check_tool_True_iff:
  "fst (check_tool so fs (tc_now c) (tc_leases c) (tc_name c) (tc_args c) rt) = Inr True \<longleftrightarrow> gate_allows so fs c rt"
  by (auto simp: check_tool_def gate_allows_def Let_def decision_allows_def bind_result_Inr_iff ok_iff)

lemma guarded_execute_Executed:
  "fst (guarded_execute so fs c rt) = Executed n args \<longleftrightarrow> gate_allows so fs c rt \<and> n = tc_name c \<and> args = tc_args c"
  unfolding check_tool_True_iff [symmetric]
  by (cases "check_tool so fs (tc_now c) (tc_leases c) (tc_name c) (tc_args c) rt")
     (auto simp: guarded_execute_def split: sum.splits bool.splits)

lemma gate_allows_audit [simp]: "gate_allows so fs c (rt\<lparr>rt_audit := a\<rparr>) = gate_allows so fs c rt"
  by (simp add: gate_allows_def)

lemma run_tool_calls_nth:
  "i < length cs \<Longrightarrow> \<exists>a. fst (run_tool_calls so fs cs rt) ! i = fst (guarded_execute so fs (cs ! i) (rt\<lparr>rt_audit := a\<rparr>))"
proof (induction cs arbitrary: rt i)
  case Nil
  then show ?case by simp
next
  case (Cons c cs)
  obtain oc rt1 where g: "guarded_execute so fs c rt = (oc, rt1)" by (cases "guarded_execute so fs c rt")
  then obtain a where a: "rt1 = rt\<lparr>rt_audit := a\<rparr>" using guarded_execute_frame [of so fs c rt] by auto
  obtain ocs rt2 where r: "run_tool_calls so fs cs rt1 = (ocs, rt2)" by (cases "run_tool_calls so fs cs rt1")
  have list: "fst (run_tool_calls so fs (c # cs) rt) = oc # ocs" using g r by simp
  show ?case
  proof (cases i)
    case 0
    then show ?thesis using g list by (intro exI [of _ "rt_audit rt"]) simp
  next
    case (Suc j)
    then have "j < length cs" using Cons.prems by simp
    from Cons.IH [OF this, of rt1] obtain b
      where "fst (run_tool_calls so fs cs rt1) ! j = fst (guarded_execute so fs (cs ! j) (rt1\<lparr>rt_audit := b\<rparr>))"
      by blast
    then show ?thesis using Suc list r a by auto
  qed
qed

lemma run_tool_calls_length: "length (fst (run_tool_calls so fs cs rt)) = length cs"
  by (induction cs arbitrary: rt) (auto simp: split_beta)


text \<open>
  C26. A read-only child cannot write: whatever its definition permits, no call it makes to an
  editing tool, under any alias, is executed, and a shell command is executed only when the
  read-only check accepts it.
\<close>

theorem read_only_child_cannot_write:
  assumes "is_read_only rt"
  shows "list_all (\<lambda>oc. case oc of
      Executed n args \<Rightarrow> tool_category (canonical_tool_name n) \<noteq> ''edit'' \<and>
        (if canonical_tool_name n = ''bash'' then is_read_only_command (arg_text so args [''command'']) else True)
    | _ \<Rightarrow> True) (fst (run_tool_calls so fs cs rt))"
proof -
  have ro: "ws_mode (wv_scope (make_validator (ep_workspace (rt_policy rt)) root')) = READ_ONLY" for root'
    using assms by (simp add: is_read_only_def make_validator_def)
  have gate: "tool_category (canonical_tool_name (tc_name c)) \<noteq> ''edit'' \<and>
     (if canonical_tool_name (tc_name c) = ''bash'' then is_read_only_command (arg_text so (tc_args c) [''command'']) else True)"
    if g: "gate_allows so fs c rt" for c
  proof (cases "canonical_tool_name (tc_name c) = ''final_answer'' \<or> canonical_tool_name (tc_name c) \<in> set COLLAB_TOOLS")
    case True
    then show ?thesis by (auto simp: COLLAB_TOOLS_def tool_category_def)
  next
    case False
    then show ?thesis using g ro
      by (auto simp: gate_allows_def Let_def check_edit_def check_bash_def tool_value_def split: if_splits)
  qed
  show ?thesis unfolding list_all_length
  proof (intro allI impI)
    fix i assume "i < length (fst (run_tool_calls so fs cs rt))"
    then obtain a where a: "fst (run_tool_calls so fs cs rt) ! i =
        fst (guarded_execute so fs (cs ! i) (rt\<lparr>rt_audit := a\<rparr>))"
      using run_tool_calls_nth [of i cs so fs rt] by (auto simp: run_tool_calls_length)
    show "case fst (run_tool_calls so fs cs rt) ! i of
      Executed n args \<Rightarrow> tool_category (canonical_tool_name n) \<noteq> ''edit'' \<and>
        (if canonical_tool_name n = ''bash'' then is_read_only_command (arg_text so args [''command'']) else True)
    | _ \<Rightarrow> True"
    proof (cases "fst (guarded_execute so fs (cs ! i) (rt\<lparr>rt_audit := a\<rparr>))")
      case (Executed n args)
      then have "gate_allows so fs (cs ! i) rt" "n = tc_name (cs ! i)" "args = tc_args (cs ! i)"
        by (simp_all add: guarded_execute_Executed)
      then show ?thesis unfolding a Executed call_outcome.case using gate [of "cs ! i"] by simp
    qed (simp_all add: a)
  qed
qed

definition sample_read_only :: child_runtime where
  "sample_read_only = create_child_runtime 0 primary_definition (sample_session ''a'' []) None"

theorem read_only_child_cannot_write_witness:
  "is_read_only sample_read_only \<and>
   list_all (\<lambda>oc. case oc of
      Executed n args \<Rightarrow> tool_category (canonical_tool_name n) \<noteq> ''edit'' \<and>
        (if canonical_tool_name n = ''bash'' then is_read_only_command (arg_text (\<lambda>v. []) args [''command'']) else True)
    | _ \<Rightarrow> True)
    (fst (run_tool_calls (\<lambda>v. []) plain_env
       [\<lparr>tc_name = ''write'', tc_args = [(''path'', PStr ''/ws/a'')], tc_now = 0, tc_leases = None\<rparr>] sample_read_only))"
proof -
  have "is_read_only sample_read_only"
    by (simp add: sample_read_only_def create_child_runtime_def is_read_only_def sample_session_def create_child_session_def
        default_policy_def default_workspace_def)
  from read_only_child_cannot_write [OF this] this show ?thesis by blast
qed

end
