(* ===== verification/Events_Correct.thy ===== *)
theory Events_Correct
  imports Events "HOL-Library.Multiset"
begin

text \<open>
  The event log numbers its events without gaps, is append-only and idempotent; a store
  reloaded from its files agrees with the one that wrote them on everything a recovering
  client asks: cursor, lookup by id, each session's history and its terminal status.
\<close>

section \<open>The log as a machine\<close>

definition store_step :: "event_store \<Rightarrow> child_session_event \<Rightarrow> event_store" where
  "store_step st e = snd (store_append e st)"

definition fresh_store :: "bool \<Rightarrow> event_store" where
  "fresh_store persistent = new_store (if persistent then Some [] else None)"

definition disk_mirrors :: "event_store \<Rightarrow> bool" where
  "disk_mirrors st \<longleftrightarrow>
     (case es_disk st of None \<Rightarrow> True
      | Some d \<Rightarrow> dict_wf d \<and> (\<forall>sid. dict_get_or d sid [] = map Some (events_for_session st sid)))"

definition store_wf :: "event_store \<Rightarrow> bool" where
  "store_wf st \<longleftrightarrow>
     map ev_seq (es_events st) = [1..int (length (es_events st))] \<and>
     es_next_seq st = 1 + int (length (es_events st)) \<and>
     distinct (map ev_event_id (es_events st)) \<and>
     (\<forall>k. dict_get (es_by_id st) k = find (\<lambda>e. ev_event_id e = k) (es_events st)) \<and>
     disk_mirrors st"

definition store_le :: "event_store \<Rightarrow> event_store \<Rightarrow> bool" where
  "store_le st st' \<longleftrightarrow> prefix (es_events st) (es_events st')"

lemma find_snoc:
  "find P (xs @ [x]) = (case find P xs of None \<Rightarrow> if P x then Some x else None | Some y \<Rightarrow> Some y)"
  by (induction xs) auto

lemma disk_mirrors_append:
  assumes "disk_mirrors st" and "es_events st' = es_events st @ [e]" and "es_disk st' = persist e (es_disk st)"
  shows "disk_mirrors st'"
  using assms
  by (auto simp: disk_mirrors_def persist_def events_for_session_def dict_wf_set split: option.splits)

lemma store_append_wf:
  assumes wf: "store_wf st"
  shows "store_wf (store_step st e)"
proof (cases "dict_get (es_by_id st) (ev_event_id e)")
  case None
  define e' where "e' = e\<lparr>ev_seq := es_next_seq st\<rparr>"
  define st' where "st' = store_step st e"
  have st': "es_events st' = es_events st @ [e']" "es_next_seq st' = es_next_seq st + 1"
    "es_by_id st' = dict_set (ev_event_id e) e' (es_by_id st)" "es_disk st' = persist e' (es_disk st)"
    using None by (simp_all add: st'_def store_step_def store_append_def e'_def Let_def)
  have id: "ev_event_id e' = ev_event_id e" "ev_seq e' = es_next_seq st" by (simp_all add: e'_def)
  have none: "find (\<lambda>x. ev_event_id x = ev_event_id e) (es_events st) = None"
    using wf None by (simp add: store_wf_def)
  then have new: "ev_event_id e \<notin> ev_event_id ` set (es_events st)" by (auto simp: find_None_iff)
  have "dict_get (es_by_id st') k = find (\<lambda>x. ev_event_id x = k) (es_events st')" for k
    using wf none by (auto simp: st' find_snoc id store_wf_def split: option.splits)
  moreover have "map ev_seq (es_events st') = [1..int (length (es_events st'))]"
    using wf by (simp add: st' id store_wf_def upto_rec2)
  moreover have "disk_mirrors st'" using disk_mirrors_append [OF _ st'(1,4)] wf by (simp add: store_wf_def)
  ultimately have "store_wf st'" using wf new by (simp add: store_wf_def st' id)
  then show ?thesis by (simp add: st'_def)
next
  case (Some old)
  then show ?thesis using wf by (simp add: store_step_def store_append_def)
qed

interpretation event_log: ordered_machine store_step store_wf store_le
proof
  fix st e assume "store_wf st"
  then show "store_wf (store_step st e)" by (rule store_append_wf)
  show "store_le st (store_step st e)"
    by (auto simp: store_le_def store_step_def store_append_def Let_def split: option.splits)
qed (auto simp: store_le_def)

lemma fresh_store_wf: "store_wf (fresh_store p)"
  by (simp add: fresh_store_def new_store_def load_persisted_def sorted_files_def store_wf_def
      disk_mirrors_def events_for_session_def dict_get_or_def)

lemma find_distinct_key:
  "distinct (map f xs) \<Longrightarrow> x \<in> set xs \<Longrightarrow> find (\<lambda>y. f y = f x) xs = Some x"
  by (induction xs) (auto simp: image_iff)

section \<open>Cursors and gaps\<close>

lemma filter_seq_drop:
  "map f xs = [a..a + int (length xs) - 1] \<Longrightarrow> filter (\<lambda>x. f x > c) xs = drop (nat (c - a + 1)) xs"
proof (induction xs arbitrary: a)
  case Nil
  then show ?case by simp
next
  case (Cons x xs)
  have "[a..a + int (length (x # xs)) - 1] = a # [a + 1..a + 1 + int (length xs) - 1]"
    by (simp add: upto_rec1 algebra_simps)
  then have x: "f x = a" and xs: "map f xs = [a + 1..a + 1 + int (length xs) - 1]"
    using Cons.prems by simp_all
  show ?case
  proof (cases "a > c")
    case True
    then have "filter (\<lambda>y. f y > c) xs = xs" using Cons.IH [OF xs] by simp
    then show ?thesis using True x by simp
  next
    case False
    then have "nat (c - a + 1) = Suc (nat (c - (a + 1) + 1))" by (simp add: nat_eq_iff)
    then show ?thesis using False x Cons.IH [OF xs] by simp
  qed
qed

lemma events_from_drop: "store_wf st \<Longrightarrow> events_from st c = drop (nat c) (es_events st)"
  using filter_seq_drop [of ev_seq "es_events st" 1 c] by (simp add: store_wf_def events_from_def)

lemma detect_gaps_wf:
  assumes "store_wf st"
  shows "detect_gaps st a b = filter (\<lambda>s. s < 1 \<or> s > latest_cursor st) [a + 1..b]"
proof -
  have "set (map ev_seq (es_events st)) = {1..latest_cursor st}"
    using assms by (simp add: store_wf_def latest_cursor_def del: set_map)
  then have *: "s \<in> ev_seq ` set (es_events st) \<longleftrightarrow> 1 \<le> s \<and> s \<le> latest_cursor st" for s by auto
  have "s \<in> ev_seq ` {e \<in> set (es_events st). a < ev_seq e \<and> ev_seq e \<le> b} \<longleftrightarrow>
      s \<in> ev_seq ` set (es_events st) \<and> a < s \<and> s \<le> b" for s by auto
  then show ?thesis unfolding detect_gaps_def Let_def
    by (intro filter_cong) (auto simp: *)
qed

text \<open>
  Whatever events are appended, duplicates included: the log holds the sequence numbers
  1 to \<open>n\<close> in order, nothing inside that range is reported as a gap, reading from a cursor
  returns exactly what came after it, what was logged stays, and appending a logged event again
  changes nothing and returns the logged one.
\<close>

theorem event_log_spec:
  "let st = run store_step (fresh_store p) es; n = int (length (es_events st)) in
   map ev_seq (es_events st) = [1..n] \<and> latest_cursor st = n \<and>
   detect_gaps st 0 n = [] \<and>
   events_from st c = drop (nat c) (es_events st) \<and>
   prefix (es_events st) (es_events (run store_step st later)) \<and>
   list_all (\<lambda>e. store_append (e\<lparr>ev_seq := k\<rparr>) st = (e, st)) (es_events st)"
proof -
  define st where "st = run store_step (fresh_store p) es"
  have wf: "store_wf st" unfolding st_def by (rule event_log.run_inv [OF fresh_store_wf])
  have "prefix (es_events st) (es_events (run store_step st later))"
    using event_log.run_le [OF wf] by (simp add: store_le_def)
  moreover have "store_append (e\<lparr>ev_seq := k\<rparr>) st = (e, st)" if "e \<in> set (es_events st)" for e
  proof -
    have "distinct (map ev_event_id (es_events st))" using wf by (simp add: store_wf_def)
    then have "find (\<lambda>x. ev_event_id x = ev_event_id e) (es_events st) = Some e"
      using that by (rule find_distinct_key)
    then have "dict_get (es_by_id st) (ev_event_id e) = Some e" using wf by (simp add: store_wf_def)
    then show ?thesis by (simp add: store_append_def)
  qed
  moreover have "latest_cursor st = int (length (es_events st))"
    using wf by (simp add: store_wf_def latest_cursor_def)
  moreover from this have "detect_gaps st 0 (int (length (es_events st))) = []"
    by (auto simp: detect_gaps_wf [OF wf] filter_eq_Nil_conv)
  ultimately show ?thesis using wf
    by (simp add: events_from_drop list_all_iff store_wf_def Let_def flip: st_def)
qed

section \<open>Recovery\<close>

definition disk_events :: "event_disk \<Rightarrow> child_session_event list" where
  "disk_events d = concat (map (\<lambda>f. List.map_filter id (snd f)) (sorted_files d))"

lemma fold_load_line: "fold load_line ls st = fold load_event (List.map_filter id ls) st"
  by (induction ls arbitrary: st) (auto simp: load_line_def List.map_filter_simps split: option.splits)

lemma fold_load_files:
  "fold (\<lambda>f st. fold load_line (snd f) st) fs st =
   fold load_event (concat (map (\<lambda>f. List.map_filter id (snd f)) fs)) st"
  by (induction fs arbitrary: st) (auto simp: fold_load_line)

lemma new_store_disk:
  "new_store (Some d) =
   fold load_event (disk_events d) \<lparr>es_disk = Some d, es_events = [], es_next_seq = 1, es_by_id = []\<rparr>"
  by (simp add: new_store_def load_persisted_def fold_load_files disk_events_def)

lemma fold_load_event:
  "es_events (fold load_event es st) = es_events st @ es"
  "es_disk (fold load_event es st) = es_disk st"
  "es_by_id (fold load_event es st) = fold (\<lambda>e. dict_set (ev_event_id e) e) es (es_by_id st)"
  "es_next_seq (fold load_event es st) = fold (\<lambda>e n. max (ev_seq e + 1) n) es (es_next_seq st)"
  by (induction es arbitrary: st) (auto simp: load_event_def max_def)

lemma get_fold_by_id:
  "distinct (map ev_event_id es) \<Longrightarrow>
   dict_get (fold (\<lambda>e. dict_set (ev_event_id e) e) es d) k =
     (case find (\<lambda>e. ev_event_id e = k) es of Some e \<Rightarrow> Some e | None \<Rightarrow> dict_get d k)"
proof (induction es arbitrary: d)
  case Nil
  show ?case by simp
next
  case (Cons e es)
  have "\<forall>x \<in> set es. ev_event_id x \<noteq> ev_event_id e"
    using Cons.prems by (metis distinct.simps(2) imageI list.set_map list.simps(9))
  then have "find (\<lambda>x. ev_event_id x = ev_event_id e) es = None"
    by (simp add: find_None_iff)
  then show ?case using Cons by (auto split: option.splits)
qed

lemma fold_max_seq:
  fixes n m :: int
  assumes "list_all (\<lambda>e. ev_seq e < m) es" and "n \<le> m" and "n = m \<or> m - 1 \<in> ev_seq ` set es"
  shows "fold (\<lambda>e n. max (ev_seq e + 1) n) es n = m"
  using assms
proof (induction es arbitrary: n)
  case Nil
  then show ?case by simp
next
  case (Cons e es)
  have "max (ev_seq e + 1) n = m \<or> m - 1 \<in> ev_seq ` set es"
    using Cons.prems by auto
  then show ?case using Cons by simp
qed

lemma filter_concat_files:
  "distinct (map fst fs) \<Longrightarrow> (\<And>f e. f \<in> set fs \<Longrightarrow> e \<in> set (h (snd f)) \<Longrightarrow> ev_session_id e = fst f) \<Longrightarrow>
   filter (\<lambda>e. ev_session_id e = sid) (concat (map (\<lambda>f. h (snd f)) fs)) =
     (case map_of fs sid of None \<Rightarrow> [] | Some ls \<Rightarrow> h ls)"
proof (induction fs)
  case Nil
  show ?case by simp
next
  case (Cons f fs)
  have own: "filter (\<lambda>e. ev_session_id e = sid) (h (snd f)) = (if fst f = sid then h (snd f) else [])"
    using Cons.prems(2) [of f] by (auto simp: filter_eq_Nil_conv intro!: filter_True)
  have "map_of fs (fst f) = None" using Cons.prems(1) by (simp add: map_of_eq_None_iff)
  moreover have "filter (\<lambda>e. ev_session_id e = sid) (concat (map (\<lambda>f. h (snd f)) fs)) =
     (case map_of fs sid of None \<Rightarrow> [] | Some ls \<Rightarrow> h ls)"
    using Cons.prems by (intro Cons.IH) auto
  ultimately show ?case using own by (cases f) (auto split: option.splits)
qed

lemma sorted_files_wf: "dict_wf d \<Longrightarrow> dict_wf (sorted_files d)"
proof -
  assume "dict_wf d"
  moreover have "mset (map fst (sorted_files d)) = mset (map fst d)" by (simp add: sorted_files_def)
  ultimately show ?thesis unfolding dict_wf_def using mset_eq_imp_distinct_iff by blast
qed

lemma set_sorted_files [simp]: "set (sorted_files d) = set d"
  by (simp add: sorted_files_def)

lemma sorted_files_get: "dict_wf d \<Longrightarrow> dict_get (sorted_files d) k = dict_get d k"
proof -
  assume wf: "dict_wf d"
  have "dict_get (sorted_files d) k = Some v \<longleftrightarrow> dict_get d k = Some v" for v
    by (simp add: wf sorted_files_wf dict_get_Some_iff)
  then show ?thesis by (metis option.exhaust)
qed

lemma map_filter_id_Some: "List.map_filter id (map Some xs) = xs"
  by (induction xs) (auto simp: List.map_filter_simps)

lemma disk_events_for_session:
  assumes "disk_mirrors st" and "es_disk st = Some d"
  shows "filter (\<lambda>e. ev_session_id e = sid) (disk_events d) = events_for_session st sid"
proof -
  have wf: "dict_wf d" and m: "\<And>s. dict_get_or d s [] = map Some (events_for_session st s)"
    using assms by (auto simp: disk_mirrors_def)
  have get: "ls = map Some (events_for_session st s)" if "(s, ls) \<in> set d" for s ls
  proof -
    have "dict_get d s = Some ls" using that wf by (simp add: dict_get_Some_iff)
    then show ?thesis using m [of s] by (simp add: dict_get_or_def)
  qed
  have "ev_session_id e = fst f" if "f \<in> set (sorted_files d)" "e \<in> set (List.map_filter id (snd f))" for f e
  proof -
    have "snd f = map Some (events_for_session st (fst f))" using that(1) by (intro get) simp
    then show ?thesis using that(2) by (simp add: map_filter_id_Some events_for_session_def)
  qed
  then have "filter (\<lambda>e. ev_session_id e = sid) (disk_events d) =
      (case map_of (sorted_files d) sid of None \<Rightarrow> [] | Some ls \<Rightarrow> List.map_filter id ls)"
    unfolding disk_events_def using sorted_files_wf [OF wf]
    by (intro filter_concat_files) (simp_all add: dict_wf_def)
  also have "\<dots> = (case dict_get d sid of None \<Rightarrow> [] | Some ls \<Rightarrow> List.map_filter id ls)"
    using sorted_files_get [OF wf, of sid] by (simp add: dict_get_def)
  also have "\<dots> = events_for_session st sid"
    using m [of sid] by (cases "dict_get d sid") (simp_all add: dict_get_or_def map_filter_id_Some)
  finally show ?thesis .
qed

lemma same_sessions_same_events:
  fixes xs ys :: "child_session_event list"
  assumes "\<And>sid. filter (\<lambda>e. ev_session_id e = sid) xs = filter (\<lambda>e. ev_session_id e = sid) ys"
  shows "mset xs = mset ys"
proof (rule multiset_eqI)
  fix e
  have "count (mset zs) e = count (mset (filter (\<lambda>x. ev_session_id x = ev_session_id e) zs)) e"
    for zs :: "child_session_event list"
    by simp
  from this [of xs] this [of ys] show "count (mset xs) e = count (mset ys) e"
    unfolding assms [of "ev_session_id e"] by (rule trans [OF _ sym])
qed

lemma disk_events_mset:
  assumes "disk_mirrors st" and "es_disk st = Some d"
  shows "mset (disk_events d) = mset (es_events st)"
  using disk_events_for_session [OF assms]
  by (intro same_sessions_same_events) (simp add: events_for_session_def)

lemma reload_next_seq:
  assumes wf: "store_wf st" and d: "es_disk st = Some d"
  shows "es_next_seq (new_store (Some d)) = es_next_seq st"
proof -
  have "set (disk_events d) = set (es_events st)"
    using disk_events_mset [OF _ d] wf by (metis mset_eq_setD store_wf_def)
  moreover have seqs: "ev_seq ` set (es_events st) = {1..es_next_seq st - 1}"
    using wf unfolding store_wf_def by (metis add_diff_cancel_left' set_map set_upto)
  ultimately have img: "ev_seq ` set (disk_events d) = {1..es_next_seq st - 1}" by simp
  have "list_all (\<lambda>e. ev_seq e < es_next_seq st) (disk_events d)"
    using img by (auto simp: list_all_iff dest!: equalityD1)
  moreover have "1 \<le> es_next_seq st" using wf by (simp add: store_wf_def)
  moreover have "1 = es_next_seq st \<or> es_next_seq st - 1 \<in> ev_seq ` set (disk_events d)"
    using wf unfolding img by (cases "es_events st") (auto simp: store_wf_def)
  ultimately show ?thesis by (simp add: new_store_disk fold_load_event fold_max_seq)
qed

lemma reload_lookup:
  assumes wf: "store_wf st" and d: "es_disk st = Some d"
  shows "dict_get (es_by_id (new_store (Some d))) k = dict_get (es_by_id st) k"
proof -
  have ms: "mset (disk_events d) = mset (es_events st)"
    using disk_events_mset [OF _ d] wf by (simp add: store_wf_def)
  have dist: "distinct (map ev_event_id (es_events st))" using wf by (simp add: store_wf_def)
  have "mset (map ev_event_id (disk_events d)) = mset (map ev_event_id (es_events st))" using ms by simp
  then have dist': "distinct (map ev_event_id (disk_events d))" using dist mset_eq_imp_distinct_iff by blast
  have same: "set (disk_events d) = set (es_events st)" using ms by (metis mset_eq_setD)
  have "find (\<lambda>e. ev_event_id e = k) (disk_events d) = find (\<lambda>e. ev_event_id e = k) (es_events st)"
  proof (cases "\<exists>e \<in> set (es_events st). ev_event_id e = k")
    case True
    then obtain e where "e \<in> set (es_events st)" "k = ev_event_id e" by blast
    then show ?thesis using find_distinct_key [OF dist] find_distinct_key [OF dist'] same by simp
  next
    case False
    then have "find (\<lambda>e. ev_event_id e = k) (disk_events d) = None"
      "find (\<lambda>e. ev_event_id e = k) (es_events st) = None"
      using same by (auto simp: find_None_iff)
    then show ?thesis by simp
  qed
  then show ?thesis using wf
    by (simp add: new_store_disk fold_load_event get_fold_by_id [OF dist'] store_wf_def split: option.splits)
qed

lemma terminal_status_via_session:
  "terminal_status_for st sid =
   map_option ev_event_name (find is_terminal_event (rev (events_for_session st sid)))"
proof -
  have "find (\<lambda>e. ev_session_id e = sid \<and> is_terminal_event e) xs =
      find is_terminal_event (filter (\<lambda>e. ev_session_id e = sid) xs)" for xs
    by (induction xs) auto
  then show ?thesis by (simp add: terminal_status_for_def events_for_session_def rev_filter)
qed

lemma reload_events:
  assumes "store_wf st" and "es_disk st = Some d"
  shows "mset (es_events (new_store (Some d))) = mset (es_events st)"
    and "events_for_session (new_store (Some d)) sid = events_for_session st sid"
  using assms disk_events_mset [of st d] disk_events_for_session [of st d sid]
  by (simp_all add: new_store_disk fold_load_event store_wf_def events_for_session_def)

lemma persistent_run:
  "\<exists>d. es_disk (run store_step (fresh_store True) es) = Some d"
proof -
  have "\<exists>d. es_disk (store_step st e) = Some d" if "\<exists>d. es_disk st = Some d" for st e
    using that by (auto simp: store_step_def store_append_def persist_def Let_def split: option.splits)
  then have "\<exists>d. es_disk st = Some d \<Longrightarrow> \<exists>d. es_disk (run store_step st es) = Some d" for st
    by (induction es arbitrary: st) auto
  moreover have "\<exists>d. es_disk (fresh_store True) = Some d"
    by (simp add: fresh_store_def new_store_def load_persisted_def sorted_files_def)
  ultimately show ?thesis by blast
qed


text \<open>
  What recovery does not keep is the order across sessions: the files are replayed one after
  another, so a client that catches up from a cursor after a restart sees sequence numbers
  that go backwards.
\<close>

definition sample_event :: "string \<Rightarrow> string \<Rightarrow> child_session_event" where
  "sample_event sid uuid = build_event uuid 0 EVENT_CREATED sid ''root'' [] [] [] [] None"

lemma reload_breaks_order:
  "let st = run store_step (fresh_store True) [sample_event ''b'' ''e1'', sample_event ''a'' ''e2''] in
   map ev_seq (events_from st 0) = [1, 2] \<and> map ev_seq (events_from (new_store (es_disk st)) 0) = [2, 1]"
proof -
  define e1 where "e1 = (sample_event ''b'' ''e1'')\<lparr>ev_seq := 1\<rparr>"
  define e2 where "e2 = (sample_event ''a'' ''e2'')\<lparr>ev_seq := 2\<rparr>"
  define st where "st = run store_step (fresh_store True) [sample_event ''b'' ''e1'', sample_event ''a'' ''e2'']"
  have st: "es_events st = [e1, e2]" "es_disk st = Some [(''b'', [Some e1]), (''a'', [Some e2])]"
    by (simp_all add: st_def e1_def e2_def fresh_store_def new_store_def load_persisted_def sorted_files_def
        store_step_def store_append_def sample_event_def build_event_def persist_def dict_get_or_def
        dict_get_def Let_def)
  have "sorted_files [(''b'', [Some e1]), (''a'', [Some e2])] = [(''a'', [Some e2]), (''b'', [Some e1])]"
    by (simp add: sorted_files_def)
  then have "disk_events [(''b'', [Some e1]), (''a'', [Some e2])] = [e2, e1]"
    by (simp add: disk_events_def List.map_filter_simps)
  then have "es_events (new_store (es_disk st)) = [e2, e1]"
    unfolding st(2) new_store_disk by (simp only: fold_load_event) simp
  moreover have "ev_seq e1 = 1" "ev_seq e2 = 2" by (simp_all add: e1_def e2_def)
  ultimately show ?thesis
    unfolding st_def [symmetric] Let_def by (simp add: events_from_def st(1))
qed

section \<open>The bus\<close>

text \<open>
  Delivery: publishing calls each subscriber whose subscription contains the session, once
  for each such subscription and in subscription order; a new subscription adds exactly its
  own deliveries, and undoing it restores the deliveries of every event.
\<close>

theorem publish_exact:
  "publish e (subscribe sids s b) =
     publish e b @ (if ev_session_id e \<in> set sids then [s] else []) \<and>
   mset (publish e (unsubscribe sids s (subscribe sids s b))) = mset (publish e b) \<and>
   count (mset (publish e b)) s =
     length (filter (\<lambda>(ids, t). ev_session_id e \<in> ids \<and> t = s) (bus_subscribers b))"
proof -
  have "mset (filter P (remove1 x (xs @ [x]))) = mset (filter P xs)" for P x and xs :: "(string set \<times> nat) list"
    by simp
  then have "mset (publish e (unsubscribe sids s (subscribe sids s b))) = mset (publish e b)"
    by (simp add: publish_def unsubscribe_def subscribe_def del: filter_remove1)
  moreover have "count (mset (map snd (filter (\<lambda>(ids, s). ev_session_id e \<in> ids) xs))) s =
      length (filter (\<lambda>(ids, t). ev_session_id e \<in> ids \<and> t = s) xs)" for xs :: "(string set \<times> nat) list"
    by (induction xs) auto
  ultimately show ?thesis by (simp add: publish_def subscribe_def)
qed

end
