(* ===== verification/Manager_Machine.thy ===== *)
theory Manager_Machine
  imports Manager_Correct
begin

text \<open>
  The manager over time: dispatches, completions and cancellations interleave in any order.
  Three invariants hold throughout (sessions sit in the tree of their root, leases belong to
  children in flight, at most one terminal event for a session) and sessions only move forward
  in their life cycle.
\<close>

datatype manager_cmd =
    Begin dispatch_env task_request
  | Finish dispatch_env string agent_run
  | Cancel dispatch_env string "string option"

fun manager_step :: "child_manager \<Rightarrow> manager_cmd \<Rightarrow> child_manager" where
  "manager_step m (Begin env req) = snd (dispatch_begin env req m)"
| "manager_step m (Finish env sid arun) = snd (dispatch_finish env sid arun m)"
| "manager_step m (Cancel env rid target) = snd (cancel_in_manager env rid target m)"

section \<open>Sessions in their trees\<close>

definition lookup :: "child_manager \<Rightarrow> string \<Rightarrow> string \<Rightarrow> child_session option" where
  "lookup m r k = (case dict_get (cm_trees m) r of None \<Rightarrow> None | Some t \<Rightarrow> dict_get (t_sessions t) k)"

definition trees_ok :: "child_manager \<Rightarrow> bool" where
  "trees_ok m \<longleftrightarrow> (\<forall>r k s. lookup m r k = Some s \<longrightarrow> cs_session_id s = k \<and> cs_root_session_id s = r)"

text \<open>The same session, no earlier in its life cycle.\<close>

definition advances :: "child_session \<Rightarrow> child_session \<Rightarrow> bool" where
  "advances s s' \<longleftrightarrow>
     cs_session_id s' = cs_session_id s \<and> cs_root_session_id s' = cs_root_session_id s \<and>
     cs_parent_session_id s' = cs_parent_session_id s \<and> cs_agent_id s' = cs_agent_id s \<and>
     (cs_status s' = cs_status s \<and> cs_terminal_at s' = cs_terminal_at s
      \<or> status_rank (cs_status s) < status_rank (cs_status s'))"

definition manager_le :: "child_manager \<Rightarrow> child_manager \<Rightarrow> bool" where
  "manager_le m m' \<longleftrightarrow>
     (\<forall>r k s. lookup m r k = Some s \<longrightarrow> (\<exists>s'. lookup m' r k = Some s' \<and> advances s s'))"

definition in_place :: "child_session \<Rightarrow> child_manager \<Rightarrow> bool" where
  "in_place s m \<longleftrightarrow> lookup m (cs_root_session_id s) (cs_session_id s) = Some s"

lemma advances_refl [simp]: "advances s s"
  by (simp add: advances_def)

lemma advances_trans: "advances s t \<Longrightarrow> advances t u \<Longrightarrow> advances s u"
  by (auto simp: advances_def)

lemma advances_ids: "advances s s' \<Longrightarrow> cs_session_id s' = cs_session_id s \<and> cs_root_session_id s' = cs_root_session_id s"
  by (simp add: advances_def)

lemma manager_le_refl [simp]: "manager_le m m"
  by (auto simp: manager_le_def intro: exI [of _ "_ :: child_session"])

lemma manager_le_trans: "manager_le m m' \<Longrightarrow> manager_le m' m'' \<Longrightarrow> manager_le m m''"
  unfolding manager_le_def by (meson advances_trans)

lemma transition_advances: "transition now s st = Inr s' \<Longrightarrow> advances s s'"
proof -
  assume tr: "transition now s st = Inr s'"
  then have "cs_session_id s' = cs_session_id s \<and> cs_root_session_id s' = cs_root_session_id s \<and>
     cs_parent_session_id s' = cs_parent_session_id s \<and> cs_agent_id s' = cs_agent_id s"
    by (auto simp: transition_def Let_def split: if_splits)
  then show ?thesis using transition_rank [OF tr] by (auto simp: advances_def)
qed

lemma force_status_advances: "advances s (force_status now st s)"
  by (auto simp: force_status_def transition_advances split: sum.split)

section \<open>Operations that leave the trees alone\<close>

lemma emit_frame [frame_simps]:
  "cm_trees (emit env n p m) = cm_trees m" "cm_leases (emit env n p m) = cm_leases m"
  "cm_running (emit env n p m) = cm_running m" "cm_registry (emit env n p m) = cm_registry m"
  "cm_config (emit env n p m) = cm_config m" "cm_workspace_root (emit env n p m) = cm_workspace_root m"
  by (auto simp: emit_def Let_def split: option.split prod.split)

lemma lookup_cong: "cm_trees m' = cm_trees m \<Longrightarrow> lookup m' = lookup m"
  by (simp add: lookup_def fun_eq_iff)

lemma put_session_frame [frame_simps]:
  "cm_store (put_session s m) = cm_store m" "cm_leases (put_session s m) = cm_leases m"
  "cm_running (put_session s m) = cm_running m" "cm_workspace_root (put_session s m) = cm_workspace_root m"
  by (auto simp: put_session_def put_tree_def split: option.split)

lemma tree_for_frame [frame_simps]:
  "cm_store (snd (tree_for r m)) = cm_store m" "cm_leases (snd (tree_for r m)) = cm_leases m"
  "cm_running (snd (tree_for r m)) = cm_running m" "cm_workspace_root (snd (tree_for r m)) = cm_workspace_root m"
  by (auto simp: tree_for_def split: option.split)

lemma lookup_tree_for [simp]: "lookup (snd (tree_for r m)) r' k = lookup m r' k"
  by (auto simp: tree_for_def lookup_def new_tree_def split: option.split)

lemma lookup_put_session:
  "lookup m (cs_root_session_id s) (cs_session_id s) \<noteq> None \<Longrightarrow>
   lookup (put_session s m) r k =
     (if r = cs_root_session_id s \<and> k = cs_session_id s then Some s else lookup m r k)"
  by (auto simp: put_session_def put_tree_def lookup_def update_session_def split: option.splits)

lemma put_session_le:
  assumes "in_place s m" and "advances s s'"
  shows "manager_le m (put_session s' m)" and "in_place s' (put_session s' m)"
    and "trees_ok m \<Longrightarrow> trees_ok (put_session s' m)"
proof -
  have ids: "cs_session_id s' = cs_session_id s" "cs_root_session_id s' = cs_root_session_id s"
    using assms(2) by (simp_all add: advances_def)
  have lk: "lookup (put_session s' m) r k =
     (if r = cs_root_session_id s \<and> k = cs_session_id s then Some s' else lookup m r k)" for r k
    using assms(1) lookup_put_session [of m s' r k] by (simp add: ids in_place_def)
  show "manager_le m (put_session s' m)"
    using assms by (auto simp: manager_le_def lk in_place_def)
  show "in_place s' (put_session s' m)" by (simp add: in_place_def lk ids)
  show "trees_ok (put_session s' m)" if "trees_ok m"
    using that ids by (auto simp: trees_ok_def lk split: if_splits)
qed

lemma same_trees:
  assumes "cm_trees m' = cm_trees m"
  shows "manager_le m m'" and "trees_ok m' = trees_ok m" and "in_place s m' = in_place s m"
  using lookup_cong [OF assms] by (auto simp: manager_le_def trees_ok_def in_place_def)

lemma find_in_trees_lookup:
  "find_in_trees (map snd d) sid = Some s \<Longrightarrow> dict_wf d \<Longrightarrow>
   \<exists>r t. dict_get d r = Some t \<and> dict_get (t_sessions t) sid = Some s"
proof (induction d)
  case Nil
  then show ?case by simp
next
  case (Cons p d)
  obtain r t where p: "p = (r, t)" by (cases p)
  show ?case
  proof (cases "dict_get (t_sessions t) sid")
    case (Some x)
    then show ?thesis using Cons.prems p by (auto simp: dict_get_def)
  next
    case None
    then obtain r' t' where r': "dict_get d r' = Some t'" "dict_get (t_sessions t') sid = Some s"
      using Cons p by (auto simp: dict_wf_def)
    moreover have "r' \<noteq> r" using r'(1) Cons.prems(2) p by (force simp: dict_wf_def dest: dict_get_SomeD)
    ultimately show ?thesis using p by (intro exI [of _ r'] exI [of _ t']) (simp add: dict_get_def)
  qed
qed

lemma find_session_in_place:
  assumes "trees_ok m" and "dict_wf (cm_trees m)" and "find_session m sid = Some s"
  shows "in_place s m \<and> cs_session_id s = sid"
proof -
  obtain r t where "dict_get (cm_trees m) r = Some t" "dict_get (t_sessions t) sid = Some s"
    using assms(2,3) find_in_trees_lookup [of "cm_trees m" sid s]
    by (auto simp: find_session_def manager_trees_def dict_values_def split: if_splits)
  then have "lookup m r sid = Some s" by (simp add: lookup_def)
  then show ?thesis using assms(1) unfolding trees_ok_def in_place_def by metis
qed

section \<open>The invariant on the trees\<close>

definition trees_inv :: "child_manager \<Rightarrow> bool" where
  "trees_inv m \<longleftrightarrow> trees_ok m \<and> dict_wf (cm_trees m)"

lemma put_session_wf: "dict_wf (cm_trees m) \<Longrightarrow> dict_wf (cm_trees (put_session s m))"
  by (auto simp: put_session_def put_tree_def dict_wf_set split: option.split)

lemma tree_for_wf: "dict_wf (cm_trees m) \<Longrightarrow> dict_wf (cm_trees (snd (tree_for r m)))"
  by (auto simp: tree_for_def dict_wf_set split: option.split)

lemma tree_for_get: "tree_for r m = (t, m') \<Longrightarrow> dict_get (cm_trees m') r = Some t"
  by (auto simp: tree_for_def split: option.splits)

text \<open>A step that keeps the trees in order and moves sessions forward only.\<close>

definition good :: "child_manager \<Rightarrow> child_manager \<Rightarrow> bool" where
  "good m m' \<longleftrightarrow> manager_le m m' \<and> (trees_inv m \<longrightarrow> trees_inv m')"

lemma good_refl [simp]: "good m m"
  by (simp add: good_def)

lemma good_trans: "good m m' \<Longrightarrow> good m' m'' \<Longrightarrow> good m m''"
  by (auto simp: good_def intro: manager_le_trans)

lemma good_same: "cm_trees m' = cm_trees m \<Longrightarrow> good m m'"
  using same_trees [of m' m] by (simp add: good_def trees_inv_def)

lemma good_put: "in_place s m \<Longrightarrow> advances s s' \<Longrightarrow> good m (put_session s' m)"
  using put_session_le [of s m s'] by (auto simp: good_def trees_inv_def put_session_wf)

lemma good_tree_for: "good m (snd (tree_for r m))"
  by (auto simp: good_def trees_inv_def manager_le_def trees_ok_def tree_for_wf)

lemma in_place_same: "cm_trees m' = cm_trees m \<Longrightarrow> in_place s m \<Longrightarrow> in_place s m'"
  using same_trees(3) by blast

lemma in_place_tree_for: "in_place s m \<Longrightarrow> in_place s (snd (tree_for r m))"
  by (simp add: in_place_def)

text \<open>The ways \<open>start_child\<close> and \<open>dispatch_begin\<close> can end.\<close>

lemma start_child_cases:
  obtains (unchanged) res where "start_child env req s d m = (Finished res, m)"
  | (busy) s1 m1 res c msg where "transition (de_now env ''started'') s RUNNING = Inr s1"
      "m1 = snd (tree_for (cs_root_session_id s1) (put_session s1 m))"
      "start_child env req s d m = (Finished res, snd (fail_child env req s1 c msg m1))"
  | (no_lease) s1 m1 res c msg where "transition (de_now env ''started'') s RUNNING = Inr s1"
      "m1 = snd (tree_for (cs_root_session_id s1) (put_session s1 m))"
      "start_child env req s d m = (Finished res, snd (fail_child env req s1 c msg
         (emit env EVENT_STARTED [(''session_id'', PStr (cs_session_id s1))] m1)))"
  | (suspended) s1 m1 m2 s2 lm s3 rt where "transition (de_now env ''started'') s RUNNING = Inr s1"
      "m1 = snd (tree_for (cs_root_session_id s1) (put_session s1 m))"
      "m2 = emit env EVENT_STARTED [(''session_id'', PStr (cs_session_id s1))] m1"
      "int (running_siblings m1 s1) < max_concurrent_children (ep_budget (cs_policy s1))"
      "lease_for env s1 (cm_leases m2) = Inr (s2, lm)"
      "s3 = s2\<lparr>cs_cancel_callback := Some (cs_session_id s2)\<rparr>"
      "start_child env req s d m = (Suspended (cs_session_id s3), (put_session s3 m2)\<lparr>cm_leases := lm,
         cm_running := dict_set (cs_session_id s3) (req, rt) (cm_running m2)\<rparr>)"
proof (cases "transition (de_now env ''started'') s RUNNING")
  case (Inl e)
  then show ?thesis by (intro unchanged) (simp add: start_child_def)
next
  case (Inr s1)
  define m1 where "m1 = snd (tree_for (cs_root_session_id s1) (put_session s1 m))"
  define m2 where "m2 = emit env EVENT_STARTED [(''session_id'', PStr (cs_session_id s1))] m1"
  note unfold = start_child_def Inr sum.case Let_def m1_def [symmetric] m2_def [symmetric]
  show ?thesis
  proof (cases "int (running_siblings m1 s1) \<ge> max_concurrent_children (ep_budget (cs_policy s1))")
    case True
    have "start_child env req s d m =
       (Finished (fst (fail_child env req s1 ''budget.concurrency''
          (concurrency_message (running_siblings m1 s1) (max_concurrent_children (ep_budget (cs_policy s1)))) m1)),
        snd (fail_child env req s1 ''budget.concurrency''
          (concurrency_message (running_siblings m1 s1) (max_concurrent_children (ep_budget (cs_policy s1)))) m1))"
      unfolding unfold using True by (simp add: split_beta)
    then show ?thesis by (rule busy [OF Inr m1_def])
  next
    case False
    show ?thesis
    proof (cases "lease_for env s1 (cm_leases m2)")
      case (Inl e)
      have "start_child env req s d m =
         (Finished (fst (fail_child env req s1 (workspace_error_code e) (workspace_error_message e) m2)),
          snd (fail_child env req s1 (workspace_error_code e) (workspace_error_message e) m2))"
        unfolding unfold using False Inl by (simp add: split_beta)
      then show ?thesis unfolding m2_def
        by (rule no_lease [OF \<open>transition (de_now env ''started'') s RUNNING = Inr s1\<close> m1_def])
    next
      case l: (Inr r)
      obtain s2 lm where r: "r = (s2, lm)" by (cases r)
      define s3 where "s3 = s2\<lparr>cs_cancel_callback := Some (cs_session_id s2)\<rparr>"
      have "start_child env req s d m = (Suspended (cs_session_id s3), (put_session s3 m2)\<lparr>cm_leases := lm,
         cm_running := dict_set (cs_session_id s3)
           (req, create_child_runtime (de_now_ms env) d s3 (cm_workspace_root m2)) (cm_running m2)\<rparr>)"
        unfolding unfold using False l r by (simp add: s3_def)
      moreover have "int (running_siblings m1 s1) < max_concurrent_children (ep_budget (cs_policy s1))"
        using False by simp
      ultimately show ?thesis using suspended [OF Inr m1_def m2_def _ _ s3_def] l r by blast
    qed
  qed
qed

text \<open>The manager once the new session is registered, announced and queued.\<close>

definition registered ::
  "dispatch_env \<Rightarrow> task_request \<Rightarrow> child_session \<Rightarrow> session_tree \<Rightarrow> child_manager \<Rightarrow> child_manager" where
  "registered env req s t m1 =
     (put_tree (cs_root_session_id s) t m1)
       \<lparr>cm_request_ids := dict_set (cs_session_id s) (tr_request_id req) (cm_request_ids m1),
        cm_requests := dict_set (cs_session_id s) req (cm_requests m1)\<rparr>"

definition announced :: "dispatch_env \<Rightarrow> task_request \<Rightarrow> child_session \<Rightarrow> child_manager \<Rightarrow> child_manager" where
  "announced env req s m2 =
     emit env EVENT_QUEUED [(''session_id'', PStr (cs_session_id s))]
      (put_session (force_status (de_now env ''queued'') QUEUED s)
       (emit env EVENT_CREATED
         [(''session_id'', PStr (cs_session_id s)), (''parent_session_id'', PStr (tr_parent_session_id req)),
          (''request_id'', PStr (tr_request_id req)), (''agent_id'', PStr (tr_agent_id req)),
          (''trigger'', PStr (trigger_value (tr_trigger req))),
          (''status'', PStr (child_status_value (cs_status s)))] m2))"

lemma dispatch_begin_cases:
  obtains (refused) e where "dispatch_begin env req m = (Inl e, m)"
  | (duplicate) e r where "dispatch_begin env req m = (Inl e, snd (tree_for r m))"
  | (admitted) d policy s t m1 t' where "admit m req = Inr (d, policy)" "s = new_child env m req d policy"
      "tree_for (cs_root_session_id s) m = (t, m1)" "tree_add s t = Inr t'"
      "dispatch_begin env req m =
         (Inr (fst (start_child env req (force_status (de_now env ''queued'') QUEUED s) d
                      (announced env req s (registered env req s t' m1)))),
          snd (start_child env req (force_status (de_now env ''queued'') QUEUED s) d
                 (announced env req s (registered env req s t' m1))))"
proof (cases "admit m req")
  case (Inl e)
  then show ?thesis by (intro refused) (simp add: dispatch_begin_def)
next
  case (Inr dp)
  obtain d policy where dp: "dp = (d, policy)" by (cases dp)
  define s where "s = new_child env m req d policy"
  obtain t m1 where t: "tree_for (cs_root_session_id s) m = (t, m1)" by (cases "tree_for (cs_root_session_id s) m")
  note unfold = dispatch_begin_def Inr dp sum.case prod.case s_def [symmetric] Let_def t
  show ?thesis
  proof (cases "tree_add s t")
    case (Inl e)
    have "dispatch_begin env req m = (Inl (SessionError e), snd (tree_for (cs_root_session_id s) m))"
      unfolding unfold using Inl by simp
    then show ?thesis by (rule duplicate)
  next
    case (Inr t')
    have "dispatch_begin env req m =
         (Inr (fst (start_child env req (force_status (de_now env ''queued'') QUEUED s) d
                      (announced env req s (registered env req s t' m1)))),
          snd (start_child env req (force_status (de_now env ''queued'') QUEUED s) d
                 (announced env req s (registered env req s t' m1))))"
      unfolding unfold Inr by (simp add: split_beta registered_def announced_def)
    then show ?thesis using admitted [OF _ s_def t Inr] \<open>admit m req = Inr dp\<close> dp by blast
  qed
qed

lemma announced_frame [frame_simps]:
  "cm_leases (announced env req s m) = cm_leases m" "cm_running (announced env req s m) = cm_running m"
  by (simp_all add: announced_def frame_simps)

lemma registered_frame [frame_simps]:
  "cm_leases (registered env req s t m) = cm_leases m" "cm_running (registered env req s t m) = cm_running m"
  "cm_store (registered env req s t m) = cm_store m"
  "cm_trees (registered env req s t m) = dict_set (cs_root_session_id s) t (cm_trees m)"
  by (simp_all add: registered_def put_tree_def)

section \<open>Starting a child\<close>

lemma fail_child_good: "in_place s m \<Longrightarrow> good m (snd (fail_child env req s code msg m))"
  unfolding fail_child_def Let_def snd_conv
  by (rule good_trans [OF good_put [OF _ force_status_advances]]) (auto intro: good_same simp: frame_simps)

lemma with_lease_advances: "advances s ((with_lease lid s)\<lparr>cs_cancel_callback := c\<rparr>)"
  by (simp add: advances_def with_lease_def)

lemma lease_for_advances: "lease_for env s lm = Inr (s', lm') \<Longrightarrow> advances s (s'\<lparr>cs_cancel_callback := c\<rparr>)"
  using with_lease_advances
  by (auto simp: lease_for_def Let_def split: if_splits sum.splits) (auto simp: advances_def)

lemma start_child_good:
  assumes "in_place s m"
  shows "good m (snd (start_child env req s d m))"
proof -
  have run: "good m m1" "in_place s1 m1"
    if "transition (de_now env ''started'') s RUNNING = Inr s1"
      "m1 = snd (tree_for (cs_root_session_id s1) (put_session s1 m))" for s1 m1
    using assms transition_advances [OF that(1)] that(2)
    by (auto intro: good_trans [OF good_put good_tree_for] in_place_tree_for put_session_le)
  have ev: "good m (emit env n p m1)" "in_place s1 (emit env n p m1)"
    if "good m m1" "in_place s1 m1" for n p m1 s1
    using that by (auto intro: good_trans [OF _ good_same] in_place_same simp: frame_simps)
  show ?thesis
  proof (cases rule: start_child_cases [of env req s d m])
    case (unchanged res)
    then show ?thesis by simp
  next
    case (busy s1 m1 res c msg)
    note r = run [OF busy(1,2)]
    show ?thesis unfolding busy(3) snd_conv by (rule good_trans [OF r(1) fail_child_good [OF r(2)]])
  next
    case (no_lease s1 m1 res c msg)
    note r = run [OF no_lease(1,2)]
    note e = ev [OF r]
    show ?thesis unfolding no_lease(3) snd_conv by (rule good_trans [OF e(1) fail_child_good [OF e(2)]])
  next
    case (suspended s1 m1 m2 s2 lm s3 rt)
    have m2: "good m m2" "in_place s1 m2" using ev [OF run [OF suspended(1,2)]] suspended(3) by simp_all
    have "advances s1 s3" using lease_for_advances [OF suspended(5)] suspended(6) by simp
    from good_trans [OF m2(1) good_put [OF m2(2) this]] show ?thesis
      unfolding suspended(7) snd_conv by (rule good_trans) (rule good_same, simp)
  qed
qed

lemma registered_good:
  assumes "tree_for (cs_root_session_id s) m = (t, m1)" and "tree_add s t = Inr t'"
  shows "good m (registered env req s t' m1)" and "in_place s (registered env req s t' m1)"
proof -
  let ?m2 = "registered env req s t' m1"
  have m1: "good m m1" using good_tree_for [of m "cs_root_session_id s"] assms(1) by simp
  have get1: "dict_get (cm_trees m1) (cs_root_session_id s) = Some t" using assms(1) by (rule tree_for_get)
  have t': "t_sessions t' = dict_set (cs_session_id s) s (t_sessions t)"
    "dict_get (t_sessions t) (cs_session_id s) = None"
    using assms(2) by (auto simp: tree_add_def Let_def dict_has_def split: if_splits)
  have lk: "lookup ?m2 r k = (if r = cs_root_session_id s \<and> k = cs_session_id s then Some s else lookup m1 r k)" for r k
    using get1 t' by (auto simp: lookup_def frame_simps)
  have "lookup m1 (cs_root_session_id s) (cs_session_id s) = None"
    using get1 t'(2) by (simp add: lookup_def)
  then have "manager_le m1 ?m2" by (auto simp: manager_le_def lk)
  moreover have "trees_inv ?m2" if "trees_inv m1"
  proof -
    have "dict_wf (cm_trees ?m2)" using that by (simp add: trees_inv_def frame_simps dict_wf_set)
    moreover have "trees_ok ?m2" using that by (auto simp: trees_inv_def trees_ok_def lk)
    ultimately show ?thesis by (simp add: trees_inv_def)
  qed
  ultimately have "good m1 ?m2" by (simp add: good_def)
  then show "good m ?m2" by (rule good_trans [OF m1])
  show "in_place s ?m2" by (simp add: in_place_def lk)
qed

lemma announced_good:
  assumes "in_place s m"
  shows "good m (announced env req s m)"
    and "in_place (force_status (de_now env ''queued'') QUEUED s) (announced env req s m)"
proof -
  define m3 where "m3 = emit env EVENT_CREATED
         [(''session_id'', PStr (cs_session_id s)), (''parent_session_id'', PStr (tr_parent_session_id req)),
          (''request_id'', PStr (tr_request_id req)), (''agent_id'', PStr (tr_agent_id req)),
          (''trigger'', PStr (trigger_value (tr_trigger req))),
          (''status'', PStr (child_status_value (cs_status s)))] m"
  have m3: "good m m3" "in_place s m3"
    unfolding m3_def using assms by (auto intro: good_same in_place_same simp: frame_simps)
  have adv: "advances s (force_status (de_now env ''queued'') QUEUED s)" by (rule force_status_advances)
  note p = good_trans [OF m3(1) good_put [OF m3(2) adv]] put_session_le(2) [OF m3(2) adv]
  show "good m (announced env req s m)"
    unfolding announced_def m3_def [symmetric] by (rule good_trans [OF p(1) good_same]) (simp add: frame_simps)
  show "in_place (force_status (de_now env ''queued'') QUEUED s) (announced env req s m)"
    unfolding announced_def m3_def [symmetric] by (rule in_place_same [OF _ p(2)]) (simp add: frame_simps)
qed

lemma dispatch_begin_good: "good m (snd (dispatch_begin env req m))"
proof (cases rule: dispatch_begin_cases [of env req m])
  case (refused e)
  then show ?thesis by simp
next
  case (duplicate e r)
  then show ?thesis using good_tree_for by simp
next
  case (admitted d policy s t m1 t')
  note r = registered_good [OF admitted(3,4), of env req]
  note a = announced_good [OF r(2), of env req]
  show ?thesis unfolding admitted(5) snd_conv
    using good_trans [OF good_trans [OF r(1) a(1)] start_child_good [OF a(2)]] .
qed

section \<open>Finishing\<close>

definition concluded :: "dispatch_env \<Rightarrow> task_result \<Rightarrow> child_session \<Rightarrow> child_session" where
  "concluded env res s =
     (case transition (de_now env ''finalizing'') (s\<lparr>cs_result := Some res\<rparr>) FINALIZING of
        Inl _ \<Rightarrow> s\<lparr>cs_result := Some res\<rparr>
      | Inr s1 \<Rightarrow> force_status (de_now env ''terminal'') (status_from_result (res_status res)) s1)"

lemma concluded_advances: "advances s (concluded env res s)"
proof (cases "transition (de_now env ''finalizing'') (s\<lparr>cs_result := Some res\<rparr>) FINALIZING")
  case (Inl e)
  then show ?thesis by (simp add: concluded_def advances_def)
next
  case (Inr s1)
  have "advances s (s\<lparr>cs_result := Some res\<rparr>)" by (simp add: advances_def)
  then have "advances s s1" using transition_advances [OF Inr] by (rule advances_trans)
  then have "advances s (force_status (de_now env ''terminal'') (status_from_result (res_status res)) s1)"
    by (rule advances_trans [OF _ force_status_advances])
  then show ?thesis by (simp add: concluded_def Inr)
qed

lemma conclude_trees: "cm_trees (snd (conclude env req s res m)) = cm_trees (put_session (concluded env res s) m)"
  by (simp add: conclude_def Let_def concluded_def frame_simps)

lemma conclude_good: "in_place s m \<Longrightarrow> good m (snd (conclude env req s res m))"
  by (rule good_trans [OF good_put [OF _ concluded_advances] good_same [OF conclude_trees]])

lemma release_child_good: "good m (release_child sid m)"
  by (rule good_same) (simp add: release_child_def)

text \<open>The ways \<open>dispatch_finish\<close> can end.\<close>

lemma dispatch_finish_cases:
  obtains (absent) "dispatch_finish env sid arun m = (None, m)"
  | (raised) req rt s s' r msg rt' where "dict_get (cm_running m) sid = Some (req, rt)" "find_session m sid = Some s"
      "s' = force_status (de_now env ''failed'') FAILED s"
      "dispatch_finish env sid arun m = (Some r, release_child sid (put_session s' m))"
      "execute (de_str env) (de_fs env) (arun\<lparr>ag_token_cancelled := rt_cancelled rt \<or> ag_token_cancelled arun\<rparr>)
         (strip (tr_prompt req)) (rt\<lparr>rt_cancelled := False\<rparr>) = (Inl msg, rt')"
  | (returned) req rt s ocs res rt' where "dict_get (cm_running m) sid = Some (req, rt)" "find_session m sid = Some s"
      "execute (de_str env) (de_fs env) (arun\<lparr>ag_token_cancelled := rt_cancelled rt \<or> ag_token_cancelled arun\<rparr>)
         (strip (tr_prompt req)) (rt\<lparr>rt_cancelled := False\<rparr>) = (Inr (ocs, res), rt')"
      "dispatch_finish env sid arun m =
         (Some (fst (conclude env req s res m)), release_child sid (snd (conclude env req s res m)))"
proof (cases "dict_get (cm_running m) sid")
  case None
  then show ?thesis by (intro absent) (simp add: dispatch_finish_def)
next
  case p: (Some p)
  obtain req rt where rt: "p = (req, rt)" by (cases p)
  show ?thesis
  proof (cases "find_session m sid")
    case None
    then show ?thesis by (intro absent) (simp add: dispatch_finish_def p rt)
  next
    case s: (Some s)
    obtain r rt' where e: "execute (de_str env) (de_fs env)
        (arun\<lparr>ag_token_cancelled := rt_cancelled rt \<or> ag_token_cancelled arun\<rparr>)
        (strip (tr_prompt req)) (rt\<lparr>rt_cancelled := False\<rparr>) = (r, rt')"
      by (rule prod.exhaust)
    show ?thesis
    proof (cases r)
      case (Inl msg)
      show ?thesis
        by (rule raised [OF p [unfolded rt] s refl _ e [unfolded Inl]])
           (simp add: dispatch_finish_def p s rt e Inl Let_def)
    next
      case (Inr x)
      obtain ocs res where x: "x = (ocs, res)" by (cases x)
      show ?thesis
        by (rule returned [OF p [unfolded rt] s e [unfolded Inr x]])
           (simp add: dispatch_finish_def p s rt e Inr x split_beta)
    qed
  qed
qed

lemma dispatch_finish_good:
  assumes inv: "trees_inv m"
  shows "good m (snd (dispatch_finish env sid arun m))"
proof (cases rule: dispatch_finish_cases [of env sid arun m])
  case absent
  then show ?thesis by simp
next
  case (raised req rt s s' r msg rt')
  have "in_place s m" using find_session_in_place raised(2) inv by (auto simp: trees_inv_def)
  then have "good m (put_session s' m)" unfolding raised(3) by (rule good_put [OF _ force_status_advances])
  then show ?thesis unfolding raised(4) snd_conv by (rule good_trans [OF _ release_child_good])
next
  case (returned req rt s ocs res rt')
  have "in_place s m" using find_session_in_place returned(2) inv by (auto simp: trees_inv_def)
  then have "good m (snd (conclude env req s res m))" by (rule conclude_good)
  then show ?thesis unfolding returned(4) snd_conv by (rule good_trans [OF _ release_child_good])
qed

section \<open>Cancelling\<close>

definition tree_advances :: "session_tree \<Rightarrow> session_tree \<Rightarrow> bool" where
  "tree_advances t t' \<longleftrightarrow>
     (\<forall>k. case dict_get (t_sessions t) k of
            None \<Rightarrow> dict_get (t_sessions t') k = None
          | Some s \<Rightarrow> (\<exists>s'. dict_get (t_sessions t') k = Some s' \<and> advances s s'))"

lemma tree_advances_refl [simp]: "tree_advances t t"
  by (auto simp: tree_advances_def split: option.split)

lemma tree_advances_Some:
  "tree_advances t t' \<Longrightarrow> dict_get (t_sessions t) k = Some s \<Longrightarrow>
   \<exists>s'. dict_get (t_sessions t') k = Some s' \<and> advances s s'"
  unfolding tree_advances_def by (drule spec [of _ k]) simp

lemma tree_advances_None:
  "tree_advances t t' \<Longrightarrow> dict_get (t_sessions t) k = None \<Longrightarrow> dict_get (t_sessions t') k = None"
  unfolding tree_advances_def by (drule spec [of _ k]) simp

lemma tree_advances_back:
  "tree_advances t t' \<Longrightarrow> dict_get (t_sessions t') k = Some s' \<Longrightarrow>
   \<exists>s. dict_get (t_sessions t) k = Some s \<and> advances s s'"
  by (cases "dict_get (t_sessions t) k") (auto dest: tree_advances_None tree_advances_Some)

lemma tree_advances_trans:
  assumes "tree_advances t u" and "tree_advances u v"
  shows "tree_advances t v"
  unfolding tree_advances_def
proof
  fix k
  show "case dict_get (t_sessions t) k of None \<Rightarrow> dict_get (t_sessions v) k = None
      | Some s \<Rightarrow> (\<exists>s'. dict_get (t_sessions v) k = Some s' \<and> advances s s')"
  proof (cases "dict_get (t_sessions t) k")
    case None
    then show ?thesis using assms tree_advances_None by fastforce
  next
    case (Some s)
    then show ?thesis using assms by (auto dest!: tree_advances_Some intro: advances_trans)
  qed
qed

lemma cancel_self_advances: "tree_advances (fst st) (fst (cancel_self now sid st))"
proof (cases "dict_get (t_sessions (fst st)) sid")
  case None
  then show ?thesis by (simp add: cancel_self_def)
next
  case (Some s)
  show ?thesis
  proof (cases "transition now s CANCELLED")
    case (Inl e)
    then show ?thesis using Some by (simp add: cancel_self_def)
  next
    case (Inr s')
    then have "tree_advances (fst st) (update_session sid s' (fst st))"
      using Some transition_advances [OF Inr]
      by (auto simp: tree_advances_def update_session_def split: option.split)
    then show ?thesis using Some Inr by (simp add: cancel_self_def)
  qed
qed

lemma cancel_advances:
  "cancel_session n now sid st = Some (Inr st') \<Longrightarrow> tree_advances (fst st) (fst st')"
  "cancel_sessions n now cs st = Some (Inr st') \<Longrightarrow> tree_advances (fst st) (fst st')"
proof (induction n now sid st and n now cs st arbitrary: st' and st' rule: cancel_session_cancel_sessions.induct)
  case (2 n now sid st)
  then obtain s st1 where "tree_get (fst st) sid = Inr s"
    and st1: "cancel_sessions n now (map cs_session_id (get_children (fst st) sid)) st = Some (Inr st1)"
    "st' = cancel_self now sid st1"
    by (auto split: sum.splits option.splits)
  have "tree_advances (fst st) (fst st1)" using "2.IH" \<open>tree_get (fst st) sid = Inr s\<close> st1(1) by blast
  then show ?case unfolding st1(2) by (rule tree_advances_trans [OF _ cancel_self_advances])
next
  case (4 n now c cs st)
  then obtain st1 where "cancel_session n now c st = Some (Inr st1)" "cancel_sessions n now cs st1 = Some (Inr st')"
    by (auto split: sum.splits option.splits)
  then show ?case using "4.IH" by (blast intro: tree_advances_trans)
qed auto

lemma good_put_tree:
  assumes get: "dict_get (cm_trees m) r = Some t" and adv: "tree_advances t t'"
  shows "good m (put_tree r t' m)"
proof -
  have lk: "lookup (put_tree r t' m) r' k = (if r' = r then dict_get (t_sessions t') k else lookup m r' k)" for r' k
    by (simp add: lookup_def put_tree_def)
  have old: "lookup m r k = dict_get (t_sessions t) k" for k using get by (simp add: lookup_def)
  have "manager_le m (put_tree r t' m)"
    unfolding manager_le_def
  proof (intro allI impI)
    fix r' k s assume s: "lookup m r' k = Some s"
    show "\<exists>s'. lookup (put_tree r t' m) r' k = Some s' \<and> advances s s'"
    proof (cases "r' = r")
      case True
      then show ?thesis using s old tree_advances_Some [OF adv] by (simp add: lk)
    next
      case False
      then show ?thesis using s by (simp add: lk)
    qed
  qed
  moreover have "trees_ok (put_tree r t' m)" if ok: "trees_ok m"
    unfolding trees_ok_def
  proof (intro allI impI)
    fix r' k s' assume s': "lookup (put_tree r t' m) r' k = Some s'"
    show "cs_session_id s' = k \<and> cs_root_session_id s' = r'"
    proof (cases "r' = r")
      case True
      then have "dict_get (t_sessions t') k = Some s'" using s' by (simp add: lk)
      then obtain s where "dict_get (t_sessions t) k = Some s" "advances s s'"
        using tree_advances_back [OF adv] by blast
      then show ?thesis using ok old True advances_ids unfolding trees_ok_def by metis
    next
      case False
      then show ?thesis using s' ok by (simp add: lk trees_ok_def)
    qed
  qed
  moreover have "dict_wf (cm_trees (put_tree r t' m))" if "dict_wf (cm_trees m)"
    using that by (simp add: put_tree_def dict_wf_set)
  ultimately show ?thesis by (simp add: good_def trees_inv_def)
qed

lemma announce_frame [frame_simps]:
  "cm_trees (announce_cancelled env ab s m) = cm_trees m"
  "cm_running (announce_cancelled env ab s m) = cm_running m"
  by (simp_all add: announce_cancelled_def Let_def frame_simps)

lemma fold_announce_frame [frame_simps]:
  "cm_trees (fold (announce_cancelled env ab) ss m) = cm_trees m"
  "cm_running (fold (announce_cancelled env ab) ss m) = cm_running m"
  by (induction ss arbitrary: m) (simp_all add: frame_simps)

lemma cancel_runtimes_frame [frame_simps]:
  "cm_trees (cancel_runtimes cbs m) = cm_trees m" "cm_store (cancel_runtimes cbs m) = cm_store m"
  "cm_leases (cancel_runtimes cbs m) = cm_leases m"
  by (simp_all add: cancel_runtimes_def)

text \<open>The shape of a cancellation.\<close>

lemma cancel_in_manager_cases:
  obtains (fail) e where "cancel_in_manager env rid target m = (Inl e, snd (tree_for rid m))"
  | (cancelled) t t' cbs where "dict_get (cm_trees (snd (tree_for rid m))) rid = Some t" "tree_advances t t'"
      "cancel_in_manager env rid target m =
         (Inr (), fold (announce_cancelled env (map cs_session_id (list_active t))) (list_all_sessions t')
                    (cancel_runtimes cbs (put_tree rid t' (snd (tree_for rid m)))))"
proof -
  obtain t m1 where t: "tree_for rid m = (t, m1)" by (cases "tree_for rid m")
  let ?c = "case target of
       Some sid \<Rightarrow> cancel_session (Suc (tree_len t)) (de_now env ''cancel'') sid (t, [])
     | None \<Rightarrow> cancel_all (Suc (tree_len t)) (de_now env ''cancel'') (t, [])"
  show ?thesis
  proof (cases ?c)
    case None
    then show ?thesis using t fail by (simp add: cancel_in_manager_def Let_def)
  next
    case (Some r)
    show ?thesis
    proof (cases r)
      case (Inl e)
      then show ?thesis using t Some fail by (simp add: cancel_in_manager_def Let_def)
    next
      case (Inr st')
      obtain t' cbs where st': "st' = (t', cbs)" by (cases st')
      have "tree_advances t t'"
      proof (cases target)
        case None
        then have "cancel_sessions (Suc (tree_len t)) (de_now env ''cancel'')
            (map cs_session_id (get_children t (tree_root t))) (t, []) = Some (Inr (t', cbs))"
          using Some Inr st' by (simp add: cancel_all_def)
        from cancel_advances(2) [OF this] show ?thesis by simp
      next
        case target: (Some sid)
        have "cancel_session (Suc (tree_len t)) (de_now env ''cancel'') sid (t, []) = Some (Inr (t', cbs))"
          using Some Inr st' target by (simp only: option.case)
        from cancel_advances(1) [OF this] show ?thesis by simp
      qed
      moreover have "dict_get (cm_trees m1) rid = Some t" using t by (rule tree_for_get)
      ultimately show ?thesis using t Some Inr st' cancelled by (simp add: cancel_in_manager_def Let_def)
    qed
  qed
qed

lemma cancel_in_manager_good: "good m (snd (cancel_in_manager env rid target m))"
proof (cases rule: cancel_in_manager_cases [of env rid target m])
  case (fail e)
  then show ?thesis using good_tree_for by simp
next
  case (cancelled t t' cbs)
  have "good m (put_tree rid t' (snd (tree_for rid m)))"
    using good_trans [OF good_tree_for good_put_tree [OF cancelled(1,2)]] .
  then show ?thesis unfolding cancelled(3) snd_conv
    by (rule good_trans) (rule good_same, simp add: frame_simps)
qed

section \<open>Leases belong to children in flight\<close>

definition leases_ok :: "child_manager \<Rightarrow> bool" where
  "leases_ok m \<longleftrightarrow> list_all (\<lambda>(k, l). dict_has (cm_running m) (ls_session_id l)) (lm_leases (cm_leases m))"

lemma leases_ok_same:
  "cm_leases m' = cm_leases m \<Longrightarrow> cm_running m' = cm_running m \<Longrightarrow> leases_ok m' = leases_ok m"
  by (simp add: leases_ok_def)

lemma set_fold_dict_set: "p \<in> set (fold (\<lambda>k. dict_set k v) ks d) \<Longrightarrow> p \<in> set d \<or> snd p = v"
proof (induction ks arbitrary: d)
  case Nil
  then show ?case by simp
next
  case (Cons k ks)
  have "set (dict_set k v d) \<subseteq> set d \<union> {(k, v)}"
    by (induction k v d rule: dict_set.induct) auto
  then show ?case using Cons by fastforce
qed

lemma lease_for_leases:
  assumes "lease_for env s lm = Inr (s', lm')" and "(k, l) \<in> set (lm_leases lm')"
  shows "(k, l) \<in> set (lm_leases lm) \<or> ls_session_id l = cs_session_id s"
proof (cases "ws_mode (ep_workspace (cs_policy s)) = LEASED_WRITE")
  case False
  then show ?thesis using assms by (simp add: lease_for_def Let_def)
next
  case True
  then obtain l0 where acq: "lm_acquire (de_fs env) (de_lease_uuid env) (de_now env ''lease'') (cs_session_id s)
      (ws_leased_paths (ep_workspace (cs_policy s))) None lm = Inr (l0, lm')"
    using assms(1) by (auto simp: lease_for_def Let_def split: if_splits sum.splits)
  show ?thesis using set_fold_dict_set [of "(k, l)" l0] assms(2) lm_acquire_cases(2,6) [OF acq] by auto
qed

lemma lease_for_id: "lease_for env s lm = Inr (s', lm') \<Longrightarrow> cs_session_id s' = cs_session_id s"
  using lease_for_advances [of env s lm s' lm' None] by (auto simp: advances_def)

lemma fail_child_frame [frame_simps]:
  "cm_leases (snd (fail_child env req s c msg m)) = cm_leases m"
  "cm_running (snd (fail_child env req s c msg m)) = cm_running m"
  by (simp_all add: fail_child_def Let_def frame_simps)

lemma start_child_leases:
  assumes ok: "leases_ok m"
  shows "leases_ok (snd (start_child env req s d m))"
proof (cases rule: start_child_cases [of env req s d m])
  case (suspended s1 m1 m2 s2 lm s3 rt)
  have same: "cm_leases m2 = cm_leases m" "cm_running m2 = cm_running m"
    using suspended(2,3) by (simp_all add: frame_simps)
  have id: "cs_session_id s3 = cs_session_id s1" using lease_for_id [OF suspended(5)] suspended(6) by simp
  have "dict_has (dict_set (cs_session_id s3) (req, rt) (cm_running m)) (ls_session_id l)"
    if "(k, l) \<in> set (lm_leases lm)" for k l
    using lease_for_leases [OF suspended(5) that] ok id unfolding same
    by (auto simp: leases_ok_def list_all_iff dict_has_def)
  then show ?thesis unfolding suspended(7) by (auto simp: leases_ok_def list_all_iff same)
qed (use ok in \<open>simp_all add: leases_ok_def frame_simps\<close>)

lemma release_subset:
  "p \<in> set (lm_leases (snd (lm_release_all_for_session sid lm))) \<longleftrightarrow>
     p \<in> set (lm_leases lm) \<and> ls_session_id (snd p) \<noteq> sid"
  by (cases p) (auto simp: lm_release_all_for_session_def lm_drop_def)

lemma release_child_leases: "leases_ok m \<Longrightarrow> leases_ok (release_child sid m)"
proof -
  assume ok: "leases_ok m"
  have "dict_has (dict_del sid (cm_running m)) (ls_session_id l)"
    if "(k, l) \<in> set (lm_leases (snd (lm_release_all_for_session sid (cm_leases m))))" for k l
    using that ok by (auto simp: release_subset leases_ok_def list_all_iff dict_has_def)
  then show ?thesis by (auto simp: leases_ok_def release_child_def list_all_iff)
qed

lemma conclude_frame [frame_simps]:
  "cm_leases (snd (conclude env req s res m)) = cm_leases m"
  "cm_running (snd (conclude env req s res m)) = cm_running m"
  by (simp_all add: conclude_def Let_def frame_simps)

lemma dispatch_finish_leases:
  assumes ok: "leases_ok m"
  shows "leases_ok (snd (dispatch_finish env sid arun m))"
proof (cases rule: dispatch_finish_cases [of env sid arun m])
  case absent
  then show ?thesis using ok by simp
next
  case (raised req rt s s' r msg rt')
  have "leases_ok (put_session s' m)" using ok by (simp add: leases_ok_def frame_simps)
  then show ?thesis unfolding raised(4) snd_conv by (rule release_child_leases)
next
  case (returned req rt s ocs res rt')
  have "leases_ok (snd (conclude env req s res m))" using ok by (simp add: leases_ok_def frame_simps)
  then show ?thesis unfolding returned(4) snd_conv by (rule release_child_leases)
qed

lemma dispatch_begin_leases:
  assumes ok: "leases_ok m"
  shows "leases_ok (snd (dispatch_begin env req m))"
proof (cases rule: dispatch_begin_cases [of env req m])
  case (admitted d policy s t m1 t')
  have "cm_leases m1 = cm_leases m" "cm_running m1 = cm_running m"
    using tree_for_frame(2,3) [of "cs_root_session_id s" m] admitted(3) by simp_all
  then have "leases_ok (announced env req s (registered env req s t' m1))"
    using ok by (simp add: leases_ok_def frame_simps)
  then show ?thesis unfolding admitted(5) snd_conv by (rule start_child_leases)
qed (use ok in \<open>simp_all add: leases_ok_def frame_simps\<close>)

lemma announce_leases: "leases_ok m \<Longrightarrow> leases_ok (announce_cancelled env ab s m)"
proof -
  assume ok: "leases_ok m"
  then have "dict_has (cm_running m) (ls_session_id l)"
    if "(k, l) \<in> set (lm_leases (snd (lm_release_all_for_session sid (cm_leases m))))" for k l sid
    using that by (auto simp: release_subset leases_ok_def list_all_iff)
  then show ?thesis using ok by (auto simp: announce_cancelled_def Let_def frame_simps leases_ok_def list_all_iff)
qed

lemma fold_announce_leases: "leases_ok m \<Longrightarrow> leases_ok (fold (announce_cancelled env ab) ss m)"
  by (induction ss arbitrary: m) (simp_all add: announce_leases)

lemma cancel_runtimes_keys: "dict_has (cm_running (cancel_runtimes cbs m)) k = dict_has (cm_running m) k"
proof -
  have "fst ` set (cm_running (cancel_runtimes cbs m)) = fst ` set (cm_running m)"
    by (force simp: cancel_runtimes_def image_iff)
  then show ?thesis by (simp add: dict_has_iff dict_keys_def)
qed

lemma cancel_leases: "leases_ok m \<Longrightarrow> leases_ok (snd (cancel_in_manager env rid target m))"
proof (cases rule: cancel_in_manager_cases [of env rid target m])
  case (fail e)
  assume "leases_ok m"
  then show ?thesis using fail by (simp add: leases_ok_def frame_simps)
next
  case (cancelled t t' cbs)
  assume ok: "leases_ok m"
  have "leases_ok (cancel_runtimes cbs (put_tree rid t' (snd (tree_for rid m))))"
    using ok by (simp add: leases_ok_def cancel_runtimes_keys frame_simps put_tree_def)
  then show ?thesis unfolding cancelled(3) snd_conv by (rule fold_announce_leases)
qed

section \<open>One terminal event for a session\<close>

definition terminal_events :: "event_store \<Rightarrow> string \<Rightarrow> nat" where
  "terminal_events st sid = length (filter (\<lambda>e. ev_session_id e = sid \<and> is_terminal_event e) (es_events st))"

definition store_ok :: "event_store option \<Rightarrow> bool" where
  "store_ok ost = (case ost of None \<Rightarrow> True | Some st \<Rightarrow> \<forall>sid. terminal_events st sid \<le> 1)"

lemma terminal_events_zero: "terminal_events st sid = 0 \<longleftrightarrow> \<not> has_terminal_event st sid"
  by (simp add: terminal_events_def has_terminal_event_def list_ex_iff filter_eq_Nil_conv)

lemma session_event_fields [simp]:
  "ev_session_id (session_event env n p m) = payload_text p ''session_id'' []"
  "ev_event_name (session_event env n p m) = n"
  by (simp_all add: session_event_def Let_def build_event_def)

lemma emit_store_ok:
  assumes ok: "store_ok (cm_store m)"
  shows "store_ok (cm_store (emit env n p m))"
proof (cases "cm_store m")
  case None
  then show ?thesis using ok by (simp add: emit_def store_ok_def)
next
  case (Some st)
  let ?sid = "payload_text p ''session_id'' []" and ?e = "session_event env n p m"
  show ?thesis
  proof (cases "n \<in> set TERMINAL_EVENTS \<and> has_terminal_event st ?sid")
    case True
    then show ?thesis using ok Some by (simp add: emit_def)
  next
    case False
    have "terminal_events (snd (store_append ?e st)) sid \<le> 1" for sid
    proof (cases "dict_get (es_by_id st) (ev_event_id ?e)")
      case None
      have ev: "es_events (snd (store_append ?e st)) = es_events st @ [?e\<lparr>ev_seq := es_next_seq st\<rparr>]"
        using None by (simp add: store_append_def Let_def)
      have "terminal_events st sid \<le> 1" using ok Some by (simp add: store_ok_def)
      moreover have "terminal_events st sid = 0" if "sid = ?sid" "n \<in> set TERMINAL_EVENTS"
        using that False by (simp add: terminal_events_zero)
      ultimately show ?thesis
        by (auto simp: terminal_events_def ev length_filter_snoc is_terminal_event_def)
    next
      case (Some old)
      then show ?thesis using ok \<open>cm_store m = Some st\<close> by (simp add: store_append_def store_ok_def)
    qed
    then show ?thesis using Some False by (auto simp: emit_def Let_def split_beta store_ok_def)
  qed
qed

lemma fail_child_store_ok: "store_ok (cm_store m) \<Longrightarrow> store_ok (cm_store (snd (fail_child env req s c msg m)))"
  by (simp add: fail_child_def Let_def emit_store_ok frame_simps)

lemma start_child_store_ok:
  assumes ok: "store_ok (cm_store m)"
  shows "store_ok (cm_store (snd (start_child env req s d m)))"
proof (cases rule: start_child_cases [of env req s d m])
  case (suspended s1 m1 m2 s2 lm s3 rt)
  have "store_ok (cm_store m2)" using ok suspended(2,3) by (simp add: emit_store_ok frame_simps)
  then show ?thesis unfolding suspended(7) by (simp add: frame_simps)
next
  case (no_lease s1 m1 res c msg)
  have "store_ok (cm_store m1)" using ok no_lease(2) by (simp add: frame_simps)
  then show ?thesis unfolding no_lease(3) snd_conv by (intro fail_child_store_ok emit_store_ok)
next
  case (busy s1 m1 res c msg)
  have "store_ok (cm_store m1)" using ok busy(2) by (simp add: frame_simps)
  then show ?thesis unfolding busy(3) snd_conv by (rule fail_child_store_ok)
qed (use ok in simp)

lemma dispatch_begin_store_ok:
  assumes ok: "store_ok (cm_store m)"
  shows "store_ok (cm_store (snd (dispatch_begin env req m)))"
proof (cases rule: dispatch_begin_cases [of env req m])
  case (admitted d policy s t m1 t')
  have "cm_store m1 = cm_store m"
    using tree_for_frame(1) [of "cs_root_session_id s" m] admitted(3) by simp
  then have "store_ok (cm_store (announced env req s (registered env req s t' m1)))"
    using ok by (simp add: announced_def emit_store_ok frame_simps)
  then show ?thesis unfolding admitted(5) snd_conv by (rule start_child_store_ok)
qed (use ok in \<open>simp_all add: frame_simps\<close>)

lemma dispatch_finish_store_ok:
  assumes ok: "store_ok (cm_store m)"
  shows "store_ok (cm_store (snd (dispatch_finish env sid arun m)))"
proof (cases rule: dispatch_finish_cases [of env sid arun m])
  case (returned req rt s ocs res rt')
  have "store_ok (cm_store (snd (conclude env req s res m)))"
    using ok by (simp add: conclude_def Let_def emit_store_ok frame_simps)
  then show ?thesis unfolding returned(4) by (simp add: release_child_def)
qed (use ok in \<open>simp_all add: release_child_def frame_simps\<close>)

lemma announce_store_ok: "store_ok (cm_store m) \<Longrightarrow> store_ok (cm_store (announce_cancelled env ab s m))"
  by (simp add: announce_cancelled_def Let_def emit_store_ok)

lemma fold_announce_store_ok:
  "store_ok (cm_store m) \<Longrightarrow> store_ok (cm_store (fold (announce_cancelled env ab) ss m))"
  by (induction ss arbitrary: m) (simp_all add: announce_store_ok)

lemma cancel_store_ok:
  assumes ok: "store_ok (cm_store m)"
  shows "store_ok (cm_store (snd (cancel_in_manager env rid target m)))"
proof (cases rule: cancel_in_manager_cases [of env rid target m])
  case (fail e)
  then show ?thesis using ok by (simp add: frame_simps)
next
  case (cancelled t t' cbs)
  show ?thesis unfolding cancelled(3) snd_conv
    using ok by (intro fold_announce_store_ok) (simp add: frame_simps put_tree_def)
qed

section \<open>The manager as a machine\<close>

definition manager_inv :: "child_manager \<Rightarrow> bool" where
  "manager_inv m \<longleftrightarrow> trees_inv m \<and> leases_ok m \<and> store_ok (cm_store m)"

interpretation manager: ordered_machine manager_step manager_inv manager_le
proof
  fix m c assume inv: "manager_inv m"
  have good: "good m (manager_step m c)"
    using inv by (cases c) (auto simp: manager_inv_def dispatch_begin_good dispatch_finish_good cancel_in_manager_good)
  then show "manager_inv (manager_step m c)"
    using inv by (cases c)
      (auto simp: manager_inv_def good_def dispatch_begin_leases dispatch_begin_store_ok
        dispatch_finish_leases dispatch_finish_store_ok cancel_leases cancel_store_ok)
  show "manager_le m (manager_step m c)" using good by (simp add: good_def)
qed (auto intro: manager_le_trans)

definition start_manager :: "agent_registry \<Rightarrow> subagent_config \<Rightarrow> bool \<Rightarrow> child_manager" where
  "start_manager reg cfg persistent = new_manager reg cfg (Some (fresh_store persistent))"

lemma start_manager_inv: "manager_inv (start_manager reg cfg persistent)"
  by (simp add: manager_inv_def start_manager_def new_manager_def trees_inv_def trees_ok_def lookup_def
      leases_ok_def new_lease_manager_def store_ok_def terminal_events_def fresh_store_def new_store_def
      load_persisted_def sorted_files_def)

text \<open>
  C1. Under every interleaving of dispatches, completions and cancellations from a fresh
  manager: each write lease belongs to a child whose execution is still in flight, so no lease
  outlives its child, and no session gets more than one terminal event in the store, however
  its cancellation and its completion race.
\<close>

theorem no_orphan_lease_one_terminal_event:
  "let m = run manager_step (start_manager reg cfg persistent) cmds in
   list_all (\<lambda>(p, l). dict_has (cm_running m) (ls_session_id l)) (lm_leases (cm_leases m)) \<and>
   (case cm_store m of None \<Rightarrow> True | Some st \<Rightarrow> terminal_events st sid \<le> 1)"
proof -
  have "manager_inv (run manager_step (start_manager reg cfg persistent) cmds)"
    by (rule manager.run_inv [OF start_manager_inv])
  then show ?thesis by (auto simp: manager_inv_def leases_ok_def store_ok_def Let_def split: option.splits)
qed

text \<open>
  C2. Life cycles only move forward, across all interleavings: a session once registered stays
  in the tree of its root under its id, keeps its parent and agent, and its status either is
  the same or has advanced; so a session that is terminal keeps its status and its end time
  for ever.
\<close>

theorem sessions_move_forward:
  "let m = run manager_step (start_manager reg cfg persistent) cmds;
       m' = run manager_step (start_manager reg cfg persistent) (cmds @ later)
   in case lookup m r k of
        None \<Rightarrow> True
      | Some s \<Rightarrow>
          (case lookup m' r k of
             None \<Rightarrow> False
           | Some s' \<Rightarrow>
               cs_session_id s' = k \<and> cs_root_session_id s' = r \<and>
               cs_parent_session_id s' = cs_parent_session_id s \<and> cs_agent_id s' = cs_agent_id s \<and>
               (if is_terminal s then cs_status s' = cs_status s \<and> cs_terminal_at s' = cs_terminal_at s
                else status_rank (cs_status s) \<le> status_rank (cs_status s')))"
proof -
  define m where "m = run manager_step (start_manager reg cfg persistent) cmds"
  define m' where "m' = run manager_step (start_manager reg cfg persistent) (cmds @ later)"
  have le: "manager_le m m'" unfolding m_def m'_def by (rule manager.run_le_later [OF start_manager_inv])
  have inv: "manager_inv m" unfolding m_def by (rule manager.run_inv [OF start_manager_inv])
  have bound: "status_rank st \<le> 4" for st by (cases st) simp_all
  show ?thesis
  proof (cases "lookup m r k")
    case None
    then show ?thesis by (simp add: Let_def flip: m_def)
  next
    case (Some s)
    then obtain s' where s': "lookup m' r k = Some s'" "advances s s'"
      using le unfolding manager_le_def by blast
    have ids: "cs_session_id s = k \<and> cs_root_session_id s = r"
      using inv Some by (auto simp: manager_inv_def trees_inv_def trees_ok_def)
    have term4: "status_rank (cs_status s) = 4" if "is_terminal s"
      using that by (auto simp: is_terminal_def TERMINAL_STATES_def)
    have "if is_terminal s then cs_status s' = cs_status s \<and> cs_terminal_at s' = cs_terminal_at s
        else status_rank (cs_status s) \<le> status_rank (cs_status s')"
      using s'(2) term4 bound [of "cs_status s'"] by (auto simp: advances_def)
    then show ?thesis using Some s' ids
      unfolding m_def [symmetric] m'_def [symmetric] Let_def by (simp add: advances_def)
  qed
qed

section \<open>Completion\<close>

lemma concluded_running:
  assumes "cs_status s = RUNNING" and "st = res_status res" and "st \<in> {COMPLETED, FAILED, CANCELLED, TIMED_OUT}"
  shows "cs_status (concluded env res s) = st" and "cs_terminal_at (concluded env res s) = Some (de_now env ''terminal'')"
    and "cs_result (concluded env res s) = Some res"
  using assms
  by (auto simp: concluded_def transition_def force_status_def status_from_result_def Let_def TERMINAL_STATES_def)

lemma execution_status_values: "execution_status arun rt \<in> {COMPLETED, FAILED, CANCELLED, TIMED_OUT}"
  by (auto simp: execution_status_def Let_def split: run_end.splits)

text \<open>
  When the execution of a running child ends, its dispatch returns a terminal result with
  the request's id and the child's session id, the session in the tree has exactly the status
  of that result, its end time and the result itself, and no lease and no suspended call of the
  child remains.
\<close>

theorem completion_consistent:
  assumes "manager_inv m" and "dict_get (cm_running m) sid = Some (req, rt)"
    and "find_session m sid = Some s" and "cs_status s = RUNNING"
  shows "\<exists>res s'. fst (dispatch_finish env sid arun m) = Some res \<and>
     lookup (snd (dispatch_finish env sid arun m)) (cs_root_session_id s) sid = Some s' \<and>
     res_request_id res = tr_request_id req \<and> res_child_session_id res = sid \<and> result_is_terminal res \<and>
     cs_status s' = res_status res \<and> cs_terminal_at s' = Some (de_now env ''terminal'') \<and>
     map_option res_status (cs_result s') = Some (res_status res) \<and>
     list_all (\<lambda>(p, l). ls_session_id l \<noteq> sid) (lm_leases (cm_leases (snd (dispatch_finish env sid arun m)))) \<and>
     \<not> dict_has (cm_running (snd (dispatch_finish env sid arun m))) sid"
proof -
  have pl: "in_place s m" and id: "cs_session_id s = sid"
    using find_session_in_place assms(1,3) by (auto simp: manager_inv_def trees_inv_def)
  let ?ar = "arun\<lparr>ag_token_cancelled := rt_cancelled rt \<or> ag_token_cancelled arun\<rparr>"
  let ?rt = "rt\<lparr>rt_cancelled := False\<rparr>"
  show ?thesis
  proof (cases rule: dispatch_finish_cases [of env sid arun m])
    case absent
    obtain r rt' where "execute (de_str env) (de_fs env) ?ar (strip (tr_prompt req)) ?rt = (r, rt')"
      by (rule prod.exhaust)
    then show ?thesis using absent assms(2,3)
      by (cases r) (auto simp: dispatch_finish_def Let_def split_beta)
  next
    case (raised req' rt2 s2 s' r msg rt')
    have same: "req' = req" "rt2 = rt" using raised(1) assms(2) by simp_all
    show ?thesis
      using execute_spec [where so = "de_str env" and fs = "de_fs env" and arun = ?ar
          and task = "strip (tr_prompt req)" and rt = ?rt] raised(5) same by simp
  next
    case (returned req' rt2 s2 ocs res rt')
    have same: "req' = req" "rt2 = rt" "s2 = s" using returned(1,2) assms(2,3) by simp_all
    let ?m' = "release_child sid (snd (conclude env req s res m))"
    have st: "res_status res = execution_status ?ar ?rt" "result_is_terminal res"
      using execute_spec [where so = "de_str env" and fs = "de_fs env" and arun = ?ar and task = "strip (tr_prompt req)" and rt = ?rt] returned(3) same by auto
    then have vals: "res_status res \<in> {COMPLETED, FAILED, CANCELLED, TIMED_OUT}"
      using execution_status_values by simp
    note c = concluded_running [OF assms(4) refl vals, of env]
    have "in_place (concluded env res s) (put_session (concluded env res s) m)"
      by (rule put_session_le(2) [OF pl concluded_advances])
    moreover have "cm_trees ?m' = cm_trees (put_session (concluded env res s) m)"
      by (simp add: release_child_def conclude_trees)
    moreover have "cs_session_id (concluded env res s) = sid" "cs_root_session_id (concluded env res s) = cs_root_session_id s"
      using concluded_advances [of s env res] id by (simp_all add: advances_def)
    ultimately have lk: "lookup ?m' (cs_root_session_id s) sid = Some (concluded env res s)"
      by (simp add: in_place_def lookup_def)
    have "fst (conclude env req s res m) =
        res\<lparr>res_request_id := tr_request_id req, res_child_session_id := sid, res_status := res_status res\<rparr>"
      using vals id by (auto simp: conclude_def Let_def status_from_result_def)
    moreover have "list_all (\<lambda>(p, l). ls_session_id l \<noteq> sid) (lm_leases (cm_leases ?m'))"
      by (auto simp: list_all_iff release_child_def release_subset)
    moreover have "\<not> dict_has (cm_running ?m') sid" by (simp add: release_child_def dict_has_def)
    ultimately show ?thesis unfolding returned(4) same fst_conv snd_conv
      using lk c st(2) by (auto simp: result_is_terminal_def)
  qed
qed

definition sample_in_flight :: child_manager where
  "sample_in_flight = sample_dispatched\<lparr>cm_running :=
     [(''c'', (sample_request ''root'', create_child_runtime 0 (sample_definition ''general'' 2) sample_child None))]\<rparr>"

definition sample_run :: agent_run where
  "sample_run = \<lparr>ag_calls = [], ag_end = Answered ''done'', ag_token_cancelled = False, ag_input_tokens = 10,
     ag_output_tokens = 5, ag_cache_hit_tokens = 0, ag_evidence = [], ag_elapsed_ms = 20, ag_finished_ms = 20\<rparr>"

lemma sample_in_flight_inv: "manager_inv sample_in_flight"
  by (auto simp: manager_inv_def trees_inv_def trees_ok_def lookup_def leases_ok_def store_ok_def
      sample_in_flight_def sample_dispatched_def sample_manager_def new_manager_def new_lease_manager_def
      dict_wf_def dict_get_def sample_child_def sample_session_def create_child_session_def
      split: if_splits option.splits)

theorem completion_consistent_witness:
  "\<exists>res s'. fst (dispatch_finish sample_env ''c'' sample_run sample_in_flight) = Some res \<and>
     lookup (snd (dispatch_finish sample_env ''c'' sample_run sample_in_flight)) ''root'' ''c'' = Some s' \<and>
     res_request_id res = ''r1'' \<and> cs_status s' = res_status res"
proof -
  have "find_session sample_in_flight ''c'' = Some sample_child"
    by (simp add: find_session_def manager_trees_def sample_in_flight_def sample_dispatched_def
        dict_values_def dict_get_def)
  moreover have "dict_get (cm_running sample_in_flight) ''c'' = Some (sample_request ''root'',
      create_child_runtime 0 (sample_definition ''general'' 2) sample_child None)"
    by (simp add: sample_in_flight_def dict_get_def)
  moreover have "cs_status sample_child = RUNNING" "cs_root_session_id sample_child = ''root''"
    "tr_request_id (sample_request ''root'') = ''r1''"
    by (simp_all add: sample_child_def sample_request_def default_request_def)
  ultimately show ?thesis
    using completion_consistent [OF sample_in_flight_inv, of "''c''" _ _ sample_child sample_env sample_run]
    by fastforce
qed

end
