(* ===== verification/Manager_Cancel.thy ===== *)
theory Manager_Cancel
  imports Manager_Machine
begin

text \<open>
  Cancelling the whole tree of a Primary session ends every session in it and returns its
  leases; and the one way to build a tree that cannot be cancelled, a dispatch without a parent
  session.
\<close>

section \<open>Every session hangs below the root\<close>

definition rooted :: "session_tree \<Rightarrow> bool" where
  "rooted t \<longleftrightarrow> tree_wf t \<and> \<not> tree_contains t (tree_root t) \<and>
     (\<forall>(k, s) \<in> set (t_sessions t). parent_key t s = tree_root t \<or> tree_contains t (parent_key t s))"

lemma tree_wf_parent:
  assumes "tree_wf t" and "dict_get (t_sessions t) k = Some s"
  shows "k \<in> set (child_ids t (parent_key t s))"
  using assms dict_get_SomeD by (fastforce simp: tree_wf_def)

lemma rooted_descendant:
  assumes "rooted t" and "tree_contains t k"
  shows "\<exists>c \<in> set (child_ids t (tree_root t)). k \<in> descendants t c"
  using assms(2)
proof (induction "key_index t k" arbitrary: k rule: less_induct)
  case less
  have wf: "tree_wf t" using assms(1) by (simp add: rooted_def)
  obtain s where s: "dict_get (t_sessions t) k = Some s"
    using less.prems by (auto simp: tree_contains_def dict_has_def)
  let ?p = "parent_key t s"
  have child: "k \<in> set (child_ids t ?p)" by (rule tree_wf_parent [OF wf s])
  consider "?p = tree_root t" | "tree_contains t ?p"
    using assms(1) dict_get_SomeD [OF s] by (auto simp: rooted_def)
  then show ?case
  proof cases
    case 1
    then show ?thesis using child by (auto simp: descendants_def)
  next
    case 2
    have "key_index t ?p < key_index t k" using tree_wf_child [OF wf child] 2 by blast
    from less.hyps [OF this 2] obtain c where "c \<in> set (child_ids t (tree_root t))" "?p \<in> descendants t c" by blast
    moreover have "child_of t ?p k" using child by (simp add: child_of_def)
    ultimately show ?thesis by (auto simp: descendants_def intro: rtranclp.rtrancl_into_rtrancl)
  qed
qed

lemma cancel_all_rooted:
  assumes "rooted t" and "tree_len t \<le> n"
  shows "\<exists>t' cbs. cancel_all n now (t, []) = Some (Inr (t', cbs)) \<and> tree_wf t' \<and>
     (\<forall>k. dict_get (t_sessions t') k = map_option (cancelled now) (dict_get (t_sessions t) k))"
proof -
  have wf: "tree_wf t" using assms(1) by (simp add: rooted_def)
  let ?cs = "child_ids t (tree_root t)" and ?D = "\<Union>c \<in> set (child_ids t (tree_root t)). descendants t c"
  have ch: "tree_contains t c \<and> tree_len t \<le> n + key_index t c" if "c \<in> set ?cs" for c
    using tree_wf_child [OF wf that] assms(2) by (auto simp: tree_contains_def dict_has_def)
  obtain xs where "cancel_sessions n now ?cs (t, []) = Some (Inr (cancel_in now ?D t, xs))"
    using cancel_correct(2) [of "(t, [])" ?cs n now] wf ch by auto
  moreover have "dict_get (t_sessions (cancel_in now ?D t)) k = map_option (cancelled now) (dict_get (t_sessions t) k)" for k
  proof (cases "dict_get (t_sessions t) k")
    case None
    then show ?thesis by (simp add: cancel_in_get)
  next
    case (Some s)
    then have "k \<in> ?D" using rooted_descendant [OF assms(1), of k] by (simp add: tree_contains_def dict_has_def)
    then show ?thesis using Some by (simp add: cancel_in_get)
  qed
  moreover have "tree_wf (cancel_in now ?D t)" using wf by (rule cancel_in_wf)
  ultimately show ?thesis using wf by (auto simp: cancel_all_def get_children_ids)
qed

section \<open>Announcing returns the leases\<close>

lemma announce_lease_subset:
  "p \<in> set (lm_leases (cm_leases (fold (announce_cancelled env ab) ss m))) \<Longrightarrow> p \<in> set (lm_leases (cm_leases m))"
proof (induction ss arbitrary: m)
  case Nil
  then show ?case by simp
next
  case (Cons s ss)
  then have "p \<in> set (lm_leases (cm_leases (announce_cancelled env ab s m)))" by simp
  then show ?case by (auto simp: announce_cancelled_def Let_def release_subset frame_simps split: if_splits)
qed

lemma announce_releases:
  assumes "s \<in> set ss" and "cs_session_id s \<in> set ab" and "cs_status s = CANCELLED"
    and "(k, l) \<in> set (lm_leases (cm_leases (fold (announce_cancelled env ab) ss m)))"
  shows "ls_session_id l \<noteq> cs_session_id s"
  using assms
proof (induction ss arbitrary: m)
  case Nil
  then show ?case by simp
next
  case (Cons x ss)
  show ?case
  proof (cases "x = s")
    case True
    have "(k, l) \<in> set (lm_leases (cm_leases (announce_cancelled env ab s m)))"
      using Cons.prems(4) True announce_lease_subset by fastforce
    then show ?thesis using Cons.prems(2,3) by (simp add: announce_cancelled_def Let_def release_subset frame_simps)
  next
    case False
    then show ?thesis using Cons by simp
  qed
qed

text \<open>
  C3. Cancelling a root is complete: if every session of the tree hangs below the root, as
  dispatch builds it, the call succeeds, every session that was active is cancelled with its end
  time, sessions already terminal are as before, and no session of the tree that was active
  holds a lease any more.
\<close>

theorem cancel_root_complete:
  assumes "dict_get (cm_trees m) rid = Some t" and "rooted t"
  shows "fst (cancel_root env rid m) = Inr () \<and>
    lookup (snd (cancel_root env rid m)) rid k =
      map_option (\<lambda>s. if is_active s then s\<lparr>cs_status := CANCELLED, cs_terminal_at := Some (de_now env ''cancel'')\<rparr> else s)
        (lookup m rid k) \<and>
    list_all (\<lambda>(p, l). ls_session_id l \<notin> set (map cs_session_id (list_active t)))
      (lm_leases (cm_leases (snd (cancel_root env rid m))))"
proof -
  have tf: "tree_for rid m = (t, m)" using assms(1) by (simp add: tree_for_def)
  have wf: "tree_wf t" using assms(2) by (simp add: rooted_def)
  obtain t' cbs where c: "cancel_all (Suc (tree_len t)) (de_now env ''cancel'') (t, []) = Some (Inr (t', cbs))"
    and wf': "tree_wf t'"
    and get: "\<And>k. dict_get (t_sessions t') k = map_option (cancelled (de_now env ''cancel'')) (dict_get (t_sessions t) k)"
    using cancel_all_rooted [OF assms(2), of "Suc (tree_len t)" "de_now env ''cancel''"] by auto
  let ?ab = "map cs_session_id (list_active t)"
  let ?m' = "fold (announce_cancelled env ?ab) (list_all_sessions t') (cancel_runtimes cbs (put_tree rid t' m))"
  have r: "cancel_root env rid m = (Inr (), ?m')"
    by (simp add: cancel_root_def cancel_in_manager_def tf c Let_def)
  have "cm_trees ?m' = dict_set rid t' (cm_trees m)" by (simp add: frame_simps put_tree_def)
  then have lk: "lookup ?m' rid k = dict_get (t_sessions t') k" by (simp add: lookup_def)
  have "ls_session_id l \<notin> set ?ab" if l: "(p, l) \<in> set (lm_leases (cm_leases ?m'))" for p l
  proof
    assume "ls_session_id l \<in> set ?ab"
    then obtain s where s: "s \<in> set (list_active t)" "ls_session_id l = cs_session_id s" by auto
    then have act: "is_active s" and "s \<in> set (dict_values (t_sessions t))"
      by (simp_all add: list_active_def)
    moreover have "dict_wf (t_sessions t)" using wf by (simp add: tree_wf_def)
    ultimately obtain k where k: "dict_get (t_sessions t) k = Some s" using dict_values_get by metis
    let ?s' = "cancelled (de_now env ''cancel'') s"
    have "dict_get (t_sessions t') k = Some ?s'" using get [of k] k by simp
    then have "?s' \<in> set (list_all_sessions t')"
      by (simp add: list_all_sessions_def dict_get_in_values)
    moreover have "cs_session_id ?s' \<in> set ?ab" using s(1) by simp
    moreover have "cs_status ?s' = CANCELLED" using act by (simp add: cancelled_def)
    ultimately have "ls_session_id l \<noteq> cs_session_id ?s'" using l by (rule announce_releases)
    then show False using s(2) by simp
  qed
  moreover have "lookup m rid k = dict_get (t_sessions t) k" using assms(1) by (simp add: lookup_def)
  ultimately show ?thesis unfolding r fst_conv snd_conv lk get
    by (auto simp: list_all_iff cancelled_def intro: option.map_cong)
qed

lemma sample_dispatched_rooted:
  "rooted \<lparr>tree_root = ''root'', t_sessions = [(''c'', sample_child)], t_children = [(''root'', [''c''])]\<rparr>"
  by (simp add: rooted_def tree_wf_def dict_wf_def child_ids_def dict_get_or_def dict_get_def parent_key_def
      sample_child_def sample_session_def create_child_session_def default_request_def key_index_def
      dict_keys_def tree_contains_def dict_has_def)

theorem cancel_root_complete_witness:
  "fst (cancel_root sample_env ''root'' sample_in_flight) = Inr () \<and>
   (\<exists>s. lookup (snd (cancel_root sample_env ''root'' sample_in_flight)) ''root'' ''c'' = Some s \<and> cs_status s = CANCELLED)"
proof -
  have get: "dict_get (cm_trees sample_in_flight) ''root'' =
      Some \<lparr>tree_root = ''root'', t_sessions = [(''c'', sample_child)], t_children = [(''root'', [''c''])]\<rparr>"
    by (simp add: sample_in_flight_def sample_dispatched_def dict_get_def)
  have "lookup sample_in_flight ''root'' ''c'' = Some sample_child"
    unfolding lookup_def get option.case by (simp add: dict_get_def)
  moreover have "is_active sample_child" by (simp add: is_active_def ACTIVE_STATES_def sample_child_def)
  ultimately show ?thesis
    using cancel_root_complete [OF get sample_dispatched_rooted, of sample_env "''c''"] by auto
qed

section \<open>A dispatch without a parent session\<close>

text \<open>
  The session becomes the root of its own tree and is listed as its own child.
\<close>

definition self_rooted :: "string \<Rightarrow> child_manager \<Rightarrow> bool" where
  "self_rooted sid m \<longleftrightarrow>
     (\<exists>t s. dict_get (cm_trees m) sid = Some t \<and> t_children t = [(sid, [sid])] \<and>
            dict_get (t_sessions t) sid = Some s \<and> cs_session_id s = sid)"

lemma self_rooted_cong: "cm_trees m' = cm_trees m \<Longrightarrow> self_rooted sid m' = self_rooted sid m"
  by (simp add: self_rooted_def)

lemma self_rooted_emit [simp]: "self_rooted sid (emit env n p m) = self_rooted sid m"
  by (rule self_rooted_cong) (simp add: frame_simps)

lemma self_rooted_put:
  "self_rooted sid m \<Longrightarrow> cs_session_id s = sid \<Longrightarrow> cs_root_session_id s = sid \<Longrightarrow> self_rooted sid (put_session s m)"
  by (auto simp: self_rooted_def put_session_def put_tree_def update_session_def)

lemma self_rooted_tree_for: "self_rooted sid m \<Longrightarrow> self_rooted sid (snd (tree_for r m))"
  by (auto simp: self_rooted_def tree_for_def split: option.splits)

lemma self_rooted_never_cancels:
  assumes "t_children t = [(sid, [sid])]" and "dict_get (t_sessions t) sid = Some s" and "cs_session_id s = sid"
  shows "cancel_session n now sid (t, calls) = None"
proof (induction n)
  case 0
  show ?case by simp
next
  case (Suc n)
  have "map cs_session_id (get_children t sid) = [sid]"
    using assms by (simp add: get_children_def dict_get_or_def dict_get_def List.map_filter_simps)
  then show ?case using Suc assms(2) by (simp add: tree_get_def)
qed

lemma start_child_self_rooted:
  assumes r: "self_rooted sid m" and ids: "cs_session_id s = sid" "cs_root_session_id s = sid"
  shows "self_rooted sid (snd (start_child env req s d m))"
proof -
  have m1: "self_rooted sid m1 \<and> cs_session_id s1 = sid \<and> cs_root_session_id s1 = sid"
    if "transition (de_now env ''started'') s RUNNING = Inr s1"
      "m1 = snd (tree_for (cs_root_session_id s1) (put_session s1 m))" for s1 m1
  proof -
    have i: "cs_session_id s1 = sid" "cs_root_session_id s1 = sid"
      using transition_advances [OF that(1)] ids by (simp_all add: advances_def)
    show ?thesis unfolding that(2) using self_rooted_tree_for [OF self_rooted_put [OF r i]] i by simp
  qed
  have fail: "self_rooted sid (snd (fail_child env req s1 c msg m1))"
    if "self_rooted sid m1 \<and> cs_session_id s1 = sid \<and> cs_root_session_id s1 = sid" for s1 c msg m1
  proof -
    have "cs_session_id (force_status (de_now env ''failed'') FAILED s1) = sid"
      "cs_root_session_id (force_status (de_now env ''failed'') FAILED s1) = sid"
      using force_status_advances [of s1 "de_now env ''failed''" FAILED] that by (simp_all add: advances_def)
    then have "self_rooted sid (put_session (force_status (de_now env ''failed'') FAILED s1) m1)"
      using that by (intro self_rooted_put) simp_all
    then show ?thesis by (simp add: fail_child_def Let_def)
  qed
  show ?thesis
  proof (cases rule: start_child_cases [of env req s d m])
    case (unchanged res)
    then show ?thesis using r by simp
  next
    case (busy s1 m1 res c msg)
    then show ?thesis using fail [OF m1 [OF busy(1,2)]] by simp
  next
    case (no_lease s1 m1 res c msg)
    show ?thesis unfolding no_lease(3) snd_conv using m1 [OF no_lease(1,2)] by (intro fail) simp
  next
    case (suspended s1 m1 m2 s2 lm s3 rt)
    note p = m1 [OF suspended(1,2)]
    have "advances s1 s3" using lease_for_advances [OF suspended(5)] suspended(6) by simp
    then have "self_rooted sid (put_session s3 m2)"
      using p suspended(3) by (intro self_rooted_put) (simp_all add: advances_def)
    then show ?thesis unfolding suspended(7) by (simp add: self_rooted_def)
  qed
qed

lemma dispatch_without_parent:
  assumes "tr_parent_session_id req = []" and "admit m req = Inr (d, policy)"
    and "dict_get (cm_trees m) (cs_session_id (new_child env m req d policy)) = None"
  shows "self_rooted (cs_session_id (new_child env m req d policy)) (snd (dispatch_begin env req m))"
proof -
  define s where "s = new_child env m req d policy"
  have s: "cs_parent_session_id s = []" "cs_root_session_id s = cs_session_id s"
    using assms(1) by (simp_all add: s_def new_child_def Let_def create_child_session_def root_for_parent_def find_session_def)
  let ?sid = "cs_session_id s"
  define t' where "t' = \<lparr>tree_root = ?sid, t_sessions = [(?sid, s)], t_children = [(?sid, [?sid])]\<rparr>"
  define m1 where "m1 = m\<lparr>cm_trees := dict_set ?sid (new_tree ?sid) (cm_trees m)\<rparr>"
  have t: "tree_for (cs_root_session_id s) m = (new_tree ?sid, m1)"
    using assms(3) by (simp add: tree_for_def s(2) m1_def flip: s_def)
  have add: "tree_add s (new_tree ?sid) = Inr t'"
    by (simp add: tree_add_def new_tree_def dict_has_def parent_key_def s(1) Let_def t'_def dict_get_or_def)
  have "self_rooted ?sid (registered env req s t' m1)"
    by (simp add: self_rooted_def frame_simps s(2) t'_def dict_get_def [of "[_]"])
  moreover have q: "cs_session_id (force_status (de_now env ''queued'') QUEUED s) = ?sid"
    "cs_root_session_id (force_status (de_now env ''queued'') QUEUED s) = ?sid"
    using force_status_advances [of s "de_now env ''queued''" QUEUED] s(2) by (simp_all add: advances_def)
  ultimately have "self_rooted ?sid (announced env req s (registered env req s t' m1))"
    unfolding announced_def self_rooted_emit by (intro self_rooted_put) simp_all
  then have "self_rooted ?sid (snd (start_child env req (force_status (de_now env ''queued'') QUEUED s) d
               (announced env req s (registered env req s t' m1))))"
    using q by (intro start_child_self_rooted)
  moreover have "snd (dispatch_begin env req m) = snd (start_child env req (force_status (de_now env ''queued'') QUEUED s) d
               (announced env req s (registered env req s t' m1)))"
    using assms(2) t add
    by (simp add: dispatch_begin_def Let_def split_beta registered_def announced_def flip: s_def)
  ultimately show ?thesis by (simp add: s_def)
qed

text \<open>
  A child dispatched without a parent session is registered as its own child, so cancelling
  it, or its root, recurses without end and Python raises \<open>RecursionError\<close>: the child cannot be
  cancelled.
\<close>

theorem dispatch_without_parent_uncancellable:
  assumes "tr_parent_session_id req = []" and "admit m req = Inr (d, policy)"
    and "sid = cs_session_id (new_child env m req d policy)" and "dict_get (cm_trees m) sid = None"
  shows "fst (manager_cancel_session env' sid sid (snd (dispatch_begin env req m))) = Inl RecursionError"
proof -
  obtain t s where t: "dict_get (cm_trees (snd (dispatch_begin env req m))) sid = Some t"
    "t_children t = [(sid, [sid])]" "dict_get (t_sessions t) sid = Some s" "cs_session_id s = sid"
    using dispatch_without_parent [OF assms(1,2), of env] assms(3,4) by (auto simp: self_rooted_def)
  then show ?thesis using self_rooted_never_cancels [OF t(2,3,4)]
    by (simp add: manager_cancel_session_def cancel_in_manager_def tree_for_def Let_def
        del: cancel_session.simps cancel_sessions.simps)
qed

lemma sample_admits: "admit sample_manager (sample_request []) =
    Inr (sample_definition ''general'' 2, compute_policy (cm_config sample_manager) (sample_request []) (sample_definition ''general'' 2))"
  by (simp add: admit_def sample_manager_def new_manager_def sample_request_def default_request_def
      feature_gate_def default_config_def registry_get_def dict_get_def validate_subagent_entry_def
      sample_definition_def build_request_context_def build_context_def new_builder_def estimate_tokens_def
      current_depth_def parent_depth_limit_def manager_trees_def dict_values_def check_task_permission_def
      parent_task_permission_def primary_definition_def task_allows_def Let_def)

theorem dispatch_without_parent_uncancellable_witness:
  "fst (manager_cancel_session sample_env ''ses_child_0123456789ab'' ''ses_child_0123456789ab''
     (snd (dispatch_begin sample_env (sample_request []) sample_manager))) = Inl RecursionError"
  by (rule dispatch_without_parent_uncancellable [OF _ sample_admits])
     (simp_all add: sample_request_def new_child_def Let_def create_child_session_def sample_env_def
        sample_manager_def new_manager_def)

end
