(* ===== verification/Permissions_Correct.thy ===== *)
theory Permissions_Correct
  imports Permissions
begin

text \<open>
  The segment matcher accepts exactly the language its documentation describes; a decision is
  \<open>allow\<close> exactly when no earlier stage refuses and the last matching rule allows; what the
  built-in hard-deny tables cover is computed exactly; an approval is decided at most once.
\<close>

section \<open>The language of a pattern\<close>

text \<open>
  \<open>**\<close> stands for any number of segments, any other pattern segment for one segment it
  matches.
\<close>

inductive seg_match :: "string list \<Rightarrow> string list \<Rightarrow> bool" where
  seg_end: "seg_match [] []"
| seg_star: "seg_match ps vs \<Longrightarrow> seg_match (''**'' # ps) (us @ vs)"
| seg_one: "p \<noteq> ''**'' \<Longrightarrow> fnmatch v p \<or> v = p \<Longrightarrow> seg_match ps vs \<Longrightarrow> seg_match (p # ps) (v # vs)"

inductive_cases seg_match_ConsE: "seg_match (p # ps) vs"
inductive_simps seg_match_Nil_iff: "seg_match [] vs"

lemma match_segments_sound: "match_segments ps vs \<Longrightarrow> seg_match ps vs"
proof (induction ps vs rule: match_segments.induct)
  case (1 vs)
  then show ?case by (simp add: seg_end)
next
  case (2 p ps vs)
  show ?case
  proof (cases "p = ''**''")
    case True
    with "2.prems" obtain k where "k \<in> set [0..<Suc (length vs)]" "match_segments ps (drop k vs)"
      by (auto simp: list_ex_iff simp del: upt_Suc)
    then have "seg_match ps (drop k vs)" using "2.IH"(1) [OF True] by blast
    then show ?thesis using True seg_star [of ps "drop k vs" "take k vs"] by simp
  next
    case False
    with "2.prems" obtain h t where vs: "vs = h # t" "fnmatch h p \<or> h = p" "match_segments ps t"
      by (auto split: list.splits if_splits)
    then show ?thesis using "2.IH"(2) [OF False vs(1,2)] False by (simp add: seg_one)
  qed
qed

lemma match_segments_complete: "seg_match ps vs \<Longrightarrow> match_segments ps vs"
proof (induction rule: seg_match.induct)
  case (seg_star ps vs us)
  then show ?case
    by (auto simp: list_ex_iff simp del: upt_Suc intro!: bexI [of _ "length us"])
qed auto

lemma match_segments_iff: "match_segments ps vs \<longleftrightarrow> seg_match ps vs"
  using match_segments_sound match_segments_complete by blast

lemma seg_match_star: "seg_match (''**'' # ps) vs \<longleftrightarrow> (\<exists>us ws. vs = us @ ws \<and> seg_match ps ws)"
proof
  assume "seg_match (''**'' # ps) vs"
  then show "\<exists>us ws. vs = us @ ws \<and> seg_match ps ws" by (rule seg_match_ConsE) auto
qed (auto intro: seg_match.seg_star)

lemma seg_match_lit:
  "p \<noteq> ''**'' \<Longrightarrow> seg_match (p # ps) vs \<longleftrightarrow>
     (\<exists>w ws. vs = w # ws \<and> (fnmatch w p \<or> w = p) \<and> seg_match ps ws)"
proof (intro iffI)
  assume "p \<noteq> ''**''" and "seg_match (p # ps) vs"
  then show "\<exists>w ws. vs = w # ws \<and> (fnmatch w p \<or> w = p) \<and> seg_match ps ws"
    by (auto elim!: seg_match_ConsE)
qed (auto intro: seg_match.seg_one)

section \<open>Globs\<close>

definition plain_char :: "char \<Rightarrow> bool" where
  "plain_char c \<longleftrightarrow> c \<notin> {CHR ''*'', CHR ''?'', CHR ''[''}"

lemma parse_glob_Nil [simp]: "parse_glob [] = []"
  by (simp add: parse_glob.simps)

lemma parse_glob_star [simp]: "parse_glob (CHR ''*'' # r) = GStar # parse_glob r"
  by (simp add: parse_glob.simps [of "_ # _"])

lemma parse_glob_plain_Cons: "plain_char c \<Longrightarrow> parse_glob (c # r) = GLit c # parse_glob r"
  by (simp add: parse_glob.simps [of "_ # _"] plain_char_def)

lemma parse_glob_plain: "list_all plain_char p \<Longrightarrow> parse_glob (p @ r) = map GLit p @ parse_glob r"
  by (induction p) (auto simp: parse_glob_plain_Cons)

lemma glob_match_lits: "glob_match (map GLit p @ gs) s \<longleftrightarrow> (\<exists>u. s = p @ u \<and> glob_match gs u)"
  by (induction p arbitrary: s) (auto split: list.splits)

lemma glob_match_star: "glob_match (GStar # gs) s \<longleftrightarrow> (\<exists>u v. s = u @ v \<and> glob_match gs v)"
proof
  assume "glob_match (GStar # gs) s"
  then obtain k where "glob_match gs (drop k s)" by (auto simp: list_ex_iff simp del: upt_Suc)
  then show "\<exists>u v. s = u @ v \<and> glob_match gs v" by (metis append_take_drop_id)
next
  assume "\<exists>u v. s = u @ v \<and> glob_match gs v"
  then obtain u v where "s = u @ v" "glob_match gs v" by blast
  then show "glob_match (GStar # gs) s"
    by (auto simp: list_ex_iff simp del: upt_Suc intro!: bexI [of _ "length u"])
qed

text \<open>A pattern without special characters matches itself, with \<open>**\<close> behind it its extensions.\<close>

lemma fnmatch_plain: "list_all plain_char p \<Longrightarrow> fnmatch s p \<longleftrightarrow> s = p"
  using parse_glob_plain [of p "[]"] glob_match_lits [of p "[]" s] by (simp add: fnmatch_def)

lemma fnmatch_plain_stars: "list_all plain_char p \<Longrightarrow> fnmatch s (p @ ''**'') \<longleftrightarrow> prefix p s"
  using parse_glob_plain [of p "''**''"] glob_match_lits [of p "[GStar, GStar]" s]
  by (auto simp: fnmatch_def glob_match_star prefix_def simp del: glob_match.simps(2))

section \<open>The last matching rule\<close>

lemma last_match_snoc:
  "last_match pm v (rs @ [r]) = (if pattern_matches (pr_pattern r) v pm then Some r else last_match pm v rs)"
  by (simp add: last_match_def)

lemma last_match_None_iff:
  "last_match pm v rs = None \<longleftrightarrow> list_all (\<lambda>r. \<not> pattern_matches (pr_pattern r) v pm) rs"
  by (induction rs rule: rev_induct) (auto simp: last_match_snoc last_match_def)

lemma last_match_Some_iff:
  "last_match pm v rs = Some r \<longleftrightarrow>
     (\<exists>before after. rs = before @ r # after \<and> pattern_matches (pr_pattern r) v pm \<and>
        list_all (\<lambda>q. \<not> pattern_matches (pr_pattern q) v pm) after)"
proof (induction rs rule: rev_induct)
  case Nil
  show ?case by (simp add: last_match_def)
next
  case (snoc x rs)
  show ?case
  proof (cases "pattern_matches (pr_pattern x) v pm")
    case True
    have "x = r" if "rs @ [x] = before @ r # after"
      "list_all (\<lambda>q. \<not> pattern_matches (pr_pattern q) v pm) after" for before after
      using that True by (cases after rule: rev_cases) auto
    then show ?thesis using True by (force simp: last_match_snoc)
  next
    case False
    have "(\<exists>before after. rs = before @ r # after \<and> pattern_matches (pr_pattern r) v pm \<and>
             list_all (\<lambda>q. \<not> pattern_matches (pr_pattern q) v pm) after) \<longleftrightarrow>
          (\<exists>before after. rs @ [x] = before @ r # after \<and> pattern_matches (pr_pattern r) v pm \<and>
             list_all (\<lambda>q. \<not> pattern_matches (pr_pattern q) v pm) after)" (is "?L \<longleftrightarrow> ?R")
    proof
      assume ?L
      then obtain before after where "rs @ [x] = before @ r # (after @ [x])"
        "pattern_matches (pr_pattern r) v pm"
        "list_all (\<lambda>q. \<not> pattern_matches (pr_pattern q) v pm) (after @ [x])"
        using False by auto
      then show ?R by blast
    next
      assume ?R
      then obtain before after where h: "rs @ [x] = before @ r # after" "pattern_matches (pr_pattern r) v pm"
        "list_all (\<lambda>q. \<not> pattern_matches (pr_pattern q) v pm) after" by blast
      then obtain after' where "after = after' @ [x]" "rs = before @ r # after'"
        using False by (cases after rule: rev_cases) auto
      then show ?L using h by auto
    qed
    then show ?thesis using snoc False by (simp add: last_match_snoc)
  qed
qed

section \<open>Decisions\<close>

lemma seg_match_star_end [simp]: "seg_match [''**''] vs"
  using seg_star [OF seg_end, of vs] by simp

lemma seg_match_contains:
  assumes "list_all plain_char p" and "p \<noteq> ''**''"
  shows "seg_match [''**'', p, ''**''] vs \<longleftrightarrow> p \<in> set vs"
proof
  assume "seg_match [''**'', p, ''**''] vs"
  then show "p \<in> set vs" using assms by (auto simp: seg_match_star seg_match_lit fnmatch_plain)
next
  assume "p \<in> set vs"
  then obtain us ws where "vs = us @ p # ws" by (auto dest: split_list)
  moreover have "seg_match [p, ''**''] (p # ws)" using assms(2) by (simp add: seg_match_lit)
  ultimately show "seg_match [''**'', p, ''**''] vs" by (auto simp: seg_match_star)
qed

text \<open>A path pattern that asks for one directory name anywhere.\<close>

lemma pattern_matches_anywhere:
  assumes p: "list_all plain_char p" "p \<noteq> ''**''" "CHR ''/'' \<notin> set p"
  shows "pattern_matches (''**/'' @ p @ ''/**'') v True \<longleftrightarrow> p \<in> set (split_on CHR ''/'' v)"
proof -
  have sep: "split_on CHR ''/'' (x @ CHR ''/'' # y) = x # split_on CHR ''/'' y" if "CHR ''/'' \<notin> set x" for x y
    using that by (induction x) auto
  have s: "split_on CHR ''/'' (''**/'' @ p @ ''/**'') = [''**'', p, ''**'']"
    using sep [of "''**''" "p @ ''/**''"] sep [OF p(3), of "''**''"] by simp
  show ?thesis
    using seg_match_contains [OF p(1,2), of "split_on CHR ''/'' v"] s
    by (auto simp: pattern_matches_def match_segments_iff simp del: match_segments.simps)
qed

lemma pattern_matches_extends:
  assumes "list_all plain_char p"
  shows "pattern_matches (p @ ''**'') v False \<longleftrightarrow> prefix p v"
proof -
  have "p = []" if "p @ ''**'' = ''*''" using that by (cases p) auto
  moreover have "p = []" if "p @ ''**'' = ''**''" using that by simp
  ultimately show ?thesis using fnmatch_plain_stars [OF assms, of v] by (auto simp: pattern_matches_def)
qed

lemma canonical_edit: "canonical_tool_name ''edit'' = ''edit''"
  and canonical_bash: "canonical_tool_name ''bash'' = ''bash''"
  by code_simp+

text \<open>
  What the system-wide table refuses, exactly: an edit of any path with a segment \<open>.git\<close>,
  \<open>venv\<close> or \<open>.venv\<close>, at any depth, and a bash command that begins with one of five texts.
  Nothing else is refused for these tools; in particular a dangerous command that is not at
  the very start of the line passes this stage.
\<close>

theorem hard_deny_exact:
  "(is_system_hard_denied ''edit'' path = None) =
     list_all (\<lambda>seg. seg \<notin> {''.git'', ''venv'', ''.venv''}) (split_on CHR ''/'' path) \<and>
   (is_system_hard_denied ''bash'' cmd = None) =
     list_all (\<lambda>p. \<not> prefix p cmd)
       [''git push '', ''rm -rf '', ''rm -fr '', ''pip uninstall '', ''npm publish '']"
proof -
  have e: "pattern_matches ''**/.git/**'' path True \<longleftrightarrow> ''.git'' \<in> set (split_on CHR ''/'' path)"
    "pattern_matches ''**/venv/**'' path True \<longleftrightarrow> ''venv'' \<in> set (split_on CHR ''/'' path)"
    "pattern_matches ''**/.venv/**'' path True \<longleftrightarrow> ''.venv'' \<in> set (split_on CHR ''/'' path)"
    using pattern_matches_anywhere [of "''.git''" path] pattern_matches_anywhere [of "''venv''" path]
      pattern_matches_anywhere [of "''.venv''" path]
    by (simp_all add: plain_char_def)
  have b: "pattern_matches ''git push **'' cmd False \<longleftrightarrow> prefix ''git push '' cmd"
    "pattern_matches ''rm -rf **'' cmd False \<longleftrightarrow> prefix ''rm -rf '' cmd"
    "pattern_matches ''rm -fr **'' cmd False \<longleftrightarrow> prefix ''rm -fr '' cmd"
    "pattern_matches ''pip uninstall **'' cmd False \<longleftrightarrow> prefix ''pip uninstall '' cmd"
    "pattern_matches ''npm publish **'' cmd False \<longleftrightarrow> prefix ''npm publish '' cmd"
    using pattern_matches_extends [of "''git push ''" cmd] pattern_matches_extends [of "''rm -rf ''" cmd]
      pattern_matches_extends [of "''rm -fr ''" cmd] pattern_matches_extends [of "''pip uninstall ''" cmd]
      pattern_matches_extends [of "''npm publish ''" cmd]
    by (simp_all add: plain_char_def)
  have "(is_system_hard_denied ''edit'' path = None) =
     list_all (\<lambda>seg. seg \<notin> {''.git'', ''venv'', ''.venv''}) (split_on CHR ''/'' path)"
    using e by (auto simp: is_system_hard_denied_def canonical_edit is_path_tool_def
        SYSTEM_HARD_DENY_TOOLS_def dict_get_or_def dict_get_def list_all_iff find_None_iff)
  moreover have "(is_system_hard_denied ''bash'' cmd = None) =
     list_all (\<lambda>p. \<not> prefix p cmd)
       [''git push '', ''rm -rf '', ''rm -fr '', ''pip uninstall '', ''npm publish '']"
    using b by (simp add: is_system_hard_denied_def canonical_bash is_path_tool_def
        SYSTEM_HARD_DENY_TOOLS_def dict_get_or_def dict_get_def find_None_iff)
  ultimately show ?thesis ..
qed

text \<open>
  A call is allowed exactly when the system table does not refuse it, the external
  directory rule does not apply, and the last rule of the tool that matches the value says
  \<open>allow\<close>: later rules override earlier ones, and without a matching rule the call is denied.
\<close>

theorem evaluate_allow_iff:
  "decision_allows (evaluate fs pol raw_tool v) \<longleftrightarrow>
     (let tool = canonical_tool_name raw_tool in
      is_system_hard_denied tool v = None \<and>
      \<not> (touches_external_path fs pol tool v \<and> pp_external_directory pol \<noteq> ALLOW) \<and>
      (\<exists>before r after. rules_for pol tool = before @ r # after \<and> pr_verdict r = ALLOW \<and>
         pattern_matches (pr_pattern r) v (is_path_tool tool) \<and>
         list_all (\<lambda>q. \<not> pattern_matches (pr_pattern q) v (is_path_tool tool)) after))"
proof -
  let ?t = "canonical_tool_name raw_tool"
  have v: "decision_of_verdict w = D_ALLOW \<longleftrightarrow> w = ALLOW" for w
    by (cases w) (auto simp: decision_of_verdict_def)
  show ?thesis
  proof (cases "last_match (is_path_tool ?t) v (rules_for pol ?t)")
    case None
    then have "\<not> (\<exists>before r after. rules_for pol ?t = before @ r # after \<and>
        pattern_matches (pr_pattern r) v (is_path_tool ?t))"
      by (auto simp: last_match_None_iff list_all_iff)
    then show ?thesis using None
      by (auto simp: evaluate_def decision_allows_def Let_def v split: option.splits)
  next
    case (Some r)
    have "(\<exists>before r after. rules_for pol ?t = before @ r # after \<and> pr_verdict r = ALLOW \<and>
         pattern_matches (pr_pattern r) v (is_path_tool ?t) \<and>
         list_all (\<lambda>q. \<not> pattern_matches (pr_pattern q) v (is_path_tool ?t)) after) \<longleftrightarrow>
       (\<exists>r. last_match (is_path_tool ?t) v (rules_for pol ?t) = Some r \<and> pr_verdict r = ALLOW)"
      unfolding last_match_Some_iff by blast
    then show ?thesis using Some
      by (auto simp: evaluate_def decision_allows_def Let_def v split: option.splits)
  qed
qed

text \<open>
  The test for paths outside the workspace is inverted. For an absolute path of a path
  tool it answers \<open>True\<close> for every path that is not the root or an ancestor of it: every file
  inside the workspace counts as external, and the directories above it do not.
\<close>

theorem external_path_inverted:
  assumes "canonical_tool_name tool \<in> {''read'', ''edit'', ''bash'', ''open_file''}"
    and "pp_workspace_root pol = Some rt" and "is_absolute v"
    and "pe_resolve fs v = Some p" and "pe_resolve fs rt = Some r"
  shows "touches_external_path fs pol tool v \<longleftrightarrow> \<not> prefix p r"
  using assms by (auto simp: touches_external_path_def in_parents_def strict_prefix_def is_absolute_def
      starts_with_def)

theorem external_path_inverted_witness:
  "touches_external_path plain_env (policy_from_definition default_permission_spec [] (Some ''/home/ws''))
     ''read'' ''/home/ws/main.py'' \<and>
   \<not> touches_external_path plain_env (policy_from_definition default_permission_spec [] (Some ''/home/ws''))
     ''read'' ''/home''"
proof -
  have r: "canonical_tool_name ''read'' = ''read''" by code_simp
  show ?thesis
    using external_path_inverted [of "''read''" "policy_from_definition default_permission_spec [] (Some ''/home/ws'')"
        "''/home/ws''" "''/home/ws/main.py''" plain_env "[''home'', ''ws'', ''main.py'']" "[''home'', ''ws'']"]
      external_path_inverted [of "''read''" "policy_from_definition default_permission_spec [] (Some ''/home/ws'')"
        "''/home/ws''" "''/home''" plain_env "[''home'']" "[''home'', ''ws'']"]
    by (simp add: r policy_from_definition_def plain_env_def is_absolute_def starts_with_def)
qed

section \<open>Approvals\<close>

datatype approval_cmd = Ask_Approval approval_request | Resolve_Approval rat string approval_decision

fun approval_step :: "approval_manager \<Rightarrow> approval_cmd \<Rightarrow> approval_manager" where
  "approval_step m (Ask_Approval req) = snd (approval_create req m)"
| "approval_step m (Resolve_Approval now aid d) =
     (case approval_resolve now aid d m of Inl _ \<Rightarrow> m | Inr (_, m') \<Rightarrow> m')"

definition approval_wf :: "approval_manager \<Rightarrow> bool" where
  "approval_wf m \<longleftrightarrow> dict_wf (am_pending m) \<and> distinct (am_resolved_ids m) \<and>
     map al_approval_id (am_log m) = am_resolved_ids m \<and>
     list_all (\<lambda>e. aq_decision (al_request e) = Some (al_decision e) \<and>
                   aq_decided_at (al_request e) = Some (al_decided_at e)) (am_log m)"

definition approval_le :: "approval_manager \<Rightarrow> approval_manager \<Rightarrow> bool" where
  "approval_le m m' \<longleftrightarrow> prefix (am_log m) (am_log m')"

lemma approval_resolve_Inr:
  "approval_resolve now aid d m = Inr (r, m') \<longleftrightarrow>
     aid \<notin> set (am_resolved_ids m) \<and>
     (\<exists>req. dict_get (am_pending m) aid = Some req \<and>
        r = req\<lparr>aq_decision := Some d, aq_decided_at := Some now\<rparr> \<and>
        m' = m\<lparr>am_log := am_log m @ [\<lparr>al_approval_id = aid, al_request = r, al_decision = d, al_decided_at = now\<rparr>],
               am_pending := dict_del aid (am_pending m),
               am_resolved_ids := am_resolved_ids m @ [aid]\<rparr>)"
  by (auto simp: approval_resolve_def Let_def split: option.splits)

interpretation approvals: ordered_machine approval_step approval_wf approval_le
proof
  fix m c assume wf: "approval_wf m"
  show "approval_wf (approval_step m c)"
    using wf by (cases c)
      (auto simp: approval_wf_def approval_create_def dict_wf_set dict_wf_del approval_resolve_Inr
        split: sum.splits)
  show "approval_le m (approval_step m c)"
    by (cases c) (auto simp: approval_le_def approval_create_def approval_resolve_Inr split: sum.splits)
qed (auto simp: approval_le_def)

lemma approval_start_wf: "approval_wf new_approval_manager"
  by (simp add: approval_wf_def new_approval_manager_def)

text \<open>
  Whatever approvals are requested and resolved, in any order: no approval is decided twice,
  the log is append-only with one entry per decision, in order, each carrying the request it
  decided, and resolving a decided approval again raises \<open>ValueError\<close>.
\<close>

theorem approvals_decided_once:
  "let m = run approval_step new_approval_manager cmds;
       m' = run approval_step new_approval_manager (cmds @ later)
   in distinct (map al_approval_id (am_log m)) \<and> prefix (am_log m) (am_log m') \<and>
      list_all (\<lambda>e. aq_decision (al_request e) = Some (al_decision e) \<and>
        approval_resolve now (al_approval_id e) d m' = Inl ValueError) (am_log m)"
proof -
  define m where "m = run approval_step new_approval_manager cmds"
  define m' where "m' = run approval_step new_approval_manager (cmds @ later)"
  have wf: "approval_wf m" "approval_wf m'"
    unfolding m_def m'_def by (rule approvals.run_inv [OF approval_start_wf])+
  have le: "prefix (am_log m) (am_log m')"
    using approvals.run_le_later [OF approval_start_wf, of cmds later]
    by (simp add: m_def m'_def approval_le_def)
  then have "set (am_log m) \<subseteq> set (am_log m')" by (rule set_mono_prefix)
  moreover have "am_resolved_ids m' = map al_approval_id (am_log m')"
    using wf(2) by (simp add: approval_wf_def)
  ultimately have "al_approval_id e \<in> set (am_resolved_ids m')" if "e \<in> set (am_log m)" for e
    using that by auto
  then have "approval_resolve now (al_approval_id e) d m' = Inl ValueError" if "e \<in> set (am_log m)" for e
    using that by (simp add: approval_resolve_def)
  then have "list_all (\<lambda>e. aq_decision (al_request e) = Some (al_decision e) \<and>
        approval_resolve now (al_approval_id e) d m' = Inl ValueError) (am_log m)"
    using wf(1) by (simp add: approval_wf_def list_all_iff)
  moreover have "distinct (map al_approval_id (am_log m))" using wf(1) by (simp add: approval_wf_def)
  ultimately show ?thesis using le by (simp add: m_def m'_def Let_def)
qed

end
