(* ===== verification/Definitions_Correct.thy ===== *)
theory Definitions_Correct
  imports Definitions
begin

text \<open>
  What validation guarantees of every definition the runtime sees, that normalisation is
  stable and drops nothing validation has to reject, and that built-in agents, the Primary
  policy among them, cannot be replaced from user files.
\<close>

section \<open>Normalisation\<close>

lemma copy_key_get:
  "dict_get (copy_key f raw k d) k' =
     (case dict_get raw k of None \<Rightarrow> dict_get d k'
      | Some v \<Rightarrow> if k' = k then Some (f v) else dict_get d k')"
  by (auto simp: copy_key_def split: option.splits)

lemma copy_key_other: "k' \<noteq> k \<Longrightarrow> dict_get (copy_key f raw k d) k' = dict_get d k'"
  by (simp add: copy_key_get split: option.split)

lemma copy_key_same:
  "dict_get (copy_key f raw k d) k =
     (case dict_get raw k of None \<Rightarrow> dict_get d k | Some v \<Rightarrow> Some (f v))"
  by (simp add: copy_key_get split: option.split)

lemma fold_copy_id_get:
  "dict_get (fold (copy_key id raw) ks d) k' =
     (if k' \<in> set ks \<and> dict_has raw k' then dict_get raw k' else dict_get d k')"
  by (induction ks arbitrary: d) (auto simp: copy_key_get dict_has_def split: option.splits)

lemma fold_extra_get:
  "dict_wf raw \<Longrightarrow>
   dict_get (fold (\<lambda>(k, v) d. if k \<in> S then d else dict_set k v d) raw d) k' =
     (if k' \<in> S then dict_get d k'
      else (case dict_get raw k' of None \<Rightarrow> dict_get d k' | Some v \<Rightarrow> Some v))"
proof (induction raw arbitrary: d)
  case Nil
  show ?case by simp
next
  case (Cons p raw)
  obtain k v where p: "p = (k, v)" by (cases p)
  have "dict_wf raw" and "dict_get raw k = None"
    using Cons.prems p by (auto simp: dict_wf_def dict_get_None_iff dict_keys_def)
  moreover have "dict_get (p # raw) k' = (if k' = k then Some v else dict_get raw k')"
    by (simp add: p dict_get_def)
  ultimately show ?case using Cons.IH p by (auto split: option.splits)
qed

definition normalize_field :: "(pyval \<Rightarrow> string) \<Rightarrow> string \<Rightarrow> pyval \<Rightarrow> pyval" where
  "normalize_field so k v =
     (if k = ''hidden'' then PBool (truthy v)
      else if k = ''subagent_depth'' then (case py_int v of Some i \<Rightarrow> PInt i | None \<Rightarrow> v)
      else if k = ''workspace_scope'' then PStr (py_str so v)
      else if k = ''permission'' then normalize_permission v
      else v)"

lemma normalize_field_known: "k \<notin> set known_keys \<Longrightarrow> normalize_field so k v = v"
  by (auto simp: normalize_field_def known_keys_def)

definition normalize_known :: "(pyval \<Rightarrow> string) \<Rightarrow> raw_config \<Rightarrow> raw_config" where
  "normalize_known so raw =
     copy_key id raw ''task_permission''
      (copy_key normalize_permission raw ''permission''
       (copy_key (\<lambda>v. PStr (py_str so v)) raw ''workspace_scope''
        (copy_key (\<lambda>v. case py_int v of Some i \<Rightarrow> PInt i | None \<Rightarrow> v) raw ''subagent_depth''
         (copy_key (\<lambda>v. PBool (truthy v)) raw ''hidden''
          (fold (copy_key id raw) [''id'', ''description'', ''mode'', ''model'', ''steps'', ''prompt''] [])))))"

lemma normalize_known_get:
  "k \<in> set known_keys \<Longrightarrow> dict_get (normalize_known so raw) k = map_option (normalize_field so k) (dict_get raw k)"
  unfolding known_keys_def set_simps insert_iff empty_iff
  by (elim disjE FalseE)
     (simp_all add: normalize_known_def copy_key_same copy_key_other fold_copy_id_get normalize_field_def
       dict_has_def id_def split: option.split del: fold_simps)

lemma normalize_known_none: "k \<notin> set known_keys \<Longrightarrow> dict_get (normalize_known so raw) k = None"
  by (simp add: known_keys_def normalize_known_def copy_key_other fold_copy_id_get del: fold_simps)

lemma normalize_get:
  assumes "dict_wf raw"
  shows "dict_get (normalize_raw_config so raw) k = map_option (normalize_field so k) (dict_get raw k)"
proof -
  have n: "normalize_raw_config so raw =
      fold (\<lambda>(k, v) d. if k \<in> set known_keys then d else dict_set k v d) raw (normalize_known so raw)"
    by (simp add: normalize_raw_config_def normalize_known_def Let_def)
  show ?thesis unfolding n fold_extra_get [OF assms]
    by (cases "k \<in> set known_keys"; cases "dict_get raw k")
       (simp_all add: normalize_known_get normalize_known_none normalize_field_known)
qed

lemma normalize_field_idem: "normalize_field so k (normalize_field so k v) = normalize_field so k v"
proof -
  have "py_int (case py_int v of Some i \<Rightarrow> PInt i | None \<Rightarrow> v) = py_int v"
    by (cases "py_int v") auto
  moreover have "normalize_permission (normalize_permission v) = normalize_permission v"
    by (cases v) (auto simp: normalize_permission_def)
  ultimately show ?thesis
    by (auto simp: normalize_field_def py_str_def split: option.splits)
qed

lemma copy_key_wf: "dict_wf d \<Longrightarrow> dict_wf (copy_key f raw k d)"
  by (auto simp: copy_key_def dict_wf_set split: option.splits)

lemma normalize_wf: "dict_wf (normalize_raw_config so raw)"
proof -
  have a: "dict_wf d \<Longrightarrow> dict_wf (fold (copy_key id raw) ks d)" for ks d
    by (induction ks arbitrary: d) (auto intro: copy_key_wf)
  have b: "dict_wf d \<Longrightarrow> dict_wf (fold (\<lambda>(k, v) d. if k \<in> S then d else dict_set k v d) xs d)"
    for S and xs :: raw_config and d
  proof (induction xs arbitrary: d)
    case (Cons x xs)
    then show ?case by (cases x) (simp add: dict_wf_set)
  qed simp
  show ?thesis unfolding normalize_raw_config_def Let_def
    by (intro a b copy_key_wf) simp
qed

text \<open>
  Normalisation is a choke point that loses nothing: every key of the raw configuration is
  in the result and no other, only four fields are rewritten, and normalising twice changes
  nothing, so a normalised definition can be stored and loaded again.
\<close>

theorem normalize_stable:
  assumes "dict_wf raw"
  shows "dict_get (normalize_raw_config so (normalize_raw_config so raw)) k = dict_get (normalize_raw_config so raw) k
    \<and> dict_has (normalize_raw_config so raw) k = dict_has raw k
    \<and> (k \<in> {''hidden'', ''subagent_depth'', ''workspace_scope'', ''permission''}
       \<or> dict_get (normalize_raw_config so raw) k = dict_get raw k)"
proof -
  have same: "normalize_field so k v = v"
    if "k \<notin> {''hidden'', ''subagent_depth'', ''workspace_scope'', ''permission''}" for v
    using that by (simp add: normalize_field_def)
  show ?thesis
    by (cases "dict_get raw k")
       (simp_all only: normalize_get [OF normalize_wf] normalize_get [OF assms] dict_has_def
         option.map normalize_field_idem same simp_thms option.distinct, use same in blast)
qed

theorem normalize_stable_witness:
  "dict_get (normalize_raw_config (\<lambda>v. []) (normalize_raw_config (\<lambda>v. [])
     [(''subagent_depth'', PStr ''2''), (''task_permission'', PNone)])) ''task_permission'' =
   dict_get (normalize_raw_config (\<lambda>v. []) [(''subagent_depth'', PStr ''2''), (''task_permission'', PNone)])
     ''task_permission''"
proof -
  have "dict_wf [(''subagent_depth'', PStr ''2''), (''task_permission'', PNone)]"
    by (simp add: dict_wf_def)
  from normalize_stable [OF this, of "\<lambda>v. []" "''task_permission''"] show ?thesis by blast
qed

section \<open>Validation\<close>

lemma validate_id_Inr:
  "validate_id raw = Inr s \<longleftrightarrow>
     dict_get raw ''id'' = Some (PStr s) \<and> agent_id_matches s \<and> s \<notin> set RESERVED_IDS"
  by (auto simp: validate_id_def dict_get_or_def Let_def agent_id_matches_def agent_id_body_def
      split: option.splits pyval.splits if_splits)

lemma validate_description_Inr:
  "validate_description a raw = Inr s \<Longrightarrow> strip s \<noteq> []"
  by (auto simp: validate_description_def Let_def split: pyval.splits if_splits)

lemma validate_steps_Inr: "validate_steps a raw = Inr n \<Longrightarrow> (case n of None \<Rightarrow> True | Some i \<Rightarrow> 1 \<le> i)"
  by (auto simp: validate_steps_def split: pyval.splits option.splits if_splits)

lemma validate_depth_Inr: "validate_depth a raw = Inr i \<Longrightarrow> 0 \<le> i"
  by (auto simp: validate_depth_def split: option.splits if_splits)

lemma raise_py_Inr [simp]: "raise_py r = Inr x \<longleftrightarrow> r = Inr x"
  by (auto simp: raise_py_def split: sum.splits)

lemma validated_id:
  "validate_agent_definition raw = Inr d \<Longrightarrow> agent_id_matches (ad_id d) \<and> ad_id d \<notin> set RESERVED_IDS"
  by (auto simp: validate_agent_definition_def bind_result_Inr_iff validate_id_Inr split: if_splits)


text \<open>
  The pattern for ids ends in a dollar sign and is used with \<open>match\<close>, so an id with a final
  line break passes.
\<close>

lemma agent_id_final_newline: "agent_id_matches (''explore'' @ [CHR 0x0A])"
  by code_simp

text \<open>
  The permission shorthand: a single verdict becomes that verdict for reading, editing,
  bash and delegation only. Web tools get no rule, so even under \<open>allow\<close> they stay denied, and
  external directories stay denied.
\<close>

theorem permission_shorthand:
  assumes "dict_wf raw" and "dict_get raw ''permission'' = Some (PStr s)"
    and "permission_verdict_of (PStr s) = Inr v"
  shows "permission_spec_from_raw (raw_get (normalize_raw_config so raw) ''permission'') =
    Inr (let rule = \<lparr>tp_rules = [\<lparr>pr_pattern = ''**'', pr_verdict = v\<rparr>]\<rparr> in
      \<lparr>ps_read = rule, ps_edit = rule, ps_bash = rule, ps_webfetch = no_rules,
       ps_websearch = no_rules, ps_task = rule, ps_external_directory = DENY\<rparr>)"
proof -
  have get: "raw_get (normalize_raw_config so raw) ''permission'' =
      PDict [(''read'', PStr s), (''edit'', PStr s), (''bash'', PStr s), (''task'', PStr s)]"
    using assms by (simp add: raw_get_def dict_get_or_def normalize_get normalize_field_def normalize_permission_def)
  have deny: "permission_verdict_of (PStr ''deny'') = Inr DENY" by (simp add: permission_verdict_of_def)
  show ?thesis unfolding get
    by (simp add: permission_spec_from_raw_def raw_get_def dict_get_or_def dict_get_def
        tool_permission_from_raw_def assms(3) deny Let_def)
qed

theorem permission_shorthand_witness:
  "permission_spec_from_raw (raw_get (normalize_raw_config (\<lambda>v. []) [(''permission'', PStr ''allow'')]) ''permission'') =
    Inr (let rule = \<lparr>tp_rules = [\<lparr>pr_pattern = ''**'', pr_verdict = ALLOW\<rparr>]\<rparr> in
      \<lparr>ps_read = rule, ps_edit = rule, ps_bash = rule, ps_webfetch = no_rules,
       ps_websearch = no_rules, ps_task = rule, ps_external_directory = DENY\<rparr>)"
  by (rule permission_shorthand [of _ "''allow''"])
     (simp_all add: dict_wf_def dict_get_def permission_verdict_of_def)

section \<open>The registry as a machine\<close>

definition registry_step :: "agent_registry \<Rightarrow> bool \<times> agent_definition \<Rightarrow> agent_registry" where
  "registry_step r c = snd (register (fst c) (snd c) r)"

definition registry_wf :: "agent_registry \<Rightarrow> bool" where
  "registry_wf r \<longleftrightarrow> dict_wf (reg_agents r) \<and> distinct (reg_builtin_ids r) \<and>
     (\<forall>k \<in> set (reg_builtin_ids r). dict_has (reg_agents r) k) \<and>
     (\<forall>k d. dict_get (reg_agents r) k = Some d \<longrightarrow> ad_id d = k)"

definition registry_le :: "agent_registry \<Rightarrow> agent_registry \<Rightarrow> bool" where
  "registry_le r r' \<longleftrightarrow>
     (\<forall>k \<in> set (reg_builtin_ids r). k \<in> set (reg_builtin_ids r') \<and> registry_get r' k = registry_get r k)"

lemma register_wf: "registry_wf r \<Longrightarrow> registry_wf (snd (register b d r))"
  by (auto simp: registry_wf_def register_def Let_def dict_wf_set dict_has_def split: if_splits)

lemma register_le: "registry_le r (snd (register b d r))"
  by (auto simp: registry_le_def register_def Let_def registry_get_def)

interpretation registry: ordered_machine registry_step registry_wf registry_le
  by unfold_locales (auto simp: registry_step_def register_wf register_le, auto simp: registry_le_def)

lemma empty_registry_wf: "registry_wf empty_registry"
  by (simp add: registry_wf_def empty_registry_def)

text \<open>
  Built-in agents are permanent: whatever is registered afterwards, built in or from user
  files, in any order, the id keeps the definition it had when it was registered as built in,
  and a user definition for it is refused with \<open>DefinitionError\<close>.
\<close>

theorem builtin_is_permanent:
  "let r = snd (register True d (run registry_step empty_registry before));
       r' = run registry_step r later
   in registry_get r' (ad_id d) = registry_get r (ad_id d) \<and> registry_get r (ad_id d) \<noteq> None \<and>
      register False (e\<lparr>ad_id := ad_id d\<rparr>) r' = (Inl (DefinitionError [] (ad_id d)), r')"
proof -
  define r where "r = snd (register True d (run registry_step empty_registry before))"
  define r' where "r' = run registry_step r later"
  have wf: "registry_wf r" unfolding r_def
    by (intro register_wf registry.run_inv empty_registry_wf)
  have b: "ad_id d \<in> set (reg_builtin_ids r)" by (auto simp: r_def register_def Let_def)
  have "registry_le r r'" unfolding r'_def by (rule registry.run_le [OF wf])
  then have "ad_id d \<in> set (reg_builtin_ids r')" "registry_get r' (ad_id d) = registry_get r (ad_id d)"
    using b by (auto simp: registry_le_def)
  moreover have "registry_get r (ad_id d) \<noteq> None"
    using wf b by (auto simp: registry_wf_def registry_get_def dict_has_def)
  ultimately show ?thesis unfolding Let_def r_def [symmetric] r'_def [symmetric] by (simp add: register_def)
qed

section \<open>Loading\<close>

text \<open>Loading a directory is a sequence of registrations of validated definitions.\<close>

lemma load_files_run:
  "\<exists>ds. snd (load_files ld b files r) = run registry_step r (map (Pair b) ds) \<and>
        (\<forall>d \<in> set ds. agent_id_matches (ad_id d) \<and> ad_id d \<notin> set RESERVED_IDS)"
proof (induction files arbitrary: r)
  case Nil
  show ?case by (rule exI [of _ "[]"]) simp
next
  case (Cons f files)
  obtain name content where f: "f = (name, content)" by (cases f)
  let ?ext = "lower (path_suffix name)"
  show ?case
  proof (cases "?ext \<in> {''.json'', ''.md'', ''.yaml'', ''.yml''}")
    case False
    then show ?thesis using Cons.IH [of r] f by simp
  next
    case True
    have load: "load_files ld b (f # files) r =
        (case agent_from_file ld ?ext content of
           Inl e \<Rightarrow> (Inl e, r)
         | Inr d \<Rightarrow> (case register b d r of (Inl e, r') \<Rightarrow> (Inl e, r') | (Inr _, r') \<Rightarrow> load_files ld b files r'))"
      unfolding f load_files.simps Let_def using True by (simp only: not_not if_False simp_thms)
    show ?thesis
    proof (cases "agent_from_file ld ?ext content")
      case (Inl e)
      then show ?thesis unfolding load by (intro exI [of _ "[]"]) simp
    next
      case (Inr d)
      have id: "agent_id_matches (ad_id d) \<and> ad_id d \<notin> set RESERVED_IDS"
        using Inr by (auto simp: agent_from_file_def bind_result_Inr_iff validated_id split: option.splits)
      obtain res r1 where r1: "register b d r = (res, r1)" by (cases "register b d r")
      then have step: "registry_step r (b, d) = r1" by (simp add: registry_step_def)
      show ?thesis
      proof (cases res)
        case (Inl e)
        then have "snd (load_files ld b (f # files) r) = run registry_step r (map (Pair b) [d])"
          unfolding load using Inr r1 step by simp
        then show ?thesis using id by (intro exI [of _ "[d]"]) simp
      next
        case (Inr u)
        obtain ds where ds: "snd (load_files ld b files r1) = run registry_step r1 (map (Pair b) ds)"
          "\<forall>d \<in> set ds. agent_id_matches (ad_id d) \<and> ad_id d \<notin> set RESERVED_IDS"
          using Cons.IH by blast
        have "snd (load_files ld b (f # files) r) = run registry_step r (map (Pair b) (d # ds))"
          unfolding load using \<open>agent_from_file ld ?ext content = Inr d\<close> r1 step Inr ds(1) by simp
        then show ?thesis using id ds(2) by (intro exI [of _ "d # ds"]) simp
      qed
    qed
  qed
qed

lemma load_from_directory_run:
  "\<exists>ds. snd (load_from_directory ld b dir r) = run registry_step r (map (Pair b) ds) \<and>
        (\<forall>d \<in> set ds. agent_id_matches (ad_id d) \<and> ad_id d \<notin> set RESERVED_IDS)"
  using load_files_run by (cases dir) (auto simp: load_from_directory_def intro: exI [of _ "[]"])

lemma run_registry_not_builtin:
  "k \<notin> set (reg_builtin_ids r) \<Longrightarrow> (\<forall>d \<in> set ds. ad_id d \<noteq> k) \<Longrightarrow>
   k \<notin> set (reg_builtin_ids (run registry_step r (map (Pair b) ds)))"
proof (induction ds arbitrary: r)
  case Nil
  then show ?case by simp
next
  case (Cons d ds)
  have "k \<notin> set (reg_builtin_ids (registry_step r (b, d)))"
    using Cons.prems by (auto simp: registry_step_def register_def Let_def)
  then show ?case using Cons by simp
qed

text \<open>
  The Primary policy cannot be configured: when the built-in agents load, whatever their
  directory holds, and whatever a user directory adds afterwards, the id \<open>primary\<close> has the
  policy of the source, which delegates to the four shipped agents and to no other.
\<close>

theorem primary_policy_fixed:
  "case load_builtin_agents ld builtin_dir empty_registry of
     (Inl e, r) \<Rightarrow> True
   | (Inr u, r) \<Rightarrow>
       registry_get (snd (load_from_directory ld False user_dir r)) ''primary'' = Some primary_definition \<and>
       task_allows (ad_task_permission primary_definition) a = (a \<in> {''explore'', ''general'', ''reviewer'', ''scout''})"
proof -
  obtain res r1 where r1: "load_from_directory ld True builtin_dir empty_registry = (res, r1)"
    by (cases "load_from_directory ld True builtin_dir empty_registry")
  obtain ds where ds: "r1 = run registry_step empty_registry (map (Pair True) ds)"
    "\<forall>d \<in> set ds. agent_id_matches (ad_id d) \<and> ad_id d \<notin> set RESERVED_IDS"
    using load_from_directory_run [of ld True builtin_dir empty_registry] r1 by auto
  have allows: "task_allows (ad_task_permission primary_definition) a =
      (a \<in> {''explore'', ''general'', ''reviewer'', ''scout''})"
    by (auto simp: task_allows_def primary_definition_def)
  show ?thesis
  proof (cases res)
    case (Inl e)
    then show ?thesis using r1 by (simp add: load_builtin_agents_def load_agent_definitions_def)
  next
    case (Inr u)
    have "\<forall>d \<in> set ds. ad_id d \<noteq> ''primary''" using ds(2) by (auto simp: RESERVED_IDS_def)
    then have "''primary'' \<notin> set (reg_builtin_ids r1)"
      unfolding ds(1) by (intro run_registry_not_builtin) (simp_all add: empty_registry_def)
    then have reg: "registry_get (snd (register True primary_definition r1)) ''primary'' = Some primary_definition"
      "''primary'' \<in> set (reg_builtin_ids (snd (register True primary_definition r1)))"
      "\<exists>r2. register True primary_definition r1 = (Inr (), r2)"
      by (simp_all add: register_def primary_definition_def registry_get_def)
    define r2 where "r2 = snd (register True primary_definition r1)"
    have wf: "registry_wf r2" unfolding r2_def ds(1)
      by (intro register_wf registry.run_inv empty_registry_wf)
    have load: "load_builtin_agents ld builtin_dir empty_registry = (Inr (), r2)"
      using r1 Inr reg(3) by (auto simp: load_builtin_agents_def load_agent_definitions_def
          load_from_directory_def [of _ _ None] r2_def)
    obtain us where "snd (load_from_directory ld False user_dir r2) = run registry_step r2 (map (Pair False) us)"
      using load_from_directory_run by blast
    then have "registry_le r2 (snd (load_from_directory ld False user_dir r2))"
      by (simp add: registry.run_le [OF wf])
    then have "registry_get (snd (load_from_directory ld False user_dir r2)) ''primary'' = Some primary_definition"
      using reg(1,2) by (auto simp: registry_le_def r2_def)
    then show ?thesis using load allows by simp
  qed
qed

end
