(* ===== verification/Read_Only_Correct.thy ===== *)
theory Read_Only_Correct
  imports Read_Only_Commands Workspace_Correct
begin

text \<open>
  What the read-only classifier of \<open>core/subagents/workspace.py\<close> guarantees for commands without
  backslashes, and how escaped quotes get around it. The reference is the quoting of a shell
  without backslashes: \<open>outside\<close> gives the characters of a text that stand outside quotes.
\<close>

section \<open>Reference\<close>

definition is_quote :: "char \<Rightarrow> bool" where
  "is_quote c = (c = SQ \<or> c = DQ)"

fun quote_step :: "char option \<Rightarrow> char \<Rightarrow> char option" where
  "quote_step None c = (if is_quote c then Some c else None)"
| "quote_step (Some q) c = (if c = q then None else Some q)"

definition quote_after :: "char option \<Rightarrow> string \<Rightarrow> char option" where
  "quote_after q s = fold (\<lambda>c q. quote_step q c) s q"

fun outside :: "char option \<Rightarrow> string \<Rightarrow> string" where
  "outside q [] = []"
| "outside q (c # cs) =
     (if q = None \<and> \<not> is_quote c then c # outside None cs else outside (quote_step q c) cs)"

definition simple_segment :: "string \<Rightarrow> bool" where
  "simple_segment s =
     (quote_after None s = None \<and>
      list_all (\<lambda>c. \<not> is_separator c \<and> c \<notin> set ''()[]{}$@<>'' \<and> c \<noteq> BTICK) (outside None s) \<and>
      list_ex (\<lambda>p. s = p \<or> starts_with s (p @ '' '')) READ_ONLY_COMMANDS)"

lemma quote_after_simps [simp]:
  "quote_after q [] = q" "quote_after q (c # cs) = quote_after (quote_step q c) cs"
  "quote_after q (s @ t) = quote_after (quote_after q s) t"
  by (simp_all add: quote_after_def)

lemma outside_append: "outside q (s @ t) = outside q s @ outside (quote_after q s) t"
  by (induction q s rule: outside.induct) auto

lemma outside_plain: "\<not> list_ex is_quote s \<Longrightarrow> outside None s = s \<and> quote_after None s = None"
  by (induction s) auto

section \<open>Segments\<close>

text \<open>The splitter is in the quote state of the segment read so far, so no separator outside quotes is kept.\<close>

lemma split_segments_no_separator:
  "quote_after None current = q \<Longrightarrow> list_all (\<lambda>c. \<not> is_separator c) (outside None current) \<Longrightarrow>
   \<forall>s \<in> set (split_segments_from q current cs). list_all (\<lambda>c. \<not> is_separator c) (outside None s)"
proof (induction q current cs rule: split_segments_from.induct)
  case (1 q current)
  then show ?case by simp
next
  case (2 q current c cs)
  then show ?case by (auto simp: outside_append)
next
  case (3 current c cs)
  then show ?case by (auto simp: outside_append is_quote_def)
qed

lemma set_split_segments: "s \<in> set (split_segments_from q current cs) \<Longrightarrow> set s \<subseteq> set current \<union> set cs"
proof (induction q current cs arbitrary: s rule: split_segments_from.induct)
  case (2 q current c cs)
  from "2.IH" [of s] "2.prems" show ?case by auto
next
  case (3 current c cs)
  show ?case
  proof (cases "c = SQ \<or> c = DQ")
    case True
    have "s \<in> set (split_segments_from (Some c) (current @ [c]) cs)"
      using "3.prems" by (simp only: split_segments_from.simps True if_True)
    from "3.IH"(1) [OF True this] show ?thesis by auto
  next
    case False
    show ?thesis
    proof (cases "is_separator c")
      case True
      have "s = current \<or> s \<in> set (split_segments_from None [] cs)"
        using "3.prems" by (simp only: split_segments_from.simps False True if_True if_False set_simps insert_iff)
      then show ?thesis using "3.IH"(2) [OF False True, of s] by auto
    next
      case sep: False
      have "s \<in> set (split_segments_from None (current @ [c]) cs)"
        using "3.prems" by (simp only: split_segments_from.simps False sep if_False)
      from "3.IH"(3) [OF False sep this] show ?thesis by auto
    qed
  qed
qed simp

lemma space_not_quote: "is_space c \<Longrightarrow> \<not> is_quote c"
  by (auto simp: is_space_def is_quote_def code_point_def)

lemma strip_decompose: "\<exists>a b. s = a @ strip s @ b \<and> list_all is_space a \<and> list_all is_space b"
proof -
  have l: "\<exists>a. t = a @ lstrip t \<and> list_all is_space a" for t
    by (rule exI [of _ "takeWhile is_space t"])
       (auto simp: lstrip_def list_all_iff dest: set_takeWhileD)
  obtain a where a: "s = a @ lstrip s" "list_all is_space a" using l by blast
  obtain b where b: "rev (lstrip s) = b @ lstrip (rev (lstrip s))" "list_all is_space b" using l by blast
  have "lstrip s = strip s @ rev b" using arg_cong [OF b(1), of rev] by (simp add: strip_def)
  with a b(2) show ?thesis
    by (intro exI [of _ a] exI [of _ "rev b"]) (simp add: list_all_iff)
qed

lemma outside_strip: "set (outside None (strip s)) \<subseteq> set (outside None s)"
proof -
  obtain a b where ab: "s = a @ strip s @ b" "list_all is_space a" using strip_decompose by blast
  have "\<not> list_ex is_quote a" using ab(2) space_not_quote by (auto simp: list_all_iff list_ex_iff)
  then have "outside None (a @ strip s @ b) = a @ outside None (strip s) @ outside (quote_after None (strip s)) b"
    using outside_plain [of a] by (simp add: outside_append)
  then show ?thesis using ab(1) by (metis Un_iff set_append subsetI)
qed

lemma segment_no_separator:
  assumes "s \<in> set (split_command_segments t)"
  shows "list_all (\<lambda>c. \<not> is_separator c) (outside None s)"
proof -
  obtain u where "u \<in> set (split_segments_from None [] t)" "s = strip u"
    using assms by (auto simp: split_command_segments_def)
  then show ?thesis
    using split_segments_no_separator [of "[]" None t] outside_strip [of u] by (auto simp: list_all_iff)
qed

section \<open>Masking\<close>

lemma mask_Double:
  "c \<noteq> BSL \<Longrightarrow> mask_from Double_Quoted (c # cs) =
     (if c = DQ then CHR ''Q'' # mask_from Unquoted cs
      else if c = BTICK then c # mask_from Double_Quoted cs
      else if c = CHR ''$'' \<and> cs \<noteq> [] \<and> hd cs \<in> {CHR ''('', CHR ''{''}
      then c # hd cs # mask_from Double_Quoted (tl cs)
      else mask_from Double_Quoted cs)"
  by (cases cs) simp_all

fun mask_state :: "char option \<Rightarrow> quote" where
  "mask_state None = Unquoted"
| "mask_state (Some q) = (if q = SQ then Single_Quoted else Double_Quoted)"

text \<open>Without backslashes the mask keeps what is outside quotes and refuses an open quote.\<close>

lemma mask_outside:
  assumes "BSL \<notin> set s" and "q \<in> {None, Some SQ, Some DQ}"
  shows "set (outside q s) \<subseteq> set (mask_from (mask_state q) s) \<and>
    (CHR ''('' \<in> set (mask_from (mask_state q) s) \<or> quote_after q s = None)"
  using assms
proof (induction "length s" arbitrary: q s rule: less_induct)
  case less
  show ?case
  proof (cases s)
    case Nil
    then show ?thesis using less.prems(2) by auto
  next
    case (Cons c cs)
    have c: "c \<noteq> BSL" "BSL \<notin> set cs" using less.prems(1) Cons by auto
    have IH: "set (outside r t) \<subseteq> set (mask_from (mask_state r) t) \<and>
        (CHR ''('' \<in> set (mask_from (mask_state r) t) \<or> quote_after r t = None)"
      if "length t \<le> length cs" "set t \<subseteq> set cs" "r \<in> {None, Some SQ, Some DQ}" for r t
    proof (rule less.hyps)
      show "length t < length s" using that(1) Cons by simp
      show "BSL \<notin> set t" using that(2) c(2) by blast
    qed (rule that(3))
    consider "q = None" | "q = Some SQ" | "q = Some DQ" using less.prems(2) by auto
    then show ?thesis
    proof cases
      case 1
      with IH [of cs None] IH [of cs "Some c"] c(1) show ?thesis
        by (auto simp: Cons is_quote_def)
    next
      case 2
      with IH [of cs None] IH [of cs "Some SQ"] show ?thesis by (auto simp: Cons)
    next
      case 3
      show ?thesis
      proof (cases "c = CHR ''$'' \<and> cs \<noteq> [] \<and> hd cs \<in> {CHR ''('', CHR ''{''}")
        case True
        then obtain d ds where d: "cs = d # ds" "d \<noteq> DQ" by (cases cs) auto
        have "set (outside (Some DQ) ds) \<subseteq> set (mask_from Double_Quoted ds) \<and>
            (CHR ''('' \<in> set (mask_from Double_Quoted ds) \<or> quote_after (Some DQ) ds = None)"
          using IH [of ds "Some DQ"] d(1) by (simp add: subset_insertI)
        moreover have "outside q s = outside (Some DQ) ds" "quote_after q s = quote_after (Some DQ) ds"
          using 3 d True by (simp_all add: Cons)
        moreover have "mask_from (mask_state q) s = c # d # mask_from Double_Quoted ds"
          using 3 d True unfolding Cons by (simp only: mask_state.simps mask_Double [OF c(1)]) auto
        ultimately show ?thesis by auto
      next
        case False
        have m: "mask_from Double_Quoted (c # cs) =
            (if c = DQ then CHR ''Q'' # mask_from Unquoted cs
             else if c = BTICK then c # mask_from Double_Quoted cs else mask_from Double_Quoted cs)"
          by (simp only: mask_Double [OF c(1)] False if_False)
        show ?thesis using m IH [of cs None] IH [of cs "Some DQ"] unfolding Cons 3
          by (cases "c = DQ") (auto simp del: mask_from.simps)
      qed
    qed
  qed
qed

text \<open>Inside quotes the mask shows something, and nothing a whitelisted command contains.\<close>

definition mask_signs :: "char set" where
  "mask_signs = {CHR ''Q'', CHR ''('', BTICK, CHR ''$''}"

lemma mask_quoted_hd:
  assumes "BSL \<notin> set s" and "q \<noteq> Unquoted"
  shows "mask_from q s \<noteq> [] \<and> hd (mask_from q s) \<in> mask_signs"
  using assms
proof (induction s)
  case Nil
  then show ?case by (simp add: mask_signs_def)
next
  case (Cons c cs)
  then have IH: "mask_from q cs \<noteq> [] \<and> hd (mask_from q cs) \<in> mask_signs" and c: "c \<noteq> BSL" by auto
  from \<open>q \<noteq> Unquoted\<close> consider "q = Single_Quoted" | "q = Double_Quoted" by (cases q) auto
  then show ?case
  proof cases
    case 1
    with IH show ?thesis by (simp add: mask_signs_def)
  next
    case 2
    with IH show ?thesis by (simp only: mask_Double [OF c]) (auto simp: mask_signs_def)
  qed
qed

lemma mask_plain_prefix:
  "\<not> list_ex (\<lambda>c. is_quote c \<or> c = BSL) xs \<Longrightarrow> mask_from Unquoted (xs @ ys) = xs @ mask_from Unquoted ys"
  by (induction xs) (auto simp: is_quote_def)

lemma mask_front:
  assumes "BSL \<notin> set s"
  shows "\<exists>u v r. s = u @ v \<and> mask_quoted s = u @ r \<and> (v = [] \<and> r = [] \<or>
           r \<noteq> [] \<and> hd r \<in> mask_signs)"
proof -
  define u where "u = takeWhile (\<lambda>c. \<not> is_quote c) s"
  define v where "v = dropWhile (\<lambda>c. \<not> is_quote c) s"
  have uv: "s = u @ v" by (simp add: u_def v_def)
  have "\<forall>c \<in> set u. \<not> is_quote c" by (auto simp: u_def dest: set_takeWhileD)
  moreover have "BSL \<notin> set u" using assms by (auto simp: u_def dest: set_takeWhileD)
  ultimately have "\<not> list_ex (\<lambda>c. is_quote c \<or> c = BSL) u" by (auto simp: list_ex_iff)
  from mask_plain_prefix [OF this, of v] have m: "mask_quoted s = u @ mask_from Unquoted v"
    by (simp only: mask_quoted_def flip: uv)
  show ?thesis
  proof (cases v)
    case Nil
    then show ?thesis using uv m by (intro exI [of _ u] exI [of _ "[]"]) simp
  next
    case (Cons c cs)
    then have c: "is_quote c" unfolding v_def by (metis hd_dropWhile list.discI list.sel(1))
    define q where "q = (if c = SQ then Single_Quoted else Double_Quoted)"
    have q: "q \<noteq> Unquoted" "mask_from Unquoted v = mask_from q cs"
      using c by (auto simp: Cons is_quote_def q_def)
    have "BSL \<notin> set (u @ v)" using assms uv by metis
    then have "BSL \<notin> set cs" by (simp add: Cons)
    then show ?thesis using q(2) uv m mask_quoted_hd [OF _ q(1), of cs] by metis
  qed
qed

lemma whitelist_chars:
  "list_all (\<lambda>p. list_all (\<lambda>c. c \<notin> mask_signs) (p @ '' '')) READ_ONLY_COMMANDS"
  by (simp add: READ_ONLY_COMMANDS_def mask_signs_def)

lemma prefix_before:
  assumes "prefix w (u @ r)" and "r \<noteq> []" and "hd r \<notin> set w"
  shows "prefix w u"
proof (rule ccontr)
  assume "\<not> prefix w u"
  then obtain z where z: "w = u @ z" "prefix z r" "z \<noteq> []"
    using assms(1) by (auto simp: prefix_append)
  then have "hd z = hd r" by (cases z; cases r) auto
  then show False using z(1,3) assms(3) by (cases z) auto
qed

lemma masked_whitelist:
  assumes "BSL \<notin> set s" and p: "p \<in> set READ_ONLY_COMMANDS"
    and m: "mask_quoted s = p \<or> starts_with (mask_quoted s) (p @ '' '')"
  shows "s = p \<or> starts_with s (p @ '' '')"
proof -
  obtain u v r where uv: "s = u @ v" "mask_quoted s = u @ r"
    and r: "v = [] \<and> r = [] \<or> r \<noteq> [] \<and> hd r \<in> mask_signs"
    using mask_front [OF assms(1)] by blast
  have no: "c \<notin> set (p @ '' '')" if "c \<in> mask_signs" for c
    using whitelist_chars p that unfolding list_all_iff by blast
  from r show ?thesis
  proof (elim disjE conjE)
    assume "v = []" "r = []"
    then show ?thesis using uv m by simp
  next
    assume ne: "r \<noteq> []" and hd: "hd r \<in> mask_signs"
    have "hd r \<in> set r" using ne by simp
    then have "mask_quoted s \<noteq> p" using uv(2) no [OF hd] by auto
    then have "prefix (p @ '' '') (u @ r)" using m uv(2) by (simp add: starts_with_def)
    then have "prefix (p @ '' '') u" using ne no [OF hd] by (rule prefix_before)
    then show ?thesis using uv(1) by (simp add: starts_with_def prefix_prefix)
  qed
qed

section \<open>Redirections\<close>

lemma set_sub_redirects: "set (sub_redirects s) \<subseteq> insert (CHR '' '') (set s)"
proof (induction s rule: sub_redirects.induct)
  case (1 s)
  show ?case
  proof (cases s)
    case Nil
    then show ?thesis by (simp add: sub_redirects.simps)
  next
    case (Cons c cs)
    show ?thesis
    proof (cases "match_redirect s")
      case None
      with 1(1) [OF Cons None] Cons show ?thesis by (subst sub_redirects.simps) auto
    next
      case (Some n)
      then have "set (sub_redirects (drop n s)) \<subseteq> insert (CHR '' '') (set s)"
        using 1(2) [OF Cons Some] set_drop_subset [of n s] by blast
      with Some Cons show ?thesis by (subst sub_redirects.simps) auto
    qed
  qed
qed

lemma sub_redirects_id: "CHR ''>'' \<notin> set s \<Longrightarrow> sub_redirects s = s"
proof (induction s)
  case Nil
  then show ?case by (simp add: sub_redirects.simps)
next
  case (Cons c cs)
  then have "match_redirect (c # cs) = None"
    by (auto simp: match_redirect_def split: list.splits)
  with Cons show ?case by (subst sub_redirects.simps) simp
qed

section \<open>Acceptance\<close>

lemma contains_char [simp]: "contains_str s [c] \<longleftrightarrow> c \<in> set s"
  unfolding contains_str_def sublist_def by (auto simp: in_set_conv_decomp)

lemma segment_is_simple:
  assumes "segment_is_read_only s" and bsl: "BSL \<notin> set s"
    and sep: "list_all (\<lambda>c. \<not> is_separator c) (outside None s)"
  shows "simple_segment s"
proof -
  have con: "\<not> list_ex (contains_str (mask_quoted s)) EXECUTABLE_CONSTRUCTS"
    and wl: "list_ex (\<lambda>p. mask_quoted s = p \<or> starts_with (mask_quoted s) (p @ '' '')) READ_ONLY_COMMANDS"
    using assms(1) by (auto simp: segment_is_read_only_def Let_def split: if_splits)
  have m: "set (outside None s) \<subseteq> set (mask_quoted s)"
    "CHR ''('' \<in> set (mask_quoted s) \<or> quote_after None s = None"
    using mask_outside [OF bsl, of None] by (simp_all add: mask_quoted_def)
  have "list_all (\<lambda>c. c \<notin> set (mask_quoted s)) (BTICK # ''()[]{}$@<>'')"
    using con by (simp add: EXECUTABLE_CONSTRUCTS_def)
  then have no: "\<forall>c \<in> set (mask_quoted s). c \<notin> set ''()[]{}$@<>'' \<and> c \<noteq> BTICK"
    by (auto simp: list_all_iff)
  moreover have "quote_after None s = None" using m(2) no by auto
  moreover have "list_ex (\<lambda>p. s = p \<or> starts_with s (p @ '' '')) READ_ONLY_COMMANDS"
    using wl masked_whitelist [OF bsl] by (auto simp: list_ex_iff)
  ultimately show ?thesis using sep m(1) unfolding simple_segment_def list_all_iff by blast
qed


section \<open>Escaped quotes\<close>

definition payload_char :: "char \<Rightarrow> bool" where
  "payload_char c = (c \<noteq> BSL \<and> \<not> is_quote c \<and> c \<notin> set '':()[]{}$@<>'' \<and> c \<noteq> BTICK)"

definition escaped_command :: "string \<Rightarrow> string" where
  "escaped_command payload = ''echo '' @ [BSL, DQ] @ '' ; '' @ payload @ '' ; echo '' @ [BSL, DQ]"

lemma split_quoted: "q \<notin> set xs \<Longrightarrow> split_segments_from (Some q) cur (xs @ ys) = split_segments_from (Some q) (cur @ xs) ys"
  by (induction xs arbitrary: cur) auto

lemma tokens_double:
  "DQ \<notin> set xs \<Longrightarrow> BTICK \<notin> set xs \<Longrightarrow>
   tokens_from Double_Quoted cur (xs @ ys) = tokens_from Double_Quoted (cur @ xs) ys"
  by (induction xs arbitrary: cur) auto

lemma contains_no_char: "x \<in> set w \<Longrightarrow> x \<notin> set s \<Longrightarrow> \<not> contains_str s w"
  unfolding contains_str_def by (meson set_mono_sublist subsetD)

lemma escaped_parts:
  "escaped_command payload = ''echo '' @ [BSL, DQ] @ ('' ; '' @ payload @ '' ; echo '') @ [BSL, DQ]"
  by (simp add: escaped_command_def)

lemma payload_not:
  assumes "list_all payload_char payload" and "x \<in> {BSL, SQ, DQ, BTICK} \<union> set '':()[]{}$@<>''"
  shows "x \<notin> set ('' ; '' @ payload @ '' ; echo '')"
  using assms by (auto simp: list_all_iff payload_char_def is_quote_def)

lemma strip_id: "s \<noteq> [] \<Longrightarrow> \<not> is_space (hd s) \<Longrightarrow> \<not> is_space (last s) \<Longrightarrow> strip s = s"
proof -
  assume s: "s \<noteq> []" "\<not> is_space (hd s)" "\<not> is_space (last s)"
  have "lstrip s = s" using s(1,2) by (cases s) (simp_all add: lstrip_def)
  moreover have "lstrip (rev s) = rev s" using s(1,3) by (cases s rule: rev_cases) (simp_all add: lstrip_def)
  ultimately show "strip s = s" by (simp add: strip_def)
qed

lemma escaped_strip [simp]: "strip (escaped_command payload) = escaped_command payload"
  by (rule strip_id) (simp_all add: escaped_command_def is_space_def code_point_def)

lemma escaped_segments:
  assumes "list_all payload_char payload"
  shows "split_command_segments (sub_redirects (escaped_command payload)) = [escaped_command payload]"
proof -
  define mid where "mid = '' ; '' @ payload @ '' ; echo ''"
  have no: "x \<notin> set mid" if "x \<in> {BSL, SQ, DQ, BTICK} \<union> set '':()[]{}$@<>''" for x
    unfolding mid_def by (rule payload_not [OF assms that])
  have c: "escaped_command payload = ''echo '' @ [BSL, DQ] @ mid @ [BSL, DQ]"
    by (simp only: escaped_parts mid_def)
  have "CHR ''>'' \<notin> set (escaped_command payload)" using no [of "CHR ''>''"] by (simp add: c)
  then have r: "sub_redirects (escaped_command payload) = escaped_command payload" by (rule sub_redirects_id)
  have "DQ \<notin> set (mid @ [BSL])" using no [of DQ] by simp
  from split_quoted [OF this, of "''echo '' @ [BSL, DQ]" "[DQ]"]
  have "split_segments_from None [] (escaped_command payload) = [escaped_command payload]"
    by (simp add: c is_separator_def)
  moreover have "escaped_command payload \<noteq> []" by (simp add: escaped_command_def)
  ultimately show ?thesis by (simp add: split_command_segments_def r)
qed

lemma escaped_segment_read_only:
  assumes "list_all payload_char payload"
  shows "segment_is_read_only (escaped_command payload)"
proof -
  define mid where "mid = '' ; '' @ payload @ '' ; echo ''"
  have no: "x \<notin> set mid" if "x \<in> {BSL, SQ, DQ, BTICK} \<union> set '':()[]{}$@<>''" for x
    unfolding mid_def by (rule payload_not [OF assms that])
  have c: "escaped_command payload = ''echo '' @ [BSL, DQ] @ mid @ [BSL, DQ]"
    by (simp only: escaped_parts mid_def)
  have "\<not> list_ex (\<lambda>c. is_quote c \<or> c = BSL) mid"
    using no [of SQ] no [of DQ] no [of BSL] by (auto simp: list_ex_iff is_quote_def)
  from mask_plain_prefix [OF this, of "[BSL, DQ]"]
  have m: "mask_quoted (escaped_command payload) = ''echo '' @ mid" by (simp add: c mask_quoted_def)
  have "\<forall>x \<in> {BTICK} \<union> set '':()[]{}$@<>''. x \<notin> set (''echo '' @ mid)" using no by auto
  then have con: "\<not> list_ex (contains_str (''echo '' @ mid)) EXECUTABLE_CONSTRUCTS"
    by (simp add: EXECUTABLE_CONSTRUCTS_def contains_no_char [of "CHR '':''"])
  have "DQ \<notin> set (mid @ [BSL])" "BTICK \<notin> set (mid @ [BSL])" using no [of DQ] no [of BTICK] by simp_all
  from tokens_double [OF this, of "[BSL]" "[DQ]"]
  have t: "real_tokens (escaped_command payload) = [''echo'', BSL # mid @ [BSL]]"
    by (simp add: c real_tokens_def flush_def is_space_def code_point_def)
  have "\<not> arguments_execute_or_write [''echo'', BSL # mid @ [BSL]]"
    by (simp add: arguments_execute_or_write_def option_name_def lower_def lower_char_def code_point_def
        EXECUTING_OPTIONS_def)
  then show ?thesis using con unfolding segment_is_read_only_def m t
    by (simp add: READ_ONLY_COMMANDS_def starts_with_def)
qed

text \<open>
  Escaped quotes get any command past the classifier: the splitter reads an escaped quote
  as the start of a quoted text and the masking does not, so between two of them a separator
  does not split and nothing is hidden from the construct check that would be refused. A
  read-only scope then accepts \<^verbatim>\<open>echo \" ; payload ; echo \"\<close> for every payload of plain words,
  although a shell runs the payload.
\<close>

theorem escaped_quotes_hide_commands:
  assumes "list_all payload_char payload"
  shows "is_read_only_command (escaped_command payload) \<and> ok (check_bash v sid (escaped_command payload))"
proof -
  have "is_read_only_command (escaped_command payload)"
    using escaped_segments [OF assms] escaped_segment_read_only [OF assms]
    by (simp add: is_read_only_command_def Let_def) (simp add: escaped_command_def)
  then show ?thesis by (simp add: check_bash_def ok_def split: workspace_mode.splits)
qed

theorem escaped_quotes_hide_commands_witness:
  "is_read_only_command (escaped_command ''rm -rf /home'') \<and>
   ok (check_bash (make_validator default_workspace (Some ''/ws'')) ''child'' (escaped_command ''rm -rf /home''))"
  by (rule escaped_quotes_hide_commands) (simp add: payload_char_def is_quote_def)

definition sample_command :: string where
  "sample_command = ''grep -n main src | head -5''"


end
