(* ===== verification/Session_Slots.thy ===== *)
theory Session_Slots
  imports PyDict "HOL-Library.Multiset"
begin

text \<open>
  \<open>core/run_lifecycle.py\<close>, \<open>SessionSlots\<close>: the admission of runs, with one semaphore for the
  process and one for each session. The operations below are the critical sections between two
  suspension points; \<open>slots_step\<close> interleaves them over a multiset of tasks, each with the point
  it waits at. Semaphores keep their value; a permit handed to a waiter is taken when the
  waiter resumes. Any waiter may be the one that resumes, so every order the event loop can
  produce is among the runs.
\<close>

section \<open>The slots\<close>

record slots =
  sl_max :: nat
  sl_global :: nat
  sl_per_session :: "(string, nat) pydict"
  sl_active :: "(string, nat) pydict"

definition new_slots :: "int \<Rightarrow> slots" where
  "new_slots max_concurrent =
     \<lparr>sl_max = nat (max 1 max_concurrent), sl_global = nat (max 1 max_concurrent),
      sl_per_session = [], sl_active = []\<rparr>"

text \<open>\<open>acquire\<close> after the global permit: the look-up of the session's semaphore and the count.\<close>

definition session_semaphore :: "string \<Rightarrow> slots \<Rightarrow> slots" where
  "session_semaphore sid s =
     (if dict_has (sl_per_session s) sid then s
      else s\<lparr>sl_per_session := dict_set sid 1 (sl_per_session s)\<rparr>)"

definition register_session :: "string \<Rightarrow> slots \<Rightarrow> slots" where
  "register_session sid s =
     (session_semaphore sid s)\<lparr>sl_active := dict_set sid (dict_get_or (sl_active s) sid 0 + 1) (sl_active s)\<rparr>"

definition take_global :: "slots \<Rightarrow> slots option" where
  "take_global s = (if sl_global s = 0 then None else Some (s\<lparr>sl_global := sl_global s - 1\<rparr>))"

definition take_session :: "string \<Rightarrow> slots \<Rightarrow> slots option" where
  "take_session sid s =
     (case dict_get (sl_per_session s) sid of
        Some (Suc v) \<Rightarrow> Some (s\<lparr>sl_per_session := dict_set sid v (sl_per_session s)\<rparr>)
      | _ \<Rightarrow> None)"

text \<open>\<open>if n > 0: self._active[session_id] = n - 1\<close>.\<close>

definition leave_session :: "string \<Rightarrow> slots \<Rightarrow> slots" where
  "leave_session sid s =
     (let n = dict_get_or (sl_active s) sid 0 in
      if n > 0 then s\<lparr>sl_active := dict_set sid (n - 1) (sl_active s)\<rparr> else s)"

definition give_global :: "slots \<Rightarrow> slots" where
  "give_global s = s\<lparr>sl_global := sl_global s + 1\<rparr>"

text \<open>The handler of \<open>CancelledError\<close> in \<open>acquire\<close>, once the session is registered.\<close>

definition abandon :: "string \<Rightarrow> slots \<Rightarrow> slots" where
  "abandon sid s = give_global (leave_session sid s)"

text \<open>
  \<open>try_acquire\<close>; \<open>locked\<close> says whether a semaphore reads as locked, that is, its value is 0 or
  somebody waits for it.
\<close>

definition try_acquire :: "bool \<Rightarrow> (slots \<Rightarrow> bool) \<Rightarrow> string \<Rightarrow> slots \<Rightarrow> bool \<times> slots" where
  "try_acquire global_locked session_locked sid s =
     (if global_locked then (False, s)
      else
        (case take_global s of
           None \<Rightarrow> (False, s)
         | Some s1 \<Rightarrow>
             let s2 = session_semaphore sid s1 in
             if dict_get_or (sl_active s2) sid 0 > 0 then (False, give_global s2)
             else if session_locked s2 then (False, give_global s2)
             else
               (case take_session sid (s2\<lparr>sl_active := dict_set sid 1 (sl_active s2)\<rparr>) of
                  None \<Rightarrow> (False, s2)
                | Some s3 \<Rightarrow> (True, s3))))"

definition release :: "string \<Rightarrow> slots \<Rightarrow> slots" where
  "release sid s =
     (let s1 = (case dict_get (sl_per_session s) sid of
                  None \<Rightarrow> s
                | Some v \<Rightarrow> s\<lparr>sl_per_session := dict_set sid (v + 1) (sl_per_session s)\<rparr>)
      in give_global (leave_session sid s1))"

datatype slot_error = Session_In_Flight string nat

definition release_session :: "string \<Rightarrow> slots \<Rightarrow> (slot_error, unit, slots) outcome" where
  "release_session sid s =
     (let n = dict_get_or (sl_active s) sid 0 in
      if n > 0 then (Inl (Session_In_Flight sid n), s)
      else (Inr (), s\<lparr>sl_per_session := dict_del sid (sl_per_session s)\<rparr>))"

lemmas slot_defs = session_semaphore_def register_session_def take_global_def take_session_def
  leave_session_def give_global_def abandon_def release_def

section \<open>Interleavings\<close>

datatype phase = Wait_Global | Wait_Session | Holding

type_synonym tasks = "(string \<times> phase) multiset"

definition session_waits :: "string \<Rightarrow> tasks \<Rightarrow> slots \<Rightarrow> bool" where
  "session_waits sid ts s =
     (dict_get_or (sl_per_session s) sid 0 = 0 \<or> (sid, Wait_Session) \<in># ts)"

definition global_waits :: "tasks \<Rightarrow> slots \<Rightarrow> bool" where
  "global_waits ts s = (sl_global s = 0 \<or> (\<exists>sid. (sid, Wait_Global) \<in># ts))"

text \<open>
  One step of the event loop: a call of \<open>acquire\<close> arrives, a waiter gets the global permit and
  registers, a waiter gets its session, a waiter is cancelled at one of its two suspension
  points, \<open>try_acquire\<close> runs, a holder releases, or a session is dropped.
\<close>

inductive slots_step :: "slots \<times> tasks \<Rightarrow> slots \<times> tasks \<Rightarrow> bool" where
  arrive: "slots_step (s, ts) (s, add_mset (sid, Wait_Global) ts)"
| enter: "take_global s = Some s' \<Longrightarrow>
    slots_step (s, add_mset (sid, Wait_Global) ts) (register_session sid s', add_mset (sid, Wait_Session) ts)"
| get_session: "take_session sid s = Some s' \<Longrightarrow>
    slots_step (s, add_mset (sid, Wait_Session) ts) (s', add_mset (sid, Holding) ts)"
| cancel_early: "slots_step (s, add_mset (sid, Wait_Global) ts) (s, ts)"
| cancel_late: "slots_step (s, add_mset (sid, Wait_Session) ts) (abandon sid s, ts)"
| try_ok: "try_acquire (global_waits ts s) (session_waits sid ts) sid s = (True, s') \<Longrightarrow>
    slots_step (s, ts) (s', add_mset (sid, Holding) ts)"
| try_fail: "try_acquire (global_waits ts s) (session_waits sid ts) sid s = (False, s') \<Longrightarrow>
    slots_step (s, ts) (s', ts)"
| finish: "slots_step (s, add_mset (sid, Holding) ts) (release sid s, ts)"
| drop_ok: "release_session sid s = (r, s') \<Longrightarrow> slots_step (s, ts) (s', ts)"

inductive slots_run :: "slots \<times> tasks \<Rightarrow> slots \<times> tasks \<Rightarrow> bool" where
  stay: "slots_run c c"
| move: "slots_run c d \<Longrightarrow> slots_step d e \<Longrightarrow> slots_run c e"

definition reachable_slots :: "int \<Rightarrow> slots \<times> tasks \<Rightarrow> bool" where
  "reachable_slots n c = slots_run (new_slots n, {#}) c"

section \<open>Invariant\<close>

definition waiting_in :: "string \<Rightarrow> tasks \<Rightarrow> nat" where
  "waiting_in sid ts = count ts (sid, Wait_Session)"

definition holding_in :: "string \<Rightarrow> tasks \<Rightarrow> nat" where
  "holding_in sid ts = count ts (sid, Holding)"

definition admitted :: "tasks \<Rightarrow> nat" where
  "admitted ts = size (filter_mset (\<lambda>(sid, p). p \<noteq> Wait_Global) ts)"

definition session_ok :: "slots \<Rightarrow> tasks \<Rightarrow> string \<Rightarrow> bool" where
  "session_ok s ts sid =
     (dict_get_or (sl_active s) sid 0 = waiting_in sid ts + holding_in sid ts \<and>
      (case dict_get (sl_per_session s) sid of
         None \<Rightarrow> dict_get_or (sl_active s) sid 0 = 0
       | Some v \<Rightarrow> v + holding_in sid ts = 1))"

definition slots_inv :: "int \<Rightarrow> slots \<times> tasks \<Rightarrow> bool" where
  "slots_inv n c =
     (case c of (s, ts) \<Rightarrow>
        sl_max s = nat (max 1 n) \<and> sl_global s + admitted ts = sl_max s \<and> (\<forall>sid. session_ok s ts sid))"

lemma task_counts [simp]:
  "waiting_in sid (add_mset (sid', p) ts) = (if sid = sid' \<and> p = Wait_Session then 1 else 0) + waiting_in sid ts"
  "holding_in sid (add_mset (sid', p) ts) = (if sid = sid' \<and> p = Holding then 1 else 0) + holding_in sid ts"
  "admitted (add_mset (sid', p) ts) = (if p = Wait_Global then 0 else 1) + admitted ts"
  by (simp_all add: waiting_in_def holding_in_def admitted_def)

lemma slots_inv_start: "slots_inv n (new_slots n, {#})"
  by (simp add: slots_inv_def new_slots_def session_ok_def dict_get_or_def waiting_in_def holding_in_def admitted_def)

lemma slots_invI:
  "sl_max s = nat (max 1 n) \<Longrightarrow> sl_global s + admitted ts = sl_max s \<Longrightarrow> (\<And>x. session_ok s ts x) \<Longrightarrow>
   slots_inv n (s, ts)"
  by (auto simp: slots_inv_def)

lemma slots_invD:
  assumes "slots_inv n (s, ts)"
  shows "sl_max s = nat (max 1 n)" "sl_global s + admitted ts = sl_max s" "session_ok s ts x"
  using assms by (simp_all add: slots_inv_def)

lemmas session_ok_defs = session_ok_def slot_defs dict_has_def dict_get_or_def Let_def

text \<open>What one critical section does to the view of every session.\<close>

lemma session_ok_semaphore: "session_ok s ts x \<Longrightarrow> session_ok s ts sid \<Longrightarrow> session_ok (session_semaphore sid s) ts x"
  by (auto simp: session_ok_defs split: option.splits)

lemma session_ok_global [simp]: "session_ok (s\<lparr>sl_global := g\<rparr>) ts x = session_ok s ts x"
  by (simp add: session_ok_def split: option.splits)

lemma session_ok_arrive [simp]: "session_ok s (add_mset (sid, Wait_Global) ts) x = session_ok s ts x"
  by (auto simp: session_ok_def split: option.splits)

lemma session_ok_register:
  "session_ok s ts x \<Longrightarrow> session_ok s ts sid \<Longrightarrow>
   session_ok (register_session sid s) (add_mset (sid, Wait_Session) ts) x"
  by (auto simp: session_ok_defs split: option.splits)

lemma session_ok_take:
  "session_ok s (add_mset (sid, Wait_Session) ts) x \<Longrightarrow> take_session sid s = Some s' \<Longrightarrow>
   session_ok s' (add_mset (sid, Holding) ts) x"
  by (auto simp: session_ok_defs split: option.splits nat.splits)

lemma session_ok_abandon:
  "session_ok s (add_mset (sid, Wait_Session) ts) x \<Longrightarrow> session_ok (abandon sid s) ts x"
  by (auto simp: session_ok_defs split: option.splits)

lemma session_ok_release:
  "session_ok s (add_mset (sid, Holding) ts) x \<Longrightarrow> session_ok (release sid s) ts x"
  by (auto simp: session_ok_defs split: option.splits)

lemma session_ok_drop:
  "session_ok s ts x \<Longrightarrow> release_session sid s = (r, s') \<Longrightarrow> session_ok s' ts x"
  by (auto simp: session_ok_defs release_session_def split: option.splits if_splits)

lemma slot_frames [simp]:
  "sl_max (session_semaphore sid s) = sl_max s" "sl_global (session_semaphore sid s) = sl_global s"
  "sl_active (session_semaphore sid s) = sl_active s"
  "sl_max (register_session sid s) = sl_max s" "sl_global (register_session sid s) = sl_global s"
  "sl_max (abandon sid s) = sl_max s" "sl_global (abandon sid s) = sl_global s + 1"
  "sl_max (release sid s) = sl_max s" "sl_global (release sid s) = sl_global s + 1"
  by (simp_all add: slot_defs Let_def split: option.splits)

lemma take_global_Some: "take_global s = Some s' \<longleftrightarrow> sl_global s > 0 \<and> s' = s\<lparr>sl_global := sl_global s - 1\<rparr>"
  by (auto simp: take_global_def)

lemma take_session_frames: "take_session sid s = Some s' \<Longrightarrow> sl_max s' = sl_max s \<and> sl_global s' = sl_global s"
  by (auto simp: take_session_def split: option.splits nat.splits)

text \<open>What \<open>try_acquire\<close> does where the invariant holds: its last two branches cannot be taken.\<close>

lemma try_acquire_eq:
  assumes "slots_inv n (s, ts)"
  shows "try_acquire gl sl sid s =
    (if gl \<or> sl_global s = 0 then (False, s)
     else if dict_get_or (sl_active s) sid 0 > 0 then (False, session_semaphore sid s)
     else if sl (session_semaphore sid (s\<lparr>sl_global := sl_global s - 1\<rparr>)) then (False, session_semaphore sid s)
     else (True, (session_semaphore sid s)\<lparr>sl_global := sl_global s - 1,
                    sl_active := dict_set sid 1 (sl_active s),
                    sl_per_session := dict_set sid 0 (sl_per_session (session_semaphore sid s))\<rparr>))"
proof -
  have sem: "session_semaphore sid (s\<lparr>sl_global := g\<rparr>) = (session_semaphore sid s)\<lparr>sl_global := g\<rparr>" for g
    by (simp add: session_semaphore_def)
  have one: "dict_get (sl_per_session (session_semaphore sid s)) sid = Some 1"
    if "dict_get_or (sl_active s) sid 0 = 0"
    using slots_invD(3) [OF assms, of sid] that by (auto simp: session_ok_defs split: option.splits)
  show ?thesis
    using one by (simp add: try_acquire_def take_global_def give_global_def sem take_session_def Let_def)
qed

lemma session_ok_try:
  assumes "session_ok s ts x" and "dict_get_or (sl_active s) sid 0 = 0" and "session_ok s ts sid"
  shows "session_ok ((session_semaphore sid s)\<lparr>sl_global := g, sl_active := dict_set sid 1 (sl_active s),
           sl_per_session := dict_set sid 0 (sl_per_session (session_semaphore sid s))\<rparr>) (add_mset (sid, Holding) ts) x"
  using assms by (auto simp: session_ok_defs split: option.splits)

lemma try_acquire_inv:
  assumes "slots_inv n (s, ts)" and "try_acquire gl sl sid s = (b, s')"
  shows "slots_inv n (s', if b then add_mset (sid, Holding) ts else ts)"
proof -
  note d = slots_invD [OF assms(1)]
  have keep: "slots_inv n (session_semaphore sid s, ts)"
    using d by (intro slots_invI) (simp_all add: session_ok_semaphore)
  show ?thesis
  proof (cases b)
    case False
    then show ?thesis using assms keep by (auto simp: try_acquire_eq [OF assms(1)] split: if_splits)
  next
    case True
    then have s': "s' = (session_semaphore sid s)\<lparr>sl_global := sl_global s - 1, sl_active := dict_set sid 1 (sl_active s),
           sl_per_session := dict_set sid 0 (sl_per_session (session_semaphore sid s))\<rparr>"
      and free: "dict_get_or (sl_active s) sid 0 = 0" "sl_global s > 0"
      using assms(2) by (auto simp: try_acquire_eq [OF assms(1)] split: if_splits)
    have "slots_inv n (s', add_mset (sid, Holding) ts)"
    proof (rule slots_invI)
      show "session_ok s' (add_mset (sid, Holding) ts) x" for x
        unfolding s' by (rule session_ok_try [OF d(3) free(1) d(3)])
    qed (use d(1,2) free(2) in \<open>simp_all add: s'\<close>)
    then show ?thesis using True by simp
  qed
qed

lemma slots_step_inv: "slots_step c d \<Longrightarrow> slots_inv n c \<Longrightarrow> slots_inv n d"
proof (induction rule: slots_step.induct)
  case (arrive s ts sid)
  note d = slots_invD [OF arrive.prems]
  from d(1,2) show ?case by (intro slots_invI) (simp_all add: d(3))
next
  case (enter s s' sid ts)
  note d = slots_invD [OF enter.prems]
  from enter.hyps d(1,2) show ?case
    by (intro slots_invI) (auto simp: take_global_Some intro!: session_ok_register d(3) [simplified])
next
  case (get_session sid s s' ts)
  note d = slots_invD [OF get_session.prems]
  from get_session.hyps d(1,2) show ?case
    by (intro slots_invI) (auto dest: take_session_frames intro: session_ok_take [OF d(3)])
next
  case (cancel_early s sid ts)
  note d = slots_invD [OF cancel_early.prems]
  from d(1,2) show ?case by (intro slots_invI) (simp_all add: d(3) [simplified])
next
  case (cancel_late s sid ts)
  note d = slots_invD [OF cancel_late.prems]
  from d(1,2) show ?case by (intro slots_invI) (simp_all add: session_ok_abandon [OF d(3)])
next
  case (try_ok ts s sid s')
  then show ?case using try_acquire_inv [OF _ try_ok.hyps] by simp
next
  case (try_fail ts s sid s')
  then show ?case using try_acquire_inv [OF _ try_fail.hyps] by simp
next
  case (finish s sid ts)
  note d = slots_invD [OF finish.prems]
  from d(1,2) show ?case by (intro slots_invI) (simp_all add: session_ok_release [OF d(3)])
next
  case (drop_ok sid s r s' ts)
  note d = slots_invD [OF drop_ok.prems]
  from drop_ok.hyps d(1,2) show ?case
    by (intro slots_invI session_ok_drop [OF d(3) drop_ok.hyps])
       (auto simp: release_session_def Let_def split: if_splits)
qed

lemma reachable_slots_inv: "reachable_slots n c \<Longrightarrow> slots_inv n c"
  unfolding reachable_slots_def
proof (induction "(new_slots n, {#} :: tasks)" c rule: slots_run.induct)
  case stay
  show ?case by (rule slots_inv_start)
next
  case (move d e)
  then show ?case by (blast intro: slots_step_inv)
qed

text \<open>
  C37. Admission is safe and loses nothing: in every reachable state at most as many runs are
  admitted as the limit allows, the free permits and the admitted tasks together are exactly
  the limit, no session ever has two runs at once, its count is the number of its tasks, and
  its semaphore is free exactly when no run holds it, whatever was cancelled or released on
  the way.
\<close>

theorem slots_safe:
  assumes "reachable_slots n (s, ts)"
  shows "sl_global s + admitted ts = nat (max 1 n) \<and>
    holding_in sid ts \<le> 1 \<and>
    dict_get_or (sl_active s) sid 0 = waiting_in sid ts + holding_in sid ts \<and>
    dict_get_or (sl_per_session s) sid 1 = 1 - holding_in sid ts \<and>
    (ok (fst (release_session sid s)) \<longleftrightarrow> waiting_in sid ts + holding_in sid ts = 0)"
proof -
  note d = slots_invD [OF reachable_slots_inv [OF assms]]
  show ?thesis using d(1,2) d(3) [of sid]
    by (auto simp: session_ok_def dict_get_or_def release_session_def Let_def split: option.splits)
qed

section \<open>Progress\<close>

text \<open>
  C38. No admitted task is stuck: one that waits for its session finds it free or held by a
  run, and one that waits for the process finds a free permit or an admitted task, so when
  every holder releases, every waiter can go on.
\<close>

theorem slots_progress:
  assumes "reachable_slots n (s, ts)"
  shows "(if (sid, Wait_Session) \<in># ts \<and> holding_in sid ts = 0 then take_session sid s \<noteq> None else True) \<and>
    (if (sid, Wait_Global) \<in># ts \<and> admitted ts = 0 then take_global s \<noteq> None else True)"
proof -
  note d = slots_invD [OF reachable_slots_inv [OF assms]]
  have "waiting_in sid ts > 0" if "(sid, Wait_Session) \<in># ts" using that by (simp add: waiting_in_def)
  then have "take_session sid s \<noteq> None" if "(sid, Wait_Session) \<in># ts" "holding_in sid ts = 0"
    using that d(3) [of sid] by (auto simp: session_ok_def take_session_def split: option.splits nat.splits)
  moreover have "take_global s \<noteq> None" if "admitted ts = 0"
    using that d(1,2) by (auto simp: take_global_def)
  ultimately show ?thesis by simp
qed

definition sample_slots :: "slots \<times> tasks" where
  "sample_slots =
     (\<lparr>sl_max = 2, sl_global = 0, sl_per_session = [(''a'', 0)], sl_active = [(''a'', 2)]\<rparr>,
      {#(''a'', Wait_Session), (''a'', Holding)#})"

lemma slots_run_steps: "slots_run c d \<Longrightarrow> slots_step d e \<Longrightarrow> slots_run c e"
  by (rule slots_run.move)

text \<open>A task that arrives and enters: one more waiter of its session, one permit less.\<close>

lemma arrive_enter:
  assumes "reachable_slots n (s, ts)" and "sl_global s > 0"
  shows "reachable_slots n (register_session sid (s\<lparr>sl_global := sl_global s - 1\<rparr>), add_mset (sid, Wait_Session) ts)"
proof -
  have "take_global s = Some (s\<lparr>sl_global := sl_global s - 1\<rparr>)" using assms(2) by (simp add: take_global_def)
  from enter [OF this] have "slots_step (s, add_mset (sid, Wait_Global) ts)
      (register_session sid (s\<lparr>sl_global := sl_global s - 1\<rparr>), add_mset (sid, Wait_Session) ts)" .
  with assms(1) arrive show ?thesis unfolding reachable_slots_def by (blast intro: slots_run.move)
qed

lemma first_runs:
  "\<exists>s. reachable_slots (int (Suc k)) (s, {#(sid, Holding)#}) \<and> sl_global s = k"
proof -
  let ?s0 = "new_slots (int (Suc k))"
  have "reachable_slots (int (Suc k)) (?s0, {#})" by (simp add: reachable_slots_def slots_run.stay)
  from arrive_enter [OF this, of sid]
  have r: "reachable_slots (int (Suc k)) (register_session sid (?s0\<lparr>sl_global := k\<rparr>), {#(sid, Wait_Session)#})"
    by (simp add: new_slots_def max_def nat_add_distrib)
  have "take_session sid (register_session sid (?s0\<lparr>sl_global := k\<rparr>)) \<noteq> None"
    by (simp add: take_session_def register_session_def session_semaphore_def new_slots_def dict_has_def dict_get_def)
  then obtain s where s: "take_session sid (register_session sid (?s0\<lparr>sl_global := k\<rparr>)) = Some s" by blast
  then have "sl_global s = k" by (auto dest: take_session_frames)
  moreover have "reachable_slots (int (Suc k)) (s, {#(sid, Holding)#})"
    using r get_session [OF s, of "{#}"] unfolding reachable_slots_def by (blast intro: slots_run.move)
  ultimately show ?thesis by blast
qed

lemma queue_fills:
  "j \<le> k \<Longrightarrow> \<exists>s. reachable_slots (int (Suc k)) (s, replicate_mset j (sid, Wait_Session) + {#(sid, Holding)#}) \<and>
     sl_global s = k - j"
proof (induction j)
  case 0
  show ?case using first_runs [of k sid] by simp
next
  case (Suc j)
  then obtain s where s: "sl_global s = k - j"
    "reachable_slots (int (Suc k)) (s, replicate_mset j (sid, Wait_Session) + {#(sid, Holding)#})" by auto
  from arrive_enter [OF s(2), of sid] s(1) Suc.prems
  have "reachable_slots (int (Suc k)) (register_session sid (s\<lparr>sl_global := k - Suc j\<rparr>),
      replicate_mset (Suc j) (sid, Wait_Session) + {#(sid, Holding)#})" by (simp add: add_mset_commute)
  then show ?case by (intro exI [of _ "register_session sid (s\<lparr>sl_global := k - Suc j\<rparr>)"]) simp
qed

text \<open>
  Tasks that wait for their own session hold a permit of the process meanwhile: whatever
  the limit, there is a run in which a single session with one running task and its queue has
  taken every permit, so no other session is admitted although only one run is active.
\<close>

theorem one_session_takes_all_permits:
  "\<exists>s. reachable_slots (int (Suc k)) (s, replicate_mset k (sid, Wait_Session) + {#(sid, Holding)#}) \<and>
     take_global s = None \<and> fst (try_acquire (global_waits ts s) locked other s) = False"
proof -
  obtain s where "sl_global s = 0"
    "reachable_slots (int (Suc k)) (s, replicate_mset k (sid, Wait_Session) + {#(sid, Holding)#})"
    using queue_fills [of k k sid] by auto
  then show ?thesis by (intro exI [of _ s]) (simp add: take_global_def try_acquire_def global_waits_def)
qed

lemma sample_slots_reachable: "reachable_slots 2 sample_slots"
proof -
  have start: "reachable_slots 2 (new_slots 2, {#})" by (simp add: reachable_slots_def slots_run.stay)
  from arrive_enter [OF this, of "''a''"]
  have 1: "reachable_slots 2 (\<lparr>sl_max = 2, sl_global = 1, sl_per_session = [(''a'', 1)], sl_active = [(''a'', 1)]\<rparr>,
      {#(''a'', Wait_Session)#})"
    by (simp add: new_slots_def register_session_def session_semaphore_def dict_has_def dict_get_or_def)
  have "take_session ''a'' \<lparr>sl_max = 2, sl_global = 1, sl_per_session = [(''a'', 1)], sl_active = [(''a'', 1)]\<rparr>
      = Some \<lparr>sl_max = 2, sl_global = 1, sl_per_session = [(''a'', 0)], sl_active = [(''a'', 1)]\<rparr>"
    by (simp add: take_session_def dict_get_def)
  from slots_run_steps [OF 1 [unfolded reachable_slots_def] get_session [OF this]]
  have "reachable_slots 2 (\<lparr>sl_max = 2, sl_global = 1, sl_per_session = [(''a'', 0)], sl_active = [(''a'', 1)]\<rparr>,
      {#(''a'', Holding)#})" by (simp add: reachable_slots_def)
  from arrive_enter [OF this, of "''a''"] show ?thesis
    by (simp add: sample_slots_def register_session_def session_semaphore_def dict_has_def dict_get_or_def dict_get_def numeral_2_eq_2)
qed

theorem slots_safe_witness:
  "sl_global (fst sample_slots) + admitted (snd sample_slots) = 2 \<and> holding_in ''a'' (snd sample_slots) \<le> 1 \<and>
   \<not> ok (fst (release_session ''a'' (fst sample_slots)))"
proof -
  have "reachable_slots 2 (fst sample_slots, snd sample_slots)" using sample_slots_reachable by simp
  from slots_safe [OF this, of "''a''"] show ?thesis by (simp add: sample_slots_def)
qed

theorem slots_progress_witness:
  "(if (''a'', Wait_Session) \<in># snd sample_slots \<and> holding_in ''a'' (snd sample_slots) = 0
    then take_session ''a'' (fst sample_slots) \<noteq> None else True) \<and> (''a'', Wait_Session) \<in># snd sample_slots"
proof -
  have "reachable_slots 2 (fst sample_slots, snd sample_slots)" using sample_slots_reachable by simp
  from slots_progress [OF this, of "''a''"] show ?thesis by (simp add: sample_slots_def)
qed

end
