(* ===== verification/Plan_Tree.thy ===== *)
theory Plan_Tree
  imports PyDict Complex_Main
begin

text \<open>
  \<open>core/state.py\<close>: the task tree of a plan and its validation. A node carries the fields the
  operations below read or write; the texts of a task (requirement, result, reflections) and its
  update time play no role in them. An error of \<open>validate_plan\<close> is a constructor with the ids its
  message names.
\<close>

section \<open>Nodes and trees\<close>

datatype task_status =
    T_PENDING | T_WAITING | T_RUNNING | T_PASSED | T_FAILED | T_RE_PLANNING | T_CANCELLED

record task_node =
  tn_id :: string
  tn_title :: string
  tn_status :: task_status
  tn_parent_id :: "string option"
  tn_children_ids :: "string list"
  tn_dependent_tasks :: "string list"
  tn_depth :: int
  tn_error_history :: "string list"
  tn_retry_count :: int
  tn_is_atomic :: bool
  tn_created_at :: rat

record task_tree =
  tt_goal_id :: string
  tt_nodes :: "(string, task_node) pydict"

definition get_node :: "task_tree \<Rightarrow> string \<Rightarrow> task_node option" where
  "get_node t k = dict_get (tt_nodes t) k"

definition is_leaf :: "task_node \<Rightarrow> bool" where
  "is_leaf n = (tn_children_ids n = [])"

definition get_task_children :: "task_tree \<Rightarrow> string \<Rightarrow> task_node list option" where
  "get_task_children t k =
     map_option (\<lambda>n. List.map_filter (get_node t) (tn_children_ids n)) (get_node t k)"

definition get_leaf_nodes :: "task_tree \<Rightarrow> task_node list" where
  "get_leaf_nodes t = filter is_leaf (dict_values (tt_nodes t))"

definition get_pending_leaves :: "task_tree \<Rightarrow> task_node list" where
  "get_pending_leaves t = filter (\<lambda>n. is_leaf n \<and> tn_status n = T_PENDING) (dict_values (tt_nodes t))"

definition get_failed_nodes :: "task_tree \<Rightarrow> task_node list" where
  "get_failed_nodes t = filter (\<lambda>n. tn_status n = T_FAILED) (dict_values (tt_nodes t))"

definition find_by_title :: "task_tree \<Rightarrow> string \<Rightarrow> task_node option" where
  "find_by_title t title =
     find (\<lambda>n. lower (strip (tn_title n)) = lower (strip title)) (dict_values (tt_nodes t))"

definition add_node :: "task_node \<Rightarrow> task_tree \<Rightarrow> task_tree" where
  "add_node n t = t\<lparr>tt_nodes := dict_set (tn_id n) n (tt_nodes t)\<rparr>"

text \<open>A write to the node object stored under a key.\<close>

definition put_node :: "string \<Rightarrow> task_node \<Rightarrow> task_tree \<Rightarrow> task_tree" where
  "put_node k n t = t\<lparr>tt_nodes := dict_set k n (tt_nodes t)\<rparr>"

definition plan_is_complete :: "task_tree \<Rightarrow> bool" where
  "plan_is_complete t =
     (get_leaf_nodes t \<noteq> [] \<and>
      list_all (\<lambda>n. tn_status n = T_PASSED \<or> tn_status n = T_CANCELLED) (get_leaf_nodes t))"

definition to_dag :: "task_tree \<Rightarrow> (string, string list) pydict" where
  "to_dag t = fold (\<lambda>n d. if is_leaf n then dict_set (tn_id n) (tn_dependent_tasks n) d else d)
                (dict_values (tt_nodes t)) []"

section \<open>Finding a cycle\<close>

type_synonym adjacency = "(string, string list) pydict"

text \<open>
  The state of the depth-first search: the colours (0 unseen, 1 on the path, 2 done), the path
  and the position of each node on it. The number bounds the depth of the recursion; \<open>None\<close>
  is Python's \<open>RecursionError\<close>.
\<close>

record dfs =
  df_colors :: "(string, nat) pydict"
  df_path :: "string list"
  df_positions :: "(string, nat) pydict"

definition color :: "dfs \<Rightarrow> string \<Rightarrow> nat" where
  "color st v = dict_get_or (df_colors st) v 0"

definition neighbors :: "adjacency \<Rightarrow> string \<Rightarrow> string list" where
  "neighbors adj u = dict_get_or adj u []"

definition push_node :: "string \<Rightarrow> dfs \<Rightarrow> dfs" where
  "push_node u st =
     st\<lparr>df_colors := dict_set u 1 (df_colors st),
        df_positions := dict_set u (length (df_path st)) (df_positions st),
        df_path := df_path st @ [u]\<rparr>"

definition pop_node :: "string \<Rightarrow> dfs \<Rightarrow> dfs" where
  "pop_node u st =
     st\<lparr>df_path := butlast (df_path st), df_positions := dict_del u (df_positions st),
        df_colors := dict_set u 2 (df_colors st)\<rparr>"

fun visit :: "nat \<Rightarrow> adjacency \<Rightarrow> string \<Rightarrow> dfs \<Rightarrow> (string list option \<times> dfs) option"
  and visit_all :: "nat \<Rightarrow> adjacency \<Rightarrow> string list \<Rightarrow> dfs \<Rightarrow> (string list option \<times> dfs) option" where
  "visit 0 adj u st = None"
| "visit (Suc n) adj u st =
     (case visit_all n adj (neighbors adj u) (push_node u st) of
        None \<Rightarrow> None
      | Some (Some cycle, st') \<Rightarrow> Some (Some cycle, st')
      | Some (None, st') \<Rightarrow> Some (None, pop_node u st'))"
| "visit_all n adj [] st = Some (None, st)"
| "visit_all n adj (v # vs) st =
     (if color st v = 0 then
        (case visit n adj v st of
           None \<Rightarrow> None
         | Some (Some cycle, st') \<Rightarrow> Some (Some cycle, st')
         | Some (None, st') \<Rightarrow> visit_all n adj vs st')
      else if color st v = 1 then
        Some (Some (drop (dict_get_or (df_positions st) v 0) (df_path st) @ [v]), st)
      else visit_all n adj vs st)"

text \<open>The loop over the candidates, each searched from if it is still unseen.\<close>

fun find_cycle_from :: "nat \<Rightarrow> adjacency \<Rightarrow> string list \<Rightarrow> dfs \<Rightarrow> string list option option" where
  "find_cycle_from n adj [] st = Some None"
| "find_cycle_from n adj (c # cs) st =
     (if color st c = 0 then
        (case visit n adj c st of
           None \<Rightarrow> None
         | Some (Some cycle, st') \<Rightarrow> Some (Some cycle)
         | Some (None, st') \<Rightarrow> find_cycle_from n adj cs st')
      else find_cycle_from n adj cs st)"

definition start_dfs :: "adjacency \<Rightarrow> dfs" where
  "start_dfs adj = \<lparr>df_colors = map (\<lambda>(k, _). (k, 0)) adj, df_path = [], df_positions = []\<rparr>"

definition find_cycle :: "nat \<Rightarrow> adjacency \<Rightarrow> string list option option" where
  "find_cycle fuel adj = find_cycle_from fuel adj (dict_keys adj) (start_dfs adj)"

section \<open>Validation\<close>

datatype plan_error =
    Root_Missing string
  | Root_Has_Parent string string
  | Key_Mismatch string string
  | Duplicate_Children string
  | Duplicate_Dependencies string
  | No_Parent string
  | Unknown_Parent string string
  | Parent_Omits_Child string string
  | Own_Child string
  | Unknown_Child string string
  | Child_Points_Elsewhere string string
  | Own_Dependency string
  | Unknown_Dependency string string
  | Hierarchy_Cycle "string list"
  | Dependency_Cycle "string list"
  | Unreachable string

definition err_if :: "bool \<Rightarrow> plan_error \<Rightarrow> plan_error list" where
  "err_if b e = (if b then [e] else [])"

definition root_errors :: "task_tree \<Rightarrow> plan_error list" where
  "root_errors t =
     (case get_node t (tt_goal_id t) of
        None \<Rightarrow> [Root_Missing (tt_goal_id t)]
      | Some r \<Rightarrow> (case tn_parent_id r of None \<Rightarrow> [] | Some p \<Rightarrow> [Root_Has_Parent (tt_goal_id t) p]))"

definition parent_errors :: "task_tree \<Rightarrow> string \<Rightarrow> task_node \<Rightarrow> plan_error list" where
  "parent_errors t k n =
     (if k = tt_goal_id t then []
      else
        (case tn_parent_id n of
           None \<Rightarrow> [No_Parent k]
         | Some p \<Rightarrow>
             (case get_node t p of
                None \<Rightarrow> [Unknown_Parent k p]
              | Some pn \<Rightarrow> err_if (k \<notin> set (tn_children_ids pn)) (Parent_Omits_Child p k))))"

definition child_errors :: "task_tree \<Rightarrow> string \<Rightarrow> string \<Rightarrow> plan_error list" where
  "child_errors t k c =
     err_if (c = k) (Own_Child k) @
     (case get_node t c of
        None \<Rightarrow> [Unknown_Child k c]
      | Some cn \<Rightarrow> err_if (tn_parent_id cn \<noteq> Some k) (Child_Points_Elsewhere c k))"

definition dependency_errors :: "task_tree \<Rightarrow> string \<Rightarrow> string \<Rightarrow> plan_error list" where
  "dependency_errors t k d =
     err_if (d = k) (Own_Dependency k) @ err_if (get_node t d = None) (Unknown_Dependency k d)"

definition node_errors :: "task_tree \<Rightarrow> string \<Rightarrow> task_node \<Rightarrow> plan_error list" where
  "node_errors t k n =
     err_if (tn_id n \<noteq> k) (Key_Mismatch k (tn_id n)) @
     err_if (\<not> distinct (tn_children_ids n)) (Duplicate_Children k) @
     err_if (\<not> distinct (tn_dependent_tasks n)) (Duplicate_Dependencies k) @
     parent_errors t k n @
     concat (map (child_errors t k) (tn_children_ids n)) @
     concat (map (dependency_errors t k) (tn_dependent_tasks n))"

definition hierarchy :: "task_tree \<Rightarrow> adjacency" where
  "hierarchy t = map (\<lambda>(k, n). (k, filter (\<lambda>c. get_node t c \<noteq> None) (tn_children_ids n))) (tt_nodes t)"

definition dependencies :: "task_tree \<Rightarrow> adjacency" where
  "dependencies t = map (\<lambda>(k, n). (k, filter (\<lambda>d. get_node t d \<noteq> None) (tn_dependent_tasks n))) (tt_nodes t)"

text \<open>
  The work list from the root; \<open>pop\<close> takes the last element. \<open>hierarchy[node_id]\<close> never misses,
  because only known children were entered.
\<close>

function reach :: "adjacency \<Rightarrow> string list \<Rightarrow> string list \<Rightarrow> string list" where
  "reach adj seen pending =
     (if pending = [] then seen
      else
        (let u = last pending; rest = butlast pending in
         if u \<in> set seen \<or> \<not> dict_has adj u then reach adj seen rest
         else reach adj (u # seen) (rest @ neighbors adj u)))"
  by pat_completeness auto
termination
proof (relation "measures [\<lambda>(adj, seen, pending). card (set (dict_keys adj) - set seen),
                           \<lambda>(adj, seen, pending). length pending]")
  fix adj :: adjacency and seen pending rest :: "string list" and u :: string
  assume p: "pending \<noteq> []" and u: "u = last pending" and r: "rest = butlast pending"
  show "((adj, seen, rest), adj, seen, pending) \<in> measures [\<lambda>(adj, seen, pending). card (set (dict_keys adj) - set seen),
                           \<lambda>(adj, seen, pending). length pending]"
    using p r by simp
  assume new: "\<not> (u \<in> set seen \<or> \<not> dict_has adj u)"
  have "set (dict_keys adj) - set (u # seen) \<subset> set (dict_keys adj) - set seen"
    using new by (auto simp: dict_has_iff)
  then show "((adj, u # seen, rest @ neighbors adj u), adj, seen, pending)
      \<in> measures [\<lambda>(adj, seen, pending). card (set (dict_keys adj) - set seen), \<lambda>(adj, seen, pending). length pending]"
    by (simp add: psubset_card_mono)
qed simp

declare reach.simps [simp del]

definition cycle_errors :: "(string list \<Rightarrow> plan_error) \<Rightarrow> string list option option \<Rightarrow> plan_error list" where
  "cycle_errors e r = (case r of Some (Some c) \<Rightarrow> [e c] | _ \<Rightarrow> [])"

definition reach_errors :: "task_tree \<Rightarrow> plan_error list" where
  "reach_errors t =
     (if get_node t (tt_goal_id t) = None then []
      else let seen = reach (hierarchy t) [] [tt_goal_id t] in
        map Unreachable (filter (\<lambda>k. k \<notin> set seen) (dict_keys (tt_nodes t))))"

text \<open>\<open>None\<close>: the recursion of the search went deeper than the given number of calls.\<close>

definition validate_plan_with :: "nat \<Rightarrow> task_tree \<Rightarrow> plan_error list option" where
  "validate_plan_with fuel t =
     (let h = find_cycle fuel (hierarchy t); d = find_cycle fuel (dependencies t) in
      if h = None \<or> d = None then None
      else Some (root_errors t @ concat (map (\<lambda>(k, n). node_errors t k n) (tt_nodes t)) @
                 cycle_errors Hierarchy_Cycle h @ cycle_errors Dependency_Cycle d @ reach_errors t))"

definition validate_plan :: "task_tree \<Rightarrow> plan_error list option" where
  "validate_plan t = validate_plan_with (Suc (length (tt_nodes t))) t"

definition assert_valid_plan :: "task_tree \<Rightarrow> plan_error list + unit" where
  "assert_valid_plan t =
     (case validate_plan t of Some [] \<Rightarrow> Inr () | Some es \<Rightarrow> Inl es | None \<Rightarrow> Inl [])"

end
