(* ===== verification/Plan_Scheduler.thy ===== *)
theory Plan_Scheduler
  imports Plan_Tree "HOL-Library.Product_Lexorder"
begin

text \<open>
  \<open>execution/scheduler.py\<close> and the mutations of a plan by \<open>planning/decomposer.py\<close> and
  \<open>validation/re_planner.py\<close>. The loop over the pending leaves changes the nodes while it runs;
  it is a recursion over their keys that hands on the tree. What a model proposes as sub-tasks is
  an argument, as are the identifiers of new nodes.
\<close>

section \<open>Ready tasks\<close>

datatype dep_scan = Deps_Met | Deps_Cancelled | Deps_Open | Dep_Missing string

fun scan_deps :: "task_tree \<Rightarrow> string list \<Rightarrow> dep_scan" where
  "scan_deps t [] = Deps_Met"
| "scan_deps t (d # ds) =
     (case get_node t d of
        None \<Rightarrow> Dep_Missing d
      | Some n \<Rightarrow>
          if tn_status n = T_PASSED then scan_deps t ds
          else if tn_status n = T_CANCELLED then Deps_Cancelled
          else Deps_Open)"

definition pending_leaf_keys :: "task_tree \<Rightarrow> string list" where
  "pending_leaf_keys t = map fst (filter (\<lambda>(k, n). is_leaf n \<and> tn_status n = T_PENDING) (tt_nodes t))"

datatype scheduler_error = Missing_Dependency string string

fun ready_loop :: "string list \<Rightarrow> string list \<Rightarrow> task_tree \<Rightarrow> (scheduler_error, string list, task_tree) outcome" where
  "ready_loop [] ready t = (Inr ready, t)"
| "ready_loop (k # ks) ready t =
     (case get_node t k of
        None \<Rightarrow> ready_loop ks ready t
      | Some n \<Rightarrow>
          (case scan_deps t (tn_dependent_tasks n) of
             Dep_Missing d \<Rightarrow> (Inl (Missing_Dependency k d), t)
           | Deps_Cancelled \<Rightarrow> ready_loop ks ready (put_node k (n\<lparr>tn_status := T_CANCELLED\<rparr>) t)
           | Deps_Open \<Rightarrow> ready_loop ks ready t
           | Deps_Met \<Rightarrow> ready_loop ks (if tn_status n = T_PENDING then ready @ [k] else ready) t))"

definition ready_order :: "task_node \<Rightarrow> int \<times> rat" where
  "ready_order n = (tn_depth n, tn_created_at n)"

definition get_ready_tasks :: "task_tree \<Rightarrow> (scheduler_error, task_node list, task_tree) outcome" where
  "get_ready_tasks t =
     (case ready_loop (pending_leaf_keys t) [] t of
        (Inl e, t') \<Rightarrow> (Inl e, t')
      | (Inr ks, t') \<Rightarrow> (Inr (sort_key ready_order (List.map_filter (get_node t') ks)), t'))"

definition new_scheduler :: "task_tree \<Rightarrow> plan_error list + task_tree" where
  "new_scheduler t = (case assert_valid_plan t of Inl es \<Rightarrow> Inl es | Inr _ \<Rightarrow> Inr t)"

definition dep_level :: "task_tree \<Rightarrow> task_node \<Rightarrow> int" where
  "dep_level t n =
     (case List.map_filter (get_node t) (tn_dependent_tasks n) of
        [] \<Rightarrow> - 1 | x # xs \<Rightarrow> fold (\<lambda>m acc. max (tn_depth m) acc) xs (tn_depth x))"

definition get_parallel_groups :: "task_tree \<Rightarrow> (scheduler_error, task_node list list, task_tree) outcome" where
  "get_parallel_groups t =
     (case get_ready_tasks t of
        (Inl e, t') \<Rightarrow> (Inl e, t')
      | (Inr ready, t') \<Rightarrow>
          (Inr (dict_values (fold (\<lambda>n d. dict_set (dep_level t' n) (dict_get_or d (dep_level t' n) [] @ [n]) d) ready [])), t'))"

definition build_dag :: "task_tree \<Rightarrow> (string, string list) pydict" where
  "build_dag t = fold (\<lambda>n d. if is_leaf n then dict_set (tn_id n) (tn_dependent_tasks n) d else d)
                (dict_values (tt_nodes t)) []"

section \<open>Sub-tasks\<close>

record sub_task =
  st_title :: string
  st_depends_on_index :: "int list"
  st_is_atomic :: bool

datatype sub_task_error =
    Too_Many_Tasks nat | Duplicate_Indices nat | Index_Out_Of_Range nat int | Self_Index nat | Index_Cycle

text \<open>\<open>SubTaskList.validate_dependencies\<close>; its colour search is the one of \<open>validate_plan\<close> on indices.\<close>

definition index_errors :: "nat \<Rightarrow> nat \<Rightarrow> int list \<Rightarrow> sub_task_error list" where
  "index_errors count i ds =
     (if \<not> distinct ds then [Duplicate_Indices i] else []) @
     concat (map (\<lambda>d. if d < 0 \<or> d \<ge> int count then [Index_Out_Of_Range i d]
                      else if d = int i then [Self_Index i] else []) ds)"

fun visit_index :: "nat \<Rightarrow> int list list \<Rightarrow> nat \<Rightarrow> nat list \<Rightarrow> (bool \<times> nat list) option"
  and visit_indices :: "nat \<Rightarrow> int list list \<Rightarrow> int list \<Rightarrow> nat list \<Rightarrow> (bool \<times> nat list) option" where
  "visit_index 0 adj i colors = None"
| "visit_index (Suc n) adj i colors =
     (case visit_indices n adj (adj ! i) (colors[i := 1]) of
        None \<Rightarrow> None
      | Some (True, colors') \<Rightarrow> Some (True, colors')
      | Some (False, colors') \<Rightarrow> Some (False, colors'[i := 2]))"
| "visit_indices n adj [] colors = Some (False, colors)"
| "visit_indices n adj (d # ds) colors =
     (if colors ! nat d = 1 then Some (True, colors)
      else if colors ! nat d = 0 then
        (case visit_index n adj (nat d) colors of
           None \<Rightarrow> None
         | Some (True, colors') \<Rightarrow> Some (True, colors')
         | Some (False, colors') \<Rightarrow> visit_indices n adj ds colors')
      else visit_indices n adj ds colors)"

fun any_cycle :: "nat \<Rightarrow> int list list \<Rightarrow> nat list \<Rightarrow> nat list \<Rightarrow> bool option" where
  "any_cycle n adj [] colors = Some False"
| "any_cycle n adj (i # is) colors =
     (if colors ! i = 0 then
        (case visit_index n adj i colors of
           None \<Rightarrow> None
         | Some (True, _) \<Rightarrow> Some True
         | Some (False, colors') \<Rightarrow> any_cycle n adj is colors')
      else any_cycle n adj is colors)"

text \<open>
  The list is accepted with \<open>Inr\<close>; the bound of five tasks is the field's. The search descends
  through unseen tasks, so \<open>Suc\<close> of their number bounds its depth.
\<close>

definition validate_dependencies :: "sub_task list \<Rightarrow> sub_task_error + sub_task list" where
  "validate_dependencies tasks =
     (if length tasks > 5 then Inl (Too_Many_Tasks (length tasks))
      else
        (case concat (map (\<lambda>i. index_errors (length tasks) i (st_depends_on_index (tasks ! i))) [0..<length tasks]) of
           e # _ \<Rightarrow> Inl e
         | [] \<Rightarrow>
             (case any_cycle (Suc (length tasks)) (map st_depends_on_index tasks) [0..<length tasks]
                     (replicate (length tasks) 0) of
                Some False \<Rightarrow> Inr tasks
              | _ \<Rightarrow> Inl Index_Cycle)))"

text \<open>
  The closure of one index under \<open>depends_on_index\<close>: a work list, the last element first. An index
  out of range, which a validated list does not have, is skipped here; Python raises or wraps.
\<close>

definition index_deps :: "sub_task list \<Rightarrow> nat \<Rightarrow> nat list" where
  "index_deps tasks i = map nat (st_depends_on_index (tasks ! i))"

function index_closure :: "sub_task list \<Rightarrow> nat list \<Rightarrow> nat list \<Rightarrow> nat list" where
  "index_closure tasks seen pending =
     (if pending = [] then seen
      else
        (let i = last pending; rest = butlast pending in
         if i \<in> set seen \<or> i \<ge> length tasks then index_closure tasks seen rest
         else index_closure tasks (i # seen) (rest @ index_deps tasks i)))"
  by pat_completeness auto
termination
proof (relation "measures [\<lambda>(tasks, seen, pending). card ({..<length tasks} - set seen),
                           \<lambda>(tasks, seen, pending). length pending]")
  fix tasks :: "sub_task list" and seen pending rest :: "nat list" and i :: nat
  assume p: "pending \<noteq> []" and i: "i = last pending" and r: "rest = butlast pending"
  show "((tasks, seen, rest), tasks, seen, pending) \<in> measures [\<lambda>(tasks, seen, pending). card ({..<length tasks} - set seen),
                           \<lambda>(tasks, seen, pending). length pending]"
    using p r by simp
  assume new: "\<not> (i \<in> set seen \<or> i \<ge> length tasks)"
  have "i \<in> {..<length tasks} - set seen" using new by simp
  then have "{..<length tasks} - set (i # seen) \<subset> {..<length tasks} - set seen"
    unfolding list.set by blast
  then show "((tasks, i # seen, rest @ index_deps tasks i), tasks, seen, pending)
      \<in> measures [\<lambda>(tasks, seen, pending). card ({..<length tasks} - set seen), \<lambda>(tasks, seen, pending). length pending]"
    by (simp add: psubset_card_mono)
qed simp

declare index_closure.simps [simp del]

text \<open>\<open>selected_indices\<close> is a set; it is kept here as a list without duplicates.\<close>

definition select_task_indices_within_budget :: "sub_task list \<Rightarrow> int \<Rightarrow> nat list" where
  "select_task_indices_within_budget tasks remaining =
     fold (\<lambda>i selected.
         let merged = remdups (selected @ index_closure tasks [] [i]) in
         if int (length merged) \<le> max 0 remaining then merged else selected)
       [0..<length tasks] []"

section \<open>Adding sub-tasks to a plan\<close>

text \<open>\<open>fresh i\<close> is the id and the creation time of the node made for sub-task \<open>i\<close>.\<close>

definition child_node :: "(nat \<Rightarrow> string \<times> rat) \<Rightarrow> string \<Rightarrow> int \<Rightarrow> sub_task list \<Rightarrow> nat \<Rightarrow> task_node" where
  "child_node fresh parent depth tasks i =
     \<lparr>tn_id = fst (fresh i), tn_title = st_title (tasks ! i), tn_status = T_PENDING, tn_parent_id = Some parent,
      tn_children_ids = [], tn_dependent_tasks = map (\<lambda>j. fst (fresh j)) (index_deps tasks i), tn_depth = depth,
      tn_error_history = [], tn_retry_count = 0, tn_is_atomic = st_is_atomic (tasks ! i),
      tn_created_at = snd (fresh i)\<rparr>"

text \<open>
  The two loops over the selected sub-tasks: one node each, listed under the parent, with the
  dependencies among the selected.
\<close>

definition selected_order :: "sub_task list \<Rightarrow> nat list \<Rightarrow> nat list" where
  "selected_order tasks selected = filter (\<lambda>i. i \<in> set selected) [0..<length tasks]"

definition insert_subtasks ::
  "(nat \<Rightarrow> string \<times> rat) \<Rightarrow> sub_task list \<Rightarrow> nat list \<Rightarrow> string \<Rightarrow> task_tree \<Rightarrow> task_tree" where
  "insert_subtasks fresh tasks selected k t =
     (case get_node t k of
        None \<Rightarrow> t
      | Some n \<Rightarrow>
          let order = selected_order tasks selected in
          put_node k (n\<lparr>tn_children_ids := tn_children_ids n @ map (\<lambda>i. fst (fresh i)) order\<rparr>)
            (fold (\<lambda>i. add_node (child_node fresh k (tn_depth n + 1) tasks i)) order t))"

text \<open>
  The sub-tasks an answer of the model amounts to: the structured output is validated, and an
  answer that fails is replaced by the empty list.
\<close>

definition accepted :: "sub_task list \<Rightarrow> sub_task list" where
  "accepted answer = (case validate_dependencies answer of Inr tasks \<Rightarrow> tasks | Inl _ \<Rightarrow> [])"

record planner_limits =
  pl_max_retries :: int
  pl_max_depth :: int
  pl_max_nodes :: int

definition room :: "planner_limits \<Rightarrow> task_tree \<Rightarrow> int" where
  "room pl t = pl_max_nodes pl - int (length (tt_nodes t))"

section \<open>Decomposition\<close>

text \<open>
  \<open>_decompose_recursive\<close>: \<open>answers k\<close> is what the model proposes for the node \<open>k\<close>, which is asked
  at most once. The number bounds the depth of the recursion; \<open>None\<close> is a deeper one.
\<close>

fun decompose_node ::
  "nat \<Rightarrow> planner_limits \<Rightarrow> (string \<Rightarrow> sub_task list) \<Rightarrow> (string \<Rightarrow> nat \<Rightarrow> string \<times> rat) \<Rightarrow> string \<Rightarrow> task_tree \<Rightarrow>
   task_tree option"
  and decompose_all ::
  "nat \<Rightarrow> planner_limits \<Rightarrow> (string \<Rightarrow> sub_task list) \<Rightarrow> (string \<Rightarrow> nat \<Rightarrow> string \<times> rat) \<Rightarrow> string list \<Rightarrow> task_tree \<Rightarrow>
   task_tree option" where
  "decompose_node 0 pl answers fresh k t = None"
| "decompose_node (Suc f) pl answers fresh k t =
     (case get_node t k of
        None \<Rightarrow> Some t
      | Some n \<Rightarrow>
          if tn_is_atomic n \<or> tn_depth n \<ge> pl_max_depth pl \<or> int (length (tt_nodes t)) \<ge> pl_max_nodes pl then Some t
          else
            (let tasks = accepted (answers k);
                 selected = select_task_indices_within_budget tasks (room pl t) in
             if tasks = [] then Some t
             else decompose_all f pl answers fresh (map (\<lambda>i. fst (fresh k i)) (selected_order tasks selected))
                    (insert_subtasks (fresh k) tasks selected k t)))"
| "decompose_all f pl answers fresh [] t = Some t"
| "decompose_all f pl answers fresh (c # cs) t =
     (case decompose_node f pl answers fresh c t of
        None \<Rightarrow> None
      | Some t' \<Rightarrow> decompose_all f pl answers fresh cs t')"

text \<open>The depth grows by one with each call, from the root's, so \<open>max_depth\<close> bounds the recursion.\<close>

definition decompose ::
  "planner_limits \<Rightarrow> (string \<Rightarrow> sub_task list) \<Rightarrow> (string \<Rightarrow> nat \<Rightarrow> string \<times> rat) \<Rightarrow> task_tree \<Rightarrow> plan_error list + task_tree" where
  "decompose pl answers fresh t =
     (case decompose_node (Suc (nat (pl_max_depth pl))) pl answers fresh (tt_goal_id t) t of
        None \<Rightarrow> Inl []
      | Some t' \<Rightarrow> map_sum id (\<lambda>_. t') (assert_valid_plan t'))"

section \<open>Re-planning\<close>

text \<open>\<open>replan\<close>; \<open>answer\<close> is what the model proposes for the failed task.\<close>

definition replan ::
  "planner_limits \<Rightarrow> (nat \<Rightarrow> string \<times> rat) \<Rightarrow> sub_task list \<Rightarrow> string \<Rightarrow> task_tree \<Rightarrow>
   (plan_error list, bool, task_tree) outcome" where
  "replan pl fresh answer k t =
     (case get_node t k of
        None \<Rightarrow> (Inr False, t)
      | Some n \<Rightarrow>
          (case assert_valid_plan t of
             Inl es \<Rightarrow> (Inl es, t)
           | Inr _ \<Rightarrow>
               if tn_depth n \<ge> pl_max_depth pl \<or> int (length (tt_nodes t)) \<ge> pl_max_nodes pl then
                 (Inr False, put_node k (n\<lparr>tn_status := T_CANCELLED,
                    tn_error_history := tn_error_history n @
                      [''Re-planning stopped because the plan depth or node budget was exhausted'']\<rparr>) t)
               else if tn_retry_count n \<ge> pl_max_retries pl then
                 (Inr False, put_node k (n\<lparr>tn_status := T_CANCELLED\<rparr>) t)
               else
                 let n1 = n\<lparr>tn_retry_count := tn_retry_count n + 1, tn_status := T_RE_PLANNING\<rparr>;
                     t1 = put_node k n1 t;
                     tasks = accepted answer;
                     selected = select_task_indices_within_budget tasks (room pl t)
                 in
                 if tasks = [] then
                   (let t2 = put_node k (n1\<lparr>tn_status := T_PENDING\<rparr>) t1 in
                    (map_sum id (\<lambda>_. True) (assert_valid_plan t2), t2))
                 else if selected = [] then
                   (let t2 = put_node k (n1\<lparr>tn_status := T_CANCELLED,
                          tn_error_history := tn_error_history n1 @
                            [''Re-planning produced no dependency-closed tasks that fit the remaining node budget'']\<rparr>) t1
                    in (map_sum id (\<lambda>_. False) (assert_valid_plan t2), t2))
                 else
                   (let t2 = insert_subtasks fresh tasks selected k t1 in
                    (map_sum id (\<lambda>_. True) (assert_valid_plan t2), t2))))"

end
