(* ===== verification/Plan_Graph.thy ===== *)
theory Plan_Graph
  imports Plan_Scheduler
begin

text \<open>
  \<open>core/graph.py\<close> and \<open>recovery/error_recovery.py\<close>: the plan-and-execute graph. A state carries the
  fields the nodes and routers decide on; results, memory and traces are left out. The task tree
  is one object that nodes and routers share, so a router's writes to it last, while its writes
  to the other fields are dropped by LangGraph, as a comment in \<open>executor_node\<close> records. What the
  models answer, the verdicts of the validator and the estimate of the context size are the input
  of a step.
\<close>

section \<open>State, configuration and inputs\<close>

datatype graph_node =
    N_Goal_Planner | N_Decomposer | N_Executor | N_Validator | N_Reflection | N_Re_Planner | N_Compressor
  | N_Error_Recovery | N_Synthesizer | N_Final_Verifier | N_End

datatype route =
    R_Goal_Plan | R_Decompose | R_Execute | R_Validate | R_Reflect | R_Re_Plan | R_Compress | R_Synthesize
  | R_Final_Verify | R_Error | R_End

datatype reflection_action = Retry | Replan | Terminate

record graph_state =
  gs_planned :: bool
  gs_tree :: task_tree
  gs_current :: "string option"
  gs_parallel :: "string list"
  gs_error :: "string option"
  gs_phase :: string
  gs_action :: "reflection_action option"
  gs_records :: "(string \<times> reflection_action) list"
  gs_compressions :: int
  gs_replans :: int

text \<open>The configured integers are raw: \<open>0\<close> is replaced by the default where the code writes \<open>or\<close>.\<close>

record graph_config =
  gc_parallel :: bool
  gc_max_parallel :: int
  gc_max_compressions :: int
  gc_max_replan_rounds :: int

record graph_input =
  gi_over_limit :: bool
  gi_verdict :: "string \<Rightarrow> bool"
  gi_reflect :: "string \<Rightarrow> reflection_action \<times> string"
  gi_answers :: "string \<Rightarrow> sub_task list"
  gi_fresh :: "string \<Rightarrow> nat \<Rightarrow> string \<times> rat"
  gi_root :: "string \<times> string \<times> rat"

datatype graph_error = Invalid_Plan "plan_error list" | Scheduling scheduler_error

definition int_or :: "int \<Rightarrow> int \<Rightarrow> int" where
  "int_or x d = (if x = 0 then d else x)"

definition default_limits :: planner_limits where
  "default_limits = \<lparr>pl_max_retries = 3, pl_max_depth = 4, pl_max_nodes = 64\<rparr>"

definition set_status :: "task_status \<Rightarrow> string \<Rightarrow> task_tree \<Rightarrow> task_tree" where
  "set_status s k t = (case get_node t k of None \<Rightarrow> t | Some n \<Rightarrow> put_node k (n\<lparr>tn_status := s\<rparr>) t)"

definition ids_with :: "task_status \<Rightarrow> task_tree \<Rightarrow> string list" where
  "ids_with s t = map tn_id (filter (\<lambda>n. tn_status n = s) (dict_values (tt_nodes t)))"

section \<open>Routers\<close>

definition max_dispatch :: "graph_config \<Rightarrow> nat" where
  "max_dispatch cfg = (if gc_parallel cfg then nat (max 1 (int_or (gc_max_parallel cfg) 3)) else 1)"

definition busy :: "task_node \<Rightarrow> bool" where
  "busy n = (tn_status n = T_RUNNING \<or> tn_status n = T_RE_PLANNING \<or> tn_status n = T_WAITING)"

definition route_next :: "graph_config \<Rightarrow> bool \<Rightarrow> graph_state \<Rightarrow> (graph_error, route, task_tree) outcome" where
  "route_next cfg over gs =
     (let t = gs_tree gs in
      if plan_is_complete t then (Inr R_Synthesize, t)
      else if over then
        (Inr (if gs_compressions gs \<ge> max 1 (int_or (gc_max_compressions cfg) 2) then R_Error else R_Compress), t)
      else
        (case new_scheduler t of
           Inl es \<Rightarrow> (Inl (Invalid_Plan es), t)
         | Inr _ \<Rightarrow>
             (case get_ready_tasks t of
                (Inl e, t') \<Rightarrow> (Inl (Scheduling e), t')
              | (Inr ready, t') \<Rightarrow>
                  if ready \<noteq> [] then
                    (Inr R_Execute, fold (set_status T_RUNNING) (map tn_id (take (max_dispatch cfg) ready)) t')
                  else if list_ex busy (dict_values (tt_nodes t')) then (Inr R_Error, t')
                  else if plan_is_complete t' then (Inr R_Synthesize, t')
                  else (Inr R_Error, t'))))"

definition route_after_validator :: "graph_config \<Rightarrow> bool \<Rightarrow> graph_state \<Rightarrow> (graph_error, route, task_tree) outcome" where
  "route_after_validator cfg over gs =
     (if get_failed_nodes (gs_tree gs) \<noteq> [] then (Inr R_Reflect, gs_tree gs) else route_next cfg over gs)"

definition route_after_reflection :: "graph_config \<Rightarrow> bool \<Rightarrow> graph_state \<Rightarrow> (graph_error, route, task_tree) outcome" where
  "route_after_reflection cfg over gs =
     (if gs_action gs = Some Replan then (Inr R_Re_Plan, gs_tree gs)
      else if gs_action gs = Some Retry then (Inr R_Error, gs_tree gs)
      else route_next cfg over gs)"

definition route_entry :: "graph_config \<Rightarrow> bool \<Rightarrow> graph_state \<Rightarrow> (graph_error, route, task_tree) outcome" where
  "route_entry cfg over gs =
     (let t = gs_tree gs in
      if \<not> gs_planned gs then (Inr R_Goal_Plan, t)
      else if gs_phase gs = ''planning'' \<or> gs_phase gs = ''planned'' then (Inr R_Decompose, t)
      else if gs_phase gs = ''validating'' then (Inr R_Validate, t)
      else if gs_phase gs = ''validated'' then route_after_validator cfg over gs
      else if gs_phase gs = ''reflecting'' then (Inr R_Reflect, t)
      else if gs_phase gs = ''reflected'' then route_after_reflection cfg over gs
      else if gs_phase gs = ''verifying'' then (Inr R_Final_Verify, t)
      else if gs_phase gs = ''done'' then (Inr R_End, t)
      else route_next cfg over gs)"

section \<open>Nodes\<close>

definition goal_planner_node :: "graph_input \<Rightarrow> graph_state \<Rightarrow> graph_state" where
  "goal_planner_node inp gs =
     (let (rid, title, now) = gi_root inp in
      gs\<lparr>gs_planned := True,
         gs_tree := \<lparr>tt_goal_id = rid,
           tt_nodes = [(rid, \<lparr>tn_id = rid, tn_title = title, tn_status = T_PENDING, tn_parent_id = None,
              tn_children_ids = [], tn_dependent_tasks = [], tn_depth = 0, tn_error_history = [],
              tn_retry_count = 0, tn_is_atomic = False, tn_created_at = now\<rparr>)]\<rparr>,
         gs_phase := ''planned''\<rparr>)"

definition decomposer_node :: "graph_input \<Rightarrow> graph_state \<Rightarrow> graph_error + graph_state" where
  "decomposer_node inp gs =
     (case decompose default_limits (gi_answers inp) (gi_fresh inp) (gs_tree gs) of
        Inl es \<Rightarrow> Inl (Invalid_Plan es)
      | Inr t \<Rightarrow> Inr (gs\<lparr>gs_tree := t, gs_phase := ''executing''\<rparr>))"

definition repr_id :: "string option \<Rightarrow> string" where
  "repr_id k = (case k of None \<Rightarrow> ''None'' | Some s \<Rightarrow> CHR 0x27 # s @ [CHR 0x27])"

text \<open>
  The running leaves are executed, at most so many at a time as configured, and a failure while
  executing is part of the result; the statuses do not change.
\<close>

definition executor_node :: "graph_state \<Rightarrow> graph_state" where
  "executor_node gs =
     (let ids = map tn_id (filter (\<lambda>n. tn_status n = T_RUNNING) (get_leaf_nodes (gs_tree gs))) in
      case ids of
        [] \<Rightarrow> gs\<lparr>gs_error := Some (''No RUNNING task found for dispatch ('' @ repr_id (gs_current gs) @ '')''),
                 gs_phase := ''executing'', gs_current := None, gs_parallel := []\<rparr>
      | k # _ \<Rightarrow> gs\<lparr>gs_current := Some k, gs_parallel := (if length ids > 1 then ids else []),
                    gs_phase := ''validating''\<rparr>)"

definition batch_ids :: "graph_state \<Rightarrow> string list" where
  "batch_ids gs =
     (if gs_parallel gs \<noteq> [] then rev (remdups (rev (gs_parallel gs)))
      else (case gs_current gs of None \<Rightarrow> [] | Some k \<Rightarrow> [k]))"

definition validator_node :: "graph_input \<Rightarrow> graph_state \<Rightarrow> graph_state" where
  "validator_node inp gs =
     (let t = gs_tree gs; ids = filter (\<lambda>k. get_node t k \<noteq> None) (batch_ids gs) in
      case ids of
        [] \<Rightarrow> gs\<lparr>gs_error := Some ''No current task'', gs_phase := ''executing''\<rparr>
      | k # _ \<Rightarrow>
          gs\<lparr>gs_tree := fold (\<lambda>k. set_status (if gi_verdict inp k then T_PASSED else T_FAILED) k) ids t,
             gs_current := Some (case filter (\<lambda>k. \<not> gi_verdict inp k) ids of [] \<Rightarrow> k | f # _ \<Rightarrow> f),
             gs_parallel := [], gs_phase := ''validated''\<rparr>)"

definition cancel_task :: "string \<Rightarrow> string \<Rightarrow> task_tree \<Rightarrow> task_tree" where
  "cancel_task note k t =
     (case get_node t k of
        None \<Rightarrow> t
      | Some n \<Rightarrow> put_node k (n\<lparr>tn_status := T_CANCELLED, tn_error_history := tn_error_history n @ [note]\<rparr>) t)"

definition replan_budget :: "graph_config \<Rightarrow> int" where
  "replan_budget cfg = max 0 (int_or (gc_max_replan_rounds cfg) 8)"

definition budget_exhausted :: "graph_config \<Rightarrow> graph_state \<Rightarrow> bool" where
  "budget_exhausted cfg gs = (replan_budget cfg > 0 \<and> gs_replans gs \<ge> replan_budget cfg)"

definition budget_note :: "graph_config \<Rightarrow> graph_state \<Rightarrow> string" where
  "budget_note cfg gs =
     ''Re-plan budget exhausted ('' @ str_int (gs_replans gs) @ ''/'' @ str_int (replan_budget cfg) @
     ''); task cancelled instead of looping forever''"

text \<open>The loop over the failed tasks; the first reason of a task that is not given up is the error.\<close>

definition reflect_task :: "graph_input \<Rightarrow> string \<Rightarrow> graph_state \<Rightarrow> graph_state" where
  "reflect_task inp k gs =
     (let (action, reason) = gi_reflect inp k;
          gs1 = gs\<lparr>gs_records := gs_records gs @ [(k, action)],
                   gs_current := (case gs_current gs of None \<Rightarrow> Some k | Some c \<Rightarrow> Some c)\<rparr>
      in if action = Terminate then gs1\<lparr>gs_tree := cancel_task reason k (gs_tree gs1)\<rparr>
         else if gs_error gs1 = None then gs1\<lparr>gs_error := Some reason\<rparr> else gs1)"

definition give_up_task :: "graph_config \<Rightarrow> string \<Rightarrow> graph_state \<Rightarrow> graph_state" where
  "give_up_task cfg k gs =
     gs\<lparr>gs_tree := cancel_task (budget_note cfg gs) k (gs_tree gs), gs_records := gs_records gs @ [(k, Terminate)]\<rparr>"

definition replan_target :: "graph_state \<Rightarrow> string option" where
  "replan_target gs =
     (case find (\<lambda>(k, a). a = Replan \<and> (case get_node (gs_tree gs) k of None \<Rightarrow> False | Some n \<Rightarrow> tn_status n = T_FAILED))
             (rev (gs_records gs)) of
        Some (k, _) \<Rightarrow> Some k | None \<Rightarrow> gs_current gs)"

definition last_n :: "nat \<Rightarrow> 'a list \<Rightarrow> 'a list" where
  "last_n n xs = drop (length xs - n) xs"

definition reflection_node :: "graph_config \<Rightarrow> graph_input \<Rightarrow> graph_state \<Rightarrow> graph_state" where
  "reflection_node cfg inp gs =
     (let failures = ids_with T_FAILED (gs_tree gs);
          start = gs\<lparr>gs_error := None\<rparr>;
          gs1 = fold (if budget_exhausted cfg gs then give_up_task cfg else reflect_task inp) failures start;
          actions = (if budget_exhausted cfg gs then [] else map (\<lambda>k. fst (gi_reflect inp k)) failures);
          action = (if Replan \<in> set actions then Replan else if Retry \<in> set actions then Retry else Terminate)
      in gs1\<lparr>gs_records := last_n 50 (gs_records gs1), gs_action := Some action, gs_phase := ''reflected'',
             gs_current := (if action = Replan then replan_target gs1 else gs_current gs1)\<rparr>)"

fun replan_all :: "graph_input \<Rightarrow> string list \<Rightarrow> task_tree \<Rightarrow> graph_error + task_tree" where
  "replan_all inp [] t = Inr t"
| "replan_all inp (k # ks) t =
     (case replan default_limits (gi_fresh inp k) (gi_answers inp k) k t of
        (Inl es, _) \<Rightarrow> Inl (Invalid_Plan es)
      | (Inr _, t') \<Rightarrow> replan_all inp ks t')"

definition failed_ids :: "graph_state \<Rightarrow> string list" where
  "failed_ids gs =
     (let failed = ids_with T_FAILED (gs_tree gs) in
      case gs_current gs of
        None \<Rightarrow> failed
      | Some c \<Rightarrow>
          (case get_node (gs_tree gs) c of
             None \<Rightarrow> failed
           | Some n \<Rightarrow> if tn_status n = T_FAILED then c # filter (\<lambda>k. k \<noteq> c) failed else failed))"

definition re_planner_node :: "graph_input \<Rightarrow> graph_state \<Rightarrow> graph_error + graph_state" where
  "re_planner_node inp gs =
     (case replan_all inp (failed_ids gs) (gs_tree gs) of
        Inl e \<Rightarrow> Inl e
      | Inr t \<Rightarrow> Inr (gs\<lparr>gs_tree := t, gs_parallel := [], gs_replans := gs_replans gs + int (length (failed_ids gs)),
                          gs_phase := ''executing''\<rparr>))"

definition compressor_node :: "graph_state \<Rightarrow> graph_state" where
  "compressor_node gs = gs\<lparr>gs_compressions := gs_compressions gs + 1, gs_phase := ''executing''\<rparr>"

datatype recovery = Rec_Retry | Rec_Cancel | Rec_Skip

definition max_task_retries :: int where
  "max_task_retries = 3"

definition handle_error :: "string \<Rightarrow> string \<Rightarrow> task_tree \<Rightarrow> recovery \<times> task_tree" where
  "handle_error k err t =
     (case get_node t k of
        None \<Rightarrow> (Rec_Skip, t)
      | Some n \<Rightarrow>
          let n1 = n\<lparr>tn_error_history := tn_error_history n @ [err]\<rparr> in
          if tn_retry_count n < max_task_retries then
            (Rec_Retry, put_node k (n1\<lparr>tn_retry_count := tn_retry_count n + 1, tn_status := T_PENDING\<rparr>) t)
          else (Rec_Cancel, put_node k (n1\<lparr>tn_status := T_CANCELLED\<rparr>) t))"

definition error_recovery_node :: "graph_state \<Rightarrow> graph_error + graph_state" where
  "error_recovery_node gs =
     (let settled = (\<lambda>t. gs\<lparr>gs_tree := t, gs_error := None, gs_phase := ''executing''\<rparr>) in
      case gs_current gs of
        None \<Rightarrow> Inr (settled (gs_tree gs))
      | Some k \<Rightarrow>
          if k = [] then Inr (settled (gs_tree gs))
          else
            (case handle_error k (case gs_error gs of None \<Rightarrow> [] | Some e \<Rightarrow> e) (gs_tree gs) of
               (Rec_Cancel, t) \<Rightarrow>
                 (case new_scheduler t of
                    Inl es \<Rightarrow> Inl (Invalid_Plan es)
                  | Inr _ \<Rightarrow>
                      (case get_ready_tasks t of
                         (Inl e, _) \<Rightarrow> Inl (Scheduling e)
                       | (Inr _, t') \<Rightarrow> Inr (settled t')))
             | (_, t) \<Rightarrow> Inr (settled t)))"

section \<open>The graph\<close>

text \<open>An error that error recovery could not clear ends the run; everywhere else it leads there.\<close>

fun successor :: "graph_node \<Rightarrow> route \<Rightarrow> graph_node" where
  "successor N_Error_Recovery R_Error = N_End"
| "successor _ R_Goal_Plan = N_Goal_Planner"
| "successor _ R_Decompose = N_Decomposer"
| "successor _ R_Execute = N_Executor"
| "successor _ R_Validate = N_Validator"
| "successor _ R_Reflect = N_Reflection"
| "successor _ R_Re_Plan = N_Re_Planner"
| "successor _ R_Compress = N_Compressor"
| "successor _ R_Synthesize = N_Synthesizer"
| "successor _ R_Final_Verify = N_Final_Verifier"
| "successor _ R_Error = N_Error_Recovery"
| "successor _ R_End = N_End"

definition route_on ::
  "graph_node \<Rightarrow> (graph_error, route, task_tree) outcome \<Rightarrow> graph_state \<Rightarrow> graph_error + graph_node \<times> graph_state" where
  "route_on n r gs =
     (case r of (Inl e, _) \<Rightarrow> Inl e | (Inr d, t) \<Rightarrow> Inr (successor n d, gs\<lparr>gs_tree := t\<rparr>))"

fun graph_step :: "graph_config \<Rightarrow> graph_input \<Rightarrow> graph_node \<Rightarrow> graph_state \<Rightarrow> graph_error + graph_node \<times> graph_state" where
  "graph_step cfg inp N_Goal_Planner gs = Inr (N_Decomposer, goal_planner_node inp gs)"
| "graph_step cfg inp N_Decomposer gs =
     bind_result (decomposer_node inp gs) (\<lambda>gs'. route_on N_Decomposer (route_next cfg (gi_over_limit inp) gs') gs')"
| "graph_step cfg inp N_Executor gs = Inr (N_Validator, executor_node gs)"
| "graph_step cfg inp N_Validator gs =
     (let gs' = validator_node inp gs in route_on N_Validator (route_after_validator cfg (gi_over_limit inp) gs') gs')"
| "graph_step cfg inp N_Reflection gs =
     (let gs' = reflection_node cfg inp gs in route_on N_Reflection (route_after_reflection cfg (gi_over_limit inp) gs') gs')"
| "graph_step cfg inp N_Re_Planner gs =
     bind_result (re_planner_node inp gs) (\<lambda>gs'. route_on N_Re_Planner (route_next cfg (gi_over_limit inp) gs') gs')"
| "graph_step cfg inp N_Compressor gs =
     (let gs' = compressor_node gs in route_on N_Compressor (route_next cfg (gi_over_limit inp) gs') gs')"
| "graph_step cfg inp N_Error_Recovery gs =
     bind_result (error_recovery_node gs) (\<lambda>gs'. route_on N_Error_Recovery (route_next cfg (gi_over_limit inp) gs') gs')"
| "graph_step cfg inp N_Synthesizer gs = Inr (N_Final_Verifier, gs\<lparr>gs_phase := ''verifying''\<rparr>)"
| "graph_step cfg inp N_Final_Verifier gs = Inr (N_End, gs\<lparr>gs_phase := ''done''\<rparr>)"
| "graph_step cfg inp N_End gs = Inr (N_End, gs)"

definition graph_start :: "graph_config \<Rightarrow> graph_input \<Rightarrow> graph_state \<Rightarrow> graph_error + graph_node \<times> graph_state" where
  "graph_start cfg inp gs = route_on N_End (route_entry cfg (gi_over_limit inp) gs) gs"

fun graph_run :: "graph_config \<Rightarrow> graph_input list \<Rightarrow> graph_node \<Rightarrow> graph_state \<Rightarrow> graph_error + graph_node \<times> graph_state" where
  "graph_run cfg [] n gs = Inr (n, gs)"
| "graph_run cfg (inp # inps) n gs =
     bind_result (graph_step cfg inp n gs) (\<lambda>(n', gs'). graph_run cfg inps n' gs')"

end
