(* ===== verification/Cycle_Search.thy ===== *)
theory Cycle_Search
  imports Plan_Tree
begin

text \<open>
  The depth-first search of \<open>validate_plan\<close> is correct: with as much depth as there are nodes it
  ends, a list it returns is a cycle, and it returns none exactly when the graph is acyclic. The
  ghost argument \<open>rs\<close> of the invariant is the list of finished nodes, the last one first; it is a
  topological order.
\<close>

definition edges :: "adjacency \<Rightarrow> (string \<times> string) set" where
  "edges adj = {(u, v). v \<in> set (neighbors adj u)}"

definition closed_graph :: "adjacency \<Rightarrow> bool" where
  "closed_graph adj = (\<forall>u. set (neighbors adj u) \<subseteq> set (dict_keys adj))"

definition is_cycle :: "adjacency \<Rightarrow> string list \<Rightarrow> bool" where
  "is_cycle adj c = (length c \<ge> 2 \<and> hd c = last c \<and> successively (\<lambda>u v. v \<in> set (neighbors adj u)) c)"

fun topo :: "adjacency \<Rightarrow> string list \<Rightarrow> bool" where
  "topo adj [] = True"
| "topo adj (u # rs) = (set (neighbors adj u) \<subseteq> set rs \<and> u \<notin> set rs \<and> topo adj rs)"

section \<open>Orders and cycles\<close>

definition rank :: "string list \<Rightarrow> string \<Rightarrow> nat" where
  "rank rs u = length (dropWhile (\<lambda>v. v \<noteq> u) rs)"

lemma topo_rank: "topo adj rs \<Longrightarrow> u \<in> set rs \<Longrightarrow> v \<in> set (neighbors adj u) \<Longrightarrow> v \<in> set rs \<and> rank rs v < rank rs u"
proof (induction rs)
  case (Cons r rs)
  have le: "rank rs w \<le> length rs" for w by (simp add: rank_def length_dropWhile_le)
  show ?case
  proof (cases "u = r")
    case True
    then have "v \<in> set rs" "v \<noteq> r" using Cons.prems by auto
    then show ?thesis using True le [of v] by (simp add: rank_def)
  next
    case False
    then have "v \<in> set rs \<and> rank rs v < rank rs u" using Cons by simp
    moreover have "v \<noteq> r" using calculation Cons.prems(1) by auto
    ultimately show ?thesis using False by (simp add: rank_def)
  qed
qed simp

lemma topo_acyclic:
  assumes "topo adj rs" and "\<forall>u. u \<notin> set rs \<longrightarrow> neighbors adj u = []"
  shows "acyclic (edges adj)"
proof (rule acyclicI_order)
  fix u v assume "(u, v) \<in> edges adj"
  then have v: "v \<in> set (neighbors adj u)" by (simp add: edges_def)
  then have "u \<in> set rs" using assms(2) by force
  then show "rank rs v < rank rs u" using topo_rank [OF assms(1) _ v] by simp
qed

lemma topo_distinct: "topo adj rs \<Longrightarrow> distinct rs"
  by (induction rs) auto

lemma successively_trancl:
  "successively (\<lambda>u v. v \<in> set (neighbors adj u)) (x # xs) \<Longrightarrow> xs \<noteq> [] \<Longrightarrow> (x, last xs) \<in> (edges adj)\<^sup>+"
proof (induction xs arbitrary: x)
  case (Cons y ys)
  then have e: "(x, y) \<in> edges adj" by (simp add: edges_def)
  show ?case
  proof (cases ys)
    case Nil
    with e show ?thesis by auto
  next
    case ys: (Cons z zs)
    then have "(y, last ys) \<in> (edges adj)\<^sup>+" using Cons by simp
    with e show ?thesis using ys by (metis last_ConsR list.discI trancl_into_trancl2)
  qed
qed simp

lemma is_cycle_not_acyclic: "is_cycle adj c \<Longrightarrow> \<not> acyclic (edges adj)"
proof -
  assume c: "is_cycle adj c"
  then obtain x xs where cx: "c = x # xs" "xs \<noteq> []"
    by (cases c) (force simp: is_cycle_def)+
  then have "(x, last xs) \<in> (edges adj)\<^sup>+" "x = last xs"
    using c successively_trancl [of adj x xs] by (auto simp: is_cycle_def)
  then show ?thesis by (auto simp: acyclic_def)
qed

section \<open>The invariant of the search\<close>

definition dfs_inv :: "adjacency \<Rightarrow> dfs \<Rightarrow> string list \<Rightarrow> bool" where
  "dfs_inv adj st rs =
     (distinct (df_path st) \<and> set (df_path st) \<inter> set rs = {} \<and> topo adj rs \<and>
      set (df_path st) \<union> set rs \<subseteq> set (dict_keys adj) \<and>
      (\<forall>v. color st v = (if v \<in> set (df_path st) then 1 else if v \<in> set rs then 2 else 0)) \<and>
      (\<forall>i < length (df_path st). dict_get (df_positions st) (df_path st ! i) = Some i) \<and>
      successively (\<lambda>u v. v \<in> set (neighbors adj u)) (df_path st))"

definition white :: "adjacency \<Rightarrow> dfs \<Rightarrow> string list \<Rightarrow> string set" where
  "white adj st rs = set (dict_keys adj) - set (df_path st) - set rs"

lemma color_push [simp]: "color (push_node u st) v = (if v = u then 1 else color st v)"
  by (simp add: color_def push_node_def)

lemma color_pop [simp]: "color (pop_node u st) v = (if v = u then 2 else color st v)"
  by (simp add: color_def pop_node_def)

lemma path_push [simp]: "df_path (push_node u st) = df_path st @ [u]"
  by (simp add: push_node_def)

lemma path_pop [simp]: "df_path (pop_node u st) = butlast (df_path st)"
  by (simp add: pop_node_def)

lemma dfs_inv_push:
  assumes inv: "dfs_inv adj st rs" and u: "u \<in> set (dict_keys adj)" "color st u = 0"
    and edge: "df_path st \<noteq> [] \<Longrightarrow> u \<in> set (neighbors adj (last (df_path st)))"
  shows "dfs_inv adj (push_node u st) rs"
proof -
  have fresh: "u \<notin> set (df_path st)" "u \<notin> set rs"
    using inv u(2) by (auto simp: dfs_inv_def split: if_splits)
  have "dict_get (df_positions (push_node u st)) ((df_path st @ [u]) ! i) = Some i"
    if "i < length (df_path st @ [u])" for i
    using that inv fresh by (cases "i < length (df_path st)") (auto simp: dfs_inv_def push_node_def nth_append)
  moreover have "successively (\<lambda>u v. v \<in> set (neighbors adj u)) (df_path st @ [u])"
    using inv edge by (auto simp: dfs_inv_def successively_append_iff)
  ultimately show ?thesis using inv fresh u(1) by (simp add: dfs_inv_def)
qed

lemma dfs_inv_pop:
  assumes inv: "dfs_inv adj st rs" and path: "df_path st = p @ [u]"
    and fin: "set (neighbors adj u) \<subseteq> set rs"
  shows "dfs_inv adj (pop_node u st) (u # rs)"
proof -
  have u: "u \<notin> set p" "u \<notin> set rs" "u \<in> set (dict_keys adj)" using inv path by (auto simp: dfs_inv_def)
  have "dict_get (df_positions (pop_node u st)) (p ! i) = Some i" if "i < length p" for i
  proof -
    have "dict_get (df_positions st) ((p @ [u]) ! i) = Some i" using inv that path by (simp add: dfs_inv_def)
    moreover have "p ! i \<noteq> u" using u(1) that by (metis nth_mem)
    ultimately show ?thesis using that by (simp add: pop_node_def nth_append)
  qed
  moreover have "successively (\<lambda>u v. v \<in> set (neighbors adj u)) p"
    using inv path by (simp add: dfs_inv_def successively_append_iff)
  ultimately show ?thesis using inv path u fin by (auto simp: dfs_inv_def)
qed

lemma dfs_inv_cycle:
  assumes inv: "dfs_inv adj st rs" and v: "v \<in> set (df_path st)" "v \<in> set (neighbors adj (last (df_path st)))"
  shows "is_cycle adj (drop (dict_get_or (df_positions st) v 0) (df_path st) @ [v])"
proof -
  obtain i where i: "i < length (df_path st)" "df_path st ! i = v" using v(1) by (auto simp: in_set_conv_nth)
  then have "dict_get (df_positions st) v = Some i" using inv by (auto simp: dfs_inv_def)
  then have pos: "dict_get_or (df_positions st) v 0 = i" by (simp add: dict_get_or_def)
  have ne: "drop i (df_path st) \<noteq> []" "hd (drop i (df_path st)) = v" "last (drop i (df_path st)) = last (df_path st)"
    using i by (simp_all add: hd_drop_conv_nth)
  have "successively (\<lambda>u v. v \<in> set (neighbors adj u)) (take i (df_path st) @ drop i (df_path st))"
    using inv by (simp add: dfs_inv_def)
  then have "successively (\<lambda>u v. v \<in> set (neighbors adj u)) (drop i (df_path st))"
    unfolding successively_append_iff by blast
  then have "successively (\<lambda>u v. v \<in> set (neighbors adj u)) (drop i (df_path st) @ [v])"
    using v(2) ne by (simp add: successively_append_iff)
  then show ?thesis using ne i(1) unfolding is_cycle_def pos by (simp add: hd_append)
qed

lemma color_cases:
  assumes "dfs_inv adj st rs"
  shows "color st v = 0 \<or> color st v = 1 \<or> color st v = 2"
proof -
  have "color st v = (if v \<in> set (df_path st) then 1 else if v \<in> set rs then 2 else 0)"
    using assms unfolding dfs_inv_def by blast
  then show ?thesis by (simp split: if_splits)
qed

lemma color_white: "dfs_inv adj st rs \<Longrightarrow> color st v = 0 \<Longrightarrow> v \<in> set (dict_keys adj) \<Longrightarrow> v \<in> white adj st rs"
  by (auto simp: dfs_inv_def white_def split: if_splits)

lemma finite_white [simp]: "finite (white adj st rs)"
  by (simp add: white_def)

section \<open>The search\<close>

definition search_ok :: "adjacency \<Rightarrow> dfs \<Rightarrow> string list \<Rightarrow> string list \<Rightarrow> (string list option \<times> dfs) option \<Rightarrow> bool" where
  "search_ok adj st rs vs res =
     (case res of
        None \<Rightarrow> False
      | Some (Some c, _) \<Rightarrow> is_cycle adj c
      | Some (None, st') \<Rightarrow>
          (\<exists>rs'. dfs_inv adj st' rs' \<and> df_path st' = df_path st \<and> set vs \<subseteq> set rs' \<and> set rs \<subseteq> set rs'))"

lemma white_mono: "set rs \<subseteq> set rs' \<Longrightarrow> df_path st' = df_path st \<Longrightarrow> card (white adj st' rs') \<le> card (white adj st rs)"
  by (rule card_mono) (auto simp: white_def)

lemma white_push:
  assumes "dfs_inv adj st rs" and "u \<in> set (dict_keys adj)" and "color st u = 0" and "card (white adj st rs) \<le> Suc n"
  shows "card (white adj (push_node u st) rs) \<le> n"
proof -
  have "u \<in> white adj st rs" using color_white assms by blast
  moreover have "white adj (push_node u st) rs = white adj st rs - {u}" by (auto simp: white_def)
  ultimately show ?thesis using assms(4) by (simp add: card_Diff_singleton)
qed

lemma search:
  "closed_graph adj \<Longrightarrow> dfs_inv adj st rs \<Longrightarrow> u \<in> set (dict_keys adj) \<Longrightarrow> color st u = 0 \<Longrightarrow>
   (df_path st \<noteq> [] \<longrightarrow> u \<in> set (neighbors adj (last (df_path st)))) \<Longrightarrow> card (white adj st rs) \<le> n \<Longrightarrow>
   search_ok adj st rs [u] (visit n adj u st)"
  "closed_graph adj \<Longrightarrow> dfs_inv adj st rs \<Longrightarrow> df_path st \<noteq> [] \<Longrightarrow>
   set vs \<subseteq> set (neighbors adj (last (df_path st))) \<Longrightarrow> card (white adj st rs) \<le> n \<Longrightarrow>
   search_ok adj st rs vs (visit_all n adj vs st)"
proof (induction n adj u st and n adj vs st arbitrary: rs and rs rule: visit_visit_all.induct)
  case (1 adj u st)
  then show ?case using color_white [of adj st rs u] by auto
next
  case (2 n adj u st)
  have inv: "dfs_inv adj (push_node u st) rs" using 2 by (intro dfs_inv_push) auto
  have "search_ok adj (push_node u st) rs (neighbors adj u) (visit_all n adj (neighbors adj u) (push_node u st))"
    using 2(1) [OF 2(2) inv] white_push [OF 2(3,4,5,7)] by simp
  then show ?case using dfs_inv_pop [of adj _ _ "df_path st" u]
    by (fastforce simp: search_ok_def split: option.splits prod.splits)
next
  case (3 n adj st)
  then show ?case by (auto simp: search_ok_def)
next
  case (4 n adj v vs st)
  have v: "v \<in> set (neighbors adj (last (df_path st)))" "v \<in> set (dict_keys adj)"
    using 4 unfolding closed_graph_def by auto
  consider (w) "color st v = 0" | (g) "color st v = 1" | (b) "color st v = 2"
    using color_cases [OF 4(5), of v] by (elim disjE) simp_all
  then show ?case
  proof cases
    case w
    have first: "search_ok adj st rs [v] (visit n adj v st)"
      using 4(1) [OF w 4(4,5) v(2) w] v(1) 4(8) by simp
    then obtain r st1 where r: "visit n adj v st = Some (r, st1)" by (auto simp: search_ok_def split: option.splits)
    show ?thesis
    proof (cases r)
      case (Some c)
      then show ?thesis using w r first by (simp add: search_ok_def)
    next
      case None
      then obtain rs1 where rs1: "dfs_inv adj st1 rs1" "df_path st1 = df_path st" "v \<in> set rs1" "set rs \<subseteq> set rs1"
        using first r by (auto simp: search_ok_def)
      have "search_ok adj st1 rs1 vs (visit_all n adj vs st1)"
        using 4(2) [OF w r [unfolded None] refl refl 4(4) rs1(1)] 4(6,7,8) rs1(2) white_mono [OF rs1(4,2), of adj] by simp
      then show ?thesis using w r None rs1 by (fastforce simp: search_ok_def split: option.splits prod.splits)
    qed
  next
    case g
    then have "v \<in> set (df_path st)" using 4(5) by (auto simp: dfs_inv_def split: if_splits)
    then show ?thesis using g dfs_inv_cycle [OF 4(5) _ v(1)] by (simp add: search_ok_def)
  next
    case b
    then have "v \<in> set rs" using 4(5) by (auto simp: dfs_inv_def split: if_splits)
    moreover have "search_ok adj st rs vs (visit_all n adj vs st)"
      using 4(3) [OF _ _ 4(4,5,6)] b 4(7,8) by simp
    ultimately show ?thesis using b by (fastforce simp: search_ok_def split: option.splits prod.splits)
  qed
qed

section \<open>The whole search\<close>

lemma find_cycle_from_ok:
  assumes "closed_graph adj" and "dfs_inv adj st rs" and "df_path st = []" and "set cs \<subseteq> set (dict_keys adj)"
    and "length adj \<le> n"
  shows "case find_cycle_from n adj cs st of
      None \<Rightarrow> False
    | Some (Some c) \<Rightarrow> is_cycle adj c
    | Some None \<Rightarrow> (\<exists>rs'. topo adj rs' \<and> set cs \<union> set rs \<subseteq> set rs')"
  using assms(2-4)
proof (induction cs arbitrary: st rs)
  case Nil
  then show ?case by (auto simp: dfs_inv_def)
next
  case (Cons c cs)
  have few: "card (white adj st rs) \<le> n"
  proof -
    have "card (white adj st rs) \<le> card (set (dict_keys adj))" by (rule card_mono) (auto simp: white_def)
    also have "\<dots> \<le> length adj" using card_length [of "dict_keys adj"] by (simp add: dict_keys_def)
    finally show ?thesis using assms(5) by simp
  qed
  show ?case
  proof (cases "color st c = 0")
    case True
    have ok: "search_ok adj st rs [c] (visit n adj c st)"
      using search(1) [OF assms(1) Cons.prems(1) _ True] Cons.prems few by simp
    then obtain r st1 where r: "visit n adj c st = Some (r, st1)" by (auto simp: search_ok_def split: option.splits)
    show ?thesis
    proof (cases r)
      case None
      then obtain rs1 where rs1: "dfs_inv adj st1 rs1" "df_path st1 = []" "c \<in> set rs1" "set rs \<subseteq> set rs1"
        using ok r Cons.prems(2) by (auto simp: search_ok_def)
      show ?thesis using Cons.IH [OF rs1(1,2)] Cons.prems(3) True r None rs1(3,4)
        by (fastforce split: option.splits)
    next
      case (Some d)
      then show ?thesis using True r ok by (simp add: search_ok_def)
    qed
  next
    case False
    then have "c \<in> set rs" using Cons.prems(1,2) by (auto simp: dfs_inv_def split: if_splits)
    then show ?thesis using False Cons.IH [OF Cons.prems(1,2)] Cons.prems(3) by (fastforce split: option.splits)
  qed
qed

lemma start_dfs_inv: "dfs_inv adj (start_dfs adj) []"
proof -
  have "color (start_dfs adj) v = 0" for v
    by (induction adj) (auto simp: color_def start_dfs_def dict_get_or_def dict_get_def split: option.splits)
  then show ?thesis by (simp add: dfs_inv_def start_dfs_def)
qed

lemma neighbors_no_key: "u \<notin> set (dict_keys adj) \<Longrightarrow> neighbors adj u = []"
  by (simp add: neighbors_def dict_get_or_absent dict_has_iff)

text \<open>The search ends, what it returns is a cycle, and it returns one exactly when there is one.\<close>

lemma find_cycle_correct:
  assumes "closed_graph adj" and "length adj \<le> n"
  shows "\<exists>r. find_cycle n adj = Some r \<and> (r = None \<longleftrightarrow> acyclic (edges adj)) \<and> (\<forall>c. r = Some c \<longrightarrow> is_cycle adj c)"
proof -
  have ok: "case find_cycle n adj of None \<Rightarrow> False | Some (Some c) \<Rightarrow> is_cycle adj c
      | Some None \<Rightarrow> (\<exists>rs. topo adj rs \<and> set (dict_keys adj) \<union> set [] \<subseteq> set rs)"
    unfolding find_cycle_def
    by (rule find_cycle_from_ok [OF assms(1) start_dfs_inv _ _ assms(2)]) (simp_all add: start_dfs_def)
  then obtain r where r: "find_cycle n adj = Some r" by (cases "find_cycle n adj") auto
  show ?thesis
  proof (cases r)
    case None
    then obtain rs where rs: "topo adj rs" "set (dict_keys adj) \<subseteq> set rs" using ok r by auto
    have "acyclic (edges adj)" by (rule topo_acyclic [OF rs(1)]) (use rs(2) in \<open>auto intro: neighbors_no_key\<close>)
    then show ?thesis using r None by simp
  next
    case (Some c)
    then show ?thesis using ok r is_cycle_not_acyclic by auto
  qed
qed

end
