(* ===== verification/Plan_Correct.thy ===== *)
theory Plan_Correct
  imports Cycle_Search
begin

text \<open>
  What \<open>validate_plan\<close> decides: it reports no error exactly for the trees of the definition
  \<open>plan_ok\<close>, which is stated with relations and closures and not with the search.
\<close>

section \<open>Reachability\<close>

lemma reach_Nil [simp]: "reach adj seen [] = seen"
  by (simp add: reach.simps)

lemma reach_step:
  "pending \<noteq> [] \<Longrightarrow> reach adj seen pending =
     (if last pending \<in> set seen \<or> \<not> dict_has adj (last pending) then reach adj seen (butlast pending)
      else reach adj (last pending # seen) (butlast pending @ neighbors adj (last pending)))"
  by (subst reach.simps) (simp add: Let_def)

lemma set_butlast_last: "xs \<noteq> [] \<Longrightarrow> set xs = insert (last xs) (set (butlast xs))"
  by (metis append_butlast_last_id list.set(1,2) set_append Un_insert_right Un_empty_right)

lemma reach_sound:
  "v \<in> set (reach adj seen pending) \<Longrightarrow> v \<in> set seen \<or> (\<exists>u \<in> set pending. (u, v) \<in> (edges adj)\<^sup>*)"
proof (induction adj seen pending rule: reach.induct)
  case (1 adj seen pending)
  show ?case
  proof (cases "pending = []")
    case True
    then show ?thesis using "1.prems" by simp
  next
    case False
    note s = set_butlast_last [OF False]
    show ?thesis
    proof (cases "last pending \<in> set seen \<or> \<not> dict_has adj (last pending)")
      case True
      then show ?thesis using "1.IH"(1) [OF False refl refl True] "1.prems" s False by (auto simp: reach_step)
    next
      case new: False
      have "v \<in> set (reach adj (last pending # seen) (butlast pending @ neighbors adj (last pending)))"
        using "1.prems" False new by (simp add: reach_step)
      from "1.IH"(2) [OF False refl refl new this]
      show ?thesis
      proof (elim disjE bexE)
        assume "v \<in> set (last pending # seen)"
        then show ?thesis using s by auto
      next
        fix u assume u: "u \<in> set (butlast pending @ neighbors adj (last pending))" "(u, v) \<in> (edges adj)\<^sup>*"
        show ?thesis
        proof (cases "u \<in> set (butlast pending)")
          case True
          then show ?thesis using u(2) s by blast
        next
          case False
          then have "(last pending, u) \<in> edges adj" using u(1) by (simp add: edges_def)
          then have "(last pending, v) \<in> (edges adj)\<^sup>*" using u(2) by (rule converse_rtrancl_into_rtrancl)
          then show ?thesis using s by blast
        qed
      qed
    qed
  qed
qed

lemma reach_complete:
  "\<forall>u \<in> set seen. set (neighbors adj u) \<subseteq> set seen \<union> set pending \<Longrightarrow> closed_graph adj \<Longrightarrow>
   set pending \<subseteq> set (dict_keys adj) \<Longrightarrow>
   set seen \<union> set pending \<subseteq> set (reach adj seen pending) \<and>
   (\<forall>u \<in> set (reach adj seen pending). set (neighbors adj u) \<subseteq> set (reach adj seen pending))"
proof (induction adj seen pending rule: reach.induct)
  case (1 adj seen pending)
  show ?case
  proof (cases "pending = []")
    case True
    then show ?thesis using "1.prems" by simp
  next
    case False
    note s = set_butlast_last [OF False]
    have key: "dict_has adj (last pending)" using "1.prems"(3) s by (simp add: dict_has_iff)
    show ?thesis
    proof (cases "last pending \<in> set seen")
      case True
      have "\<forall>u \<in> set seen. set (neighbors adj u) \<subseteq> set seen \<union> set (butlast pending)"
        using "1.prems"(1) True s by auto
      moreover have "set (butlast pending) \<subseteq> set (dict_keys adj)" using "1.prems"(3) s by auto
      ultimately show ?thesis using "1.IH"(1) [OF False refl refl] "1.prems"(2) True s False
        by (auto simp: reach_step)
    next
      case new: False
      have "\<forall>u \<in> set (last pending # seen). set (neighbors adj u) \<subseteq>
          set (last pending # seen) \<union> set (butlast pending @ neighbors adj (last pending))"
        using "1.prems"(1) s by auto
      moreover have "set (butlast pending @ neighbors adj (last pending)) \<subseteq> set (dict_keys adj)"
        using "1.prems"(2,3) s by (auto simp: closed_graph_def)
      ultimately have "set (last pending # seen) \<union> set (butlast pending @ neighbors adj (last pending))
          \<subseteq> set (reach adj (last pending # seen) (butlast pending @ neighbors adj (last pending))) \<and>
        (\<forall>u \<in> set (reach adj (last pending # seen) (butlast pending @ neighbors adj (last pending))).
           set (neighbors adj u) \<subseteq> set (reach adj (last pending # seen) (butlast pending @ neighbors adj (last pending))))"
        using "1.IH"(2) [OF False refl refl _ _ "1.prems"(2)] new key by blast
      moreover have "reach adj seen pending = reach adj (last pending # seen) (butlast pending @ neighbors adj (last pending))"
        using new key False by (simp add: reach_step)
      ultimately show ?thesis using s by auto
    qed
  qed
qed

lemma reach_exact:
  assumes "closed_graph adj" and "g \<in> set (dict_keys adj)"
  shows "v \<in> set (reach adj [] [g]) \<longleftrightarrow> (g, v) \<in> (edges adj)\<^sup>*"
proof
  assume "v \<in> set (reach adj [] [g])"
  then show "(g, v) \<in> (edges adj)\<^sup>*" using reach_sound by fastforce
next
  assume "(g, v) \<in> (edges adj)\<^sup>*"
  then show "v \<in> set (reach adj [] [g])"
  proof induction
    case base
    then show ?case using reach_complete [of "[]" adj "[g]"] assms by simp
  next
    case (step u w)
    then have "set (neighbors adj u) \<subseteq> set (reach adj [] [g])"
      using reach_complete [of "[]" adj "[g]"] assms by simp
    then show ?case using step(2) by (auto simp: edges_def)
  qed
qed

section \<open>The two graphs of a tree\<close>

lemma dict_get_map: "dict_get (map (\<lambda>(k, v). (k, f v)) d) k = map_option f (dict_get d k)"
  by (induction d) (auto simp: dict_get_def)

lemma neighbors_hierarchy:
  "neighbors (hierarchy t) k = (case get_node t k of None \<Rightarrow> []
     | Some n \<Rightarrow> filter (\<lambda>c. get_node t c \<noteq> None) (tn_children_ids n))"
  by (simp add: neighbors_def hierarchy_def dict_get_or_def dict_get_map get_node_def split: option.splits)

lemma neighbors_dependencies:
  "neighbors (dependencies t) k = (case get_node t k of None \<Rightarrow> []
     | Some n \<Rightarrow> filter (\<lambda>c. get_node t c \<noteq> None) (tn_dependent_tasks n))"
  by (simp add: neighbors_def dependencies_def dict_get_or_def dict_get_map get_node_def split: option.splits)

lemma graph_keys [simp]:
  "dict_keys (hierarchy t) = dict_keys (tt_nodes t)" "dict_keys (dependencies t) = dict_keys (tt_nodes t)"
  "length (hierarchy t) = length (tt_nodes t)" "length (dependencies t) = length (tt_nodes t)"
  by (simp_all add: hierarchy_def dependencies_def dict_keys_def case_prod_beta comp_def)

lemma closed_graphs: "closed_graph (hierarchy t)" "closed_graph (dependencies t)"
  by (auto simp: closed_graph_def neighbors_hierarchy neighbors_dependencies get_node_def dict_get_None_iff
      split: option.splits)

definition child_rel :: "task_tree \<Rightarrow> (string \<times> string) set" where
  "child_rel t = {(k, c). \<exists>n. get_node t k = Some n \<and> c \<in> set (tn_children_ids n)}"

definition dep_rel :: "task_tree \<Rightarrow> (string \<times> string) set" where
  "dep_rel t = {(k, d). \<exists>n. get_node t k = Some n \<and> d \<in> set (tn_dependent_tasks n)}"

definition node_ok :: "task_tree \<Rightarrow> string \<Rightarrow> task_node \<Rightarrow> bool" where
  "node_ok t k n =
     (tn_id n = k \<and> distinct (tn_children_ids n) \<and> distinct (tn_dependent_tasks n) \<and>
      (k \<noteq> tt_goal_id t \<longrightarrow>
         (\<exists>p pn. tn_parent_id n = Some p \<and> get_node t p = Some pn \<and> k \<in> set (tn_children_ids pn))) \<and>
      (\<forall>c \<in> set (tn_children_ids n). c \<noteq> k \<and> (\<exists>cn. get_node t c = Some cn \<and> tn_parent_id cn = Some k)) \<and>
      (\<forall>d \<in> set (tn_dependent_tasks n). d \<noteq> k \<and> get_node t d \<noteq> None))"

definition plan_ok :: "task_tree \<Rightarrow> bool" where
  "plan_ok t =
     ((\<exists>r. get_node t (tt_goal_id t) = Some r \<and> tn_parent_id r = None) \<and>
      (\<forall>k n. get_node t k = Some n \<longrightarrow> node_ok t k n) \<and>
      acyclic (child_rel t) \<and> acyclic (dep_rel t) \<and>
      (\<forall>k \<in> set (dict_keys (tt_nodes t)). (tt_goal_id t, k) \<in> (child_rel t)\<^sup>*))"

lemma err_if_Nil [simp]: "err_if b e = [] \<longleftrightarrow> \<not> b"
  by (simp add: err_if_def)

lemma root_errors_Nil: "root_errors t = [] \<longleftrightarrow> (\<exists>r. get_node t (tt_goal_id t) = Some r \<and> tn_parent_id r = None)"
  by (auto simp: root_errors_def split: option.splits)

lemma node_errors_Nil: "node_errors t k n = [] \<longleftrightarrow> node_ok t k n"
  by (auto simp: node_errors_def node_ok_def parent_errors_def child_errors_def dependency_errors_def
      split: option.splits)

lemma edges_local:
  assumes "\<forall>k n. get_node t k = Some n \<longrightarrow> node_ok t k n"
  shows "edges (hierarchy t) = child_rel t" "edges (dependencies t) = dep_rel t"
  using assms unfolding edges_def child_rel_def dep_rel_def
  by (force simp: neighbors_hierarchy neighbors_dependencies node_ok_def split: option.splits)+

lemma validate_plan_total: "validate_plan t \<noteq> None"
  using find_cycle_correct [OF closed_graphs(1), of t "Suc (length (tt_nodes t))"]
    find_cycle_correct [OF closed_graphs(2), of t "Suc (length (tt_nodes t))"]
  by (auto simp: validate_plan_def validate_plan_with_def Let_def)

lemma validate_plan_iff:
  assumes wf: "dict_wf (tt_nodes t)"
  shows "validate_plan t = Some [] \<longleftrightarrow> plan_ok t"
proof -
  let ?n = "Suc (length (tt_nodes t))"
  obtain h where h: "find_cycle ?n (hierarchy t) = Some h" "h = None \<longleftrightarrow> acyclic (edges (hierarchy t))"
    using find_cycle_correct [OF closed_graphs(1), of t ?n] by auto
  obtain d where d: "find_cycle ?n (dependencies t) = Some d" "d = None \<longleftrightarrow> acyclic (edges (dependencies t))"
    using find_cycle_correct [OF closed_graphs(2), of t ?n] by auto
  have nodes: "concat (map (\<lambda>(k, n). node_errors t k n) (tt_nodes t)) = [] \<longleftrightarrow>
      (\<forall>k n. get_node t k = Some n \<longrightarrow> node_ok t k n)"
    using wf by (auto simp: node_errors_Nil get_node_def dict_get_Some_iff)
  have cyc: "cycle_errors e (Some r) = [] \<longleftrightarrow> r = None" for e r
    by (simp add: cycle_errors_def split: option.splits)
  have reach: "reach_errors t = [] \<longleftrightarrow> (\<forall>k \<in> set (dict_keys (tt_nodes t)). (tt_goal_id t, k) \<in> (edges (hierarchy t))\<^sup>*)"
    if "get_node t (tt_goal_id t) \<noteq> None"
    using that reach_exact [OF closed_graphs(1), of "tt_goal_id t" t]
    by (auto simp: reach_errors_def get_node_def dict_get_None_iff filter_eq_Nil_conv)
  show ?thesis
    unfolding validate_plan_def validate_plan_with_def plan_ok_def Let_def h(1) d(1)
    using nodes reach edges_local [of t] h(2) d(2) by (auto simp: cyc root_errors_Nil)
qed

text \<open>
  C12. Plan validation is exact: it always ends, and it reports no error exactly when the plan is
  a tree below its root, with consistent links in both directions, whose dependencies exist and
  have no cycle, so that they can be ordered.
\<close>

theorem validate_plan_exact:
  assumes "dict_wf (tt_nodes t)"
  shows "validate_plan t \<noteq> None \<and> (validate_plan t = Some [] \<longleftrightarrow> plan_ok t) \<and>
    (ok (assert_valid_plan t) \<longleftrightarrow> plan_ok t)"
  using validate_plan_total [of t] validate_plan_iff [OF assms]
  by (auto simp: assert_valid_plan_def split: option.splits list.splits)

definition task :: "string \<Rightarrow> task_status \<Rightarrow> string option \<Rightarrow> string list \<Rightarrow> string list \<Rightarrow> task_node" where
  "task k st p cs ds =
     \<lparr>tn_id = k, tn_title = k, tn_status = st, tn_parent_id = p, tn_children_ids = cs,
      tn_dependent_tasks = ds, tn_depth = (if p = None then 0 else 1), tn_error_history = [],
      tn_retry_count = 0, tn_is_atomic = False, tn_created_at = 0\<rparr>"

definition plan_of :: "task_node list \<Rightarrow> task_tree" where
  "plan_of ns = \<lparr>tt_goal_id = ''goal'', tt_nodes = map (\<lambda>n. (tn_id n, n)) ns\<rparr>"

definition sample_plan :: task_tree where
  "sample_plan = plan_of
     [task ''goal'' T_PENDING None [''a'', ''b''] [], task ''a'' T_PENDING (Some ''goal'') [] [],
      task ''b'' T_PENDING (Some ''goal'') [] [''a'']]"

lemma sample_plan_validates: "validate_plan sample_plan = Some []"
  by code_simp

theorem validate_plan_exact_witness: "plan_ok sample_plan \<and> ok (assert_valid_plan sample_plan)"
proof -
  have "dict_wf (tt_nodes sample_plan)" by (simp add: sample_plan_def plan_of_def task_def dict_wf_def)
  from validate_plan_exact [OF this] show ?thesis by (simp add: sample_plan_validates)
qed

end
