(* ===== verification/Scheduler_Correct.thy ===== *)
theory Scheduler_Correct
  imports Plan_Scheduler Plan_Correct
begin

text \<open>
  What one pass of the scheduler returns and changes: the ready tasks are a closed form of the
  tree before the pass, and the only writes cancel pending leaves with a cancelled dependency.
\<close>

section \<open>Writes to a tree\<close>

lemma get_put_node [simp]: "get_node (put_node k n t) k' = (if k' = k then Some n else get_node t k')"
  by (simp add: get_node_def put_node_def)

lemma put_node_keys: "get_node t k \<noteq> None \<Longrightarrow> dict_keys (tt_nodes (put_node k n t)) = dict_keys (tt_nodes t)"
  by (simp add: put_node_def get_node_def dict_keys_set_present dict_get_None_iff)

lemma put_node_goal [simp]: "tt_goal_id (put_node k n t) = tt_goal_id t"
  by (simp add: put_node_def)

lemma put_node_wf: "dict_wf (tt_nodes t) \<Longrightarrow> dict_wf (tt_nodes (put_node k n t))"
  by (simp add: put_node_def dict_wf_set)

definition has_status :: "task_tree \<Rightarrow> task_status \<Rightarrow> string \<Rightarrow> bool" where
  "has_status t s k = (case get_node t k of None \<Rightarrow> False | Some n \<Rightarrow> tn_status n = s)"

lemma has_status_iff: "has_status t s k \<longleftrightarrow> (\<exists>n. get_node t k = Some n \<and> tn_status n = s)"
  by (simp add: has_status_def split: option.splits)

definition deps_passed :: "task_tree \<Rightarrow> task_node \<Rightarrow> bool" where
  "deps_passed t n = list_all (has_status t T_PASSED) (tn_dependent_tasks n)"

definition pending_leaf :: "task_node \<Rightarrow> bool" where
  "pending_leaf n = (is_leaf n \<and> tn_status n = T_PENDING)"

definition deps_known :: "task_tree \<Rightarrow> bool" where
  "deps_known t = (\<forall>k n. get_node t k = Some n \<longrightarrow> (\<forall>d \<in> set (tn_dependent_tasks n). get_node t d \<noteq> None))"

lemma plan_ok_deps_known: "plan_ok t \<Longrightarrow> deps_known t"
  by (auto simp: plan_ok_def deps_known_def node_ok_def)

section \<open>Scanning the dependencies\<close>

lemma scan_met: "scan_deps t ds = Deps_Met \<longleftrightarrow> list_all (has_status t T_PASSED) ds"
  by (induction ds) (auto simp: has_status_def split: option.splits)

lemma scan_missing: "scan_deps t ds = Dep_Missing d \<Longrightarrow> d \<in> set ds \<and> get_node t d = None"
  by (induction ds) (auto split: option.splits if_splits)

lemma scan_cancelled: "scan_deps t ds = Deps_Cancelled \<Longrightarrow> \<exists>d \<in> set ds. has_status t T_CANCELLED d"
  by (induction ds) (auto simp: has_status_def split: option.splits if_splits)

lemma scan_settled:
  "\<forall>d \<in> set ds. has_status t T_PASSED d \<or> has_status t T_CANCELLED d \<Longrightarrow> \<not> list_all (has_status t T_PASSED) ds \<Longrightarrow>
   scan_deps t ds = Deps_Cancelled"
  by (induction ds) (auto simp: has_status_def split: option.splits)

section \<open>The cancellations of a pass\<close>

text \<open>A node is as it was, or a pending leaf that was cancelled for a cancelled dependency.\<close>

definition cancelled_in :: "task_tree \<Rightarrow> task_tree \<Rightarrow> string \<Rightarrow> bool" where
  "cancelled_in t t' k =
     (\<exists>n. get_node t k = Some n \<and> pending_leaf n \<and> get_node t' k = Some (n\<lparr>tn_status := T_CANCELLED\<rparr>) \<and>
        (\<exists>d \<in> set (tn_dependent_tasks n). has_status t' T_CANCELLED d))"

definition cascades :: "task_tree \<Rightarrow> task_tree \<Rightarrow> bool" where
  "cascades t t' =
     (tt_goal_id t' = tt_goal_id t \<and> dict_keys (tt_nodes t') = dict_keys (tt_nodes t) \<and>
      (\<forall>k. get_node t' k = get_node t k \<or> cancelled_in t t' k))"

lemma cascades_refl [simp]: "cascades t t"
  by (simp add: cascades_def)

lemma cascades_cases:
  assumes "cascades t t'"
  obtains "get_node t' k = get_node t k" | n where "get_node t k = Some n" "pending_leaf n"
    "get_node t' k = Some (n\<lparr>tn_status := T_CANCELLED\<rparr>)" "\<exists>d \<in> set (tn_dependent_tasks n). has_status t' T_CANCELLED d"
  using assms unfolding cascades_def cancelled_in_def by metis

lemma cascades_status:
  assumes "cascades t t'" and "has_status t s k" and "s \<noteq> T_PENDING"
  shows "has_status t' s k"
proof (rule cascades_cases [OF assms(1), of k])
  assume "get_node t' k = get_node t k"
  then show ?thesis using assms(2) by (simp add: has_status_def)
next
  fix n assume "get_node t k = Some n" "pending_leaf n"
  then show ?thesis using assms(2,3) by (simp add: has_status_def pending_leaf_def)
qed

lemma cascades_passed:
  assumes "cascades t t'"
  shows "has_status t' T_PASSED k = has_status t T_PASSED k"
  by (rule cascades_cases [OF assms, of k]) (simp_all add: has_status_def pending_leaf_def)

lemma cascades_trans:
  assumes "cascades t t1" and "cascades t1 t2"
  shows "cascades t t2"
proof -
  have "get_node t2 k = get_node t k \<or> cancelled_in t t2 k" for k
  proof (rule cascades_cases [OF assms(1), of k])
    assume "get_node t1 k = get_node t k"
    then show ?thesis using assms(2) unfolding cascades_def cancelled_in_def by metis
  next
    fix n assume n: "get_node t k = Some n" "pending_leaf n" "get_node t1 k = Some (n\<lparr>tn_status := T_CANCELLED\<rparr>)"
      and d: "\<exists>d \<in> set (tn_dependent_tasks n). has_status t1 T_CANCELLED d"
    have "get_node t2 k = get_node t1 k"
      by (rule cascades_cases [OF assms(2), of k]) (use n(3) in \<open>simp_all add: pending_leaf_def\<close>)
    moreover have "\<exists>d \<in> set (tn_dependent_tasks n). has_status t2 T_CANCELLED d"
      using d cascades_status [OF assms(2)] by blast
    ultimately show ?thesis using n by (simp add: cancelled_in_def)
  qed
  then show ?thesis using assms by (simp add: cascades_def)
qed

lemma cascades_wf: "cascades t t' \<Longrightarrow> dict_wf (tt_nodes t) \<Longrightarrow> dict_wf (tt_nodes t')"
  by (simp add: cascades_def dict_wf_def dict_keys_def)

lemma cascades_step:
  assumes "get_node t k = Some n" and "pending_leaf n" and "scan_deps t (tn_dependent_tasks n) = Deps_Cancelled"
  shows "cascades t (put_node k (n\<lparr>tn_status := T_CANCELLED\<rparr>) t)"
proof -
  obtain d where d: "d \<in> set (tn_dependent_tasks n)" "has_status t T_CANCELLED d" using scan_cancelled [OF assms(3)] by auto
  then have "d \<noteq> k" using assms(1,2) by (auto simp: has_status_iff pending_leaf_def)
  then show ?thesis
    using assms(1,2) d by (auto simp: cascades_def cancelled_in_def put_node_keys has_status_iff)
qed

section \<open>The loop over the pending leaves\<close>

definition known_deps :: "task_tree \<Rightarrow> task_node \<Rightarrow> bool" where
  "known_deps t n = (\<forall>d \<in> set (tn_dependent_tasks n). get_node t d \<noteq> None)"

lemma ready_loop_exact:
  assumes "distinct ks"
    and "\<forall>k \<in> set ks. \<exists>n. get_node t k = Some n \<and> pending_leaf n \<and> known_deps t n"
  shows "fst (ready_loop ks ready t) = Inr (ready @ filter (\<lambda>k. deps_passed t (the (get_node t k))) ks) \<and>
    cascades t (snd (ready_loop ks ready t)) \<and>
    (\<forall>k. k \<notin> set ks \<longrightarrow> get_node (snd (ready_loop ks ready t)) k = get_node t k) \<and>
    (\<forall>k \<in> set ks. scan_deps t (tn_dependent_tasks (the (get_node t k))) = Deps_Cancelled \<longrightarrow>
       has_status (snd (ready_loop ks ready t)) T_CANCELLED k)"
  using assms
proof (induction ks arbitrary: ready t)
  case Nil
  then show ?case by simp
next
  case (Cons k ks)
  obtain n where n: "get_node t k = Some n" "pending_leaf n" "known_deps t n" using Cons.prems by auto
  show ?case
  proof (cases "scan_deps t (tn_dependent_tasks n)")
    case Deps_Met
    then have p: "deps_passed t n" by (simp add: deps_passed_def flip: scan_met)
    have e: "ready_loop (k # ks) ready t = ready_loop ks (ready @ [k]) t"
      using n(1,2) Deps_Met by (simp add: pending_leaf_def)
    show ?thesis unfolding e using Cons.IH [of t "ready @ [k]"] Cons.prems n(1) p Deps_Met by auto
  next
    case Deps_Open
    then have "\<not> deps_passed t n" by (simp add: deps_passed_def flip: scan_met)
    moreover have e: "ready_loop (k # ks) ready t = ready_loop ks ready t" using n(1) Deps_Open by simp
    ultimately show ?thesis unfolding e using Cons.IH [of t ready] Cons.prems n(1) Deps_Open by auto
  next
    case (Dep_Missing d)
    then show ?thesis using scan_missing [OF Dep_Missing] n(3) by (auto simp: known_deps_def)
  next
    case Deps_Cancelled
    define t1 where "t1 = put_node k (n\<lparr>tn_status := T_CANCELLED\<rparr>) t"
    have c1: "cascades t t1" unfolding t1_def by (rule cascades_step [OF n(1,2) Deps_Cancelled])
    have same: "get_node t1 k' = get_node t k'" if "k' \<in> set ks" for k'
      using that Cons.prems(1) by (auto simp: t1_def)
    have known: "known_deps t1 m" if "known_deps t m" for m
      using that by (auto simp: known_deps_def t1_def)
    have passed: "deps_passed t1 m = deps_passed t m" for m
      by (simp add: deps_passed_def cascades_passed [OF c1] list_all_iff)
    have np: "\<not> deps_passed t n" using Deps_Cancelled by (simp add: deps_passed_def flip: scan_met)
    have "\<forall>k' \<in> set ks. \<exists>m. get_node t1 k' = Some m \<and> pending_leaf m \<and> known_deps t1 m"
      using Cons.prems(2) same known by auto
    then have ih: "fst (ready_loop ks ready t1) = Inr (ready @ filter (\<lambda>k. deps_passed t1 (the (get_node t1 k))) ks)"
        "cascades t1 (snd (ready_loop ks ready t1))"
        "\<forall>k'. k' \<notin> set ks \<longrightarrow> get_node (snd (ready_loop ks ready t1)) k' = get_node t1 k'"
        "\<forall>k' \<in> set ks. scan_deps t1 (tn_dependent_tasks (the (get_node t1 k'))) = Deps_Cancelled \<longrightarrow>
           has_status (snd (ready_loop ks ready t1)) T_CANCELLED k'"
      using Cons.IH [of t1 ready] Cons.prems(1) by auto
    have e: "ready_loop (k # ks) ready t = ready_loop ks ready t1"
      using n(1) Deps_Cancelled by (simp add: t1_def)
    have f: "filter (\<lambda>k. deps_passed t1 (the (get_node t1 k))) ks = filter (\<lambda>k. deps_passed t (the (get_node t k))) ks"
      using same passed by (auto intro: filter_cong)
    have keep: "scan_deps t1 ds = Deps_Cancelled" if "scan_deps t ds = Deps_Cancelled" for ds
      using that by (induction ds) (use n in \<open>auto simp: t1_def pending_leaf_def split: option.splits if_splits\<close>)
    have kk: "has_status (snd (ready_loop ks ready t1)) T_CANCELLED k"
      using ih(3) Cons.prems(1) by (simp add: has_status_def t1_def)
    show ?thesis
      unfolding e using ih(1,2) f np n(1) cascades_trans [OF c1 ih(2)] ih(3,4) kk same keep by (auto simp: t1_def)
  qed
qed

lemma pending_leaf_keys_mem:
  "dict_wf (tt_nodes t) \<Longrightarrow> k \<in> set (pending_leaf_keys t) \<longleftrightarrow> (\<exists>n. get_node t k = Some n \<and> pending_leaf n)"
  by (force simp: pending_leaf_keys_def pending_leaf_def get_node_def dict_get_Some_iff)

lemma distinct_pending_leaf_keys: "dict_wf (tt_nodes t) \<Longrightarrow> distinct (pending_leaf_keys t)"
  by (simp add: pending_leaf_keys_def dict_wf_def distinct_map_filter)

section \<open>A pass of the scheduler\<close>

definition ready_nodes :: "task_tree \<Rightarrow> task_node list" where
  "ready_nodes t = filter (\<lambda>n. pending_leaf n \<and> deps_passed t n) (dict_values (tt_nodes t))"

lemma entry_get: "dict_wf (tt_nodes t) \<Longrightarrow> (k, n) \<in> set (tt_nodes t) \<Longrightarrow> get_node t k = Some n"
  by (simp add: get_node_def dict_get_Some_iff)

lemma ready_keys_nodes:
  assumes "dict_wf (tt_nodes t)"
  shows "map (\<lambda>k. the (get_node t k)) (filter (\<lambda>k. deps_passed t (the (get_node t k))) (pending_leaf_keys t)) = ready_nodes t"
proof -
  have f: "filter (\<lambda>k. deps_passed t (the (get_node t k))) (map fst xs) = map fst (filter (\<lambda>(k, n). deps_passed t n) xs)"
    if "set xs \<subseteq> set (tt_nodes t)" for xs
    using that by (induction xs) (auto simp: entry_get [OF assms])
  have g: "map (\<lambda>k. the (get_node t k)) (map fst xs) = map snd xs" if "set xs \<subseteq> set (tt_nodes t)" for xs
    using that by (induction xs) (auto simp: entry_get [OF assms])
  have h: "map snd (filter (\<lambda>(k, n). P n) xs) = filter P (map snd xs)" for P and xs :: "(string \<times> task_node) list"
    by (induction xs) auto
  have s1: "set (filter (\<lambda>(k, n). deps_passed t n) (filter (\<lambda>(k, n). is_leaf n \<and> tn_status n = T_PENDING) (tt_nodes t)))
      \<subseteq> set (tt_nodes t)" by auto
  have s2: "set (filter (\<lambda>(k, n). is_leaf n \<and> tn_status n = T_PENDING) (tt_nodes t)) \<subseteq> set (tt_nodes t)" by auto
  show ?thesis
    unfolding pending_leaf_keys_def f [OF s2] g [OF s1] h ready_nodes_def dict_values_def pending_leaf_def
    by (simp add: conj_commute conj_left_commute)
qed

lemma get_ready_tasks_eq:
  assumes wf: "dict_wf (tt_nodes t)" and known: "deps_known t"
  obtains t' where "get_ready_tasks t = (Inr (sort_key ready_order (ready_nodes t)), t')" "cascades t t'"
    "\<And>k n. get_node t k = Some n \<Longrightarrow> pending_leaf n \<Longrightarrow> scan_deps t (tn_dependent_tasks n) = Deps_Cancelled \<Longrightarrow>
       has_status t' T_CANCELLED k"
proof -
  define ks where "ks = filter (\<lambda>k. deps_passed t (the (get_node t k))) (pending_leaf_keys t)"
  define t' where "t' = snd (ready_loop (pending_leaf_keys t) [] t)"
  have pl: "\<forall>k \<in> set (pending_leaf_keys t). \<exists>n. get_node t k = Some n \<and> pending_leaf n \<and> known_deps t n"
    using pending_leaf_keys_mem [OF wf] known by (auto simp: deps_known_def known_deps_def)
  have ex: "fst (ready_loop (pending_leaf_keys t) [] t) = Inr ks" "cascades t t'"
    "\<forall>k \<in> set (pending_leaf_keys t). scan_deps t (tn_dependent_tasks (the (get_node t k))) = Deps_Cancelled \<longrightarrow>
       has_status t' T_CANCELLED k"
    using ready_loop_exact [OF distinct_pending_leaf_keys [OF wf] pl, of "[]"] unfolding ks_def t'_def by auto
  have same: "get_node t' k = Some (the (get_node t k))" if k: "k \<in> set ks" for k
  proof -
    obtain n where n: "get_node t k = Some n" "deps_passed t n" using k pl by (auto simp: ks_def)
    show ?thesis
    proof (rule cascades_cases [OF ex(2), of k])
      assume "get_node t' k = get_node t k"
      then show ?thesis using n by simp
    next
      fix m assume m: "get_node t k = Some m" "\<exists>d \<in> set (tn_dependent_tasks m). has_status t' T_CANCELLED d"
      then obtain d where "d \<in> set (tn_dependent_tasks n)" "has_status t' T_CANCELLED d" using n by auto
      moreover have "has_status t' T_PASSED d"
        using n(2) calculation(1) by (simp add: cascades_passed [OF ex(2)] deps_passed_def list_all_iff)
      ultimately show ?thesis by (auto simp: has_status_iff)
    qed
  qed
  have "List.map_filter (get_node t') xs = map (\<lambda>k. the (get_node t k)) xs" if "set xs \<subseteq> set ks" for xs
    using that same by (induction xs) (auto simp: List.map_filter_simps)
  then have "List.map_filter (get_node t') ks = ready_nodes t"
    using ready_keys_nodes [OF wf] by (simp add: ks_def)
  moreover have "ready_loop (pending_leaf_keys t) [] t = (Inr ks, t')" using ex(1) by (simp add: t'_def prod_eq_iff)
  ultimately have "get_ready_tasks t = (Inr (sort_key ready_order (ready_nodes t)), t')"
    by (simp add: get_ready_tasks_def)
  moreover have "has_status t' T_CANCELLED k" if "get_node t k = Some n" "pending_leaf n"
      "scan_deps t (tn_dependent_tasks n) = Deps_Cancelled" for k n
    using ex(3) that pending_leaf_keys_mem [OF wf, of k] by auto
  ultimately show ?thesis using that ex(2) by blast
qed

text \<open>
  A pass of the scheduler returns exactly the pending leaves all of whose dependencies have
  passed, in the order of depth and creation, and never fails on a valid plan. The only nodes it
  changes are pending leaves, which it cancels, and each of these has a cancelled dependency.
\<close>

theorem get_ready_tasks_exact:
  assumes "dict_wf (tt_nodes t)" and "plan_ok t"
  shows "fst (get_ready_tasks t) = Inr (sort_key ready_order (ready_nodes t)) \<and>
    cascades t (snd (get_ready_tasks t))"
  using get_ready_tasks_eq [OF assms(1) plan_ok_deps_known [OF assms(2)]] by (metis fst_conv snd_conv)

lemma sample_plan_ok: "dict_wf (tt_nodes sample_plan) \<and> plan_ok sample_plan"
  using validate_plan_iff [of sample_plan] sample_plan_validates
  by (simp add: sample_plan_def plan_of_def task_def dict_wf_def)

theorem get_ready_tasks_exact_witness:
  "fst (get_ready_tasks sample_plan) = Inr [task ''a'' T_PENDING (Some ''goal'') [] []]"
proof -
  have "sort_key ready_order (ready_nodes sample_plan) = [task ''a'' T_PENDING (Some ''goal'') [] []]"
    by (simp add: ready_nodes_def sample_plan_def plan_of_def task_def dict_values_def pending_leaf_def is_leaf_def
        deps_passed_def has_status_def get_node_def dict_get_def)
  then show ?thesis using get_ready_tasks_exact [of sample_plan] sample_plan_ok by simp
qed

section \<open>Progress\<close>

definition settled_leaves :: "task_tree \<Rightarrow> bool" where
  "settled_leaves t =
     list_all (\<lambda>n. is_leaf n \<longrightarrow> tn_status n \<in> {T_PENDING, T_PASSED, T_CANCELLED}) (dict_values (tt_nodes t))"

definition deps_are_leaves :: "task_tree \<Rightarrow> bool" where
  "deps_are_leaves t =
     list_all (\<lambda>n. list_all (\<lambda>d. case get_node t d of None \<Rightarrow> False | Some m \<Rightarrow> is_leaf m) (tn_dependent_tasks n))
       (dict_values (tt_nodes t))"

lemma dep_rel_finite: "deps_known t \<Longrightarrow> finite (dep_rel t)"
proof -
  assume "deps_known t"
  then have "dep_rel t \<subseteq> set (dict_keys (tt_nodes t)) \<times> set (dict_keys (tt_nodes t))"
    by (auto simp: dep_rel_def deps_known_def get_node_def dict_has_iff dict_get_None_iff)
       (metis dict_get_None_iff option.discI)
  then show ?thesis by (rule finite_subset) simp
qed

text \<open>Among the pending leaves one has no pending dependency.\<close>

lemma minimal_pending:
  assumes ok: "plan_ok t" and k: "get_node t k = Some n" "pending_leaf n"
  obtains k' n' where "get_node t k' = Some n'" "pending_leaf n'"
    "\<forall>d \<in> set (tn_dependent_tasks n'). \<forall>m. get_node t d = Some m \<longrightarrow> \<not> pending_leaf m"
proof -
  have "wf ((dep_rel t)\<inverse>)"
    using dep_rel_finite [OF plan_ok_deps_known [OF ok]] ok by (auto simp: plan_ok_def intro: finite_acyclic_wf_converse)
  moreover have "k \<in> {k. \<exists>n. get_node t k = Some n \<and> pending_leaf n}" using k by auto
  ultimately obtain z where z: "z \<in> {k. \<exists>n. get_node t k = Some n \<and> pending_leaf n}"
      "\<And>y. (y, z) \<in> (dep_rel t)\<inverse> \<Longrightarrow> y \<notin> {k. \<exists>n. get_node t k = Some n \<and> pending_leaf n}"
    by (rule wfE_min) blast
  then show ?thesis using that by (force simp: dep_rel_def)
qed

text \<open>
  Progress of the scheduler: when every dependency is a leaf and no leaf is running or
  failed, a pass over a valid plan with a pending leaf returns a ready task or cancels a leaf. So
  a plan whose dependencies are leaves cannot get stuck.
\<close>

theorem scheduler_progress:
  assumes "dict_wf (tt_nodes t)" and "plan_ok t" and "deps_are_leaves t" and "settled_leaves t"
    and "get_pending_leaves t \<noteq> []"
  shows "\<exists>ready t'. get_ready_tasks t = (Inr ready, t') \<and>
    (ready \<noteq> [] \<or> (\<exists>k. has_status t T_PENDING k \<and> has_status t' T_CANCELLED k))"
proof -
  obtain t' where g: "get_ready_tasks t = (Inr (sort_key ready_order (ready_nodes t)), t')"
    and c: "\<And>k n. get_node t k = Some n \<Longrightarrow> pending_leaf n \<Longrightarrow> scan_deps t (tn_dependent_tasks n) = Deps_Cancelled \<Longrightarrow>
       has_status t' T_CANCELLED k"
    using get_ready_tasks_eq [OF assms(1) plan_ok_deps_known [OF assms(2)]] by metis
  obtain n where "n \<in> set (get_pending_leaves t)" using assms(5) by (cases "get_pending_leaves t") auto
  then have "n \<in> set (dict_values (tt_nodes t))" "pending_leaf n" by (auto simp: get_pending_leaves_def pending_leaf_def)
  then obtain k where "get_node t k = Some n" "pending_leaf n"
    using dict_values_get [OF assms(1)] unfolding get_node_def by metis
  then obtain k n where k: "get_node t k = Some n" "pending_leaf n"
    and d: "\<forall>d \<in> set (tn_dependent_tasks n). \<forall>m. get_node t d = Some m \<longrightarrow> \<not> pending_leaf m"
    using minimal_pending [OF assms(2)] by metis
  have val: "n \<in> set (dict_values (tt_nodes t))" using k(1) by (auto simp: get_node_def dest: dict_get_in_values)
  have settled: "\<forall>d \<in> set (tn_dependent_tasks n). has_status t T_PASSED d \<or> has_status t T_CANCELLED d"
  proof
    fix d' assume d': "d' \<in> set (tn_dependent_tasks n)"
    then obtain m where m: "get_node t d' = Some m" "is_leaf m"
      using assms(3) val by (auto simp: deps_are_leaves_def list_all_iff split: option.splits)
    then have "tn_status m \<in> {T_PENDING, T_PASSED, T_CANCELLED}"
      using assms(4) by (auto simp: settled_leaves_def list_all_iff get_node_def dest: dict_get_in_values)
    then show "has_status t T_PASSED d' \<or> has_status t T_CANCELLED d'"
      using d d' m by (auto simp: has_status_iff pending_leaf_def)
  qed
  show ?thesis
  proof (cases "deps_passed t n")
    case True
    then have "n \<in> set (ready_nodes t)" using val k(2) by (simp add: ready_nodes_def)
    then have "sort_key ready_order (ready_nodes t) \<noteq> []" by (metis empty_iff list.set(1) set_sort)
    then show ?thesis using g by blast
  next
    case False
    then have "scan_deps t (tn_dependent_tasks n) = Deps_Cancelled"
      using scan_settled [OF settled] by (simp add: deps_passed_def)
    then have "has_status t' T_CANCELLED k" using c k by blast
    moreover have "has_status t T_PENDING k" using k by (simp add: has_status_iff pending_leaf_def)
    ultimately show ?thesis using g by blast
  qed
qed

theorem scheduler_progress_witness:
  "\<exists>ready t'. get_ready_tasks sample_plan = (Inr ready, t') \<and>
    (ready \<noteq> [] \<or> (\<exists>k. has_status sample_plan T_PENDING k \<and> has_status t' T_CANCELLED k))"
proof -
  have "deps_are_leaves sample_plan" "settled_leaves sample_plan" "get_pending_leaves sample_plan \<noteq> []"
    by (simp_all add: deps_are_leaves_def settled_leaves_def get_pending_leaves_def sample_plan_def plan_of_def task_def
        dict_values_def is_leaf_def get_node_def dict_get_def)
  then show ?thesis using scheduler_progress [of sample_plan] sample_plan_ok by simp
qed

end
