(* ===== verification/Sub_Tasks_Correct.thy ===== *)
theory Sub_Tasks_Correct
  imports Scheduler_Correct
begin

text \<open>
  Proposed sub-tasks: the colour search of \<open>validate_dependencies\<close> decides whether the indices
  form an acyclic relation, and the selection within the node budget is closed under it.
\<close>

section \<open>The colour search on indices\<close>

definition index_edges :: "int list list \<Rightarrow> (nat \<times> nat) set" where
  "index_edges adj = {(i, j). i < length adj \<and> j \<in> nat ` set (adj ! i)}"

definition in_range :: "int list list \<Rightarrow> bool" where
  "in_range adj = (\<forall>i < length adj. \<forall>d \<in> set (adj ! i). 0 \<le> d \<and> d < int (length adj))"

definition colored :: "nat \<Rightarrow> nat list \<Rightarrow> nat set" where
  "colored v c = {i. i < length c \<and> c ! i = v}"

lemma colored_update [simp]:
  "i < length c \<Longrightarrow> colored v (c[i := w]) = (if v = w then insert i (colored v c) else colored v c - {i})"
  by (auto simp: colored_def nth_list_update split: if_splits)

lemma finite_colored [simp]: "finite (colored v c)"
  by (simp add: colored_def)

definition colors_ok :: "int list list \<Rightarrow> nat list \<Rightarrow> bool" where
  "colors_ok adj c =
     (length c = length adj \<and> set c \<subseteq> {0, 1, 2} \<and> index_edges adj `` colored 2 c \<subseteq> colored 2 c \<and>
      acyclic (index_edges adj \<inter> colored 2 c \<times> colored 2 c))"

definition visited_ok :: "int list list \<Rightarrow> nat list \<Rightarrow> nat set \<Rightarrow> (bool \<times> nat list) option \<Rightarrow> bool" where
  "visited_ok adj c targets r =
     (case r of
        None \<Rightarrow> False
      | Some (True, _) \<Rightarrow> \<not> acyclic (index_edges adj)
      | Some (False, c') \<Rightarrow> colors_ok adj c' \<and> colored 1 c' = colored 1 c \<and> colored 2 c \<subseteq> colored 2 c' \<and>
          targets \<subseteq> colored 2 c')"

lemma color_012:
  assumes "colors_ok adj c" and "i < length adj"
  shows "c ! i = 0 \<or> c ! i = 1 \<or> c ! i = 2"
proof -
  have "c ! i \<in> set c" using assms by (simp add: colors_ok_def)
  then have "c ! i \<in> {0, 1, 2}" using assms(1) unfolding colors_ok_def by blast
  then show ?thesis by simp
qed

lemma white_set:
  assumes "colors_ok adj c"
  shows "colored 0 c = {..<length adj} - colored 1 c - colored 2 c"
proof -
  have "length c = length adj" using assms by (simp add: colors_ok_def)
  then have "i \<in> colored 0 c \<longleftrightarrow> i < length adj \<and> c ! i \<noteq> 1 \<and> c ! i \<noteq> 2" for i
    using color_012 [OF assms, of i] by (auto simp: colored_def)
  then show ?thesis using \<open>length c = length adj\<close> by (auto simp: colored_def)
qed

lemma white_shrinks:
  assumes "colors_ok adj c" and "colors_ok adj c'" and "colored 1 c' = colored 1 c" and "colored 2 c \<subseteq> colored 2 c'"
  shows "card (colored 0 c') \<le> card (colored 0 c)"
proof (rule card_mono)
  show "colored 0 c' \<subseteq> colored 0 c"
    unfolding white_set [OF assms(1)] white_set [OF assms(2)] using assms(3,4) by blast
qed simp

lemma trancl_stays:
  assumes "(x, y) \<in> (E \<inter> insert i B \<times> insert i B)\<^sup>+" and "x \<in> B" and "E `` B \<subseteq> B"
  shows "(x, y) \<in> (E \<inter> B \<times> B)\<^sup>+ \<and> y \<in> B"
  using assms(1)
proof induction
  case (base y)
  then show ?case using assms by auto
next
  case (step y z)
  then show ?case using assms(3) by (auto intro: trancl_into_trancl)
qed

lemma acyclic_grow:
  assumes "acyclic (E \<inter> B \<times> B)" and "E `` B \<subseteq> B" and "E `` {i} \<subseteq> B" and "i \<notin> B"
  shows "acyclic (E \<inter> insert i B \<times> insert i B)"
proof (rule acyclicI, intro allI notI)
  fix x assume c: "(x, x) \<in> (E \<inter> insert i B \<times> insert i B)\<^sup>+"
  show False
  proof (cases "x \<in> B")
    case True
    then show ?thesis using trancl_stays [OF c True assms(2)] assms(1) by (simp add: acyclic_def)
  next
    case False
    then have "x = i" using c by (auto dest: tranclD)
    moreover obtain z where z: "(x, z) \<in> E \<inter> insert i B \<times> insert i B" "(z, x) \<in> (E \<inter> insert i B \<times> insert i B)\<^sup>*"
      using c by (auto dest: tranclD)
    ultimately have "z \<in> B" using assms(3) by auto
    then have "x \<in> B" using z(2) trancl_stays [OF _ \<open>z \<in> B\<close> assms(2)] by (metis rtranclD)
    then show ?thesis using False by simp
  qed
qed

lemma colors_ok_start:
  assumes "colors_ok adj c" and "i < length adj" and "c ! i = 0"
  shows "colors_ok adj (c[i := 1])"
proof -
  have "colored 2 (c[i := 1]) = colored 2 c" using assms by (auto simp: colors_ok_def colored_def nth_list_update)
  moreover have "set (c[i := 1]) \<subseteq> {0, 1, 2}" using assms(1) set_update_subset_insert [of c i 1] by (auto simp: colors_ok_def)
  ultimately show ?thesis using assms(1) by (simp add: colors_ok_def)
qed

lemma colors_ok_finish:
  assumes "colors_ok adj c" and "i < length adj" and "c ! i = 1" and "nat ` set (adj ! i) \<subseteq> colored 2 c"
  shows "colors_ok adj (c[i := 2])"
proof -
  have len: "length c = length adj" using assms(1) by (simp add: colors_ok_def)
  have b: "colored 2 (c[i := 2]) = insert i (colored 2 c)" using assms len by simp
  have n: "i \<notin> colored 2 c" using assms(3) by (simp add: colored_def)
  have e: "index_edges adj `` {i} \<subseteq> colored 2 c" using assms(2,4) by (auto simp: index_edges_def)
  have "acyclic (index_edges adj \<inter> insert i (colored 2 c) \<times> insert i (colored 2 c))"
    using acyclic_grow [OF _ _ e n] assms(1) by (simp add: colors_ok_def)
  moreover have "set (c[i := 2]) \<subseteq> {0, 1, 2}" using assms(1) set_update_subset_insert [of c i 2] by (auto simp: colors_ok_def)
  moreover have "index_edges adj `` insert i (colored 2 c) \<subseteq> insert i (colored 2 c)"
    using e assms(1) by (auto simp: colors_ok_def)
  ultimately show ?thesis using len by (simp add: colors_ok_def b)
qed

lemma edge_of: "u < length adj \<Longrightarrow> d \<in> set (adj ! u) \<Longrightarrow> (u, nat d) \<in> index_edges adj"
  by (auto simp: index_edges_def)

lemma visit_index_ok:
  "colors_ok adj c \<Longrightarrow> in_range adj \<Longrightarrow> i < length adj \<Longrightarrow> c ! i = 0 \<Longrightarrow> card (colored 0 c) < n \<Longrightarrow>
   \<forall>g \<in> colored 1 c. (g, i) \<in> (index_edges adj)\<^sup>* \<Longrightarrow> visited_ok adj c {i} (visit_index n adj i c)"
  "colors_ok adj c \<Longrightarrow> in_range adj \<Longrightarrow> u < length adj \<Longrightarrow> set ds \<subseteq> set (adj ! u) \<Longrightarrow> card (colored 0 c) < n \<Longrightarrow>
   \<forall>g \<in> colored 1 c. (g, u) \<in> (index_edges adj)\<^sup>* \<Longrightarrow> visited_ok adj c (nat ` set ds) (visit_indices n adj ds c)"
proof (induction n adj i c and n adj ds c arbitrary: and u rule: visit_index_visit_indices.induct)
  case (1 adj i c)
  then show ?case by simp
next
  case (2 n adj i c)
  have len: "length c = length adj" using "2.prems"(1) by (simp add: colors_ok_def)
  have c1: "colors_ok adj (c[i := 1])" using colors_ok_start "2.prems" by blast
  have iw: "i \<in> colored 0 c" using "2.prems"(3,4) len by (simp add: colored_def)
  have "card (colored 0 (c[i := 1])) < n"
    using "2.prems"(3,5) len iw by (simp add: card_Diff_singleton) (metis card_gt_0_iff empty_iff finite_colored Suc_pred less_Suc_eq_le not_less_eq)
  moreover have "\<forall>g \<in> colored 1 (c[i := 1]). (g, i) \<in> (index_edges adj)\<^sup>*" using "2.prems"(3,6) len by auto
  ultimately have r: "visited_ok adj (c[i := 1]) (nat ` set (adj ! i)) (visit_indices n adj (adj ! i) (c[i := 1]))"
    using "2.IH" c1 "2.prems"(2,3) by blast
  show ?case
  proof (cases "visit_indices n adj (adj ! i) (c[i := 1])")
    case None
    then show ?thesis using r by (simp add: visited_ok_def)
  next
    case (Some p)
    then obtain b c' where p: "visit_indices n adj (adj ! i) (c[i := 1]) = Some (b, c')" by (cases p) auto
    show ?thesis
    proof (cases b)
      case True
      then show ?thesis using r p by (simp add: visited_ok_def)
    next
      case False
      then have c': "colors_ok adj c'" "colored 1 c' = insert i (colored 1 c)" "colored 2 (c[i := 1]) \<subseteq> colored 2 c'"
          "nat ` set (adj ! i) \<subseteq> colored 2 c'"
        using r p "2.prems"(3) len by (auto simp: visited_ok_def)
      have l': "length c' = length adj" using c'(1) by (simp add: colors_ok_def)
      have ci: "c' ! i = 1" using c'(2) by (auto simp: colored_def)
      have "colors_ok adj (c'[i := 2])" by (rule colors_ok_finish [OF c'(1) "2.prems"(3) ci c'(4)])
      moreover have "i \<notin> colored 1 c" "i \<notin> colored 2 c" using "2.prems"(4) by (auto simp: colored_def)
      ultimately show ?thesis using p False c' l' "2.prems"(3) len by (auto simp: visited_ok_def)
    qed
  qed
next
  case (3 n adj c)
  then show ?case by (simp add: visited_ok_def)
next
  case (4 n adj d ds c)
  have len: "length c = length adj" using "4.prems"(1) by (simp add: colors_ok_def)
  have e: "(u, nat d) \<in> index_edges adj" using "4.prems"(3,4) by (auto intro: edge_of)
  have dl: "nat d < length adj" using "4.prems"(2,3,4) by (force simp: in_range_def)
  consider "c ! nat d = 1" | "c ! nat d = 0" | "c ! nat d = 2"
    using color_012 [OF "4.prems"(1) dl] by (elim disjE) simp_all
  then show ?case
  proof cases
    case 1
    then have "(nat d, u) \<in> (index_edges adj)\<^sup>*" using "4.prems"(6) dl len by (simp add: colored_def)
    then have "(u, u) \<in> (index_edges adj)\<^sup>+" using e by (rule rtrancl_into_trancl2 [rotated])
    then show ?thesis using 1 by (auto simp: visited_ok_def acyclic_def)
  next
    case 2
    have "\<forall>g \<in> colored 1 c. (g, nat d) \<in> (index_edges adj)\<^sup>*" using "4.prems"(6) e by (blast intro: rtrancl_into_rtrancl)
    then have r: "visited_ok adj c {nat d} (visit_index n adj (nat d) c)"
      using "4.IH"(1) 2 "4.prems"(1,2,5) dl by simp
    then obtain b c' where p: "visit_index n adj (nat d) c = Some (b, c')" by (force simp: visited_ok_def split: option.splits)
    show ?thesis
    proof (cases b)
      case True
      then show ?thesis using r p 2 by (simp add: visited_ok_def)
    next
      case False
      then have c': "colors_ok adj c'" "colored 1 c' = colored 1 c" "colored 2 c \<subseteq> colored 2 c'" "nat d \<in> colored 2 c'"
        using r p by (auto simp: visited_ok_def)
      have "card (colored 0 c') < n" using white_shrinks [OF "4.prems"(1) c'(1-3)] "4.prems"(5) by simp
      then have "visited_ok adj c' (nat ` set ds) (visit_indices n adj ds c')"
        using "4.IH"(2) [of "(b, c')" b c' u] 2 p False c' "4.prems" by simp
      then show ?thesis using 2 p False c' by (auto simp: visited_ok_def split: option.splits bool.splits)
    qed
  next
    case 3
    then have "visited_ok adj c (nat ` set ds) (visit_indices n adj ds c)" using "4.IH"(3) "4.prems" by simp
    then show ?thesis using 3 dl len by (auto simp: visited_ok_def colored_def split: option.splits bool.splits)
  qed
qed

lemma any_cycle_ok:
  "colors_ok adj c \<Longrightarrow> in_range adj \<Longrightarrow> set is \<subseteq> {..<length adj} \<Longrightarrow> length adj < n \<Longrightarrow> colored 1 c = {} \<Longrightarrow>
   any_cycle n adj is c = Some True \<and> \<not> acyclic (index_edges adj) \<or>
   any_cycle n adj is c = Some False \<and>
     (\<exists>c'. colors_ok adj c' \<and> colored 2 c \<union> set is \<subseteq> colored 2 c')"
proof (induction n adj "is" c rule: any_cycle.induct)
  case (1 n adj c)
  then show ?case by auto
next
  case (2 n adj i "is" c)
  have il: "i < length adj" and isl: "set is \<subseteq> {..<length adj}" using "2.prems"(3) by auto
  have card: "card (colored 0 d) < n" if "length d = length adj" for d
  proof -
    have "card (colored 0 d) \<le> card {..<length adj}" using that by (intro card_mono) (auto simp: colored_def)
    then show ?thesis using "2.prems"(4) by simp
  qed
  have len: "length c = length adj" using "2.prems"(1) by (simp add: colors_ok_def)
  show ?case
  proof (cases "c ! i = 0")
    case True
    have r: "visited_ok adj c {i} (visit_index n adj i c)"
      by (rule visit_index_ok(1) [OF "2.prems"(1,2) il True card [OF len]]) (use "2.prems"(5) in blast)
    then obtain b c' where p: "visit_index n adj i c = Some (b, c')" by (force simp: visited_ok_def split: option.splits)
    show ?thesis
    proof (cases b)
      case True
      then show ?thesis using p r \<open>c ! i = 0\<close> by (simp add: visited_ok_def)
    next
      case False
      then have c': "colors_ok adj c'" "colored 1 c' = {}" "colored 2 c \<subseteq> colored 2 c'" "i \<in> colored 2 c'"
        using r p "2.prems"(5) by (auto simp: visited_ok_def)
      have "any_cycle n adj is c' = Some True \<and> \<not> acyclic (index_edges adj) \<or>
          any_cycle n adj is c' = Some False \<and> (\<exists>d. colors_ok adj d \<and> colored 2 c' \<union> set is \<subseteq> colored 2 d)"
        using "2.IH"(1) [OF True p] False c'(1,2) "2.prems"(2,4) isl by simp
      moreover have "any_cycle n adj (i # is) c = any_cycle n adj is c'" using p False True by simp
      moreover have "colored 2 c \<union> set (i # is) \<subseteq> colored 2 d" if "colored 2 c' \<union> set is \<subseteq> colored 2 d" for d
        using that c'(3,4) by auto
      ultimately show ?thesis by metis
    qed
  next
    case False
    have "c ! i \<noteq> 1" using "2.prems"(5) il len by (auto simp: colored_def)
    then have two: "i \<in> colored 2 c" using color_012 [OF "2.prems"(1) il] False il len by (simp add: colored_def)
    have "any_cycle n adj is c = Some True \<and> \<not> acyclic (index_edges adj) \<or>
          any_cycle n adj is c = Some False \<and> (\<exists>d. colors_ok adj d \<and> colored 2 c \<union> set is \<subseteq> colored 2 d)"
      using "2.IH"(2) [OF False] "2.prems" isl by simp
    then show ?thesis using False two by auto
  qed
qed

lemma any_cycle_decides:
  assumes "in_range adj"
  shows "any_cycle (Suc (length adj)) adj [0..<length adj] (replicate (length adj) 0) =
    Some (\<not> acyclic (index_edges adj))"
proof -
  let ?c = "replicate (length adj) (0::nat)"
  have z: "colored 2 ?c = {}" "colored 1 ?c = {}" by (auto simp: colored_def)
  have "colors_ok adj ?c" by (auto simp: colors_ok_def z acyclic_def)
  from any_cycle_ok [OF this assms, of "[0..<length adj]" "Suc (length adj)"] z(2)
  consider "any_cycle (Suc (length adj)) adj [0..<length adj] ?c = Some True" "\<not> acyclic (index_edges adj)"
    | c' where "any_cycle (Suc (length adj)) adj [0..<length adj] ?c = Some False" "colors_ok adj c'"
      "{..<length adj} \<subseteq> colored 2 c'"
    by (auto simp: atLeast0LessThan)
  then show ?thesis
  proof cases
    case 1
    then show ?thesis by simp
  next
    case 2
    have "index_edges adj \<subseteq> {..<length adj} \<times> {..<length adj}"
      using assms by (force simp: index_edges_def in_range_def)
    then have "index_edges adj \<inter> colored 2 c' \<times> colored 2 c' = index_edges adj" using 2(3) by blast
    then show ?thesis using 2(1,2) by (simp add: colors_ok_def)
  qed
qed

section \<open>Validation of the proposed list\<close>

definition index_rel :: "sub_task list \<Rightarrow> (nat \<times> nat) set" where
  "index_rel tasks = {(i, j). i < length tasks \<and> j \<in> set (index_deps tasks i)}"

definition sub_tasks_ok :: "sub_task list \<Rightarrow> bool" where
  "sub_tasks_ok tasks =
     (length tasks \<le> 5 \<and>
      (\<forall>i < length tasks. distinct (st_depends_on_index (tasks ! i)) \<and>
         (\<forall>d \<in> set (st_depends_on_index (tasks ! i)). 0 \<le> d \<and> d < int (length tasks) \<and> d \<noteq> int i)) \<and>
      acyclic (index_rel tasks))"

lemma index_edges_rel: "index_edges (map st_depends_on_index tasks) = index_rel tasks"
  by (auto simp: index_edges_def index_rel_def index_deps_def)

lemma index_errors_Nil:
  "index_errors count i ds = [] \<longleftrightarrow> distinct ds \<and> (\<forall>d \<in> set ds. 0 \<le> d \<and> d < int count \<and> d \<noteq> int i)"
proof -
  have c: "concat (map f ds) = [] \<longleftrightarrow> (\<forall>d \<in> set ds. f d = [])" for f :: "int \<Rightarrow> sub_task_error list"
    by (induction ds) auto
  show ?thesis unfolding index_errors_def append_is_Nil_conv c by (auto split: if_splits)
qed

lemma validate_dependencies_iff: "validate_dependencies tasks = Inr tasks \<longleftrightarrow> sub_tasks_ok tasks"
proof -
  let ?adj = "map st_depends_on_index tasks"
  let ?errs = "concat (map (\<lambda>i. index_errors (length tasks) i (st_depends_on_index (tasks ! i))) [0..<length tasks])"
  have e: "?errs = [] \<longleftrightarrow> (\<forall>i < length tasks. distinct (st_depends_on_index (tasks ! i)) \<and>
      (\<forall>d \<in> set (st_depends_on_index (tasks ! i)). 0 \<le> d \<and> d < int (length tasks) \<and> d \<noteq> int i))"
    by (auto simp: index_errors_Nil)
  have r: "in_range ?adj" if "?errs = []" using that unfolding e by (simp add: in_range_def)
  show ?thesis
  proof (cases "?errs = []")
    case True
    have "any_cycle (Suc (length tasks)) ?adj [0..<length tasks] (replicate (length tasks) 0) =
        Some (\<not> acyclic (index_rel tasks))"
      using any_cycle_decides [OF r [OF True]] by (simp add: index_edges_rel)
    then show ?thesis using e unfolding validate_dependencies_def True sub_tasks_ok_def by (simp add: True split: bool.splits)
  next
    case False
    then show ?thesis using e by (auto simp: validate_dependencies_def sub_tasks_ok_def split: list.splits)
  qed
qed

lemma validate_dependencies_same: "validate_dependencies tasks = Inr ts \<Longrightarrow> ts = tasks"
  by (auto simp: validate_dependencies_def split: list.splits option.splits bool.splits if_splits)

lemma accepted_cases: "accepted answer = [] \<or> (accepted answer = answer \<and> sub_tasks_ok answer)"
proof (cases "validate_dependencies answer")
  case (Inr ts)
  then show ?thesis using validate_dependencies_same [OF Inr] validate_dependencies_iff [of answer]
    by (simp add: accepted_def)
qed (simp add: accepted_def)

lemma accepted_ok: "sub_tasks_ok (accepted answer)"
proof -
  have "sub_tasks_ok []" by (simp add: sub_tasks_ok_def index_rel_def acyclic_def)
  then show ?thesis using accepted_cases [of answer] by auto
qed

text \<open>
  A proposed list of sub-tasks is accepted exactly when it has at most five entries, every
  entry's dependencies are distinct, in range and not the entry itself, and the dependencies have
  no cycle; the search always ends within the bound it is given.
\<close>

theorem validate_dependencies_exact:
  "(validate_dependencies tasks = Inr tasks \<longleftrightarrow> sub_tasks_ok tasks) \<and>
   (ok (validate_dependencies tasks) \<longleftrightarrow> sub_tasks_ok tasks)"
proof (intro conjI validate_dependencies_iff)
  show "ok (validate_dependencies tasks) \<longleftrightarrow> sub_tasks_ok tasks"
    unfolding validate_dependencies_iff [symmetric] ok_iff using validate_dependencies_same by blast
qed

section \<open>The selection within the node budget\<close>

definition deps_in_range :: "sub_task list \<Rightarrow> bool" where
  "deps_in_range tasks = (\<forall>i < length tasks. set (index_deps tasks i) \<subseteq> {..<length tasks})"

lemma sub_tasks_ok_range: "sub_tasks_ok tasks \<Longrightarrow> deps_in_range tasks"
  by (force simp: sub_tasks_ok_def deps_in_range_def index_deps_def)

definition closed_indices :: "sub_task list \<Rightarrow> nat list \<Rightarrow> bool" where
  "closed_indices tasks is =
     (distinct is \<and> set is \<subseteq> {..<length tasks} \<and> (\<forall>i \<in> set is. set (index_deps tasks i) \<subseteq> set is))"

lemma index_closure_step:
  "pending \<noteq> [] \<Longrightarrow> index_closure tasks seen pending =
     (if last pending \<in> set seen \<or> last pending \<ge> length tasks then index_closure tasks seen (butlast pending)
      else index_closure tasks (last pending # seen) (butlast pending @ index_deps tasks (last pending)))"
  by (subst index_closure.simps) (simp add: Let_def)

lemma index_closure_closed:
  "deps_in_range tasks \<Longrightarrow> distinct seen \<Longrightarrow> set seen \<union> set pending \<subseteq> {..<length tasks} \<Longrightarrow>
   \<forall>i \<in> set seen. set (index_deps tasks i) \<subseteq> set seen \<union> set pending \<Longrightarrow>
   closed_indices tasks (index_closure tasks seen pending) \<and>
   set seen \<union> set pending \<subseteq> set (index_closure tasks seen pending)"
proof (induction tasks seen pending rule: index_closure.induct)
  case (1 tasks seen pending)
  show ?case
  proof (cases "pending = []")
    case True
    then show ?thesis using "1.prems" by (simp add: index_closure.simps closed_indices_def)
  next
    case False
    let ?i = "last pending" and ?r = "butlast pending"
    note s = set_butlast_last [OF False]
    have il: "?i < length tasks" using "1.prems"(3) s by auto
    show ?thesis
    proof (cases "?i \<in> set seen")
      case True
      have "set seen \<union> set ?r \<subseteq> {..<length tasks}" using "1.prems"(3) s by auto
      moreover have "\<forall>i \<in> set seen. set (index_deps tasks i) \<subseteq> set seen \<union> set ?r" using "1.prems"(4) True s by auto
      ultimately have "closed_indices tasks (index_closure tasks seen ?r) \<and> set seen \<union> set ?r \<subseteq> set (index_closure tasks seen ?r)"
        using "1.IH"(1) [OF False refl refl] True "1.prems"(1,2) by blast
      moreover have "index_closure tasks seen pending = index_closure tasks seen ?r"
        using True False by (simp add: index_closure_step)
      ultimately show ?thesis using True s by auto
    next
      case new: False
      have n: "\<not> (?i \<in> set seen \<or> length tasks \<le> ?i)" using new il by simp
      have d: "set (index_deps tasks ?i) \<subseteq> {..<length tasks}" using "1.prems"(1) il by (simp add: deps_in_range_def)
      have "set (?i # seen) \<union> set (?r @ index_deps tasks ?i) \<subseteq> {..<length tasks}" using "1.prems"(3) s d il by auto
      moreover have "\<forall>i \<in> set (?i # seen). set (index_deps tasks i) \<subseteq> set (?i # seen) \<union> set (?r @ index_deps tasks ?i)"
        using "1.prems"(4) s by auto
      moreover have "distinct (?i # seen)" using new "1.prems"(2) by simp
      ultimately have "closed_indices tasks (index_closure tasks (?i # seen) (?r @ index_deps tasks ?i)) \<and>
          set (?i # seen) \<union> set (?r @ index_deps tasks ?i) \<subseteq> set (index_closure tasks (?i # seen) (?r @ index_deps tasks ?i))"
        using "1.IH"(2) [OF False refl refl n "1.prems"(1)] by blast
      moreover have "index_closure tasks seen pending = index_closure tasks (?i # seen) (?r @ index_deps tasks ?i)"
        using n False by (simp add: index_closure_step)
      ultimately show ?thesis using s by auto
    qed
  qed
qed

lemma closed_indices_union:
  "closed_indices tasks xs \<Longrightarrow> closed_indices tasks ys \<Longrightarrow> closed_indices tasks (remdups (xs @ ys))"
  unfolding closed_indices_def by fastforce

lemma select_fold:
  assumes "deps_in_range tasks" and "set is \<subseteq> {..<length tasks}" and "closed_indices tasks sel"
    and "int (length sel) \<le> max 0 remaining"
  shows "closed_indices tasks (fold (\<lambda>i selected.
         let merged = remdups (selected @ index_closure tasks [] [i]) in
         if int (length merged) \<le> max 0 remaining then merged else selected) is sel) \<and>
    int (length (fold (\<lambda>i selected.
         let merged = remdups (selected @ index_closure tasks [] [i]) in
         if int (length merged) \<le> max 0 remaining then merged else selected) is sel)) \<le> max 0 remaining"
  using assms(2-)
proof (induction "is" arbitrary: sel)
  case (Cons i "is")
  have "closed_indices tasks (index_closure tasks [] [i])"
    using index_closure_closed [OF assms(1), of "[]" "[i]"] Cons.prems(1) by simp
  from closed_indices_union [OF Cons.prems(2) this] show ?case
    using Cons by (simp add: Let_def)
qed simp

lemma select_closed:
  assumes "sub_tasks_ok tasks"
  shows "closed_indices tasks (select_task_indices_within_budget tasks remaining)"
    and "int (length (select_task_indices_within_budget tasks remaining)) \<le> max 0 remaining"
  using select_fold [OF sub_tasks_ok_range [OF assms], of "[0..<length tasks]" "[]" remaining]
  by (auto simp: select_task_indices_within_budget_def closed_indices_def atLeast0LessThan)

lemma selected_order_props:
  assumes "closed_indices tasks sel"
  shows "set (selected_order tasks sel) = set sel" "distinct (selected_order tasks sel)"
    "length (selected_order tasks sel) = length sel"
proof -
  show s: "set (selected_order tasks sel) = set sel" using assms by (auto simp: selected_order_def closed_indices_def)
  show d: "distinct (selected_order tasks sel)" by (simp add: selected_order_def)
  show "length (selected_order tasks sel) = length sel"
    using s d assms by (metis closed_indices_def distinct_card)
qed

end
