(* ===== verification/Plan_Growth.thy ===== *)
theory Plan_Growth
  imports Sub_Tasks_Correct
begin

text \<open>
  A plan grows only by sub-tasks: inserting an accepted selection below a node keeps the plan
  valid, so the decomposition always ends in a valid plan within its depth and node limits.
\<close>

section \<open>The shape of a plan\<close>

text \<open>Validity depends on the links of the nodes only.\<close>

definition links :: "task_node \<Rightarrow> string \<times> string option \<times> string list \<times> string list" where
  "links n = (tn_id n, tn_parent_id n, tn_children_ids n, tn_dependent_tasks n)"

definition same_shape :: "task_tree \<Rightarrow> task_tree \<Rightarrow> bool" where
  "same_shape t t' =
     (tt_goal_id t' = tt_goal_id t \<and> (\<forall>k. map_option links (get_node t' k) = map_option links (get_node t k)))"

lemma same_shape_refl [simp]: "same_shape t t"
  by (simp add: same_shape_def)

lemma same_shape_sym: "same_shape t t' \<Longrightarrow> same_shape t' t"
  by (simp add: same_shape_def)

lemma same_shape_trans: "same_shape t t1 \<Longrightarrow> same_shape t1 t2 \<Longrightarrow> same_shape t t2"
  by (simp add: same_shape_def)

lemma same_shape_put:
  "get_node t k = Some n \<Longrightarrow> links m = links n \<Longrightarrow> same_shape t (put_node k m t)"
  by (simp add: same_shape_def)

lemma same_shape_get:
  assumes "same_shape t t'" and "get_node t k = Some n"
  obtains n' where "get_node t' k = Some n'" "tn_id n' = tn_id n" "tn_parent_id n' = tn_parent_id n"
    "tn_children_ids n' = tn_children_ids n" "tn_dependent_tasks n' = tn_dependent_tasks n"
proof -
  have "map_option links (get_node t' k) = Some (links n)" using assms by (simp add: same_shape_def)
  then show ?thesis using that by (auto simp: links_def)
qed

lemma same_shape_sub:
  assumes "same_shape t t'"
  shows "child_rel t \<subseteq> child_rel t'" "dep_rel t \<subseteq> dep_rel t'"
proof -
  have "(k, c) \<in> child_rel t'" if "(k, c) \<in> child_rel t" for k c
  proof -
    obtain n where n: "get_node t k = Some n" "c \<in> set (tn_children_ids n)" using \<open>(k, c) \<in> child_rel t\<close> by (auto simp: child_rel_def)
    obtain n' where "get_node t' k = Some n'" "tn_children_ids n' = tn_children_ids n"
      by (rule same_shape_get [OF assms n(1)])
    then show ?thesis using n(2) by (simp add: child_rel_def)
  qed
  then show "child_rel t \<subseteq> child_rel t'" by auto
  have "(k, c) \<in> dep_rel t'" if "(k, c) \<in> dep_rel t" for k c
  proof -
    obtain n where n: "get_node t k = Some n" "c \<in> set (tn_dependent_tasks n)" using \<open>(k, c) \<in> dep_rel t\<close> by (auto simp: dep_rel_def)
    obtain n' where "get_node t' k = Some n'" "tn_dependent_tasks n' = tn_dependent_tasks n"
      by (rule same_shape_get [OF assms n(1)])
    then show ?thesis using n(2) by (simp add: dep_rel_def)
  qed
  then show "dep_rel t \<subseteq> dep_rel t'" by auto
qed

lemma same_shape_rels:
  assumes "same_shape t t'"
  shows "child_rel t' = child_rel t" "dep_rel t' = dep_rel t"
    "set (dict_keys (tt_nodes t')) = set (dict_keys (tt_nodes t))"
proof -
  show "child_rel t' = child_rel t" "dep_rel t' = dep_rel t"
    using same_shape_sub [OF assms] same_shape_sub [OF same_shape_sym [OF assms]] by blast+
  have "get_node t' k = None \<longleftrightarrow> get_node t k = None" for k
    using assms by (metis same_shape_def option.map_disc_iff)
  then show "set (dict_keys (tt_nodes t')) = set (dict_keys (tt_nodes t))"
    by (auto simp: get_node_def dict_get_None_iff)
qed

lemma node_ok_parent:
  "node_ok t k n \<Longrightarrow> k \<noteq> tt_goal_id t \<Longrightarrow>
   \<exists>p pn. tn_parent_id n = Some p \<and> get_node t p = Some pn \<and> k \<in> set (tn_children_ids pn)"
  unfolding node_ok_def by metis

lemma node_ok_child:
  "node_ok t k n \<Longrightarrow> c \<in> set (tn_children_ids n) \<Longrightarrow>
   c \<noteq> k \<and> (\<exists>cn. get_node t c = Some cn \<and> tn_parent_id cn = Some k)"
  unfolding node_ok_def by metis

lemma node_ok_dep: "node_ok t k n \<Longrightarrow> d \<in> set (tn_dependent_tasks n) \<Longrightarrow> d \<noteq> k \<and> get_node t d \<noteq> None"
  unfolding node_ok_def by metis

lemma node_ok_local:
  "node_ok t k n \<Longrightarrow> tn_id n = k \<and> distinct (tn_children_ids n) \<and> distinct (tn_dependent_tasks n)"
  unfolding node_ok_def by metis

lemma same_shape_node_ok:
  assumes "same_shape t t'" and "node_ok t k n" and "links n' = links n"
  shows "node_ok t' k n'"
proof -
  have goal: "tt_goal_id t' = tt_goal_id t" using assms(1) by (simp add: same_shape_def)
  have l: "tn_id n' = tn_id n" "tn_parent_id n' = tn_parent_id n" "tn_children_ids n' = tn_children_ids n"
    "tn_dependent_tasks n' = tn_dependent_tasks n" using assms(3) by (simp_all add: links_def)
  have p: "\<exists>pn'. get_node t' p = Some pn' \<and> k \<in> set (tn_children_ids pn')"
    if "get_node t p = Some pn" "k \<in> set (tn_children_ids pn)" for p pn
    using same_shape_get [OF assms(1) that(1)] that(2) by metis
  have c: "\<exists>cn'. get_node t' c = Some cn' \<and> tn_parent_id cn' = Some k"
    if "get_node t c = Some cn" "tn_parent_id cn = Some k" for c cn
    using same_shape_get [OF assms(1) that(1)] that(2) by metis
  have d: "get_node t' d \<noteq> None" if "get_node t d \<noteq> None" for d
    using that same_shape_get [OF assms(1)] by blast
  note ok = assms(2) [unfolded node_ok_def]
  have "k \<noteq> tt_goal_id t \<longrightarrow> (\<exists>p pn. tn_parent_id n = Some p \<and> get_node t' p = Some pn \<and> k \<in> set (tn_children_ids pn))"
    using ok p by metis
  moreover have "\<forall>x \<in> set (tn_children_ids n). x \<noteq> k \<and> (\<exists>cn. get_node t' x = Some cn \<and> tn_parent_id cn = Some k)"
    using ok c by metis
  moreover have "\<forall>x \<in> set (tn_dependent_tasks n). x \<noteq> k \<and> get_node t' x \<noteq> None"
    using ok d by metis
  ultimately show ?thesis using ok unfolding node_ok_def goal l by simp
qed

lemma same_shape_plan_ok:
  assumes "same_shape t t'" and "plan_ok t"
  shows "plan_ok t'"
proof -
  note r = same_shape_rels [OF assms(1)]
  have goal: "tt_goal_id t' = tt_goal_id t" using assms(1) by (simp add: same_shape_def)
  have "\<exists>r. get_node t' (tt_goal_id t') = Some r \<and> tn_parent_id r = None"
    using assms same_shape_get [OF assms(1)] unfolding plan_ok_def goal by metis
  moreover have "node_ok t' k n'" if "get_node t' k = Some n'" for k n'
  proof -
    have "map_option links (get_node t k) = Some (links n')" using assms(1) that by (metis same_shape_def option.simps(9))
    then obtain n where n: "get_node t k = Some n" "links n' = links n" by auto
    then show ?thesis using same_shape_node_ok [OF assms(1) _ n(2)] assms(2) by (simp add: plan_ok_def)
  qed
  ultimately show ?thesis using assms(2) unfolding plan_ok_def r goal by blast
qed

lemma cascades_shape:
  assumes "cascades t t'"
  shows "same_shape t t'"
proof -
  have "map_option links (get_node t' k) = map_option links (get_node t k)" for k
    by (rule cascades_cases [OF assms, of k]) (simp_all add: links_def)
  then show ?thesis using assms by (simp add: same_shape_def cascades_def)
qed

section \<open>Acyclic unions\<close>

lemma acyclic_sinks:
  assumes "acyclic r" and "Range s \<inter> Domain (r \<union> s) = {}"
  shows "acyclic (r \<union> s)"
proof (rule acyclicI, intro allI notI)
  have "(x, y) \<in> r\<^sup>+" if "(x, y) \<in> (r \<union> s)\<^sup>+" "y \<in> Domain (r \<union> s)" for x y
    using that
  proof induction
    case (base y)
    then show ?case using assms(2) by auto
  next
    case (step y z)
    then have "y \<in> Domain (r \<union> s)" "(y, z) \<in> r" using assms(2) by auto
    then show ?case using step(3) by (auto intro: trancl_into_trancl)
  qed
  moreover fix x assume "(x, x) \<in> (r \<union> s)\<^sup>+"
  moreover have "x \<in> Domain (r \<union> s)" using \<open>(x, x) \<in> (r \<union> s)\<^sup>+\<close> by (meson DomainI tranclD)
  ultimately show False using assms(1) by (auto simp: acyclic_def)
qed

lemma acyclic_disjoint:
  assumes "acyclic r" and "acyclic s" and "r \<subseteq> A \<times> A" and "s \<subseteq> B \<times> B" and "A \<inter> B = {}"
  shows "acyclic (r \<union> s)"
proof (rule acyclicI, intro allI notI)
  have left: "(x, y) \<in> r\<^sup>+ \<and> y \<in> A" if "(x, y) \<in> (r \<union> s)\<^sup>+" "x \<in> A" for x y
    using that
  proof induction
    case (base y)
    then show ?case using assms(3-5) by auto
  next
    case (step y z)
    then show ?case using assms(3-5) by (auto intro: trancl_into_trancl)
  qed
  have right: "(x, y) \<in> s\<^sup>+ \<and> y \<in> B" if "(x, y) \<in> (r \<union> s)\<^sup>+" "x \<in> B" for x y
    using that
  proof induction
    case (base y)
    then show ?case using assms(3-5) by auto
  next
    case (step y z)
    then show ?case using assms(3-5) by (auto intro: trancl_into_trancl)
  qed
  fix x assume c: "(x, x) \<in> (r \<union> s)\<^sup>+"
  then have "x \<in> A \<or> x \<in> B" using assms(3,4) by (auto dest!: tranclD)
  then show False using left [OF c] right [OF c] assms(1,2) by (auto simp: acyclic_def)
qed

lemma acyclic_renamed:
  assumes "acyclic r" and "\<And>x y. (x, y) \<in> s \<Longrightarrow> (g x, g y) \<in> r"
  shows "acyclic s"
proof (rule acyclicI, intro allI notI)
  have "(g x, g y) \<in> r\<^sup>+" if "(x, y) \<in> s\<^sup>+" for x y
    using that by induction (auto dest: assms(2) intro: trancl_into_trancl)
  moreover fix x assume "(x, x) \<in> s\<^sup>+"
  ultimately show False using assms(1) by (auto simp: acyclic_def)
qed

section \<open>Inserting sub-tasks\<close>

abbreviation new_id :: "(nat \<Rightarrow> string \<times> rat) \<Rightarrow> nat \<Rightarrow> string" where
  "new_id fresh i \<equiv> fst (fresh i)"

text \<open>Ids of new nodes are distinct and not in the plan: what \<open>uuid4\<close> gives.\<close>

definition fresh_ids :: "(nat \<Rightarrow> string \<times> rat) \<Rightarrow> sub_task list \<Rightarrow> task_tree \<Rightarrow> bool" where
  "fresh_ids fresh tasks t =
     (inj_on (new_id fresh) {..<length tasks} \<and>
      new_id fresh ` {..<length tasks} \<inter> set (dict_keys (tt_nodes t)) = {})"

definition insertion ::
  "(nat \<Rightarrow> string \<times> rat) \<Rightarrow> sub_task list \<Rightarrow> nat list \<Rightarrow> string \<Rightarrow> task_node \<Rightarrow> task_tree \<Rightarrow> bool" where
  "insertion fresh tasks sel k n t =
     (plan_ok t \<and> get_node t k = Some n \<and> sub_tasks_ok tasks \<and> closed_indices tasks sel \<and> fresh_ids fresh tasks t)"

lemma get_add_node [simp]: "get_node (add_node n t) x = (if x = tn_id n then Some n else get_node t x)"
  by (simp add: get_node_def add_node_def)

lemma add_node_goal [simp]: "tt_goal_id (add_node n t) = tt_goal_id t"
  by (simp add: add_node_def)

lemma fold_add_goal [simp]: "tt_goal_id (fold (\<lambda>i. add_node (c i)) is t) = tt_goal_id t"
  by (induction "is" arbitrary: t) auto

lemma fold_add_other: "x \<notin> (\<lambda>i. tn_id (c i)) ` set is \<Longrightarrow> get_node (fold (\<lambda>i. add_node (c i)) is t) x = get_node t x"
  by (induction "is" arbitrary: t) auto

lemma fold_add_new:
  "inj_on (\<lambda>i. tn_id (c i)) (set is) \<Longrightarrow> i \<in> set is \<Longrightarrow> get_node (fold (\<lambda>i. add_node (c i)) is t) (tn_id (c i)) = Some (c i)"
proof (induction "is" arbitrary: t)
  case (Cons j "is")
  show ?case
  proof (cases "i \<in> set is")
    case True
    then show ?thesis using Cons by (simp add: inj_on_insert)
  next
    case False
    then have ij: "i = j" using Cons.prems(2) by simp
    then have "tn_id (c i) \<notin> (\<lambda>i. tn_id (c i)) ` set is" using Cons.prems(1) False by auto
    then show ?thesis using ij by (simp add: fold_add_other)
  qed
qed simp

lemma fold_add_nodes:
  "distinct (map (\<lambda>i. tn_id (c i)) is) \<Longrightarrow> (\<lambda>i. tn_id (c i)) ` set is \<inter> set (dict_keys (tt_nodes t)) = {} \<Longrightarrow>
   tt_nodes (fold (\<lambda>i. add_node (c i)) is t) = tt_nodes t @ map (\<lambda>i. (tn_id (c i), c i)) is"
proof (induction "is" arbitrary: t)
  case (Cons i "is")
  have "tn_id (c i) \<notin> set (dict_keys (tt_nodes t))" using Cons.prems(2) by auto
  then have e: "tt_nodes (add_node (c i) t) = tt_nodes t @ [(tn_id (c i), c i)]"
    by (simp add: add_node_def dict_set_fresh dict_get_None_iff)
  have "(\<lambda>i. tn_id (c i)) ` set is \<inter> set (dict_keys (tt_nodes (add_node (c i) t))) = {}"
    using Cons.prems unfolding e by (auto simp: dict_keys_def)
  then show ?case using Cons.IH [of "add_node (c i) t"] Cons.prems(1) e by simp
qed simp

lemma tn_id_child [simp]: "tn_id (child_node fresh p d tasks i) = new_id fresh i"
  by (simp add: child_node_def)

lemma known_key: "get_node t k = Some n \<Longrightarrow> k \<in> set (dict_keys (tt_nodes t))"
  by (metis dict_get_None_iff get_node_def option.discI)

lemma insert_get:
  assumes "insertion fresh tasks sel k n t"
  shows "i \<in> set sel \<Longrightarrow> get_node (insert_subtasks fresh tasks sel k t) (new_id fresh i) =
      Some (child_node fresh k (tn_depth n + 1) tasks i)"
    and "get_node (insert_subtasks fresh tasks sel k t) k =
      Some (n\<lparr>tn_children_ids := tn_children_ids n @ map (new_id fresh) (selected_order tasks sel)\<rparr>)"
    and "x \<notin> new_id fresh ` set sel \<Longrightarrow> x \<noteq> k \<Longrightarrow>
      get_node (insert_subtasks fresh tasks sel k t) x = get_node t x"
    and "tt_goal_id (insert_subtasks fresh tasks sel k t) = tt_goal_id t"
proof -
  have k: "get_node t k = Some n" and cl: "closed_indices tasks sel" and fr: "fresh_ids fresh tasks t"
    using assms by (simp_all add: insertion_def)
  note so = selected_order_props(1) [OF cl]
  have sub: "set sel \<subseteq> {..<length tasks}" using cl by (simp add: closed_indices_def)
  have inj: "inj_on (\<lambda>i. tn_id (child_node fresh k (tn_depth n + 1) tasks i)) (set (selected_order tasks sel))"
    using fr sub by (auto simp: fresh_ids_def so intro: inj_on_subset)
  have kn: "k \<notin> new_id fresh ` set sel"
    using fr sub known_key [OF k] by (auto simp: fresh_ids_def)
  note e = insert_subtasks_def [of fresh tasks sel k t, unfolded k option.case Let_def]
  show "get_node (insert_subtasks fresh tasks sel k t) (new_id fresh i) =
      Some (child_node fresh k (tn_depth n + 1) tasks i)" if "i \<in> set sel"
    using fold_add_new [OF inj, of i t] that kn unfolding e by (auto simp: so)
  show "get_node (insert_subtasks fresh tasks sel k t) k =
      Some (n\<lparr>tn_children_ids := tn_children_ids n @ map (new_id fresh) (selected_order tasks sel)\<rparr>)"
    unfolding e by simp
  show "get_node (insert_subtasks fresh tasks sel k t) x = get_node t x" if "x \<notin> new_id fresh ` set sel" "x \<noteq> k"
    using that unfolding e by (simp add: fold_add_other so)
  show "tt_goal_id (insert_subtasks fresh tasks sel k t) = tt_goal_id t" unfolding e by simp
qed

lemma insert_keys:
  assumes "insertion fresh tasks sel k n t"
  shows "dict_keys (tt_nodes (insert_subtasks fresh tasks sel k t)) =
    dict_keys (tt_nodes t) @ map (new_id fresh) (selected_order tasks sel)"
proof -
  have k: "get_node t k = Some n" and cl: "closed_indices tasks sel" and fr: "fresh_ids fresh tasks t"
    using assms by (simp_all add: insertion_def)
  note so = selected_order_props [OF cl]
  have sub: "set sel \<subseteq> {..<length tasks}" using cl by (simp add: closed_indices_def)
  have d: "distinct (map (\<lambda>i. tn_id (child_node fresh k (tn_depth n + 1) tasks i)) (selected_order tasks sel))"
    using fr sub so by (auto simp: fresh_ids_def distinct_map intro: inj_on_subset)
  have f: "(\<lambda>i. tn_id (child_node fresh k (tn_depth n + 1) tasks i)) ` set (selected_order tasks sel)
      \<inter> set (dict_keys (tt_nodes t)) = {}"
    using fr sub by (auto simp: fresh_ids_def so(1))
  let ?t = "fold (\<lambda>i. add_node (child_node fresh k (tn_depth n + 1) tasks i)) (selected_order tasks sel) t"
  have e: "dict_keys (tt_nodes ?t) = dict_keys (tt_nodes t) @ map (new_id fresh) (selected_order tasks sel)"
    using fold_add_nodes [OF d f] by (simp add: dict_keys_def comp_def)
  have "get_node ?t k \<noteq> None" using e known_key [OF k] by (simp add: get_node_def dict_get_None_iff)
  then show ?thesis using e k by (simp add: insert_subtasks_def Let_def put_node_keys)
qed

text \<open>A key of the plan afterwards is one it had or the id of a selected sub-task.\<close>

lemma insert_old:
  assumes "insertion fresh tasks sel k n t" and "get_node t x = Some m"
  shows "x \<notin> new_id fresh ` set sel"
  using assms known_key [OF assms(2)] by (fastforce simp: insertion_def closed_indices_def fresh_ids_def)

lemma insert_child_rel:
  assumes "insertion fresh tasks sel k n t"
  shows "child_rel (insert_subtasks fresh tasks sel k t) = child_rel t \<union> {k} \<times> new_id fresh ` set sel"
proof -
  note g = insert_get [OF assms]
  have k: "get_node t k = Some n" and cl: "closed_indices tasks sel" using assms by (simp_all add: insertion_def)
  have "(x, c) \<in> child_rel (insert_subtasks fresh tasks sel k t) \<longleftrightarrow>
      (x, c) \<in> child_rel t \<or> x = k \<and> c \<in> new_id fresh ` set sel" for x c
  proof -
    consider "x = k" | i where "i \<in> set sel" "x = new_id fresh i" | "x \<notin> new_id fresh ` set sel" "x \<noteq> k" by blast
    then show ?thesis
    proof cases
      case 1
      then show ?thesis using g(2) k selected_order_props(1) [OF cl] by (auto simp: child_rel_def)
    next
      case 2
      then have "get_node t x = None" "x \<noteq> k" using insert_old [OF assms] k by (cases "get_node t x"; blast)+
      then show ?thesis using g(1) [OF 2(1)] 2(2) by (auto simp: child_rel_def child_node_def)
    next
      case 3
      then show ?thesis using g(3) by (simp add: child_rel_def)
    qed
  qed
  then show ?thesis by auto
qed

lemma insert_dep_rel:
  assumes "insertion fresh tasks sel k n t"
  shows "dep_rel (insert_subtasks fresh tasks sel k t) =
    dep_rel t \<union> {(new_id fresh i, new_id fresh j) | i j. i \<in> set sel \<and> j \<in> set (index_deps tasks i)}"
proof -
  note g = insert_get [OF assms]
  have k: "get_node t k = Some n" and cl: "closed_indices tasks sel"
    and inj: "inj_on (new_id fresh) {..<length tasks}"
    using assms by (simp_all add: insertion_def fresh_ids_def)
  have sub: "set sel \<subseteq> {..<length tasks}" using cl by (simp add: closed_indices_def)
  have "(x, d) \<in> dep_rel (insert_subtasks fresh tasks sel k t) \<longleftrightarrow>
      (x, d) \<in> dep_rel t \<or> (\<exists>i \<in> set sel. x = new_id fresh i \<and> d \<in> new_id fresh ` set (index_deps tasks i))" for x d
  proof -
    consider "x = k" | i where "i \<in> set sel" "x = new_id fresh i" | "x \<notin> new_id fresh ` set sel" "x \<noteq> k" by blast
    then show ?thesis
    proof cases
      case 1
      then show ?thesis using g(2) k insert_old [OF assms k] by (auto simp: dep_rel_def)
    next
      case 2
      then have "get_node t x = None" using insert_old [OF assms] by (cases "get_node t x") blast+
      moreover have "j = i" if "j \<in> set sel" "new_id fresh i = new_id fresh j" for j
        using inj that 2(1) sub by (auto dest: inj_onD)
      ultimately show ?thesis using g(1) [OF 2(1)] 2 by (auto simp: dep_rel_def child_node_def)
    next
      case 3
      then show ?thesis using g(3) by (auto simp: dep_rel_def)
    qed
  qed
  then show ?thesis unfolding set_eq_iff split_paired_All by blast
qed

lemma insert_acyclic:
  assumes "insertion fresh tasks sel k n t"
  shows "acyclic (child_rel (insert_subtasks fresh tasks sel k t))"
    and "acyclic (dep_rel (insert_subtasks fresh tasks sel k t))"
proof -
  have k: "get_node t k = Some n" and cl: "closed_indices tasks sel" and ok: "plan_ok t" and st: "sub_tasks_ok tasks"
    and inj: "inj_on (new_id fresh) {..<length tasks}"
    using assms by (simp_all add: insertion_def fresh_ids_def)
  have sub: "set sel \<subseteq> {..<length tasks}" using cl by (simp add: closed_indices_def)
  let ?N = "new_id fresh ` set sel"
  have old: "x \<notin> ?N" if "get_node t x \<noteq> None" for x using insert_old [OF assms] that by blast
  have dom: "Domain (child_rel t) \<inter> ?N = {}" using old by (auto simp: child_rel_def)
  have "k \<notin> ?N" using old k by simp
  then have "Range ({k} \<times> ?N) \<inter> Domain (child_rel t \<union> {k} \<times> ?N) = {}" using dom by auto
  then show "acyclic (child_rel (insert_subtasks fresh tasks sel k t))"
    unfolding insert_child_rel [OF assms] using ok by (intro acyclic_sinks) (auto simp: plan_ok_def)
  let ?s = "{(new_id fresh i, new_id fresh j) | i j. i \<in> set sel \<and> j \<in> set (index_deps tasks i)}"
  have deps: "set (index_deps tasks i) \<subseteq> set sel" if "i \<in> set sel" for i using cl that by (simp add: closed_indices_def)
  have s: "acyclic ?s"
  proof (rule acyclic_renamed [of "index_rel tasks" _ "the_inv_into {..<length tasks} (new_id fresh)"])
    show "acyclic (index_rel tasks)" using st by (simp add: sub_tasks_ok_def)
    fix x y assume "(x, y) \<in> ?s"
    then obtain i j where ij: "x = new_id fresh i" "y = new_id fresh j" "i \<in> set sel" "j \<in> set (index_deps tasks i)" by blast
    then have "i < length tasks" "j < length tasks" using deps sub by auto
    moreover from this have "the_inv_into {..<length tasks} (new_id fresh) x = i"
        "the_inv_into {..<length tasks} (new_id fresh) y = j"
      unfolding ij(1,2) by (auto intro: the_inv_into_f_f [OF inj])
    ultimately show "(the_inv_into {..<length tasks} (new_id fresh) x, the_inv_into {..<length tasks} (new_id fresh) y) \<in> index_rel tasks"
      using ij(4) by (simp add: index_rel_def)
  qed
  have r: "dep_rel t \<subseteq> {x. get_node t x \<noteq> None} \<times> {x. get_node t x \<noteq> None}"
    using plan_ok_deps_known [OF ok] by (auto simp: dep_rel_def deps_known_def)
  have ss: "?s \<subseteq> ?N \<times> ?N" using deps by auto
  have dis: "{x. get_node t x \<noteq> None} \<inter> ?N = {}" using old by auto
  show "acyclic (dep_rel (insert_subtasks fresh tasks sel k t))"
    unfolding insert_dep_rel [OF assms] by (rule acyclic_disjoint [OF _ s r ss dis]) (use ok in \<open>simp add: plan_ok_def\<close>)
qed

lemma insert_known:
  assumes "insertion fresh tasks sel k n t" and "get_node t x \<noteq> None"
  shows "get_node (insert_subtasks fresh tasks sel k t) x \<noteq> None"
  using insert_get(2,3) [OF assms(1)] insert_old [OF assms(1)] assms(2) by (cases "x = k") auto

text \<open>A node of the plan keeps its links, but for the new children of the node that is split.\<close>

lemma insert_keeps:
  assumes "insertion fresh tasks sel k n t" and "get_node t x = Some m"
  obtains m' where "get_node (insert_subtasks fresh tasks sel k t) x = Some m'" "tn_id m' = tn_id m"
    "tn_parent_id m' = tn_parent_id m" "tn_dependent_tasks m' = tn_dependent_tasks m"
    "tn_children_ids m' = tn_children_ids m @ (if x = k then map (new_id fresh) (selected_order tasks sel) else [])"
proof (cases "x = k")
  case True
  then have "m = n" using assms by (simp add: insertion_def)
  then show ?thesis using that True insert_get(2) [OF assms(1)] by simp
next
  case False
  then show ?thesis using that insert_get(3) [OF assms(1) insert_old [OF assms] False] assms(2) by simp
qed

lemma insert_node_ok_old:
  assumes ins: "insertion fresh tasks sel k n t" and m: "get_node t x = Some m"
    and m': "get_node (insert_subtasks fresh tasks sel k t) x = Some m'"
  shows "node_ok (insert_subtasks fresh tasks sel k t) x m'"
proof -
  let ?t = "insert_subtasks fresh tasks sel k t"
  have k: "get_node t k = Some n" and cl: "closed_indices tasks sel" and ok: "plan_ok t"
    and inj: "inj_on (new_id fresh) {..<length tasks}" using ins by (simp_all add: insertion_def fresh_ids_def)
  note so = selected_order_props [OF cl]
  have nok: "node_ok t x m" using ok m by (simp add: plan_ok_def)
  let ?new = "if x = k then map (new_id fresh) (selected_order tasks sel) else []"
  have l: "tn_id m' = tn_id m" "tn_parent_id m' = tn_parent_id m" "tn_dependent_tasks m' = tn_dependent_tasks m"
    "tn_children_ids m' = tn_children_ids m @ ?new"
    by (rule insert_keeps [OF ins m]; use m' in simp)+
  have old_children: "c \<notin> new_id fresh ` set sel" if "c \<in> set (tn_children_ids m)" for c
    using node_ok_child [OF nok that] insert_old [OF ins] by blast
  have "distinct (map (new_id fresh) (selected_order tasks sel))"
    using inj cl so by (auto simp: distinct_map closed_indices_def intro: inj_on_subset)
  moreover have "set (tn_children_ids m) \<inter> new_id fresh ` set sel = {}" using old_children by blast
  moreover have "distinct (tn_children_ids m)" using node_ok_local [OF nok] by simp
  ultimately have "distinct (tn_children_ids m @ ?new)"
    unfolding distinct_append by (cases "x = k") (simp_all add: so(1) distinct_map)
  then have dist: "distinct (tn_children_ids m')" by (simp only: l(4))
  have parent: "\<exists>p pn. tn_parent_id m' = Some p \<and> get_node ?t p = Some pn \<and> x \<in> set (tn_children_ids pn)"
    if x: "x \<noteq> tt_goal_id t"
  proof -
    obtain p pn where p: "tn_parent_id m = Some p" "get_node t p = Some pn" "x \<in> set (tn_children_ids pn)"
      using node_ok_parent [OF nok x] by metis
    obtain pn' where "get_node ?t p = Some pn'"
        "tn_children_ids pn' = tn_children_ids pn @ (if p = k then map (new_id fresh) (selected_order tasks sel) else [])"
      by (rule insert_keeps [OF ins p(2)])
    then have "get_node ?t p = Some pn' \<and> x \<in> set (tn_children_ids pn')" using p(3) by simp
    then show ?thesis using p(1) l(2) by simp
  qed
  have child: "c \<noteq> x \<and> (\<exists>cn. get_node ?t c = Some cn \<and> tn_parent_id cn = Some x)" if cm: "c \<in> set (tn_children_ids m')" for c
  proof (cases "c \<in> set (tn_children_ids m)")
    case True
    then obtain cn where cn: "c \<noteq> x" "get_node t c = Some cn" "tn_parent_id cn = Some x"
      using node_ok_child [OF nok] by metis
    obtain cn' where "get_node ?t c = Some cn'" "tn_parent_id cn' = tn_parent_id cn"
      by (rule insert_keeps [OF ins cn(2)])
    then show ?thesis using cn by simp
  next
    case False
    have "c \<in> set ?new" using cm False unfolding l(4) set_append by blast
    then have "x = k \<and> c \<in> new_id fresh ` set sel" by (cases "x = k") (simp_all add: so(1))
    then obtain i where i: "i \<in> set sel" "c = new_id fresh i" "x = k" by blast
    then show ?thesis using insert_get(1) [OF ins i(1)] insert_old [OF ins k] by (auto simp: child_node_def)
  qed
  have dep: "d \<noteq> x \<and> get_node ?t d \<noteq> None" if "d \<in> set (tn_dependent_tasks m')" for d
    using node_ok_dep [OF nok] that insert_known [OF ins] unfolding l(3) by blast
  show ?thesis unfolding node_ok_def insert_get(4) [OF ins]
    using node_ok_local [OF nok] dist parent child dep l(1,3) by simp
qed

lemma insert_node_ok_new:
  assumes ins: "insertion fresh tasks sel k n t" and i: "i \<in> set sel"
  shows "node_ok (insert_subtasks fresh tasks sel k t) (new_id fresh i) (child_node fresh k (tn_depth n + 1) tasks i)"
proof -
  let ?t = "insert_subtasks fresh tasks sel k t"
  have k: "get_node t k = Some n" and cl: "closed_indices tasks sel" and st: "sub_tasks_ok tasks"
    and inj: "inj_on (new_id fresh) {..<length tasks}" using ins by (simp_all add: insertion_def fresh_ids_def)
  have sub: "set sel \<subseteq> {..<length tasks}" and deps: "set (index_deps tasks i) \<subseteq> set sel"
    using cl i by (simp_all add: closed_indices_def)
  have il: "i < length tasks" using sub i by auto
  have range: "distinct (st_depends_on_index (tasks ! i))" "\<forall>d \<in> set (st_depends_on_index (tasks ! i)). 0 \<le> d \<and> d \<noteq> int i"
    using st il by (simp_all add: sub_tasks_ok_def)
  then have dd: "distinct (index_deps tasks i)" unfolding index_deps_def
    by (auto simp: distinct_map inj_on_def eq_nat_nat_iff)
  have ni: "i \<notin> set (index_deps tasks i)" using range(2) by (auto simp: index_deps_def)
  have "distinct (map (new_id fresh) (index_deps tasks i))"
    using dd deps sub inj by (auto simp: distinct_map intro: inj_on_subset)
  moreover have "new_id fresh j \<noteq> new_id fresh i \<and> get_node ?t (new_id fresh j) \<noteq> None" if "j \<in> set (index_deps tasks i)" for j
  proof -
    have "j \<in> set sel" using deps that by auto
    moreover have "j \<noteq> i" using ni that by auto
    ultimately show ?thesis using insert_get(1) [OF ins] inj sub il by (auto dest: inj_onD)
  qed
  moreover have "get_node ?t k = Some (n\<lparr>tn_children_ids := tn_children_ids n @ map (new_id fresh) (selected_order tasks sel)\<rparr>)"
    by (rule insert_get(2) [OF ins])
  ultimately show ?thesis using i selected_order_props(1) [OF cl] by (auto simp: node_ok_def child_node_def)
qed

lemma insert_plan_ok:
  assumes ins: "insertion fresh tasks sel k n t"
  shows "plan_ok (insert_subtasks fresh tasks sel k t)"
proof -
  let ?t = "insert_subtasks fresh tasks sel k t"
  have k: "get_node t k = Some n" and cl: "closed_indices tasks sel" and ok: "plan_ok t"
    using ins by (simp_all add: insertion_def)
  note goal = insert_get(4) [OF ins]
  have "\<exists>r. get_node ?t (tt_goal_id ?t) = Some r \<and> tn_parent_id r = None"
  proof -
    obtain r where "get_node t (tt_goal_id t) = Some r" "tn_parent_id r = None" using ok by (auto simp: plan_ok_def)
    moreover from this obtain r' where "get_node ?t (tt_goal_id t) = Some r'" "tn_parent_id r' = tn_parent_id r"
      by (rule_tac insert_keeps [OF ins]) auto
    ultimately show ?thesis unfolding goal by simp
  qed
  moreover have "node_ok ?t x m" if m: "get_node ?t x = Some m" for x m
  proof (cases "x \<in> new_id fresh ` set sel")
    case True
    then show ?thesis using insert_node_ok_new [OF ins] insert_get(1) [OF ins] m by auto
  next
    case False
    then have "get_node t x \<noteq> None" using insert_get(3) [OF ins] m k by (cases "x = k") auto
    then show ?thesis using insert_node_ok_old [OF ins _ m] by blast
  qed
  moreover have "(tt_goal_id ?t, x) \<in> (child_rel ?t)\<^sup>*" if "x \<in> set (dict_keys (tt_nodes ?t))" for x
  proof -
    have sub: "(child_rel t)\<^sup>* \<subseteq> (child_rel ?t)\<^sup>*" by (rule rtrancl_mono) (simp add: insert_child_rel [OF ins])
    have old: "(tt_goal_id t, y) \<in> (child_rel ?t)\<^sup>*" if "y \<in> set (dict_keys (tt_nodes t))" for y
      using ok that sub by (auto simp: plan_ok_def)
    show ?thesis
    proof (cases "x \<in> set (dict_keys (tt_nodes t))")
      case True
      then show ?thesis using old goal by simp
    next
      case False
      then have "x \<in> new_id fresh ` set sel" using that by (simp add: insert_keys [OF ins] selected_order_props(1) [OF cl])
      then have "(k, x) \<in> child_rel ?t" by (simp add: insert_child_rel [OF ins])
      then show ?thesis using old [OF known_key [OF k]] goal by (simp add: rtrancl_into_rtrancl)
    qed
  qed
  ultimately show ?thesis using insert_acyclic [OF ins] unfolding plan_ok_def by blast
qed

section \<open>Inserting what a model proposed\<close>

abbreviation chosen :: "planner_limits \<Rightarrow> sub_task list \<Rightarrow> task_tree \<Rightarrow> nat list" where
  "chosen pl tasks t \<equiv> select_task_indices_within_budget tasks (room pl t)"

lemma chosen_insertion:
  "plan_ok t \<Longrightarrow> get_node t k = Some n \<Longrightarrow> fresh_ids fresh (accepted answer) t \<Longrightarrow>
   insertion fresh (accepted answer) (select_task_indices_within_budget (accepted answer) r) k n t"
  by (simp add: insertion_def accepted_ok select_closed(1))

lemma insert_size:
  assumes "plan_ok t" and "get_node t k = Some n" and "fresh_ids fresh (accepted answer) t"
    and "int (length (tt_nodes t)) \<le> pl_max_nodes pl"
  shows "int (length (tt_nodes (insert_subtasks fresh (accepted answer) (chosen pl (accepted answer) t) k t))) \<le> pl_max_nodes pl"
proof -
  note ins = chosen_insertion [OF assms(1-3), of "room pl t"]
  have cl: "closed_indices (accepted answer) (chosen pl (accepted answer) t)" by (rule select_closed(1) [OF accepted_ok])
  have "int (length (chosen pl (accepted answer) t)) \<le> room pl t"
    using select_closed(2) [OF accepted_ok, of answer "room pl t"] assms(4) by (simp add: room_def)
  moreover have "length (tt_nodes (insert_subtasks fresh (accepted answer) (chosen pl (accepted answer) t) k t)) =
      length (tt_nodes t) + length (chosen pl (accepted answer) t)"
    using arg_cong [OF insert_keys [OF ins], of length] selected_order_props(3) [OF cl] by (simp add: dict_keys_def)
  ultimately show ?thesis by (simp add: room_def)
qed

text \<open>
  Whatever the model proposes for a node of a valid plan, inserting the accepted and selected
  sub-tasks below it gives a valid plan again, which stays within the node limit, provided the new
  ids are fresh.
\<close>

theorem insert_subtasks_valid:
  assumes "plan_ok t" and "get_node t k = Some n" and "fresh_ids fresh (accepted answer) t"
    and "int (length (tt_nodes t)) \<le> pl_max_nodes pl"
  shows "plan_ok (insert_subtasks fresh (accepted answer) (chosen pl (accepted answer) t) k t) \<and>
    int (length (tt_nodes (insert_subtasks fresh (accepted answer) (chosen pl (accepted answer) t) k t))) \<le> pl_max_nodes pl"
  using insert_plan_ok [OF chosen_insertion [OF assms(1-3)]] insert_size [OF assms] by blast

definition sub :: "string \<Rightarrow> int list \<Rightarrow> sub_task" where
  "sub title ds = \<lparr>st_title = title, st_depends_on_index = ds, st_is_atomic = False\<rparr>"

definition sample_limits :: planner_limits where
  "sample_limits = \<lparr>pl_max_retries = 3, pl_max_depth = 4, pl_max_nodes = 64\<rparr>"

text \<open>Ids made of the parent's and a letter, at time 0.\<close>

definition sample_fresh :: "string \<Rightarrow> nat \<Rightarrow> string \<times> rat" where
  "sample_fresh k i = (k @ ''.'' @ str_nat i, 0)"

lemma sample_answer: "accepted [sub ''x'' [], sub ''y'' [0]] = [sub ''x'' [], sub ''y'' [0]]"
  by code_simp

theorem insert_subtasks_valid_witness:
  "plan_ok (insert_subtasks (sample_fresh ''a'') [sub ''x'' [], sub ''y'' [0]]
     (chosen sample_limits [sub ''x'' [], sub ''y'' [0]] sample_plan) ''a'' sample_plan)"
proof -
  have k: "get_node sample_plan ''a'' = Some (task ''a'' T_PENDING (Some ''goal'') [] [])"
    by (simp add: sample_plan_def plan_of_def get_node_def dict_get_def task_def)
  have "str_nat 0 \<noteq> str_nat (Suc 0)" by code_simp
  then have "fresh_ids (sample_fresh ''a'') (accepted [sub ''x'' [], sub ''y'' [0]]) sample_plan"
    unfolding sample_answer
    by (auto simp: fresh_ids_def inj_on_def sample_fresh_def dict_keys_def sample_plan_def plan_of_def task_def
        lessThan_Suc less_Suc_eq)
  moreover have "int (length (tt_nodes sample_plan)) \<le> pl_max_nodes sample_limits"
    by (simp add: sample_plan_def plan_of_def sample_limits_def)
  ultimately show ?thesis
    using insert_subtasks_valid [OF conjunct2 [OF sample_plan_ok] k, of "sample_fresh ''a''"
      "[sub ''x'' [], sub ''y'' [0]]" sample_limits] unfolding sample_answer by simp
qed

section \<open>Decomposition\<close>

text \<open>
  All new ids of a decomposition are distinct; an id made for a node is in the plan only once the
  node has children.
\<close>

definition ids_distinct :: "(string \<Rightarrow> nat \<Rightarrow> string \<times> rat) \<Rightarrow> bool" where
  "ids_distinct fresh = inj (\<lambda>(k, i). fst (fresh k i))"

definition unused :: "(string \<Rightarrow> nat \<Rightarrow> string \<times> rat) \<Rightarrow> task_tree \<Rightarrow> bool" where
  "unused fresh t =
     (\<forall>k i. get_node t (fst (fresh k i)) \<noteq> None \<longrightarrow> (\<exists>n. get_node t k = Some n \<and> \<not> is_leaf n))"

definition grown :: "planner_limits \<Rightarrow> (string \<Rightarrow> nat \<Rightarrow> string \<times> rat) \<Rightarrow> string set \<Rightarrow> task_tree \<Rightarrow> task_tree \<Rightarrow> bool" where
  "grown pl fresh ks t t' =
     (plan_ok t' \<and> unused fresh t' \<and> (dict_wf (tt_nodes t) \<longrightarrow> dict_wf (tt_nodes t')) \<and> tt_goal_id t' = tt_goal_id t \<and>
      (\<forall>x. get_node t x \<noteq> None \<longrightarrow> x \<notin> ks \<longrightarrow> get_node t' x = get_node t x) \<and>
      (\<forall>x n. get_node t x = Some n \<longrightarrow> (\<exists>n'. get_node t' x = Some n' \<and> tn_depth n' = tn_depth n)) \<and>
      (\<forall>x n. get_node t x = None \<longrightarrow> get_node t' x = Some n \<longrightarrow> tn_depth n \<le> pl_max_depth pl) \<and>
      int (length (tt_nodes t')) \<le> max (int (length (tt_nodes t))) (pl_max_nodes pl))"

lemma grown_refl: "plan_ok t \<Longrightarrow> unused fresh t \<Longrightarrow> grown pl fresh ks t t"
  by (auto simp: grown_def)

lemma grown_trans:
  assumes "grown pl fresh ks t t1" and "grown pl fresh ks' t1 t2"
  shows "grown pl fresh (ks \<union> ks') t t2"
proof -
  have same: "get_node t2 x = get_node t x" if "get_node t x \<noteq> None" "x \<notin> ks \<union> ks'" for x
  proof -
    have "get_node t1 x = get_node t x" using assms(1) that by (simp add: grown_def)
    then show ?thesis using assms(2) that by (simp add: grown_def)
  qed
  have kept: "\<exists>n'. get_node t2 x = Some n' \<and> tn_depth n' = tn_depth n" if "get_node t x = Some n" for x n
  proof -
    have "\<exists>n'. get_node t1 x = Some n' \<and> tn_depth n' = tn_depth n" using assms(1) that by (simp add: grown_def)
    then show ?thesis using assms(2) by (fastforce simp: grown_def)
  qed
  have deep: "tn_depth n \<le> pl_max_depth pl" if "get_node t x = None" "get_node t2 x = Some n" for x n
  proof (cases "get_node t1 x")
    case None
    then show ?thesis using assms(2) that by (simp add: grown_def)
  next
    case (Some m)
    then have "tn_depth m \<le> pl_max_depth pl" using assms(1) that by (simp add: grown_def)
    moreover have "tn_depth n = tn_depth m" using assms(2) Some that by (fastforce simp: grown_def)
    ultimately show ?thesis by simp
  qed
  have "int (length (tt_nodes t2)) \<le> max (int (length (tt_nodes t1))) (pl_max_nodes pl)"
    "int (length (tt_nodes t1)) \<le> max (int (length (tt_nodes t))) (pl_max_nodes pl)"
    using assms unfolding grown_def by blast+
  then have "int (length (tt_nodes t2)) \<le> max (int (length (tt_nodes t))) (pl_max_nodes pl)" by linarith
  then show ?thesis using assms same kept deep unfolding grown_def by simp
qed

lemma grown_cut:
  "grown pl fresh (ks \<union> N) t t' \<Longrightarrow> \<forall>x \<in> N. get_node t x = None \<Longrightarrow> grown pl fresh ks t t'"
  unfolding grown_def by (metis UnE)

lemma insert_wf: "dict_wf (tt_nodes t) \<Longrightarrow> dict_wf (tt_nodes (insert_subtasks fresh tasks sel k t))"
proof -
  have f: "dict_wf (tt_nodes (fold (\<lambda>i. add_node (c i)) is t'))" if "dict_wf (tt_nodes t')" for c and "is" :: "nat list" and t'
    using that by (induction "is" arbitrary: t') (simp_all add: add_node_def dict_wf_set)
  assume "dict_wf (tt_nodes t)"
  then show ?thesis by (simp add: insert_subtasks_def Let_def put_node_wf f split: option.splits)
qed

lemma unused_fresh_ids:
  assumes "ids_distinct fresh" and "unused fresh t" and "get_node t k = Some n" and "is_leaf n"
  shows "fresh_ids (fresh k) tasks t"
proof -
  have "inj_on (new_id (fresh k)) {..<length tasks}"
    using assms(1) by (auto simp: ids_distinct_def inj_on_def)
  moreover have "new_id (fresh k) i \<notin> set (dict_keys (tt_nodes t))" for i
  proof -
    have "get_node t (fst (fresh k i)) = None"
    proof (rule ccontr)
      assume "get_node t (fst (fresh k i)) \<noteq> None"
      then have "\<exists>m. get_node t k = Some m \<and> \<not> is_leaf m" using assms(2) unfolding unused_def by blast
      then show False using assms(3,4) by simp
    qed
    then show ?thesis by (simp add: get_node_def dict_get_None_iff)
  qed
  ultimately show ?thesis by (auto simp: fresh_ids_def)
qed

lemma insert_grown:
  assumes dist: "ids_distinct fresh" and un: "unused fresh t" and ok: "plan_ok t"
    and k: "get_node t k = Some n" and leaf: "is_leaf n" and d: "tn_depth n < pl_max_depth pl"
    and size: "int (length (tt_nodes t)) < pl_max_nodes pl"
  shows "grown pl fresh {k} t (insert_subtasks (fresh k) (accepted answer) (chosen pl (accepted answer) t) k t)"
proof -
  let ?sel = "chosen pl (accepted answer) t"
  let ?t = "insert_subtasks (fresh k) (accepted answer) ?sel k t"
  have fr: "fresh_ids (fresh k) (accepted answer) t" by (rule unused_fresh_ids [OF dist un k leaf])
  note ins = chosen_insertion [OF ok k fr, of "room pl t"]
  note g = insert_get [OF ins]
  have cl: "closed_indices (accepted answer) ?sel" by (rule select_closed(1) [OF accepted_ok])
  have known: "get_node t x \<noteq> None \<or> x \<in> new_id (fresh k) ` set ?sel" if "get_node ?t x \<noteq> None" for x
    using that g(3) k by (cases "x = k") auto
  have split: "\<exists>m. get_node ?t k = Some m \<and> \<not> is_leaf m" if "set ?sel \<noteq> {}"
    using g(2) that selected_order_props(1) [OF cl] by (auto simp: is_leaf_def)
  have "unused fresh ?t"
    unfolding unused_def
  proof (intro allI impI)
    fix k' i assume a: "get_node ?t (fst (fresh k' i)) \<noteq> None"
    show "\<exists>m. get_node ?t k' = Some m \<and> \<not> is_leaf m"
    proof (cases "get_node t (fst (fresh k' i)) = None")
      case True
      then obtain j where j: "j \<in> set ?sel" "fst (fresh k' i) = fst (fresh k j)" using known [OF a] by auto
      then have "(k', i) = (k, j)" by (intro injD [OF dist [unfolded ids_distinct_def]]) simp
      then have "k' = k" by simp
      moreover have "set ?sel \<noteq> {}" using j(1) by (cases ?sel) auto
      ultimately show ?thesis using split by blast
    next
      case False
      then obtain m where m: "get_node t k' = Some m" "\<not> is_leaf m" using un by (auto simp: unused_def)
      obtain m' where "get_node ?t k' = Some m'" "tn_children_ids m' = tn_children_ids m @
          (if k' = k then map (new_id (fresh k)) (selected_order (accepted answer) ?sel) else [])"
        by (rule insert_keeps [OF ins m(1)])
      then show ?thesis using m(2) by (auto simp: is_leaf_def)
    qed
  qed
  moreover have "get_node ?t x = get_node t x" if "get_node t x \<noteq> None" "x \<noteq> k" for x
    using g(3) insert_old [OF ins] that by blast
  moreover have "\<exists>m'. get_node ?t x = Some m' \<and> tn_depth m' = tn_depth m" if m: "get_node t x = Some m" for x m
  proof (cases "x = k")
    case True
    then show ?thesis using g(2) k m by simp
  next
    case False
    then show ?thesis using g(3) [OF insert_old [OF ins m] False] m by simp
  qed
  moreover have "tn_depth m \<le> pl_max_depth pl" if m: "get_node t x = None" "get_node ?t x = Some m" for x m
  proof -
    obtain i where i: "i \<in> set ?sel" "x = new_id (fresh k) i" using known [of x] m by auto
    have "m = child_node (fresh k) k (tn_depth n + 1) (accepted answer) i" using g(1) [OF i(1)] i(2) m(2) by simp
    then show ?thesis using d by (simp add: child_node_def)
  qed
  moreover have "int (length (tt_nodes ?t)) \<le> max (int (length (tt_nodes t))) (pl_max_nodes pl)"
    using insert_size [OF ok k fr] size by simp
  ultimately show ?thesis using insert_plan_ok [OF ins] g(4) insert_wf unfolding grown_def by simp
qed

definition open_leaf :: "nat \<Rightarrow> planner_limits \<Rightarrow> task_tree \<Rightarrow> string \<Rightarrow> bool" where
  "open_leaf f pl t k =
     (\<exists>n. get_node t k = Some n \<and> is_leaf n \<and> nat (pl_max_depth pl - tn_depth n) < f)"

lemma insert_open_leaf:
  assumes ins: "insertion (fresh k) (accepted answer) sel k n t" and d: "tn_depth n < pl_max_depth pl"
    and f: "nat (pl_max_depth pl - tn_depth n) < Suc f" and i: "i \<in> set sel"
  shows "open_leaf f pl (insert_subtasks (fresh k) (accepted answer) sel k t) (fst (fresh k i))"
  using insert_get(1) [OF ins i] d f by (auto simp: open_leaf_def is_leaf_def child_node_def nat_less_iff)

lemma decompose_grown:
  "ids_distinct fresh \<Longrightarrow> plan_ok t \<Longrightarrow> unused fresh t \<Longrightarrow> open_leaf f pl t k \<Longrightarrow>
   \<exists>t'. decompose_node f pl answers fresh k t = Some t' \<and> grown pl fresh {k} t t'"
  "ids_distinct fresh \<Longrightarrow> plan_ok t \<Longrightarrow> unused fresh t \<Longrightarrow> distinct ks \<Longrightarrow> \<forall>k \<in> set ks. open_leaf f pl t k \<Longrightarrow>
   \<exists>t'. decompose_all f pl answers fresh ks t = Some t' \<and> grown pl fresh (set ks) t t'"
proof (induction f pl answers fresh k t and f pl answers fresh ks t rule: decompose_node_decompose_all.induct)
  case (1 pl answers fresh k t)
  then show ?case by (simp add: open_leaf_def)
next
  case (2 f pl answers fresh k t)
  obtain n where n: "get_node t k = Some n" "is_leaf n" "nat (pl_max_depth pl - tn_depth n) < Suc f"
    using "2.prems"(4) by (auto simp: open_leaf_def)
  let ?tasks = "accepted (answers k)"
  let ?sel = "chosen pl ?tasks t"
  let ?t = "insert_subtasks (fresh k) ?tasks ?sel k t"
  show ?case
  proof (cases "tn_is_atomic n \<or> tn_depth n \<ge> pl_max_depth pl \<or> int (length (tt_nodes t)) \<ge> pl_max_nodes pl")
    case True
    then show ?thesis using n(1) grown_refl [OF "2.prems"(2,3)] by auto
  next
    case False
    then have d: "tn_depth n < pl_max_depth pl" and sz: "int (length (tt_nodes t)) < pl_max_nodes pl" by auto
    show ?thesis
    proof (cases "?tasks = []")
      case True
      then show ?thesis using n(1) False grown_refl [OF "2.prems"(2,3)] by (simp add: Let_def)
    next
      case nonempty: False
      have fr: "fresh_ids (fresh k) ?tasks t" by (rule unused_fresh_ids [OF "2.prems"(1,3) n(1,2)])
      note ins = chosen_insertion [OF "2.prems"(2) n(1) fr, of "room pl t"]
      have cl: "closed_indices ?tasks ?sel" by (rule select_closed(1) [OF accepted_ok])
      have g: "grown pl fresh {k} t ?t" by (rule insert_grown [OF "2.prems"(1,3,2) n(1,2) d sz])
      let ?cs = "map (\<lambda>i. fst (fresh k i)) (selected_order ?tasks ?sel)"
      have dist: "distinct ?cs"
        using "2.prems"(1) selected_order_props(2) [OF cl] by (auto simp: distinct_map inj_on_def ids_distinct_def)
      have "\<forall>c \<in> set ?cs. open_leaf f pl ?t c"
        using insert_open_leaf [of fresh k "answers k" ?sel n t pl f] ins d n(3) selected_order_props(1) [OF cl] by auto
      then obtain t' where t': "decompose_all f pl answers fresh ?cs ?t = Some t'" "grown pl fresh (set ?cs) ?t t'"
        using "2.IH" [OF n(1) False refl refl nonempty "2.prems"(1) _ _ dist] g unfolding grown_def by blast
      have "\<forall>x \<in> set ?cs. get_node t x = None"
        using insert_old [OF ins] selected_order_props(1) [OF cl] by (auto simp: image_iff) (metis option.exhaust)
      then have "grown pl fresh {k} t t'" using grown_cut [OF grown_trans [OF g t'(2)]] by blast
      moreover have "decompose_node (Suc f) pl answers fresh k t = Some t'"
        using n(1) False nonempty t'(1) by (simp add: Let_def)
      ultimately show ?thesis by blast
    qed
  qed
next
  case (3 f pl answers fresh t)
  then show ?case using grown_refl by simp
next
  case (4 f pl answers fresh c cs t)
  obtain t1 where t1: "decompose_node f pl answers fresh c t = Some t1" "grown pl fresh {c} t t1"
    using "4.IH"(1) [OF "4.prems"(1-3)] "4.prems"(5) by auto
  have "\<forall>x \<in> set cs. open_leaf f pl t1 x"
  proof
    fix x assume x: "x \<in> set cs"
    then have "x \<noteq> c" "open_leaf f pl t x" using "4.prems"(4,5) by auto
    moreover from this have "get_node t1 x = get_node t x" using t1(2) by (auto simp: grown_def open_leaf_def)
    ultimately show "open_leaf f pl t1 x" by (simp add: open_leaf_def)
  qed
  then obtain t2 where t2: "decompose_all f pl answers fresh cs t1 = Some t2" "grown pl fresh (set cs) t1 t2"
    using "4.IH"(2) [OF t1(1) "4.prems"(1)] t1(2) "4.prems"(4) unfolding grown_def by auto
  have "grown pl fresh (set (c # cs)) t t2" using grown_trans [OF t1(2) t2(2)] by simp
  then show ?case using t1(1) t2(1) by simp
qed

lemma decompose_result:
  assumes "ids_distinct fresh" and "plan_ok t" and "dict_wf (tt_nodes t)"
    and "\<forall>k i. get_node t (fst (fresh k i)) = None"
    and "get_node t (tt_goal_id t) = Some r" and "is_leaf r" and "tn_depth r = 0"
  obtains t' where "decompose pl answers fresh t = Inr t'" "grown pl fresh {tt_goal_id t} t t'"
proof -
  have "unused fresh t" using assms(4) by (simp add: unused_def)
  moreover have "open_leaf (Suc (nat (pl_max_depth pl))) pl t (tt_goal_id t)" using assms(5-7) by (simp add: open_leaf_def)
  ultimately obtain t' where t': "decompose_node (Suc (nat (pl_max_depth pl))) pl answers fresh (tt_goal_id t) t = Some t'"
      "grown pl fresh {tt_goal_id t} t t'"
    using decompose_grown(1) [OF assms(1,2)] by blast
  have "plan_ok t'" "dict_wf (tt_nodes t')" using t'(2) assms(3) by (simp_all add: grown_def)
  then have "assert_valid_plan t' = Inr ()" using validate_plan_iff [of t'] by (simp add: assert_valid_plan_def)
  then show ?thesis using that t' by (simp add: decompose_def)
qed

text \<open>
  C11. Decomposition always succeeds: from a valid plan whose root is still a leaf at depth 0,
  and whatever the model answers, it ends within the recursion bound in a valid plan, the final
  check passes, no new node is deeper than the depth limit, and the plan is not larger than the
  node limit (or than it was).
\<close>

theorem decompose_total:
  assumes "ids_distinct fresh" and "plan_ok t" and "dict_wf (tt_nodes t)"
    and "\<forall>k i. get_node t (fst (fresh k i)) = None"
    and "get_node t (tt_goal_id t) = Some r" and "is_leaf r" and "tn_depth r = 0"
  shows "\<exists>t'. decompose pl answers fresh t = Inr t' \<and> plan_ok t' \<and>
    (\<forall>x n. get_node t' x = Some n \<and> get_node t x = None \<longrightarrow> tn_depth n \<le> pl_max_depth pl) \<and>
    int (length (tt_nodes t')) \<le> max (int (length (tt_nodes t))) (pl_max_nodes pl)"
  by (rule decompose_result [OF assms, of pl answers]) (auto simp: grown_def)

definition root_plan :: task_tree where
  "root_plan = plan_of [task ''goal'' T_PENDING None [] []]"

text \<open>The separators show the node an id was made for: a node's id has one dot per level.\<close>

definition slot_fresh :: "string \<Rightarrow> nat \<Rightarrow> string \<times> rat" where
  "slot_fresh k i = (replicate i CHR ''s'' @ ''.'' @ k, 0)"

lemma slot_fresh_inj: "fst (slot_fresh k i) = fst (slot_fresh k' i') \<Longrightarrow> k = k' \<and> i = i'"
  by (induction i arbitrary: i') (case_tac i'; auto simp: slot_fresh_def)+

theorem decompose_total_witness:
  "\<exists>t'. decompose sample_limits (\<lambda>k. [sub ''x'' [], sub ''y'' [0]]) slot_fresh root_plan = Inr t' \<and> plan_ok t'"
proof -
  have wf: "dict_wf (tt_nodes root_plan)" by (simp add: root_plan_def plan_of_def dict_wf_def)
  have "validate_plan root_plan = Some []" by code_simp
  then have ok: "plan_ok root_plan" using validate_plan_iff [OF wf] by simp
  have ids: "ids_distinct slot_fresh" unfolding ids_distinct_def inj_def using slot_fresh_inj by auto
  have "fst (slot_fresh k i) \<noteq> ''goal''" for k i
    by (cases i) (auto simp: slot_fresh_def)
  then have none: "\<forall>k i. get_node root_plan (fst (slot_fresh k i)) = None"
    by (simp add: root_plan_def plan_of_def task_def get_node_def dict_get_def)
  have "get_node root_plan (tt_goal_id root_plan) = Some (task ''goal'' T_PENDING None [] [])"
      "is_leaf (task ''goal'' T_PENDING None [] [])" "tn_depth (task ''goal'' T_PENDING None [] []) = 0"
    by (simp_all add: root_plan_def plan_of_def task_def get_node_def dict_get_def is_leaf_def)
  from decompose_total [OF ids ok wf none this] show ?thesis by blast
qed

end
