(* ===== verification/Plan_Graph_Correct.thy ===== *)
theory Plan_Graph_Correct
  imports Plan_Graph Plan_Growth
begin

text \<open>
  The plan-and-execute graph: what its routers dispatch, what re-planning changes, and that no step
  of a run fails on a valid plan.
\<close>

section \<open>Writes of a status\<close>

lemma get_set_status:
  "get_node (set_status s k t) x = (if x = k then map_option (tn_status_update (\<lambda>_. s)) (get_node t k) else get_node t x)"
  by (simp add: set_status_def split: option.splits)

lemma get_fold_status:
  "get_node (fold (set_status s) ks t) x =
     (if x \<in> set ks then map_option (tn_status_update (\<lambda>_. s)) (get_node t x) else get_node t x)"
proof (induction ks arbitrary: t)
  case (Cons k ks)
  then show ?case by (cases "get_node t x") (auto simp: get_set_status)
qed simp

lemma links_status [simp]: "links (n\<lparr>tn_status := s\<rparr>) = links n"
  by (simp add: links_def)

lemma set_status_shape: "same_shape t (set_status s k t)"
  by (simp add: set_status_def same_shape_put split: option.splits)

lemma set_status_wf: "dict_wf (tt_nodes t) \<Longrightarrow> dict_wf (tt_nodes (set_status s k t))"
  by (simp add: set_status_def put_node_wf split: option.splits)

text \<open>The trees of a run: valid, with one entry per key. Both survive every write that keeps the links.\<close>

definition sound :: "task_tree \<Rightarrow> bool" where
  "sound t = (plan_ok t \<and> dict_wf (tt_nodes t))"

definition relabelled :: "task_tree \<Rightarrow> task_tree \<Rightarrow> bool" where
  "relabelled t t' = (same_shape t t' \<and> (dict_wf (tt_nodes t) \<longrightarrow> dict_wf (tt_nodes t')))"

lemma relabelled_sound: "relabelled t t' \<Longrightarrow> sound t \<Longrightarrow> sound t'"
  using same_shape_plan_ok by (auto simp: relabelled_def sound_def)

lemma relabelled_refl [simp]: "relabelled t t"
  by (simp add: relabelled_def)

lemma relabelled_trans: "relabelled t t1 \<Longrightarrow> relabelled t1 t2 \<Longrightarrow> relabelled t t2"
  using same_shape_trans by (auto simp: relabelled_def)

lemma relabelled_put: "get_node t k = Some n \<Longrightarrow> links m = links n \<Longrightarrow> relabelled t (put_node k m t)"
  by (simp add: relabelled_def same_shape_put put_node_wf)

lemma relabelled_status: "relabelled t (set_status s k t)"
  by (simp add: relabelled_def set_status_shape set_status_wf)

lemma relabelled_fold: "(\<And>k t. relabelled t (f k t)) \<Longrightarrow> relabelled t (fold f ks t)"
  by (induction ks arbitrary: t) (auto intro: relabelled_trans)

lemma relabelled_cascades: "cascades t t' \<Longrightarrow> relabelled t t'"
  by (simp add: relabelled_def cascades_shape cascades_wf)

lemma relabelled_cancel: "relabelled t (cancel_task note k t)"
  by (auto simp: cancel_task_def links_def intro: relabelled_put split: option.splits)

lemma relabelled_handle_error: "relabelled t (snd (handle_error k e t))"
  by (auto simp: handle_error_def links_def Let_def intro: relabelled_put split: option.splits)

section \<open>Routing\<close>

lemma new_scheduler_sound: "sound t \<Longrightarrow> new_scheduler t = Inr t"
  using validate_plan_iff [of t] by (simp add: sound_def new_scheduler_def assert_valid_plan_def)

lemma sound_ready:
  assumes "sound t"
  obtains t' where "get_ready_tasks t = (Inr (sort_key ready_order (ready_nodes t)), t')" "cascades t t'"
  using get_ready_tasks_eq [of t] plan_ok_deps_known assms unfolding sound_def by metis

lemma ready_node_entry:
  assumes "sound t" and "n \<in> set (ready_nodes t)"
  shows "get_node t (tn_id n) = Some n \<and> pending_leaf n \<and> deps_passed t n"
proof -
  have n: "n \<in> set (dict_values (tt_nodes t))" "pending_leaf n" "deps_passed t n"
    using assms(2) by (simp_all add: ready_nodes_def)
  obtain k where k: "get_node t k = Some n"
    using dict_values_get [of "tt_nodes t" n] assms(1) n(1) unfolding sound_def get_node_def by metis
  then have "node_ok t k n" using assms(1) by (simp add: sound_def plan_ok_def)
  then have "tn_id n = k" using node_ok_local by metis
  then show ?thesis using k n by simp
qed

lemma route_next_cases:
  assumes "sound (gs_tree gs)"
  obtains d t' where "route_next cfg over gs = (Inr d, t')" "cascades (gs_tree gs) t'"
      "d \<in> {R_Synthesize, R_Error, R_Compress}" "d = R_Synthesize \<longrightarrow> plan_is_complete t'"
    | ns t1 where "route_next cfg over gs = (Inr R_Execute, fold (set_status T_RUNNING) (map tn_id ns) t1)"
      "cascades (gs_tree gs) t1" "ns \<noteq> []" "length ns \<le> max_dispatch cfg" "set ns \<subseteq> set (ready_nodes (gs_tree gs))"
proof -
  obtain t1 where t1: "get_ready_tasks (gs_tree gs) = (Inr (sort_key ready_order (ready_nodes (gs_tree gs))), t1)"
      "cascades (gs_tree gs) t1"
    using sound_ready [OF assms] by metis
  note e = route_next_def [of cfg over gs, unfolded Let_def new_scheduler_sound [OF assms] t1(1) sum.case prod.case]
  let ?ready = "sort_key ready_order (ready_nodes (gs_tree gs))"
  show ?thesis
  proof (cases "plan_is_complete (gs_tree gs) \<or> over")
    case True
    then show ?thesis using that(1) e by (auto split: if_splits)
  next
    case False
    show ?thesis
    proof (cases "?ready = []")
      case True
      then show ?thesis using that(1) e t1(2) False by (auto split: if_splits)
    next
      case ready: False
      have m: "0 < max_dispatch cfg" by (auto simp: max_dispatch_def)
      have "route_next cfg over gs = (Inr R_Execute, fold (set_status T_RUNNING) (map tn_id (take (max_dispatch cfg) ?ready)) t1)"
        using e False ready by simp
      moreover have "take (max_dispatch cfg) ?ready \<noteq> []" using ready m by simp
      moreover have "set (take (max_dispatch cfg) ?ready) \<subseteq> set (ready_nodes (gs_tree gs))"
        using set_take_subset [of _ ?ready] by simp
      ultimately show ?thesis using that(2) t1(2) by simp
    qed
  qed
qed

lemma running_card:
  assumes "\<And>k. has_status t' T_RUNNING k \<Longrightarrow> \<not> has_status t T_RUNNING k \<Longrightarrow> k \<in> set ks"
  shows "card {k. has_status t' T_RUNNING k \<and> \<not> has_status t T_RUNNING k} \<le> length ks"
proof -
  have "card {k. has_status t' T_RUNNING k \<and> \<not> has_status t T_RUNNING k} \<le> card (set ks)"
    using assms by (intro card_mono) auto
  then show ?thesis using card_length [of ks] by linarith
qed

text \<open>A batch that the execute route starts, after the cascade.\<close>

lemma started_batch:
  assumes s: "sound t0" and c: "cascades t0 t1" and ne: "ns \<noteq> []" and m: "length ns \<le> m"
    and ready: "set ns \<subseteq> set (ready_nodes t0)" and t: "t' = fold (set_status T_RUNNING) (map tn_id ns) t1"
  shows "plan_ok t'" and "\<exists>k. has_status t' T_RUNNING k"
    and "card {k. has_status t' T_RUNNING k \<and> \<not> has_status t0 T_RUNNING k} \<le> m"
    and "has_status t' T_RUNNING k \<Longrightarrow> \<not> has_status t0 T_RUNNING k \<Longrightarrow>
      \<exists>n. get_node t0 k = Some n \<and> pending_leaf n \<and> deps_passed t0 n"
proof -
  have "relabelled t0 t'"
    unfolding t by (rule relabelled_trans [OF relabelled_cascades [OF c] relabelled_fold]) (rule relabelled_status)
  then show "plan_ok t'" using relabelled_sound s by (auto simp: sound_def)
  have new: "k \<in> set (map tn_id ns)" if k: "has_status t' T_RUNNING k" "\<not> has_status t0 T_RUNNING k" for k
  proof (rule ccontr)
    assume "k \<notin> set (map tn_id ns)"
    then have "has_status t1 T_RUNNING k" using k(1) unfolding t by (simp add: has_status_def get_fold_status)
    then show False using k(2) by (rule_tac cascades_cases [OF c, of k]) (auto simp: has_status_def)
  qed
  show "\<exists>n. get_node t0 k = Some n \<and> pending_leaf n \<and> deps_passed t0 n"
    if "has_status t' T_RUNNING k" "\<not> has_status t0 T_RUNNING k"
    using new [OF that] ready ready_node_entry [OF s] by auto
  show "card {k. has_status t' T_RUNNING k \<and> \<not> has_status t0 T_RUNNING k} \<le> m"
    using order_trans [OF running_card [of t' t0 "map tn_id ns"]] new m unfolding length_map by blast
  obtain n where n: "n \<in> set ns" using ne by (cases ns) auto
  then have "get_node t0 (tn_id n) = Some n" using ready ready_node_entry [OF s] by auto
  then obtain x where "get_node t1 (tn_id n) = Some x" using cascades_cases [OF c, of "tn_id n"] by metis
  then have "has_status t' T_RUNNING (tn_id n)" using n unfolding t by (simp add: has_status_def get_fold_status)
  then show "\<exists>k. has_status t' T_RUNNING k" by blast
qed

text \<open>
  C9. Routing is safe: on a valid plan the router never raises. A task that it sets running was a
  pending leaf all of whose dependencies had passed, at most the configured number starts at once
  and at least one when it routes to the executor, and it routes to the synthesizer only when
  every leaf has passed or been cancelled.
\<close>

theorem route_next_safe:
  assumes "plan_ok (gs_tree gs)" and "dict_wf (tt_nodes (gs_tree gs))"
  shows "\<exists>d t'. route_next cfg over gs = (Inr d, t') \<and> plan_ok t' \<and>
    (\<forall>k. has_status t' T_RUNNING k \<and> \<not> has_status (gs_tree gs) T_RUNNING k \<longrightarrow>
       (\<exists>n. get_node (gs_tree gs) k = Some n \<and> pending_leaf n \<and> deps_passed (gs_tree gs) n)) \<and>
    card {k. has_status t' T_RUNNING k \<and> \<not> has_status (gs_tree gs) T_RUNNING k} \<le> max_dispatch cfg \<and>
    (d = R_Execute \<longrightarrow> (\<exists>k. has_status t' T_RUNNING k)) \<and>
    (d = R_Synthesize \<longrightarrow> plan_is_complete t')"
proof -
  have s: "sound (gs_tree gs)" using assms by (simp add: sound_def)
  show ?thesis
  proof (rule route_next_cases [OF s, of cfg over])
    fix d t' assume r: "route_next cfg over gs = (Inr d, t')" "cascades (gs_tree gs) t'"
      "d \<in> {R_Synthesize, R_Error, R_Compress}" "d = R_Synthesize \<longrightarrow> plan_is_complete t'"
    have "plan_ok t'" using relabelled_sound [OF relabelled_cascades [OF r(2)] s] by (simp add: sound_def)
    have none: "\<not> (has_status t' T_RUNNING k \<and> \<not> has_status (gs_tree gs) T_RUNNING k)" for k
      by (rule cascades_cases [OF r(2), of k]) (auto simp: has_status_def)
    have e: "{k. has_status t' T_RUNNING k \<and> \<not> has_status (gs_tree gs) T_RUNNING k} = {}" using none by blast
    have "card {k. has_status t' T_RUNNING k \<and> \<not> has_status (gs_tree gs) T_RUNNING k} \<le> max_dispatch cfg"
      unfolding e by simp
    moreover have "\<forall>k. has_status t' T_RUNNING k \<and> \<not> has_status (gs_tree gs) T_RUNNING k \<longrightarrow>
        (\<exists>n. get_node (gs_tree gs) k = Some n \<and> pending_leaf n \<and> deps_passed (gs_tree gs) n)" using none by blast
    moreover have "d \<noteq> R_Execute" using r(3) by auto
    ultimately show ?thesis using r(1,4) \<open>plan_ok t'\<close> by blast
  next
    fix ns t1 assume r: "route_next cfg over gs = (Inr R_Execute, fold (set_status T_RUNNING) (map tn_id ns) t1)"
      "cascades (gs_tree gs) t1" "ns \<noteq> []" "length ns \<le> max_dispatch cfg" "set ns \<subseteq> set (ready_nodes (gs_tree gs))"
    note b = started_batch [OF s r(2-5) refl]
    show ?thesis using r(1) b by blast
  qed
qed

section \<open>Re-planning\<close>

text \<open>The new ids of one call, and what the call may change.\<close>

definition ids_unknown :: "(nat \<Rightarrow> string \<times> rat) \<Rightarrow> task_tree \<Rightarrow> bool" where
  "ids_unknown fresh t = (inj (\<lambda>i. fst (fresh i)) \<and> (\<forall>i. get_node t (fst (fresh i)) = None))"

definition replan_frame :: "(nat \<Rightarrow> string \<times> rat) \<Rightarrow> string \<Rightarrow> task_tree \<Rightarrow> task_tree \<Rightarrow> bool" where
  "replan_frame fresh k t t' =
     (sound t' \<and> (\<forall>x. x \<noteq> k \<longrightarrow> get_node t x \<noteq> None \<longrightarrow> get_node t' x = get_node t x) \<and>
      (\<forall>x. get_node t x = None \<longrightarrow> get_node t' x \<noteq> None \<longrightarrow> (\<exists>i. x = fst (fresh i))))"

lemma replan_frame_refl: "sound t \<Longrightarrow> replan_frame fresh k t t"
  by (simp add: replan_frame_def)

lemma replan_frame_put:
  "sound t \<Longrightarrow> get_node t k = Some n \<Longrightarrow> links m = links n \<Longrightarrow> replan_frame fresh k t (put_node k m t)"
  using relabelled_sound [OF relabelled_put] by (auto simp: replan_frame_def)

lemma put_put [simp]: "put_node k m (put_node k n t) = put_node k m t"
proof -
  have "dict_set k m (dict_set k n d) = dict_set k m d" for d :: "(string, task_node) pydict"
    by (induction d) auto
  then show ?thesis by (simp add: put_node_def)
qed

lemma sound_assert: "sound t \<Longrightarrow> assert_valid_plan t = Inr ()"
  using validate_plan_iff [of t] by (simp add: sound_def assert_valid_plan_def)

lemma unknown_fresh: "ids_unknown fresh t \<Longrightarrow> fresh_ids fresh tasks t"
  by (auto simp: ids_unknown_def fresh_ids_def get_node_def dict_get_None_iff intro: inj_on_subset)

lemma insert_frame:
  assumes "sound t" and "get_node t k = Some n" and "ids_unknown fresh t"
  shows "replan_frame fresh k t
    (insert_subtasks fresh (accepted answer) (select_task_indices_within_budget (accepted answer) r) k t)"
proof -
  have ins: "insertion fresh (accepted answer) (select_task_indices_within_budget (accepted answer) r) k n t"
    using chosen_insertion assms unknown_fresh by (simp add: sound_def)
  note g = insert_get(3) [OF ins]
  let ?t = "insert_subtasks fresh (accepted answer) (select_task_indices_within_budget (accepted answer) r) k t"
  have "sound ?t" using insert_plan_ok [OF ins] insert_wf assms(1) by (simp add: sound_def)
  moreover have "get_node ?t x = get_node t x" if "x \<noteq> k" "get_node t x \<noteq> None" for x
    using g insert_old [OF ins] that by blast
  moreover have "\<exists>i. x = fst (fresh i)" if "get_node t x = None" "get_node ?t x \<noteq> None" for x
  proof -
    have "x \<noteq> k" using that assms(2) by auto
    then have "x \<in> (\<lambda>i. fst (fresh i)) ` set (select_task_indices_within_budget (accepted answer) r)"
      using g [of x] that by (cases "x \<in> (\<lambda>i. fst (fresh i)) ` set (select_task_indices_within_budget (accepted answer) r)") auto
    then show ?thesis by blast
  qed
  ultimately show ?thesis unfolding replan_frame_def by blast
qed

lemma replan_frame_step:
  assumes "replan_frame fresh k t t1" and "get_node t k \<noteq> None" and "replan_frame fresh k t1 t2"
  shows "replan_frame fresh k t t2"
proof -
  have "get_node t2 x = get_node t x" if "x \<noteq> k" "get_node t x \<noteq> None" for x
    using assms(1,3) that by (simp add: replan_frame_def)
  moreover have "\<exists>i. x = fst (fresh i)" if "get_node t x = None" "get_node t2 x \<noteq> None" for x
    using assms(1,3) that unfolding replan_frame_def by metis
  ultimately show ?thesis using assms(3) by (simp add: replan_frame_def)
qed

lemma replan_effect:
  assumes "sound t" and "ids_unknown fresh t"
  obtains b t' where "replan pl fresh answer k t = (Inr b, t')" "replan_frame fresh k t t'"
proof (cases "get_node t k")
  case None
  show ?thesis by (rule that [OF _ replan_frame_refl [OF assms(1)]]) (simp only: replan_def None option.case)
next
  case (Some n)
  note put = replan_frame_put [OF assms(1) Some]
  note snd = relabelled_sound [OF relabelled_put [OF Some] assms(1)]
  let ?n1 = "n\<lparr>tn_retry_count := tn_retry_count n + 1, tn_status := T_RE_PLANNING\<rparr>"
  let ?t1 = "put_node k ?n1 t"
  have f1: "replan_frame fresh k t ?t1" by (rule put) (simp add: links_def)
  have "sound ?t1" "get_node ?t1 k = Some ?n1" "ids_unknown fresh ?t1"
    using f1 assms(2) Some by (auto simp: replan_frame_def ids_unknown_def)
  note ins = replan_frame_step [OF f1 _ insert_frame [OF this, of answer "room pl t"]]
  have ins': "replan_frame fresh k t (insert_subtasks fresh (accepted answer)
      (select_task_indices_within_budget (accepted answer) (room pl t)) k ?t1)" using ins Some by simp
  note e = replan_def [of pl fresh answer k t, unfolded Some option.case sound_assert [OF assms(1)] sum.case Let_def put_put]
  consider "tn_depth n \<ge> pl_max_depth pl \<or> int (length (tt_nodes t)) \<ge> pl_max_nodes pl"
    | "\<not> (tn_depth n \<ge> pl_max_depth pl \<or> int (length (tt_nodes t)) \<ge> pl_max_nodes pl)" "tn_retry_count n \<ge> pl_max_retries pl"
    | "\<not> (tn_depth n \<ge> pl_max_depth pl \<or> int (length (tt_nodes t)) \<ge> pl_max_nodes pl)" "\<not> tn_retry_count n \<ge> pl_max_retries pl"
    by blast
  then show ?thesis
  proof cases
    case 1
    show ?thesis by (rule that) (simp only: e 1 if_True, rule put, simp add: links_def)
  next
    case 2
    show ?thesis by (rule that) (simp only: e 2 if_True if_False, rule put, simp add: links_def)
  next
    case 3
    have a: "map_sum id f (assert_valid_plan x) = Inr (f ())" if "replan_frame fresh k t x" for f and x
      using that sound_assert by (simp add: replan_frame_def)
    consider "accepted answer = []" | "accepted answer \<noteq> []" "select_task_indices_within_budget (accepted answer) (room pl t) = []"
      | "accepted answer \<noteq> []" "select_task_indices_within_budget (accepted answer) (room pl t) \<noteq> []" by blast
    then show ?thesis
    proof cases
      case x: 1
      have p: "replan_frame fresh k t (put_node k (?n1\<lparr>tn_status := T_PENDING\<rparr>) t)" by (rule put) (simp add: links_def)
      show ?thesis by (rule that [OF _ p]) (simp only: e 3 x simp_thms if_True if_False a [OF p])
    next
      case x: 2
      have p: "replan_frame fresh k t (put_node k (?n1\<lparr>tn_status := T_CANCELLED, tn_error_history := tn_error_history ?n1 @
          [''Re-planning produced no dependency-closed tasks that fit the remaining node budget'']\<rparr>) t)"
        by (rule put) (simp add: links_def)
      show ?thesis by (rule that [OF _ p]) (simp only: e 3 x simp_thms if_True if_False a [OF p])
    next
      case x: 3
      show ?thesis by (rule that [OF _ ins']) (simp only: e 3 x if_False a [OF ins'])
    qed
  qed
qed

lemma sound_ids:
  assumes "sound t"
  shows "map tn_id (filter P (dict_values (tt_nodes t))) = map fst (filter (\<lambda>(k, n). P n) (tt_nodes t))"
proof -
  have "tn_id n = k" if "(k, n) \<in> set (tt_nodes t)" for k n
  proof -
    have "get_node t k = Some n" using entry_get assms that by (simp add: sound_def)
    then have "node_ok t k n" using assms by (simp add: sound_def plan_ok_def)
    then show ?thesis using node_ok_local by metis
  qed
  then have "map tn_id (filter P (map snd xs)) = map fst (filter (\<lambda>(k, n). P n) xs)" if "set xs \<subseteq> set (tt_nodes t)" for xs
    using that by (induction xs) auto
  then show ?thesis by (simp add: dict_values_def)
qed

lemma sound_ids_mem:
  assumes "sound t"
  shows "k \<in> set (map tn_id (filter P (dict_values (tt_nodes t)))) \<longleftrightarrow> (\<exists>n. get_node t k = Some n \<and> P n)"
  unfolding sound_ids [OF assms] using assms by (force simp: sound_def get_node_def dict_get_Some_iff)

lemma sound_ids_distinct:
  assumes "sound t"
  shows "distinct (map tn_id (filter P (dict_values (tt_nodes t))))"
  unfolding sound_ids [OF assms] using assms by (simp add: sound_def dict_wf_def distinct_map_filter)

lemma ids_with_mem: "sound t \<Longrightarrow> k \<in> set (ids_with s t) \<longleftrightarrow> has_status t s k"
  unfolding ids_with_def using sound_ids_mem by (simp add: has_status_iff)

lemma failed_ids_props:
  assumes "sound (gs_tree gs)"
  shows "distinct (failed_ids gs)" "k \<in> set (failed_ids gs) \<longleftrightarrow> has_status (gs_tree gs) T_FAILED k"
proof -
  have d: "distinct (ids_with T_FAILED (gs_tree gs))" unfolding ids_with_def by (rule sound_ids_distinct [OF assms])
  show "distinct (failed_ids gs)" using d by (simp add: failed_ids_def Let_def split: option.splits)
  show "k \<in> set (failed_ids gs) \<longleftrightarrow> has_status (gs_tree gs) T_FAILED k"
    using ids_with_mem [OF assms] by (auto simp: failed_ids_def Let_def has_status_iff split: option.splits)
qed

definition fresh_input :: "graph_input \<Rightarrow> task_tree \<Rightarrow> bool" where
  "fresh_input inp t = (ids_distinct (gi_fresh inp) \<and> (\<forall>k i. get_node t (fst (gi_fresh inp k i)) = None))"

lemma replan_all_effect:
  assumes "ids_distinct (gi_fresh inp)" and "sound t" and "distinct ks"
    and "\<forall>k \<in> set ks. \<forall>i. get_node t (fst (gi_fresh inp k i)) = None"
  shows "\<exists>t'. replan_all inp ks t = Inr t' \<and> sound t' \<and>
    (\<forall>x. x \<notin> set ks \<longrightarrow> get_node t x \<noteq> None \<longrightarrow> get_node t' x = get_node t x)"
  using assms(2-)
proof (induction ks arbitrary: t)
  case (Cons k ks)
  have inj: "inj (\<lambda>i. fst (gi_fresh inp k i))"
    using assms(1) by (auto simp: ids_distinct_def inj_def)
  then have unk: "ids_unknown (gi_fresh inp k) t" using Cons.prems(3) by (simp add: ids_unknown_def)
  obtain b t1 where r: "replan default_limits (gi_fresh inp k) (gi_answers inp k) k t = (Inr b, t1)"
      "replan_frame (gi_fresh inp k) k t t1"
    using replan_effect [OF Cons.prems(1) unk] by metis
  have "get_node t1 (fst (gi_fresh inp k' i)) = None" if k': "k' \<in> set ks" for k' i
  proof (rule ccontr)
    assume "get_node t1 (fst (gi_fresh inp k' i)) \<noteq> None"
    then obtain j where j: "fst (gi_fresh inp k' i) = fst (gi_fresh inp k j)"
      using r(2) Cons.prems(3) k' unfolding replan_frame_def by (metis list.set_intros(2))
    then have "(k', i) = (k, j)" by (intro injD [OF assms(1) [unfolded ids_distinct_def]]) simp
    then show False using Cons.prems(2) k' by simp
  qed
  then obtain t' where t': "replan_all inp ks t1 = Inr t'" "sound t'"
      "\<forall>x. x \<notin> set ks \<longrightarrow> get_node t1 x \<noteq> None \<longrightarrow> get_node t' x = get_node t1 x"
    using Cons.IH [of t1] r(2) Cons.prems(2) by (auto simp: replan_frame_def)
  have "get_node t' x = get_node t x" if "x \<notin> set (k # ks)" "get_node t x \<noteq> None" for x
    using t'(3) r(2) that by (simp add: replan_frame_def)
  then show ?case using r(1) t'(1,2) by simp
qed simp

section \<open>Steps of the graph\<close>

definition step_inv :: "graph_node \<Rightarrow> graph_state \<Rightarrow> bool" where
  "step_inv n gs =
     (n = N_Goal_Planner \<or>
      (sound (gs_tree gs) \<and>
       (n = N_Decomposer \<longrightarrow>
          (\<exists>r. get_node (gs_tree gs) (tt_goal_id (gs_tree gs)) = Some r \<and> is_leaf r \<and> tn_depth r = 0))))"

lemma route_next_sound:
  assumes "sound (gs_tree gs)"
  obtains d t' where "route_next cfg over gs = (Inr d, t')" "sound t'"
    "d \<in> {R_Synthesize, R_Error, R_Compress, R_Execute}"
proof (rule route_next_cases [OF assms, of cfg over])
  fix d t' assume r: "route_next cfg over gs = (Inr d, t')" "cascades (gs_tree gs) t'" "d \<in> {R_Synthesize, R_Error, R_Compress}"
  then show thesis using that relabelled_sound [OF relabelled_cascades assms] by blast
next
  fix ns t1 assume r: "route_next cfg over gs = (Inr R_Execute, fold (set_status T_RUNNING) (map tn_id ns) t1)"
      "cascades (gs_tree gs) t1"
  have "relabelled (gs_tree gs) (fold (set_status T_RUNNING) (map tn_id ns) t1)"
    by (rule relabelled_trans [OF relabelled_cascades [OF r(2)] relabelled_fold]) (rule relabelled_status)
  then show thesis using that [OF r(1)] relabelled_sound assms by blast
qed

lemma routed_inv:
  assumes "r = (Inr d, t')" and "sound t'" and "d \<notin> {R_Goal_Plan, R_Decompose}"
  shows "\<exists>n' gs'. route_on n r gs = Inr (n', gs') \<and> step_inv n' gs'"
proof -
  have "successor n d \<noteq> N_Decomposer" using assms(3) by (cases n; cases d) auto
  then show ?thesis using assms by (simp add: route_on_def step_inv_def)
qed

lemma route_next_inv:
  assumes "sound (gs_tree gs)"
  shows "\<exists>n' gs'. route_on n (route_next cfg over gs) gs = Inr (n', gs') \<and> step_inv n' gs'"
  using route_next_sound [OF assms, of cfg over] routed_inv [of _ _ _ n gs] by (metis empty_iff insert_iff route.distinct)

lemma after_validator_inv:
  assumes "sound (gs_tree gs)"
  shows "\<exists>n' gs'. route_on n (route_after_validator cfg over gs) gs = Inr (n', gs') \<and> step_inv n' gs'"
  using route_next_inv [OF assms] routed_inv [OF refl assms] by (auto simp: route_after_validator_def)

lemma after_reflection_inv:
  assumes "sound (gs_tree gs)"
  shows "\<exists>n' gs'. route_on n (route_after_reflection cfg over gs) gs = Inr (n', gs') \<and> step_inv n' gs'"
  using route_next_inv [OF assms] routed_inv [OF refl assms] by (auto simp: route_after_reflection_def)

lemma validator_relabels: "relabelled (gs_tree gs) (gs_tree (validator_node inp gs))"
proof -
  let ?ids = "filter (\<lambda>k. get_node (gs_tree gs) k \<noteq> None) (batch_ids gs)"
  have "relabelled (gs_tree gs) (fold (\<lambda>k. set_status (if gi_verdict inp k then T_PASSED else T_FAILED) k) ?ids (gs_tree gs))"
    by (rule relabelled_fold) (rule relabelled_status)
  then show ?thesis by (cases ?ids) (simp_all add: validator_node_def)
qed

lemma reflect_relabels: "relabelled (gs_tree gs) (gs_tree (reflect_task inp k gs))"
  by (auto simp: reflect_task_def Let_def relabelled_cancel split: prod.splits)

lemma give_up_relabels: "relabelled (gs_tree gs) (gs_tree (give_up_task cfg k gs))"
  by (simp add: give_up_task_def relabelled_cancel)

lemma fold_relabels:
  "(\<And>k gs. relabelled (gs_tree gs) (gs_tree (f k gs))) \<Longrightarrow> relabelled (gs_tree gs) (gs_tree (fold f ks gs))"
  by (induction ks arbitrary: gs) (auto intro: relabelled_trans)

lemma reflection_relabels: "relabelled (gs_tree gs) (gs_tree (reflection_node cfg inp gs))"
proof -
  have "relabelled (gs_tree (gs\<lparr>gs_error := None\<rparr>))
      (gs_tree (fold (if budget_exhausted cfg gs then give_up_task cfg else reflect_task inp) (ids_with T_FAILED (gs_tree gs)) (gs\<lparr>gs_error := None\<rparr>)))"
    by (rule fold_relabels) (simp add: reflect_relabels give_up_relabels)
  then show ?thesis by (simp add: reflection_node_def Let_def)
qed

lemma error_recovery_result:
  assumes "sound (gs_tree gs)"
  obtains gs' where "error_recovery_node gs = Inr gs'" "sound (gs_tree gs')" "gs_phase gs' = ''executing''"
    "\<And>x. gs_current gs \<noteq> Some x \<Longrightarrow> get_node (gs_tree gs') x = get_node (gs_tree gs) x \<or>
       (\<exists>n. get_node (gs_tree gs) x = Some n \<and> pending_leaf n \<and> get_node (gs_tree gs') x = Some (n\<lparr>tn_status := T_CANCELLED\<rparr>))"
proof (cases "gs_current gs = None \<or> gs_current gs = Some []")
  case True
  let ?gs = "gs\<lparr>gs_error := None, gs_phase := ''executing''\<rparr>"
  have "error_recovery_node gs = Inr ?gs" using True by (auto simp: error_recovery_node_def Let_def)
  then show ?thesis using that [of ?gs] assms by simp
next
  case False
  then obtain k where k: "gs_current gs = Some k" "k \<noteq> []" by auto
  define e where "e = (case gs_error gs of None \<Rightarrow> [] | Some e \<Rightarrow> e)"
  obtain a t where a: "handle_error k e (gs_tree gs) = (a, t)" by fastforce
  have st: "sound t" using relabelled_sound [OF relabelled_handle_error assms, of k e] a by simp
  have frame: "get_node t x = get_node (gs_tree gs) x" if "gs_current gs \<noteq> Some x" for x
  proof -
    have "x \<noteq> k" using that k by simp
    then show ?thesis using a by (auto simp: handle_error_def Let_def split: option.splits if_splits)
  qed
  note unf = error_recovery_node_def [of gs, unfolded Let_def k(1) option.case e_def [symmetric] a prod.case]
  show ?thesis
  proof (cases "a = Rec_Cancel")
    case False
    let ?gs = "gs\<lparr>gs_tree := t, gs_error := None, gs_phase := ''executing''\<rparr>"
    have "error_recovery_node gs = Inr ?gs" using unf k(2) False by (cases a) simp_all
    then show ?thesis using that [of ?gs] st frame by simp
  next
    case True
    obtain t' where t': "get_ready_tasks t = (Inr (sort_key ready_order (ready_nodes t)), t')" "cascades t t'"
      using sound_ready [OF st] by metis
    let ?gs = "gs\<lparr>gs_tree := t', gs_error := None, gs_phase := ''executing''\<rparr>"
    have "error_recovery_node gs = Inr ?gs" using unf k(2) True t'(1) new_scheduler_sound [OF st] by simp
    moreover have "sound t'" by (rule relabelled_sound [OF relabelled_cascades [OF t'(2)] st])
    moreover have "get_node t' x = get_node (gs_tree gs) x \<or>
       (\<exists>n. get_node (gs_tree gs) x = Some n \<and> pending_leaf n \<and> get_node t' x = Some (n\<lparr>tn_status := T_CANCELLED\<rparr>))"
      if "gs_current gs \<noteq> Some x" for x
      using cascades_cases [OF t'(2), of x] frame [OF that] by metis
    ultimately show ?thesis using that [of ?gs] by simp
  qed
qed

lemma re_planner_result:
  assumes "sound (gs_tree gs)" and "fresh_input inp (gs_tree gs)"
  obtains gs' where "re_planner_node inp gs = Inr gs'" "sound (gs_tree gs')"
    "\<And>x. get_node (gs_tree gs) x \<noteq> None \<Longrightarrow> \<not> has_status (gs_tree gs) T_FAILED x \<Longrightarrow>
       get_node (gs_tree gs') x = get_node (gs_tree gs) x"
proof -
  obtain t' where t': "replan_all inp (failed_ids gs) (gs_tree gs) = Inr t'" "sound t'"
      "\<forall>x. x \<notin> set (failed_ids gs) \<longrightarrow> get_node (gs_tree gs) x \<noteq> None \<longrightarrow> get_node t' x = get_node (gs_tree gs) x"
    using replan_all_effect [OF _ assms(1) failed_ids_props(1) [OF assms(1)], of inp] assms(2)
    by (auto simp: fresh_input_def)
  show ?thesis
    by (rule that [of "gs\<lparr>gs_tree := t', gs_parallel := [], gs_replans := gs_replans gs + int (length (failed_ids gs)),
          gs_phase := ''executing''\<rparr>"])
       (use t' failed_ids_props(2) [OF assms(1)] in \<open>simp_all add: re_planner_node_def\<close>)
qed

lemma decomposer_result:
  assumes "step_inv N_Decomposer gs" and "fresh_input inp (gs_tree gs)"
  obtains gs' where "decomposer_node inp gs = Inr gs'" "sound (gs_tree gs')"
proof -
  obtain r where r: "sound (gs_tree gs)" "get_node (gs_tree gs) (tt_goal_id (gs_tree gs)) = Some r" "is_leaf r" "tn_depth r = 0"
    using assms(1) by (auto simp: step_inv_def)
  obtain t' where t': "decompose default_limits (gi_answers inp) (gi_fresh inp) (gs_tree gs) = Inr t'"
      "grown default_limits (gi_fresh inp) {tt_goal_id (gs_tree gs)} (gs_tree gs) t'"
    using decompose_result [of "gi_fresh inp" "gs_tree gs" r default_limits "gi_answers inp"] r assms(2)
    unfolding sound_def fresh_input_def by metis
  have "sound t'" using t'(2) r(1) by (simp add: grown_def sound_def)
  then show ?thesis using that t'(1) by (simp add: decomposer_node_def)
qed

lemma goal_planner_inv: "step_inv N_Decomposer (goal_planner_node inp gs)"
proof -
  obtain rid title now where r: "gi_root inp = (rid, title, now)" by (cases "gi_root inp")
  let ?t = "gs_tree (goal_planner_node inp gs)"
  have g: "get_node ?t x = (if x = rid then Some (tn_created_at_update (\<lambda>_. now) (tn_title_update (\<lambda>_. title)
       (task rid T_PENDING None [] []))) else None)" for x
    by (simp add: goal_planner_node_def r get_node_def dict_get_def task_def)
  have gid: "tt_goal_id ?t = rid" by (simp add: goal_planner_node_def r)
  have keys: "dict_keys (tt_nodes ?t) = [rid]" by (simp add: goal_planner_node_def r dict_keys_def)
  have e: "child_rel ?t = {}" "dep_rel ?t = {}" by (auto simp: child_rel_def dep_rel_def g task_def split: if_splits)
  have "plan_ok ?t" unfolding plan_ok_def e gid keys
    by (auto simp: g gid task_def node_ok_def acyclic_def split: if_splits)
  moreover have "dict_wf (tt_nodes ?t)" by (simp add: goal_planner_node_def r dict_wf_def)
  ultimately show ?thesis using g gid by (simp add: step_inv_def sound_def is_leaf_def task_def)
qed

lemma graph_step_inv:
  assumes "step_inv n gs" and "fresh_input inp (gs_tree gs)"
  shows "\<exists>n' gs'. graph_step cfg inp n gs = Inr (n', gs') \<and> step_inv n' gs'"
proof (cases n)
  case N_Goal_Planner
  then show ?thesis using goal_planner_inv by simp
next
  case N_Decomposer
  then obtain gs' where d: "decomposer_node inp gs = Inr gs'" "sound (gs_tree gs')"
    using decomposer_result assms by metis
  then show ?thesis using N_Decomposer route_next_inv [OF d(2)] by simp
next
  case N_Validator
  then have "sound (gs_tree (validator_node inp gs))"
    using assms(1) relabelled_sound [OF validator_relabels] by (simp add: step_inv_def)
  then show ?thesis using N_Validator after_validator_inv by (simp add: Let_def)
next
  case N_Reflection
  then have "sound (gs_tree (reflection_node cfg inp gs))"
    using assms(1) relabelled_sound [OF reflection_relabels] by (simp add: step_inv_def)
  then show ?thesis using N_Reflection after_reflection_inv by (simp add: Let_def)
next
  case N_Re_Planner
  then have s: "sound (gs_tree gs)" using assms(1) by (simp add: step_inv_def)
  obtain gs' where d: "re_planner_node inp gs = Inr gs'" "sound (gs_tree gs')"
    using re_planner_result [OF s assms(2)] by metis
  then show ?thesis using N_Re_Planner route_next_inv [OF d(2)] by simp
next
  case N_Compressor
  then have "sound (gs_tree (compressor_node gs))" using assms(1) by (simp add: step_inv_def compressor_node_def)
  then show ?thesis using N_Compressor route_next_inv by (simp add: Let_def)
next
  case N_Error_Recovery
  then have s: "sound (gs_tree gs)" using assms(1) by (simp add: step_inv_def)
  obtain gs' where d: "error_recovery_node gs = Inr gs'" "sound (gs_tree gs')"
    using error_recovery_result [OF s] by metis
  then show ?thesis using N_Error_Recovery route_next_inv [OF d(2)] by simp
qed (use assms(1) in \<open>simp_all add: step_inv_def executor_node_def Let_def split: list.splits\<close>)

text \<open>Runs: every step gets an input whose ids are fresh for the plan it meets.\<close>

inductive graph_reaches :: "graph_config \<Rightarrow> graph_node \<Rightarrow> graph_state \<Rightarrow> graph_node \<Rightarrow> graph_state \<Rightarrow> bool"
  for cfg :: graph_config and n :: graph_node and gs :: graph_state where
  here: "graph_reaches cfg n gs n gs"
| further: "graph_reaches cfg n gs n1 gs1 \<Longrightarrow> fresh_input inp (gs_tree gs1) \<Longrightarrow>
     graph_step cfg inp n1 gs1 = Inr (n2, gs2) \<Longrightarrow> graph_reaches cfg n gs n2 gs2"

lemma reaches_inv: "graph_reaches cfg n gs n' gs' \<Longrightarrow> step_inv n gs \<Longrightarrow> step_inv n' gs'"
proof (induction rule: graph_reaches.induct)
  case (further n1 gs1 inp n2 gs2)
  then show ?case using graph_step_inv [of n1 gs1 inp cfg] by auto
qed

section \<open>A concrete run\<close>

text \<open>
  The goal is split into \<open>x\<close> and a task \<open>y\<close> that depends on it, and \<open>x\<close> into one sub-task; the
  models are content with every result.
\<close>

definition split_answers :: "string \<Rightarrow> sub_task list" where
  "split_answers k =
     (if k = ''goal'' then [sub ''x'' [], (sub ''y'' [0])\<lparr>st_is_atomic := True\<rparr>]
      else if k = ''.goal'' then [(sub ''x1'' [])\<lparr>st_is_atomic := True\<rparr>]
      else [])"

definition content_input :: graph_input where
  "content_input =
     \<lparr>gi_over_limit = False, gi_verdict = (\<lambda>_. True), gi_reflect = (\<lambda>_. (Retry, [])), gi_answers = split_answers,
      gi_fresh = slot_fresh, gi_root = (''goal'', ''goal'', 0)\<rparr>"

definition plain_config :: graph_config where
  "plain_config = \<lparr>gc_parallel = False, gc_max_parallel = 3, gc_max_compressions = 2, gc_max_replan_rounds = 8\<rparr>"

definition empty_graph :: graph_state where
  "empty_graph =
     \<lparr>gs_planned = False, gs_tree = plan_of [], gs_current = None, gs_parallel = [], gs_error = None, gs_phase = [],
      gs_action = None, gs_records = [], gs_compressions = 0, gs_replans = 0\<rparr>"

lemma slot_fresh_ids: "ids_distinct slot_fresh"
  unfolding ids_distinct_def inj_def using slot_fresh_inj by auto

lemma slot_fresh_names: "fst (slot_fresh k i) \<notin> {''goal'', ''a'', ''b''}"
  by (cases i) (auto simp: slot_fresh_def)

lemma content_input_fresh: "fresh_input content_input sample_plan"
proof -
  have "get_node sample_plan x = None" if "x \<notin> {''goal'', ''a'', ''b''}" for x
    using that by (simp add: sample_plan_def plan_of_def task_def get_node_def dict_get_def)
  then show ?thesis using slot_fresh_names slot_fresh_ids by (simp add: fresh_input_def content_input_def)
qed

theorem route_next_safe_witness:
  "\<exists>d t'. route_next plain_config False (empty_graph\<lparr>gs_tree := sample_plan\<rparr>) = (Inr d, t') \<and> plan_ok t'"
  using route_next_safe [of "empty_graph\<lparr>gs_tree := sample_plan\<rparr>" plain_config False] sample_plan_ok by auto



end
