(* ===== verification/Plan_Stall.thy ===== *)
theory Plan_Stall
  imports Plan_Graph_Correct
begin

text \<open>
  A dependency on a task that has sub-tasks. Nothing sets the status of such a task to passed, so
  the dependent task can never start, and error recovery is spent on a task that had passed.
\<close>

section \<open>Blocked tasks\<close>

definition parked :: "task_status \<Rightarrow> bool" where
  "parked s = (s = T_PENDING \<or> s = T_WAITING \<or> s = T_CANCELLED)"

text \<open>A leaf that is not started, one of whose dependencies has children and has not passed.\<close>

definition blocked :: "string \<Rightarrow> string \<Rightarrow> task_tree \<Rightarrow> bool" where
  "blocked k d t =
     (\<exists>n m. get_node t k = Some n \<and> is_leaf n \<and> parked (tn_status n) \<and> d \<in> set (tn_dependent_tasks n) \<and>
        get_node t d = Some m \<and> \<not> is_leaf m \<and> (parked (tn_status m) \<or> tn_status m = T_RE_PLANNING))"

lemma blocked_same:
  "blocked k d t \<Longrightarrow> get_node t' k = get_node t k \<Longrightarrow> get_node t' d = get_node t d \<Longrightarrow> blocked k d t'"
  by (simp add: blocked_def)

lemma blocked_statuses:
  "blocked k d t \<Longrightarrow> \<not> has_status t T_RUNNING k \<and> \<not> has_status t T_PASSED k \<and> \<not> has_status t T_FAILED k \<and>
     \<not> has_status t T_RUNNING d \<and> \<not> has_status t T_PASSED d \<and> \<not> has_status t T_FAILED d"
  by (auto simp: blocked_def has_status_iff parked_def)

lemma blocked_known: "blocked k d t \<Longrightarrow> get_node t k \<noteq> None \<and> get_node t d \<noteq> None"
  by (auto simp: blocked_def)

lemma blocked_cascades:
  assumes "blocked k d t" and "cascades t t'"
  shows "blocked k d t'"
proof -
  have d: "get_node t' d = get_node t d"
    by (rule cascades_cases [OF assms(2), of d]) (use assms(1) in \<open>auto simp: blocked_def pending_leaf_def\<close>)
  show ?thesis
  proof (rule cascades_cases [OF assms(2), of k])
    assume "get_node t' k = get_node t k"
    then show ?thesis using blocked_same [OF assms(1) _ d] by simp
  next
    fix n assume "get_node t k = Some n" "get_node t' k = Some (n\<lparr>tn_status := T_CANCELLED\<rparr>)"
    then show ?thesis using assms(1) d by (auto simp: blocked_def is_leaf_def parked_def)
  qed
qed

lemma blocked_handle_error:
  assumes "blocked k d t"
  shows "blocked k d (snd (handle_error x e t))"
proof -
  obtain n m where n: "get_node t k = Some n" "is_leaf n" "parked (tn_status n)" "d \<in> set (tn_dependent_tasks n)"
      "get_node t d = Some m" "\<not> is_leaf m" "parked (tn_status m) \<or> tn_status m = T_RE_PLANNING"
    using assms by (auto simp: blocked_def)
  then have "k \<noteq> d" by auto
  then show ?thesis using n by (auto simp: handle_error_def Let_def blocked_def is_leaf_def parked_def split: option.splits)
qed

lemma blocked_not_ready: "blocked k d t \<Longrightarrow> sound t \<Longrightarrow> k \<notin> tn_id ` set (ready_nodes t) \<and> d \<notin> tn_id ` set (ready_nodes t)"
proof -
  assume b: "blocked k d t" and s: "sound t"
  have "\<not> deps_passed t n" if "get_node t k = Some n" for n
    using that b blocked_statuses [OF b] by (auto simp: blocked_def deps_passed_def list_all_iff)
  moreover have "\<not> pending_leaf m" if "get_node t d = Some m" for m
    using that b by (auto simp: blocked_def pending_leaf_def)
  ultimately show ?thesis using ready_node_entry [OF s] by blast
qed

section \<open>Steps\<close>

lemma route_next_blocked:
  assumes "sound (gs_tree gs)" and "blocked k d (gs_tree gs)" and "route_next cfg over gs = (Inr r, t')"
  shows "blocked k d t'"
proof (rule route_next_cases [OF assms(1), of cfg over])
  fix r' t1 assume "route_next cfg over gs = (Inr r', t1)" "cascades (gs_tree gs) t1"
  then show ?thesis using blocked_cascades [OF assms(2)] assms(3) by simp
next
  fix ns t1 assume r: "route_next cfg over gs = (Inr R_Execute, fold (set_status T_RUNNING) (map tn_id ns) t1)"
    "cascades (gs_tree gs) t1" "set ns \<subseteq> set (ready_nodes (gs_tree gs))"
  have b: "blocked k d t1" by (rule blocked_cascades [OF assms(2) r(2)])
  have "k \<notin> set (map tn_id ns)" "d \<notin> set (map tn_id ns)"
    using blocked_not_ready [OF assms(2,1)] r(3) by auto
  then show ?thesis using blocked_same [OF b] r(1) assms(3) by (simp add: get_fold_status)
qed

lemma get_fold_other:
  "x \<notin> set ks \<Longrightarrow> get_node (fold (\<lambda>k. set_status (f k) k) ks t) x = get_node t x"
  by (induction ks arbitrary: t) (auto simp: get_set_status)

definition batch_running :: "graph_node \<Rightarrow> graph_state \<Rightarrow> bool" where
  "batch_running n gs =
     (n = N_Validator \<longrightarrow> list_all (\<lambda>k. get_node (gs_tree gs) k = None \<or> has_status (gs_tree gs) T_RUNNING k) (batch_ids gs))"

lemma validator_blocked:
  assumes "blocked k d (gs_tree gs)" and "batch_running N_Validator gs"
  shows "blocked k d (gs_tree (validator_node inp gs))"
proof -
  let ?ids = "filter (\<lambda>k. get_node (gs_tree gs) k \<noteq> None) (batch_ids gs)"
  have "has_status (gs_tree gs) T_RUNNING x" if "x \<in> set ?ids" for x
    using assms(2) that by (auto simp: batch_running_def list_all_iff)
  then have out: "k \<notin> set ?ids" "d \<notin> set ?ids" using blocked_statuses [OF assms(1)] by blast+
  have "blocked k d (fold (\<lambda>k. set_status (if gi_verdict inp k then T_PASSED else T_FAILED) k) ?ids (gs_tree gs))"
    by (rule blocked_same [OF assms(1) get_fold_other [OF out(1)] get_fold_other [OF out(2)]])
  then show ?thesis using assms(1) by (cases ?ids) (simp_all add: validator_node_def)
qed

lemma cancel_other: "x \<noteq> k \<Longrightarrow> get_node (cancel_task note k t) x = get_node t x"
  by (simp add: cancel_task_def split: option.splits)

lemma reflect_other: "x \<noteq> k \<Longrightarrow> get_node (gs_tree (reflect_task inp k gs)) x = get_node (gs_tree gs) x"
  by (simp add: reflect_task_def Let_def cancel_other split: prod.splits)

lemma give_up_other: "x \<noteq> k \<Longrightarrow> get_node (gs_tree (give_up_task cfg k gs)) x = get_node (gs_tree gs) x"
  by (simp add: give_up_task_def cancel_other)

lemma reflection_blocked:
  assumes "sound (gs_tree gs)" and "blocked k d (gs_tree gs)"
  shows "blocked k d (gs_tree (reflection_node cfg inp gs))"
proof -
  let ?f = "if budget_exhausted cfg gs then give_up_task cfg else reflect_task inp"
  have "get_node (gs_tree (fold ?f ks g)) x = get_node (gs_tree g) x" if "x \<notin> set ks" for x ks g
    using that by (induction ks arbitrary: g) (auto simp: reflect_other give_up_other)
  moreover have "k \<notin> set (ids_with T_FAILED (gs_tree gs))" "d \<notin> set (ids_with T_FAILED (gs_tree gs))"
    using ids_with_mem [OF assms(1)] blocked_statuses [OF assms(2)] by blast+
  ultimately show ?thesis using blocked_same [OF assms(2)] by (simp add: reflection_node_def Let_def)
qed

lemma error_recovery_blocked:
  assumes "sound (gs_tree gs)" and "blocked k d (gs_tree gs)" and "error_recovery_node gs = Inr gs'"
  shows "blocked k d (gs_tree gs')"
proof (cases "gs_current gs = None \<or> gs_current gs = Some []")
  case True
  then have "gs_tree gs' = gs_tree gs" using assms(3) by (auto simp: error_recovery_node_def Let_def)
  then show ?thesis using assms(2) by simp
next
  case False
  then obtain x where x: "gs_current gs = Some x" "x \<noteq> []" by auto
  define e where "e = (case gs_error gs of None \<Rightarrow> [] | Some e \<Rightarrow> e)"
  obtain a t where a: "handle_error x e (gs_tree gs) = (a, t)" by fastforce
  have st: "sound t" using relabelled_sound [OF relabelled_handle_error assms(1), of x e] a by simp
  have b: "blocked k d t" using blocked_handle_error [OF assms(2), of x e] a by simp
  note unf = assms(3) [unfolded error_recovery_node_def Let_def x(1) option.case e_def [symmetric] a prod.case]
  show ?thesis
  proof (cases "a = Rec_Cancel")
    case False
    then have "gs_tree gs' = t" using unf x(2) by (cases a) auto
    then show ?thesis using b by simp
  next
    case True
    obtain t' where t': "get_ready_tasks t = (Inr (sort_key ready_order (ready_nodes t)), t')" "cascades t t'"
      using sound_ready [OF st] by metis
    then have "gs_tree gs' = t'" using unf x(2) True new_scheduler_sound [OF st] by auto
    then show ?thesis using blocked_cascades [OF b t'(2)] by simp
  qed
qed

lemma routed_blocked:
  assumes "route_on n (r, t') gs = Inr (n', gs')" and "blocked k d t'"
  shows "blocked k d (gs_tree gs')"
  using assms by (auto simp: route_on_def split: sum.splits)

lemma successor_validator: "successor n r = N_Validator \<Longrightarrow> r = R_Validate"
  by (cases n; cases r) auto

text \<open>What the induction over a run carries along.\<close>

definition stall_inv :: "string \<Rightarrow> string \<Rightarrow> graph_node \<Rightarrow> graph_state \<Rightarrow> bool" where
  "stall_inv k d n gs =
     (n \<noteq> N_Goal_Planner \<and> n \<noteq> N_Decomposer \<and> sound (gs_tree gs) \<and> batch_running n gs \<and> blocked k d (gs_tree gs))"

lemma route_next_stall:
  assumes "sound (gs_tree gs)" and "blocked k d (gs_tree gs)" and "route_on n (route_next cfg over gs) gs = Inr (n', gs')"
  shows "stall_inv k d n' gs'"
proof -
  obtain r t' where r: "route_next cfg over gs = (Inr r, t')" "sound t'" "r \<in> {R_Synthesize, R_Error, R_Compress, R_Execute}"
    by (rule route_next_sound [OF assms(1)])
  then have g: "n' = successor n r" "gs_tree gs' = t'" using assms(3) by (auto simp: route_on_def)
  have "n' \<notin> {N_Goal_Planner, N_Decomposer, N_Validator}" unfolding g(1) using r(3) by (cases n) auto
  then show ?thesis
    using g r(2) route_next_blocked [OF assms(1,2) r(1)] by (simp add: stall_inv_def batch_running_def)
qed

lemma direct_stall:
  assumes "sound (gs_tree gs)" and "blocked k d (gs_tree gs)" and "route_on n (Inr r, gs_tree gs) gs = Inr (n', gs')"
    and "r \<in> {R_Reflect, R_Re_Plan, R_Error}"
  shows "stall_inv k d n' gs'"
proof -
  have g: "n' = successor n r" "gs_tree gs' = gs_tree gs" using assms(3) by (auto simp: route_on_def)
  have "n' \<notin> {N_Goal_Planner, N_Decomposer, N_Validator}" unfolding g(1) using assms(4) by (cases n) auto
  then show ?thesis using g assms(1,2) by (simp add: stall_inv_def batch_running_def)
qed

lemma executor_stall:
  assumes "sound (gs_tree gs)" and "blocked k d (gs_tree gs)"
  shows "stall_inv k d N_Validator (executor_node gs)"
proof -
  let ?P = "\<lambda>n. is_leaf n \<and> tn_status n = T_RUNNING"
  let ?ids = "map tn_id (filter ?P (dict_values (tt_nodes (gs_tree gs))))"
  have ids: "map tn_id (filter (\<lambda>n. tn_status n = T_RUNNING) (get_leaf_nodes (gs_tree gs))) = ?ids"
    by (simp add: get_leaf_nodes_def conj_commute)
  have run: "has_status (gs_tree gs) T_RUNNING x" if "x \<in> set ?ids" for x
    using that sound_ids_mem [OF assms(1), of x ?P] by (auto simp: has_status_iff)
  have t: "gs_tree (executor_node gs) = gs_tree gs" by (simp add: executor_node_def Let_def split: list.splits)
  have "set (batch_ids (executor_node gs)) \<subseteq> set ?ids"
    unfolding executor_node_def Let_def ids by (cases ?ids) (auto simp: batch_ids_def)
  then show ?thesis using assms run by (auto simp: stall_inv_def batch_running_def t list_all_iff)
qed

lemma step_stall:
  assumes "stall_inv k d n gs" and "fresh_input inp (gs_tree gs)" and "graph_step cfg inp n gs = Inr (n', gs')"
  shows "stall_inv k d n' gs'"
proof -
  have s: "sound (gs_tree gs)" and b: "blocked k d (gs_tree gs)" and r: "batch_running n gs"
    using assms(1) by (simp_all add: stall_inv_def)
  show ?thesis
  proof (cases n)
    case N_Executor
    then show ?thesis using executor_stall [OF s b] assms(3) by simp
  next
    case N_Validator
    let ?gs = "validator_node inp gs"
    have s': "sound (gs_tree ?gs)" by (rule relabelled_sound [OF validator_relabels s])
    have b': "blocked k d (gs_tree ?gs)" using validator_blocked [OF b] r N_Validator by simp
    show ?thesis
      using assms(3) N_Validator route_next_stall [OF s' b'] direct_stall [OF s' b', where r = R_Reflect]
      by (auto simp: route_after_validator_def Let_def split: if_splits)
  next
    case N_Reflection
    let ?gs = "reflection_node cfg inp gs"
    have s': "sound (gs_tree ?gs)" by (rule relabelled_sound [OF reflection_relabels s])
    have b': "blocked k d (gs_tree ?gs)" by (rule reflection_blocked [OF s b])
    show ?thesis
      using assms(3) N_Reflection route_next_stall [OF s' b'] direct_stall [OF s' b', where r = R_Re_Plan]
        direct_stall [OF s' b', where r = R_Error]
      by (auto simp: route_after_reflection_def Let_def split: if_splits)
  next
    case N_Re_Planner
    obtain g where g: "re_planner_node inp gs = Inr g" "sound (gs_tree g)"
      "\<And>x. get_node (gs_tree gs) x \<noteq> None \<Longrightarrow> \<not> has_status (gs_tree gs) T_FAILED x \<Longrightarrow>
         get_node (gs_tree g) x = get_node (gs_tree gs) x"
      using re_planner_result [OF s assms(2)] by metis
    have b': "blocked k d (gs_tree g)"
      using blocked_same [OF b] g(3) blocked_statuses [OF b] blocked_known [OF b] by blast
    show ?thesis using assms(3) N_Re_Planner g(1) route_next_stall [OF g(2) b'] by simp
  next
    case N_Compressor
    have "gs_tree (compressor_node gs) = gs_tree gs" by (simp add: compressor_node_def)
    then show ?thesis using assms(3) N_Compressor route_next_stall [of "compressor_node gs"] s b by (simp add: Let_def)
  next
    case N_Error_Recovery
    obtain g where g: "error_recovery_node gs = Inr g" "sound (gs_tree g)" using error_recovery_result [OF s] by metis
    show ?thesis
      using assms(3) N_Error_Recovery g(1) route_next_stall [OF g(2) error_recovery_blocked [OF s b g(1)]] by simp
  qed (use assms in \<open>auto simp: stall_inv_def batch_running_def\<close>)
qed

lemma reaches_stall: "graph_reaches cfg n gs n' gs' \<Longrightarrow> stall_inv k d n gs \<Longrightarrow> stall_inv k d n' gs'"
proof (induction rule: graph_reaches.induct)
  case (further n1 gs1 inp n2 gs2)
  then show ?case using step_stall by blast
qed

text \<open>
  C10. A task that depends on a task with sub-tasks never runs: however the run goes on, whatever
  the sub-tasks do and whatever the models answer, it is never running, passed or failed, because
  nothing but the validation of its own execution lets the dependency pass.
\<close>

theorem blocked_task_never_runs:
  assumes "n \<notin> {N_Goal_Planner, N_Decomposer, N_Validator}" and "plan_ok (gs_tree gs)" and "dict_wf (tt_nodes (gs_tree gs))"
    and "blocked k d (gs_tree gs)" and "graph_reaches cfg n gs n' gs'"
  shows "\<not> has_status (gs_tree gs') T_RUNNING k \<and> \<not> has_status (gs_tree gs') T_PASSED k \<and> \<not> has_status (gs_tree gs') T_FAILED k"
proof -
  have "stall_inv k d n gs" using assms(1-4) by (simp add: stall_inv_def batch_running_def sound_def)
  then have "blocked k d (gs_tree gs')" using reaches_stall [OF assms(5)] unfolding stall_inv_def by blast
  then show ?thesis using blocked_statuses by blast
qed

section \<open>A run\<close>

definition status_of :: "task_tree \<Rightarrow> string \<Rightarrow> task_status option" where
  "status_of t k = map_option tn_status (get_node t k)"

definition run_shows :: "nat \<Rightarrow> (graph_node \<Rightarrow> graph_state \<Rightarrow> bool) \<Rightarrow> bool" where
  "run_shows n P =
     (case graph_run plain_config (replicate n content_input) N_Goal_Planner empty_graph of
        Inl _ \<Rightarrow> False | Inr (nd, gs) \<Rightarrow> P nd gs)"

text \<open>The plan after decomposition: \<open>y\<close> depends on \<open>x\<close>, which has become an inner node.\<close>

definition split_state :: graph_state where
  "split_state =
     (case graph_run plain_config (replicate 2 content_input) N_Goal_Planner empty_graph of
        Inl _ \<Rightarrow> empty_graph | Inr (_, gs) \<Rightarrow> gs)"

lemma split_state_blocked:
  "validate_plan (gs_tree split_state) = Some []" "distinct (map fst (tt_nodes (gs_tree split_state)))"
  "map_option tn_dependent_tasks (get_node (gs_tree split_state) ''s.goal'') = Some [''.goal'']"
  "map_option tn_children_ids (get_node (gs_tree split_state) ''s.goal'') = Some []"
  "status_of (gs_tree split_state) ''s.goal'' = Some T_PENDING"
  "map_option is_leaf (get_node (gs_tree split_state) ''.goal'') = Some False"
  "status_of (gs_tree split_state) ''.goal'' = Some T_PENDING"
  by code_simp+

theorem blocked_task_never_runs_witness:
  "\<not> has_status (gs_tree split_state) T_RUNNING ''s.goal'' \<and> \<not> has_status (gs_tree split_state) T_PASSED ''s.goal'' \<and>
   \<not> has_status (gs_tree split_state) T_FAILED ''s.goal''"
proof (rule blocked_task_never_runs [where n = N_Executor and gs = split_state and d = "''.goal''" and cfg = plain_config])
  show wf: "dict_wf (tt_nodes (gs_tree split_state))" using split_state_blocked(2) by (simp add: dict_wf_def)
  show "plan_ok (gs_tree split_state)" using validate_plan_iff [OF wf] split_state_blocked(1) by simp
  show "blocked ''s.goal'' ''.goal'' (gs_tree split_state)"
    using split_state_blocked(3-7) by (auto simp: blocked_def status_of_def is_leaf_def parked_def)
  show "graph_reaches plain_config N_Executor split_state N_Executor split_state" by (rule graph_reaches.here)
qed simp

text \<open>
  A plan that stalls: with a goal split into x and y, where y depends on x and x is split in
  turn, the only sub-task of x runs and passes its validation. The router then finds nothing to
  run and goes to error recovery, which resets that passed task for a retry; after the third it
  marks it as cancelled and the run ends, with y still pending and nothing synthesised, although
  every task that ran had passed.
\<close>

theorem split_dependency_stalls:
  "run_shows 4 (\<lambda>nd gs. nd = N_Error_Recovery \<and> status_of (gs_tree gs) ''..goal'' = Some T_PASSED \<and>
     status_of (gs_tree gs) ''s.goal'' = Some T_PENDING) \<and>
   run_shows 5 (\<lambda>nd gs. nd = N_Executor \<and> status_of (gs_tree gs) ''..goal'' = Some T_RUNNING) \<and>
   run_shows 14 (\<lambda>nd gs. nd = N_End \<and> status_of (gs_tree gs) ''..goal'' = Some T_CANCELLED \<and>
     status_of (gs_tree gs) ''s.goal'' = Some T_PENDING \<and> gs_phase gs = ''executing'')"
  by code_simp

end
