(* ===== verification/Tool_Journal.thy ===== *)
theory Tool_Journal
  imports PyDict Machine "HOL-Library.List_Lexorder" "HOL-Library.Char_ord"
    "HOL-Library.Product_Lexorder"
begin

text \<open>
  \<open>execution/tool_journal.py\<close>: the crash-safe journal that grants a mutating tool call at most
  once. The journal directory is a dict from attempt ids (the stem of \<open>att_*.json\<close>) to file
  contents, in the order in which the directory is listed. A file is \<open>Unreadable\<close> when it cannot
  be read, is not JSON, or lacks a required field or has one of the wrong type; every other file
  is a \<open>Document\<close>, which may still fail the value checks of \<open>_validate_document\<close>. Each operation
  takes the timestamp it reads from the clock and, where it takes the interprocess lock, what the
  successive attempts to lock find. SHA-256 (\<open>sha\<close>) and the three redaction substitutions of
  \<open>_clean_result\<close> (\<open>redact\<close>) are arguments.
\<close>

section \<open>Errors, calls and reservations\<close>

datatype journal_error =
    JValueError string
  | JCorruptionError string
  | JStateError string
  | JBusyError string

definition JOURNAL_VERSION :: int where "JOURNAL_VERSION = 1"
definition JOURNAL_LOCK_RETRIES :: nat where "JOURNAL_LOCK_RETRIES = 5"

record journal_call =
  jc_key :: string
  jc_tool :: string
  jc_args_digest :: string
  jc_ordinal :: int

datatype journal_reservation = Execute | Reuse string | Uncertain

datatype entry_status = EntryPending | EntryCompleted | EntryFailed

record journal_entry =
  je_status :: entry_status
  je_tool :: string
  je_args_digest :: string
  je_ordinal :: int
  je_created_at :: string
  je_completed_at :: "string option"
  je_result :: "string option"

record journal_doc =
  jd_version :: int
  jd_attempt_id :: string
  jd_checkpoint_id :: "string option"
  jd_created_at :: string
  jd_updated_at :: string
  jd_completed :: bool
  jd_completed_at :: "string option"
  jd_poisoned :: bool
  jd_entries :: "(string, journal_entry) pydict"

datatype journal_file = Unreadable | Document journal_doc

record tool_journal =
  tj_files :: "(string, journal_file) pydict"
  tj_retention_limit :: int
  tj_max_result_chars :: int

section \<open>Identifiers and keys\<close>

definition is_hex :: "char \<Rightarrow> bool" where
  "is_hex c = ((48 \<le> code_point c \<and> code_point c \<le> 57) \<or> (97 \<le> code_point c \<and> code_point c \<le> 102))"

text \<open>The same test on the bits of the character, for evaluation.\<close>

lemma is_hex_Char [code]:
  "is_hex (Char b0 b1 b2 b3 b4 b5 b6 b7) =
     (\<not> b7 \<and> b5 \<and>
      (if b6 then \<not> b4 \<and> \<not> b3 \<and> (b0 \<or> b1 \<or> b2) \<and> \<not> (b0 \<and> b1 \<and> b2)
       else b4 \<and> (\<not> b3 \<or> \<not> b2 \<and> \<not> b1)))"
  by (cases b0; cases b1; cases b2; cases b3; cases b4; cases b5; cases b6; cases b7;
      simp add: is_hex_def code_point_def of_char_def)

definition tagged_hex :: "string \<Rightarrow> nat \<Rightarrow> string \<Rightarrow> bool" where
  "tagged_hex tag n s =
     (starts_with s tag \<and> length s = length tag + n \<and> list_all is_hex (drop (length tag) s))"

definition is_attempt_id :: "string \<Rightarrow> bool" where
  "is_attempt_id s = tagged_hex ''att_'' 32 s"

definition is_call_key :: "string \<Rightarrow> bool" where
  "is_call_key s = tagged_hex ''call_'' 64 s"

definition is_checkpoint_id :: "string \<Rightarrow> bool" where
  "is_checkpoint_id s = tagged_hex ''cp_'' 32 s"

definition is_remote_call_id :: "string \<Rightarrow> bool" where
  "is_remote_call_id s = tagged_hex ''call_'' 32 s"

definition validate_attempt_id :: "string \<Rightarrow> (journal_error, string) result" where
  "validate_attempt_id s =
     (if is_attempt_id s then Inr s else Inl (JValueError ''Invalid attempt_id''))"

text \<open>\<open>json.dumps\<close> of a string, ASCII only, and of the key material.\<close>

definition hex_digit :: "nat \<Rightarrow> char" where
  "hex_digit d = (if d < 10 then char_of (48 + d) else char_of (87 + d))"

definition json_char :: "char \<Rightarrow> string" where
  "json_char c =
     (let n = code_point c in
      if n = 34 then [char_of (92::nat), char_of (34::nat)]
      else if n = 92 then [char_of (92::nat), char_of (92::nat)]
      else if n = 8 then char_of (92::nat) # ''b''
      else if n = 9 then char_of (92::nat) # ''t''
      else if n = 10 then char_of (92::nat) # ''n''
      else if n = 12 then char_of (92::nat) # ''f''
      else if n = 13 then char_of (92::nat) # ''r''
      else if n < 32 \<or> 126 < n then
        char_of (92::nat) # ''u00'' @ [hex_digit (n div 16), hex_digit (n mod 16)]
      else [c])"

definition json_string :: "string \<Rightarrow> string" where
  "json_string s = CHR 34 # concat (map json_char s) @ [CHR 34]"

definition key_material :: "string \<Rightarrow> string \<Rightarrow> int \<Rightarrow> string" where
  "key_material tool digest ordinal =
     ''['' @ json_string (lower (strip tool)) @ '','' @ json_string digest @ '','' @
     str_int ordinal @ '']''"

definition stable_call_key :: "(string \<Rightarrow> string) \<Rightarrow> string \<Rightarrow> string \<Rightarrow> int \<Rightarrow> string" where
  "stable_call_key sha tool digest ordinal = ''call_'' @ sha (key_material tool digest ordinal)"

definition remote_call_key :: "(string \<Rightarrow> string) \<Rightarrow> string \<Rightarrow> (journal_error, string) result" where
  "remote_call_key sha call_id =
     (if is_remote_call_id call_id then Inr (''call_'' @ sha call_id)
      else Inl (JValueError ''Invalid remote call_id''))"

definition remote_checkpoint_id :: "(string \<Rightarrow> string) \<Rightarrow> string \<Rightarrow> (journal_error, string) result" where
  "remote_checkpoint_id sha run_id =
     (if run_id = [] \<or> char_of (0::nat) \<in> set run_id then Inl (JValueError ''invalid run_id'')
      else Inr (''cp_'' @ take 32 (sha run_id)))"

text \<open>\<open>re.sub(r"[^A-Za-z0-9_.-]+", "_", s)\<close>: each maximal run of other characters becomes one
  underscore.\<close>

definition tool_name_char :: "char \<Rightarrow> bool" where
  "tool_name_char c =
     (let n = code_point c in
      (65 \<le> n \<and> n \<le> 90) \<or> (97 \<le> n \<and> n \<le> 122) \<or> (48 \<le> n \<and> n \<le> 57) \<or> c \<in> set ''_.-'')"

fun squash_runs :: "bool \<Rightarrow> string \<Rightarrow> string" where
  "squash_runs inrun [] = []"
| "squash_runs inrun (c # s) =
     (if tool_name_char c then c # squash_runs False s
      else if inrun then squash_runs True s
      else CHR ''_'' # squash_runs True s)"

definition safe_tool_name :: "string \<Rightarrow> string" where
  "safe_tool_name name =
     (let cleaned = squash_runs False (lower (strip name)) in
      take 80 (if cleaned = [] then ''unknown'' else cleaned))"

section \<open>Results\<close>

definition printable :: "char \<Rightarrow> bool" where
  "printable c = (code_point c \<in> {9, 10, 13} \<or> 32 \<le> code_point c)"

definition truncate_result :: "int \<Rightarrow> string \<Rightarrow> string" where
  "truncate_result max_chars s =
     (if int (length s) \<le> max_chars then s
      else
        let head = max_chars * 2 div 3; tl = max_chars - head in
        take (nat head) s @
        [CHR 10] @ ''[journal result truncated: '' @ str_int (int (length s) - max_chars) @
        '' chars omitted]'' @ [CHR 10] @
        drop (length s - nat tl) s)"

definition clean_result :: "(string \<Rightarrow> string) \<Rightarrow> int \<Rightarrow> string \<Rightarrow> string" where
  "clean_result redact max_chars s = truncate_result max_chars (redact (filter printable s))"

section \<open>The request-local call allocator\<close>

record journal_binding =
  jb_attempt_id :: string
  jb_checkpoint_id :: "string option"
  jb_remote_call_id :: "string option"
  jb_ordinals :: "(string \<times> string, nat) pydict"

definition new_binding ::
  "(string \<Rightarrow> string) \<Rightarrow> string \<Rightarrow> string option \<Rightarrow> string option \<Rightarrow>
   (journal_error, journal_binding) result" where
  "new_binding sha attempt_id checkpoint_id remote_call_id =
     bind_result (validate_attempt_id attempt_id) (\<lambda>a.
       if checkpoint_id \<noteq> None \<and> \<not> is_checkpoint_id (the checkpoint_id) then
         Inl (JValueError ''Invalid checkpoint_id'')
       else
         bind_result
           (case remote_call_id of None \<Rightarrow> Inr [] | Some r \<Rightarrow> remote_call_key sha r)
           (\<lambda>_. Inr \<lparr>jb_attempt_id = a, jb_checkpoint_id = checkpoint_id,
                     jb_remote_call_id = remote_call_id, jb_ordinals = []\<rparr>))"

text \<open>\<open>digest\<close> is \<open>arguments_digest\<close> of the call's arguments.\<close>

definition next_call ::
  "(string \<Rightarrow> string) \<Rightarrow> string \<Rightarrow> string \<Rightarrow> journal_binding \<Rightarrow>
   (journal_error, journal_call, journal_binding) outcome" where
  "next_call sha tool digest b =
     (let canonical_tool = lower (strip tool) in
      case jb_remote_call_id b of
        Some r \<Rightarrow>
          (bind_result (remote_call_key sha r) (\<lambda>key.
             Inr \<lparr>jc_key = key, jc_tool = canonical_tool, jc_args_digest = digest,
                  jc_ordinal = 0\<rparr>), b)
      | None \<Rightarrow>
          let signature = (canonical_tool, digest);
              ordinal = dict_get_or (jb_ordinals b) signature 0 in
          (Inr \<lparr>jc_key = stable_call_key sha canonical_tool digest (int ordinal),
                jc_tool = canonical_tool, jc_args_digest = digest, jc_ordinal = int ordinal\<rparr>,
           b\<lparr>jb_ordinals := dict_set signature (ordinal + 1) (jb_ordinals b)\<rparr>))"

section \<open>Documents\<close>

definition new_tool_journal :: "int \<Rightarrow> int \<Rightarrow> (journal_error, tool_journal) result" where
  "new_tool_journal retention_limit max_result_chars =
     (if retention_limit < 1 then
        Inl (JValueError ''retention_limit must be a positive integer'')
      else if max_result_chars < 1000 then
        Inl (JValueError ''max_result_chars must be an integer >= 1000'')
      else Inr \<lparr>tj_files = [], tj_retention_limit = retention_limit,
                tj_max_result_chars = max_result_chars\<rparr>)"

definition new_document :: "string \<Rightarrow> string \<Rightarrow> string option \<Rightarrow> journal_doc" where
  "new_document now attempt_id checkpoint_id =
     \<lparr>jd_version = JOURNAL_VERSION, jd_attempt_id = attempt_id, jd_checkpoint_id = checkpoint_id,
      jd_created_at = now, jd_updated_at = now, jd_completed = False, jd_completed_at = None,
      jd_poisoned = False, jd_entries = []\<rparr>"

definition valid_entry :: "string \<times> journal_entry \<Rightarrow> bool" where
  "valid_entry p =
     (is_call_key (fst p) \<and> tagged_hex [] 64 (je_args_digest (snd p)) \<and>
      0 \<le> je_ordinal (snd p) \<and>
      (je_status (snd p) = EntryCompleted \<longrightarrow> je_result (snd p) \<noteq> None))"

definition valid_document :: "string \<Rightarrow> journal_doc \<Rightarrow> bool" where
  "valid_document expected_attempt d =
     (jd_version d = JOURNAL_VERSION \<and> jd_attempt_id d = expected_attempt \<and>
      is_attempt_id (jd_attempt_id d) \<and>
      (jd_checkpoint_id d = None \<or> is_checkpoint_id (the (jd_checkpoint_id d))) \<and>
      list_all valid_entry (jd_entries d))"

text \<open>\<open>_validate_document\<close> of the parsed file: \<open>None\<close> for the exceptions that \<open>_read\<close> takes for
  corruption.\<close>

definition load_document :: "string \<Rightarrow> journal_file \<Rightarrow> journal_doc option" where
  "load_document stem f =
     (case f of Unreadable \<Rightarrow> None
      | Document d \<Rightarrow> if valid_document stem d then Some d else None)"

definition write_document :: "string \<Rightarrow> journal_doc \<Rightarrow> tool_journal \<Rightarrow> tool_journal" where
  "write_document stem d J = J\<lparr>tj_files := dict_set stem (Document d) (tj_files J)\<rparr>"

definition read_document ::
  "string \<Rightarrow> string \<Rightarrow> string option \<Rightarrow> bool \<Rightarrow> tool_journal \<Rightarrow>
   (journal_error, journal_doc option, tool_journal) outcome" where
  "read_document now stem poison_checkpoint_id allow_poison J =
     (case dict_get (tj_files J) stem of
        None \<Rightarrow> (Inr None, J)
      | Some f \<Rightarrow>
          (case load_document stem f of
             Some d \<Rightarrow>
               if jd_poisoned d \<and> \<not> allow_poison then
                 (Inl (JCorruptionError ''tool journal is poisoned''), J)
               else (Inr (Some d), J)
           | None \<Rightarrow>
               (Inl (JCorruptionError ''tool journal is corrupt''),
                write_document stem
                  ((new_document now stem poison_checkpoint_id)\<lparr>jd_poisoned := True\<rparr>) J)))"

section \<open>Pruning and the orphan check\<close>

text \<open>The loop of \<open>_prune_locked\<close> over the listed files: the readable ones counted, the sealed
  ones collected with their last update.\<close>

fun scan_attempts ::
  "string \<Rightarrow> string list \<Rightarrow> tool_journal \<Rightarrow> (string \<times> string) list \<Rightarrow> nat \<Rightarrow>
   ((string \<times> string) list \<times> nat) \<times> tool_journal" where
  "scan_attempts now [] J done tot = ((done, tot), J)"
| "scan_attempts now (p # ps) J done tot =
     (case read_document now p None False J of
        (Inl e, J') \<Rightarrow> scan_attempts now ps J' done tot
      | (Inr None, J') \<Rightarrow> scan_attempts now ps J' done tot
      | (Inr (Some d), J') \<Rightarrow>
          scan_attempts now ps J'
            (if jd_completed d then done @ [(jd_updated_at d, p)] else done) (tot + 1))"

definition unlink_all :: "string list \<Rightarrow> tool_journal \<Rightarrow> tool_journal" where
  "unlink_all ps J = J\<lparr>tj_files := fold dict_del ps (tj_files J)\<rparr>"

definition prune_locked :: "string \<Rightarrow> tool_journal \<Rightarrow> tool_journal" where
  "prune_locked now J =
     (case scan_attempts now (dict_keys (tj_files J)) J [] 0 of
        ((done, tot), J') \<Rightarrow>
          let excess = int tot - tj_retention_limit J' in
          if excess \<le> 0 then J'
          else unlink_all (map snd (take (nat excess) (sort done))) J')"

fun orphan_scan ::
  "string \<Rightarrow> string \<Rightarrow> string \<Rightarrow> string list \<Rightarrow> tool_journal \<Rightarrow>
   (journal_error, unit, tool_journal) outcome" where
  "orphan_scan now attempt_id cp [] J = (Inr (), J)"
| "orphan_scan now attempt_id cp (p # ps) J =
     (if p = attempt_id then orphan_scan now attempt_id cp ps J
      else
        case read_document now p None True J of
          (Inl e, J') \<Rightarrow> (Inl e, J')
        | (Inr None, J') \<Rightarrow> orphan_scan now attempt_id cp ps J'
        | (Inr (Some d), J') \<Rightarrow>
            if jd_poisoned d then
              if jd_checkpoint_id d = Some cp then
                (Inl (JCorruptionError ''an earlier checkpoint journal is poisoned''), J')
              else orphan_scan now attempt_id cp ps J'
            else if jd_checkpoint_id d = Some cp \<and> \<not> jd_completed d then
              (Inl (JStateError ''an earlier checkpoint attempt has unresolved journal state''), J')
            else orphan_scan now attempt_id cp ps J')"

definition assert_no_orphan_attempt ::
  "string \<Rightarrow> string \<Rightarrow> string option \<Rightarrow> tool_journal \<Rightarrow>
   (journal_error, unit, tool_journal) outcome" where
  "assert_no_orphan_attempt now attempt_id checkpoint_id J =
     (case checkpoint_id of
        None \<Rightarrow> (Inr (), J)
      | Some cp \<Rightarrow>
          if \<not> is_checkpoint_id cp then (Inl (JValueError ''Invalid checkpoint_id''), J)
          else orphan_scan now attempt_id cp (dict_keys (tj_files J)) J)"

section \<open>The interprocess lock\<close>

text \<open>\<open>busy k\<close>: the lock is held by another process at the \<open>k\<close>-th attempt to take it. \<open>reserve\<close> and
  \<open>complete\<close> try \<open>_JOURNAL_LOCK_RETRIES\<close> times, the other operations once.\<close>

definition lock_acquired :: "nat \<Rightarrow> (nat \<Rightarrow> bool) \<Rightarrow> bool" where
  "lock_acquired tries busy = list_ex (\<lambda>k. \<not> busy k) [0..<tries]"

definition with_lock ::
  "nat \<Rightarrow> (nat \<Rightarrow> bool) \<Rightarrow> (tool_journal \<Rightarrow> (journal_error, 'a, tool_journal) outcome) \<Rightarrow>
   tool_journal \<Rightarrow> (journal_error, 'a, tool_journal) outcome" where
  "with_lock tries busy body J =
     (if lock_acquired tries busy then body J
      else (Inl (JBusyError ''tool journal is busy''), J))"

section \<open>Reserving and committing a call\<close>

definition same_pending_action :: "journal_call \<Rightarrow> journal_entry \<Rightarrow> bool" where
  "same_pending_action c e =
     (je_status e = EntryPending \<and> je_tool e = safe_tool_name (jc_tool c) \<and>
      je_args_digest e = jc_args_digest c)"

definition pending_entry :: "string \<Rightarrow> journal_call \<Rightarrow> journal_entry" where
  "pending_entry now c =
     \<lparr>je_status = EntryPending, je_tool = safe_tool_name (jc_tool c),
      je_args_digest = jc_args_digest c, je_ordinal = jc_ordinal c, je_created_at = now,
      je_completed_at = None, je_result = None\<rparr>"

text \<open>The decision of \<open>reserve\<close> on the document it read, and the document after a grant.\<close>

definition reserve_in_document ::
  "string \<Rightarrow> journal_call \<Rightarrow> journal_doc \<Rightarrow>
   (journal_error, journal_reservation \<times> journal_doc) result" where
  "reserve_in_document now c d =
     (case dict_get (jd_entries d) (jc_key c) of
        Some e \<Rightarrow>
          if je_status e = EntryCompleted then Inr (Reuse (the (je_result e)), d)
          else Inr (Uncertain, d)
      | None \<Rightarrow>
          if list_ex (same_pending_action c) (dict_values (jd_entries d)) then Inr (Uncertain, d)
          else if jd_completed d then Inl (JStateError ''cannot add a call to a sealed attempt'')
          else Inr (Execute,
                    d\<lparr>jd_entries := dict_set (jc_key c) (pending_entry now c) (jd_entries d),
                      jd_updated_at := now\<rparr>))"

definition reserve_body ::
  "string \<Rightarrow> string \<Rightarrow> journal_call \<Rightarrow> string option \<Rightarrow> tool_journal \<Rightarrow>
   (journal_error, journal_reservation, tool_journal) outcome" where
  "reserve_body now attempt_id c checkpoint_id J =
     (case assert_no_orphan_attempt now attempt_id checkpoint_id J of
        (Inl e, J1) \<Rightarrow> (Inl e, J1)
      | (Inr _, J1) \<Rightarrow>
          (case read_document now attempt_id checkpoint_id False J1 of
             (Inl e, J2) \<Rightarrow> (Inl e, J2)
           | (Inr found, J2) \<Rightarrow>
               let d = (case found of None \<Rightarrow> new_document now attempt_id checkpoint_id | Some d \<Rightarrow> d) in
               if jd_checkpoint_id d \<noteq> checkpoint_id then
                 (Inl (JStateError ''journal checkpoint scope changed''), J2)
               else
                 (case reserve_in_document now c d of
                    Inl e \<Rightarrow> (Inl e, J2)
                  | Inr (Execute, d') \<Rightarrow>
                      (Inr Execute, prune_locked now (write_document attempt_id d' J2))
                  | Inr (r, d') \<Rightarrow> (Inr r, J2))))"

definition journal_reserve ::
  "string \<Rightarrow> (nat \<Rightarrow> bool) \<Rightarrow> string \<Rightarrow> journal_call \<Rightarrow> string option \<Rightarrow> tool_journal \<Rightarrow>
   (journal_error, journal_reservation, tool_journal) outcome" where
  "journal_reserve now busy attempt_id c checkpoint_id J =
     (if \<not> is_call_key (jc_key c) then (Inl (JValueError ''Invalid journal call key''), J)
      else
        case validate_attempt_id attempt_id of
          Inl e \<Rightarrow> (Inl e, J)
        | Inr _ \<Rightarrow>
            with_lock JOURNAL_LOCK_RETRIES busy (reserve_body now attempt_id c checkpoint_id) J)"

definition commit_entry :: "string \<Rightarrow> string \<Rightarrow> journal_entry \<Rightarrow> journal_entry" where
  "commit_entry now cleaned e =
     e\<lparr>je_status := EntryCompleted, je_completed_at := Some now, je_result := Some cleaned\<rparr>"

definition complete_body ::
  "(string \<Rightarrow> string) \<Rightarrow> string \<Rightarrow> string \<Rightarrow> journal_call \<Rightarrow> string \<Rightarrow> tool_journal \<Rightarrow>
   (journal_error, string, tool_journal) outcome" where
  "complete_body redact now attempt_id c res J =
     (case read_document now attempt_id None False J of
        (Inl e, J1) \<Rightarrow> (Inl e, J1)
      | (Inr None, J1) \<Rightarrow> (Inl (JStateError ''pending journal entry is missing''), J1)
      | (Inr (Some d), J1) \<Rightarrow>
          (case dict_get (jd_entries d) (jc_key c) of
             None \<Rightarrow> (Inl (JStateError ''call is not pending''), J1)
           | Some e \<Rightarrow>
               if je_status e \<noteq> EntryPending then (Inl (JStateError ''call is not pending''), J1)
               else
                 let cleaned = clean_result redact (tj_max_result_chars J1) res in
                 (Inr cleaned,
                  write_document attempt_id
                    (d\<lparr>jd_entries := dict_set (jc_key c) (commit_entry now cleaned e) (jd_entries d),
                       jd_updated_at := now\<rparr>) J1)))"

definition journal_complete ::
  "(string \<Rightarrow> string) \<Rightarrow> string \<Rightarrow> (nat \<Rightarrow> bool) \<Rightarrow> string \<Rightarrow> journal_call \<Rightarrow> string \<Rightarrow>
   tool_journal \<Rightarrow> (journal_error, string, tool_journal) outcome" where
  "journal_complete redact now busy attempt_id c res J =
     (case validate_attempt_id attempt_id of
        Inl e \<Rightarrow> (Inl e, J)
      | Inr _ \<Rightarrow>
          with_lock JOURNAL_LOCK_RETRIES busy (complete_body redact now attempt_id c res) J)"

section \<open>Sealing an attempt\<close>

definition fail_pending :: "string \<Rightarrow> journal_entry \<Rightarrow> journal_entry" where
  "fail_pending now e =
     (if je_status e = EntryPending then e\<lparr>je_status := EntryFailed, je_completed_at := Some now\<rparr>
      else e)"

definition seal_document :: "string \<Rightarrow> journal_doc \<Rightarrow> journal_doc" where
  "seal_document now d =
     d\<lparr>jd_completed := True, jd_completed_at := Some now, jd_updated_at := now\<rparr>"

definition any_pending :: "journal_doc \<Rightarrow> bool" where
  "any_pending d = list_ex (\<lambda>e. je_status e = EntryPending) (dict_values (jd_entries d))"

definition settle_body ::
  "string \<Rightarrow> string \<Rightarrow> tool_journal \<Rightarrow> (journal_error, bool, tool_journal) outcome" where
  "settle_body now attempt_id J =
     (case read_document now attempt_id None False J of
        (Inl e, J1) \<Rightarrow> (Inl e, J1)
      | (Inr None, J1) \<Rightarrow> (Inr False, J1)
      | (Inr (Some d), J1) \<Rightarrow>
          (Inr True,
           prune_locked now
             (write_document attempt_id
               (seal_document now
                 (d\<lparr>jd_entries := map (\<lambda>p. (fst p, fail_pending now (snd p))) (jd_entries d)\<rparr>))
               J1)))"

definition settle_attempt ::
  "string \<Rightarrow> (nat \<Rightarrow> bool) \<Rightarrow> string \<Rightarrow> tool_journal \<Rightarrow>
   (journal_error, bool, tool_journal) outcome" where
  "settle_attempt now busy attempt_id J =
     (case validate_attempt_id attempt_id of
        Inl e \<Rightarrow> (Inl e, J)
      | Inr _ \<Rightarrow> with_lock 1 busy (settle_body now attempt_id) J)"

definition mark_body ::
  "string \<Rightarrow> string \<Rightarrow> tool_journal \<Rightarrow> (journal_error, bool, tool_journal) outcome" where
  "mark_body now attempt_id J =
     (case read_document now attempt_id None False J of
        (Inl e, J1) \<Rightarrow> (Inl e, J1)
      | (Inr None, J1) \<Rightarrow> (Inr False, J1)
      | (Inr (Some d), J1) \<Rightarrow>
          if any_pending d then (Inr False, J1)
          else (Inr True, prune_locked now (write_document attempt_id (seal_document now d) J1)))"

definition mark_attempt_complete ::
  "string \<Rightarrow> (nat \<Rightarrow> bool) \<Rightarrow> string \<Rightarrow> tool_journal \<Rightarrow>
   (journal_error, bool, tool_journal) outcome" where
  "mark_attempt_complete now busy attempt_id J =
     (case validate_attempt_id attempt_id of
        Inl e \<Rightarrow> (Inl e, J)
      | Inr _ \<Rightarrow> with_lock 1 busy (mark_body now attempt_id) J)"

section \<open>Reading the journal\<close>

definition journal_load ::
  "string \<Rightarrow> (nat \<Rightarrow> bool) \<Rightarrow> string \<Rightarrow> tool_journal \<Rightarrow>
   (journal_error, journal_doc option, tool_journal) outcome" where
  "journal_load now busy attempt_id J =
     with_lock 1 busy
       (\<lambda>J. case validate_attempt_id attempt_id of
              Inl e \<Rightarrow> (Inl e, J)
            | Inr _ \<Rightarrow> read_document now attempt_id None False J) J"

definition has_pending ::
  "string \<Rightarrow> (nat \<Rightarrow> bool) \<Rightarrow> string \<Rightarrow> tool_journal \<Rightarrow>
   (journal_error, bool, tool_journal) outcome" where
  "has_pending now busy attempt_id J =
     (case validate_attempt_id attempt_id of
        Inl e \<Rightarrow> (Inl e, J)
      | Inr _ \<Rightarrow>
          (case with_lock 1 busy (read_document now attempt_id None False) J of
             (Inl e, J1) \<Rightarrow> (Inl e, J1)
           | (Inr None, J1) \<Rightarrow> (Inr False, J1)
           | (Inr (Some d), J1) \<Rightarrow> (Inr (any_pending d), J1)))"

section \<open>The adapter for remote calls\<close>

datatype remote_state = NotStarted | RemoteCompleted | RemoteUnknown

definition remote_journal_state :: "entry_status option \<Rightarrow> remote_state" where
  "remote_journal_state status =
     (case status of None \<Rightarrow> NotStarted
      | Some EntryCompleted \<Rightarrow> RemoteCompleted
      | Some _ \<Rightarrow> RemoteUnknown)"

definition remote_call ::
  "(string \<Rightarrow> string) \<Rightarrow> string \<Rightarrow> string \<Rightarrow> string \<Rightarrow> (journal_error, journal_call) result" where
  "remote_call sha call_id tool digest =
     bind_result (remote_call_key sha call_id) (\<lambda>key.
       Inr \<lparr>jc_key = key, jc_tool = lower (strip tool), jc_args_digest = digest, jc_ordinal = 0\<rparr>)"

definition remote_reserve ::
  "(string \<Rightarrow> string) \<Rightarrow> string \<Rightarrow> (nat \<Rightarrow> bool) \<Rightarrow> string \<Rightarrow> string \<Rightarrow> string \<Rightarrow> string \<Rightarrow>
   string option \<Rightarrow> tool_journal \<Rightarrow>
   (journal_error, journal_reservation, tool_journal) outcome" where
  "remote_reserve sha now busy attempt_id call_id tool digest checkpoint_id J =
     (case remote_call sha call_id tool digest of
        Inl e \<Rightarrow> (Inl e, J)
      | Inr c \<Rightarrow> journal_reserve now busy attempt_id c checkpoint_id J)"

definition remote_complete ::
  "(string \<Rightarrow> string) \<Rightarrow> (string \<Rightarrow> string) \<Rightarrow> string \<Rightarrow> (nat \<Rightarrow> bool) \<Rightarrow> string \<Rightarrow> string \<Rightarrow>
   string \<Rightarrow> string \<Rightarrow> string \<Rightarrow> tool_journal \<Rightarrow>
   (journal_error, string, tool_journal) outcome" where
  "remote_complete sha redact now busy attempt_id call_id tool digest res J =
     (case remote_call sha call_id tool digest of
        Inl e \<Rightarrow> (Inl e, J)
      | Inr c \<Rightarrow> journal_complete redact now busy attempt_id c res J)"

text \<open>\<open>state\<close> catches the journal's own errors; an invalid id is a \<open>ValueError\<close> and propagates.\<close>

definition remote_state_of ::
  "(string \<Rightarrow> string) \<Rightarrow> string \<Rightarrow> (nat \<Rightarrow> bool) \<Rightarrow> string \<Rightarrow> string \<Rightarrow> tool_journal \<Rightarrow>
   (journal_error, remote_state, tool_journal) outcome" where
  "remote_state_of sha now busy attempt_id call_id J =
     (case remote_call_key sha call_id of
        Inl e \<Rightarrow> (Inl e, J)
      | Inr key \<Rightarrow>
          (case journal_load now busy attempt_id J of
             (Inl (JValueError m), J1) \<Rightarrow> (Inl (JValueError m), J1)
           | (Inl _, J1) \<Rightarrow> (Inr RemoteUnknown, J1)
           | (Inr None, J1) \<Rightarrow> (Inr NotStarted, J1)
           | (Inr (Some d), J1) \<Rightarrow>
               if jd_poisoned d then (Inr RemoteUnknown, J1)
               else
                 (Inr (remote_journal_state (map_option je_status (dict_get (jd_entries d) key))),
                  J1)))"

end
