(* ===== verification/Tool_Journal_Correct.thy ===== *)
theory Tool_Journal_Correct
  imports Tool_Journal
begin

text \<open>
  The contract of the tool journal: a ledger that grants each call of an attempt once, refuses an
  action whose outcome is unknown, and never grants again in an attempt whose file was lost. The
  journal of \<open>Tool_Journal\<close> refines the ledger: reads, quarantines and the poison documents they
  write do not change it, a reservation, a commit and a seal are one ledger event each, and
  pruning forgets sealed attempts only. What holds on every ledger trace then holds of every run
  of the journal.
\<close>

section \<open>The ledger\<close>

datatype call_view = In_Flight string string | Done string | Gave_Up

datatype attempt_view = Fresh | Lost | Book "string option" bool "string \<Rightarrow> call_view option"

datatype ledger_event =
    Granted string string string string
  | Committed string string string
  | Sealed string
  | Forgotten string
  | Damaged string

definition give_up :: "call_view \<Rightarrow> call_view" where
  "give_up v = (case v of In_Flight t d \<Rightarrow> Gave_Up | _ \<Rightarrow> v)"

inductive ledger_step ::
  "(string \<Rightarrow> attempt_view) \<Rightarrow> ledger_event \<Rightarrow> (string \<Rightarrow> attempt_view) \<Rightarrow> bool" where
  grant_fresh:
    "L a = Fresh \<Longrightarrow>
     ledger_step L (Granted a k t d) (L(a := Book cp False [k \<mapsto> In_Flight t d]))"
| grant_book:
    "L a = Book cp False m \<Longrightarrow> m k = None \<Longrightarrow> (\<And>k'. m k' \<noteq> Some (In_Flight t d)) \<Longrightarrow>
     ledger_step L (Granted a k t d) (L(a := Book cp False (m(k \<mapsto> In_Flight t d))))"
| commit:
    "L a = Book cp b m \<Longrightarrow> m k = Some (In_Flight t d) \<Longrightarrow>
     ledger_step L (Committed a k r) (L(a := Book cp b (m(k \<mapsto> Done r))))"
| seal:
    "L a = Book cp b m \<Longrightarrow>
     ledger_step L (Sealed a) (L(a := Book cp True (\<lambda>k. map_option give_up (m k))))"
| forget: "L a = Book cp True m \<Longrightarrow> ledger_step L (Forgotten a) (L(a := Fresh))"
| damage: "ledger_step L (Damaged a) (L(a := Lost))"

inductive_simps ledger_step_simps [simp]:
  "ledger_step L (Granted a k t d) L'"
  "ledger_step L (Committed a k r) L'"
  "ledger_step L (Sealed a) L'"
  "ledger_step L (Forgotten a) L'"
  "ledger_step L (Damaged a) L'"

lemmas ledger_path_Cons = trail_Cons [where R = ledger_step]
lemmas ledger_path_single = trail_single [where R = ledger_step]
lemmas ledger_path_append = trail_append [where R = ledger_step]

section \<open>The ledger of a journal\<close>

definition entry_view :: "journal_entry \<Rightarrow> call_view" where
  "entry_view e =
     (case je_status e of
        EntryPending \<Rightarrow> In_Flight (je_tool e) (je_args_digest e)
      | EntryCompleted \<Rightarrow> Done (the (je_result e))
      | EntryFailed \<Rightarrow> Gave_Up)"

definition doc_calls :: "journal_doc \<Rightarrow> string \<Rightarrow> call_view option" where
  "doc_calls d k = map_option entry_view (dict_get (jd_entries d) k)"

definition file_view :: "string \<Rightarrow> journal_file \<Rightarrow> attempt_view" where
  "file_view stem f =
     (case load_document stem f of
        None \<Rightarrow> Lost
      | Some d \<Rightarrow> if jd_poisoned d then Lost
                 else Book (jd_checkpoint_id d) (jd_completed d) (doc_calls d))"

definition ledger :: "tool_journal \<Rightarrow> string \<Rightarrow> attempt_view" where
  "ledger J a = (case dict_get (tj_files J) a of None \<Rightarrow> Fresh | Some f \<Rightarrow> file_view a f)"

lemma ledger_write [simp]:
  "ledger (write_document a d J) = (ledger J)(a := file_view a (Document d))"
  by (auto simp: ledger_def write_document_def)

lemma write_document_frame [frame_simps, simp]:
  "tj_retention_limit (write_document a d J) = tj_retention_limit J"
  "tj_max_result_chars (write_document a d J) = tj_max_result_chars J"
  by (simp_all add: write_document_def)

lemma dict_get_fold_del:
  "dict_get (fold dict_del ps d) k = (if k \<in> set ps then None else dict_get d k)"
  by (induction ps arbitrary: d) auto

lemma ledger_unlink:
  "ledger (unlink_all ps J) = (\<lambda>a. if a \<in> set ps then Fresh else ledger J a)"
  by (auto simp: ledger_def unlink_all_def dict_get_fold_del)

section \<open>Reads leave the ledger alone\<close>

lemma poison_view: "jd_poisoned d \<Longrightarrow> file_view a (Document d) = Lost"
  by (auto simp: file_view_def load_document_def split: option.splits)

lemma read_ledger:
  assumes "read_document now a pcp allow J = (r, J')"
  shows "ledger J' = ledger J"
proof (cases "dict_get (tj_files J) a")
  case None
  then show ?thesis using assms by (simp add: read_document_def)
next
  case (Some f)
  show ?thesis
  proof (cases "load_document a f")
    case None
    then have "file_view a f = Lost" by (simp add: file_view_def)
    then have "ledger J a = Lost" using Some by (simp add: ledger_def)
    moreover have "ledger J' = (ledger J)(a := Lost)"
      using assms Some None by (auto simp: read_document_def poison_view)
    ultimately show ?thesis by auto
  next
    case (Some d)
    then show ?thesis using assms \<open>dict_get (tj_files J) a = Some f\<close>
      by (auto simp: read_document_def split: if_splits)
  qed
qed

lemma read_frame:
  "read_document now a pcp allow J = (r, J') \<Longrightarrow>
   tj_retention_limit J' = tj_retention_limit J \<and> tj_max_result_chars J' = tj_max_result_chars J"
  by (auto simp: read_document_def split: option.splits if_splits)

lemma read_NoneD:
  "read_document now a pcp allow J = (Inr None, J') \<Longrightarrow> J' = J \<and> ledger J a = Fresh"
  by (auto simp: read_document_def ledger_def split: option.splits if_splits)

lemma read_SomeD:
  assumes "read_document now a pcp allow J = (Inr (Some d), J')"
  shows "J' = J" and "dict_get (tj_files J) a = Some (Document d)" and "valid_document a d"
    and "\<not> allow \<Longrightarrow> \<not> jd_poisoned d"
  using assms
  by (auto simp: read_document_def load_document_def split: option.splits if_splits journal_file.splits)

lemma read_Some_view:
  assumes "read_document now a pcp allow J = (Inr (Some d), J')" and "\<not> jd_poisoned d"
  shows "ledger J a = Book (jd_checkpoint_id d) (jd_completed d) (doc_calls d)"
  using read_SomeD [OF assms(1)] assms(2)
  by (simp add: ledger_def file_view_def load_document_def)

lemma scan_ledger:
  "scan_attempts now ps J done tot = ((done', tot'), J') \<Longrightarrow> ledger J' = ledger J"
proof (induction now ps J "done" tot rule: scan_attempts.induct)
  case (2 now p ps J "done" tot)
  obtain r J1 where r: "read_document now p None False J = (r, J1)" by force
  have eq: "ledger J1 = ledger J" by (rule read_ledger [OF r])
  show ?case
  proof (cases r)
    case (Inl e)
    then show ?thesis using 2 r eq by simp
  next
    case (Inr x)
    then show ?thesis using 2 r eq by (cases x) simp_all
  qed
qed simp

lemma scan_sealed:
  "scan_attempts now ps J done tot = ((done', tot'), J') \<Longrightarrow> x \<in> set done' \<Longrightarrow>
   x \<in> set done \<or> (\<exists>cp m. ledger J (snd x) = Book cp True m)"
proof (induction now ps J "done" tot rule: scan_attempts.induct)
  case (2 now p ps J "done" tot)
  obtain r J1 where r: "read_document now p None False J = (r, J1)" by force
  have eq: "ledger J1 = ledger J" by (rule read_ledger [OF r])
  show ?case
  proof (cases r)
    case (Inl e)
    then show ?thesis using 2 r eq by simp
  next
    case (Inr y)
    show ?thesis
    proof (cases y)
      case None
      then show ?thesis using 2 r eq Inr by simp
    next
      case (Some d)
      have rd: "read_document now p None False J = (Inr (Some d), J1)" using r Inr Some by simp
      have view: "ledger J p = Book (jd_checkpoint_id d) (jd_completed d) (doc_calls d)"
        using read_Some_view [OF rd] read_SomeD(4) [OF rd] by simp
      have "x \<in> set (if jd_completed d then done @ [(jd_updated_at d, p)] else done) \<or>
        (\<exists>cp m. ledger J (snd x) = Book cp True m)"
        using "2.IH"(3) [OF rd [symmetric] refl refl] 2 rd eq by simp
      then show ?thesis using view by (auto split: if_splits)
    qed
  qed
qed simp

lemma prune_ledger:
  obtains S where "ledger (prune_locked now J) = (\<lambda>a. if a \<in> S then Fresh else ledger J a)"
    and "finite S" and "\<And>a. a \<in> S \<Longrightarrow> \<exists>cp m. ledger J a = Book cp True m"
proof -
  obtain dn tot J' where s: "scan_attempts now (dict_keys (tj_files J)) J [] 0 = ((dn, tot), J')"
    by (metis prod.exhaust)
  have eq: "ledger J' = ledger J" by (rule scan_ledger [OF s])
  define ps where "ps = (if int tot - tj_retention_limit J' \<le> 0 then []
    else map snd (take (nat (int tot - tj_retention_limit J')) (sort dn)))"
  have 1: "ledger (prune_locked now J) = (\<lambda>a. if a \<in> set ps then Fresh else ledger J a)"
    using s eq by (auto simp: prune_locked_def ps_def ledger_unlink Let_def)
  have 2: "\<exists>cp m. ledger J a = Book cp True m" if a: "a \<in> set ps" for a
  proof -
    from a obtain x where x: "x \<in> set dn" "snd x = a"
      by (auto simp: ps_def split: if_splits dest!: in_set_takeD)
    show ?thesis using scan_sealed [OF s x(1)] x(2) by auto
  qed
  show thesis by (rule that [OF 1 finite_set 2])
qed

section \<open>Reserving\<close>

lemma orphan_scan_ledger:
  "orphan_scan now a cp ps J = (r, J') \<Longrightarrow> ledger J' = ledger J"
proof (induction now a cp ps J rule: orphan_scan.induct)
  case (2 now a cp p ps J)
  obtain x J1 where x: "read_document now p None True J = (x, J1)" by force
  have eq: "ledger J1 = ledger J" by (rule read_ledger [OF x])
  show ?case
  proof (cases "p = a")
    case True
    then show ?thesis using 2 by simp
  next
    case False
    show ?thesis
    proof (cases x)
      case (Inl e)
      then show ?thesis using 2 False x eq by simp
    next
      case (Inr y)
      then show ?thesis using 2 False x eq by (cases y) (auto split: if_splits)
    qed
  qed
qed simp

lemma orphan_ledger:
  "assert_no_orphan_attempt now a cp J = (r, J') \<Longrightarrow> ledger J' = ledger J"
  by (auto simp: assert_no_orphan_attempt_def split: option.splits if_splits
      dest: orphan_scan_ledger)

lemma orphan_checkpoint:
  "assert_no_orphan_attempt now a cp J = (Inr u, J') \<Longrightarrow>
   cp = None \<or> is_checkpoint_id (the cp)"
  by (auto simp: assert_no_orphan_attempt_def split: option.splits if_splits)

lemma dict_get_None_not_in_calls [simp]: "doc_calls d k = None \<longleftrightarrow> dict_get (jd_entries d) k = None"
  by (simp add: doc_calls_def)

lemma no_same_pending:
  assumes "\<not> list_ex (same_pending_action c) (dict_values (jd_entries d))"
  shows "doc_calls d k \<noteq> Some (In_Flight (safe_tool_name (jc_tool c)) (jc_args_digest c))"
proof
  assume "doc_calls d k = Some (In_Flight (safe_tool_name (jc_tool c)) (jc_args_digest c))"
  then obtain e where e: "dict_get (jd_entries d) k = Some e"
    and v: "entry_view e = In_Flight (safe_tool_name (jc_tool c)) (jc_args_digest c)"
    by (auto simp: doc_calls_def)
  have "same_pending_action c e" using v
    by (simp add: entry_view_def same_pending_action_def split: entry_status.splits)
  moreover have "e \<in> set (dict_values (jd_entries d))" using e by (rule dict_get_in_values)
  ultimately show False using assms by (auto simp: list_ex_iff)
qed

definition granted_doc :: "string \<Rightarrow> journal_call \<Rightarrow> journal_doc \<Rightarrow> journal_doc" where
  "granted_doc now c d =
     d\<lparr>jd_entries := dict_set (jc_key c) (pending_entry now c) (jd_entries d), jd_updated_at := now\<rparr>"

text \<open>A call whose digest or ordinal the file check would refuse makes the document it is
  written to unreadable.\<close>

definition recordable :: "journal_call \<Rightarrow> bool" where
  "recordable c = (tagged_hex [] 64 (jc_args_digest c) \<and> 0 \<le> jc_ordinal c)"

lemma list_all_dict_set:
  "list_all P d \<Longrightarrow> P (k, v) \<Longrightarrow> list_all P (dict_set k v d)"
  by (induction k v d rule: dict_set.induct) auto

lemma granted_view:
  assumes "valid_document a d" and "\<not> jd_poisoned d" and "is_call_key (jc_key c)"
  shows "file_view a (Document (granted_doc now c d)) =
    (if recordable c
     then Book (jd_checkpoint_id d) (jd_completed d)
       ((doc_calls d)(jc_key c \<mapsto> In_Flight (safe_tool_name (jc_tool c)) (jc_args_digest c)))
     else Lost)"
proof -
  let ?e = "pending_entry now c" and ?d = "granted_doc now c d"
  have entries: "jd_entries ?d = dict_set (jc_key c) ?e (jd_entries d)"
    by (simp add: granted_doc_def)
  have entry: "valid_entry (jc_key c, ?e) \<longleftrightarrow> recordable c"
    using assms(3) by (auto simp: valid_entry_def pending_entry_def recordable_def)
  have "(jc_key c, ?e) \<in> set (jd_entries ?d)"
    unfolding entries by (rule dict_get_SomeD) simp
  then have valid: "valid_document a ?d \<longleftrightarrow> recordable c"
    using assms(1) entry
    by (auto simp: valid_document_def entries list_all_iff [symmetric] list_all_dict_set granted_doc_def)
      (auto simp: list_all_iff)
  have "doc_calls ?d =
    (doc_calls d)(jc_key c \<mapsto> In_Flight (safe_tool_name (jc_tool c)) (jc_args_digest c))"
    by (auto simp: doc_calls_def granted_doc_def pending_entry_def entry_view_def)
  then show ?thesis using assms(2) valid
    by (simp add: file_view_def load_document_def) (simp add: granted_doc_def)
qed

lemma new_document_valid:
  "is_attempt_id a \<Longrightarrow> cp = None \<or> is_checkpoint_id (the cp) \<Longrightarrow>
   valid_document a (new_document now a cp)"
  by (auto simp: valid_document_def new_document_def)

text \<open>What a grant found and did.\<close>

lemma reserve_body_Inr:
  assumes "reserve_body now a c cp J = (Inr x, J')" and "is_attempt_id a"
  obtains d J2 d' where "ledger J2 = ledger J" and "valid_document a d"
    and "ledger J a = Fresh \<and> d = new_document now a cp \<or>
         ledger J a = Book cp (jd_completed d) (doc_calls d)"
    and "jd_checkpoint_id d = cp" and "\<not> jd_poisoned d"
    and "reserve_in_document now c d = Inr (x, d')"
    and "J' = (if x = Execute then prune_locked now (write_document a d' J2) else J2)"
proof -
  note assms = assms(1) and a = assms(2)
  obtain u J1 where 1: "assert_no_orphan_attempt now a cp J = (u, J1)" by force
  obtain y J2 where 2: "read_document now a cp False J1 = (y, J2)" by force
  from assms 1 obtain v where u: "u = Inr v" by (cases u) (auto simp: reserve_body_def)
  from assms 1 2 u obtain found where y: "y = Inr found"
    by (cases y) (auto simp: reserve_body_def)
  define d where "d = (case found of None \<Rightarrow> new_document now a cp | Some d \<Rightarrow> d)"
  have eqs: "ledger J1 = ledger J" "ledger J2 = ledger J1"
    using orphan_ledger [OF 1] read_ledger [OF 2] by auto
  have run: "(if jd_checkpoint_id d \<noteq> cp then
        (Inl (JStateError ''journal checkpoint scope changed''), J2)
      else (case reserve_in_document now c d of
              Inl e \<Rightarrow> (Inl e, J2)
            | Inr (Execute, d') \<Rightarrow>
                (Inr Execute, prune_locked now (write_document a d' J2))
            | Inr (r, d') \<Rightarrow> (Inr r, J2))) = (Inr x, J')"
    unfolding d_def using assms 1 2 u y by (simp add: reserve_body_def Let_def split del: if_split)
  then have cp: "jd_checkpoint_id d = cp" by (auto split: if_splits)
  with run obtain d' where d': "reserve_in_document now c d = Inr (x, d')"
    and J': "J' = (if x = Execute then prune_locked now (write_document a d' J2) else J2)"
    by (auto split: sum.splits prod.splits journal_reservation.splits)
  have "valid_document a d \<and> \<not> jd_poisoned d \<and> (ledger J a = Fresh \<and> d = new_document now a cp \<or>
         ledger J a = Book cp (jd_completed d) (doc_calls d))"
  proof (cases found)
    case None
    have "valid_document a (new_document now a cp)"
      using a orphan_checkpoint [of now a cp J v J1] 1 u by (intro new_document_valid) auto
    with None show ?thesis using read_NoneD [of now a cp False J1 J2] 2 y eqs
      by (simp add: d_def) (simp add: new_document_def)
  next
    case (Some d0)
    then have rd: "read_document now a cp False J1 = (Inr (Some d), J2)" using 2 y d_def by simp
    have np: "\<not> jd_poisoned d" using read_SomeD(4) [OF rd] by simp
    show ?thesis
      using read_Some_view [OF rd np] read_SomeD(3) [OF rd] np eqs cp by simp
  qed
  then show thesis using that [of J2 d d'] eqs cp d' J' by simp
qed

lemma reserve_in_document_Execute:
  assumes "reserve_in_document now c d = Inr (Execute, d')"
  shows "dict_get (jd_entries d) (jc_key c) = None"
    and "\<not> list_ex (same_pending_action c) (dict_values (jd_entries d))"
    and "\<not> jd_completed d" and "d' = granted_doc now c d"
  using assms by (auto simp: reserve_in_document_def granted_doc_def split: option.splits if_splits)

lemma reserve_body_other:
  assumes "reserve_body now a c cp J = (r, J')" and "r \<noteq> Inr Execute"
  shows "ledger J' = ledger J"
proof -
  obtain x J1 where 1: "assert_no_orphan_attempt now a cp J = (x, J1)" by force
  obtain y J2 where 2: "read_document now a cp False J1 = (y, J2)" by force
  have "ledger J1 = ledger J" "ledger J2 = ledger J1"
    using orphan_ledger [OF 1] read_ledger [OF 2] by auto
  then show ?thesis using assms 1 2
    by (cases x; cases y)
      (auto simp: reserve_body_def Let_def split: if_splits sum.splits prod.splits
        journal_reservation.splits)
qed

lemma with_lock_cases:
  assumes "with_lock n busy body J = (r, J')"
  obtains (run) "lock_acquired n busy" "body J = (r, J')"
  | (busy) "r = Inl (JBusyError ''tool journal is busy'')" "J' = J"
  using assms by (auto simp: with_lock_def split: if_splits)

lemma journal_reserve_cases:
  assumes "journal_reserve now busy a c cp J = (r, J')"
  obtains (body) "is_attempt_id a" "is_call_key (jc_key c)" "reserve_body now a c cp J = (r, J')"
  | (error) e where "r = Inl e" "J' = J"
  using assms
  by (auto simp: journal_reserve_def validate_attempt_id_def with_lock_def
      split: if_splits)

section \<open>The simulation\<close>

definition visible :: "ledger_event \<Rightarrow> bool" where
  "visible e = (case e of Forgotten a \<Rightarrow> False | _ \<Rightarrow> True)"

lemma visible_simps [simp]:
  "visible (Granted a k t d)" "visible (Committed a k r)" "visible (Sealed a)" "visible (Damaged a)"
  "\<not> visible (Forgotten a)"
  by (simp_all add: visible_def)

lemma forget_path:
  assumes "finite S" and "\<And>a. a \<in> S \<Longrightarrow> \<exists>cp m. L a = Book cp True m"
  shows "\<exists>as. trail ledger_step L (map Forgotten as) (\<lambda>a. if a \<in> S then Fresh else L a)"
  using assms
proof (induction S arbitrary: L rule: finite_induct)
  case empty
  show ?case by (auto intro!: exI [of _ "[]"] trail_Nil)
next
  case (insert x S)
  from insert.prems [of x] obtain cp m where x: "L x = Book cp True m" by auto
  let ?L = "L(x := Fresh)"
  have "\<exists>cp m. ?L a = Book cp True m" if "a \<in> S" for a
    using insert.prems [of a] insert.hyps that by auto
  from insert.IH [of ?L, OF this] obtain as
    where as: "trail ledger_step ?L (map Forgotten as) (\<lambda>a. if a \<in> S then Fresh else ?L a)"
    by blast
  have "(\<lambda>a. if a \<in> S then Fresh else ?L a) = (\<lambda>a. if a \<in> insert x S then Fresh else L a)"
    by auto
  moreover have "ledger_step L (Forgotten x) ?L" using x by (intro forget)
  ultimately have "trail ledger_step L (map Forgotten (x # as))
      (\<lambda>a. if a \<in> insert x S then Fresh else L a)"
    using as by (auto intro: ledger_path_Cons)
  then show ?case by blast
qed

lemma filter_visible_Forgotten [simp]: "filter visible (map Forgotten as) = []"
  by (induction as) auto

lemma prune_sim:
  obtains as where "trail ledger_step (ledger J) (map Forgotten as) (ledger (prune_locked now J))"
proof -
  obtain S where S: "ledger (prune_locked now J) = (\<lambda>a. if a \<in> S then Fresh else ledger J a)"
    "finite S" "\<And>a. a \<in> S \<Longrightarrow> \<exists>cp m. ledger J a = Book cp True m"
    by (rule prune_ledger) blast
  from forget_path [of S "ledger J", OF S(2,3)] S(1) show thesis by (auto intro: that)
qed

definition grant_events :: "string \<Rightarrow> journal_call \<Rightarrow> ledger_event list" where
  "grant_events a c =
     Granted a (jc_key c) (safe_tool_name (jc_tool c)) (jc_args_digest c) #
     (if recordable c then [] else [Damaged a])"

lemma grant_sim:
  assumes "reserve_body now a c cp J = (Inr Execute, J')"
    and "is_attempt_id a" and "is_call_key (jc_key c)"
  shows "\<exists>es. trail ledger_step (ledger J) es (ledger J') \<and> filter visible es = grant_events a c"
proof -
  let ?act = "In_Flight (safe_tool_name (jc_tool c)) (jc_args_digest c)"
  let ?g = "Granted a (jc_key c) (safe_tool_name (jc_tool c)) (jc_args_digest c)"
  obtain d J2 d' where eq: "ledger J2 = ledger J" and valid: "valid_document a d"
    and found: "ledger J a = Fresh \<and> d = new_document now a cp \<or>
         ledger J a = Book cp (jd_completed d) (doc_calls d)"
    and cp: "jd_checkpoint_id d = cp" and np: "\<not> jd_poisoned d"
    and d': "reserve_in_document now c d = Inr (Execute, d')"
    and J'': "J' = (if Execute = Execute then prune_locked now (write_document a d' J2) else J2)"
    by (rule reserve_body_Inr [OF assms(1,2)])
  note none = reserve_in_document_Execute(1) [OF d']
    and fresh = reserve_in_document_Execute(2) [OF d']
    and d = cp reserve_in_document_Execute(3) [OF d'] np
  have J': "J' = prune_locked now (write_document a (granted_doc now c d) J2)"
    using J'' reserve_in_document_Execute(4) [OF d'] by simp
  have view: "ledger J a = Fresh \<and> d = new_document now a cp \<or> ledger J a = Book cp False (doc_calls d)"
    using found d(2) by auto
  let ?L = "(ledger J)(a := Book cp False ((doc_calls d)(jc_key c \<mapsto> ?act)))"
  let ?M = "ledger (write_document a (granted_doc now c d) J2)"
  have grant: "ledger_step (ledger J) ?g ?L"
    using view
  proof
    assume f: "ledger J a = Fresh \<and> d = new_document now a cp"
    then have "doc_calls d = Map.empty" by (auto simp: doc_calls_def new_document_def)
    then show ?thesis using f by auto
  next
    assume "ledger J a = Book cp False (doc_calls d)"
    then show ?thesis using none no_same_pending [OF fresh] by auto
  qed
  have view: "?M = (if recordable c then ?L else ?L(a := Lost))"
    using granted_view [OF valid d(3) assms(3), of now] d(1,2) eq by simp
  have "trail ledger_step (ledger J) (grant_events a c) ?M"
    unfolding grant_events_def
    by (rule ledger_path_Cons [OF grant])
      (use view in \<open>auto intro: ledger_path_single damage trail_Nil\<close>)
  moreover obtain as where "trail ledger_step ?M (map Forgotten as) (ledger J')"
    unfolding J' by (rule prune_sim)
  ultimately have "trail ledger_step (ledger J) (grant_events a c @ map Forgotten as) (ledger J')"
    by (rule ledger_path_append)
  moreover have "filter visible (grant_events a c @ map Forgotten as) = grant_events a c"
    by (simp add: grant_events_def)
  ultimately show ?thesis by blast
qed

lemma stutter: "ledger J' = ledger J \<Longrightarrow>
  \<exists>es. trail ledger_step (ledger J) es (ledger J') \<and> filter visible es = []"
  by (auto intro!: exI [of _ "[]"] trail_Nil)

text \<open>Committing and sealing write valid documents.\<close>

lemma complete_body_cases:
  assumes "complete_body redact now a c res J = (r, J')"
  obtains (error) e where "r = Inl e" "ledger J' = ledger J"
  | (committed) cp b m cleaned t dg where "r = Inr cleaned"
      "cleaned = clean_result redact (tj_max_result_chars J) res"
      "ledger J a = Book cp b m" "m (jc_key c) = Some (In_Flight t dg)"
      "ledger J' = (ledger J)(a := Book cp b (m(jc_key c \<mapsto> Done cleaned)))"
proof -
  obtain y J1 where y: "read_document now a None False J = (y, J1)" by force
  have eq: "ledger J1 = ledger J" by (rule read_ledger [OF y])
  show thesis
  proof (cases "\<exists>d e. y = Inr (Some d) \<and> dict_get (jd_entries d) (jc_key c) = Some e \<and>
      je_status e = EntryPending")
    case False
    have "r \<in> range Inl \<and> J' = J1" using assms y False
      by (auto simp: complete_body_def split: sum.splits option.splits if_splits)
    then show thesis using eq error by auto
  next
    case True
    then obtain d e where yd: "y = Inr (Some d)"
      and e: "dict_get (jd_entries d) (jc_key c) = Some e" "je_status e = EntryPending" by blast
    have rd: "read_document now a None False J = (Inr (Some d), J1)" using y yd by simp
    note rs = read_SomeD [OF rd]
    have np: "\<not> jd_poisoned d" using rs(4) by simp
    define cleaned where "cleaned = clean_result redact (tj_max_result_chars J) res"
    define d' where "d' = d\<lparr>jd_entries := dict_set (jc_key c) (commit_entry now cleaned e) (jd_entries d),
                       jd_updated_at := now\<rparr>"
    have res: "r = Inr cleaned" "J' = write_document a d' J"
      using assms rd e rs(1) by (simp_all add: complete_body_def cleaned_def d'_def Let_def)
    have ve: "valid_entry (jc_key c, e)"
      using rs(3) dict_get_SomeD [OF e(1)] by (auto simp: valid_document_def list_all_iff)
    have "valid_entry (jc_key c, commit_entry now cleaned e)"
      using ve by (simp add: valid_entry_def commit_entry_def)
    then have vd: "valid_document a d'"
      using rs(3) by (auto simp: valid_document_def d'_def list_all_dict_set)
    have calls: "doc_calls d' = (doc_calls d)(jc_key c \<mapsto> Done cleaned)"
      by (auto simp: doc_calls_def d'_def commit_entry_def entry_view_def)
    have "file_view a (Document d') =
        Book (jd_checkpoint_id d) (jd_completed d) ((doc_calls d)(jc_key c \<mapsto> Done cleaned))"
      using vd np calls by (simp add: file_view_def load_document_def) (simp add: d'_def)
    moreover have "doc_calls d (jc_key c) = Some (In_Flight (je_tool e) (je_args_digest e))"
      using e by (simp add: doc_calls_def entry_view_def)
    ultimately show thesis
      using committed [OF res(1) cleaned_def read_Some_view [OF rd np]] res(2) by simp
  qed
qed

lemma complete_sim:
  assumes "complete_body redact now a c res J = (r, J')"
  shows "\<exists>es. trail ledger_step (ledger J) es (ledger J') \<and>
    filter visible es = (case r of Inl e \<Rightarrow> [] | Inr x \<Rightarrow> [Committed a (jc_key c) x])"
  using assms
proof (cases rule: complete_body_cases)
  case (error e)
  then show ?thesis using stutter by simp
next
  case (committed cp b m cleaned t dg)
  have "ledger_step (ledger J) (Committed a (jc_key c) cleaned) (ledger J')"
    using committed by (auto simp del: fun_upd_apply)
  then have "trail ledger_step (ledger J) [Committed a (jc_key c) cleaned] (ledger J')"
    by (rule ledger_path_single)
  moreover have "filter visible [Committed a (jc_key c) cleaned] = [Committed a (jc_key c) cleaned]"
    by simp
  ultimately show ?thesis using committed(1) by auto
qed

lemma dict_get_map_values:
  "dict_get (map (\<lambda>p. (fst p, f (snd p))) d) k = map_option f (dict_get d k)"
  by (induction d) (auto simp: dict_get_def)

lemma give_up_fail_pending: "entry_view (fail_pending now e) = give_up (entry_view e)"
  by (auto simp: entry_view_def fail_pending_def give_up_def split: entry_status.splits)

lemma give_up_settled:
  assumes "\<not> any_pending d"
  shows "map_option give_up (doc_calls d k) = doc_calls d k"
proof (cases "dict_get (jd_entries d) k")
  case None
  then show ?thesis by (simp add: doc_calls_def)
next
  case (Some e)
  then have "je_status e \<noteq> EntryPending"
    using assms dict_get_in_values [OF Some] by (auto simp: any_pending_def list_ex_iff)
  then show ?thesis using Some
    by (auto simp: doc_calls_def entry_view_def give_up_def split: entry_status.splits)
qed

lemma valid_fail_pending: "valid_entry p \<Longrightarrow> valid_entry (fst p, fail_pending now (snd p))"
  by (cases "je_status (snd p)") (simp_all add: valid_entry_def fail_pending_def)

text \<open>Sealing a document that was read seals its attempt in the ledger.\<close>

lemma seal_sim:
  assumes rd: "read_document now a None False J = (Inr (Some d), J1)"
    and d': "jd_entries d' = map (\<lambda>p. (fst p, fail_pending now (snd p))) (jd_entries d) \<or>
             jd_entries d' = jd_entries d \<and> \<not> any_pending d"
    and same: "jd_version d' = jd_version d" "jd_attempt_id d' = jd_attempt_id d"
      "jd_checkpoint_id d' = jd_checkpoint_id d" "jd_poisoned d' = jd_poisoned d"
    and J': "J' = prune_locked now (write_document a (seal_document now d') J1)"
  shows "\<exists>es. trail ledger_step (ledger J) es (ledger J') \<and> filter visible es = [Sealed a]"
proof -
  note rs = read_SomeD [OF rd]
  have np: "\<not> jd_poisoned d" using rs(4) by simp
  have calls: "doc_calls (seal_document now d') = (\<lambda>k. map_option give_up (doc_calls d k))"
  proof
    fix k
    show "doc_calls (seal_document now d') k = map_option give_up (doc_calls d k)"
      using d'
    proof
      assume "jd_entries d' = map (\<lambda>p. (fst p, fail_pending now (snd p))) (jd_entries d)"
      then show ?thesis
        by (simp add: doc_calls_def seal_document_def dict_get_map_values option.map_comp o_def
            give_up_fail_pending)
    next
      assume "jd_entries d' = jd_entries d \<and> \<not> any_pending d"
      then show ?thesis using give_up_settled [of d k]
        by (simp add: doc_calls_def seal_document_def)
    qed
  qed
  have "list_all valid_entry (jd_entries d')"
    using d' rs(3) valid_fail_pending [of "(_, _)" now]
    by (fastforce simp: valid_document_def list_all_iff)
  then have "valid_document a (seal_document now d')"
    using rs(3) same by (auto simp: valid_document_def seal_document_def)
  then have "file_view a (Document (seal_document now d')) =
      Book (jd_checkpoint_id d) True (\<lambda>k. map_option give_up (doc_calls d k))"
    using np same calls by (simp add: file_view_def load_document_def) (simp add: seal_document_def)
  then have "ledger_step (ledger J) (Sealed a) (ledger (write_document a (seal_document now d') J1))"
    using read_Some_view [OF rd np] rs(1) by auto
  moreover obtain as where
    "trail ledger_step (ledger (write_document a (seal_document now d') J1)) (map Forgotten as) (ledger J')"
    unfolding J' by (rule prune_sim)
  ultimately have "trail ledger_step (ledger J) (Sealed a # map Forgotten as) (ledger J')"
    by (rule ledger_path_Cons)
  moreover have "filter visible (Sealed a # map Forgotten as) = [Sealed a]" by simp
  ultimately show ?thesis by blast
qed

lemma settle_sim:
  assumes "settle_body now a J = (r, J')"
  shows "\<exists>es. trail ledger_step (ledger J) es (ledger J') \<and>
    filter visible es = (if r = Inr True then [Sealed a] else [])"
proof -
  obtain y J1 where y: "read_document now a None False J = (y, J1)" by force
  have eq: "ledger J1 = ledger J" by (rule read_ledger [OF y])
  show ?thesis
  proof (cases "\<exists>d. y = Inr (Some d)")
    case True
    then obtain d where yd: "y = Inr (Some d)" by blast
    have rd: "read_document now a None False J = (Inr (Some d), J1)" using y yd by simp
    have "r = Inr True" and J': "J' = prune_locked now (write_document a (seal_document now
        (d\<lparr>jd_entries := map (\<lambda>p. (fst p, fail_pending now (snd p))) (jd_entries d)\<rparr>)) J1)"
      using assms rd by (auto simp: settle_body_def)
    then show ?thesis using seal_sim [OF rd _ _ _ _ _ J'] by simp
  next
    case False
    then have "ledger J' = ledger J \<and> r \<noteq> Inr True" using assms y eq
      by (cases y) (auto simp: settle_body_def split: option.splits)
    then show ?thesis using stutter by simp
  qed
qed

lemma mark_sim:
  assumes "mark_body now a J = (r, J')"
  shows "\<exists>es. trail ledger_step (ledger J) es (ledger J') \<and>
    filter visible es = (if r = Inr True then [Sealed a] else [])"
proof -
  obtain y J1 where y: "read_document now a None False J = (y, J1)" by force
  have eq: "ledger J1 = ledger J" by (rule read_ledger [OF y])
  show ?thesis
  proof (cases "\<exists>d. y = Inr (Some d) \<and> \<not> any_pending d")
    case True
    then obtain d where yd: "y = Inr (Some d)" and np: "\<not> any_pending d" by blast
    have rd: "read_document now a None False J = (Inr (Some d), J1)" using y yd by simp
    have "r = Inr True" and J': "J' = prune_locked now (write_document a (seal_document now d) J1)"
      using assms rd np by (auto simp: mark_body_def)
    then show ?thesis using seal_sim [OF rd _ _ _ _ _ J'] np by simp
  next
    case False
    then have "ledger J' = ledger J \<and> r \<noteq> Inr True" using assms y eq
      by (cases y) (auto simp: mark_body_def split: option.splits if_splits)
    then show ?thesis using stutter by simp
  qed
qed

section \<open>Runs of the journal\<close>

text \<open>The commands of the processes that share the directory, and \<open>CDamage\<close>: the file of an
  attempt is lost to something outside the journal (a torn disk, an editor).\<close>

datatype journal_cmd =
    CReserve string "nat \<Rightarrow> bool" string journal_call "string option"
  | CComplete string "nat \<Rightarrow> bool" string journal_call string
  | CSettle string "nat \<Rightarrow> bool" string
  | CMark string "nat \<Rightarrow> bool" string
  | CLoad string "nat \<Rightarrow> bool" string
  | CHasPending string "nat \<Rightarrow> bool" string
  | CDamage string

definition damage_file :: "string \<Rightarrow> tool_journal \<Rightarrow> tool_journal" where
  "damage_file a J = J\<lparr>tj_files := dict_set a Unreadable (tj_files J)\<rparr>"

text \<open>A step and what its caller sees of it: an execution grant, a committed result, a seal.\<close>

definition journal_step ::
  "(string \<Rightarrow> string) \<Rightarrow> tool_journal \<Rightarrow> journal_cmd \<Rightarrow> ledger_event list \<times> tool_journal" where
  "journal_step redact J cmd =
     (case cmd of
        CReserve now busy a c cp \<Rightarrow>
          (case journal_reserve now busy a c cp J of (r, J') \<Rightarrow>
             (if r = Inr Execute then grant_events a c else [], J'))
      | CComplete now busy a c res \<Rightarrow>
          (case journal_complete redact now busy a c res J of (r, J') \<Rightarrow>
             (case r of Inl e \<Rightarrow> [] | Inr x \<Rightarrow> [Committed a (jc_key c) x], J'))
      | CSettle now busy a \<Rightarrow>
          (case settle_attempt now busy a J of (r, J') \<Rightarrow>
             (if r = Inr True then [Sealed a] else [], J'))
      | CMark now busy a \<Rightarrow>
          (case mark_attempt_complete now busy a J of (r, J') \<Rightarrow>
             (if r = Inr True then [Sealed a] else [], J'))
      | CLoad now busy a \<Rightarrow> ([], snd (journal_load now busy a J))
      | CHasPending now busy a \<Rightarrow> ([], snd (has_pending now busy a J))
      | CDamage a \<Rightarrow> ([Damaged a], damage_file a J))"

lemma journal_complete_cases:
  assumes "journal_complete redact now busy a c res J = (r, J')"
  obtains (body) "complete_body redact now a c res J = (r, J')"
  | (error) e where "r = Inl e" "J' = J"
  using assms
  by (auto simp: journal_complete_def validate_attempt_id_def with_lock_def split: if_splits)

lemma settle_attempt_cases:
  assumes "settle_attempt now busy a J = (r, J')"
  obtains (body) "settle_body now a J = (r, J')" | (error) e where "r = Inl e" "J' = J"
  using assms
  by (auto simp: settle_attempt_def validate_attempt_id_def with_lock_def split: if_splits)

lemma mark_attempt_cases:
  assumes "mark_attempt_complete now busy a J = (r, J')"
  obtains (body) "mark_body now a J = (r, J')" | (error) e where "r = Inl e" "J' = J"
  using assms
  by (auto simp: mark_attempt_complete_def validate_attempt_id_def with_lock_def split: if_splits)

lemma load_ledger: "journal_load now busy a J = (r, J') \<Longrightarrow> ledger J' = ledger J"
  by (auto simp: journal_load_def with_lock_def validate_attempt_id_def split: if_splits
      dest: read_ledger)

lemma has_pending_ledger: "has_pending now busy a J = (r, J') \<Longrightarrow> ledger J' = ledger J"
  by (auto simp: has_pending_def with_lock_def validate_attempt_id_def
      split: if_splits prod.splits sum.splits option.splits dest: read_ledger)

lemma damage_ledger: "ledger (damage_file a J) = (ledger J)(a := Lost)"
  by (auto simp: ledger_def damage_file_def file_view_def load_document_def)

lemma journal_step_sim:
  assumes "journal_step redact J cmd = (vs, J')"
  shows "\<exists>es. trail ledger_step (ledger J) es (ledger J') \<and> filter visible es = vs"
proof (cases cmd)
  case (CReserve now busy a c cp)
  obtain r where r: "journal_reserve now busy a c cp J = (r, J')"
      "vs = (if r = Inr Execute then grant_events a c else [])"
    using assms CReserve by (auto simp: journal_step_def split: prod.splits)
  from r(1) show ?thesis
  proof (cases rule: journal_reserve_cases)
    case body
    show ?thesis
    proof (cases "r = Inr Execute")
      case True
      then show ?thesis using grant_sim [of now a c cp J J'] body r(2) by simp
    next
      case False
      then show ?thesis using reserve_body_other [OF body(3) False] stutter r(2) by simp
    qed
  next
    case (error e)
    then show ?thesis using stutter r(2) by simp
  qed
next
  case (CComplete now busy a c res)
  obtain r where r: "journal_complete redact now busy a c res J = (r, J')"
      "vs = (case r of Inl e \<Rightarrow> [] | Inr x \<Rightarrow> [Committed a (jc_key c) x])"
    using assms CComplete by (auto simp: journal_step_def split: prod.splits)
  from r(1) show ?thesis
  proof (cases rule: journal_complete_cases)
    case body
    show ?thesis using complete_sim [OF body] r(2) by simp
  next
    case (error e)
    then show ?thesis using stutter r(2) by simp
  qed
next
  case (CSettle now busy a)
  obtain r where r: "settle_attempt now busy a J = (r, J')"
      "vs = (if r = Inr True then [Sealed a] else [])"
    using assms CSettle by (auto simp: journal_step_def split: prod.splits)
  from r(1) show ?thesis
  proof (cases rule: settle_attempt_cases)
    case body
    show ?thesis using settle_sim [OF body] r(2) by simp
  next
    case (error e)
    then show ?thesis using stutter r(2) by simp
  qed
next
  case (CMark now busy a)
  obtain r where r: "mark_attempt_complete now busy a J = (r, J')"
      "vs = (if r = Inr True then [Sealed a] else [])"
    using assms CMark by (auto simp: journal_step_def split: prod.splits)
  from r(1) show ?thesis
  proof (cases rule: mark_attempt_cases)
    case body
    show ?thesis using mark_sim [OF body] r(2) by simp
  next
    case (error e)
    then show ?thesis using stutter r(2) by simp
  qed
next
  case (CLoad now busy a)
  then have "vs = []" "ledger J' = ledger J"
    using assms load_ledger [of now busy a J "fst (journal_load now busy a J)" J']
    by (auto simp: journal_step_def)
  then show ?thesis using stutter by simp
next
  case (CHasPending now busy a)
  then have "vs = []" "ledger J' = ledger J"
    using assms has_pending_ledger [of now busy a J "fst (has_pending now busy a J)" J']
    by (auto simp: journal_step_def)
  then show ?thesis using stutter by simp
next
  case (CDamage a)
  have "trail ledger_step (ledger J) [Damaged a] (ledger J')"
    using assms CDamage by (auto simp: journal_step_def damage_ledger intro: ledger_path_single damage)
  then show ?thesis using assms CDamage
    by (intro exI [of _ "[Damaged a]"]) (auto simp: journal_step_def)
qed

interpretation tj: refines "journal_step redact" ledger ledger_step visible
  by unfold_locales (rule journal_step_sim)

section \<open>What every ledger trace satisfies\<close>

lemma call_taken_path:
  assumes "trail ledger_step L es L'"
    and "L a = Lost \<or> (\<exists>cp m. L a = Book cp False m \<and> m k \<noteq> None)" and "Sealed a \<notin> set es"
  shows "L' a = Lost \<or> (\<exists>cp m. L' a = Book cp False m \<and> m k \<noteq> None)"
proof (rule trail_invariant [OF assms(1),
      where P = "\<lambda>L. L a = Lost \<or> (\<exists>cp m. L a = Book cp False m \<and> m k \<noteq> None)"])
  show "L a = Lost \<or> (\<exists>cp m. L a = Book cp False m \<and> m k \<noteq> None)" by (rule assms(2))
next
  fix x e y
  assume "ledger_step x e y" and "e \<in> set es"
    and "x a = Lost \<or> (\<exists>cp m. x a = Book cp False m \<and> m k \<noteq> None)"
  then show "y a = Lost \<or> (\<exists>cp m. y a = Book cp False m \<and> m k \<noteq> None)"
    using assms(3) by (cases rule: ledger_step.cases) auto
qed

lemma action_in_flight_path:
  assumes "trail ledger_step L es L'"
    and "L a = Lost \<or> (\<exists>cp m. L a = Book cp False m \<and> m k = Some (In_Flight t d))"
    and "Sealed a \<notin> set es" and "\<And>r. Committed a k r \<notin> set es"
  shows "L' a = Lost \<or> (\<exists>cp m. L' a = Book cp False m \<and> m k = Some (In_Flight t d))"
proof (rule trail_invariant [OF assms(1),
      where P = "\<lambda>L. L a = Lost \<or> (\<exists>cp m. L a = Book cp False m \<and> m k = Some (In_Flight t d))"])
  show "L a = Lost \<or> (\<exists>cp m. L a = Book cp False m \<and> m k = Some (In_Flight t d))" by (rule assms(2))
next
  fix x e y
  assume "ledger_step x e y" and "e \<in> set es"
    and "x a = Lost \<or> (\<exists>cp m. x a = Book cp False m \<and> m k = Some (In_Flight t d))"
  then show "y a = Lost \<or> (\<exists>cp m. y a = Book cp False m \<and> m k = Some (In_Flight t d))"
    using assms(3,4) by (cases rule: ledger_step.cases) auto
qed

lemma granted_taken:
  assumes "ledger_step L (Granted a k t d) L'"
  shows "\<exists>cp m. L' a = Book cp False m \<and> m k = Some (In_Flight t d)"
  using assms by auto

lemma filter_split:
  assumes "filter P es = us @ x # ws"
  obtains es1 es2 where "es = es1 @ x # es2" and "filter P es1 = us" and "filter P es2 = ws"
  using assms
proof (induction es arbitrary: us thesis)
  case Nil
  then show ?case by simp
next
  case (Cons e es)
  show ?case
  proof (cases "P e")
    case False
    then obtain es1 es2 where "es = es1 @ x # es2" "filter P es1 = us" "filter P es2 = ws"
      using Cons.IH [of us] Cons.prems(2) by auto
    then show ?thesis using Cons.prems(1) [of "e # es1" es2] False by simp
  next
    case True
    show ?thesis
    proof (cases us)
      case Nil
      then show ?thesis using Cons.prems(1) [of "[]" es] Cons.prems(2) True by simp
    next
      case us: (Cons u us')
      then obtain es1 es2 where "es = es1 @ x # es2" "filter P es1 = us'" "filter P es2 = ws"
        using Cons.IH [of us'] Cons.prems(2) True by auto
      then show ?thesis using Cons.prems(1) [of "e # es1" es2] True us Cons.prems(2) by simp
    qed
  qed
qed

lemma filter_two:
  assumes "filter P es = us @ x # ws @ y # zs"
  obtains es1 es2 es3 where "es = es1 @ x # es2 @ y # es3" and "filter P es2 = ws"
proof -
  obtain es1 r where 1: "es = es1 @ x # r" "filter P r = ws @ y # zs"
    using assms by (rule filter_split)
  obtain es2 es3 where 2: "r = es2 @ y # es3" "filter P es2 = ws"
    using 1(2) by (rule filter_split)
  show thesis by (rule that [of es1 es2 es3]) (use 1 2 in simp_all)
qed

text \<open>Two grants of a ledger trace.\<close>

lemma ledger_grants:
  assumes "trail ledger_step L (es1 @ Granted a k t d # es2 @ Granted a k' t' d' # es3) L'"
    and "k' = k \<or> t' = t \<and> d' = d \<and> (\<forall>r. Committed a k r \<notin> set es2)"
  shows "Sealed a \<in> set es2"
proof (rule ccontr)
  assume unsealed: "Sealed a \<notin> set es2"
  obtain L1 where "trail ledger_step L1 (Granted a k t d # es2 @ Granted a k' t' d' # es3) L'"
    using assms(1) by (rule trail_appendE)
  then obtain L2 where g: "ledger_step L1 (Granted a k t d) L2"
    and p: "trail ledger_step L2 (es2 @ Granted a k' t' d' # es3) L'"
    by (rule trail_ConsE)
  from p obtain L3 where p2: "trail ledger_step L2 es2 L3"
    and p3: "trail ledger_step L3 (Granted a k' t' d' # es3) L'"
    by (rule trail_appendE)
  from p3 obtain L4 where g': "ledger_step L3 (Granted a k' t' d') L4" by (rule trail_ConsE)
  obtain cp m where start: "L2 a = Book cp False m" "m k = Some (In_Flight t d)"
    using granted_taken [OF g] by blast
  from assms(2) show False
  proof
    assume "k' = k"
    moreover have "L3 a = Lost \<or> (\<exists>cp m. L3 a = Book cp False m \<and> m k \<noteq> None)"
      by (rule call_taken_path [OF p2 _ unsealed]) (use start in auto)
    ultimately show False using g' by auto
  next
    assume act: "t' = t \<and> d' = d \<and> (\<forall>r. Committed a k r \<notin> set es2)"
    have "L3 a = Lost \<or> (\<exists>cp m. L3 a = Book cp False m \<and> m k = Some (In_Flight t d))"
      by (rule action_in_flight_path [OF p2 _ unsealed]) (use start act in auto)
    then show False using g' act by auto
  qed
qed

lemma set_filter_visible: "filter visible es = ws \<Longrightarrow> visible e \<Longrightarrow> e \<in> set es \<longleftrightarrow> e \<in> set ws"
  by auto

end
