(* ===== verification/Tool_Journal_Answers.thy ===== *)
theory Tool_Journal_Answers
  imports Tool_Journal_Correct
begin

text \<open>
  What each operation of the tool journal answers, as a function of the ledger, on every branch;
  the state reported for a remote call; the ordinals the call allocator hands out; and the
  properties of whole runs.
\<close>

section \<open>Reading where nothing was lost\<close>

lemma read_not_lost:
  assumes "ledger J a \<noteq> Lost"
  obtains (none) "ledger J a = Fresh" "read_document now a pcp allow J = (Inr None, J)"
  | (some) d where "read_document now a pcp allow J = (Inr (Some d), J)" "\<not> jd_poisoned d"
      "ledger J a = Book (jd_checkpoint_id d) (jd_completed d) (doc_calls d)"
      "dict_get (tj_files J) a = Some (Document d)"
proof (cases "dict_get (tj_files J) a")
  case None
  then show thesis by (intro none) (simp_all add: ledger_def read_document_def)
next
  case (Some f)
  then have "file_view a f \<noteq> Lost" using assms by (simp add: ledger_def)
  then obtain d where d: "load_document a f = Some d" "\<not> jd_poisoned d"
    by (auto simp: file_view_def split: option.splits if_splits)
  have "f = Document d" using d(1)
    by (auto simp: load_document_def split: journal_file.splits if_splits)
  then show thesis using Some d
    by (intro some [of d]) (simp_all add: ledger_def read_document_def file_view_def)
qed

lemma read_lost:
  assumes "ledger J a = Lost"
  shows "\<exists>m J'. read_document now a pcp False J = (Inl (JCorruptionError m), J')"
proof (cases "dict_get (tj_files J) a")
  case None
  then show ?thesis using assms by (simp add: ledger_def)
next
  case (Some f)
  then have "file_view a f = Lost" using assms by (simp add: ledger_def)
  then show ?thesis using Some
    by (cases "load_document a f") (auto simp: read_document_def file_view_def split: if_splits)
qed

lemma orphan_scan_exact:
  assumes "\<And>p. p \<noteq> a \<Longrightarrow> ledger J p \<noteq> Lost"
  shows "orphan_scan now a cp ps J =
    (if \<exists>p \<in> set ps. p \<noteq> a \<and> (\<exists>m. ledger J p = Book (Some cp) False m)
     then (Inl (JStateError ''an earlier checkpoint attempt has unresolved journal state''), J)
     else (Inr (), J))"
proof (induction ps)
  case Nil
  show ?case by simp
next
  case (Cons p ps)
  show ?case
  proof (cases "p = a")
    case True
    then show ?thesis using Cons.IH by simp
  next
    case False
    show ?thesis
      using assms [OF False]
    proof (cases rule: read_not_lost [of J p now None True])
      case none
      then show ?thesis using Cons.IH False by simp
    next
      case (some d)
      then show ?thesis using Cons.IH False by auto
    qed
  qed
qed

section \<open>The answer of a reservation\<close>

definition ledger_answer ::
  "(string \<Rightarrow> attempt_view) \<Rightarrow> string \<Rightarrow> journal_call \<Rightarrow> string option \<Rightarrow> journal_reservation option" where
  "ledger_answer L a c cp =
     (if cp \<noteq> None \<and> (\<exists>b m. b \<noteq> a \<and> L b = Book cp False m) then None
      else case L a of
        Fresh \<Rightarrow> Some Execute
      | Lost \<Rightarrow> None
      | Book cp' sealed m \<Rightarrow>
          if cp' \<noteq> cp then None
          else case m (jc_key c) of
            Some (Done r) \<Rightarrow> Some (Reuse r)
          | Some _ \<Rightarrow> Some Uncertain
          | None \<Rightarrow>
              if \<exists>k. m k = Some (In_Flight (safe_tool_name (jc_tool c)) (jc_args_digest c))
              then Some Uncertain
              else if sealed then None else Some Execute)"

definition answer_of :: "(journal_error, 'a) result \<Rightarrow> 'a option" where
  "answer_of r = (case r of Inl e \<Rightarrow> None | Inr x \<Rightarrow> Some x)"

lemma answer_of_simps [simp]: "answer_of (Inl e) = None" "answer_of (Inr x) = Some x"
  by (simp_all add: answer_of_def)

text \<open>A file's entries are a JSON object: no key occurs twice.\<close>

definition journal_wf :: "tool_journal \<Rightarrow> bool" where
  "journal_wf J \<longleftrightarrow> (\<forall>a d. dict_get (tj_files J) a = Some (Document d) \<longrightarrow> dict_wf (jd_entries d))"

lemma same_pending_iff:
  assumes "dict_wf (jd_entries d)"
  shows "list_ex (same_pending_action c) (dict_values (jd_entries d)) \<longleftrightarrow>
    (\<exists>k. doc_calls d k = Some (In_Flight (safe_tool_name (jc_tool c)) (jc_args_digest c)))"
proof
  assume "list_ex (same_pending_action c) (dict_values (jd_entries d))"
  then obtain e where e: "e \<in> set (dict_values (jd_entries d))" "same_pending_action c e"
    by (auto simp: list_ex_iff)
  obtain k where "dict_get (jd_entries d) k = Some e" by (rule dict_values_get [OF assms e(1)])
  then have "doc_calls d k = Some (In_Flight (safe_tool_name (jc_tool c)) (jc_args_digest c))"
    using e(2) by (simp add: doc_calls_def entry_view_def same_pending_action_def)
  then show "\<exists>k. doc_calls d k = Some (In_Flight (safe_tool_name (jc_tool c)) (jc_args_digest c))"
    by blast
next
  show "\<exists>k. doc_calls d k = Some (In_Flight (safe_tool_name (jc_tool c)) (jc_args_digest c)) \<Longrightarrow>
    list_ex (same_pending_action c) (dict_values (jd_entries d))"
    using no_same_pending by blast
qed

lemma reserve_in_document_answer:
  assumes "dict_wf (jd_entries d)"
  shows "map_option fst (answer_of (reserve_in_document now c d)) =
    (case doc_calls d (jc_key c) of
       Some (Done r) \<Rightarrow> Some (Reuse r)
     | Some _ \<Rightarrow> Some Uncertain
     | None \<Rightarrow>
         if \<exists>k. doc_calls d k = Some (In_Flight (safe_tool_name (jc_tool c)) (jc_args_digest c))
         then Some Uncertain
         else if jd_completed d then None else Some Execute)"
proof (cases "dict_get (jd_entries d) (jc_key c)")
  case None
  then show ?thesis
    by (simp add: reserve_in_document_def doc_calls_def [of d "jc_key c"] same_pending_iff [OF assms])
next
  case (Some e)
  then show ?thesis
    by (cases "je_status e") (simp_all add: reserve_in_document_def doc_calls_def entry_view_def)
qed

lemma reserve_body_unfold:
  assumes "assert_no_orphan_attempt now a cp J = (Inr u, J1)"
    and "read_document now a cp False J1 = (Inr found, J2)"
    and "d = (case found of None \<Rightarrow> new_document now a cp | Some d \<Rightarrow> d)"
    and "jd_checkpoint_id d = cp"
  shows "answer_of (fst (reserve_body now a c cp J)) =
    map_option fst (answer_of (reserve_in_document now c d))"
  using assms
  by (cases found)
    (auto simp: reserve_body_def Let_def split: sum.splits prod.splits journal_reservation.splits)

lemma orphan_exact:
  assumes "\<And>p. p \<noteq> a \<Longrightarrow> cp \<noteq> None \<Longrightarrow> ledger J p \<noteq> Lost"
    and "cp = None \<or> is_checkpoint_id (the cp)"
  shows "assert_no_orphan_attempt now a cp J =
    (if cp \<noteq> None \<and> (\<exists>b m. b \<noteq> a \<and> ledger J b = Book cp False m)
     then (Inl (JStateError ''an earlier checkpoint attempt has unresolved journal state''), J)
     else (Inr (), J))"
proof (cases cp)
  case None
  then show ?thesis by (simp add: assert_no_orphan_attempt_def)
next
  case (Some x)
  have keys: "p \<in> set (dict_keys (tj_files J))" if "ledger J p = Book (Some x) False m" for p m
    using that dict_get_None_iff [of "tj_files J" p]
    by (auto simp: ledger_def split: option.splits)
  show ?thesis using assms Some keys orphan_scan_exact [of a J now x]
    by (auto simp: assert_no_orphan_attempt_def)
qed

lemma reserve_body_exact:
  assumes wf: "journal_wf J"
    and lost: "\<And>p. p \<noteq> a \<Longrightarrow> cp \<noteq> None \<Longrightarrow> ledger J p \<noteq> Lost"
    and cp: "cp = None \<or> is_checkpoint_id (the cp)"
  shows "answer_of (fst (reserve_body now a c cp J)) = ledger_answer (ledger J) a c cp"
proof (cases "cp \<noteq> None \<and> (\<exists>b m. b \<noteq> a \<and> ledger J b = Book cp False m)")
  case True
  then show ?thesis using orphan_exact [of a cp J now, OF lost cp]
    by (simp add: reserve_body_def ledger_answer_def)
next
  case False
  then have no: "assert_no_orphan_attempt now a cp J = (Inr (), J)"
    using orphan_exact [of a cp J now, OF lost cp] by auto
  show ?thesis
  proof (cases "ledger J a = Lost")
    case True
    obtain m J' where "read_document now a cp False J = (Inl (JCorruptionError m), J')"
      using read_lost [OF True] by blast
    then show ?thesis using no True False by (auto simp: reserve_body_def ledger_answer_def)
  next
    case nl: False
    then show ?thesis
    proof (cases rule: read_not_lost [of J a now cp False])
      case none
      have "answer_of (fst (reserve_body now a c cp J)) =
          map_option fst (answer_of (reserve_in_document now c (new_document now a cp)))"
        by (rule reserve_body_unfold [OF no none(2)]) (simp_all add: new_document_def)
      then show ?thesis using none(1) False
        by (auto simp: ledger_answer_def reserve_in_document_def new_document_def dict_values_def)
    next
      case (some d)
      show ?thesis
      proof (cases "jd_checkpoint_id d = cp")
        case False
        then show ?thesis using some no \<open>\<not> (cp \<noteq> None \<and> _)\<close>
          by (auto simp: reserve_body_def ledger_answer_def)
      next
        case same: True
        have "answer_of (fst (reserve_body now a c cp J)) =
            map_option fst (answer_of (reserve_in_document now c d))"
          by (rule reserve_body_unfold [OF no some(1)]) (simp_all add: same)
        moreover have "dict_wf (jd_entries d)" using wf some(4) by (auto simp: journal_wf_def)
        ultimately show ?thesis
          using reserve_in_document_answer [of d now c] some(3) same
          unfolding ledger_answer_def if_not_P [OF False] by simp
      qed
    qed
  qed
qed

text \<open>The entries stay JSON objects.\<close>

lemma journal_wf_write:
  "journal_wf J \<Longrightarrow> dict_wf (jd_entries d) \<Longrightarrow> journal_wf (write_document a d J)"
  by (simp add: journal_wf_def write_document_def)

lemma journal_wf_read:
  assumes "read_document now a pcp allow J = (r, J')" and "journal_wf J"
  shows "journal_wf J' \<and> (\<forall>d. r = Inr (Some d) \<longrightarrow> dict_wf (jd_entries d))"
proof -
  have "journal_wf J'" using assms
    by (auto simp: read_document_def new_document_def intro!: journal_wf_write
        split: option.splits if_splits)
  moreover have "dict_wf (jd_entries d)" if "r = Inr (Some d)" for d
    using read_SomeD(2) [of now a pcp allow J d J'] assms that by (auto simp: journal_wf_def)
  ultimately show ?thesis by blast
qed

lemma journal_wf_scan:
  "scan_attempts now ps J done tot = (x, J') \<Longrightarrow> journal_wf J \<Longrightarrow> journal_wf J'"
proof (induction now ps J "done" tot rule: scan_attempts.induct)
  case (2 now p ps J "done" tot)
  obtain r J1 where r: "read_document now p None False J = (r, J1)" by force
  have "journal_wf J1" using journal_wf_read [OF r] 2 by simp
  then show ?case using 2 r by (cases r; cases "projr r") auto
qed simp

lemma journal_wf_prune: "journal_wf J \<Longrightarrow> journal_wf (prune_locked now J)"
proof -
  assume wf: "journal_wf J"
  obtain dn tot J' where s: "scan_attempts now (dict_keys (tj_files J)) J [] 0 = ((dn, tot), J')"
    by (metis prod.exhaust)
  have "journal_wf J'" by (rule journal_wf_scan [OF s wf])
  then show ?thesis using s
    by (auto simp: prune_locked_def Let_def journal_wf_def unlink_all_def dict_get_fold_del
        split: if_splits)
qed

lemma journal_wf_orphan:
  "orphan_scan now a cp ps J = (r, J') \<Longrightarrow> journal_wf J \<Longrightarrow> journal_wf J'"
proof (induction now a cp ps J rule: orphan_scan.induct)
  case (2 now a cp p ps J)
  obtain r J1 where r: "read_document now p None True J = (r, J1)" by force
  have "journal_wf J1" using journal_wf_read [OF r] 2 by simp
  then show ?case using 2 r by (cases r; cases "projr r") (auto split: if_splits)
qed simp

lemma journal_wf_reserve_body:
  assumes "reserve_body now a c cp J = (r, J')" and "journal_wf J"
  shows "journal_wf J'"
proof -
  obtain u J1 where 1: "assert_no_orphan_attempt now a cp J = (u, J1)" by force
  obtain y J2 where 2: "read_document now a cp False J1 = (y, J2)" by force
  have w1: "journal_wf J1" using 1 assms(2)
    by (auto simp: assert_no_orphan_attempt_def split: option.splits if_splits
        dest: journal_wf_orphan)
  have w2: "journal_wf J2" "\<And>d. y = Inr (Some d) \<Longrightarrow> dict_wf (jd_entries d)"
    using journal_wf_read [OF 2 w1] by auto
  have grant: "dict_wf (jd_entries d')"
    if "reserve_in_document now c d = Inr (Execute, d')" "dict_wf (jd_entries d)" for d d'
    using reserve_in_document_Execute(4) [OF that(1)] that(2)
    by (simp add: granted_doc_def dict_wf_set)
  have "dict_wf (jd_entries (new_document now a cp))" by (simp add: new_document_def)
  then show ?thesis using assms(1) 1 2 w1 w2
    by (cases u; cases y; cases "projr y")
      (auto simp: reserve_body_def Let_def split: if_splits sum.splits prod.splits
        journal_reservation.splits intro!: journal_wf_prune journal_wf_write dest: grant)
qed

lemma journal_wf_step: "journal_wf J \<Longrightarrow> journal_wf (snd (journal_step redact J cmd))"
proof -
  assume wf: "journal_wf J"
  have rd: "journal_wf (snd (read_document now a cp al J))" for now a cp al
    using journal_wf_read [of now a cp al J] wf by (metis prod.collapse)
  show ?thesis
  proof (cases cmd)
    case (CReserve now busy a c cp)
    then show ?thesis using wf journal_wf_reserve_body [of now a c cp J]
      by (auto simp: journal_step_def journal_reserve_def validate_attempt_id_def with_lock_def
          split: prod.splits)
  next
    case (CComplete now busy a c res)
    have "journal_wf (snd (complete_body redact now a c res J))"
      using journal_wf_read [of now a None False J] wf
      by (auto simp: complete_body_def Let_def intro!: journal_wf_write dict_wf_set
          split: prod.splits sum.splits option.splits)
    then show ?thesis using CComplete wf
      by (auto simp: journal_step_def journal_complete_def validate_attempt_id_def with_lock_def
          split: prod.splits)
  next
    case (CSettle now busy a)
    have "dict_wf (map (\<lambda>p. (fst p, f (snd p))) d)" if "dict_wf d"
      for f and d :: "(string, journal_entry) pydict"
      using that by (simp add: dict_wf_def o_def)
    then have "journal_wf (snd (settle_body now a J))"
      using journal_wf_read [of now a None False J] wf
      by (auto simp: settle_body_def seal_document_def intro!: journal_wf_prune journal_wf_write
          split: prod.splits sum.splits option.splits)
    then show ?thesis using CSettle wf
      by (auto simp: journal_step_def settle_attempt_def validate_attempt_id_def with_lock_def
          split: prod.splits)
  next
    case (CMark now busy a)
    have "journal_wf (snd (mark_body now a J))"
      using journal_wf_read [of now a None False J] wf
      by (auto simp: mark_body_def seal_document_def intro!: journal_wf_prune journal_wf_write
          split: prod.splits sum.splits option.splits)
    then show ?thesis using CMark wf
      by (auto simp: journal_step_def mark_attempt_complete_def validate_attempt_id_def with_lock_def
          split: prod.splits)
  next
    case (CLoad now busy a)
    then show ?thesis using wf rd
      by (auto simp: journal_step_def journal_load_def validate_attempt_id_def with_lock_def)
  next
    case (CHasPending now busy a)
    then show ?thesis using wf rd [of now a None False]
      by (auto simp: journal_step_def has_pending_def validate_attempt_id_def with_lock_def
          split: prod.splits sum.splits option.splits)
  next
    case (CDamage a)
    then show ?thesis using wf by (simp add: journal_step_def damage_file_def journal_wf_def)
  qed
qed

interpretation tjw: machine "\<lambda>J cmd. snd (journal_step redact J cmd)" journal_wf
  by unfold_locales (rule journal_wf_step)

section \<open>Committed results\<close>

lemma done_path:
  assumes "trail ledger_step L es L'"
    and "L a = Lost \<or> (\<exists>cp m b. L a = Book cp b m \<and> m k = Some (Done r))"
    and "\<And>cp b m. L a = Book cp b m \<Longrightarrow> \<not> b" and "Sealed a \<notin> set es"
  shows "L' a = Lost \<or> (\<exists>cp m. L' a = Book cp False m \<and> m k = Some (Done r))"
proof (rule trail_invariant [OF assms(1),
      where P = "\<lambda>L. L a = Lost \<or> (\<exists>cp m. L a = Book cp False m \<and> m k = Some (Done r))"])
  show "L a = Lost \<or> (\<exists>cp m. L a = Book cp False m \<and> m k = Some (Done r))"
    using assms(2,3) by auto
next
  fix x e y
  assume "ledger_step x e y" and "e \<in> set es"
    and "x a = Lost \<or> (\<exists>cp m. x a = Book cp False m \<and> m k = Some (Done r))"
  then show "y a = Lost \<or> (\<exists>cp m. y a = Book cp False m \<and> m k = Some (Done r))"
    using assms(4) by (cases rule: ledger_step.cases) auto
qed

lemma reserve_of_done:
  assumes "journal_reserve now busy a c cp J = (Inr x, J')"
    and "ledger J a = Lost \<or> (\<exists>cp m. ledger J a = Book cp b m \<and> m (jc_key c) = Some (Done r))"
  shows "x = Reuse r"
  using assms(1)
proof (cases rule: journal_reserve_cases)
  case body
  obtain d J2 d' where view: "ledger J a = Fresh \<and> d = new_document now a cp \<or>
         ledger J a = Book cp (jd_completed d) (doc_calls d)"
    and d': "reserve_in_document now c d = Inr (x, d')"
    by (rule reserve_body_Inr [OF body(3,1)]) blast
  have "doc_calls d (jc_key c) = Some (Done r)" using view assms(2) by auto
  then obtain e where "dict_get (jd_entries d) (jc_key c) = Some e" "entry_view e = Done r"
    by (auto simp: doc_calls_def)
  then show ?thesis using d'
    by (cases "je_status e") (auto simp: reserve_in_document_def entry_view_def)
qed simp

lemma complete_open:
  assumes "journal_complete redact now busy a c res J = (Inr r, J')"
  shows "\<exists>cp b m t d. ledger J a = Book cp b m \<and> m (jc_key c) = Some (In_Flight t d) \<and>
    r = clean_result redact (tj_max_result_chars J) res \<and>
    ledger J' = (ledger J)(a := Book cp b (m(jc_key c \<mapsto> Done r)))"
  using assms
proof (cases rule: journal_complete_cases)
  case body
  from body show ?thesis
  proof (cases rule: complete_body_cases)
    case (committed cp b m cleaned t dg)
    then show ?thesis by auto
  qed simp
qed simp

section \<open>The state reported for a remote call\<close>

definition view_state :: "attempt_view \<Rightarrow> string \<Rightarrow> remote_state" where
  "view_state v key =
     (case v of Fresh \<Rightarrow> NotStarted
      | Lost \<Rightarrow> RemoteUnknown
      | Book cp b m \<Rightarrow>
          (case m key of None \<Rightarrow> NotStarted | Some (Done r) \<Rightarrow> RemoteCompleted
           | Some _ \<Rightarrow> RemoteUnknown))"

lemma remote_state_of_book:
  "remote_journal_state (map_option je_status (dict_get (jd_entries d) key)) =
   view_state (Book cp b (doc_calls d)) key"
proof (cases "dict_get (jd_entries d) key")
  case None
  then show ?thesis by (simp add: remote_journal_state_def view_state_def doc_calls_def)
next
  case (Some e)
  then show ?thesis
    by (cases "je_status e") (simp_all add: remote_journal_state_def view_state_def doc_calls_def entry_view_def)
qed

section \<open>Properties\<close>

text \<open>
  C5. The journal refines the ledger: for any sequence of commands of any number of
  processes (a lost file included), from any directory, there is a path of the ledger from the
  ledger of the directory before to that after, and the grants, commits, seals and losses that
  the callers see are, in order, exactly the events of that path other than the forgetting of
  sealed attempts by pruning.\<close>

theorem journal_refines_ledger:
  "\<exists>es. trail ledger_step (ledger J) es (ledger (snd (run_obs (journal_step redact) J cmds))) \<and>
        filter visible es = fst (run_obs (journal_step redact) J cmds)"
  by (rule tj.run_sim) simp

text \<open>
  C6. At most once: in whatever the callers of the journal see over a run, between two
  execution grants in one attempt the attempt was sealed if the grants are for the same call
  key, or if they are for the same action (tool and argument digest) and the first call's result
  was not committed in between. A crash after a grant, a retry with a new call id, a lost
  file, a lock that was busy change nothing of this.\<close>

theorem at_most_once:
  assumes "fst (run_obs (journal_step redact) J cmds) =
      us @ Granted a k t d # ws @ Granted a k' t' d' # zs"
    and "k' = k \<or> t' = t \<and> d' = d \<and> (\<forall>r. Committed a k r \<notin> set ws)"
  shows "Sealed a \<in> set ws"
proof -
  obtain es where es: "trail ledger_step (ledger J) es
      (ledger (snd (run_obs (journal_step redact) J cmds)))"
    and vis: "filter visible es = us @ Granted a k t d # ws @ Granted a k' t' d' # zs"
    using tj.run_sim [OF prod.collapse [symmetric]] assms(1) by metis
  obtain es1 es2 es3 where eq: "es = es1 @ Granted a k t d # es2 @ Granted a k' t' d' # es3"
    and ws: "filter visible es2 = ws"
    using vis by (rule filter_two)
  have "Sealed a \<in> set es2"
    by (rule ledger_grants [OF es [unfolded eq]])
      (use assms(2) set_filter_visible [OF ws] in auto)
  then show ?thesis using set_filter_visible [OF ws] by simp
qed

text \<open>Two attempts and one call, for the concrete runs.\<close>

definition example_attempt :: "char \<Rightarrow> string" where
  "example_attempt x = ''att_'' @ replicate 32 x"

definition example_call :: journal_call where
  "example_call = \<lparr>jc_key = ''call_'' @ replicate 64 (CHR ''1''), jc_tool = ''write'',
     jc_args_digest = replicate 64 (CHR ''d''), jc_ordinal = 0\<rparr>"

definition never_busy :: "nat \<Rightarrow> bool" where
  "never_busy k = False"

definition example_journal :: "int \<Rightarrow> tool_journal" where
  "example_journal n = \<lparr>tj_files = [], tj_retention_limit = n, tj_max_result_chars = 1000\<rparr>"

definition example_checkpoint :: string where
  "example_checkpoint = ''cp_'' @ replicate 32 (CHR ''1'')"

text \<open>With a retention limit of one, the sealed attempt \<open>a\<close> is pruned when \<open>b\<close> is sealed, and
  the same call of \<open>a\<close> is granted again: sealing is the only way there.\<close>

lemma pruned_attempt_run:
  "fst (run_obs (journal_step id) (example_journal 1)
     [CReserve ''1'' never_busy (example_attempt CHR ''a'') example_call None,
      CSettle ''2'' never_busy (example_attempt CHR ''a''),
      CReserve ''3'' never_busy (example_attempt CHR ''b'') example_call None,
      CSettle ''4'' never_busy (example_attempt CHR ''b''),
      CReserve ''5'' never_busy (example_attempt CHR ''a'') example_call None]) =
   [] @ Granted (example_attempt CHR ''a'') (jc_key example_call) ''write'' (jc_args_digest example_call) #
   ([Sealed (example_attempt CHR ''a''),
     Granted (example_attempt CHR ''b'') (jc_key example_call) ''write'' (jc_args_digest example_call),
     Sealed (example_attempt CHR ''b'')]) @
   Granted (example_attempt CHR ''a'') (jc_key example_call) ''write'' (jc_args_digest example_call) # []"
  by code_simp

theorem at_most_once_witness:
  "Sealed (example_attempt CHR ''a'') \<in> set
     [Sealed (example_attempt CHR ''a''),
      Granted (example_attempt CHR ''b'') (jc_key example_call) ''write'' (jc_args_digest example_call),
      Sealed (example_attempt CHR ''b'')]"
  by (rule at_most_once [OF pruned_attempt_run]) simp

text \<open>
  C7. Exactness of a reservation: for a valid attempt id and call key, with the lock
  acquired within five tries and, when the attempt is bound to a checkpoint, no other file of
  the directory lost, the reservation is granted, reused, uncertain or refused exactly as the
  ledger says. An unsealed attempt of the same checkpoint refuses a fresh one; a committed
  result is reused; a call or an action whose outcome is unknown is uncertain; a sealed attempt
  takes no new call.\<close>

theorem reserve_exact:
  assumes "journal_wf J" and "is_attempt_id a" and "is_call_key (jc_key c)"
    and "lock_acquired JOURNAL_LOCK_RETRIES busy" and "cp = None \<or> is_checkpoint_id (the cp)"
    and "\<And>p. p \<noteq> a \<Longrightarrow> cp \<noteq> None \<Longrightarrow> ledger J p \<noteq> Lost"
  shows "answer_of (fst (journal_reserve now busy a c cp J)) = ledger_answer (ledger J) a c cp"
  using reserve_body_exact [OF assms(1) assms(6) assms(5)] assms(2-4)
  by (simp add: journal_reserve_def validate_attempt_id_def with_lock_def)

theorem reserve_exact_witness:
  "answer_of (fst (journal_reserve ''1'' never_busy (example_attempt CHR ''a'') example_call
     (Some example_checkpoint) (example_journal 1))) =
   ledger_answer (ledger (example_journal 1)) (example_attempt CHR ''a'') example_call
     (Some example_checkpoint)"
proof (rule reserve_exact)
  show "journal_wf (example_journal 1)" by (simp add: journal_wf_def example_journal_def)
  show "is_attempt_id (example_attempt CHR ''a'')" by code_simp
  show "is_call_key (jc_key example_call)" by code_simp
  show "lock_acquired JOURNAL_LOCK_RETRIES never_busy" by code_simp
  have "is_checkpoint_id example_checkpoint" by code_simp
  then show "Some example_checkpoint = None \<or> is_checkpoint_id (the (Some example_checkpoint))"
    by simp
  show "ledger (example_journal 1) p \<noteq> Lost" for p
    by (simp add: ledger_def example_journal_def)
qed

text \<open>
  C32. A committed result survives: after \<open>complete\<close> returned \<open>r\<close> in an open attempt, and
  any commands of any processes that do not seal the attempt, a reservation of the same call in
  it can only answer with \<open>r\<close> or raise; and \<open>r\<close> is the cleaned result.\<close>

theorem committed_result_is_reused:
  assumes "journal_complete redact now busy a c res J = (Inr r, J1)"
    and "\<And>cp b m. ledger J a = Book cp b m \<Longrightarrow> \<not> b"
    and "run_obs (journal_step redact) J1 cmds = (vs, J2)" and "Sealed a \<notin> set vs"
    and "jc_key c' = jc_key c" and "journal_reserve now' busy' a c' cp J2 = (Inr x, J3)"
  shows "x = Reuse r \<and> r = clean_result redact (tj_max_result_chars J) res"
proof -
  obtain cp0 b m t d where open0: "ledger J a = Book cp0 b m"
    and r: "r = clean_result redact (tj_max_result_chars J) res"
    and J1: "ledger J1 = (ledger J)(a := Book cp0 b (m(jc_key c \<mapsto> Done r)))"
    using complete_open [OF assms(1)] by blast
  obtain es where es: "trail ledger_step (ledger J1) es (ledger J2)" "filter visible es = vs"
    using tj.run_sim [OF assms(3)] by blast
  have "ledger J2 a = Lost \<or> (\<exists>cp m. ledger J2 a = Book cp False m \<and> m (jc_key c) = Some (Done r))"
    by (rule done_path [OF es(1)])
      (use J1 assms(2) [OF open0] set_filter_visible [OF es(2), of "Sealed a"] assms(4) in auto)
  then show ?thesis using reserve_of_done [OF assms(6)] assms(5) r by auto
qed

text \<open>
  The state reported for a remote call is the ledger's: completed exactly for a
  committed result, not started exactly when the attempt holds no trace of the call, and
  unknown for a call in flight, a call given up and a lost file; an invalid attempt id
  propagates and a busy journal is unknown.\<close>

theorem remote_state_exact:
  assumes "remote_call_key sha call_id = Inr key"
  shows "fst (remote_state_of sha now busy a call_id J) =
    (if \<not> busy 0 \<and> \<not> is_attempt_id a then Inl (JValueError ''Invalid attempt_id'')
     else Inr (if busy 0 then RemoteUnknown else view_state (ledger J a) key))"
proof (cases "busy 0 \<or> \<not> is_attempt_id a")
  case True
  then show ?thesis using assms
    by (auto simp: remote_state_of_def journal_load_def with_lock_def lock_acquired_def
        validate_attempt_id_def)
next
  case False
  then have load: "journal_load now busy a J = read_document now a None False J"
    by (simp add: journal_load_def with_lock_def lock_acquired_def validate_attempt_id_def)
  show ?thesis
  proof (cases "ledger J a = Lost")
    case True
    obtain m J' where "read_document now a None False J = (Inl (JCorruptionError m), J')"
      using read_lost [OF True] by blast
    then show ?thesis using load assms False True by (simp add: remote_state_of_def view_state_def)
  next
    case nl: False
    then show ?thesis
    proof (cases rule: read_not_lost [of J a now None False])
      case none
      then show ?thesis using load assms False by (simp add: remote_state_of_def view_state_def)
    next
      case (some d)
      then show ?thesis using load assms False remote_state_of_book [of d key]
        by (simp add: remote_state_of_def)
    qed
  qed
qed

theorem remote_state_exact_witness:
  "fst (remote_state_of (\<lambda>x. x) ''1'' never_busy (example_attempt CHR ''a'')
     (''call_'' @ replicate 32 CHR ''1'') (example_journal 1)) = Inr NotStarted"
proof -
  have key: "remote_call_key (\<lambda>x. x) (''call_'' @ replicate 32 CHR ''1'') =
      Inr (''call_'' @ ''call_'' @ replicate 32 CHR ''1'')" by code_simp
  have "is_attempt_id (example_attempt CHR ''a'')" by code_simp
  moreover have "ledger (example_journal 1) x = Fresh" for x
    by (simp add: ledger_def example_journal_def)
  ultimately show ?thesis
    using remote_state_exact [OF key, of "''1''" never_busy "example_attempt CHR ''a''" "example_journal 1"]
    by (simp add: never_busy_def view_state_def)
qed

theorem committed_result_is_reused_witness:
  "fst (journal_reserve ''3'' never_busy (example_attempt CHR ''a'') example_call None
     (snd (journal_complete id ''2'' never_busy (example_attempt CHR ''a'') example_call ''done''
       (snd (journal_reserve ''1'' never_busy (example_attempt CHR ''a'') example_call None
         (example_journal 1)))))) = Inr (Reuse ''done'')"
proof -
  define J where "J = snd (journal_reserve ''1'' never_busy (example_attempt CHR ''a'') example_call None
         (example_journal 1))"
  define J1 where "J1 = snd (journal_complete id ''2'' never_busy (example_attempt CHR ''a'')
         example_call ''done'' J)"
  have c: "journal_complete id ''2'' never_busy (example_attempt CHR ''a'') example_call ''done'' J =
      (Inr ''done'', J1)"
    unfolding J1_def J_def by code_simp
  have "answer_of (fst (journal_reserve ''3'' never_busy (example_attempt CHR ''a'') example_call None J1))
      \<noteq> None"
    unfolding J1_def J_def by code_simp
  then obtain x J3 where x: "journal_reserve ''3'' never_busy (example_attempt CHR ''a'') example_call None J1
      = (Inr x, J3)"
    by (cases "journal_reserve ''3'' never_busy (example_attempt CHR ''a'') example_call None J1";
        cases "fst (journal_reserve ''3'' never_busy (example_attempt CHR ''a'') example_call None J1)")
      auto
  have "\<not> b" if "ledger J (example_attempt CHR ''a'') = Book cp b m" for cp b m
  proof -
    have "(case file_view (example_attempt CHR ''a'')
        (the (dict_get (tj_files J) (example_attempt CHR ''a''))) of Book cp b m \<Rightarrow> \<not> b | _ \<Rightarrow> True)"
      unfolding J_def by code_simp
    then show ?thesis using that by (auto simp: ledger_def split: option.splits)
  qed
  then have "x = Reuse ''done'' \<and> ''done'' = clean_result id (tj_max_result_chars J) ''done''"
    by (intro committed_result_is_reused [OF c _ _ _ refl x, of "[]" "[]"]) auto
  then show ?thesis using x unfolding J1_def J_def by simp
qed

text \<open>The file of an attempt bound to a checkpoint is lost while its call is in flight. The next
  operation on any other attempt reads the lost file while pruning and replaces it by a poison
  document without the checkpoint; a fresh attempt of the same checkpoint is then granted the
  very action whose outcome is unknown.\<close>

lemma lost_scope_fails_open:
  "fst (run_obs (journal_step id) (example_journal 100)
     [CReserve ''1'' never_busy (example_attempt CHR ''a'') example_call (Some example_checkpoint),
      CDamage (example_attempt CHR ''a''),
      CReserve ''2'' never_busy (example_attempt CHR ''b'') example_call None,
      CReserve ''3'' never_busy (example_attempt CHR ''c'') example_call (Some example_checkpoint)]) =
   grant_events (example_attempt CHR ''a'') example_call @ [Damaged (example_attempt CHR ''a'')] @
   grant_events (example_attempt CHR ''b'') example_call @
   grant_events (example_attempt CHR ''c'') example_call"
  by code_simp

section \<open>The call allocator\<close>

text \<open>The calls a binding without a remote id hands out for a list of signatures.\<close>

fun allocate ::
  "(string \<Rightarrow> string) \<Rightarrow> (string \<times> string) list \<Rightarrow> journal_binding \<Rightarrow> journal_call list" where
  "allocate sha [] b = []"
| "allocate sha ((tool, digest) # ts) b =
     (case next_call sha tool digest b of
        (Inl e, b') \<Rightarrow> allocate sha ts b'
      | (Inr c, b') \<Rightarrow> c # allocate sha ts b')"

definition signature :: "string \<times> string \<Rightarrow> string \<times> string" where
  "signature t = (lower (strip (fst t)), snd t)"

definition allocated_call :: "(string \<Rightarrow> string) \<Rightarrow> string \<times> string \<Rightarrow> nat \<Rightarrow> journal_call" where
  "allocated_call sha s n =
     \<lparr>jc_key = stable_call_key sha (fst s) (snd s) (int n), jc_tool = fst s,
      jc_args_digest = snd s, jc_ordinal = int n\<rparr>"

lemma next_call_local:
  assumes "jb_remote_call_id b = None"
  shows "next_call sha tool digest b =
    (let s = signature (tool, digest); n = dict_get_or (jb_ordinals b) s 0 in
     (Inr (allocated_call sha s n), b\<lparr>jb_ordinals := dict_set s (n + 1) (jb_ordinals b)\<rparr>))"
  using assms by (simp add: next_call_def signature_def allocated_call_def Let_def)

lemma allocate_nth:
  assumes "jb_remote_call_id b = None" and "i < length ts"
  shows "allocate sha ts b ! i =
    (let s = signature (ts ! i) in
     allocated_call sha s
       (dict_get_or (jb_ordinals b) s 0 + length (filter (\<lambda>u. signature u = s) (take i ts))))"
  using assms
proof (induction ts arbitrary: b i)
  case Nil
  then show ?case by simp
next
  case (Cons t ts)
  obtain tool digest where t: "t = (tool, digest)" by force
  show ?case
    using Cons.IH [of "b\<lparr>jb_ordinals := dict_set (signature t)
        (dict_get_or (jb_ordinals b) (signature t) 0 + 1) (jb_ordinals b)\<rparr>"] Cons.prems
    by (cases i) (auto simp: t next_call_local Let_def)
qed

lemma length_allocate: "jb_remote_call_id b = None \<Longrightarrow> length (allocate sha ts b) = length ts"
  by (induction sha ts b rule: allocate.induct) (auto simp: next_call_local Let_def)

text \<open>A fresh binding numbers the occurrences of each signature, so no two calls of a request
  agree in tool, arguments and ordinal, and a resumed request that makes the same calls gets
  the same keys.\<close>

lemma allocate_distinct:
  assumes "jb_remote_call_id b = None" and "jb_ordinals b = []"
  shows "distinct (map (\<lambda>c. (jc_tool c, jc_args_digest c, jc_ordinal c)) (allocate sha ts b))"
proof -
  let ?f = "\<lambda>c :: journal_call. (jc_tool c, jc_args_digest c, jc_ordinal c)"
  have le: "length (filter P (take i ts)) < length (filter P (take j ts))"
    if "i < j" "j < length ts" "P (ts ! i)" for P i j
  proof -
    have "take j ts = take i ts @ ts ! i # take (j - Suc i) (drop (Suc i) ts)"
      using that by (metis Suc_leI append_Cons append_Nil append_assoc append_take_drop_id
          le_add_diff_inverse order.strict_trans take_Suc_conv_app_nth take_add)
    then show ?thesis using that by simp
  qed
  have ne: "?f (allocate sha ts b ! i) \<noteq> ?f (allocate sha ts b ! j)"
    if "i < j" "j < length ts" for i j
    using that le [OF that, of "\<lambda>u. signature u = signature (ts ! i)"] assms
    by (auto simp: allocate_nth Let_def allocated_call_def dict_get_or_def prod_eq_iff)
  show ?thesis
    unfolding distinct_conv_nth
  proof (intro allI impI)
    fix i j
    assume "i < length (map ?f (allocate sha ts b))" "j < length (map ?f (allocate sha ts b))" "i \<noteq> j"
    then show "map ?f (allocate sha ts b) ! i \<noteq> map ?f (allocate sha ts b) ! j"
      using ne [of i j] ne [of j i] assms by (cases "i < j") (auto simp: length_allocate)
  qed
qed

end
