(* ===== verification/Team_Spec.thy ===== *)
theory Team_Spec
  imports Plan_Correct Definitions
begin

text \<open>
  The static part of the expert teams: the specifications of \<open>protocol/agents.py\<close> (a team is its
  members, the stages of its SOP and its limits) and their validation,
  \<open>core/agents/spec.py\<close>. The checks raise at the first thing they refuse; each kind of refusal is
  a constructor of \<open>team_error\<close>. The graph of the roles that may consult each other is searched
  depth first with three colours; the search carries the depth of recursion it may use, which the
  number of roles bounds. \<open>so\<close> is \<open>str\<close> on values that are not strings.
\<close>

section \<open>Specifications\<close>

record team_member =
  tm_role :: string
  tm_display_name :: string
  tm_goal :: string
  tm_backstory :: string
  tm_constraints :: "string list"
  tm_model :: "string option"
  tm_tools :: "string list option"
  tm_prompt_stage :: string
  tm_mechanical :: bool
  tm_memory_shared :: bool
  tm_timeout_s :: rat
  tm_token_budget :: "int option"
  tm_may_consult :: "string list"
  tm_extra :: "(string, pyval) pydict"

record sop_stage =
  ss_name :: string
  ss_role :: string
  ss_expected_output :: string
  ss_context_keys :: "string list"
  ss_output_key :: string
  ss_verify_before_next :: "string list"
  ss_audit_after_verify :: bool
  ss_next_on_success :: "string option"
  ss_next_on_failure :: "string option"
  ss_max_retries :: int
  ss_parallel_members :: "string list option"

record team_spec =
  ts_name :: string
  ts_display_name :: string
  ts_description :: string
  ts_members :: "team_member list"
  ts_stages :: "sop_stage list"
  ts_entry_stage :: string
  ts_total_token_budget :: int
  ts_total_timeout_s :: rat
  ts_max_delegations :: int
  ts_extra :: "(string, pyval) pydict"

datatype team_error =
    Duplicate_Role
  | Duplicate_Stage
  | Unknown_Entry string
  | Unknown_Stage_Role string string
  | Duplicate_Parallel string string
  | Unknown_Parallel string string
  | Unknown_Next string string
  | Self_Consult string
  | Unknown_Consult string string
  | Bad_Namespace string
  | Bad_Skill_Name pyval
  | Skills_Not_List
  | Unhashable_Flag
  | Too_Many_Leaders
  | No_Exit
  | Consult_Cycle
  | Recursion_Depth

section \<open>Sequencing checks\<close>

definition refuse_if :: "bool \<Rightarrow> team_error \<Rightarrow> (team_error, unit) result" where
  "refuse_if b e = (if b then Inl e else Inr ())"

definition and_then ::
  "(team_error, unit) result \<Rightarrow> (team_error, unit) result \<Rightarrow> (team_error, unit) result" where
  "and_then r s = bind_result r (\<lambda>_. s)"

fun check_all :: "('a \<Rightarrow> (team_error, unit) result) \<Rightarrow> 'a list \<Rightarrow> (team_error, unit) result" where
  "check_all f [] = Inr ()"
| "check_all f (x # xs) = and_then (f x) (check_all f xs)"

lemma refuse_if_ok [simp]: "refuse_if b e = Inr () \<longleftrightarrow> \<not> b"
  by (simp add: refuse_if_def)

lemma and_then_ok [simp]: "and_then r s = Inr () \<longleftrightarrow> r = Inr () \<and> s = Inr ()"
  by (cases r) (simp_all add: and_then_def)

lemma check_all_ok [simp]: "check_all f xs = Inr () \<longleftrightarrow> (\<forall>x \<in> set xs. f x = Inr ())"
  by (induction xs) auto

section \<open>Extension fields\<close>

definition allowed_extra_prefixes :: "string list" where
  "allowed_extra_prefixes = [''pair.'', ''vision.'', ''persona.'', ''ecosystem.'']"

definition check_extra_namespaces :: "(string, pyval) pydict \<Rightarrow> (team_error, unit) result" where
  "check_extra_namespaces extra =
     check_all
       (\<lambda>key. refuse_if
          (CHR ''.'' \<in> set key \<and> \<not> list_ex (starts_with key) allowed_extra_prefixes)
          (Bad_Namespace key))
       (dict_keys extra)"

definition known_ecosystem_keys :: "string list" where
  "known_ecosystem_keys =
     map (\<lambda>s. ''ecosystem.'' @ s)
       [''skill'', ''extra_skills'', ''mcp'', ''is_leader'', ''category'', ''version'',
        ''disable_model_invocation'', ''provenance'', ''feasibility'', ''data_sources'',
        ''disclaimer'', ''tags'', ''persona_name'', ''example_prompts'', ''requires_mcp'',
        ''requires_skills'', ''hooks'']"

definition unknown_ecosystem_keys :: "(string, pyval) pydict \<Rightarrow> string list" where
  "unknown_ecosystem_keys extra =
     filter (\<lambda>key. starts_with key ''ecosystem.'' \<and> key \<notin> set known_ecosystem_keys)
       (dict_keys extra)"

text \<open>\<open>[a-z0-9](?:[a-z0-9-]{0,62}[a-z0-9])?\<close>, the whole text.\<close>

definition skill_end_char :: "char \<Rightarrow> bool" where
  "skill_end_char c =
     (let n = code_point c in (97 \<le> n \<and> n \<le> 122) \<or> (48 \<le> n \<and> n \<le> 57))"

definition is_skill_name :: "string \<Rightarrow> bool" where
  "is_skill_name s =
     (s \<noteq> [] \<and> length s \<le> 64 \<and> skill_end_char (hd s) \<and> skill_end_char (last s) \<and>
      list_all (\<lambda>c. skill_end_char c \<or> c = CHR ''-'') s)"

definition check_skill_name :: "(pyval \<Rightarrow> string) \<Rightarrow> pyval \<Rightarrow> (team_error, unit) result" where
  "check_skill_name so v =
     refuse_if (\<not> is_skill_name (strip (if truthy v then py_str so v else []))) (Bad_Skill_Name v)"

definition raw_extra :: "(string, pyval) pydict \<Rightarrow> string \<Rightarrow> pyval" where
  "raw_extra extra key = dict_get_or extra key PNone"

definition check_role_ecosystem ::
  "(pyval \<Rightarrow> string) \<Rightarrow> (string, pyval) pydict \<Rightarrow> (team_error, unit) result" where
  "check_role_ecosystem so extra =
     (let skill = raw_extra extra ''ecosystem.skill'';
          extras = raw_extra extra ''ecosystem.extra_skills'' in
      and_then
        (if skill = PNone \<or> skill = PStr [] then Inr () else check_skill_name so skill)
        (case extras of
           PNone \<Rightarrow> Inr ()
         | PList items \<Rightarrow> check_all (check_skill_name so) items
         | _ \<Rightarrow> Inl Skills_Not_List))"

text \<open>\<open>flag in {True, "true", "1"}\<close>: numbers equal to one are equal to \<open>True\<close>; lists and dicts do
  not hash.\<close>

definition leader_flag :: "pyval \<Rightarrow> (team_error, bool) result" where
  "leader_flag v =
     (case v of
        PList _ \<Rightarrow> Inl Unhashable_Flag
      | PDict _ \<Rightarrow> Inl Unhashable_Flag
      | PBool b \<Rightarrow> Inr b
      | PInt i \<Rightarrow> Inr (i = 1)
      | PFloat r \<Rightarrow> Inr (r = 1)
      | PStr s \<Rightarrow> Inr (s = ''true'' \<or> s = ''1'')
      | PNone \<Rightarrow> Inr False)"

section \<open>The graph checks\<close>

text \<open>The search from the entry stage pops the last name of its stack; \<open>by_name[name]\<close> raises for an
  unknown name, which the checks before exclude.\<close>

definition stage_named :: "team_spec \<Rightarrow> string \<Rightarrow> sop_stage option" where
  "stage_named t n = map_of (rev (map (\<lambda>s. (ss_name s, s)) (ts_stages t))) n"

definition successors :: "sop_stage \<Rightarrow> string option list" where
  "successors s = [ss_next_on_success s, ss_next_on_failure s]"

definition targets :: "sop_stage \<Rightarrow> string list" where
  "targets s = concat (map (\<lambda>x. case x of None \<Rightarrow> [] | Some n \<Rightarrow> [n]) (successors s))"

function exit_search :: "team_spec \<Rightarrow> string list \<Rightarrow> string list \<Rightarrow> bool \<Rightarrow> bool" where
  "exit_search t seen stack has_exit =
     (if stack = [] then has_exit
      else
        let name = last stack; rest = butlast stack in
        if name \<in> set seen then exit_search t seen rest has_exit
        else
          (case stage_named t name of
             None \<Rightarrow> False
           | Some s \<Rightarrow>
               exit_search t (name # seen)
                 (rest @ filter (\<lambda>n. n \<notin> set (name # seen)) (targets s))
                 (has_exit \<or> None \<in> set (successors s))))"
  by pat_completeness auto
termination
proof (relation "measures [\<lambda>(t, seen, stack, e). card (set (map ss_name (ts_stages t)) - set seen),
                           \<lambda>(t, seen, stack, e). length stack]", goal_cases)
  case (3 t seen stack e name rest s)
  have "name \<in> set (map ss_name (ts_stages t))"
    using map_of_SomeD [of "rev (map (\<lambda>s. (ss_name s, s)) (ts_stages t))" name s] 3
    by (auto simp: stage_named_def)
  then have "set (map ss_name (ts_stages t)) - set (name # seen) \<subset> set (map ss_name (ts_stages t)) - set seen"
    using 3 by auto
  then show ?case by (simp add: psubset_card_mono)
qed simp_all

declare exit_search.simps [simp del]

definition check_stage_graph_terminates :: "team_spec \<Rightarrow> (team_error, unit) result" where
  "check_stage_graph_terminates t =
     refuse_if (\<not> exit_search t [] [ts_entry_stage t] False) No_Exit"

definition consult_graph :: "team_spec \<Rightarrow> adjacency" where
  "consult_graph t = map (\<lambda>m. (tm_role m, tm_may_consult m)) (ts_members t)"

type_synonym colors = "(string, nat) pydict"

fun consult_visit :: "nat \<Rightarrow> adjacency \<Rightarrow> string \<Rightarrow> colors \<Rightarrow> (team_error, colors) result"
  and consult_visit_all :: "nat \<Rightarrow> adjacency \<Rightarrow> string list \<Rightarrow> colors \<Rightarrow> (team_error, colors) result" where
  "consult_visit 0 adj u cl = Inl Recursion_Depth"
| "consult_visit (Suc n) adj u cl =
     bind_result (consult_visit_all n adj (neighbors adj u) (dict_set u 1 cl))
       (\<lambda>cl'. Inr (dict_set u 2 cl'))"
| "consult_visit_all n adj [] cl = Inr cl"
| "consult_visit_all n adj (v # vs) cl =
     (case dict_get cl v of
        None \<Rightarrow> consult_visit_all n adj vs cl
      | Some s \<Rightarrow>
          if s = 1 then Inl Consult_Cycle
          else if s = 0 then
            bind_result (consult_visit n adj v cl) (\<lambda>cl'. consult_visit_all n adj vs cl')
          else consult_visit_all n adj vs cl)"

fun consult_roots :: "nat \<Rightarrow> adjacency \<Rightarrow> string list \<Rightarrow> colors \<Rightarrow> (team_error, unit) result" where
  "consult_roots n adj [] cl = Inr ()"
| "consult_roots n adj (r # rs) cl =
     (if dict_get_or cl r 0 = 0 then
        bind_result (consult_visit n adj r cl) (\<lambda>cl'. consult_roots n adj rs cl')
      else consult_roots n adj rs cl)"

definition check_consult_graph_acyclic :: "team_spec \<Rightarrow> (team_error, unit) result" where
  "check_consult_graph_acyclic t =
     (let adj = consult_graph t in
      consult_roots (length adj) adj (dict_keys adj) (map (\<lambda>(k, _). (k, 0)) adj))"

section \<open>Validation of a team\<close>

fun check_parallel ::
  "string \<Rightarrow> string list \<Rightarrow> string list \<Rightarrow> string list \<Rightarrow> (team_error, unit) result" where
  "check_parallel st roles seen [] = Inr ()"
| "check_parallel st roles seen (r # rs) =
     and_then (refuse_if (r \<in> set seen) (Duplicate_Parallel st r))
       (and_then (refuse_if (r \<notin> set roles) (Unknown_Parallel st r))
         (check_parallel st roles (r # seen) rs))"

definition check_stage :: "string list \<Rightarrow> string list \<Rightarrow> sop_stage \<Rightarrow> (team_error, unit) result" where
  "check_stage roles names s =
     and_then (refuse_if (ss_role s \<notin> set roles) (Unknown_Stage_Role (ss_name s) (ss_role s)))
       (and_then
         (check_parallel (ss_name s) roles []
           (case ss_parallel_members s of None \<Rightarrow> [] | Some ps \<Rightarrow> ps))
         (check_all
           (\<lambda>x. case x of None \<Rightarrow> Inr () | Some n \<Rightarrow> refuse_if (n \<notin> set names) (Unknown_Next (ss_name s) n))
           (successors s)))"

definition check_member ::
  "(pyval \<Rightarrow> string) \<Rightarrow> string list \<Rightarrow> team_member \<Rightarrow> (team_error, bool) result" where
  "check_member so roles m =
     bind_result
       (and_then (refuse_if (tm_role m \<in> set (tm_may_consult m)) (Self_Consult (tm_role m)))
         (and_then
           (check_all (\<lambda>x. refuse_if (x \<notin> set roles) (Unknown_Consult (tm_role m) x)) (tm_may_consult m))
           (and_then (check_extra_namespaces (tm_extra m)) (check_role_ecosystem so (tm_extra m)))))
       (\<lambda>_. leader_flag (raw_extra (tm_extra m) ''ecosystem.is_leader''))"

fun count_leaders ::
  "(pyval \<Rightarrow> string) \<Rightarrow> string list \<Rightarrow> team_member list \<Rightarrow> nat \<Rightarrow> (team_error, nat) result" where
  "count_leaders so roles [] n = Inr n"
| "count_leaders so roles (m # ms) n =
     bind_result (check_member so roles m)
       (\<lambda>b. count_leaders so roles ms (if b then n + 1 else n))"

definition validate_team :: "(pyval \<Rightarrow> string) \<Rightarrow> team_spec \<Rightarrow> (team_error, unit) result" where
  "validate_team so t =
     (let roles = map tm_role (ts_members t); names = map ss_name (ts_stages t) in
      and_then (refuse_if (\<not> distinct roles) Duplicate_Role)
     (and_then (refuse_if (\<not> distinct names) Duplicate_Stage)
     (and_then (refuse_if (ts_entry_stage t \<notin> set names) (Unknown_Entry (ts_entry_stage t)))
     (and_then (check_all (check_stage roles names) (ts_stages t))
     (and_then
       (bind_result (count_leaders so roles (ts_members t) 0)
         (\<lambda>leaders. refuse_if (1 < leaders) Too_Many_Leaders))
     (and_then (check_extra_namespaces (ts_extra t))
     (and_then (check_stage_graph_terminates t) (check_consult_graph_acyclic t))))))))"

end
