(* ===== verification/Team_Run.thy ===== *)
theory Team_Run
  imports Team_Spec
begin

text \<open>
  The running part of the expert teams: \<open>core/agents/mailbox.py\<close>, \<open>blackboard.py\<close>, \<open>budget.py\<close>,
  \<open>sop.py\<close>, and the loop and the consults of \<open>coordinator.py\<close>. What the members answer, what the
  mechanical verifier finds on the disk and what the clock shows are inputs of each iteration.
  Configuration values are integers and seconds already. \<open>shorten\<close> is \<open>compact_summary\<close>, whose
  ellipsis is outside the characters of the model. Progress notifications and trace spans are not
  modelled.
\<close>

section \<open>The mailbox\<close>

record mail_message =
  ml_from_role :: string
  ml_to_role :: string
  ml_body :: string
  ml_relayed_by :: string
  ml_kind :: string

datatype budget_trip =
    Tokens_Exhausted int
  | Deadline_Reached
  | Delegations_Exceeded int

datatype team_exc =
    Mailbox_Error
  | Blackboard_Full int
  | Budget_Exceeded budget_trip
  | Consult_Denied string string
  | Consult_Budget_Exceeded
  | Precheck_Error string string
  | Team_Py_Error py_exc
  | Member_Error string

definition relay ::
  "string \<Rightarrow> string \<Rightarrow> string \<Rightarrow> string \<Rightarrow> string \<Rightarrow> mail_message list \<Rightarrow>
   (team_exc, mail_message, mail_message list) outcome" where
  "relay from_role to_role body relayed_by kind box =
     (if relayed_by = [] \<or> from_role = to_role then (Inl Mailbox_Error, box)
      else
        let msg = \<lparr>ml_from_role = from_role, ml_to_role = to_role, ml_body = body,
                   ml_relayed_by = relayed_by, ml_kind = kind\<rparr> in
        (Inr msg, box @ [msg]))"

section \<open>The blackboard\<close>

record board_entry =
  be_key :: string
  be_value :: string
  be_author_role :: string
  be_version :: nat

record blackboard =
  bb_log :: "(string, board_entry list) pydict"
  bb_max_bytes :: int
  bb_bytes :: int

text \<open>The length of the UTF-8 encoding, for code points below 256.\<close>

definition utf8_length :: "string \<Rightarrow> nat" where
  "utf8_length s = sum_list (map (\<lambda>c. if code_point c < 128 then 1 else 2) s)"

definition new_blackboard :: "int \<Rightarrow> blackboard" where
  "new_blackboard max_bytes = \<lparr>bb_log = [], bb_max_bytes = max_bytes, bb_bytes = 0\<rparr>"

definition board_versions :: "blackboard \<Rightarrow> string \<Rightarrow> board_entry list" where
  "board_versions b key = dict_get_or (bb_log b) key []"

definition board_put ::
  "string \<Rightarrow> string \<Rightarrow> string \<Rightarrow> blackboard \<Rightarrow> (team_exc, board_entry, blackboard) outcome" where
  "board_put key val author_role b =
     (let n = int (utf8_length val) in
      if bb_bytes b + n > bb_max_bytes b then (Inl (Blackboard_Full (bb_max_bytes b)), b)
      else
        let entry = \<lparr>be_key = key, be_value = val, be_author_role = author_role,
                     be_version = length (board_versions b key) + 1\<rparr> in
        (Inr entry,
         b\<lparr>bb_log := dict_set key (board_versions b key @ [entry]) (bb_log b),
           bb_bytes := bb_bytes b + n\<rparr>))"

definition board_get :: "blackboard \<Rightarrow> string \<Rightarrow> string option" where
  "board_get b key =
     (case dict_get (bb_log b) key of
        None \<Rightarrow> None
      | Some rows \<Rightarrow> if rows = [] then None else Some (be_value (last rows)))"

definition board_keys :: "blackboard \<Rightarrow> string list" where
  "board_keys b = dict_keys (bb_log b)"

fun board_view_into :: "blackboard \<Rightarrow> string list \<Rightarrow> (string, string) pydict \<Rightarrow> (string, string) pydict" where
  "board_view_into b [] d = d"
| "board_view_into b (k # ks) d =
     board_view_into b ks (case board_get b k of None \<Rightarrow> d | Some v \<Rightarrow> dict_set k v d)"

definition board_view :: "blackboard \<Rightarrow> string list \<Rightarrow> (string, string) pydict" where
  "board_view b ks = board_view_into b ks []"

section \<open>The budget\<close>

record team_budget =
  bg_token_budget :: int
  bg_timeout_s :: rat
  bg_started_at :: rat
  bg_deadline :: rat
  bg_max_delegations :: int
  bg_tokens_used :: int
  bg_delegations :: int

record budget_settings =
  bo_token_budget :: "int option"
  bo_timeout_s :: "rat option"
  bo_max_delegations :: "int option"

definition pick :: "'a option \<Rightarrow> 'a option \<Rightarrow> 'a \<Rightarrow> 'a" where
  "pick override cfg fallback =
     (case override of Some x \<Rightarrow> x | None \<Rightarrow> (case cfg of Some x \<Rightarrow> x | None \<Rightarrow> fallback))"

definition budget_bind ::
  "budget_settings \<Rightarrow> budget_settings \<Rightarrow> rat \<Rightarrow> team_spec \<Rightarrow> team_budget \<Rightarrow> team_budget" where
  "budget_bind ov cfg now t g =
     (let timeout = pick (bo_timeout_s ov) (bo_timeout_s cfg) (ts_total_timeout_s t) in
      g\<lparr>bg_token_budget := pick (bo_token_budget ov) (bo_token_budget cfg) (ts_total_token_budget t),
        bg_timeout_s := timeout, bg_started_at := now, bg_deadline := now + timeout,
        bg_max_delegations := pick (bo_max_delegations ov) (bo_max_delegations cfg) (ts_max_delegations t)\<rparr>)"

definition new_budget ::
  "budget_settings \<Rightarrow> budget_settings \<Rightarrow> rat \<Rightarrow> team_spec option \<Rightarrow> team_budget" where
  "new_budget ov cfg now t =
     (let g = \<lparr>bg_token_budget = 500000, bg_timeout_s = 1800, bg_started_at = now,
               bg_deadline = now + 1800, bg_max_delegations = 20, bg_tokens_used = 0,
               bg_delegations = 0\<rparr> in
      case t of None \<Rightarrow> g | Some t \<Rightarrow> budget_bind ov cfg now t g)"

definition budget_start ::
  "budget_settings \<Rightarrow> budget_settings \<Rightarrow> rat \<Rightarrow> team_spec \<Rightarrow> team_budget \<Rightarrow> team_budget" where
  "budget_start ov cfg now t g =
     budget_bind ov cfg now t (g\<lparr>bg_tokens_used := 0, bg_delegations := 0\<rparr>)"

definition budget_check :: "rat \<Rightarrow> team_budget \<Rightarrow> (budget_trip, unit) result" where
  "budget_check now g =
     (if bg_tokens_used g > bg_token_budget g then Inl (Tokens_Exhausted (bg_token_budget g))
      else if now > bg_deadline g then Inl Deadline_Reached
      else if bg_delegations g > bg_max_delegations g then
        Inl (Delegations_Exceeded (bg_max_delegations g))
      else Inr ())"

definition add_tokens :: "int \<Rightarrow> rat \<Rightarrow> team_budget \<Rightarrow> (budget_trip, unit, team_budget) outcome" where
  "add_tokens n now g =
     (let g' = g\<lparr>bg_tokens_used := bg_tokens_used g + max 0 n\<rparr> in (budget_check now g', g'))"

definition add_delegation :: "rat \<Rightarrow> team_budget \<Rightarrow> (budget_trip, unit, team_budget) outcome" where
  "add_delegation now g =
     (let g' = g\<lparr>bg_delegations := bg_delegations g + 1\<rparr> in (budget_check now g', g'))"

section \<open>The stage machine\<close>

record stage_record =
  sr_stage :: string
  sr_ok :: bool
  sr_retry :: int
  sr_next_stage :: "string option"

record sop_machine =
  sm_team :: team_spec
  sm_current :: "string option"
  sm_retries :: "(string, int) pydict"
  sm_history :: "stage_record list"

definition new_sop :: "team_spec \<Rightarrow> sop_machine" where
  "new_sop t = \<lparr>sm_team = t, sm_current = Some (ts_entry_stage t), sm_retries = [], sm_history = []\<rparr>"

definition current_stage :: "sop_machine \<Rightarrow> (py_exc, sop_stage option) result" where
  "current_stage m =
     (case sm_current m of
        None \<Rightarrow> Inr None
      | Some n \<Rightarrow>
          (case stage_named (sm_team m) n of None \<Rightarrow> Inl KeyError | Some s \<Rightarrow> Inr (Some s)))"

definition log_stage :: "sop_stage \<Rightarrow> bool \<Rightarrow> int \<Rightarrow> string option \<Rightarrow> sop_machine \<Rightarrow> sop_machine" where
  "log_stage s is_ok retry nxt m =
     m\<lparr>sm_history := sm_history m @
         [\<lparr>sr_stage = ss_name s, sr_ok = is_ok, sr_retry = retry, sr_next_stage = nxt\<rparr>]\<rparr>"

definition advance ::
  "bool \<Rightarrow> sop_machine \<Rightarrow> (py_exc, sop_stage option, sop_machine) outcome" where
  "advance is_ok m =
     (case current_stage m of
        Inl e \<Rightarrow> (Inl e, m)
      | Inr None \<Rightarrow> (Inr None, m)
      | Inr (Some s) \<Rightarrow>
          let used = dict_get_or (sm_retries m) (ss_name s) 0 in
          if is_ok then
            let m' = (log_stage s True used (ss_next_on_success s) m)
                       \<lparr>sm_current := ss_next_on_success s\<rparr> in
            (current_stage m', m')
          else if used < ss_max_retries s then
            (Inr (Some s),
             log_stage s False (used + 1) (Some (ss_name s))
               (m\<lparr>sm_retries := dict_set (ss_name s) (used + 1) (sm_retries m)\<rparr>))
          else
            let nxt = ss_next_on_failure s;
                m1 = (case nxt of
                        Some n \<Rightarrow>
                          if n \<noteq> [] \<and> n \<noteq> ss_name s then
                            m\<lparr>sm_retries := dict_set n 0 (sm_retries m)\<rparr>
                          else m
                      | None \<Rightarrow> m);
                m' = (log_stage s False used nxt m1)\<lparr>sm_current := nxt\<rparr> in
            (current_stage m', m'))"

section \<open>The coordinator\<close>

record coordinator =
  co_budget :: team_budget
  co_mailbox :: "mail_message list"
  co_board :: blackboard
  co_consults :: int
  co_consult_tokens :: int
  co_max_consults :: int
  co_max_consult_tokens :: int
  co_made_progress :: bool
  co_looping :: bool
  co_stall_count :: nat
  co_delegations :: "(string \<times> string) list"
  co_plan :: "string list"

definition new_coordinator :: "team_budget \<Rightarrow> coordinator" where
  "new_coordinator g =
     \<lparr>co_budget = g, co_mailbox = [], co_board = new_blackboard 1000000, co_consults = 0,
      co_consult_tokens = 0, co_max_consults = 8, co_max_consult_tokens = 20000,
      co_made_progress = False, co_looping = False, co_stall_count = 0, co_delegations = [],
      co_plan = []\<rparr>"

definition find_member :: "team_spec \<Rightarrow> string \<Rightarrow> team_member option" where
  "find_member t r = find (\<lambda>m. tm_role m = r) (ts_members t)"

definition stage_roles :: "sop_stage \<Rightarrow> string list" where
  "stage_roles s =
     (case ss_parallel_members s of
        Some (p # ps) \<Rightarrow> rev (fold (\<lambda>r seen. if r \<in> set seen then seen else r # seen) (p # ps) [])
      | _ \<Rightarrow> [ss_role s])"

definition WRITE_TOOLS :: "string list" where
  "WRITE_TOOLS = [''write'', ''edit'', ''patch'']"

text \<open>The two Chinese hints cannot occur in a text of code points below 256.\<close>

definition WRITE_HINTS :: "string list" where
  "WRITE_HINTS = [''write'', ''edit'', ''file'', ''patch'']"

definition stage_needs_write :: "sop_stage \<Rightarrow> bool" where
  "stage_needs_write s =
     list_ex (contains_str (lower (ss_name s @ '' '' @ ss_expected_output s @ '' '' @ ss_output_key s)))
       WRITE_HINTS"

definition precheck :: "sop_stage \<Rightarrow> team_spec \<Rightarrow> string \<Rightarrow> (team_exc, unit) result" where
  "precheck s t role =
     (case find_member t role of
        None \<Rightarrow> Inl (Team_Py_Error StopIteration)
      | Some m \<Rightarrow>
          if \<not> stage_needs_write s then Inr ()
          else (case tm_tools m of
                  None \<Rightarrow> Inr ()
                | Some tools \<Rightarrow>
                    if list_ex (\<lambda>x. x \<in> set tools) WRITE_TOOLS then Inr ()
                    else Inl (Precheck_Error (ss_name s) (tm_role m))))"

fun precheck_all :: "sop_stage \<Rightarrow> team_spec \<Rightarrow> string list \<Rightarrow> (team_exc, unit) result" where
  "precheck_all s t [] = Inr ()"
| "precheck_all s t (r # rs) = bind_result (precheck s t r) (\<lambda>_. precheck_all s t rs)"

section \<open>Dispatch and verification\<close>

record stage_outcome =
  so_ok :: bool
  so_answer :: string
  so_error :: string

text \<open>\<open>str.upper\<close>: sharp s becomes two letters; the two letters whose capitals lie above 255 keep
  their place.\<close>

definition upper_char :: "char \<Rightarrow> string" where
  "upper_char c =
     (let n = code_point c in
      if n = 223 then ''SS''
      else if (97 \<le> n \<and> n \<le> 122) \<or> (224 \<le> n \<and> n \<le> 254 \<and> n \<noteq> 247) then [char_of (n - 32)]
      else [c])"

definition upper :: "string \<Rightarrow> string" where
  "upper s = concat (map upper_char s)"

definition outcome_counts_as_ok :: "stage_outcome \<Rightarrow> bool" where
  "outcome_counts_as_ok o1 =
     (so_ok o1 \<or>
      (contains_str (upper (so_answer o1)) ''SKIP:'' \<and> contains_str (upper (so_answer o1)) ''NO WORK''))"

definition gathered :: "string \<Rightarrow> (string + stage_outcome) \<Rightarrow> stage_outcome" where
  "gathered role x =
     (case x of
        Inl e \<Rightarrow> \<lparr>so_ok = False, so_answer = [], so_error = role @ '': '' @ e\<rparr>
      | Inr r \<Rightarrow> r)"

text \<open>\<open>asyncio.gather\<close> over several members turns what a member raised into a failed outcome; a
  single member's exception propagates. \<open>answer r\<close> is what the member of role \<open>r\<close> gave.\<close>

definition merge_outcomes ::
  "(string \<Rightarrow> string) \<Rightarrow> string \<Rightarrow> (string \<times> stage_outcome) list \<Rightarrow> stage_outcome" where
  "merge_outcomes shorten stage outs =
     \<lparr>so_ok = (list_all (\<lambda>(r, x). outcome_counts_as_ok x) outs \<or>
               (stage = ''implement'' \<and> list_ex (\<lambda>(r, x). outcome_counts_as_ok x) outs)),
      so_answer = shorten (join_with [CHR 10, CHR 10]
        (map (\<lambda>(r, x). ''['' @ r @ '']'' @ [CHR 10] @ so_answer x) outs)),
      so_error = join_with ''; '' (filter (\<lambda>e. e \<noteq> []) (map (\<lambda>(r, x). so_error x) outs))\<rparr>"

definition dispatch ::
  "(string \<Rightarrow> string) \<Rightarrow> sop_stage \<Rightarrow> (string \<Rightarrow> string + stage_outcome) \<Rightarrow>
   (team_exc, stage_outcome) result" where
  "dispatch shorten s answer =
     (let roles = stage_roles s in
      if length roles = 1 then
        (case answer (hd roles) of Inl e \<Rightarrow> Inl (Member_Error e) | Inr res \<Rightarrow> Inr res)
      else Inr (merge_outcomes shorten (ss_name s) (map (\<lambda>r. (r, gathered r (answer r))) roles)))"

datatype verifier_answer =
    Verdict bool "string list"
  | Undecodable string
  | Verifier_Raised string

record gate_input =
  gi_verdict :: verifier_answer
  gi_allows :: bool
  gi_has_verifier :: bool
  gi_live :: bool

definition apply_verify_gates ::
  "sop_stage \<Rightarrow> gate_input \<Rightarrow> stage_outcome \<Rightarrow> (team_exc, stage_outcome) result" where
  "apply_verify_gates s gi r =
     (let audit = (\<lambda>r. if ss_audit_after_verify s \<and> so_ok r \<and> \<not> gi_allows gi \<and>
                        \<not> gi_has_verifier gi \<and> \<not> gi_live gi then
                     r\<lparr>so_ok := False,
                       so_error := ''missing or stale VerdictRecord for current subject_hash''\<rparr>
                   else r) in
      if ss_verify_before_next s = [] then Inr (audit r)
      else
        (case gi_verdict gi of
           Verifier_Raised e \<Rightarrow> Inl (Member_Error e)
         | Undecodable e \<Rightarrow> Inr (r\<lparr>so_ok := False, so_error := ''utf-8 decode: '' @ e\<rparr>)
         | Verdict passed findings \<Rightarrow>
             if \<not> passed then Inr (r\<lparr>so_ok := False, so_error := join_with ''; '' findings\<rparr>)
             else Inr (audit (r\<lparr>so_ok := True\<rparr>))))"

definition record_progress :: "bool \<Rightarrow> bool \<Rightarrow> coordinator \<Rightarrow> coordinator" where
  "record_progress made_progress looping co =
     (let stall = (if \<not> made_progress \<or> looping then co_stall_count co + 1 else 0);
          co1 = co\<lparr>co_made_progress := made_progress, co_looping := looping,
                   co_stall_count := stall\<rparr> in
      if stall \<ge> 2 then
        co1\<lparr>co_plan := co_plan co @ [''stall: no progress twice; replan''], co_stall_count := 0\<rparr>
      else co1)"

section \<open>The run of a team\<close>

record iteration =
  it_now_check :: rat
  it_now_delegate :: rat
  it_outcomes :: "string \<Rightarrow> string + stage_outcome"
  it_gate :: gate_input

datatype team_stop = Team_Finished | Team_Stopped team_exc

text \<open>One iteration of the loop of \<open>run_team\<close> at a stage: \<open>Inr False\<close> goes round again.\<close>

definition team_iteration ::
  "(string \<Rightarrow> string) \<Rightarrow> team_spec \<Rightarrow> iteration \<Rightarrow> sop_stage \<Rightarrow> coordinator \<times> sop_machine \<Rightarrow>
   (team_exc, bool, coordinator \<times> sop_machine) outcome" where
  "team_iteration shorten t it s st =
     (case st of (co, m) \<Rightarrow>
      case budget_check (it_now_check it) (co_budget co) of
        Inl b \<Rightarrow> (Inl (Budget_Exceeded b), (co, m))
      | Inr _ \<Rightarrow>
          (case add_delegation (it_now_delegate it) (co_budget co) of
             (Inl b, g) \<Rightarrow> (Inl (Budget_Exceeded b), (co\<lparr>co_budget := g\<rparr>, m))
           | (Inr _, g) \<Rightarrow>
               let co1 = co\<lparr>co_budget := g\<rparr> in
               (case precheck_all s t (stage_roles s) of
                  Inl e \<Rightarrow> (Inl e, (co1, m))
                | Inr _ \<Rightarrow>
                    let co2 = co1\<lparr>co_delegations := co_delegations co1 @
                                    map (\<lambda>r. (r, ss_name s)) (stage_roles s)\<rparr> in
                    (case bind_result (dispatch shorten s (it_outcomes it))
                            (apply_verify_gates s (it_gate it)) of
                       Inl e \<Rightarrow> (Inl e, (co2, m))
                     | Inr r \<Rightarrow>
                         (case board_put (ss_output_key s) (so_answer r) (ss_role s) (co_board co2) of
                            (Inl e, b) \<Rightarrow> (Inl e, (co2\<lparr>co_board := b\<rparr>, m))
                          | (Inr _, b) \<Rightarrow>
                              let co3 = record_progress (so_ok r) (\<not> so_ok r) (co2\<lparr>co_board := b\<rparr>) in
                              (case advance (so_ok r) m of
                                 (Inl e, m') \<Rightarrow> (Inl (Team_Py_Error e), (co3, m'))
                               | (Inr nxt, m') \<Rightarrow> (Inr (nxt = None), (co3, m'))))))))"

text \<open>Going round again has taken one of the delegations that are left.\<close>

lemma team_iteration_delegation:
  assumes "team_iteration shorten t it s (co, m) = (Inr b, (co', m'))"
  shows "co_budget co' = (co_budget co)\<lparr>bg_delegations := bg_delegations (co_budget co) + 1\<rparr> \<and>
    bg_delegations (co_budget co) + 1 \<le> bg_max_delegations (co_budget co)"
  using assms
  by (auto simp: team_iteration_def add_delegation_def budget_check_def record_progress_def Let_def
      split: sum.splits prod.splits if_splits)

function run_loop ::
  "(string \<Rightarrow> string) \<Rightarrow> team_spec \<Rightarrow> (nat \<Rightarrow> iteration) \<Rightarrow> nat \<Rightarrow> coordinator \<times> sop_machine \<Rightarrow>
   team_stop \<times> coordinator \<times> sop_machine" where
  "run_loop shorten t env i (co, m) =
     (case current_stage m of
        Inl e \<Rightarrow> (Team_Stopped (Team_Py_Error e), (co, m))
      | Inr None \<Rightarrow> (Team_Finished, (co, m))
      | Inr (Some s) \<Rightarrow>
          (case team_iteration shorten t (env i) s (co, m) of
             (Inl e, st) \<Rightarrow> (Team_Stopped e, st)
           | (Inr True, st) \<Rightarrow> (Team_Finished, st)
           | (Inr False, st) \<Rightarrow> run_loop shorten t env (Suc i) st))"
  by pat_completeness auto
termination
proof (relation "measure (\<lambda>(shorten, t, env, i, co, m).
    nat (bg_max_delegations (co_budget co) - bg_delegations (co_budget co)))", goal_cases)
  case (2 shorten t env i co m x s y st)
  obtain co' m' where st: "st = (co', m')" by force
  have "team_iteration shorten t (env i) s (co, m) = (Inr False, (co', m'))"
    using 2(2-5) st by (auto simp: eq_commute)
  from team_iteration_delegation [OF this] show ?case using st by auto
qed simp

declare run_loop.simps [simp del]

text \<open>\<open>run_team\<close> after the models of the members are resolved: the validation, the budget, the
  loop, and the text of the stages passed with, for an early stop, how many of how many.\<close>

record team_result =
  tr_stop :: team_stop
  tr_trail :: string
  tr_done :: nat
  tr_total :: nat

definition synthesize :: "stage_record list \<Rightarrow> string" where
  "synthesize h =
     (let names = join_with '' -> '' (map sr_stage h) in if names = [] then ''empty'' else names)"

definition run_team ::
  "(pyval \<Rightarrow> string) \<Rightarrow> (string \<Rightarrow> string) \<Rightarrow> budget_settings \<Rightarrow> budget_settings \<Rightarrow> rat \<Rightarrow>
   team_spec \<Rightarrow> (nat \<Rightarrow> iteration) \<Rightarrow> coordinator \<Rightarrow>
   (team_error, team_result, coordinator) outcome" where
  "run_team so shorten ov cfg now t env co =
     (case validate_team so t of
        Inl e \<Rightarrow> (Inl e, co)
      | Inr _ \<Rightarrow>
          let co1 = co\<lparr>co_budget := budget_start ov cfg now t (co_budget co),
                       co_plan := map ss_name (ts_stages t)\<rparr> in
          (case run_loop shorten t env 0 (co1, new_sop t) of
             (stop, (co2, m)) \<Rightarrow>
               (Inr \<lparr>tr_stop = stop, tr_trail = synthesize (sm_history m),
                     tr_done = length (sm_history m), tr_total = max 1 (length (ts_stages t))\<rparr>,
                co2)))"

section \<open>Consults\<close>

record consult_request =
  cq_request_id :: string
  cq_from_role :: string
  cq_to_role :: string
  cq_question :: string

definition consult ::
  "team_spec \<Rightarrow> consult_request \<Rightarrow> string option \<Rightarrow> rat \<Rightarrow> coordinator \<Rightarrow>
   (team_exc, string, coordinator) outcome" where
  "consult t q answer now co =
     (let from = cq_from_role q; dest = cq_to_role q;
          denied = (Inl (Consult_Denied from dest), co) in
      case find_member t from of
        None \<Rightarrow> denied
      | Some source \<Rightarrow>
          if dest \<notin> set (tm_may_consult source) then denied
          else if dest \<notin> set (map tm_role (ts_members t)) then denied
          else
            let cost = max 1 (int (length (cq_question q))) in
            if co_consults co \<ge> co_max_consults co \<or>
               co_consult_tokens co + cost > co_max_consult_tokens co then
              (Inl Consult_Budget_Exceeded, co)
            else
              (case add_delegation now (co_budget co) of
                 (Inl b, g) \<Rightarrow> (Inl (Budget_Exceeded b), co\<lparr>co_budget := g\<rparr>)
               | (Inr _, g) \<Rightarrow>
                   let co1 = co\<lparr>co_budget := g, co_consults := co_consults co + 1,
                                co_consult_tokens := co_consult_tokens co + cost\<rparr> in
                   (case relay from dest (cq_question q) ''coordinator'' ''consult_q'' (co_mailbox co1) of
                      (Inl e, box) \<Rightarrow> (Inl e, co1\<lparr>co_mailbox := box\<rparr>)
                    | (Inr _, box) \<Rightarrow>
                        let reply = (case answer of Some a \<Rightarrow> a | None \<Rightarrow> ''ack:'' @ cq_question q) in
                        (case relay dest from reply ''coordinator'' ''consult_a'' box of
                           (Inl e, box2) \<Rightarrow> (Inl e, co1\<lparr>co_mailbox := box2\<rparr>)
                         | (Inr _, box2) \<Rightarrow>
                             (case board_put (''consult:'' @ cq_request_id q) reply dest (co_board co1) of
                                (Inl e, b) \<Rightarrow> (Inl e, co1\<lparr>co_mailbox := box2, co_board := b\<rparr>)
                              | (Inr _, b) \<Rightarrow> (Inr reply, co1\<lparr>co_mailbox := box2, co_board := b\<rparr>))))))"

end
