(* ===== verification/Team_Spec_Correct.thy ===== *)
theory Team_Spec_Correct
  imports Team_Spec
begin

text \<open>
  What the validation of a team decides: \<open>validate_team\<close> accepts exactly the teams of
  \<open>team_ok\<close>, which is stated with relations, paths and closures and not with the searches. The
  consult search is the cycle search of the task plans without its positions; the stage search
  is correct by an invariant on the stages seen.
\<close>

section \<open>The stages by name\<close>

lemma map_of_rev_distinct:
  assumes "distinct (map fst xs)"
  shows "map_of (rev xs) = map_of xs"
proof
  fix k
  have d: "distinct (map fst (rev xs))" using assms by (simp add: rev_map [symmetric])
  show "map_of (rev xs) k = map_of xs k"
  proof (cases "map_of xs k")
    case None
    then have "map_of (rev xs) k = None" by (simp add: map_of_eq_None_iff)
    then show ?thesis using None by simp
  next
    case (Some v)
    then have "(k, v) \<in> set (rev xs)" by (auto dest: map_of_SomeD)
    then show ?thesis using Some map_of_is_SomeI [OF d] by auto
  qed
qed

lemma stage_named_iff:
  assumes "distinct (map ss_name (ts_stages t))"
  shows "stage_named t n = Some s \<longleftrightarrow> s \<in> set (ts_stages t) \<and> ss_name s = n"
proof -
  have d: "distinct (map fst (map (\<lambda>s. (ss_name s, s)) (ts_stages t)))" using assms by (simp add: o_def)
  have "stage_named t n = map_of (map (\<lambda>s. (ss_name s, s)) (ts_stages t)) n"
    unfolding stage_named_def using map_of_rev_distinct [OF d] by (simp add: rev_map)
  then show ?thesis using map_of_eq_Some_iff [OF d, of n s] by auto
qed

lemma stage_named_SomeD: "stage_named t n = Some s \<Longrightarrow> s \<in> set (ts_stages t) \<and> ss_name s = n"
  by (auto simp: stage_named_def dest!: map_of_SomeD)

lemma stage_named_known: "n \<in> set (map ss_name (ts_stages t)) \<Longrightarrow> stage_named t n \<noteq> None"
  by (auto simp: stage_named_def map_of_eq_None_iff image_iff)

section \<open>The search for an exit\<close>

definition stage_step :: "team_spec \<Rightarrow> (string \<times> string) set" where
  "stage_step t = {(a, b). \<exists>s. stage_named t a = Some s \<and> Some b \<in> set (successors s)}"

definition exits :: "team_spec \<Rightarrow> string \<Rightarrow> bool" where
  "exits t n \<longleftrightarrow> (\<exists>s. stage_named t n = Some s \<and> None \<in> set (successors s))"

lemma set_targets [simp]: "b \<in> set (targets s) \<longleftrightarrow> Some b \<in> set (successors s)"
  by (auto simp: targets_def split: option.splits)

lemma exit_search_Nil [simp]: "exit_search t seen [] e = e"
  by (simp add: exit_search.simps)

lemma exit_search_snoc:
  "exit_search t seen (rest @ [n]) e =
     (if n \<in> set seen then exit_search t seen rest e
      else (case stage_named t n of None \<Rightarrow> False
            | Some s \<Rightarrow> exit_search t (n # seen) (rest @ filter (\<lambda>x. x \<notin> set (n # seen)) (targets s))
                (e \<or> None \<in> set (successors s))))"
  by (subst exit_search.simps) (simp del: list.set)

lemma exit_search_sound:
  "exit_search t seen stack e \<Longrightarrow> e \<or> (\<exists>u \<in> set stack. \<exists>n. (u, n) \<in> (stage_step t)\<^sup>* \<and> exits t n)"
proof (induction t seen stack e rule: exit_search.induct)
  case (1 t seen stack e)
  show ?case
  proof (cases stack rule: rev_cases)
    case Nil
    then show ?thesis using "1.prems" by simp
  next
    case (snoc rest n)
    show ?thesis
    proof (cases "n \<in> set seen")
      case True
      then have "exit_search t seen rest e" using "1.prems" snoc by (simp add: exit_search_snoc)
      then have "e \<or> (\<exists>u \<in> set rest. \<exists>n. (u, n) \<in> (stage_step t)\<^sup>* \<and> exits t n)"
        using "1.IH"(1) [OF _ refl refl] True snoc by simp
      then show ?thesis using snoc by auto
    next
      case False
      then obtain s where s: "stage_named t n = Some s"
        using "1.prems" snoc by (auto simp: exit_search_snoc split: option.splits)
      have rec: "exit_search t (n # seen) (rest @ filter (\<lambda>x. x \<notin> set (n # seen)) (targets s))
          (e \<or> None \<in> set (successors s))"
        using "1.prems" snoc False s by (simp add: exit_search_snoc)
      have "(e \<or> None \<in> set (successors s)) \<or>
          (\<exists>u \<in> set (rest @ filter (\<lambda>x. x \<notin> set (n # seen)) (targets s)).
             \<exists>m. (u, m) \<in> (stage_step t)\<^sup>* \<and> exits t m)"
        using "1.IH"(2) [OF _ refl refl, of s] rec snoc False s by (simp del: list.set)
      then show ?thesis
      proof (elim disjE bexE exE conjE)
        assume "None \<in> set (successors s)"
        then have "exits t n" using s by (auto simp: exits_def)
        then show ?thesis using snoc by auto
      next
        fix u m
        assume u: "u \<in> set (rest @ filter (\<lambda>x. x \<notin> set (n # seen)) (targets s))"
          and m: "(u, m) \<in> (stage_step t)\<^sup>*" "exits t m"
        show ?thesis
        proof (cases "u \<in> set rest")
          case True
          then show ?thesis using m snoc by auto
        next
          case False
          then have "(n, u) \<in> stage_step t" using u s by (auto simp: stage_step_def)
          then have "(n, m) \<in> (stage_step t)\<^sup>*" using m(1) by (rule converse_rtrancl_into_rtrancl)
          then show ?thesis using m(2) snoc by auto
        qed
      qed simp
    qed
  qed
qed

definition known_targets :: "team_spec \<Rightarrow> bool" where
  "known_targets t \<longleftrightarrow> (\<forall>s \<in> set (ts_stages t). set (targets s) \<subseteq> ss_name ` set (ts_stages t))"

lemma exit_search_complete:
  "known_targets t \<Longrightarrow> \<not> exit_search t seen stack e \<Longrightarrow> set stack \<subseteq> ss_name ` set (ts_stages t) \<Longrightarrow>
    (\<forall>u \<in> set seen. \<forall>x. (u, x) \<in> stage_step t \<longrightarrow> x \<in> set seen \<union> set stack) \<Longrightarrow>
    (\<forall>u \<in> set seen. exits t u \<longrightarrow> e) \<Longrightarrow>
    \<not> e \<and> (\<exists>S. set seen \<union> set stack \<subseteq> S \<and> (\<forall>u \<in> S. \<not> exits t u \<and> (\<forall>x. (u, x) \<in> stage_step t \<longrightarrow> x \<in> S)))"
proof (induction t seen stack e rule: exit_search.induct)
  case (1 t seen stack e)
  show ?case
  proof (cases stack rule: rev_cases)
    case Nil
    then show ?thesis using "1.prems" by auto
  next
    case (snoc rest n)
    show ?thesis
    proof (cases "n \<in> set seen")
      case True
      have IH: "\<lbrakk>known_targets t; \<not> exit_search t seen rest e; set rest \<subseteq> ss_name ` set (ts_stages t);
          \<forall>u \<in> set seen. \<forall>x. (u, x) \<in> stage_step t \<longrightarrow> x \<in> set seen \<union> set rest;
          \<forall>u \<in> set seen. exits t u \<longrightarrow> e\<rbrakk> \<Longrightarrow>
        \<not> e \<and> (\<exists>S. set seen \<union> set rest \<subseteq> S \<and>
          (\<forall>u \<in> S. \<not> exits t u \<and> (\<forall>x. (u, x) \<in> stage_step t \<longrightarrow> x \<in> S)))"
        using "1.IH"(1) [OF _ refl refl] snoc True by simp
      have rec: "\<not> e \<and> (\<exists>S. set seen \<union> set rest \<subseteq> S \<and>
          (\<forall>u \<in> S. \<not> exits t u \<and> (\<forall>x. (u, x) \<in> stage_step t \<longrightarrow> x \<in> S)))"
      proof (rule IH)
        show "known_targets t" by (rule "1.prems"(1))
        show "\<not> exit_search t seen rest e" using "1.prems"(2) snoc True by (simp add: exit_search_snoc)
        show "set rest \<subseteq> ss_name ` set (ts_stages t)" using "1.prems"(3) snoc by simp
        show "\<forall>u \<in> set seen. \<forall>x. (u, x) \<in> stage_step t \<longrightarrow> x \<in> set seen \<union> set rest"
          using "1.prems"(4) snoc True by auto
        show "\<forall>u \<in> set seen. exits t u \<longrightarrow> e" by (rule "1.prems"(5))
      qed
      then obtain S where S: "set seen \<union> set rest \<subseteq> S"
        "\<forall>u \<in> S. \<not> exits t u \<and> (\<forall>x. (u, x) \<in> stage_step t \<longrightarrow> x \<in> S)" by blast
      have "set seen \<union> set stack \<subseteq> S" using S(1) True snoc by auto
      then show ?thesis using S(2) rec by blast
    next
      case False
      have "n \<in> set (map ss_name (ts_stages t))" using "1.prems"(3) snoc by auto
      then obtain s where s: "stage_named t n = Some s" using stage_named_known [of n t] by auto
      let ?new = "filter (\<lambda>x. x \<notin> set (n # seen)) (targets s)"
      have step: "(n, x) \<in> stage_step t \<longleftrightarrow> x \<in> set (targets s)" for x
        using s by (auto simp: stage_step_def)
      have rec: "\<not> (e \<or> None \<in> set (successors s)) \<and> (\<exists>S. set (n # seen) \<union> set (rest @ ?new) \<subseteq> S \<and>
          (\<forall>u \<in> S. \<not> exits t u \<and> (\<forall>x. (u, x) \<in> stage_step t \<longrightarrow> x \<in> S)))"
      proof (rule "1.IH"(2) [of n rest s])
        show "stack \<noteq> []" "n = last stack" "rest = butlast stack" using snoc by simp_all
        show "known_targets t" by (rule "1.prems"(1))
        show "n \<notin> set seen" "stage_named t n = Some s" by (fact False s)+
        show "\<not> exit_search t (n # seen) (rest @ ?new) (e \<or> None \<in> set (successors s))"
          using "1.prems"(2) snoc False s by (simp add: exit_search_snoc)
        show "set (rest @ ?new) \<subseteq> ss_name ` set (ts_stages t)"
        proof -
          have "set (targets s) \<subseteq> ss_name ` set (ts_stages t)"
            using "1.prems"(1) stage_named_SomeD [OF s] unfolding known_targets_def by blast
          moreover have "set rest \<subseteq> ss_name ` set (ts_stages t)" using "1.prems"(3) snoc by simp
          ultimately show ?thesis unfolding set_append set_filter by blast
        qed
        show "\<forall>u \<in> set (n # seen). \<forall>x. (u, x) \<in> stage_step t \<longrightarrow> x \<in> set (n # seen) \<union> set (rest @ ?new)"
          using "1.prems"(4) snoc step by auto
        show "\<forall>u \<in> set (n # seen). exits t u \<longrightarrow> e \<or> None \<in> set (successors s)"
          using "1.prems"(5) s by (auto simp: exits_def)
      qed
      then obtain S where S: "set (n # seen) \<union> set (rest @ ?new) \<subseteq> S"
        "\<forall>u \<in> S. \<not> exits t u \<and> (\<forall>x. (u, x) \<in> stage_step t \<longrightarrow> x \<in> S)" by blast
      have "set seen \<union> set stack \<subseteq> S" using S(1) snoc by auto
      then show ?thesis using S(2) rec by blast
    qed
  qed
qed

lemma exit_search_exact:
  assumes "known_targets t"
    and "g \<in> ss_name ` set (ts_stages t)"
  shows "exit_search t [] [g] False \<longleftrightarrow> (\<exists>n. (g, n) \<in> (stage_step t)\<^sup>* \<and> exits t n)"
proof
  assume "exit_search t [] [g] False"
  then show "\<exists>n. (g, n) \<in> (stage_step t)\<^sup>* \<and> exits t n"
    using exit_search_sound [of t "[]" "[g]" False] by simp
next
  assume "\<exists>n. (g, n) \<in> (stage_step t)\<^sup>* \<and> exits t n"
  then obtain n where n: "(g, n) \<in> (stage_step t)\<^sup>*" "exits t n" by blast
  show "exit_search t [] [g] False"
  proof (rule ccontr)
    assume no: "\<not> exit_search t [] [g] False"
    obtain S where S: "g \<in> S" "\<forall>u \<in> S. \<not> exits t u \<and> (\<forall>x. (u, x) \<in> stage_step t \<longrightarrow> x \<in> S)"
      using exit_search_complete [OF assms(1) no] assms(2) by auto
    have "n \<in> S" using n(1) S by (induction rule: rtrancl_induct) auto
    then show False using S(2) n(2) by blast
  qed
qed

section \<open>The search for a consult cycle\<close>

definition consult_result ::
  "(string list option \<times> dfs) option \<Rightarrow> (team_error, colors) result" where
  "consult_result r =
     (case r of
        None \<Rightarrow> Inl Recursion_Depth
      | Some (Some c, _) \<Rightarrow> Inl Consult_Cycle
      | Some (None, st) \<Rightarrow> Inr (df_colors st))"

definition all_colored :: "adjacency \<Rightarrow> dfs \<Rightarrow> bool" where
  "all_colored adj st \<longleftrightarrow> set (dict_keys adj) \<subseteq> set (dict_keys (df_colors st))"

lemma all_colored_push: "all_colored adj st \<Longrightarrow> all_colored adj (push_node u st)"
  by (auto simp: all_colored_def push_node_def)

lemma all_colored_pop: "all_colored adj st \<Longrightarrow> all_colored adj (pop_node u st)"
  by (auto simp: all_colored_def pop_node_def)

lemma consult_visit_eq:
  "all_colored adj st \<Longrightarrow> closed_graph adj \<Longrightarrow>
   consult_visit n adj u (df_colors st) = consult_result (visit n adj u st) \<and>
   (\<forall>st'. visit n adj u st = Some (None, st') \<longrightarrow> all_colored adj st')"
  "all_colored adj st \<Longrightarrow> closed_graph adj \<Longrightarrow> set vs \<subseteq> set (dict_keys adj) \<Longrightarrow>
   consult_visit_all n adj vs (df_colors st) = consult_result (visit_all n adj vs st) \<and>
   (\<forall>st'. visit_all n adj vs st = Some (None, st') \<longrightarrow> all_colored adj st')"
proof (induction n adj u st and n adj vs st rule: visit_visit_all.induct)
  case (1 adj u st)
  then show ?case by (simp add: consult_result_def)
next
  case (2 n adj u st)
  have "set (neighbors adj u) \<subseteq> set (dict_keys adj)" using 2(3) by (simp add: closed_graph_def)
  with 2(1) [OF all_colored_push [OF 2(2), of u] 2(3)]
  have IH: "consult_visit_all n adj (neighbors adj u) (df_colors (push_node u st)) =
      consult_result (visit_all n adj (neighbors adj u) (push_node u st))"
    "\<forall>st'. visit_all n adj (neighbors adj u) (push_node u st) = Some (None, st') \<longrightarrow> all_colored adj st'"
    by auto
  have "df_colors (push_node u st) = dict_set u 1 (df_colors st)"
    and pop: "df_colors (pop_node u st') = dict_set u 2 (df_colors st')" for st'
    by (simp_all add: push_node_def pop_node_def)
  then have step: "consult_visit (Suc n) adj u (df_colors st) =
      bind_result (consult_result (visit_all n adj (neighbors adj u) (push_node u st)))
        (\<lambda>cl. Inr (dict_set u 2 cl))"
    using IH(1) by simp
  show ?case
  proof (cases "visit_all n adj (neighbors adj u) (push_node u st)")
    case None
    then show ?thesis using step by (simp add: consult_result_def)
  next
    case (Some r)
    obtain c st1 where r: "r = (c, st1)" by force
    show ?thesis
    proof (cases c)
      case None
      have "all_colored adj st1" using IH(2) Some r None by blast
      then have "all_colored adj (pop_node u st1)" by (rule all_colored_pop)
      then show ?thesis using step Some r None pop by (simp add: consult_result_def)
    next
      case (Some d)
      then show ?thesis using step \<open>visit_all _ _ _ _ = Some r\<close> r by (simp add: consult_result_def)
    qed
  qed
next
  case (3 n adj st)
  then show ?case by (simp add: consult_result_def)
next
  case (4 n adj v vs st)
  have v: "v \<in> set (dict_keys (df_colors st))" using 4(4,6) by (auto simp: all_colored_def)
  then obtain s where s: "dict_get (df_colors st) v = Some s"
    by (cases "dict_get (df_colors st) v") (auto simp: dict_get_None_iff)
  then have cs: "color st v = s" by (simp add: color_def dict_get_or_def)
  consider (w) "s = 0" | (g) "s = 1" | (b) "s \<noteq> 0" "s \<noteq> 1" by blast
  then show ?case
  proof cases
    case w
    have first: "consult_visit n adj v (df_colors st) = consult_result (visit n adj v st)"
      "\<And>st'. visit n adj v st = Some (None, st') \<Longrightarrow> all_colored adj st'"
      using 4(1) [OF _ 4(4,5)] w cs by auto
    show ?thesis
    proof (cases "visit n adj v st")
      case None
      then show ?thesis using first(1) s w cs by (simp add: consult_result_def)
    next
      case (Some r)
      obtain c st1 where r: "r = (c, st1)" by force
      show ?thesis
      proof (cases c)
        case None
        have vis: "visit n adj v st = Some (None, st1)" using Some r None by simp
        have "all_colored adj st1" by (rule first(2) [OF vis])
        then have IH: "consult_visit_all n adj vs (df_colors st1) = consult_result (visit_all n adj vs st1)"
          "\<forall>st'. visit_all n adj vs st1 = Some (None, st') \<longrightarrow> all_colored adj st'"
          using 4(2) [OF _ vis refl refl _ 4(5)] 4(6) w cs by auto
        then show ?thesis using first(1) s w cs vis by (simp add: consult_result_def)
      next
        case (Some d)
        then show ?thesis using first(1) s w cs r \<open>visit n adj v st = Some r\<close>
          by (simp add: consult_result_def)
      qed
    qed
  next
    case g
    then show ?thesis using s cs by (simp add: consult_result_def)
  next
    case b
    then show ?thesis using s cs 4(3) [OF _ _ 4(4,5)] 4(6) by simp
  qed
qed

lemma consult_roots_eq:
  "all_colored adj st \<Longrightarrow> closed_graph adj \<Longrightarrow>
   consult_roots n adj rs (df_colors st) =
     (case find_cycle_from n adj rs st of None \<Rightarrow> Inl Recursion_Depth
      | Some None \<Rightarrow> Inr () | Some (Some c) \<Rightarrow> Inl Consult_Cycle)"
proof (induction n adj rs st rule: find_cycle_from.induct)
  case (2 n adj c cs st)
  note v = consult_visit_eq(1) [OF 2(3,4), of n c]
  have col: "dict_get_or (df_colors st) c 0 = color st c" by (simp add: color_def)
  show ?case
  proof (cases "color st c = 0")
    case True
    show ?thesis
    proof (cases "visit n adj c st")
      case None
      then show ?thesis using v True col by (simp add: consult_result_def)
    next
      case (Some r)
      obtain x st1 where r: "r = (x, st1)" by force
      show ?thesis
      proof (cases x)
        case None
        have vis: "visit n adj c st = Some (None, st1)" using Some r None by simp
        have "all_colored adj st1" using v vis by blast
        then show ?thesis using 2(1) [OF True vis refl refl _ 2(4)] v vis True col
          by (simp add: consult_result_def)
      next
        case (Some d)
        then show ?thesis using v True col r \<open>visit n adj c st = Some r\<close>
          by (simp add: consult_result_def)
      qed
    qed
  next
    case False
    then show ?thesis using 2(2) [OF False 2(3,4)] col by simp
  qed
qed simp

text \<open>The depth \<open>length adj\<close> is enough, so the check decides acyclicity.\<close>

lemma check_consult_exact:
  assumes "closed_graph (consult_graph t)"
  shows "check_consult_graph_acyclic t = Inr () \<longleftrightarrow> acyclic (edges (consult_graph t))"
proof -
  let ?adj = "consult_graph t"
  have "all_colored ?adj (start_dfs ?adj)"
    by (auto simp: all_colored_def start_dfs_def dict_keys_def o_def case_prod_beta)
  from consult_roots_eq [OF this assms, of "length ?adj" "dict_keys ?adj"]
  have "check_consult_graph_acyclic t =
      (case find_cycle (length ?adj) ?adj of None \<Rightarrow> Inl Recursion_Depth
       | Some None \<Rightarrow> Inr () | Some (Some c) \<Rightarrow> Inl Consult_Cycle)"
    by (simp add: check_consult_graph_acyclic_def start_dfs_def find_cycle_def Let_def)
  then show ?thesis using find_cycle_correct [OF assms order.refl]
    by (auto split: option.splits)
qed

section \<open>Validation\<close>

definition consult_rel :: "team_spec \<Rightarrow> (string \<times> string) set" where
  "consult_rel t = {(a, b). \<exists>m \<in> set (ts_members t). tm_role m = a \<and> b \<in> set (tm_may_consult m)}"

definition is_leader :: "team_member \<Rightarrow> bool" where
  "is_leader m = (leader_flag (raw_extra (tm_extra m) ''ecosystem.is_leader'') = Inr True)"

definition stage_ok :: "team_spec \<Rightarrow> sop_stage \<Rightarrow> bool" where
  "stage_ok t s \<longleftrightarrow>
     ss_role s \<in> tm_role ` set (ts_members t) \<and>
     (\<forall>ps. ss_parallel_members s = Some ps \<longrightarrow> distinct ps \<and> set ps \<subseteq> tm_role ` set (ts_members t)) \<and>
     (\<forall>n. Some n \<in> set (successors s) \<longrightarrow> n \<in> ss_name ` set (ts_stages t))"

definition member_ok :: "(pyval \<Rightarrow> string) \<Rightarrow> team_spec \<Rightarrow> team_member \<Rightarrow> bool" where
  "member_ok so t m \<longleftrightarrow>
     tm_role m \<notin> set (tm_may_consult m) \<and>
     set (tm_may_consult m) \<subseteq> tm_role ` set (ts_members t) \<and>
     check_extra_namespaces (tm_extra m) = Inr () \<and> check_role_ecosystem so (tm_extra m) = Inr () \<and>
     leader_flag (raw_extra (tm_extra m) ''ecosystem.is_leader'') \<noteq> Inl Unhashable_Flag"

definition team_ok :: "(pyval \<Rightarrow> string) \<Rightarrow> team_spec \<Rightarrow> bool" where
  "team_ok so t \<longleftrightarrow>
     distinct (map tm_role (ts_members t)) \<and> distinct (map ss_name (ts_stages t)) \<and>
     ts_entry_stage t \<in> ss_name ` set (ts_stages t) \<and>
     (\<forall>s \<in> set (ts_stages t). stage_ok t s) \<and> (\<forall>m \<in> set (ts_members t). member_ok so t m) \<and>
     length (filter is_leader (ts_members t)) \<le> 1 \<and> check_extra_namespaces (ts_extra t) = Inr () \<and>
     (\<exists>n. (ts_entry_stage t, n) \<in> (stage_step t)\<^sup>* \<and> exits t n) \<and> acyclic (consult_rel t)"

lemma check_parallel_ok:
  "check_parallel st roles seen ps = Inr () \<longleftrightarrow>
   distinct ps \<and> set ps \<inter> set seen = {} \<and> set ps \<subseteq> set roles"
  by (induction ps arbitrary: seen) auto

lemma check_stage_ok:
  "check_stage (map tm_role (ts_members t)) (map ss_name (ts_stages t)) s = Inr () \<longleftrightarrow> stage_ok t s"
proof -
  have "check_all (\<lambda>x. case x of None \<Rightarrow> Inr ()
        | Some n \<Rightarrow> refuse_if (n \<notin> set (map ss_name (ts_stages t))) (Unknown_Next (ss_name s) n))
        (successors s) = Inr () \<longleftrightarrow>
      (\<forall>n. Some n \<in> set (successors s) \<longrightarrow> n \<in> ss_name ` set (ts_stages t))"
    by (auto simp: successors_def split: option.splits)
  then show ?thesis
    by (cases "ss_parallel_members s") (simp_all add: check_stage_def stage_ok_def check_parallel_ok)
qed

lemma leader_flag_cases: "leader_flag v = Inl Unhashable_Flag \<or> leader_flag v = Inr True \<or> leader_flag v = Inr False"
  by (cases v) (auto simp: leader_flag_def)

lemma check_member_cases:
  "(check_member so (map tm_role (ts_members t)) m = Inr b) \<longleftrightarrow>
   member_ok so t m \<and> b = is_leader m"
proof -
  define r where "r = and_then (refuse_if (tm_role m \<in> set (tm_may_consult m)) (Self_Consult (tm_role m)))
         (and_then
           (check_all (\<lambda>x. refuse_if (x \<notin> set (map tm_role (ts_members t))) (Unknown_Consult (tm_role m) x)) (tm_may_consult m))
           (and_then (check_extra_namespaces (tm_extra m)) (check_role_ecosystem so (tm_extra m))))"
  let ?f = "leader_flag (raw_extra (tm_extra m) ''ecosystem.is_leader'')"
  have "r = Inr () \<longleftrightarrow> tm_role m \<notin> set (tm_may_consult m) \<and>
     set (tm_may_consult m) \<subseteq> tm_role ` set (ts_members t) \<and>
     check_extra_namespaces (tm_extra m) = Inr () \<and> check_role_ecosystem so (tm_extra m) = Inr ()"
    unfolding r_def by auto
  moreover have "check_member so (map tm_role (ts_members t)) m = bind_result r (\<lambda>_. ?f)"
    by (simp add: check_member_def r_def)
  then have "check_member so (map tm_role (ts_members t)) m = Inr b \<longleftrightarrow> r = Inr () \<and> ?f = Inr b"
    by (cases r) simp_all
  moreover have "?f = Inr b \<longleftrightarrow> ?f \<noteq> Inl Unhashable_Flag \<and> b = is_leader m"
    using leader_flag_cases [of "raw_extra (tm_extra m) ''ecosystem.is_leader''"]
    by (cases b) (auto simp: is_leader_def)
  ultimately show ?thesis unfolding member_ok_def by blast
qed

lemma count_leaders_ok:
  "count_leaders so (map tm_role (ts_members t)) ms n = Inr k \<longleftrightarrow>
   (\<forall>m \<in> set ms. member_ok so t m) \<and> k = n + length (filter is_leader ms)"
proof (induction ms arbitrary: n)
  case Nil
  then show ?case by auto
next
  case (Cons m ms)
  show ?case
  proof (cases "member_ok so t m")
    case True
    then have "check_member so (map tm_role (ts_members t)) m = Inr (is_leader m)"
      by (simp add: check_member_cases)
    then show ?thesis using Cons.IH True by auto
  next
    case False
    then obtain e where "check_member so (map tm_role (ts_members t)) m = Inl e"
      using check_member_cases [of so t m] by (metis sum.exhaust_sel)
    then show ?thesis using False by simp
  qed
qed

lemma consult_edges:
  assumes "distinct (map tm_role (ts_members t))"
  shows "edges (consult_graph t) = consult_rel t"
proof -
  have d: "dict_wf (consult_graph t)" using assms by (simp add: dict_wf_def consult_graph_def o_def)
  have "neighbors (consult_graph t) a = (case dict_get (consult_graph t) a of None \<Rightarrow> [] | Some bs \<Rightarrow> bs)"
    for a by (simp add: neighbors_def dict_get_or_def)
  moreover have "dict_get (consult_graph t) a = Some bs \<longleftrightarrow>
      (\<exists>m \<in> set (ts_members t). tm_role m = a \<and> bs = tm_may_consult m)" for a bs
    unfolding dict_get_Some_iff [OF d] by (auto simp: consult_graph_def)
  ultimately show ?thesis
    by (auto simp: edges_def consult_rel_def split: option.splits) (metis option.distinct(1) option.inject)+
qed

lemma validate_team_ok: "validate_team so t = Inr () \<longleftrightarrow> team_ok so t"
proof -
  let ?roles = "map tm_role (ts_members t)" and ?names = "map ss_name (ts_stages t)"
  define pre where "pre \<longleftrightarrow> distinct ?roles \<and> distinct ?names \<and> ts_entry_stage t \<in> ss_name ` set (ts_stages t) \<and>
     (\<forall>s \<in> set (ts_stages t). stage_ok t s) \<and> (\<forall>m \<in> set (ts_members t). member_ok so t m) \<and>
     length (filter is_leader (ts_members t)) \<le> 1 \<and> check_extra_namespaces (ts_extra t) = Inr ()"
  have leaders: "bind_result (count_leaders so ?roles (ts_members t) 0)
      (\<lambda>n. refuse_if (1 < n) Too_Many_Leaders) = Inr () \<longleftrightarrow>
      (\<forall>m \<in> set (ts_members t). member_ok so t m) \<and> length (filter is_leader (ts_members t)) \<le> 1"
    by (auto simp: bind_result_Inr_iff count_leaders_ok)
  have "validate_team so t = Inr () \<longleftrightarrow>
      pre \<and> check_stage_graph_terminates t = Inr () \<and> check_consult_graph_acyclic t = Inr ()"
    unfolding validate_team_def Let_def pre_def and_then_ok leaders
    by (auto simp: check_stage_ok)
  also have "\<dots> \<longleftrightarrow> pre \<and> (\<exists>n. (ts_entry_stage t, n) \<in> (stage_step t)\<^sup>* \<and> exits t n) \<and> acyclic (consult_rel t)"
  proof (cases pre)
    case True
    have "known_targets t" using True by (auto simp: known_targets_def pre_def stage_ok_def)
    then have stages: "check_stage_graph_terminates t = Inr () \<longleftrightarrow>
        (\<exists>n. (ts_entry_stage t, n) \<in> (stage_step t)\<^sup>* \<and> exits t n)"
      using exit_search_exact [of t "ts_entry_stage t"] True
      by (simp add: check_stage_graph_terminates_def pre_def)
    have keys: "dict_keys (consult_graph t) = ?roles"
      by (simp add: dict_keys_def consult_graph_def)
    have "set (neighbors (consult_graph t) u) \<subseteq> set ?roles" for u
    proof
      fix x
      assume "x \<in> set (neighbors (consult_graph t) u)"
      then have "(u, x) \<in> edges (consult_graph t)" by (simp add: edges_def)
      then have "(u, x) \<in> consult_rel t" using consult_edges True by (simp add: pre_def)
      then show "x \<in> set ?roles" using True by (auto simp: consult_rel_def pre_def member_ok_def)
    qed
    then have "closed_graph (consult_graph t)" by (simp add: closed_graph_def keys)
    then have "check_consult_graph_acyclic t = Inr () \<longleftrightarrow> acyclic (consult_rel t)"
      using check_consult_exact consult_edges True by (simp add: pre_def)
    then show ?thesis using stages by blast
  qed simp
  also have "\<dots> \<longleftrightarrow> team_ok so t" by (simp add: team_ok_def pre_def conj_ac)
  finally show ?thesis .
qed

section \<open>Properties\<close>

text \<open>
  C17. Validation of a team is exact: \<open>validate_team\<close> returns normally exactly for the teams
  whose roles and stage names are distinct, whose entry stage exists, whose stages name known
  roles and stages (parallel members distinct), whose members consult known roles other than
  their own and carry well-formed extension fields, which have at most one leader, whose stage
  graph reaches from the entry a stage with an outcome that ends the run, and whose consult
  relation is acyclic. Both searches end, and the recursion is never deeper than the number of
  roles.\<close>

theorem validate_team_exact: "validate_team so t = Inr () \<longleftrightarrow> team_ok so t"
  by (rule validate_team_ok)

end
