(* ===== verification/Team_Run_Correct.thy ===== *)
theory Team_Run_Correct
  imports Team_Run Team_Spec_Correct Machine
begin

text \<open>
  The blackboard is an append-only log under its byte cap; the stage machine only follows the
  declared transitions; a run of a validated team ends within its delegations and never meets a
  missing stage or member; a consult passes through the coordinator between roles that may
  consult, within its limits.
\<close>

section \<open>The blackboard as a log\<close>

definition board_values :: "blackboard \<Rightarrow> string \<Rightarrow> string list" where
  "board_values b k = map be_value (board_versions b k)"

definition board_inv :: "blackboard \<Rightarrow> bool" where
  "board_inv b \<longleftrightarrow>
     dict_wf (bb_log b) \<and>
     (\<forall>k. \<forall>i < length (board_versions b k).
        be_version (board_versions b k ! i) = i + 1 \<and> be_key (board_versions b k ! i) = k) \<and>
     (\<forall>rows \<in> set (dict_values (bb_log b)). rows \<noteq> []) \<and>
     bb_bytes b = (\<Sum>rows \<leftarrow> dict_values (bb_log b). \<Sum>e \<leftarrow> rows. int (utf8_length (be_value e))) \<and>
     bb_bytes b \<le> max 0 (bb_max_bytes b)"

lemma sum_dict_set:
  fixes f :: "'v \<Rightarrow> int"
  assumes "dict_wf d"
  shows "(\<Sum>v \<leftarrow> dict_values (dict_set k v' d). f v) =
    (\<Sum>v \<leftarrow> dict_values d. f v) - (case dict_get d k of None \<Rightarrow> 0 | Some v \<Rightarrow> f v) + f v'"
  using assms
proof (induction d)
  case Nil
  then show ?case by (simp add: dict_values_def)
next
  case (Cons p d)
  obtain k0 v0 where p: "p = (k0, v0)" by force
  have wf: "dict_wf d" "k0 \<notin> set (dict_keys d)"
    using Cons.prems by (auto simp: dict_wf_def p dict_keys_def)
  show ?case using Cons.IH [OF wf(1)]
    by (auto simp: p dict_values_def dict_get_def split: option.splits)
qed

lemma board_put_facts:
  assumes "board_put k v r b = (Inr e, b')" and "board_inv b"
  shows "board_inv b'" and "board_values b' = (board_values b)(k := board_values b k @ [v])"
    and "be_version e = length (board_values b k) + 1"
    and "board_versions b' k = board_versions b k @ [e]"
proof -
  have e: "e = \<lparr>be_key = k, be_value = v, be_author_role = r,
      be_version = length (board_versions b k) + 1\<rparr>"
    and b': "b' = b\<lparr>bb_log := dict_set k (board_versions b k @ [e]) (bb_log b),
           bb_bytes := bb_bytes b + int (utf8_length v)\<rparr>"
    and fits: "bb_bytes b + int (utf8_length v) \<le> bb_max_bytes b"
    using assms(1) by (auto simp: board_put_def Let_def split: if_splits)
  have vs: "board_versions b' j = (if j = k then board_versions b k @ [e] else board_versions b j)" for j
    by (simp add: b' board_versions_def)
  then show "board_versions b' k = board_versions b k @ [e]" by simp
  show "board_values b' = (board_values b)(k := board_values b k @ [v])"
    by (auto simp: board_values_def vs e)
  show "be_version e = length (board_values b k) + 1" by (simp add: e board_values_def)
  have wf: "dict_wf (bb_log b)" using assms(2) by (simp add: board_inv_def)
  have "(\<Sum>x \<leftarrow> board_versions b k. int (utf8_length (be_value x))) =
      (case dict_get (bb_log b) k of None \<Rightarrow> 0 | Some rows \<Rightarrow> \<Sum>x \<leftarrow> rows. int (utf8_length (be_value x)))"
    by (simp add: board_versions_def dict_get_or_def split: option.splits)
  then have "(\<Sum>rows \<leftarrow> dict_values (bb_log b'). \<Sum>x \<leftarrow> rows. int (utf8_length (be_value x))) = bb_bytes b'"
    using sum_dict_set [OF wf, of "\<lambda>rows. \<Sum>x \<leftarrow> rows. int (utf8_length (be_value x))" k "board_versions b k @ [e]"]
      assms(2) by (simp add: b' board_inv_def e)
  moreover have "be_version (board_versions b' j ! i) = i + 1 \<and> be_key (board_versions b' j ! i) = j"
    if "i < length (board_versions b' j)" for i j
    using that assms(2) by (auto simp: vs e board_inv_def nth_append less_Suc_eq split: if_splits)
  moreover have "rows \<noteq> []" if "rows \<in> set (dict_values (bb_log b'))" for rows
    using that assms(2) dict_values_set_subset [of k "board_versions b k @ [e]" "bb_log b"]
    by (auto simp: b' board_inv_def)
  ultimately show "board_inv b'" using wf fits
    by (auto simp: board_inv_def b' dict_wf_set)
qed

lemma board_put_refused: "board_put k v r b = (Inl x, b') \<Longrightarrow> b' = b"
  by (auto simp: board_put_def Let_def split: if_splits)

lemma board_get_values:
  assumes "board_inv b"
  shows "board_get b k = (if board_values b k = [] then None else Some (last (board_values b k)))"
proof (cases "dict_get (bb_log b) k")
  case None
  then show ?thesis by (simp add: board_get_def board_values_def board_versions_def dict_get_or_def)
next
  case (Some rows)
  then show ?thesis
    by (simp add: board_get_def board_values_def board_versions_def dict_get_or_def last_map)
qed

definition board_le :: "blackboard \<Rightarrow> blackboard \<Rightarrow> bool" where
  "board_le b c \<longleftrightarrow> (\<forall>k. prefix (board_versions b k) (board_versions c k))"

definition board_step :: "blackboard \<Rightarrow> string \<times> string \<times> string \<Rightarrow> blackboard" where
  "board_step b c = (case c of (k, v, r) \<Rightarrow> snd (board_put k v r b))"

lemma board_step_cases:
  assumes "board_inv b"
  shows "board_inv (board_step b c) \<and> board_le b (board_step b c)"
proof -
  obtain k v r where c: "c = (k, v, r)" by (cases c)
  obtain x b' where p: "board_put k v r b = (x, b')" by force
  show ?thesis
  proof (cases x)
    case (Inl y)
    then show ?thesis using board_put_refused [of k v r b y b'] p assms
      by (simp add: board_step_def c board_le_def)
  next
    case (Inr e)
    then have put: "board_put k v r b = (Inr e, b')" using p by simp
    have "b' = b\<lparr>bb_log := dict_set k (board_versions b k @ [e]) (bb_log b), bb_bytes := bb_bytes b'\<rparr>"
      using put by (auto simp: board_put_def Let_def split: if_splits)
    then have "board_versions b' j = (if j = k then board_versions b k @ [e] else board_versions b j)" for j
      by (metis board_versions_def dict_get_or_set(1) blackboard.simps(1,4) blackboard.surjective
          blackboard.update_convs(1,3))
    then show ?thesis using board_put_facts(1) [OF put assms] p
      by (simp add: board_step_def c board_le_def)
  qed
qed

interpretation bb: ordered_machine board_step board_inv board_le
proof
  fix b c
  show "board_inv b \<Longrightarrow> board_inv (board_step b c)" using board_step_cases by blast
  show "board_le b b" by (simp add: board_le_def)
next
  fix a b c
  show "board_le a b \<Longrightarrow> board_le b c \<Longrightarrow> board_le a c"
    by (auto simp: board_le_def intro: prefix_order.trans)
next
  fix b c
  show "board_inv b \<Longrightarrow> board_le b (board_step b c)" using board_step_cases by blast
qed

lemma new_board_inv: "board_inv (new_blackboard n)"
  by (simp add: board_inv_def new_blackboard_def board_versions_def dict_get_or_def dict_values_def)

section \<open>The stage machine follows the declared graph\<close>

text \<open>What a record of the history may be, given the declared stage: a success takes
  \<open>next_on_success\<close>; a failure stays while retries are left, and takes \<open>next_on_failure\<close> when
  none is.\<close>

definition record_ok :: "team_spec \<Rightarrow> stage_record \<Rightarrow> bool" where
  "record_ok t r \<longleftrightarrow>
     (\<exists>s. stage_named t (sr_stage r) = Some s \<and> 0 \<le> sr_retry r \<and> sr_retry r \<le> max 0 (ss_max_retries s) \<and>
        (if sr_ok r then sr_next_stage r = ss_next_on_success s
         else sr_next_stage r = Some (sr_stage r) \<and> 0 < sr_retry r \<or>
              sr_next_stage r = ss_next_on_failure s \<and> ss_max_retries s \<le> sr_retry r))"

fun chained :: "string option \<Rightarrow> stage_record list \<Rightarrow> bool" where
  "chained start [] = True"
| "chained start (r # rs) = (start = Some (sr_stage r) \<and> chained (sr_next_stage r) rs)"

definition trail_end :: "string option \<Rightarrow> stage_record list \<Rightarrow> string option" where
  "trail_end start rs = (if rs = [] then start else sr_next_stage (last rs))"

lemma chained_snoc:
  "chained start (rs @ [r]) \<longleftrightarrow> chained start rs \<and> trail_end start rs = Some (sr_stage r)"
  by (induction rs arbitrary: start) (auto simp: trail_end_def)

definition sop_inv :: "team_spec \<Rightarrow> sop_machine \<Rightarrow> bool" where
  "sop_inv t m \<longleftrightarrow>
     sm_team m = t \<and>
     (\<forall>n. sm_current m = Some n \<longrightarrow> n \<in> ss_name ` set (ts_stages t)) \<and>
     (\<forall>n s. stage_named t n = Some s \<longrightarrow>
        0 \<le> dict_get_or (sm_retries m) n 0 \<and> dict_get_or (sm_retries m) n 0 \<le> max 0 (ss_max_retries s)) \<and>
     (\<forall>r \<in> set (sm_history m). record_ok t r) \<and>
     chained (Some (ts_entry_stage t)) (sm_history m) \<and>
     sm_current m = trail_end (Some (ts_entry_stage t)) (sm_history m)"

lemma sop_inv_new: "ts_entry_stage t \<in> ss_name ` set (ts_stages t) \<Longrightarrow> sop_inv t (new_sop t)"
  by (auto simp: sop_inv_def new_sop_def trail_end_def dict_get_or_def)

lemma current_stage_total:
  assumes "sop_inv t m"
  shows "current_stage m = Inr None \<and> sm_current m = None \<or>
    (\<exists>s. current_stage m = Inr (Some s) \<and> sm_current m = Some (ss_name s) \<and>
         stage_named t (ss_name s) = Some s)"
proof (cases "sm_current m")
  case None
  then show ?thesis by (simp add: current_stage_def)
next
  case (Some n)
  then have "n \<in> set (map ss_name (ts_stages t))" "sm_team m = t" using assms by (auto simp: sop_inv_def)
  then obtain s where "stage_named t n = Some s" using stage_named_known [of n t] by auto
  then show ?thesis using Some \<open>sm_team m = t\<close> stage_named_SomeD [of t n s]
    by (auto simp: current_stage_def)
qed

text \<open>Moving to a logged successor keeps the invariant.\<close>

lemma sop_inv_move:
  assumes inv: "sop_inv t m" and cur: "sm_current m = Some (ss_name s)"
    and named: "stage_named t (ss_name s) = Some s"
    and ok: "record_ok t \<lparr>sr_stage = ss_name s, sr_ok = b, sr_retry = k, sr_next_stage = nxt\<rparr>"
    and nxt: "\<And>n. nxt = Some n \<Longrightarrow> n \<in> ss_name ` set (ts_stages t)"
    and m': "sm_team m' = t" "sm_current m' = nxt"
      "sm_history m' = sm_history m @ [\<lparr>sr_stage = ss_name s, sr_ok = b, sr_retry = k, sr_next_stage = nxt\<rparr>]"
    and retries: "\<And>n. dict_get_or (sm_retries m') n 0 = dict_get_or (sm_retries m) n 0 \<or>
       dict_get_or (sm_retries m') n 0 = 0 \<or>
       n = ss_name s \<and> 0 \<le> dict_get_or (sm_retries m') n 0 \<and> dict_get_or (sm_retries m') n 0 \<le> ss_max_retries s"
  shows "sop_inv t m'"
proof -
  have "0 \<le> dict_get_or (sm_retries m') n 0 \<and> dict_get_or (sm_retries m') n 0 \<le> max 0 (ss_max_retries x)"
    if "stage_named t n = Some x" for n x
    using retries [of n] that inv named by (auto simp: sop_inv_def)
  then show ?thesis using inv cur ok nxt m'
    by (auto simp: sop_inv_def chained_snoc trail_end_def)
qed

lemma advance_moved:
  assumes "advance b m = (current_stage m', m')" and "sop_inv t m'"
    and "length (sm_history m') \<le> length (sm_history m) + 1"
  shows "sop_inv t (snd (advance b m)) \<and>
    length (sm_history (snd (advance b m))) \<le> length (sm_history m) + 1 \<and>
    (\<exists>nxt. fst (advance b m) = Inr nxt \<and> (nxt = None \<longrightarrow> sm_current (snd (advance b m)) = None))"
  using current_stage_total [OF assms(2)] assms by auto

lemma advance_inv:
  assumes inv: "sop_inv t m" and known: "known_targets t"
  shows "sop_inv t (snd (advance b m)) \<and>
    length (sm_history (snd (advance b m))) \<le> length (sm_history m) + 1 \<and>
    (\<exists>nxt. fst (advance b m) = Inr nxt \<and> (nxt = None \<longrightarrow> sm_current (snd (advance b m)) = None))"
  using current_stage_total [OF inv]
proof (elim disjE conjE exE)
  assume "current_stage m = Inr None" "sm_current m = None"
  then show ?thesis using inv by (simp add: advance_def)
next
  fix s
  assume cur: "current_stage m = Inr (Some s)" "sm_current m = Some (ss_name s)"
    and named: "stage_named t (ss_name s) = Some s"
  let ?used = "dict_get_or (sm_retries m) (ss_name s) 0"
  have used: "0 \<le> ?used" "?used \<le> max 0 (ss_max_retries s)" using inv named by (auto simp: sop_inv_def)
  have team: "sm_team m = t" using inv by (simp add: sop_inv_def)
  have "set (targets s) \<subseteq> ss_name ` set (ts_stages t)"
    using known stage_named_SomeD [OF named] unfolding known_targets_def by blast
  then have tgt: "n \<in> ss_name ` set (ts_stages t)" if "Some n \<in> set (successors s)" for n
    using that set_targets [of n s] by blast
  show ?thesis
  proof (cases b)
    case True
    let ?m = "(log_stage s True ?used (ss_next_on_success s) m)\<lparr>sm_current := ss_next_on_success s\<rparr>"
    have adv: "advance b m = (current_stage ?m, ?m)"
      using cur(1) True by (simp add: advance_def Let_def)
    have "sop_inv t ?m"
      by (rule sop_inv_move [OF inv cur(2) named, where b = True and k = ?used and nxt = "ss_next_on_success s"])
        (use used named tgt team in \<open>auto simp: record_ok_def log_stage_def successors_def\<close>)
    then show ?thesis by (rule advance_moved [OF adv]) (simp add: log_stage_def)
  next
    case False
    show ?thesis
    proof (cases "?used < ss_max_retries s")
      case True
      let ?m = "log_stage s False (?used + 1) (Some (ss_name s))
               (m\<lparr>sm_retries := dict_set (ss_name s) (?used + 1) (sm_retries m)\<rparr>)"
      have adv: "advance b m = (Inr (Some s), ?m)"
        using cur(1) False True by (simp add: advance_def Let_def)
      have "sop_inv t ?m"
        by (rule sop_inv_move [OF inv cur(2) named, where b = False and k = "?used + 1" and nxt = "Some (ss_name s)"])
          (use used named team cur(2) True stage_named_SomeD [OF named] in
            \<open>auto simp: record_ok_def log_stage_def\<close>)
      then show ?thesis using adv by (simp add: log_stage_def)
    next
      case out: False
      let ?nxt = "ss_next_on_failure s"
      let ?m1 = "case ?nxt of Some n \<Rightarrow> if n \<noteq> [] \<and> n \<noteq> ss_name s then
                            m\<lparr>sm_retries := dict_set n 0 (sm_retries m)\<rparr> else m
                    | None \<Rightarrow> m"
      let ?m = "(log_stage s False ?used ?nxt ?m1)\<lparr>sm_current := ?nxt\<rparr>"
      have adv: "advance b m = (current_stage ?m, ?m)"
        using cur(1) False out by (simp add: advance_def Let_def)
      have m1: "sm_team ?m1 = t" "sm_history ?m1 = sm_history m"
        "\<And>n. dict_get_or (sm_retries ?m1) n 0 = dict_get_or (sm_retries m) n 0 \<or>
           dict_get_or (sm_retries ?m1) n 0 = 0"
        using team by (auto split: option.splits)
      have "sop_inv t ?m"
        by (rule sop_inv_move [OF inv cur(2) named, where b = False and k = ?used and nxt = ?nxt])
          (use used named tgt m1 out in \<open>auto simp: record_ok_def log_stage_def successors_def\<close>)
      then show ?thesis by (rule advance_moved [OF adv]) (simp add: log_stage_def m1(2))
    qed
  qed
qed

definition sop_run :: "team_spec \<Rightarrow> bool list \<Rightarrow> sop_machine" where
  "sop_run t oks = run (\<lambda>m b. snd (advance b m)) (new_sop t) oks"

interpretation sop: machine "\<lambda>m b. snd (advance b m)" "\<lambda>m. known_targets t \<and> sop_inv t m"
  by unfold_locales (use advance_inv in blast)

lemma sop_run_inv:
  assumes "known_targets t" and "ts_entry_stage t \<in> ss_name ` set (ts_stages t)"
  shows "sop_inv t (sop_run t oks)"
  unfolding sop_run_def using sop.run_inv [of t "new_sop t" oks] sop_inv_new assms by blast

lemma team_ok_known: "team_ok so t \<Longrightarrow> known_targets t \<and> ts_entry_stage t \<in> ss_name ` set (ts_stages t)"
  by (auto simp: team_ok_def known_targets_def stage_ok_def)

section \<open>Running a validated team\<close>

lemma find_member_known: "r \<in> tm_role ` set (ts_members t) \<Longrightarrow> find_member t r \<noteq> None"
  by (auto simp: find_member_def find_None_iff)

lemma set_stage_roles:
  "set (stage_roles s) =
     (case ss_parallel_members s of Some (p # ps) \<Rightarrow> set (p # ps) | _ \<Rightarrow> {ss_role s})"
proof -
  have "set (fold (\<lambda>r seen. if r \<in> set seen then seen else r # seen) xs acc) = set acc \<union> set xs"
    for xs acc :: "string list"
    by (induction xs arbitrary: acc) auto
  then show ?thesis by (auto simp: stage_roles_def split: option.splits list.splits)
qed

lemma precheck_known:
  assumes "set rs \<subseteq> tm_role ` set (ts_members t)"
  shows "precheck_all s t rs \<noteq> Inl (Team_Py_Error e)"
  using assms
proof (induction rs)
  case (Cons r rs)
  have "precheck s t r \<noteq> Inl (Team_Py_Error e)"
    using find_member_known [of r t] Cons.prems by (auto simp: precheck_def split: option.splits)
  then show ?case using Cons by (cases "precheck s t r") auto
qed simp

lemma stage_roles_known: "stage_ok t s \<Longrightarrow> set (stage_roles s) \<subseteq> tm_role ` set (ts_members t)"
  by (auto simp: set_stage_roles stage_ok_def split: option.splits list.splits)

lemma dispatch_Inl: "dispatch shorten s answer = Inl e \<Longrightarrow> \<exists>x. e = Member_Error x"
  by (cases "answer (hd (stage_roles s))") (auto simp: dispatch_def Let_def split: if_splits)

lemma gates_Inl:
  assumes "apply_verify_gates s gi r = Inl e"
  shows "\<exists>x. e = Member_Error x"
proof (cases "ss_verify_before_next s = []")
  case False
  then show ?thesis using assms
    by (cases "gi_verdict gi") (auto simp add: apply_verify_gates_def Let_def split: if_split_asm)
qed (use assms in \<open>simp add: apply_verify_gates_def Let_def\<close>)

lemma dispatch_raises:
  "bind_result (dispatch shorten s answer) (apply_verify_gates s gi) = Inl e \<Longrightarrow> \<exists>x. e = Member_Error x"
  using dispatch_Inl gates_Inl by (metis bind_result_Inl_iff)

lemma precheck_no_budget: "precheck_all s t rs \<noteq> Inl (Budget_Exceeded e)"
proof (induction rs)
  case (Cons r rs)
  have "precheck s t r \<noteq> Inl (Budget_Exceeded e)"
    by (auto simp: precheck_def split: option.splits)
  then show ?case using Cons by (cases "precheck s t r") auto
qed simp

text \<open>What an iteration does to the budget and the machine, whatever its outcome.\<close>

lemma team_iteration_facts:
  assumes "team_iteration shorten t it s (co, m) = (res, (co', m'))"
  shows "co_budget co' = (co_budget co)\<lparr>bg_delegations := bg_delegations (co_budget co')\<rparr>"
    and "bg_delegations (co_budget co) \<le> bg_delegations (co_budget co')"
    and "m' = m \<or> (\<exists>b. m' = snd (advance b m)) \<and>
        bg_delegations (co_budget co') = bg_delegations (co_budget co) + 1 \<and>
        bg_delegations (co_budget co') \<le> bg_max_delegations (co_budget co)"
  using assms
  by (auto simp: team_iteration_def add_delegation_def budget_check_def record_progress_def Let_def
      split: sum.splits prod.splits if_splits) (metis snd_conv)+

definition sound_stop :: "team_budget \<Rightarrow> team_stop \<Rightarrow> bool" where
  "sound_stop g stop \<longleftrightarrow>
     (\<forall>e. stop \<noteq> Team_Stopped (Team_Py_Error e)) \<and>
     (\<forall>n. stop = Team_Stopped (Budget_Exceeded (Tokens_Exhausted n)) \<longrightarrow>
        bg_tokens_used g > bg_token_budget g)"

lemma budget_check_tokens:
  "budget_check now g = Inl (Tokens_Exhausted n) \<Longrightarrow> bg_tokens_used g > bg_token_budget g"
  by (auto simp: budget_check_def split: if_splits)

lemma team_iteration_raises:
  assumes it: "team_iteration shorten t it s (co, m) = (Inl e, st)"
    and inv: "sop_inv t m" and known: "known_targets t" and s: "stage_ok t s"
  shows "sound_stop (co_budget co) (Team_Stopped e)"
proof (cases "budget_check (it_now_check it) (co_budget co)")
  case (Inl b)
  then show ?thesis using it budget_check_tokens [of "it_now_check it" "co_budget co"]
    by (auto simp: team_iteration_def sound_stop_def)
next
  case chk: (Inr u)
  obtain d g where d: "add_delegation (it_now_delegate it) (co_budget co) = (d, g)" by force
  show ?thesis
  proof (cases d)
    case (Inl b)
    then show ?thesis using it chk d budget_check_tokens [of "it_now_delegate it" g]
      by (auto simp: team_iteration_def sound_stop_def add_delegation_def Let_def)
  next
    case del: (Inr u')
    show ?thesis
    proof (cases "precheck_all s t (stage_roles s)")
      case (Inl x)
      then show ?thesis
        using it chk d del precheck_known [OF stage_roles_known [OF s]] precheck_no_budget [of s t "stage_roles s"]
        by (auto simp: team_iteration_def sound_stop_def)
    next
      case pre: (Inr u'')
      show ?thesis
      proof (cases "bind_result (dispatch shorten s (it_outcomes it)) (apply_verify_gates s (it_gate it))")
        case (Inl x)
        then show ?thesis using it chk d del pre dispatch_raises [OF Inl]
          by (auto simp: team_iteration_def sound_stop_def Let_def)
      next
        case out: (Inr r)
        obtain x b where put: "board_put (ss_output_key s) (so_answer r) (ss_role s) (co_board co) = (x, b)"
          by force
        obtain nxt where adv: "fst (advance (so_ok r) m) = Inr nxt" using advance_inv [OF inv known] by blast
        show ?thesis
          using it chk d del pre out put adv
          by (cases x)
            (auto simp: team_iteration_def sound_stop_def Let_def board_put_def split: prod.splits if_splits)
      qed
    qed
  qed
qed

text \<open>The delegations bound the stages gone through.\<close>

definition team_inv :: "team_spec \<Rightarrow> coordinator \<times> sop_machine \<Rightarrow> bool" where
  "team_inv t st \<longleftrightarrow>
     sop_inv t (snd st) \<and> int (length (sm_history (snd st))) \<le> bg_delegations (co_budget (fst st)) \<and>
     int (length (sm_history (snd st))) \<le> max 0 (bg_max_delegations (co_budget (fst st)))"

lemma team_iteration_inv:
  assumes it: "team_iteration shorten t it s (co, m) = (res, (co', m'))"
    and inv: "team_inv t (co, m)" and known: "known_targets t"
  shows "team_inv t (co', m')"
proof -
  note f = team_iteration_facts [OF it]
  have maxi: "bg_max_delegations (co_budget co') = bg_max_delegations (co_budget co)" by (subst f(1)) simp
  from f(3) show ?thesis
  proof (elim disjE conjE exE)
    assume "m' = m"
    then show ?thesis using inv f(2) maxi by (simp add: team_inv_def)
  next
    fix b
    assume m': "m' = snd (advance b m)"
      and d: "bg_delegations (co_budget co') = bg_delegations (co_budget co) + 1"
        "bg_delegations (co_budget co') \<le> bg_max_delegations (co_budget co)"
    have "sop_inv t m'" "length (sm_history m') \<le> length (sm_history m) + 1"
      using advance_inv [of t m b] inv known m' by (auto simp: team_inv_def)
    then show ?thesis using inv d maxi by (auto simp: team_inv_def)
  qed
qed

lemma run_loop_facts:
  assumes "run_loop shorten t env i st = (stop, st')" and "team_inv t st" and "known_targets t"
    and "\<forall>s \<in> set (ts_stages t). stage_ok t s"
  shows "team_inv t st' \<and> sound_stop (co_budget (fst st)) stop \<and>
    co_budget (fst st') = (co_budget (fst st))\<lparr>bg_delegations := bg_delegations (co_budget (fst st'))\<rparr>"
  using assms
proof (induction shorten t env i st arbitrary: stop st' rule: run_loop.induct)
  case (1 shorten t env i co m)
  have inv: "sop_inv t m" using 1(3) by (simp add: team_inv_def)
  from current_stage_total [OF inv] show ?case
  proof (elim disjE conjE exE)
    assume "current_stage m = Inr None"
    then show ?thesis using 1 by (auto simp: run_loop.simps sound_stop_def)
  next
    fix s
    assume cur: "current_stage m = Inr (Some s)" and named: "stage_named t (ss_name s) = Some s"
    have s: "stage_ok t s" using 1(5) stage_named_SomeD [OF named] by blast
    obtain res co1 m1 where it: "team_iteration shorten t (env i) s (co, m) = (res, (co1, m1))"
      by (metis prod.exhaust)
    note f = team_iteration_facts [OF it]
    have inv1: "team_inv t (co1, m1)" by (rule team_iteration_inv [OF it 1(3,4)])
    show ?thesis
    proof (cases res)
      case (Inl e)
      then have "stop = Team_Stopped e" "st' = (co1, m1)"
        using 1(2) cur it by (simp_all add: run_loop.simps)
      then show ?thesis using team_iteration_raises [of shorten t "env i" s co m e "(co1, m1)"] it Inl inv 1(4) s inv1 f(1)
        by simp
    next
      case (Inr b)
      show ?thesis
      proof (cases b)
        case True
        then have "stop = Team_Finished" "st' = (co1, m1)"
          using 1(2) cur it Inr by (simp_all add: run_loop.simps)
        then show ?thesis using inv1 f(1) by (simp add: sound_stop_def)
      next
        case False
        then have rec: "run_loop shorten t env (Suc i) (co1, m1) = (stop, st')"
          using 1(2) cur it Inr by (simp add: run_loop.simps)
        have it': "team_iteration shorten t (env i) s (co, m) = (Inr False, (co1, m1))"
          using it Inr False by simp
        have IH: "team_inv t st' \<and> sound_stop (co_budget (fst (co1, m1))) stop \<and>
          co_budget (fst st') =
            (co_budget (fst (co1, m1)))\<lparr>bg_delegations := bg_delegations (co_budget (fst st'))\<rparr>"
          by (rule "1.IH" [OF cur refl it' [symmetric] refl _ rec inv1 1(4,5)]) simp
        have g: "co_budget co1 = (co_budget co)\<lparr>bg_delegations := bg_delegations (co_budget co1)\<rparr>"
          by (rule f(1))
        have "sound_stop (co_budget co) stop"
          using IH g by (simp add: sound_stop_def) (metis team_budget.simps(1,6) team_budget.surjective team_budget.update_convs(7))
        moreover have "co_budget (fst st') = (co_budget co)\<lparr>bg_delegations := bg_delegations (co_budget (fst st'))\<rparr>"
          using IH g by (metis fst_conv team_budget.surjective team_budget.update_convs(7))
        ultimately show ?thesis using IH by simp
      qed
    qed
  qed
qed

section \<open>Consults\<close>

definition allowed_pair :: "team_spec \<Rightarrow> string \<Rightarrow> string \<Rightarrow> bool" where
  "allowed_pair t a b \<longleftrightarrow> (\<exists>m. find_member t a = Some m \<and> b \<in> set (tm_may_consult m))"

definition mail_ok :: "team_spec \<Rightarrow> mail_message \<Rightarrow> bool" where
  "mail_ok t msg \<longleftrightarrow>
     ml_relayed_by msg = ''coordinator'' \<and> ml_from_role msg \<noteq> ml_to_role msg \<and>
     (ml_kind msg = ''consult_q'' \<and> allowed_pair t (ml_from_role msg) (ml_to_role msg) \<or>
      ml_kind msg = ''consult_a'' \<and> allowed_pair t (ml_to_role msg) (ml_from_role msg))"

definition consult_inv :: "team_spec \<Rightarrow> coordinator \<Rightarrow> bool" where
  "consult_inv t co \<longleftrightarrow>
     (\<forall>msg \<in> set (co_mailbox co). mail_ok t msg) \<and>
     int (length (co_mailbox co)) = 2 * co_consults co \<and>
     co_consults co \<le> max 0 (co_max_consults co) \<and>
     co_consult_tokens co \<le> max 0 (co_max_consult_tokens co) \<and> board_inv (co_board co)"

lemma find_member_SomeD: "find_member t r = Some m \<Longrightarrow> m \<in> set (ts_members t) \<and> tm_role m = r"
  by (auto simp: find_member_def find_Some_iff)

lemma board_put_inv: "board_put k v r b = (x, b') \<Longrightarrow> board_inv b \<Longrightarrow> board_inv b'"
  using board_put_facts(1) [of k v r b] board_put_refused [of k v r b] by (cases x) auto

lemma relay_coordinator:
  "a \<noteq> b \<Longrightarrow> relay a b body ''coordinator'' kind box =
     (Inr \<lparr>ml_from_role = a, ml_to_role = b, ml_body = body, ml_relayed_by = ''coordinator'', ml_kind = kind\<rparr>,
      box @ [\<lparr>ml_from_role = a, ml_to_role = b, ml_body = body, ml_relayed_by = ''coordinator'', ml_kind = kind\<rparr>])"
  by (simp add: relay_def Let_def)

text \<open>What a consult that is neither denied nor over its limits does.\<close>

lemma consult_cases:
  assumes c: "consult t q answer now co = (r, co')"
    and selfless: "\<forall>m \<in> set (ts_members t). tm_role m \<notin> set (tm_may_consult m)"
  obtains (refused) e where "r = Inl e" "co' = co"
  | (tripped) b where "r = Inl (Budget_Exceeded b)"
      "co' = co\<lparr>co_budget := snd (add_delegation now (co_budget co))\<rparr>"
  | (relayed) g x b msgs where
      "add_delegation now (co_budget co) = (Inr (), g)"
      "allowed_pair t (cq_from_role q) (cq_to_role q)" "cq_from_role q \<noteq> cq_to_role q"
      "co_consults co < co_max_consults co"
      "co_consult_tokens co + max 1 (int (length (cq_question q))) \<le> co_max_consult_tokens co"
      "board_put (''consult:'' @ cq_request_id q)
         (case answer of Some a \<Rightarrow> a | None \<Rightarrow> ''ack:'' @ cq_question q) (cq_to_role q) (co_board co) = (x, b)"
      "r = (case x of Inl e \<Rightarrow> Inl e
            | Inr _ \<Rightarrow> Inr (case answer of Some a \<Rightarrow> a | None \<Rightarrow> ''ack:'' @ cq_question q))"
      "length msgs = 2" "\<forall>msg \<in> set msgs. mail_ok t msg"
      "co' = co\<lparr>co_budget := g, co_consults := co_consults co + 1,
               co_consult_tokens := co_consult_tokens co + max 1 (int (length (cq_question q))),
               co_mailbox := co_mailbox co @ msgs, co_board := b\<rparr>"
proof (cases "\<exists>m. find_member t (cq_from_role q) = Some m \<and> cq_to_role q \<in> set (tm_may_consult m) \<and>
    cq_to_role q \<in> set (map tm_role (ts_members t)) \<and> co_consults co < co_max_consults co \<and>
    co_consult_tokens co + max 1 (int (length (cq_question q))) \<le> co_max_consult_tokens co")
  case False
  then have "\<exists>e. r = Inl e \<and> co' = co" using c
    by (auto simp: consult_def Let_def split: option.splits if_splits)
  then show thesis using refused by blast
next
  case True
  then obtain m where m: "find_member t (cq_from_role q) = Some m" "cq_to_role q \<in> set (tm_may_consult m)"
    "cq_to_role q \<in> set (map tm_role (ts_members t))" and lim: "co_consults co < co_max_consults co"
    "co_consult_tokens co + max 1 (int (length (cq_question q))) \<le> co_max_consult_tokens co" by blast
  have pair: "allowed_pair t (cq_from_role q) (cq_to_role q)" using m by (auto simp: allowed_pair_def)
  have ne: "cq_from_role q \<noteq> cq_to_role q" using find_member_SomeD [OF m(1)] selfless m(2) by metis
  obtain d g where d: "add_delegation now (co_budget co) = (d, g)" by force
  show thesis
  proof (cases d)
    case (Inl b)
    then have "r = Inl (Budget_Exceeded b)" "co' = co\<lparr>co_budget := g\<rparr>"
      using c m lim d by (simp_all add: consult_def Let_def)
    then show thesis using tripped d by simp
  next
    case (Inr u)
    let ?reply = "case answer of Some a \<Rightarrow> a | None \<Rightarrow> ''ack:'' @ cq_question q"
    obtain x b where put: "board_put (''consult:'' @ cq_request_id q) ?reply (cq_to_role q) (co_board co) = (x, b)"
      by force
    let ?msgs = "[\<lparr>ml_from_role = cq_from_role q, ml_to_role = cq_to_role q, ml_body = cq_question q,
        ml_relayed_by = ''coordinator'', ml_kind = ''consult_q''\<rparr>,
      \<lparr>ml_from_role = cq_to_role q, ml_to_role = cq_from_role q, ml_body = ?reply,
        ml_relayed_by = ''coordinator'', ml_kind = ''consult_a''\<rparr>]"
    have res: "(r, co') = (case x of Inl e \<Rightarrow> Inl e | Inr _ \<Rightarrow> Inr ?reply,
        co\<lparr>co_budget := g, co_consults := co_consults co + 1,
               co_consult_tokens := co_consult_tokens co + max 1 (int (length (cq_question q))),
               co_mailbox := co_mailbox co @ ?msgs, co_board := b\<rparr>)"
      using c m lim d Inr put relay_coordinator [OF ne] relay_coordinator [OF ne [symmetric]]
      by (cases x) (simp_all add: consult_def Let_def)
    show thesis
      by (rule relayed [of g x b ?msgs]) (use d Inr pair ne lim put res in \<open>simp_all add: mail_ok_def\<close>)
  qed
qed

lemma consult_keeps_inv:
  assumes "consult t q answer now co = (r, co')" and "consult_inv t co"
    and "\<forall>m \<in> set (ts_members t). tm_role m \<notin> set (tm_may_consult m)"
  shows "consult_inv t co'"
  using assms(1,3)
proof (cases rule: consult_cases)
  case (relayed g x b msgs)
  have "board_inv b" using board_put_inv [OF relayed(6)] assms(2) by (simp add: consult_inv_def)
  then show ?thesis using relayed assms(2) by (auto simp: consult_inv_def)
qed (use assms(2) in \<open>simp_all add: consult_inv_def\<close>)

section \<open>An example\<close>

definition example_stage :: sop_stage where
  "example_stage = \<lparr>ss_name = ''draft'', ss_role = ''author'', ss_expected_output = ''text'',
     ss_context_keys = [], ss_output_key = ''draft'', ss_verify_before_next = [],
     ss_audit_after_verify = False, ss_next_on_success = None, ss_next_on_failure = Some ''draft'',
     ss_max_retries = 2, ss_parallel_members = None\<rparr>"

definition example_member :: "string \<Rightarrow> string list \<Rightarrow> team_member" where
  "example_member r consults = \<lparr>tm_role = r, tm_display_name = r, tm_goal = [], tm_backstory = [],
     tm_constraints = [], tm_model = None, tm_tools = None, tm_prompt_stage = r,
     tm_mechanical = False, tm_memory_shared = False, tm_timeout_s = 300, tm_token_budget = None,
     tm_may_consult = consults, tm_extra = []\<rparr>"

definition example_team :: team_spec where
  "example_team = \<lparr>ts_name = ''t'', ts_display_name = ''t'', ts_description = [],
     ts_members = [example_member ''author'' [''editor''], example_member ''editor'' []],
     ts_stages = [example_stage], ts_entry_stage = ''draft'', ts_total_token_budget = 500000,
     ts_total_timeout_s = 1800, ts_max_delegations = 3, ts_extra = []\<rparr>"

definition no_settings :: budget_settings where
  "no_settings = \<lparr>bo_token_budget = None, bo_timeout_s = None, bo_max_delegations = None\<rparr>"

definition failing :: "nat \<Rightarrow> iteration" where
  "failing i = \<lparr>it_now_check = 0, it_now_delegate = 0,
     it_outcomes = (\<lambda>r. Inr \<lparr>so_ok = False, so_answer = ''no'', so_error = ''no''\<rparr>),
     it_gate = \<lparr>gi_verdict = Verdict True [], gi_allows = True, gi_has_verifier = True, gi_live = True\<rparr>\<rparr>"

lemma example_team_valid: "validate_team (\<lambda>v. []) example_team = Inr ()"
  by code_simp

text \<open>A team of one stage that keeps failing is stopped by its delegations; the partial result
  reports three stages of one as done, because each attempt is a record of the history.\<close>

lemma example_run:
  "fst (run_team (\<lambda>v. []) (\<lambda>s. s) no_settings no_settings 0 example_team failing
     (new_coordinator (new_budget no_settings no_settings 0 None))) =
   Inr \<lparr>tr_stop = Team_Stopped (Budget_Exceeded (Delegations_Exceeded 3)),
        tr_trail = ''draft -> draft -> draft'', tr_done = 3, tr_total = 1\<rparr>"
  by code_simp

section \<open>Properties\<close>

text \<open>
  C18. A run of a team that validates ends within its delegations: whatever the members, the
  verifier and the clock answer, the loop returns, at most \<open>max_delegations\<close> stage attempts are
  in its history, and it never stops because a stage or a member is missing. The token fuse
  cannot stop it: no member's tokens are added to the budget.\<close>

theorem team_run_bounded:
  assumes "run_team so shorten ov cfg now t env co = (Inr r, co')"
  shows "int (tr_done r) \<le> max 0 (bg_max_delegations (co_budget co')) \<and>
    tr_stop r \<noteq> Team_Stopped (Team_Py_Error e) \<and> bg_tokens_used (co_budget co') = 0 \<and>
    (0 \<le> bg_token_budget (co_budget co') \<longrightarrow>
       tr_stop r \<noteq> Team_Stopped (Budget_Exceeded (Tokens_Exhausted n)))"
proof -
  let ?co = "co\<lparr>co_budget := budget_start ov cfg now t (co_budget co), co_plan := map ss_name (ts_stages t)\<rparr>"
  obtain stop co2 m where l: "run_loop shorten t env 0 (?co, new_sop t) = (stop, (co2, m))"
    by (metis prod.exhaust)
  have valid: "validate_team so t = Inr ()"
    using assms by (cases "validate_team so t") (auto simp: run_team_def)
  then have ok: "team_ok so t" using validate_team_ok by blast
  have known: "known_targets t" and entry: "ts_entry_stage t \<in> ss_name ` set (ts_stages t)"
    using team_ok_known [OF ok] by auto
  have r: "tr_stop r = stop" "tr_done r = length (sm_history m)" "co' = co2"
    using assms l valid by (auto simp: run_team_def Let_def)
  have start: "bg_delegations (co_budget ?co) = 0" "bg_tokens_used (co_budget ?co) = 0"
    by (simp_all add: budget_start_def budget_bind_def Let_def)
  have "team_inv t (?co, new_sop t)"
    using sop_inv_new [OF entry] start by (simp add: team_inv_def) (simp add: new_sop_def)
  from run_loop_facts [OF l this known] ok
  have f: "team_inv t (co2, m)" "sound_stop (co_budget ?co) stop"
    "co_budget co2 = (co_budget ?co)\<lparr>bg_delegations := bg_delegations (co_budget co2)\<rparr>"
    by (auto simp: team_ok_def)
  have same: "bg_tokens_used (co_budget co2) = bg_tokens_used (co_budget ?co)"
    "bg_token_budget (co_budget co2) = bg_token_budget (co_budget ?co)"
    by (subst f(3), simp)+
  show ?thesis using f(1,2) same start(2) r by (auto simp: team_inv_def sound_stop_def)
qed

theorem team_run_bounded_witness:
  "bg_tokens_used (co_budget (snd (run_team (\<lambda>v. []) (\<lambda>s. s) no_settings no_settings 0 example_team
     failing (new_coordinator (new_budget no_settings no_settings 0 None))))) = 0"
proof -
  have "run_team (\<lambda>v. []) (\<lambda>s. s) no_settings no_settings 0 example_team failing
      (new_coordinator (new_budget no_settings no_settings 0 None)) =
    (Inr \<lparr>tr_stop = Team_Stopped (Budget_Exceeded (Delegations_Exceeded 3)),
        tr_trail = ''draft -> draft -> draft'', tr_done = 3, tr_total = 1\<rparr>,
     snd (run_team (\<lambda>v. []) (\<lambda>s. s) no_settings no_settings 0 example_team failing
      (new_coordinator (new_budget no_settings no_settings 0 None))))"
    using example_run by (metis prod.collapse)
  from team_run_bounded [OF this] show ?thesis by blast
qed



definition log_put :: "int \<Rightarrow> (string \<Rightarrow> string list) \<times> int \<Rightarrow> string \<times> string \<times> string \<Rightarrow> (string \<Rightarrow> string list) \<times> int" where
  "log_put cap st c =
     (case (st, c) of ((m, used), (k, v, r)) \<Rightarrow>
        if used + int (utf8_length v) > cap then (m, used)
        else (m(k := m k @ [v]), used + int (utf8_length v)))"

lemma board_step_log:
  assumes "board_inv b"
  shows "(board_values (board_step b c), bb_bytes (board_step b c)) =
      log_put (bb_max_bytes b) (board_values b, bb_bytes b) c \<and>
    bb_max_bytes (board_step b c) = bb_max_bytes b"
proof -
  obtain k v r where c: "c = (k, v, r)" by (cases c)
  show ?thesis
  proof (cases "bb_bytes b + int (utf8_length v) > bb_max_bytes b")
    case True
    then show ?thesis by (simp add: board_step_def board_put_def log_put_def c)
  next
    case False
    then obtain e b' where p: "board_put k v r b = (Inr e, b')" by (simp add: board_put_def Let_def)
    have "bb_bytes b' = bb_bytes b + int (utf8_length v)" "bb_max_bytes b' = bb_max_bytes b"
      using p False by (auto simp: board_put_def Let_def)
    then show ?thesis using False p board_put_facts(2) [OF p assms]
      by (simp add: board_step_def log_put_def c)
  qed
qed

text \<open>
  C36. The blackboard refines a capped log: after any puts, the values under each key are in
  order those of the puts that fitted the cap, the byte count is theirs, and \<open>get\<close> returns the
  latest.\<close>

theorem board_refines_log:
  "(board_values (run board_step (new_blackboard cap) cs), bb_bytes (run board_step (new_blackboard cap) cs)) =
     foldl (log_put cap) (\<lambda>k. [], 0) cs \<and>
   board_get (run board_step (new_blackboard cap) cs) k =
     (case foldl (log_put cap) (\<lambda>k. [], 0) cs of (m, used) \<Rightarrow> if m k = [] then None else Some (last (m k)))"
proof -
  have sim: "(board_values (run board_step b cs), bb_bytes (run board_step b cs)) =
      foldl (log_put (bb_max_bytes b)) (board_values b, bb_bytes b) cs"
    if "board_inv b" for b
    using that
  proof (induction cs arbitrary: b)
    case (Cons c cs)
    note st = board_step_log [OF Cons.prems, of c]
    have "board_inv (board_step b c)" using board_step_cases [OF Cons.prems] by blast
    from Cons.IH [OF this] show ?case using st by simp
  qed simp
  have "board_values (new_blackboard cap) = (\<lambda>k. [])" "bb_bytes (new_blackboard cap) = 0"
    "bb_max_bytes (new_blackboard cap) = cap"
    by (auto simp: board_values_def board_versions_def new_blackboard_def dict_get_or_def)
  then have 1: "(board_values (run board_step (new_blackboard cap) cs), bb_bytes (run board_step (new_blackboard cap) cs)) =
     foldl (log_put cap) (\<lambda>k. [], 0) cs"
    using sim [OF new_board_inv, of cap] by simp
  then show ?thesis
    using board_get_values [OF bb.run_inv [OF new_board_inv], of cap cs k] by (simp add: split_beta) (metis fst_conv)
qed

text \<open>C90. Consults pass through the coordinator: for a team that validates, after any consults in
  any order, every message of the mailbox was relayed by the coordinator between two different
  roles of which the asking one may consult the other, each consult counted relayed exactly a
  question and an answer, and the counts of consults and of their characters are within their
  limits; a consult is answered only to a role that may ask.\<close>

fun consult_run ::
  "team_spec \<Rightarrow> (consult_request \<times> string option \<times> rat) list \<Rightarrow> coordinator \<Rightarrow> coordinator" where
  "consult_run t [] co = co"
| "consult_run t ((q, a, now) # cs) co = consult_run t cs (snd (consult t q a now co))"

theorem consults_mediated:
  assumes "validate_team so t = Inr ()"
  shows "let co = consult_run t cs (new_coordinator g) in
    (\<forall>msg \<in> set (co_mailbox co). mail_ok t msg) \<and>
    int (length (co_mailbox co)) = 2 * co_consults co \<and> co_consults co \<le> 8 \<and>
    co_consult_tokens co \<le> 20000"
proof -
  have selfless: "\<forall>m \<in> set (ts_members t). tm_role m \<notin> set (tm_may_consult m)"
    using assms validate_team_ok by (auto simp: team_ok_def member_ok_def)
  have keep: "consult_inv t (consult_run t cs co) \<and> co_max_consults (consult_run t cs co) = co_max_consults co \<and>
      co_max_consult_tokens (consult_run t cs co) = co_max_consult_tokens co"
    if "consult_inv t co" for co
    using that
  proof (induction cs arbitrary: co)
    case (Cons c cs)
    obtain q a now where c: "c = (q, a, now)" by (cases c)
    obtain r co1 where r: "consult t q a now co = (r, co1)" by force
    have inv: "consult_inv t co1" by (rule consult_keeps_inv [OF r Cons.prems selfless])
    have "co_max_consults co1 = co_max_consults co \<and> co_max_consult_tokens co1 = co_max_consult_tokens co"
      using r selfless by (cases rule: consult_cases) simp_all
    then show ?case using Cons.IH [OF inv] r by (simp add: c)
  qed simp
  have "consult_inv t (new_coordinator g)"
    by (simp add: consult_inv_def new_coordinator_def new_board_inv)
  moreover have "co_max_consults (new_coordinator g) = 8" "co_max_consult_tokens (new_coordinator g) = 20000"
    by (simp_all add: new_coordinator_def)
  ultimately have "consult_inv t (consult_run t cs (new_coordinator g))"
    "co_max_consults (consult_run t cs (new_coordinator g)) = 8"
    "co_max_consult_tokens (consult_run t cs (new_coordinator g)) = 20000"
    using keep by metis+
  then show ?thesis unfolding Let_def consult_inv_def by simp
qed

theorem consults_mediated_witness:
  "let co = consult_run example_team [(\<lparr>cq_request_id = ''1'', cq_from_role = ''author'',
       cq_to_role = ''editor'', cq_question = ''ok?''\<rparr>, None, 0)]
     (new_coordinator (new_budget no_settings no_settings 0 None)) in
   int (length (co_mailbox co)) = 2 * co_consults co \<and> co_consults co \<le> 8"
  using consults_mediated [OF example_team_valid, of "[(\<lparr>cq_request_id = ''1'', cq_from_role = ''author'',
       cq_to_role = ''editor'', cq_question = ''ok?''\<rparr>, None, 0)]"
     "new_budget no_settings no_settings 0 None"]
  unfolding Let_def by blast

end
