(* ===== verification/Task_Queue.thy ===== *)
theory Task_Queue
  imports PyDict Machine
begin

text \<open>
  \<open>utils/queue.py\<close>: the persistent task queue. The file holds the tasks and the next id; a
  missing or undecodable file reads as the empty queue. A claim, a completion, an addition, a
  removal and a clearing each load, change and save the file under one lock, so they are single
  steps (the lock is one manager's: two managers on one file are not modelled); between the claim of
  a task and its completion other steps run. \<open>classify\<close> stands for the text tables of
  \<open>classify_agent_result\<close> (\<open>log/log_helpers.py\<close>), of which only the four statuses it answers are
  modelled; which loop executes the coroutine is not modelled.
\<close>

section \<open>The file\<close>

record queue_task =
  qt_id :: int
  qt_prompt :: string
  qt_status :: string
  qt_created :: string
  qt_started :: string
  qt_finished :: string
  qt_result :: "string option"

record queue_data =
  qd_tasks :: "queue_task list"
  qd_next_id :: int

type_synonym queue_file = "queue_data option"

definition empty_queue :: queue_data where
  "empty_queue = \<lparr>qd_tasks = [], qd_next_id = 1\<rparr>"

definition load_queue :: "queue_file \<Rightarrow> queue_data" where
  "load_queue f = (case f of None \<Rightarrow> empty_queue | Some d \<Rightarrow> d)"

section \<open>Operations\<close>

fun claim_first :: "string \<Rightarrow> int \<Rightarrow> queue_task list \<Rightarrow> (queue_task \<times> queue_task list) option" where
  "claim_first now task_id [] = None"
| "claim_first now task_id (t # ts) =
     (if qt_id t \<noteq> task_id \<or> qt_status t \<noteq> ''pending'' then
        (case claim_first now task_id ts of None \<Rightarrow> None | Some (c, ts') \<Rightarrow> Some (c, t # ts'))
      else
        let c = t\<lparr>qt_status := ''running'', qt_started := now, qt_finished := [], qt_result := None\<rparr> in
        Some (c, c # ts))"

definition queue_claim :: "string \<Rightarrow> int \<Rightarrow> queue_file \<Rightarrow> queue_task option \<times> queue_file" where
  "queue_claim now task_id f =
     (let d = load_queue f in
      case claim_first now task_id (qd_tasks d) of
        None \<Rightarrow> (None, f)
      | Some (c, ts) \<Rightarrow> (Some c, Some (d\<lparr>qd_tasks := ts\<rparr>)))"

fun complete_first ::
  "string \<Rightarrow> int \<Rightarrow> string \<Rightarrow> string \<Rightarrow> queue_task list \<Rightarrow> (queue_task \<times> queue_task list) option" where
  "complete_first now task_id status res [] = None"
| "complete_first now task_id status res (t # ts) =
     (if qt_id t \<noteq> task_id then
        (case complete_first now task_id status res ts of
           None \<Rightarrow> None | Some (c, ts') \<Rightarrow> Some (c, t # ts'))
      else
        let c = t\<lparr>qt_status := status, qt_result := Some res, qt_finished := now\<rparr> in
        Some (c, c # ts))"

definition queue_complete ::
  "string \<Rightarrow> int \<Rightarrow> string \<Rightarrow> string \<Rightarrow> queue_file \<Rightarrow> queue_task option \<times> queue_file" where
  "queue_complete now task_id status res f =
     (let d = load_queue f in
      case complete_first now task_id status res (qd_tasks d) of
        None \<Rightarrow> (None, f)
      | Some (c, ts) \<Rightarrow> (Some c, Some (d\<lparr>qd_tasks := ts\<rparr>)))"

definition queue_add :: "string \<Rightarrow> string \<Rightarrow> queue_file \<Rightarrow> queue_task \<times> queue_file" where
  "queue_add now prompt f =
     (let d = load_queue f;
          t = \<lparr>qt_id = qd_next_id d, qt_prompt = prompt, qt_status = ''pending'', qt_created = now,
               qt_started = [], qt_finished = [], qt_result = None\<rparr> in
      (t, Some (d\<lparr>qd_tasks := qd_tasks d @ [t], qd_next_id := qd_next_id d + 1\<rparr>)))"

definition queue_list :: "queue_file \<Rightarrow> queue_task list" where
  "queue_list f = qd_tasks (load_queue f)"

definition queue_clear :: "queue_file \<Rightarrow> queue_file" where
  "queue_clear f = Some empty_queue"

definition queue_remove :: "int \<Rightarrow> queue_file \<Rightarrow> bool \<times> queue_file" where
  "queue_remove task_id f =
     (let d = load_queue f; remaining = filter (\<lambda>t. qt_id t \<noteq> task_id) (qd_tasks d) in
      if length remaining = length (qd_tasks d) then (False, f)
      else (True, Some (d\<lparr>qd_tasks := remaining\<rparr>)))"

section \<open>Running a task\<close>

text \<open>What the runner does with the prompt.\<close>

datatype runner_result = Returned string | Raised string | Cancelled

text \<open>The statuses \<open>classify_agent_result\<close> returns.\<close>

datatype result_class = RSucceeded | RFailed | RTimedOut | RCancelled

fun result_status :: "result_class \<Rightarrow> string" where
  "result_status RSucceeded = ''succeeded''"
| "result_status RFailed = ''failed''"
| "result_status RTimedOut = ''timed_out''"
| "result_status RCancelled = ''cancelled''"

text \<open>The second half of \<open>run_task_async\<close>: the completion of a claimed task. \<open>Inl ()\<close> is the
  cancellation that propagates.\<close>

definition finish_task ::
  "(string \<Rightarrow> result_class) \<Rightarrow> string \<Rightarrow> int \<Rightarrow> runner_result \<Rightarrow> queue_file \<Rightarrow>
   (unit + queue_task option) \<times> queue_file" where
  "finish_task classify now task_id r f =
     (case r of
        Cancelled \<Rightarrow>
          (Inl (), snd (queue_complete now task_id ''cancelled'' ''[cancelled: queue task]'' f))
      | Raised e \<Rightarrow>
          (case queue_complete now task_id ''failed'' (''Error: '' @ e) f of (t, f') \<Rightarrow> (Inr t, f'))
      | Returned x \<Rightarrow>
          (case queue_complete now task_id (result_status (classify x)) x f of (t, f') \<Rightarrow> (Inr t, f')))"

text \<open>The second half of the synchronous \<open>run_task\<close>, which does not record a cancellation.\<close>

definition finish_task_sync ::
  "(string \<Rightarrow> result_class) \<Rightarrow> string \<Rightarrow> int \<Rightarrow> runner_result \<Rightarrow> queue_file \<Rightarrow>
   (unit + string option) \<times> queue_file" where
  "finish_task_sync classify now task_id r f =
     (case r of
        Cancelled \<Rightarrow> (Inl (), f)
      | _ \<Rightarrow>
          (case finish_task classify now task_id r f of
             (Inl u, f') \<Rightarrow> (Inl u, f')
           | (Inr None, f') \<Rightarrow> (Inr None, f')
           | (Inr (Some t), f') \<Rightarrow> (Inr (qt_result t), f')))"

definition run_task_async ::
  "(string \<Rightarrow> result_class) \<Rightarrow> (string \<Rightarrow> runner_result) \<Rightarrow> string \<Rightarrow> int \<Rightarrow> queue_file \<Rightarrow>
   (unit + queue_task option) \<times> queue_file" where
  "run_task_async classify runner now task_id f =
     (case queue_claim now task_id f of
        (None, f1) \<Rightarrow> (Inr None, f1)
      | (Some c, f1) \<Rightarrow> finish_task classify now task_id (runner (qt_prompt c)) f1)"

fun run_ids ::
  "(string \<Rightarrow> result_class) \<Rightarrow> (string \<Rightarrow> runner_result) \<Rightarrow> string \<Rightarrow> int list \<Rightarrow> queue_file \<Rightarrow>
   (unit + queue_task list) \<times> queue_file" where
  "run_ids classify runner now [] f = (Inr [], f)"
| "run_ids classify runner now (i # is) f =
     (case run_task_async classify runner now i f of
        (Inl u, f1) \<Rightarrow> (Inl u, f1)
      | (Inr t, f1) \<Rightarrow>
          (case run_ids classify runner now is f1 of
             (Inl u, f2) \<Rightarrow> (Inl u, f2)
           | (Inr ts, f2) \<Rightarrow> (Inr ((case t of None \<Rightarrow> ts | Some t \<Rightarrow> t # ts)), f2)))"

definition run_all_async ::
  "(string \<Rightarrow> result_class) \<Rightarrow> (string \<Rightarrow> runner_result) \<Rightarrow> string \<Rightarrow> queue_file \<Rightarrow>
   (unit + queue_task list) \<times> queue_file" where
  "run_all_async classify runner now f =
     run_ids classify runner now
       (map qt_id (filter (\<lambda>t. qt_status t = ''pending'') (queue_list f))) f"

section \<open>Interleaved runs\<close>

text \<open>The queue with the runs in flight: the ids claimed and not yet completed, oldest first.\<close>

record queue_system =
  qs_file :: queue_file
  qs_in_flight :: "int list"

datatype queue_cmd =
    QAdd string string
  | QStart string int
  | QFinish string int runner_result
  | QFinishSync string int runner_result
  | QRemove int
  | QClear
  | QList

text \<open>A step, and the id it began to execute. A completion needs its run in flight.\<close>

definition queue_step ::
  "(string \<Rightarrow> result_class) \<Rightarrow> queue_system \<Rightarrow> queue_cmd \<Rightarrow> int list \<times> queue_system" where
  "queue_step classify q cmd =
     (case cmd of
        QAdd now p \<Rightarrow> ([], q\<lparr>qs_file := snd (queue_add now p (qs_file q))\<rparr>)
      | QStart now i \<Rightarrow>
          (case queue_claim now i (qs_file q) of
             (None, f) \<Rightarrow> ([], q\<lparr>qs_file := f\<rparr>)
           | (Some c, f) \<Rightarrow> ([i], q\<lparr>qs_file := f, qs_in_flight := qs_in_flight q @ [i]\<rparr>))
      | QFinish now i r \<Rightarrow>
          if i \<in> set (qs_in_flight q) then
            ([], q\<lparr>qs_file := snd (finish_task classify now i r (qs_file q)),
                   qs_in_flight := remove1 i (qs_in_flight q)\<rparr>)
          else ([], q)
      | QFinishSync now i r \<Rightarrow>
          if i \<in> set (qs_in_flight q) then
            ([], q\<lparr>qs_file := snd (finish_task_sync classify now i r (qs_file q)),
                   qs_in_flight := remove1 i (qs_in_flight q)\<rparr>)
          else ([], q)
      | QRemove i \<Rightarrow> ([], q\<lparr>qs_file := snd (queue_remove i (qs_file q))\<rparr>)
      | QClear \<Rightarrow> ([], q\<lparr>qs_file := queue_clear (qs_file q)\<rparr>)
      | QList \<Rightarrow> ([], q))"

end
