(* ===== verification/Task_Queue_Correct.thy ===== *)
theory Task_Queue_Correct
  imports Task_Queue
begin

text \<open>
  Every task of the queue is executed at most once, however claims, completions, additions and
  removals interleave, as long as the queue is not cleared; clearing restarts the ids, and a run
  that is still in flight then completes somebody else's task. Running all tasks completes every
  pending task, in order, with its own result.
\<close>

definition queue_wf :: "queue_file \<Rightarrow> bool" where
  "queue_wf f \<longleftrightarrow>
     distinct (map qt_id (queue_list f)) \<and> (\<forall>t \<in> set (queue_list f). qt_id t < qd_next_id (load_queue f))"

definition is_pending :: "queue_task \<Rightarrow> bool" where
  "is_pending t = (qt_status t = ''pending'')"

definition claimed :: "string \<Rightarrow> queue_task \<Rightarrow> queue_task" where
  "claimed now t = t\<lparr>qt_status := ''running'', qt_started := now, qt_finished := [], qt_result := None\<rparr>"

definition completed_with :: "string \<Rightarrow> string \<Rightarrow> string \<Rightarrow> queue_task \<Rightarrow> queue_task" where
  "completed_with now status res t = t\<lparr>qt_status := status, qt_result := Some res, qt_finished := now\<rparr>"

lemma task_update_simps [simp]:
  "qt_id (claimed now t) = qt_id t" "qt_prompt (claimed now t) = qt_prompt t"
  "qt_id (completed_with now s r t) = qt_id t" "qt_status (completed_with now s r t) = s"
  "\<not> is_pending (claimed now t)"
  by (simp_all add: claimed_def completed_with_def is_pending_def)

text \<open>A change of the task with one id.\<close>

definition on_id :: "int \<Rightarrow> (queue_task \<Rightarrow> queue_task) \<Rightarrow> queue_task list \<Rightarrow> queue_task list" where
  "on_id i g ts = map (\<lambda>t. if qt_id t = i then g t else t) ts"

lemma result_status_not_pending [simp]: "result_status c \<noteq> ''pending''"
  by (cases c) simp_all

lemma on_id_Nil [simp]: "on_id i g [] = []"
  by (simp add: on_id_def)

lemma on_id_Cons [simp]: "on_id i g (t # ts) = (if qt_id t = i then g t else t) # on_id i g ts"
  by (simp add: on_id_def)

lemma on_id_other: "i \<notin> qt_id ` set ts \<Longrightarrow> on_id i g ts = ts"
  by (induction ts) auto

lemma on_id_ids: "(\<And>t. qt_id (g t) = qt_id t) \<Longrightarrow> map qt_id (on_id i g ts) = map qt_id ts"
  by (induction ts) auto

lemma on_id_set:
  "u \<in> set (on_id i g ts) \<Longrightarrow> (u \<in> set ts \<and> qt_id u \<noteq> i) \<or> (\<exists>t \<in> set ts. qt_id t = i \<and> u = g t)"
  by (auto simp: on_id_def split: if_splits)

section \<open>Claims and completions on distinct ids\<close>

lemma claim_first_exact:
  assumes "distinct (map qt_id ts)"
  shows "claim_first now i ts =
    (if \<exists>t \<in> set ts. qt_id t = i \<and> is_pending t
     then Some (claimed now (the (find (\<lambda>t. qt_id t = i) ts)),
                on_id i (claimed now) ts)
     else None)"
  using assms
proof (induction ts)
  case Nil
  show ?case by simp
next
  case (Cons t ts)
  show ?case
  proof (cases "qt_id t = i")
    case True
    have same: "on_id i (claimed now) ts = ts"
      using Cons.prems True by (intro on_id_other) auto
    have "qt_id u \<noteq> i" if "u \<in> set ts" for u
      using Cons.prems True imageI [OF that, of qt_id] by auto
    then have none: "\<not> (\<exists>u \<in> set ts. qt_id u = i \<and> is_pending u)" by blast
    have "claim_first now i ts = None" using Cons none by (simp only: if_False distinct.simps list.map)
    then show ?thesis using none True same
      by (cases "is_pending t") (auto simp: is_pending_def claimed_def [symmetric] Let_def)
  next
    case False
    then show ?thesis using Cons by auto
  qed
qed

lemma complete_first_exact:
  assumes "distinct (map qt_id ts)"
  shows "complete_first now i s r ts =
    (if i \<in> qt_id ` set ts
     then Some (completed_with now s r (the (find (\<lambda>t. qt_id t = i) ts)),
                on_id i (completed_with now s r) ts)
     else None)"
  using assms
proof (induction ts)
  case Nil
  show ?case by simp
next
  case (Cons t ts)
  show ?case
  proof (cases "qt_id t = i")
    case True
    have same: "on_id i (completed_with now s r) ts = ts"
      using Cons.prems True by (intro on_id_other) auto
    then show ?thesis using Cons True by (auto simp: completed_with_def Let_def)
  next
    case False
    then show ?thesis using Cons by auto
  qed
qed

text \<open>What a saved change keeps.\<close>

definition only_settles :: "queue_file \<Rightarrow> queue_file \<Rightarrow> bool" where
  "only_settles f f' \<longleftrightarrow>
     set (map qt_id (queue_list f')) \<subseteq> set (map qt_id (queue_list f)) \<and>
     qd_next_id (load_queue f') = qd_next_id (load_queue f) \<and>
     (\<forall>t \<in> set (queue_list f'). is_pending t \<longrightarrow> t \<in> set (queue_list f))"

lemma only_settles_refl [simp]: "only_settles f f"
  by (simp add: only_settles_def)

lemma change_facts:
  assumes "f' = Some ((load_queue f)\<lparr>qd_tasks := on_id i g (qd_tasks (load_queue f))\<rparr>)"
    and "queue_wf f" and "\<And>t. qt_id (g t) = qt_id t" and "\<And>t. \<not> is_pending (g t)"
  shows "queue_wf f' \<and> only_settles f f' \<and> (\<forall>t \<in> set (queue_list f'). qt_id t = i \<longrightarrow> \<not> is_pending t)"
proof -
  have l: "queue_list f' = on_id i g (queue_list f)" and n: "qd_next_id (load_queue f') = qd_next_id (load_queue f)"
    using assms(1) by (simp_all add: queue_list_def load_queue_def)
  have ids: "map qt_id (queue_list f') = map qt_id (queue_list f)"
    unfolding l by (rule on_id_ids) (rule assms(3))
  have pend: "\<not> is_pending t" if "t \<in> set (queue_list f')" "qt_id t = i" for t
    using on_id_set [of t i g "queue_list f"] that assms(4) unfolding l by auto
  have old: "t \<in> set (queue_list f)" if "t \<in> set (queue_list f')" "is_pending t" for t
    using on_id_set [of t i g "queue_list f"] that assms(4) unfolding l by auto
  have "\<forall>t \<in> set (queue_list f'). qt_id t < qd_next_id (load_queue f')"
  proof
    fix t assume "t \<in> set (queue_list f')"
    then have "qt_id t \<in> set (map qt_id (queue_list f'))" by simp
    then show "qt_id t < qd_next_id (load_queue f')"
      unfolding ids n using assms(2) by (auto simp: queue_wf_def)
  qed
  then have "queue_wf f'" using assms(2) ids unfolding queue_wf_def by simp
  then show ?thesis using ids n pend old unfolding only_settles_def by simp
qed

lemma claim_facts:
  assumes "queue_claim now i f = (r, f')" and "queue_wf f"
  shows "queue_wf f' \<and> only_settles f f' \<and>
    (r \<noteq> None \<longrightarrow> (\<exists>t \<in> set (queue_list f). qt_id t = i \<and> is_pending t) \<and>
       (\<forall>t \<in> set (queue_list f'). qt_id t = i \<longrightarrow> \<not> is_pending t))"
proof -
  have d: "distinct (map qt_id (qd_tasks (load_queue f)))"
    using assms(2) by (simp add: queue_wf_def queue_list_def)
  show ?thesis
  proof (cases "\<exists>t \<in> set (queue_list f). qt_id t = i \<and> is_pending t")
    case True
    then have f': "f' = Some ((load_queue f)\<lparr>qd_tasks := on_id i (claimed now) (qd_tasks (load_queue f))\<rparr>)"
      using assms(1) claim_first_exact [OF d, of now i]
      by (auto simp: queue_claim_def queue_list_def Let_def)
    show ?thesis using change_facts [OF f' assms(2)] True by simp
  next
    case False
    then have "claim_first now i (qd_tasks (load_queue f)) = None"
      using claim_first_exact [OF d, of now i] by (simp only: queue_list_def if_False)
    then have "f' = f" "r = None" using assms(1) by (simp_all add: queue_claim_def Let_def)
    then show ?thesis using assms(2) by simp
  qed
qed

lemma complete_facts:
  assumes "queue_complete now i s r f = (x, f')" and "queue_wf f" and "s \<noteq> ''pending''"
  shows "queue_wf f' \<and> only_settles f f'"
proof -
  have d: "distinct (map qt_id (qd_tasks (load_queue f)))"
    using assms(2) by (simp add: queue_wf_def queue_list_def)
  show ?thesis
  proof (cases "i \<in> qt_id ` set (qd_tasks (load_queue f))")
    case True
    then have f': "f' = Some ((load_queue f)\<lparr>qd_tasks :=
        on_id i (completed_with now s r) (qd_tasks (load_queue f))\<rparr>)"
      using assms(1) complete_first_exact [OF d, of now i s r]
      by (auto simp: queue_complete_def Let_def)
    show ?thesis using change_facts [OF f' assms(2)] assms(3) by (simp add: is_pending_def)
  next
    case False
    then have "f' = f" using assms(1) complete_first_exact [OF d, of now i s r]
      by (auto simp: queue_complete_def Let_def)
    then show ?thesis using assms(2) by simp
  qed
qed

lemma finish_facts:
  assumes "queue_wf f"
  shows "queue_wf (snd (finish_task classify now i r f)) \<and> only_settles f (snd (finish_task classify now i r f))"
    and "queue_wf (snd (finish_task_sync classify now i r f)) \<and>
      only_settles f (snd (finish_task_sync classify now i r f))"
proof -
  show 1: "queue_wf (snd (finish_task classify now i r f)) \<and> only_settles f (snd (finish_task classify now i r f))"
    using complete_facts [OF _ assms(1)] complete_facts [OF prod.collapse [symmetric] assms(1)]
    by (cases r) (auto simp: finish_task_def split: prod.splits simp del: append.simps)
  show "queue_wf (snd (finish_task_sync classify now i r f)) \<and>
      only_settles f (snd (finish_task_sync classify now i r f))"
    using 1 assms(1)
    by (cases r) (auto simp: finish_task_sync_def split: prod.splits sum.splits option.splits)
qed

section \<open>At most one execution of a task\<close>

text \<open>\<open>S\<close> is the set of the ids ever executed.\<close>

definition queue_inv :: "int set \<Rightarrow> queue_file \<Rightarrow> bool" where
  "queue_inv S f \<longleftrightarrow>
     queue_wf f \<and> (\<forall>i \<in> S. i < qd_next_id (load_queue f)) \<and>
     (\<forall>t \<in> set (queue_list f). is_pending t \<longrightarrow> qt_id t \<notin> S)"

lemma queue_inv_settles: "queue_inv S f \<Longrightarrow> queue_wf f' \<Longrightarrow> only_settles f f' \<Longrightarrow> queue_inv S f'"
  by (auto simp: queue_inv_def only_settles_def)

lemma queue_step_inv:
  assumes "queue_step classify q cmd = (vs, q')" and "queue_inv S (qs_file q)" and "cmd \<noteq> QClear"
  shows "queue_inv (S \<union> set vs) (qs_file q') \<and> distinct vs \<and> set vs \<inter> S = {}"
proof (cases cmd)
  case (QAdd now p)
  have "queue_inv S (snd (queue_add now p f))" if "queue_inv S f" for f
    using that
    by (fastforce simp: queue_inv_def queue_wf_def queue_add_def queue_list_def load_queue_def Let_def)
  then show ?thesis using assms(1,2) QAdd by (auto simp: queue_step_def)
next
  case (QStart now i)
  obtain r f' where c: "queue_claim now i (qs_file q) = (r, f')" by force
  have wf: "queue_wf (qs_file q)" using assms(2) by (simp add: queue_inv_def)
  note cf = claim_facts [OF c wf]
  show ?thesis
  proof (cases r)
    case None
    then show ?thesis using assms(1) QStart c cf queue_inv_settles [OF assms(2)]
      by (auto simp: queue_step_def)
  next
    case (Some t)
    have vs: "vs = [i]" "qs_file q' = f'" using assms(1) QStart c Some by (auto simp: queue_step_def)
    obtain u where u: "u \<in> set (queue_list (qs_file q))" "qt_id u = i" "is_pending u"
      using cf Some by auto
    have "i \<notin> S" "i < qd_next_id (load_queue f')"
      using u assms(2) cf by (auto simp: queue_inv_def queue_wf_def only_settles_def)
    moreover have "queue_inv S f'" using queue_inv_settles [OF assms(2)] cf by blast
    ultimately show ?thesis using vs cf Some by (auto simp: queue_inv_def)
  qed
next
  case (QFinish now i r)
  have "queue_wf (qs_file q)" using assms(2) by (simp add: queue_inv_def)
  from finish_facts(1) [OF this, of classify now i r] show ?thesis
    using assms(1,2) QFinish queue_inv_settles [OF assms(2)]
    by (auto simp: queue_step_def split: if_splits)
next
  case (QFinishSync now i r)
  have "queue_wf (qs_file q)" using assms(2) by (simp add: queue_inv_def)
  from finish_facts(2) [OF this, of classify now i r] show ?thesis
    using assms(1,2) QFinishSync queue_inv_settles [OF assms(2)]
    by (auto simp: queue_step_def split: if_splits)
next
  case (QRemove i)
  have "queue_inv S (snd (queue_remove i f))" if "queue_inv S f" for f
    using that
    by (auto simp: queue_inv_def queue_wf_def queue_remove_def queue_list_def load_queue_def Let_def
        distinct_map_filter)
  then show ?thesis using assms(1,2) QRemove by (auto simp: queue_step_def)
qed (use assms in \<open>auto simp: queue_step_def\<close>)

lemma queue_run_inv:
  "run_obs (queue_step classify) q cmds = (vs, q') \<Longrightarrow> queue_inv S (qs_file q) \<Longrightarrow> QClear \<notin> set cmds \<Longrightarrow>
   queue_inv (S \<union> set vs) (qs_file q') \<and> distinct vs \<and> set vs \<inter> S = {}"
proof (induction cmds arbitrary: q vs q' S)
  case Nil
  then show ?case by simp
next
  case (Cons c cs)
  obtain us q1 where s: "queue_step classify q c = (us, q1)" by force
  obtain ws q2 where r: "run_obs (queue_step classify) q1 cs = (ws, q2)" by force
  have eq: "vs = us @ ws" "q' = q2" using Cons.prems(1) s r by auto
  have 1: "queue_inv (S \<union> set us) (qs_file q1) \<and> distinct us \<and> set us \<inter> S = {}"
    using queue_step_inv [OF s Cons.prems(2)] Cons.prems(3) by auto
  have "queue_inv (S \<union> set us \<union> set ws) (qs_file q2) \<and> distinct ws \<and> set ws \<inter> (S \<union> set us) = {}"
    using Cons.IH [OF r _] 1 Cons.prems(3) by auto
  then show ?case using 1 eq by (auto simp: Un_assoc)
qed

text \<open>
  C35. Whatever order additions, claims, completions (of the asynchronous and of the synchronous
  wrapper) and removals arrive in, no task id begins to execute twice, and a task that began to
  execute is never pending again. The queue is not cleared in between: \<open>clear\<close> restarts the ids.\<close>

theorem queue_runs_each_task_once:
  assumes "queue_wf f" and "QClear \<notin> set cmds"
    and "run_obs (queue_step classify) \<lparr>qs_file = f, qs_in_flight = []\<rparr> cmds = (started, q)"
  shows "distinct started \<and>
    (\<forall>t \<in> set (queue_list (qs_file q)). qt_id t \<in> set started \<longrightarrow> qt_status t \<noteq> ''pending'')"
proof -
  have "queue_inv {} (qs_file \<lparr>qs_file = f, qs_in_flight = []\<rparr>)"
    using assms(1) by (simp add: queue_inv_def)
  from queue_run_inv [OF assms(3) this assms(2)] show ?thesis
    by (auto simp: queue_inv_def is_pending_def)
qed

text \<open>The witness's run: two additions, three claims that find their task taken, one completion and one
  cancellation.\<close>

definition example_queue_run :: "queue_cmd list" where
  "example_queue_run =
     [QAdd ''a'' ''x'', QAdd ''a'' ''y'', QStart ''b'' 1, QStart ''b'' 1, QStart ''b'' 2,
      QFinish ''c'' 1 (Returned ''r''), QStart ''d'' 1, QFinish ''d'' 2 Cancelled, QStart ''e'' 2]"

lemma queue_runs_each_task_once_witness:
  "fst (run_obs (queue_step (\<lambda>_. RSucceeded)) \<lparr>qs_file = None, qs_in_flight = []\<rparr> example_queue_run) = [1, 2] \<and>
   distinct (fst (run_obs (queue_step (\<lambda>_. RSucceeded)) \<lparr>qs_file = None, qs_in_flight = []\<rparr> example_queue_run))"
proof -
  have "fst (run_obs (queue_step (\<lambda>_. RSucceeded)) \<lparr>qs_file = None, qs_in_flight = []\<rparr> example_queue_run) = [1, 2]"
    by code_simp
  moreover have "queue_wf None" by code_simp
  moreover have "QClear \<notin> set example_queue_run" by (simp add: example_queue_run_def)
  ultimately show ?thesis
    using queue_runs_each_task_once [of None example_queue_run "\<lambda>_. RSucceeded"] by (metis prod.collapse)
qed

section \<open>Running everything\<close>

text \<open>What a run makes of a pending task.\<close>

definition task_outcome ::
  "(string \<Rightarrow> result_class) \<Rightarrow> (string \<Rightarrow> runner_result) \<Rightarrow> string \<Rightarrow> queue_task \<Rightarrow> queue_task" where
  "task_outcome classify runner now t =
     (case runner (qt_prompt t) of
        Cancelled \<Rightarrow> completed_with now ''cancelled'' ''[cancelled: queue task]'' (claimed now t)
      | Raised e \<Rightarrow> completed_with now ''failed'' (''Error: '' @ e) (claimed now t)
      | Returned x \<Rightarrow> completed_with now (result_status (classify x)) x (claimed now t))"

definition uncancelled :: "(string \<Rightarrow> runner_result) \<Rightarrow> queue_task \<Rightarrow> bool" where
  "uncancelled runner t \<longleftrightarrow> runner (qt_prompt t) \<noteq> Cancelled"

text \<open>The tasks a run over \<open>ps\<close> gets to: up to the first cancelled one, that one included.\<close>

fun reached :: "(string \<Rightarrow> runner_result) \<Rightarrow> queue_task list \<Rightarrow> queue_task list" where
  "reached runner [] = []"
| "reached runner (t # ts) = t # (if uncancelled runner t then reached runner ts else [])"

lemma task_outcome_id [simp]: "qt_id (task_outcome classify runner now t) = qt_id t"
  by (simp add: task_outcome_def split: runner_result.splits)

lemma on_id_twice: "(\<And>t. qt_id (g t) = qt_id t) \<Longrightarrow> on_id i h (on_id i g ts) = on_id i (\<lambda>t. h (g t)) ts"
  by (simp add: on_id_def)

lemma find_on_id:
  "(\<And>t. qt_id (g t) = qt_id t) \<Longrightarrow> i \<in> qt_id ` set ts \<Longrightarrow>
   the (find (\<lambda>t. qt_id t = i) (on_id i g ts)) = g (the (find (\<lambda>t. qt_id t = i) ts))"
  by (induction ts) auto

lemma find_own:
  "distinct (map qt_id ts) \<Longrightarrow> t \<in> set ts \<Longrightarrow> find (\<lambda>u. qt_id u = qt_id t) ts = Some t"
  by (induction ts) auto

lemma on_id_const: "distinct (map qt_id ts) \<Longrightarrow> t \<in> set ts \<Longrightarrow> on_id (qt_id t) g ts = on_id (qt_id t) (\<lambda>_. g t) ts"
  by (auto simp: on_id_def distinct_map dest: inj_onD)

lemma queue_claim_pending:
  assumes "distinct (map qt_id (queue_list f))" and "t \<in> set (queue_list f)" and "is_pending t"
  shows "queue_claim now (qt_id t) f =
    (Some (claimed now t), Some ((load_queue f)\<lparr>qd_tasks := on_id (qt_id t) (claimed now) (queue_list f)\<rparr>))"
proof -
  have "\<exists>u \<in> set (queue_list f). qt_id u = qt_id t \<and> is_pending u" using assms(2,3) by blast
  then have "claim_first now (qt_id t) (queue_list f) =
      Some (claimed now t, on_id (qt_id t) (claimed now) (queue_list f))"
    using claim_first_exact [OF assms(1), of now "qt_id t"] find_own [OF assms(1,2)] by simp
  then show ?thesis by (simp add: queue_claim_def queue_list_def Let_def)
qed

lemma queue_complete_present:
  assumes "distinct (map qt_id (queue_list f))" and "t \<in> set (queue_list f)"
  shows "queue_complete now (qt_id t) s r f =
    (Some (completed_with now s r t),
     Some ((load_queue f)\<lparr>qd_tasks := on_id (qt_id t) (completed_with now s r) (queue_list f)\<rparr>))"
proof -
  have "qt_id t \<in> qt_id ` set (queue_list f)" using assms(2) by blast
  then have "complete_first now (qt_id t) s r (queue_list f) =
      Some (completed_with now s r t, on_id (qt_id t) (completed_with now s r) (queue_list f))"
    using complete_first_exact [OF assms(1), of now "qt_id t" s r] find_own [OF assms(1,2)] by simp
  then show ?thesis by (simp add: queue_complete_def queue_list_def Let_def)
qed

lemma on_id_pick:
  "distinct (map qt_id ts) \<Longrightarrow> t \<in> set ts \<Longrightarrow> g t \<in> set (on_id (qt_id t) g ts)"
  by (force simp: on_id_def)

lemma run_task_pending:
  assumes "distinct (map qt_id (queue_list f))" and "t \<in> set (queue_list f)" and "is_pending t"
  shows "run_task_async classify runner now (qt_id t) f =
    (if uncancelled runner t then Inr (Some (task_outcome classify runner now t)) else Inl (),
     Some ((load_queue f)\<lparr>qd_tasks := on_id (qt_id t) (task_outcome classify runner now) (queue_list f)\<rparr>))"
proof -
  define f1 where "f1 = Some ((load_queue f)\<lparr>qd_tasks := on_id (qt_id t) (claimed now) (queue_list f)\<rparr>)"
  have l: "queue_list f1 = on_id (qt_id t) (claimed now) (queue_list f)"
    and lf: "load_queue f1 = (load_queue f)\<lparr>qd_tasks := on_id (qt_id t) (claimed now) (queue_list f)\<rparr>"
    by (simp_all add: f1_def queue_list_def load_queue_def)
  have d: "distinct (map qt_id (queue_list f1))" unfolding l by (simp add: on_id_ids assms(1))
  have m: "claimed now t \<in> set (queue_list f1)" unfolding l by (rule on_id_pick [OF assms(1,2)])
  have c: "queue_complete now (qt_id t) s r f1 = (Some (completed_with now s r (claimed now t)),
      Some ((load_queue f)\<lparr>qd_tasks := on_id (qt_id t) (\<lambda>_. completed_with now s r (claimed now t)) (queue_list f)\<rparr>))"
    for s r
    using queue_complete_present [OF d m, of now s r] on_id_const [OF assms(1,2), of "\<lambda>t. completed_with now s r (claimed now t)"]
    by (simp add: l lf on_id_twice)
  have o: "on_id (qt_id t) (task_outcome classify runner now) (queue_list f) =
      on_id (qt_id t) (\<lambda>_. task_outcome classify runner now t) (queue_list f)"
    by (rule on_id_const [OF assms(1,2)])
  show ?thesis
    unfolding run_task_async_def queue_claim_pending [OF assms] f1_def [symmetric] o
    by (cases "runner (qt_prompt t)")
      (simp_all add: finish_task_def c task_outcome_def uncancelled_def del: append.simps)
qed

lemma run_ids_pending:
  "distinct (map qt_id (queue_list f)) \<Longrightarrow> distinct (map qt_id ps) \<Longrightarrow> set ps \<subseteq> set (queue_list f) \<Longrightarrow>
   \<forall>p \<in> set ps. is_pending p \<Longrightarrow>
   fst (run_ids classify runner now (map qt_id ps) f) =
     (if \<forall>p \<in> set ps. uncancelled runner p then Inr (map (task_outcome classify runner now) ps) else Inl ()) \<and>
   queue_list (snd (run_ids classify runner now (map qt_id ps) f)) =
     map (\<lambda>t. if qt_id t \<in> qt_id ` set (reached runner ps) then task_outcome classify runner now t else t) (queue_list f)"
proof (induction ps arbitrary: f)
  case Nil
  then show ?case by simp
next
  case (Cons p ps)
  let ?g = "task_outcome classify runner now"
  define f1 where "f1 = Some ((load_queue f)\<lparr>qd_tasks := on_id (qt_id p) ?g (queue_list f)\<rparr>)"
  have l: "queue_list f1 = on_id (qt_id p) ?g (queue_list f)"
    by (simp add: f1_def queue_list_def load_queue_def)
  have r: "run_task_async classify runner now (qt_id p) f =
      (if uncancelled runner p then Inr (Some (?g p)) else Inl (), f1)"
    unfolding f1_def by (rule run_task_pending) (use Cons.prems in auto)
  show ?case
  proof (cases "uncancelled runner p")
    case False
    then show ?thesis using r l by (simp add: on_id_def)
  next
    case True
    have d: "distinct (map qt_id (queue_list f1))" unfolding l using Cons.prems(1) by (simp add: on_id_ids)
    have ids: "qt_id q \<noteq> qt_id p" if "q \<in> set ps" for q
      using Cons.prems(2) imageI [OF that, of qt_id] by auto
    have s: "set ps \<subseteq> set (queue_list f1)"
      using Cons.prems(3) ids by (auto simp: l on_id_def image_iff)
    have sub: "set (reached runner qs) \<subseteq> set qs" for qs by (induction qs) auto
    have np: "qt_id p \<notin> qt_id ` set (reached runner ps)"
    proof
      assume "qt_id p \<in> qt_id ` set (reached runner ps)"
      then obtain x where "x \<in> set (reached runner ps)" "qt_id x = qt_id p" by auto
      then show False using ids [of x] sub [of ps] by blast
    qed
    obtain x f2 where x: "run_ids classify runner now (map qt_id ps) f1 = (x, f2)" by force
    note ih = Cons.IH [OF d _ s, unfolded x fst_conv snd_conv]
    have "queue_list f2 = map (\<lambda>t. if qt_id t \<in> qt_id ` set (reached runner (p # ps)) then ?g t else t) (queue_list f)"
      using ih Cons.prems(2,4) True np unfolding l on_id_def by auto
    moreover have "x = (if \<forall>p \<in> set ps. uncancelled runner p then Inr (map ?g ps) else Inl ())"
      using ih Cons.prems(2,4) by auto
    ultimately show ?thesis using True r x by simp
  qed
qed

text \<open>
  \<open>run_all_async\<close> gives every task that is pending, in order, its own outcome: the classified
  result, the recorded error, or the recorded cancellation, which ends the pass there and leaves the
  later tasks as they were. It returns the outcomes when no run was cancelled. Every other task is
  untouched.\<close>

theorem run_all_exact:
  assumes "queue_wf f"
  shows "let pending = filter is_pending (queue_list f) in
    fst (run_all_async classify runner now f) =
      (if \<forall>t \<in> set pending. uncancelled runner t then Inr (map (task_outcome classify runner now) pending)
       else Inl ()) \<and>
    queue_list (snd (run_all_async classify runner now f)) =
      map (\<lambda>t. if qt_id t \<in> qt_id ` set (reached runner pending) then task_outcome classify runner now t else t)
        (queue_list f)"
proof -
  have d: "distinct (map qt_id (queue_list f))" using assms by (simp add: queue_wf_def)
  then have "distinct (map qt_id (filter is_pending (queue_list f)))" by (rule distinct_map_filter)
  from run_ids_pending [OF d this, of classify runner now] show ?thesis
    by (simp add: run_all_async_def is_pending_def [abs_def] Let_def)
qed

lemma run_all_exact_witness:
  "map qt_status (queue_list (snd (run_all_async (\<lambda>_. RFailed)
     (\<lambda>p. if p = ''b'' then Cancelled else Returned p) ''n''
     (snd (queue_add ''t'' ''c'' (snd (queue_add ''t'' ''b'' (snd (queue_add ''t'' ''a'' None))))))))) =
   [''failed'', ''cancelled'', ''pending'']"
proof -
  define f where "f = snd (queue_add ''t'' ''c'' (snd (queue_add ''t'' ''b'' (snd (queue_add ''t'' ''a'' None)))))"
  have w: "queue_wf f" unfolding f_def by code_simp
  have l: "queue_list f =
      [\<lparr>qt_id = 1, qt_prompt = ''a'', qt_status = ''pending'', qt_created = ''t'', qt_started = [], qt_finished = [], qt_result = None\<rparr>,
       \<lparr>qt_id = 2, qt_prompt = ''b'', qt_status = ''pending'', qt_created = ''t'', qt_started = [], qt_finished = [], qt_result = None\<rparr>,
       \<lparr>qt_id = 3, qt_prompt = ''c'', qt_status = ''pending'', qt_created = ''t'', qt_started = [], qt_finished = [], qt_result = None\<rparr>]"
    by (simp add: f_def queue_add_def queue_list_def load_queue_def empty_queue_def Let_def)
  show ?thesis
    unfolding f_def [symmetric]
    using run_all_exact [OF w, of "\<lambda>_. RFailed" "\<lambda>p. if p = ''b'' then Cancelled else Returned p" "''n''"] l
    by (simp add: Let_def uncancelled_def task_outcome_def is_pending_def)
qed

section \<open>What clearing and the synchronous wrapper break\<close>

text \<open>\<open>clear\<close> restarts the ids while a run is in flight: the run of the old task 1 then completes the
  new task 1, which never ran.\<close>

lemma clear_completes_a_stranger:
  "map (\<lambda>t. (qt_prompt t, qt_status t, qt_result t)) (queue_list (qs_file (snd
     (run_obs (queue_step (\<lambda>_. RSucceeded)) \<lparr>qs_file = None, qs_in_flight = []\<rparr>
       [QAdd ''a'' ''old'', QStart ''b'' 1, QClear, QAdd ''c'' ''new'', QFinish ''d'' 1 (Returned ''r'')])))) =
   [(''new'', ''succeeded'', Some ''r'')]"
  by code_simp

text \<open>A cancelled synchronous run leaves its task running for good: nothing claims it again.\<close>

lemma sync_cancellation_sticks:
  "map qt_status (queue_list (qs_file (snd
     (run_obs (queue_step (\<lambda>_. RSucceeded)) \<lparr>qs_file = None, qs_in_flight = []\<rparr>
       [QAdd ''a'' ''x'', QStart ''b'' 1, QFinishSync ''c'' 1 Cancelled, QStart ''d'' 1])))) = [''running'']"
  by code_simp

end
