(* ===== verification/Cron.thy ===== *)
theory Cron
  imports Prelude
begin

text \<open>
  \<open>scheduler/cron.py\<close>: the parser of five-field cron expressions and of their shorthands, and the
  search for the next run. Characters are Latin-1 code points, so \<open>str.isdigit\<close> accepts the three
  superscript digits that \<open>int\<close> and \<open>\d\<close> refuse; \<open>int\<close> also refuses more than 4300 digits. Datetimes are
  naive and at the resolution of a minute, the resolution every function here works at. The sets of
  the expression are sets of naturals. \<open>next_run\<close> advances by \<open>datetime + timedelta\<close>, which raises
  \<open>OverflowError\<close> after the year 9999.
\<close>

section \<open>Datetimes\<close>

record datetime =
  dt_year :: nat
  dt_month :: nat
  dt_day :: nat
  dt_hour :: nat
  dt_minute :: nat

definition is_leap :: "nat \<Rightarrow> bool" where
  "is_leap y \<longleftrightarrow> y mod 4 = 0 \<and> (y mod 100 \<noteq> 0 \<or> y mod 400 = 0)"

definition days_in_month :: "nat \<Rightarrow> nat \<Rightarrow> nat" where
  "days_in_month y m =
     (if m = 2 then (if is_leap y then 29 else 28) else if m \<in> {4, 6, 9, 11} then 30 else 31)"

definition days_before_year :: "nat \<Rightarrow> nat" where
  "days_before_year y = (let p = y - 1 in p * 365 + p div 4 + p div 400 - p div 100)"

definition days_before_month :: "nat \<Rightarrow> nat \<Rightarrow> nat" where
  "days_before_month y m = sum_list (map (days_in_month y) [1..<m])"

definition toordinal :: "datetime \<Rightarrow> nat" where
  "toordinal d = days_before_year (dt_year d) + days_before_month (dt_year d) (dt_month d) + dt_day d"

text \<open>\<open>weekday()\<close>: 0 is Monday.\<close>

definition py_weekday :: "datetime \<Rightarrow> nat" where
  "py_weekday d = (toordinal d + 6) mod 7"

definition add_minute :: "datetime \<Rightarrow> datetime option" where
  "add_minute d =
     (if dt_minute d < 59 then Some (d\<lparr>dt_minute := dt_minute d + 1\<rparr>)
      else if dt_hour d < 23 then Some (d\<lparr>dt_hour := dt_hour d + 1, dt_minute := 0\<rparr>)
      else if dt_day d < days_in_month (dt_year d) (dt_month d) then
        Some (d\<lparr>dt_day := dt_day d + 1, dt_hour := 0, dt_minute := 0\<rparr>)
      else if dt_month d < 12 then
        Some (d\<lparr>dt_month := dt_month d + 1, dt_day := 1, dt_hour := 0, dt_minute := 0\<rparr>)
      else if dt_year d < 9999 then
        Some \<lparr>dt_year = dt_year d + 1, dt_month = 1, dt_day = 1, dt_hour = 0, dt_minute = 0\<rparr>
      else None)"

section \<open>Errors and numbers\<close>

text \<open>Every case but the last is a \<open>ValueError\<close>.\<close>

datatype cron_error =
    FieldCount nat
  | BadInt string
  | BadStep string string
  | BadRange string string
  | ZeroStep
  | OutOfRange nat nat nat string
  | BadField string string
  | BadDuration string
  | BadDurationChar char
  | NoNextRun
  | DateOverflow

definition is_decimal :: "char \<Rightarrow> bool" where
  "is_decimal c = (let n = code_point c in 48 \<le> n \<and> n \<le> 57)"

text \<open>\<open>str.isdigit\<close> on a character.\<close>

definition is_digit_char :: "char \<Rightarrow> bool" where
  "is_digit_char c = (is_decimal c \<or> code_point c \<in> {178, 179, 185})"

definition digits_value :: "string \<Rightarrow> nat" where
  "digits_value s = foldl (\<lambda>n c. n * 10 + (code_point c - 48)) 0 s"

text \<open>\<open>int\<close> on a non-empty string of digit characters.\<close>

definition digits_int :: "string \<Rightarrow> cron_error + nat" where
  "digits_int s = (if list_all is_decimal s \<and> length s \<le> 4300 then Inr (digits_value s) else Inl (BadInt s))"

section \<open>Shorthands\<close>

text \<open>\<open>s.replace(p, "")\<close> for a non-empty \<open>p\<close>.\<close>

function remove_all :: "string \<Rightarrow> string \<Rightarrow> string" where
  "remove_all p s =
     (if s = [] \<or> p = [] then s
      else if starts_with s p then remove_all p (drop (length p) s)
      else hd s # remove_all p (tl s))"
  by pat_completeness auto
termination by (relation "measure (\<lambda>(p, s). length s)") auto

declare remove_all.simps [simp del]

text \<open>The loop of \<open>_parse_duration\<close> over the remaining characters, with \<open>total\<close> and \<open>current\<close>.\<close>

fun duration_loop :: "nat \<Rightarrow> string \<Rightarrow> string \<Rightarrow> cron_error + nat" where
  "duration_loop tot cur [] = (if cur = [] then Inr tot else bind_result (digits_int cur) (\<lambda>n. Inr (tot + n)))"
| "duration_loop tot cur (c # cs) =
     (let unit = (\<lambda>k. bind_result (digits_int (if cur = [] then ''0'' else cur))
                    (\<lambda>n. duration_loop (tot + n * k) [] cs)) in
      if is_digit_char c then duration_loop tot (cur @ [c]) cs
      else if c = CHR ''h'' then unit 60
      else if c = CHR ''m'' then unit 1
      else if c = CHR ''d'' then unit 1440
      else Inl (BadDurationChar c))"

definition parse_duration :: "string \<Rightarrow> cron_error + nat" where
  "parse_duration dur = duration_loop 0 [] dur"

definition SHORTHANDS :: "(string \<times> string) list" where
  "SHORTHANDS =
     [(''@yearly'', ''0 0 1 1 *''), (''@annually'', ''0 0 1 1 *''), (''@monthly'', ''0 0 1 * *''),
      (''@weekly'', ''0 0 * * 0''), (''@daily'', ''0 0 * * *''), (''@hourly'', ''0 * * * *'')]"

text \<open>The expression an interval of so many minutes becomes.\<close>

definition every_expr :: "nat \<Rightarrow> string" where
  "every_expr minutes =
     (if minutes \<ge> 60 \<and> minutes mod 60 = 0 then
        let hours = minutes div 60 in
        if hours \<ge> 24 \<and> hours mod 24 = 0 then ''0 0 * * *''
        else ''0 */'' @ str_nat hours @ '' * * *''
      else ''*/'' @ str_nat minutes @ '' * * * *'')"

definition expand_shorthand :: "string \<Rightarrow> cron_error + string" where
  "expand_shorthand expr =
     (let low = lower expr in
      case map_of SHORTHANDS low of
        Some e \<Rightarrow> Inr e
      | None \<Rightarrow>
          if starts_with low ''@every '' then
            let dur = strip (remove_all ''@every '' low) in
            bind_result (parse_duration dur) (\<lambda>minutes.
              if minutes < 1 then Inl (BadDuration dur) else Inr (every_expr minutes))
          else Inr expr)"

section \<open>Fields\<close>

text \<open>\<open>range(a, b + 1, step)\<close> for a positive step.\<close>

definition steps :: "nat \<Rightarrow> nat \<Rightarrow> nat \<Rightarrow> nat list" where
  "steps a b step = filter (\<lambda>v. (v - a) mod step = 0) [a..<b + 1]"

text \<open>The match of \<open>^\*/(\d+)$\<close>: the digits.\<close>

definition step_match :: "string \<Rightarrow> string option" where
  "step_match part =
     (let ds = drop 2 part in
      if starts_with part ''*/'' \<and> ds \<noteq> [] \<and> list_all is_decimal ds then Some ds else None)"

text \<open>The match of \<open>^(\d+)-(\d+)(?:/(\d+))?$\<close>: the three groups.\<close>

definition range_match :: "string \<Rightarrow> (string \<times> string \<times> string option) option" where
  "range_match part =
     (let a = takeWhile is_decimal part; r1 = dropWhile is_decimal part;
          b = takeWhile is_decimal (drop 1 r1); r2 = dropWhile is_decimal (drop 1 r1) in
      if a = [] \<or> b = [] \<or> take 1 r1 \<noteq> ''-'' then None
      else if r2 = [] then Some (a, b, None)
      else if hd r2 = CHR ''/'' \<and> tl r2 \<noteq> [] \<and> list_all is_decimal (tl r2) then Some (a, b, Some (tl r2))
      else None)"

definition is_digit_str :: "string \<Rightarrow> bool" where
  "is_digit_str s \<longleftrightarrow> s \<noteq> [] \<and> list_all is_digit_char s"

text \<open>The body of the loop of \<open>_parse_field\<close>: what one stripped part adds.\<close>

definition parse_part :: "nat \<Rightarrow> nat \<Rightarrow> string \<Rightarrow> string \<Rightarrow> cron_error + nat set" where
  "parse_part low high name part =
     (if part = ''*'' then Inr (set [low..<high + 1])
      else case step_match part of
        Some ds \<Rightarrow>
          bind_result (digits_int ds) (\<lambda>step.
            if step < 1 then Inl (BadStep name part) else Inr (set (steps low high step)))
      | None \<Rightarrow>
      (case range_match part of
        Some (a, b, st) \<Rightarrow>
          bind_result (digits_int a) (\<lambda>start.
          bind_result (digits_int b) (\<lambda>final.
          bind_result (case st of None \<Rightarrow> Inr 1 | Some s \<Rightarrow> digits_int s) (\<lambda>step.
            if start < low \<or> final > high \<or> start > final then Inl (BadRange name part)
            else if step = 0 then Inl ZeroStep
            else Inr (set (steps start final step)))))
      | None \<Rightarrow>
          if is_digit_str part then
            bind_result (digits_int part) (\<lambda>val.
              if val < low \<or> val > high then Inl (OutOfRange val low high name) else Inr {val})
          else Inl (BadField name part)))"

definition parse_field :: "string \<Rightarrow> nat \<Rightarrow> nat \<Rightarrow> string \<Rightarrow> cron_error + nat set" where
  "parse_field field low high name =
     bind_result (map_result (\<lambda>p. parse_part low high name (strip p)) (split_on (CHR '','') field))
       (\<lambda>vs. Inr (\<Union> (set vs)))"

section \<open>Expressions\<close>

record cron_expression =
  ce_minutes :: "nat set"
  ce_hours :: "nat set"
  ce_days :: "nat set"
  ce_months :: "nat set"
  ce_weekdays :: "nat set"
  ce_raw :: string

text \<open>\<open>str.split()\<close>: the maximal runs of other than space characters.\<close>

fun split_words :: "string \<Rightarrow> string list" where
  "split_words [] = []"
| "split_words (c # s) =
     (if is_space c then split_words s
      else (case s of
              [] \<Rightarrow> [[c]]
            | d # _ \<Rightarrow> if is_space d then [c] # split_words s
                       else (case split_words s of [] \<Rightarrow> [[c]] | w # ws \<Rightarrow> (c # w) # ws)))"

definition parse_cron :: "string \<Rightarrow> cron_error + cron_expression" where
  "parse_cron expr0 =
     bind_result (expand_shorthand (strip expr0)) (\<lambda>expr.
       case split_words expr of
         [mi, ho, da, mo, wd] \<Rightarrow>
           bind_result (parse_field mi 0 59 ''minute'') (\<lambda>minutes.
           bind_result (parse_field ho 0 23 ''hour'') (\<lambda>hours.
           bind_result (parse_field da 1 31 ''day'') (\<lambda>days.
           bind_result (parse_field mo 1 12 ''month'') (\<lambda>months.
           bind_result (parse_field wd 0 6 ''weekday'') (\<lambda>weekdays.
             Inr \<lparr>ce_minutes = minutes, ce_hours = hours, ce_days = days, ce_months = months,
                  ce_weekdays = weekdays, ce_raw = expr\<rparr>)))))
       | parts \<Rightarrow> Inl (FieldCount (length parts)))"

definition cron_matches :: "cron_expression \<Rightarrow> datetime \<Rightarrow> bool" where
  "cron_matches c d \<longleftrightarrow>
     dt_minute d \<in> ce_minutes c \<and> dt_hour d \<in> ce_hours c \<and> dt_day d \<in> ce_days c \<and>
     dt_month d \<in> ce_months c \<and> (py_weekday d + 1) mod 7 \<in> ce_weekdays c"

text \<open>The loop of \<open>next_run\<close>, with the number of iterations left.\<close>

fun search_run :: "cron_expression \<Rightarrow> nat \<Rightarrow> datetime \<Rightarrow> cron_error + datetime" where
  "search_run c 0 d = Inl NoNextRun"
| "search_run c (Suc n) d =
     (if cron_matches c d then Inr d
      else (case add_minute d of None \<Rightarrow> Inl DateOverflow | Some d' \<Rightarrow> search_run c n d'))"

definition NEXT_RUN_LIMIT :: nat where
  "NEXT_RUN_LIMIT = 60 * 24 * 366"

definition next_run :: "cron_expression \<Rightarrow> datetime \<Rightarrow> cron_error + datetime" where
  "next_run c after =
     (case add_minute after of None \<Rightarrow> Inl DateOverflow | Some d \<Rightarrow> search_run c NEXT_RUN_LIMIT d)"

end
