(* ===== verification/Cron_Calendar.thy ===== *)
theory Cron_Calendar
  imports Cron
begin

text \<open>
  The calendar of \<open>scheduler/cron.py\<close>: adding a minute walks the timeline without a gap, a valid
  datetime is determined by its minute number, and \<open>next_run\<close> finds the least later match.
\<close>

definition valid_dt :: "datetime \<Rightarrow> bool" where
  "valid_dt d \<longleftrightarrow>
     1 \<le> dt_year d \<and> dt_year d \<le> 9999 \<and> 1 \<le> dt_month d \<and> dt_month d \<le> 12 \<and>
     1 \<le> dt_day d \<and> dt_day d \<le> days_in_month (dt_year d) (dt_month d) \<and>
     dt_hour d < 24 \<and> dt_minute d < 60"

text \<open>The minutes since the day before 0001-01-01.\<close>

definition minute_no :: "datetime \<Rightarrow> nat" where
  "minute_no d = toordinal d * 1440 + dt_hour d * 60 + dt_minute d"

definition year_days :: "nat \<Rightarrow> nat" where
  "year_days y = (if is_leap y then 366 else 365)"

section \<open>Years and months\<close>

lemma days_in_month_bounds: "28 \<le> days_in_month y m" "days_in_month y m \<le> 31"
  by (auto simp: days_in_month_def)

lemma div_pred: "1 \<le> y \<Longrightarrow> 0 < k \<Longrightarrow> y div k = (y - 1) div k + (if y mod k = 0 then 1 else 0)" for y k :: nat
  by (cases y) (auto simp: div_Suc)

lemma days_before_year_Suc:
  assumes "1 \<le> y"
  shows "days_before_year (y + 1) = days_before_year y + year_days y"
proof -
  define p where "p = y - 1"
  have m: "y mod 4 = 0" if "y mod 100 = 0" using that by presburger
  have n: "y mod 100 = 0" if "y mod 400 = 0" using that by presburger
  have c: "p div 100 \<le> p div 4" by (rule div_le_mono2) simp_all
  have now: "days_before_year (y + 1) = y * 365 + y div 4 + y div 400 - y div 100"
    and then_: "days_before_year y = p * 365 + p div 4 + p div 400 - p div 100"
    by (simp_all add: days_before_year_def p_def Let_def)
  have d: "y div 4 = p div 4 + (if y mod 4 = 0 then 1 else 0)"
    "y div 100 = p div 100 + (if y mod 100 = 0 then 1 else 0)"
    "y div 400 = p div 400 + (if y mod 400 = 0 then 1 else 0)"
    using div_pred [OF assms, of 4] div_pred [OF assms, of 100] div_pred [OF assms, of 400]
    by (simp_all add: p_def)
  have l: "year_days y = 365 + (if y mod 4 = 0 then 1 else 0) + (if y mod 400 = 0 then 1 else 0)
      - (if y mod 100 = 0 then 1 else 0)"
    using m n by (auto simp: year_days_def is_leap_def)
  have y: "y * 365 = p * 365 + 365" using assms by (simp add: p_def algebra_simps)
  show ?thesis
    unfolding now then_ l d y
    by (cases "y mod 4 = 0"; cases "y mod 100 = 0"; cases "y mod 400 = 0") (use c m n in \<open>simp_all add: ac_simps\<close>)
qed

lemma days_before_month_Suc:
  "1 \<le> m \<Longrightarrow> days_before_month y (m + 1) = days_before_month y m + days_in_month y m"
  by (simp add: days_before_month_def)

lemma days_before_month_1 [simp]: "days_before_month y 1 = 0" "days_before_month y (Suc 0) = 0"
  by (simp_all add: days_before_month_def)

lemma days_before_month_13: "days_before_month y 13 = year_days y"
  by (simp add: days_before_month_def upt_rec [of 1] upt_rec [of "_ :: nat" 13] days_in_month_def year_days_def
      numeral_eq_Suc)

lemma mono_steps:
  fixes f :: "nat \<Rightarrow> nat"
  assumes "\<And>k. 1 \<le> k \<Longrightarrow> f k \<le> f (k + 1)" and "1 \<le> a" and "a \<le> b"
  shows "f a \<le> f b"
  using assms(3)
proof (induction b rule: dec_induct)
  case (step k)
  then show ?case using assms(1) [of k] assms(2) by simp
qed simp

lemma days_before_month_mono: "1 \<le> a \<Longrightarrow> a \<le> b \<Longrightarrow> days_before_month y a \<le> days_before_month y b"
  by (rule mono_steps) (simp_all add: days_before_month_Suc del: One_nat_def)

lemma days_before_year_mono: "1 \<le> a \<Longrightarrow> a \<le> b \<Longrightarrow> days_before_year a \<le> days_before_year b"
  by (rule mono_steps) (simp_all add: days_before_year_Suc del: One_nat_def)

definition day_of_year :: "datetime \<Rightarrow> nat" where
  "day_of_year d = days_before_month (dt_year d) (dt_month d) + dt_day d"

lemma toordinal_split: "toordinal d = days_before_year (dt_year d) + day_of_year d"
  by (simp add: toordinal_def day_of_year_def)

lemma day_of_year_bounds:
  assumes "valid_dt d"
  shows "1 \<le> day_of_year d" "day_of_year d \<le> year_days (dt_year d)"
proof -
  show "1 \<le> day_of_year d" using assms by (simp add: valid_dt_def day_of_year_def)
  have "day_of_year d \<le> days_before_month (dt_year d) (dt_month d + 1)"
    using assms by (simp add: valid_dt_def day_of_year_def days_before_month_Suc del: One_nat_def)
  also have "\<dots> \<le> days_before_month (dt_year d) 13"
    using assms by (intro days_before_month_mono) (auto simp: valid_dt_def)
  finally show "day_of_year d \<le> year_days (dt_year d)" by (simp add: days_before_month_13)
qed

lemma minute_no_year_less:
  assumes "valid_dt d" and "valid_dt e" and "dt_year d < dt_year e"
  shows "toordinal d < toordinal e"
proof -
  have "toordinal d \<le> days_before_year (dt_year d + 1)"
    using day_of_year_bounds [OF assms(1)] assms(1)
    by (simp add: toordinal_split days_before_year_Suc valid_dt_def del: One_nat_def)
  also have "\<dots> \<le> days_before_year (dt_year e)"
    using assms(3) by (intro days_before_year_mono) auto
  also have "\<dots> < toordinal e" using day_of_year_bounds(1) [OF assms(2)] by (simp add: toordinal_split)
  finally show ?thesis .
qed

lemma toordinal_month_less:
  assumes "valid_dt d" and "valid_dt e" and "dt_year d = dt_year e" and "dt_month d < dt_month e"
  shows "toordinal d < toordinal e"
proof -
  have "day_of_year d \<le> days_before_month (dt_year d) (dt_month d + 1)"
    using assms(1) by (simp add: day_of_year_def days_before_month_Suc valid_dt_def del: One_nat_def)
  also have "\<dots> \<le> days_before_month (dt_year d) (dt_month e)"
    using assms(4) by (intro days_before_month_mono) auto
  also have "\<dots> < day_of_year e" using assms(2,3) by (simp add: day_of_year_def valid_dt_def)
  finally show ?thesis using assms(3) by (simp add: toordinal_split)
qed

lemma toordinal_inj:
  assumes "valid_dt d" and "valid_dt e" and "toordinal d = toordinal e"
  shows "dt_year d = dt_year e \<and> dt_month d = dt_month e \<and> dt_day d = dt_day e"
proof -
  have y: "dt_year d = dt_year e"
    using minute_no_year_less assms by (metis less_irrefl_nat linorder_neqE_nat)
  have m: "dt_month d = dt_month e"
    using toordinal_month_less assms y by (metis less_irrefl_nat linorder_neqE_nat)
  show ?thesis using y m assms(3) by (simp add: toordinal_def)
qed

lemma minute_no_inj:
  assumes "valid_dt d" and "valid_dt e" and "minute_no d = minute_no e"
  shows "d = e"
proof -
  have h: "dt_hour d * 60 + dt_minute d < 1440" if "valid_dt d" for d
    using that unfolding valid_dt_def by linarith
  have q: "toordinal d = minute_no d div 1440" "dt_hour d * 60 + dt_minute d = minute_no d mod 1440"
    if "valid_dt d" for d
  proof -
    define r where "r = dt_hour d * 60 + dt_minute d"
    have "minute_no d = r + toordinal d * 1440" "r < 1440" using h [OF that] by (simp_all add: minute_no_def r_def)
    then show "toordinal d = minute_no d div 1440" "dt_hour d * 60 + dt_minute d = minute_no d mod 1440"
      unfolding r_def [symmetric] by simp_all
  qed
  have o: "toordinal d = toordinal e" and t: "dt_hour d * 60 + dt_minute d = dt_hour e * 60 + dt_minute e"
    using q assms by simp_all
  have "dt_hour d = dt_hour e" "dt_minute d = dt_minute e"
    using arg_cong [OF t, of "\<lambda>n. n div 60"] arg_cong [OF t, of "\<lambda>n. n mod 60"] assms(1,2)
    by (simp_all add: valid_dt_def)
  then show ?thesis using toordinal_inj [OF assms(1,2) o] by (cases d; cases e) simp
qed

section \<open>Adding a minute\<close>

definition last_dt :: datetime where
  "last_dt = \<lparr>dt_year = 9999, dt_month = 12, dt_day = 31, dt_hour = 23, dt_minute = 59\<rparr>"

lemma add_minute_spec:
  assumes "valid_dt d"
  shows "case add_minute d of None \<Rightarrow> d = last_dt | Some e \<Rightarrow> valid_dt e \<and> minute_no e = minute_no d + 1"
proof -
  consider "dt_minute d < 59" | "dt_minute d = 59" "dt_hour d < 23"
    | "dt_minute d = 59" "dt_hour d = 23" "dt_day d < days_in_month (dt_year d) (dt_month d)"
    | "dt_minute d = 59" "dt_hour d = 23" "dt_day d = days_in_month (dt_year d) (dt_month d)" "dt_month d < 12"
    | "dt_minute d = 59" "dt_hour d = 23" "dt_day d = days_in_month (dt_year d) (dt_month d)" "dt_month d = 12"
      "dt_year d < 9999"
    | "dt_minute d = 59" "dt_hour d = 23" "dt_day d = days_in_month (dt_year d) (dt_month d)" "dt_month d = 12"
      "dt_year d = 9999"
    using assms unfolding valid_dt_def by linarith
  then show ?thesis
  proof cases
    case 4
    then show ?thesis using assms days_in_month_bounds [of "dt_year d" "dt_month d + 1"]
      by (simp add: add_minute_def valid_dt_def minute_no_def toordinal_def days_before_month_Suc del: One_nat_def)
  next
    case 5
    have "days_before_month (dt_year d) 12 + days_in_month (dt_year d) 12 = year_days (dt_year d)"
      using days_before_month_Suc [of 12 "dt_year d"] days_before_month_13 by simp
    then show ?thesis using 5 assms days_in_month_bounds [of "dt_year d + 1" 1]
      by (simp add: add_minute_def valid_dt_def minute_no_def toordinal_def days_before_year_Suc del: One_nat_def)
  next
    case 6
    then show ?thesis by (simp add: add_minute_def last_dt_def days_in_month_def)
  qed (use assms in \<open>simp_all add: add_minute_def valid_dt_def minute_no_def toordinal_def\<close>)
qed

lemma minute_no_last: "valid_dt e \<Longrightarrow> minute_no e \<le> minute_no last_dt"
proof -
  assume e: "valid_dt e"
  have l: "valid_dt last_dt" by (simp add: valid_dt_def last_dt_def days_in_month_def)
  have "toordinal e \<le> toordinal last_dt"
  proof (cases "dt_year e = 9999 \<and> dt_month e = 12")
    case True
    then show ?thesis using e by (simp add: toordinal_def last_dt_def valid_dt_def days_in_month_def)
  next
    case False
    then show ?thesis
      using minute_no_year_less [OF e l] toordinal_month_less [OF e l] e
      by (fastforce simp: last_dt_def valid_dt_def)
  qed
  moreover have "dt_hour e * 60 + dt_minute e \<le> 1439" using e unfolding valid_dt_def by linarith
  ultimately show ?thesis by (simp add: minute_no_def last_dt_def)
qed

section \<open>The search\<close>

lemma search_run_numeral:
  "search_run c (numeral k) d =
     (if cron_matches c d then Inr d
      else (case add_minute d of None \<Rightarrow> Inl DateOverflow | Some d' \<Rightarrow> search_run c (pred_numeral k) d'))"
  by (simp add: numeral_eq_Suc)

lemma mod_7_le: "n mod 7 \<le> 6" for n :: nat
  using mod_less_divisor [of 7 n] by linarith

text \<open>No valid datetime with a minute number in \<open>[a, b)\<close> matches.\<close>

definition no_run_in :: "cron_expression \<Rightarrow> nat \<Rightarrow> nat \<Rightarrow> bool" where
  "no_run_in c a b \<longleftrightarrow> (\<forall>e. valid_dt e \<longrightarrow> a \<le> minute_no e \<longrightarrow> minute_no e < b \<longrightarrow> \<not> cron_matches c e)"

lemma no_run_in_empty [simp]: "b \<le> a \<Longrightarrow> no_run_in c a b"
  by (simp add: no_run_in_def)

lemma no_run_in_cons:
  assumes "valid_dt d" and "\<not> cron_matches c d" and "no_run_in c (minute_no d + 1) b"
  shows "no_run_in c (minute_no d) b"
  unfolding no_run_in_def
proof (intro allI impI)
  fix e assume e: "valid_dt e" "minute_no d \<le> minute_no e" "minute_no e < b"
  show "\<not> cron_matches c e"
  proof (cases "minute_no e = minute_no d")
    case True
    then have "e = d" using minute_no_inj e(1) assms(1) by blast
    then show ?thesis using assms(2) by simp
  next
    case False
    then show ?thesis using e assms(3) by (simp add: no_run_in_def)
  qed
qed

lemma search_run_spec:
  "valid_dt d \<Longrightarrow>
   (case search_run c n d of
      Inr r \<Rightarrow> valid_dt r \<and> cron_matches c r \<and> minute_no d \<le> minute_no r \<and> minute_no r < minute_no d + n \<and>
               no_run_in c (minute_no d) (minute_no r)
    | Inl _ \<Rightarrow> no_run_in c (minute_no d) (minute_no d + n))"
proof (induction n arbitrary: d)
  case 0
  then show ?case by simp
next
  case (Suc n)
  show ?case
  proof (cases "cron_matches c d")
    case True
    then show ?thesis using Suc.prems by simp
  next
    case False
    show ?thesis
    proof (cases "add_minute d")
      case None
      then have "d = last_dt" using add_minute_spec [OF Suc.prems] by simp
      then have "no_run_in c (minute_no d + 1) (minute_no d + Suc n)"
        using minute_no_last by (force simp: no_run_in_def)
      then show ?thesis using False None no_run_in_cons [OF Suc.prems False] by simp
    next
      case (Some e)
      then have e: "valid_dt e" "minute_no e = minute_no d + 1" using add_minute_spec [OF Suc.prems] by simp_all
      then show ?thesis
        using Suc.IH [OF e(1)] False Some no_run_in_cons [OF Suc.prems False] by (auto split: sum.splits)
    qed
  qed
qed

lemma next_run_spec:
  assumes "valid_dt after"
  shows "case next_run c after of
      Inr r \<Rightarrow> valid_dt r \<and> cron_matches c r \<and> minute_no after < minute_no r \<and>
               minute_no r \<le> minute_no after + NEXT_RUN_LIMIT \<and>
               no_run_in c (minute_no after + 1) (minute_no r)
    | Inl _ \<Rightarrow> no_run_in c (minute_no after + 1) (minute_no after + 1 + NEXT_RUN_LIMIT)"
proof (cases "add_minute after")
  case None
  then have "after = last_dt" using add_minute_spec [OF assms] by simp
  then show ?thesis using None minute_no_last by (force simp: next_run_def no_run_in_def)
next
  case (Some d)
  then have "valid_dt d" "minute_no d = minute_no after + 1" using add_minute_spec [OF assms] by simp_all
  then show ?thesis using Some search_run_spec [of d c NEXT_RUN_LIMIT] by (auto simp: next_run_def split: sum.splits)
qed

text \<open>
  C34. \<open>next_run\<close> answers the first minute after the given one that matches, and never one more than
  366 days away; when it raises, no minute of these 366 days matches (\<open>datetime\<close> ends with the
  year 9999).\<close>

theorem next_run_exact:
  assumes "valid_dt after"
  shows "case next_run c after of
      Inr r \<Rightarrow> valid_dt r \<and> cron_matches c r \<and> minute_no after < minute_no r \<and>
               minute_no r \<le> minute_no after + 366 * 24 * 60 \<and>
               no_run_in c (minute_no after + 1) (minute_no r)
    | Inl _ \<Rightarrow> no_run_in c (minute_no after + 1) (minute_no after + 1 + 366 * 24 * 60)"
  using next_run_spec [OF assms, of c] by (simp add: NEXT_RUN_LIMIT_def split: sum.splits)

definition feb_28 :: datetime where
  "feb_28 = \<lparr>dt_year = 2023, dt_month = 2, dt_day = 28, dt_hour = 23, dt_minute = 59\<rparr>"

definition hourly_at_7 :: cron_expression where
  "hourly_at_7 = \<lparr>ce_minutes = {7}, ce_hours = {0..23}, ce_days = {1..31}, ce_months = {1..12},
     ce_weekdays = {0..6}, ce_raw = ''7 * * * *''\<rparr>"

lemma next_run_exact_witness:
  "next_run hourly_at_7 feb_28 =
     Inr \<lparr>dt_year = 2023, dt_month = 3, dt_day = 1, dt_hour = 0, dt_minute = 7\<rparr> \<and>
   no_run_in hourly_at_7 (minute_no feb_28 + 1)
     (minute_no \<lparr>dt_year = 2023, dt_month = 3, dt_day = 1, dt_hour = 0, dt_minute = 7\<rparr>)"
proof -
  have "valid_dt feb_28" by code_simp
  moreover have "next_run hourly_at_7 feb_28 =
      Inr \<lparr>dt_year = 2023, dt_month = 3, dt_day = 1, dt_hour = 0, dt_minute = 7\<rparr>"
    by (simp add: search_run_numeral mod_7_le next_run_def NEXT_RUN_LIMIT_def feb_28_def hourly_at_7_def add_minute_def days_in_month_def
        is_leap_def cron_matches_def)
  ultimately show ?thesis using next_run_exact [of feb_28 hourly_at_7] by simp
qed

section \<open>When a next run exists\<close>

text \<open>The same date and time one year later.\<close>

lemma next_year:
  assumes "valid_dt d" and "dt_day d \<le> 28" and "dt_year d < 9999"
  shows "valid_dt (d\<lparr>dt_year := dt_year d + 1\<rparr>)"
    and "minute_no (d\<lparr>dt_year := dt_year d + 1\<rparr>) \<le> minute_no d + 366 * 1440"
    and "minute_no d < minute_no (d\<lparr>dt_year := dt_year d + 1\<rparr>)"
proof -
  let ?e = "d\<lparr>dt_year := dt_year d + 1\<rparr>"
  show v: "valid_dt ?e"
    using assms days_in_month_bounds(1) [of "dt_year d + 1" "dt_month d"] by (simp add: valid_dt_def)
  show "minute_no d < minute_no ?e"
  proof -
    have "toordinal d < toordinal ?e" by (rule minute_no_year_less [OF assms(1) v]) simp
    then show ?thesis by (simp add: minute_no_def)
  qed
  have mono: "days_before_month (dt_year d + 1) m + year_days (dt_year d) \<le> days_before_month (dt_year d) m + 366"
    if m: "1 \<le> m" for m
    using m
  proof (induction m rule: dec_induct)
    case base
    then show ?case by (simp add: year_days_def)
  next
    case (step k)
    show ?case
    proof (cases "k = 2")
      case True
      then show ?thesis by (simp add: days_before_month_def days_in_month_def year_days_def upt_rec [of 1] numeral_eq_Suc)
    next
      case False
      then show ?thesis using step
        by (auto simp: days_before_month_Suc [simplified] days_in_month_def year_days_def)
    qed
  qed
  have "toordinal ?e \<le> toordinal d + 366"
    using mono [of "dt_month d"] assms(1)
    by (simp add: toordinal_def days_before_year_Suc valid_dt_def del: One_nat_def)
  then show "minute_no ?e \<le> minute_no d + 366 * 1440" by (simp add: minute_no_def)
qed

lemma next_run_succeeds:
  assumes "valid_dt after" and "dt_year after < 9999" and "{0..6} \<subseteq> ce_weekdays c"
    and "d \<in> ce_days c" "1 \<le> d" "d \<le> 28" and "m \<in> ce_months c" "1 \<le> m" "m \<le> 12"
    and "h \<in> ce_hours c" "h < 24" and "mi \<in> ce_minutes c" "mi < 60"
  shows "\<exists>r. next_run c after = Inr r"
proof (rule ccontr)
  assume no: "\<nexists>r. next_run c after = Inr r"
  then obtain x where "next_run c after = Inl x" by (cases "next_run c after") auto
  then have none: "no_run_in c (minute_no after + 1) (minute_no after + 1 + NEXT_RUN_LIMIT)"
    using next_run_spec [OF assms(1), of c] by simp
  define t where "t = \<lparr>dt_year = dt_year after, dt_month = m, dt_day = d, dt_hour = h, dt_minute = mi\<rparr>"
  have t: "valid_dt t" "dt_day t \<le> 28" "dt_year t = dt_year after"
    using assms days_in_month_bounds(1) [of "dt_year after" m] by (simp_all add: t_def valid_dt_def)
  have wd: "(py_weekday x + 1) mod 7 \<in> ce_weekdays c" for x
    using assms(3) mod_7_le [of "py_weekday x + 1"] by (auto simp del: add_Suc_right)
  show False
  proof (cases "minute_no after < minute_no t")
    case True
    have "toordinal t \<le> toordinal after + 365"
      using day_of_year_bounds [OF t(1)] day_of_year_bounds [OF assms(1)] t(3)
      by (auto simp: toordinal_split year_days_def split: if_splits)
    moreover have "dt_hour t * 60 + dt_minute t < 1440" using t(1) unfolding valid_dt_def by linarith
    ultimately have "minute_no t \<le> minute_no after + 366 * 1440" by (simp add: minute_no_def)
    moreover have "cron_matches c t" using wd [of t] assms by (simp add: cron_matches_def t_def)
    ultimately show False using none t(1) True by (simp add: no_run_in_def NEXT_RUN_LIMIT_def)
  next
    case False
    let ?e = "t\<lparr>dt_year := dt_year t + 1\<rparr>"
    note y = next_year [OF t(1,2)] 
    have e: "valid_dt ?e" "minute_no ?e \<le> minute_no t + 366 * 1440" using y t(3) assms(2) by simp_all
    have "toordinal after < toordinal ?e" by (rule minute_no_year_less [OF assms(1) e(1)]) (simp add: t(3))
    moreover have "dt_hour after * 60 + dt_minute after < 1440" using assms(1) unfolding valid_dt_def by linarith
    ultimately have "minute_no after < minute_no ?e" by (simp add: minute_no_def)
    moreover have "cron_matches c ?e" using wd [of ?e] assms by (simp add: cron_matches_def t_def)
    ultimately show False using none e False by (simp add: no_run_in_def NEXT_RUN_LIMIT_def)
  qed
qed

end
