(* ===== verification/Cron_Grammar.thy ===== *)
theory Cron_Grammar
  imports Cron_Correct
begin

text \<open>
  The grammar of the header of \<open>scheduler/cron.py\<close> as data: printing an expression of the grammar and
  parsing it gives every field its meaning. From it, the schedule that the interval of an
  \<open>@every\<close> shorthand really gets.
\<close>

section \<open>Numbers\<close>

lemma code_point_char_of: "n < 256 \<Longrightarrow> code_point (char_of n) = n"
  by (simp add: code_point_def)

lemma code_point_digit: "d < 10 \<Longrightarrow> code_point (digit_char d) = 48 + d"
  by (simp add: digit_char_def code_point_char_of)

lemma str_nat_decimal: "c \<in> set (str_nat n) \<Longrightarrow> is_decimal c"
proof (induction n arbitrary: c rule: str_nat.induct)
  case (1 n)
  show ?case
  proof (cases "n < 10")
    case True
    then show ?thesis using 1(2) by (subst (asm) str_nat.simps) (simp add: is_decimal_def code_point_digit Let_def)
  next
    case False
    then have "c \<in> set (str_nat (n div 10)) \<or> c = digit_char (n mod 10)"
      using 1(2) by (subst (asm) str_nat.simps) auto
    then show ?thesis using 1(1) False by (auto simp: is_decimal_def code_point_digit Let_def)
  qed
qed

lemma digits_value_snoc: "digits_value (s @ [c]) = digits_value s * 10 + (code_point c - 48)"
  by (simp add: digits_value_def)

lemma digits_value_str_nat: "digits_value (str_nat n) = n"
proof (induction n rule: str_nat.induct)
  case (1 n)
  show ?case
  proof (cases "n < 10")
    case True
    then show ?thesis by (subst str_nat.simps) (simp add: digits_value_def code_point_digit)
  next
    case False
    then show ?thesis using 1 by (subst str_nat.simps) (simp add: digits_value_snoc code_point_digit)
  qed
qed

text \<open>\<open>int\<close> accepts the decimal rendering: at most 4300 digits.\<close>

definition fits :: "nat \<Rightarrow> bool" where
  "fits n \<longleftrightarrow> length (str_nat n) \<le> 4300"

lemma fits_small: "n < 100 \<Longrightarrow> fits n"
proof -
  assume "n < 100"
  then have "n div 10 < 10" by simp
  then have "length (str_nat (n div 10)) = 1" by (subst str_nat.simps) simp
  then show "fits n" unfolding fits_def by (subst str_nat.simps) simp
qed

lemma digits_int_str_nat: "fits n \<Longrightarrow> digits_int (str_nat n) = Inr n"
  using str_nat_decimal by (auto simp: digits_int_def fits_def digits_value_str_nat list_all_iff)

lemma decimal_class:
  "is_decimal c \<Longrightarrow> \<not> is_space c \<and> lower_char c = c \<and> is_digit_char c \<and> c \<notin> {CHR ''*'', CHR '','', CHR ''/'', CHR ''-'', CHR ''@''}"
  by (auto simp: is_decimal_def is_space_def lower_char_def is_digit_char_def code_point_def Let_def)

section \<open>The grammar\<close>

datatype cron_item = Any | Every nat | Between nat nat "nat option" | Exactly nat

fun render_item :: "cron_item \<Rightarrow> string" where
  "render_item Any = ''*''"
| "render_item (Every n) = ''*/'' @ str_nat n"
| "render_item (Between a b None) = str_nat a @ ''-'' @ str_nat b"
| "render_item (Between a b (Some k)) = str_nat a @ ''-'' @ str_nat b @ ''/'' @ str_nat k"
| "render_item (Exactly v) = str_nat v"

fun item_ok :: "nat \<Rightarrow> nat \<Rightarrow> cron_item \<Rightarrow> bool" where
  "item_ok low high Any = True"
| "item_ok low high (Every n) = (0 < n \<and> fits n)"
| "item_ok low high (Between a b st) =
     (low \<le> a \<and> a \<le> b \<and> b \<le> high \<and> (case st of None \<Rightarrow> True | Some k \<Rightarrow> 0 < k \<and> fits k))"
| "item_ok low high (Exactly v) = (low \<le> v \<and> v \<le> high)"

fun item_set :: "nat \<Rightarrow> nat \<Rightarrow> cron_item \<Rightarrow> nat set" where
  "item_set low high Any = {low..high}"
| "item_set low high (Every n) = {v \<in> {low..high}. (v - low) mod n = 0}"
| "item_set low high (Between a b st) = {v \<in> {a..b}. (v - a) mod (case st of None \<Rightarrow> 1 | Some k \<Rightarrow> k) = 0}"
| "item_set low high (Exactly v) = {v}"

definition field_ok :: "nat \<Rightarrow> nat \<Rightarrow> cron_item list \<Rightarrow> bool" where
  "field_ok low high f \<longleftrightarrow> f \<noteq> [] \<and> (\<forall>i \<in> set f. item_ok low high i)"

definition field_set :: "nat \<Rightarrow> nat \<Rightarrow> cron_item list \<Rightarrow> nat set" where
  "field_set low high f = (\<Union>i \<in> set f. item_set low high i)"

definition render_field :: "cron_item list \<Rightarrow> string" where
  "render_field f = join_with '','' (map render_item f)"

definition render_cron :: "cron_item list list \<Rightarrow> string" where
  "render_cron fs = join_with '' '' (map render_field fs)"

section \<open>Items and fields\<close>

lemma takeWhile_decimals:
  "takeWhile is_decimal (str_nat n @ s) = str_nat n @ takeWhile is_decimal s"
  "dropWhile is_decimal (str_nat n @ s) = dropWhile is_decimal s"
  using str_nat_decimal by (simp_all add: takeWhile_append2 dropWhile_append2)

lemma takeWhile_all_decimals [simp]:
  "takeWhile is_decimal (str_nat n) = str_nat n" "dropWhile is_decimal (str_nat n) = []"
  using takeWhile_decimals [of n "[]"] by simp_all

lemma all_decimals [simp]: "list_all is_decimal (str_nat n)"
  using str_nat_decimal by (auto simp: list_all_iff)

lemma not_decimal [simp]: "\<not> is_decimal (CHR ''-'')" "\<not> is_decimal (CHR ''/'')" "\<not> is_decimal (CHR ''*'')"
  by (simp_all add: is_decimal_def code_point_def)

lemma str_nat_Cons: "\<exists>c s. str_nat n = c # s \<and> is_decimal c"
  using str_nat_decimal [of _ n] str_nat_not_Nil [of n] by (metis list.set_intros(1) neq_Nil_conv)

lemma step_match_number: "step_match (str_nat n @ s) = None"
  using str_nat_Cons [of n] by (auto simp: step_match_def starts_with_def Let_def)

lemma number_not_star: "str_nat n @ s \<noteq> ''*''"
  using str_nat_Cons [of n] by auto

lemma is_digit_str_number: "is_digit_str (str_nat n)"
  using str_nat_decimal decimal_class by (auto simp: is_digit_str_def list_all_iff)

lemma parse_part_item:
  assumes "item_ok low high i" and "high < 100"
  shows "parse_part low high name (render_item i) = Inr (item_set low high i)"
proof (cases i)
  case Any
  then show ?thesis by (auto simp: parse_part_def)
next
  case (Every n)
  then show ?thesis using assms
    by (auto simp: parse_part_def step_match_def starts_with_def Let_def digits_int_str_nat set_steps)
next
  case (Between a b st)
  have f: "fits a" "fits b" using assms Between fits_small by simp_all
  show ?thesis
  proof (cases st)
    case None
    have r: "range_match (render_item i) = Some (str_nat a, str_nat b, None)"
      by (simp add: Between None range_match_def takeWhile_decimals Let_def)
    show ?thesis unfolding parse_part_def r using assms Between None f
      by (simp add: step_match_number number_not_star digits_int_str_nat set_steps)
  next
    case (Some k)
    have r: "range_match (render_item i) = Some (str_nat a, str_nat b, Some (str_nat k))"
      by (simp add: Between Some range_match_def takeWhile_decimals Let_def)
    show ?thesis unfolding parse_part_def r using assms Between Some f
      by (simp add: step_match_number number_not_star digits_int_str_nat set_steps)
  qed
next
  case (Exactly v)
  have "range_match (str_nat v) = None" by (simp add: range_match_def Let_def)
  then show ?thesis using assms Exactly fits_small [of v] step_match_number [of v "[]"] number_not_star [of v "[]"]
    by (simp add: parse_part_def is_digit_str_number digits_int_str_nat)
qed

lemma split_on_step: "d \<notin> set x \<Longrightarrow> split_on d (x @ d # s) = x # split_on d s"
  by (induction x) auto

lemma split_on_join: "xs \<noteq> [] \<Longrightarrow> \<forall>x \<in> set xs. d \<notin> set x \<Longrightarrow> split_on d (join_with [d] xs) = xs"
  by (induction "[d]" xs rule: join_with.induct) (auto simp: split_on_step split_on_no_sep)

lemma strip_no_space: "\<forall>c \<in> set s. \<not> is_space c \<Longrightarrow> strip s = s"
proof -
  assume a: "\<forall>c \<in> set s. \<not> is_space c"
  have l: "lstrip t = t" if "\<forall>c \<in> set t. \<not> is_space c" for t
    using that by (cases t) (auto simp: lstrip_def)
  show ?thesis using l [of s] l [of "rev s"] a by (simp add: strip_def)
qed

lemma render_item_chars:
  "c \<in> set (render_item i) \<Longrightarrow> is_decimal c \<or> c \<in> {CHR ''*'', CHR ''/'', CHR ''-''}"
  by (cases i rule: render_item.cases) (auto dest: str_nat_decimal)

lemma render_item_class:
  "c \<in> set (render_item i) \<Longrightarrow> \<not> is_space c \<and> c \<noteq> CHR '','' \<and> lower_char c \<noteq> CHR ''@''"
  using render_item_chars [of c i] decimal_class [of c]
  by (auto simp: is_space_def lower_char_def code_point_def Let_def)

lemma render_item_not_Nil [simp]: "render_item i \<noteq> []"
  by (cases i rule: render_item.cases) auto

lemma join_with_chars: "c \<in> set (join_with sep xs) \<Longrightarrow> c \<in> set sep \<or> (\<exists>x \<in> set xs. c \<in> set x)"
  by (induction sep xs rule: join_with.induct) auto

lemma render_field_chars:
  "c \<in> set (render_field f) \<Longrightarrow> c = CHR '','' \<or> (\<exists>i \<in> set f. c \<in> set (render_item i))"
  using join_with_chars [of c "'',''" "map render_item f"] by (auto simp: render_field_def)

lemma render_field_class: "c \<in> set (render_field f) \<Longrightarrow> \<not> is_space c \<and> lower_char c \<noteq> CHR ''@''"
proof -
  have "\<not> is_space (CHR '','') \<and> lower_char (CHR '','') \<noteq> CHR ''@''"
    by (simp add: is_space_def lower_char_def code_point_def)
  then show "c \<in> set (render_field f) \<Longrightarrow> \<not> is_space c \<and> lower_char c \<noteq> CHR ''@''"
    using render_field_chars [of c f] render_item_class by blast
qed

lemma render_field_not_Nil: "f \<noteq> [] \<Longrightarrow> render_field f \<noteq> []"
  unfolding render_field_def by (cases f; cases "tl f") auto

lemma map_result_Inr: "\<forall>x \<in> set xs. g x = Inr (h x) \<Longrightarrow> map_result g xs = Inr (map h xs)"
  by (induction xs) auto

lemma parse_field_render:
  assumes "field_ok low high f" and "high < 100"
  shows "parse_field (render_field f) low high name = Inr (field_set low high f)"
proof -
  have w: "split_on (CHR '','') (render_field f) = map render_item f"
    unfolding render_field_def
    by (rule split_on_join) (use assms(1) render_item_class in \<open>auto simp: field_ok_def\<close>)
  have m: "map_result (\<lambda>p. parse_part low high name (strip p)) (map render_item f) =
      Inr (map (item_set low high) f)"
  proof -
    have "parse_part low high name (strip (render_item i)) = Inr (item_set low high i)" if "i \<in> set f" for i
      using strip_no_space [of "render_item i"] render_item_class parse_part_item [OF _ assms(2)] assms(1) that
      by (auto simp: field_ok_def)
    then have "map_result ((\<lambda>p. parse_part low high name (strip p)) \<circ> render_item) f = Inr (map (item_set low high) f)"
      by (intro map_result_Inr) auto
    moreover have "map_result g (map render_item f) = map_result (g \<circ> render_item) f"
      for g :: "string \<Rightarrow> cron_error + nat set"
      by (induction f) auto
    ultimately show ?thesis by simp
  qed
  show ?thesis by (simp add: parse_field_def w m field_set_def)
qed

section \<open>Expressions\<close>

lemma split_words_step:
  "w \<noteq> [] \<Longrightarrow> \<forall>c \<in> set w. \<not> is_space c \<Longrightarrow> is_space d \<Longrightarrow> split_words (w @ d # s) = w # split_words s"
proof (induction w)
  case (Cons c w)
  then show ?case by (cases w) auto
qed simp

lemma split_words_last: "w \<noteq> [] \<Longrightarrow> \<forall>c \<in> set w. \<not> is_space c \<Longrightarrow> split_words w = [w]"
proof (induction w)
  case (Cons c w)
  then show ?case by (cases w) auto
qed simp

lemma split_words_join:
  "\<forall>w \<in> set ws. w \<noteq> [] \<and> (\<forall>c \<in> set w. \<not> is_space c) \<Longrightarrow> split_words (join_with '' '' ws) = ws"
proof (induction "'' ''" ws rule: join_with.induct)
  case (3 x y ws)
  have "is_space (CHR '' '')" by (simp add: is_space_def code_point_def)
  then show ?case using 3 by (simp add: split_words_step)
qed (auto simp: split_words_last)

lemma expand_plain:
  assumes "s = c # t" and "lower_char c \<noteq> CHR ''@''"
  shows "expand_shorthand s = Inr s"
  using assms by (auto simp: expand_shorthand_def SHORTHANDS_def lower_def starts_with_def Let_def)

lemma strip_ends: "s \<noteq> [] \<Longrightarrow> \<not> is_space (hd s) \<Longrightarrow> \<not> is_space (last s) \<Longrightarrow> strip s = s"
proof -
  assume s: "s \<noteq> []" "\<not> is_space (hd s)" "\<not> is_space (last s)"
  have l: "lstrip t = t" if "t \<noteq> []" "\<not> is_space (hd t)" for t
    using that by (cases t) (auto simp: lstrip_def)
  show ?thesis using l [of s] l [of "rev s"] s by (simp add: strip_def hd_rev)
qed

lemma render_cron_ends:
  assumes "fs \<noteq> []" and "\<forall>f \<in> set fs. f \<noteq> []"
  shows "render_cron fs \<noteq> [] \<and> hd (render_cron fs) \<in> set (render_field (hd fs)) \<and>
    last (render_cron fs) \<in> set (render_field (last fs))"
  using assms unfolding render_cron_def
proof (induction "'' ''" "map render_field fs" arbitrary: fs rule: join_with.induct)
  case (2 x)
  then show ?case using render_field_not_Nil by (auto simp: Cons_eq_map_conv)
next
  case (3 x y xs)
  then obtain f gs where fs: "fs = f # gs" "x = render_field f" "y # xs = map render_field gs"
    by (metis Cons_eq_map_D)
  have ne: "gs \<noteq> []" using fs by auto
  have x: "x \<noteq> []" using 3 fs render_field_not_Nil by auto
  have ih: "join_with '' '' (map render_field gs) \<noteq> [] \<and>
      last (join_with '' '' (map render_field gs)) \<in> set (render_field (last gs))"
    using 3(1) [OF fs(3) ne] 3(4) fs by simp
  have j: "join_with '' '' (map render_field fs) = x @ '' '' @ join_with '' '' (map render_field gs)"
    using fs(1,2) fs(3) [symmetric] by simp
  show ?case unfolding j using x ih fs ne by simp
qed simp

lemma parse_cron_expanded:
  assumes "field_ok 0 59 mi" and "field_ok 0 23 ho" and "field_ok 1 31 da" and "field_ok 1 12 mo"
    and "field_ok 0 6 wd" and "expand_shorthand (strip s) = Inr (render_cron [mi, ho, da, mo, wd])"
  shows "parse_cron s =
    Inr \<lparr>ce_minutes = field_set 0 59 mi, ce_hours = field_set 0 23 ho, ce_days = field_set 1 31 da,
         ce_months = field_set 1 12 mo, ce_weekdays = field_set 0 6 wd,
         ce_raw = render_cron [mi, ho, da, mo, wd]\<rparr>"
proof -
  let ?fs = "[mi, ho, da, mo, wd]"
  have ne: "\<forall>f \<in> set ?fs. f \<noteq> []" using assms by (auto simp: field_ok_def)
  have w: "split_words (render_cron ?fs) = map render_field ?fs"
    unfolding render_cron_def
    by (rule split_words_join) (use ne render_field_not_Nil render_field_class in auto)
  show ?thesis
    using assms by (simp add: parse_cron_def w parse_field_render)
qed

text \<open>
  C33. The grammar the module documents (any value, every \<open>n\<close>, a range with or without a step, a
  value, and lists of these) round-trips: an expression printed from it, with every item within its
  field's bounds, parses to exactly the sets it denotes.\<close>

theorem cron_roundtrip:
  assumes "field_ok 0 59 mi" and "field_ok 0 23 ho" and "field_ok 1 31 da" and "field_ok 1 12 mo"
    and "field_ok 0 6 wd"
  shows "parse_cron (render_cron [mi, ho, da, mo, wd]) =
    Inr \<lparr>ce_minutes = field_set 0 59 mi, ce_hours = field_set 0 23 ho, ce_days = field_set 1 31 da,
         ce_months = field_set 1 12 mo, ce_weekdays = field_set 0 6 wd,
         ce_raw = render_cron [mi, ho, da, mo, wd]\<rparr>"
proof -
  let ?s = "render_cron [mi, ho, da, mo, wd]"
  have ne: "\<forall>f \<in> set [mi, ho, da, mo, wd]. f \<noteq> []" using assms by (auto simp: field_ok_def)
  note ends = render_cron_ends [of "[mi, ho, da, mo, wd]", OF _ ne]
  have st: "strip ?s = ?s" using ends render_field_class by (intro strip_ends) auto
  have "hd ?s \<in> set (render_field mi)" "?s \<noteq> []" using ends by auto
  then have "expand_shorthand (strip ?s) = Inr ?s"
    unfolding st using expand_plain [of ?s "hd ?s" "tl ?s"] render_field_class by simp
  then show ?thesis by (rule parse_cron_expanded [OF assms])
qed

lemma cron_roundtrip_witness:
  "render_cron [[Exactly 30], [Exactly 8], [Exactly 1, Exactly 15], [Any], [Between 1 5 (Some 2)]] =
     ''30 8 1,15 * 1-5/2'' \<and>
   (\<exists>c. parse_cron (render_cron [[Exactly 30], [Exactly 8], [Exactly 1, Exactly 15], [Any], [Between 1 5 (Some 2)]]) = Inr c \<and>
        ce_days c = {1, 15} \<and> ce_months c = {1..12})"
proof -
  have "field_ok 0 59 [Exactly 30]" "field_ok 0 23 [Exactly 8]" "field_ok 1 31 [Exactly 1, Exactly 15]"
    "field_ok 1 12 [Any]" "field_ok 0 6 [Between 1 5 (Some 2)]" by code_simp+
  from cron_roundtrip [OF this] have "\<exists>c. parse_cron (render_cron [[Exactly 30], [Exactly 8], [Exactly 1, Exactly 15],
      [Any], [Between 1 5 (Some 2)]]) = Inr c \<and> ce_days c = {1, 15} \<and> ce_months c = {1..12}"
    by (auto simp: field_set_def)
  moreover have "render_cron [[Exactly 30], [Exactly 8], [Exactly 1, Exactly 15], [Any], [Between 1 5 (Some 2)]] =
     ''30 8 1,15 * 1-5/2''" by code_simp
  ultimately show ?thesis by blast
qed

section \<open>Intervals\<close>

lemma duration_digits:
  "\<forall>c \<in> set ds. is_digit_char c \<Longrightarrow> duration_loop tot cur (ds @ cs) = duration_loop tot (cur @ ds) cs"
  by (induction ds arbitrary: cur) (auto simp: Let_def)

lemma not_digit_m: "\<not> is_digit_char (CHR ''m'')"
  by (simp add: is_digit_char_def is_decimal_def code_point_def)

lemma parse_duration_minutes: "fits n \<Longrightarrow> parse_duration (str_nat n @ ''m'') = Inr n"
  using str_nat_decimal decimal_class
  by (auto simp: parse_duration_def duration_digits not_digit_m digits_int_str_nat Let_def)

lemma remove_all_none: "p \<noteq> [] \<Longrightarrow> hd p \<notin> set s \<Longrightarrow> remove_all p s = s"
proof (induction s)
  case Nil
  then show ?case by (simp add: remove_all.simps [of p "[]"])
next
  case (Cons c s)
  then have "\<not> starts_with (c # s) p" by (cases p) (auto simp: starts_with_def)
  then show ?case using Cons by (simp add: remove_all.simps [of p "c # s"])
qed

lemma lower_number: "lower (str_nat n) = str_nat n"
  unfolding lower_def by (rule map_idI) (use str_nat_decimal decimal_class in blast)

lemma expand_every:
  assumes "0 < n" and "fits n"
  shows "expand_shorthand (strip (''@every '' @ str_nat n @ ''m'')) = Inr (every_expr n)"
proof -
  let ?s = "''@every '' @ str_nat n @ ''m''"
  have sp: "\<not> is_space (CHR ''@'')" "\<not> is_space (CHR ''m'')" by (simp_all add: is_space_def code_point_def)
  have st: "strip ?s = ?s" by (rule strip_ends) (simp_all add: sp)
  have low: "lower ?s = ?s" using lower_number [of n] by (simp add: lower_def lower_char_def code_point_def)
  have nospace: "strip (str_nat n @ ''m'') = str_nat n @ ''m''"
    using sp str_nat_decimal decimal_class by (intro strip_no_space) auto
  have "CHR ''@'' \<notin> set (str_nat n @ ''m'')" using str_nat_decimal decimal_class by auto
  then have "remove_all ''@every '' (str_nat n @ ''m'') = str_nat n @ ''m''" by (intro remove_all_none) simp_all
  then have rm: "remove_all ''@every '' ?s = str_nat n @ ''m''"
    by (subst remove_all.simps) (simp add: starts_with_def)
  have sh: "map_of SHORTHANDS ?s = None" by (simp add: SHORTHANDS_def)
  have sw: "starts_with ?s ''@every ''" by (simp add: starts_with_def)
  show ?thesis
    unfolding expand_shorthand_def st low Let_def sh rm nospace
    using sw assms parse_duration_minutes by simp
qed

end
