(* ===== verification/Cron_Intervals.thy ===== *)
theory Cron_Intervals
  imports Cron_Grammar
begin

text \<open>
  What \<open>@every\<close> does: which minutes a schedule of \<open>n\<close> minutes matches, and for which \<open>n\<close> its successive
  runs really are \<open>n\<close> minutes apart.
\<close>

lemma str_nat_length_mono: "m \<le> n \<Longrightarrow> length (str_nat m) \<le> length (str_nat n)"
proof (induction n arbitrary: m rule: str_nat.induct)
  case (1 n)
  show ?case
  proof (cases "m < 10")
    case True
    then show ?thesis using str_nat_not_Nil [of n] by (subst str_nat.simps) (simp add: Suc_le_eq)
  next
    case False
    then have "\<not> n < 10" using 1(2) by simp
    then have "length (str_nat (m div 10)) \<le> length (str_nat (n div 10))"
      using 1(1) div_le_mono [OF 1(2), of 10] by blast
    then show ?thesis using False \<open>\<not> n < 10\<close> by (subst (1 2) str_nat.simps) simp
  qed
qed

lemma fits_le: "fits n \<Longrightarrow> m \<le> n \<Longrightarrow> fits m"
  using str_nat_length_mono [of m n] by (simp add: fits_def)

definition every_fields :: "nat \<Rightarrow> cron_item list list" where
  "every_fields n =
     (if 60 \<le> n \<and> n mod 60 = 0 then
        if 24 \<le> n div 60 \<and> n div 60 mod 24 = 0 then [[Exactly 0], [Exactly 0], [Any], [Any], [Any]]
        else [[Exactly 0], [Every (n div 60)], [Any], [Any], [Any]]
      else [[Every n], [Any], [Any], [Any], [Any]])"

lemma every_expr_render: "every_expr n = render_cron (every_fields n)"
proof -
  have z: "str_nat 0 = ''0''" by code_simp
  show ?thesis by (simp add: every_expr_def every_fields_def render_cron_def render_field_def z Let_def)
qed

text \<open>The matching minutes of an interval of \<open>n\<close> minutes.\<close>

definition every_match :: "nat \<Rightarrow> datetime \<Rightarrow> bool" where
  "every_match n d \<longleftrightarrow>
     (if 60 \<le> n \<and> n mod 60 = 0 then
        if 24 \<le> n div 60 \<and> n div 60 mod 24 = 0 then dt_hour d = 0 \<and> dt_minute d = 0
        else dt_minute d = 0 \<and> dt_hour d mod (n div 60) = 0
      else dt_minute d mod n = 0)"

lemma valid_dt_ranges:
  "valid_dt d \<Longrightarrow> dt_minute d \<le> 59 \<and> dt_hour d \<le> 23 \<and> dt_day d \<in> {1..31} \<and> dt_month d \<in> {1..12} \<and>
     (py_weekday d + 1) mod 7 \<in> {0..6}"
  using days_in_month_bounds(2) [of "dt_year d" "dt_month d"] mod_7_le [of "py_weekday d + 1"]
  by (auto simp: valid_dt_def)

lemma parse_every:
  assumes "0 < n" and "fits n"
  shows "\<exists>c. parse_cron (''@every '' @ str_nat n @ ''m'') = Inr c \<and> ce_weekdays c = {0..6} \<and>
    ce_days c = {1..31} \<and> 0 \<in> ce_hours c \<and> 0 \<in> ce_minutes c \<and> 1 \<in> ce_months c \<and>
    (\<forall>d. valid_dt d \<longrightarrow> (cron_matches c d \<longleftrightarrow> every_match n d))"
proof -
  have e: "expand_shorthand (strip (''@every '' @ str_nat n @ ''m'')) = Inr (render_cron (every_fields n))"
    using expand_every [OF assms] every_expr_render by simp
  have any: "field_ok low high [Any]" "field_set low high [Any] = {low..high}" for low high
    by (simp_all add: field_ok_def field_set_def)
  have zero: "field_ok 0 high [Exactly 0]" "field_set 0 high [Exactly 0] = {0}" for high
    by (simp_all add: field_ok_def field_set_def)
  have every: "field_ok 0 high [Every k]" "field_set 0 high [Every k] = {v. v \<le> high \<and> v mod k = 0}"
    if "0 < k" "k \<le> n" for k high
    using that fits_le [OF assms(2) that(2)] by (auto simp: field_ok_def field_set_def)
  have h: "0 < n div 60" if "60 \<le> n" using that by (simp add: div_greater_zero_iff)
  consider "60 \<le> n \<and> n mod 60 = 0" "24 \<le> n div 60 \<and> n div 60 mod 24 = 0"
    | "60 \<le> n \<and> n mod 60 = 0" "\<not> (24 \<le> n div 60 \<and> n div 60 mod 24 = 0)"
    | "\<not> (60 \<le> n \<and> n mod 60 = 0)" by blast
  then show ?thesis
  proof cases
    case 1
    then have "every_fields n = [[Exactly 0], [Exactly 0], [Any], [Any], [Any]]" by (simp add: every_fields_def)
    note p = parse_cron_expanded [OF zero(1) zero(1) any(1) any(1) any(1) e [unfolded this]]
    show ?thesis using 1 valid_dt_ranges unfolding p
      by (auto simp: any zero every_match_def cron_matches_def)
  next
    case 2
    then have f: "every_fields n = [[Exactly 0], [Every (n div 60)], [Any], [Any], [Any]]" by (simp add: every_fields_def)
    have k: "0 < n div 60" "n div 60 \<le> n" using h 2 by simp_all
    note p = parse_cron_expanded [OF zero(1) every(1) [OF k] any(1) any(1) any(1) e [unfolded f]]
    show ?thesis using 2 valid_dt_ranges unfolding p
      by (auto simp: any zero every [OF k] every_match_def cron_matches_def)
  next
    case 3
    then have "every_fields n = [[Every n], [Any], [Any], [Any], [Any]]" by (auto simp: every_fields_def)
    note p = parse_cron_expanded [OF every(1) [OF assms(1) order_refl] any(1) any(1) any(1) any(1) e [unfolded this]]
    show ?thesis using 3 valid_dt_ranges unfolding p
      by (auto simp: any every [OF assms(1)] every_match_def cron_matches_def)
  qed
qed

section \<open>Gaps\<close>

lemma later_minute:
  "valid_dt d \<Longrightarrow> minute_no d + k \<le> minute_no last_dt \<Longrightarrow> \<exists>e. valid_dt e \<and> minute_no e = minute_no d + k"
proof (induction k)
  case (Suc k)
  then obtain e where e: "valid_dt e" "minute_no e = minute_no d + k" by auto
  show ?case
  proof (cases "add_minute e")
    case None
    then show ?thesis using add_minute_spec [OF e(1)] Suc.prems(2) e(2) by simp
  next
    case (Some x)
    then show ?thesis using add_minute_spec [OF e(1)] e(2) by auto
  qed
qed auto

text \<open>Within the intervals that divide a day evenly, the matching minutes are the multiples of \<open>n\<close>.\<close>

definition even_interval :: "nat \<Rightarrow> bool" where
  "even_interval n \<longleftrightarrow> n dvd 1440 \<and> (n dvd 60 \<or> 60 dvd n)"

lemma minute_no_mod:
  assumes "n dvd 1440"
  shows "minute_no d mod n = (dt_hour d * 60 + dt_minute d) mod n"
proof -
  obtain k where "1440 = n * k" using assms by blast
  then have "minute_no d = (dt_hour d * 60 + dt_minute d) + toordinal d * k * n"
    by (simp add: minute_no_def algebra_simps)
  then show ?thesis by simp
qed

lemma hours_mod:
  fixes h k m :: nat
  assumes "m < 60" and "0 < k"
  shows "(h * 60 + m) mod (60 * k) = 0 \<longleftrightarrow> m = 0 \<and> h mod k = 0"
proof
  assume a: "(h * 60 + m) mod (60 * k) = 0"
  then have "60 dvd h * 60 + m" by (meson dvd_mult_left mod_eq_0_iff_dvd)
  then have m: "m = 0" using assms(1) by (auto simp: dvd_add_right_iff dest: dvd_imp_le)
  then show "m = 0 \<and> h mod k = 0" using a by (simp add: mult.commute [of h] mod_eq_0_iff_dvd)
qed (auto simp: mult.commute [of h] mod_eq_0_iff_dvd)

lemma even_interval_match:
  assumes "even_interval n" and "0 < n" and "valid_dt d"
  shows "every_match n d \<longleftrightarrow> minute_no d mod n = 0"
proof (cases "60 \<le> n \<and> n mod 60 = 0")
  case True
  define k where "k = n div 60"
  have n: "n = 60 * k" "0 < k" using True by (auto simp: k_def)
  have k: "k dvd 24" using assms(1) n dvd_mult_cancel1 [of 60 24] by (auto simp: even_interval_def dvd_def mult.commute)
  have "k \<le> 24" using k by (simp add: dvd_imp_le)
  have m: "dt_minute d < 60" "dt_hour d < 24" using assms(3) by (simp_all add: valid_dt_def)
  have "24 \<le> k \<and> k mod 24 = 0 \<longleftrightarrow> k = 24" using \<open>k \<le> 24\<close> by auto
  then show ?thesis
    using minute_no_mod [of n d] assms(1) hours_mod [OF m(1) n(2), of "dt_hour d"] True n m(2)
    by (auto simp: every_match_def even_interval_def)
next
  case False
  then have "n dvd 60" using assms by (auto simp: even_interval_def dvd_imp_le)
  then obtain k where k: "60 = n * k" by blast
  have "dt_hour d * 60 + dt_minute d = dt_minute d + (dt_hour d * k) * n" using k by (simp add: algebra_simps)
  then have "(dt_hour d * 60 + dt_minute d) mod n = dt_minute d mod n" by (simp only: mod_mult_self1)
  then show ?thesis using False minute_no_mod [of n d] assms(1) by (auto simp: every_match_def even_interval_def)
qed

text \<open>Every run is followed by the next one exactly \<open>n\<close> minutes later.\<close>

definition keeps_interval :: "cron_expression \<Rightarrow> nat \<Rightarrow> bool" where
  "keeps_interval c n \<longleftrightarrow>
     (\<forall>d. valid_dt d \<longrightarrow> dt_year d < 9999 \<longrightarrow> cron_matches c d \<longrightarrow>
        (\<exists>r. next_run c d = Inr r \<and> minute_no r = minute_no d + n))"

lemma even_interval_kept:
  assumes "even_interval n" and "0 < n" and m: "\<forall>d. valid_dt d \<longrightarrow> (cron_matches c d \<longleftrightarrow> every_match n d)"
    and returns: "\<And>d. valid_dt d \<Longrightarrow> dt_year d < 9999 \<Longrightarrow> \<exists>r. next_run c d = Inr r"
  shows "keeps_interval c n"
  unfolding keeps_interval_def
proof (intro allI impI)
  fix d assume d: "valid_dt d" "dt_year d < 9999" "cron_matches c d"
  obtain r where r: "next_run c d = Inr r" using returns d by blast
  note s = next_run_spec [OF d(1), of c, unfolded r, simplified]
  have z: "minute_no d mod n = 0" "minute_no r mod n = 0"
    using m d(1,3) s even_interval_match [OF assms(1,2)] by auto
  obtain k where k: "minute_no r = minute_no d + n * k"
    using z s by (metis add_diff_inverse_nat dvd_diff_nat dvdE mod_eq_0_iff_dvd not_less_iff_gr_or_eq)
  have "0 < k" using k s by (cases k) auto
  then have le: "minute_no d + n \<le> minute_no r" using k by (cases k) auto
  obtain e where e: "valid_dt e" "minute_no e = minute_no d + n"
    using later_minute [OF d(1), of n] le minute_no_last [of r] s by auto
  have "every_match n e" using even_interval_match [OF assms(1,2) e(1)] e(2) z(1) by simp
  then have "cron_matches c e" using m e(1) by blast
  then have "\<not> minute_no e < minute_no r" using s e assms(2) by (auto simp: no_run_in_def)
  then show "\<exists>r. next_run c d = Inr r \<and> minute_no r = minute_no d + n" using r e(2) le by auto
qed

text \<open>A schedule with two runs closer than \<open>n\<close> minutes does not keep the interval.\<close>

lemma closer_runs:
  assumes "\<forall>d. valid_dt d \<longrightarrow> (cron_matches c d \<longleftrightarrow> every_match n d)"
    and "valid_dt d" "dt_year d < 9999" "every_match n d" and "valid_dt e" "every_match n e"
    and "minute_no d < minute_no e" "minute_no e < minute_no d + n"
  shows "\<not> keeps_interval c n"
proof
  assume "keeps_interval c n"
  then obtain r where r: "next_run c d = Inr r" "minute_no r = minute_no d + n"
    using assms by (auto simp: keeps_interval_def)
  have "no_run_in c (minute_no d + 1) (minute_no r)"
    using next_run_spec [OF assms(2), of c] r(1) by simp
  then show False using assms r(2) by (auto simp: no_run_in_def)
qed

definition new_year :: "nat \<Rightarrow> nat \<Rightarrow> nat \<Rightarrow> datetime" where
  "new_year day h m = \<lparr>dt_year = 2024, dt_month = 1, dt_day = day, dt_hour = h, dt_minute = m\<rparr>"

lemma new_year_facts:
  "h < 24 \<Longrightarrow> m < 60 \<Longrightarrow> 1 \<le> day \<Longrightarrow> day \<le> 28 \<Longrightarrow> valid_dt (new_year day h m)"
  "dt_year (new_year day h m) = 2024" "dt_hour (new_year day h m) = h" "dt_minute (new_year day h m) = m"
  "minute_no (new_year day h m) = (days_before_year 2024 + day) * 1440 + h * 60 + m"
  by (simp_all add: new_year_def valid_dt_def days_in_month_def minute_no_def toordinal_def)

text \<open>The last multiple of \<open>n\<close> below \<open>b\<close>.\<close>

lemma last_multiple:
  fixes n b :: nat
  assumes "0 < n" and "n < b" and "\<not> n dvd b"
  shows "(b div n) * n < b" and "b < (b div n) * n + n"
proof -
  have e: "b = (b div n) * n + b mod n" by simp
  have "0 < b mod n" using assms(3) by (simp add: dvd_eq_mod_eq_0)
  then show "(b div n) * n < b" using e by linarith
  show "b < (b div n) * n + n" using e mod_less_divisor [OF assms(1), of b] by linarith
qed

lemma uneven_interval_broken:
  assumes "0 < n" and "\<not> even_interval n" and m: "\<forall>d. valid_dt d \<longrightarrow> (cron_matches c d \<longleftrightarrow> every_match n d)"
  shows "\<not> keeps_interval c n"
proof -
  note broken = closer_runs [OF m]
  consider (short) "n < 60" "\<not> n dvd 60" | (odd) "60 < n" "n mod 60 \<noteq> 0"
    | (hours) k where "n = 60 * k" "0 < k" "k < 24" "\<not> k dvd 24" | (days) k where "n = 60 * k" "24 < k"
  proof (cases "n mod 60 = 0")
    case True
    then obtain k where k: "n = 60 * k" by auto
    have "\<not> k dvd 24"
    proof
      assume "k dvd 24"
      then have "60 * k dvd 60 * 24" by (rule mult_dvd_mono [OF dvd_refl])
      then show False using assms(2) k by (simp add: even_interval_def)
    qed
    then have "k \<noteq> 24" by auto
    then show ?thesis using that(3,4) k \<open>\<not> k dvd 24\<close> assms(1) by (cases "k < 24") auto
  next
    case False
    have "\<not> n dvd 60" using assms(2) dvd_trans [of n 60 1440] by (auto simp: even_interval_def)
    then show ?thesis using that(1,2) False by (cases "n < 60") (auto simp: not_less le_less)
  qed
  then show ?thesis
  proof cases
    case short
    define q where "q = (60 div n) * n"
    have q: "q < 60" "60 < q + n" using last_multiple [OF assms(1) short] by (simp_all add: q_def)
    show ?thesis
      by (rule broken [of "new_year 1 0 q" "new_year 1 1 0"])
        (use q short in \<open>simp_all add: new_year_facts every_match_def q_def\<close>)
  next
    case odd
    show ?thesis
      by (rule broken [of "new_year 1 0 0" "new_year 1 1 0"])
        (use odd in \<open>simp_all add: new_year_facts every_match_def\<close>)
  next
    case (hours k)
    define q where "q = (24 div k) * k"
    have q: "q < 24" "24 < q + k" using last_multiple [OF hours(2,3,4)] by (simp_all add: q_def)
    have e: "every_match n (new_year 1 q 0)" "every_match n (new_year 2 0 0)"
      using hours by (simp_all add: new_year_facts every_match_def q_def)
    show ?thesis
      by (rule broken [OF _ _ e(1) _ e(2)]) (use q hours in \<open>simp_all add: new_year_facts\<close>)
  next
    case (days k)
    show ?thesis
      by (rule broken [of "new_year 1 0 0" "new_year 2 0 0"])
        (use days in \<open>simp_all add: new_year_facts every_match_def\<close>)
  qed
qed



end
