(* ===== verification/Cron_Scheduler.thy ===== *)
theory Cron_Scheduler
  imports Cron_Calendar PyDict Machine Task_Queue
begin

text \<open>
  \<open>scheduler/manager.py\<close>: the threaded scheduler. Claiming, releasing, adding, removing, enabling and
  disabling each hold the lock, so they are single steps; a run is a claim and, later, a finish, with
  other steps between. A task is a Python object: the one a run holds and the one the dict holds are the
  same until the id is removed or added again, which \<open>sk_object\<close>, the object's identity, records.
  The clock is read at the minute; \<open>last_run\<close> is empty, unparsable or a time. Saving the file after a
  change has no effect on the state and is not modelled; \<open>classify\<close> is as in \<open>Task_Queue\<close>.
\<close>

section \<open>State\<close>

datatype stamp = NoStamp | BadStamp | At datetime

record scheduled_task =
  sk_object :: nat
  sk_id :: string
  sk_cron :: string
  sk_prompt :: string
  sk_enabled :: bool
  sk_created :: string
  sk_last_run :: stamp
  sk_run_count :: nat
  sk_last_status :: string
  sk_last_result :: string

record task_scheduler =
  sc_tasks :: "(string, scheduled_task) pydict"
  sc_cache :: "(string, cron_expression) pydict"
  sc_running :: "string list"
  sc_callback :: bool
  sc_next_object :: nat

section \<open>The task table\<close>

definition sched_add ::
  "string \<Rightarrow> string \<Rightarrow> string \<Rightarrow> string \<Rightarrow> task_scheduler \<Rightarrow> (cron_error + scheduled_task) \<times> task_scheduler" where
  "sched_add now expr prompt task_id s =
     (case parse_cron expr of
        Inl e \<Rightarrow> (Inl e, s)
      | Inr c \<Rightarrow>
          let t = \<lparr>sk_object = sc_next_object s, sk_id = task_id, sk_cron = expr, sk_prompt = prompt,
                   sk_enabled = True, sk_created = now, sk_last_run = NoStamp, sk_run_count = 0, sk_last_status = [],
                   sk_last_result = []\<rparr> in
          (Inr t, s\<lparr>sc_tasks := dict_set task_id t (sc_tasks s), sc_cache := dict_set task_id c (sc_cache s),
                    sc_next_object := sc_next_object s + 1\<rparr>))"

definition sched_remove :: "string \<Rightarrow> task_scheduler \<Rightarrow> bool \<times> task_scheduler" where
  "sched_remove task_id s =
     (if \<not> dict_has (sc_tasks s) task_id then (False, s)
      else (True, s\<lparr>sc_tasks := dict_del task_id (sc_tasks s), sc_cache := dict_del task_id (sc_cache s)\<rparr>))"

definition set_enabled :: "bool \<Rightarrow> string \<Rightarrow> task_scheduler \<Rightarrow> bool \<times> task_scheduler" where
  "set_enabled b task_id s =
     (case dict_get (sc_tasks s) task_id of
        None \<Rightarrow> (False, s)
      | Some t \<Rightarrow> (True, s\<lparr>sc_tasks := dict_set task_id (t\<lparr>sk_enabled := b\<rparr>) (sc_tasks s)\<rparr>))"

text \<open>\<open>_load\<close> on the decoded items of the file.\<close>

fun sched_load :: "scheduled_task list \<Rightarrow> task_scheduler \<Rightarrow> task_scheduler" where
  "sched_load [] s = s"
| "sched_load (t # ts) s =
     sched_load ts
       (s\<lparr>sc_tasks := dict_set (sk_id t) (t\<lparr>sk_object := sc_next_object s\<rparr>) (sc_tasks s),
          sc_cache := (case parse_cron (sk_cron t) of
             Inl _ \<Rightarrow> sc_cache s | Inr c \<Rightarrow> dict_set (sk_id t) c (sc_cache s)),
          sc_next_object := sc_next_object s + 1\<rparr>)"

section \<open>Claims and runs\<close>

definition sched_claim ::
  "string \<Rightarrow> datetime option \<Rightarrow> task_scheduler \<Rightarrow> scheduled_task option \<times> task_scheduler" where
  "sched_claim task_id slot s =
     (case dict_get (sc_tasks s) task_id of
        None \<Rightarrow> (None, s)
      | Some t \<Rightarrow>
          if task_id \<in> set (sc_running s) then (None, s)
          else if (\<exists>d \<in> set_option slot. sk_last_run t = At d) then (None, s)
          else (Some t, s\<lparr>sc_running := task_id # sc_running s\<rparr>))"

definition sched_release :: "string \<Rightarrow> task_scheduler \<Rightarrow> task_scheduler" where
  "sched_release task_id s = s\<lparr>sc_running := removeAll task_id (sc_running s)\<rparr>"

text \<open>A change of one task object, wherever the dict holds it.\<close>

definition update_object ::
  "nat \<Rightarrow> (scheduled_task \<Rightarrow> scheduled_task) \<Rightarrow> task_scheduler \<Rightarrow> task_scheduler" where
  "update_object ob g s =
     s\<lparr>sc_tasks := map (\<lambda>(k, t). (k, if sk_object t = ob then g t else t)) (sc_tasks s)\<rparr>"

text \<open>The three ways a run is recorded. The synchronous executor has no branch for a cancellation.\<close>

definition record_run :: "datetime \<Rightarrow> string \<Rightarrow> string \<Rightarrow> scheduled_task \<Rightarrow> scheduled_task" where
  "record_run now status res t =
     t\<lparr>sk_last_run := At now, sk_run_count := sk_run_count t + 1, sk_last_status := status,
       sk_last_result := res\<rparr>"

definition execute_finish ::
  "(string \<Rightarrow> result_class) \<Rightarrow> bool \<Rightarrow> datetime \<Rightarrow> runner_result \<Rightarrow> scheduled_task \<Rightarrow> task_scheduler \<Rightarrow>
   task_scheduler" where
  "execute_finish classify async now r t s =
     (case r of
        Returned x \<Rightarrow> update_object (sk_object t) (record_run now (result_status (classify x)) x) s
      | Raised e \<Rightarrow> update_object (sk_object t) (record_run now ''failed'' (''error: '' @ e)) s
      | Cancelled \<Rightarrow>
          if async then update_object (sk_object t) (record_run now ''cancelled'' ''[cancelled: scheduled task]'') s
          else s)"

text \<open>Up to the callback: claim, then \<open>last_status = "running"\<close>; without a callback the synchronous
  executor skips the task and it is released at once.\<close>

definition sched_begin ::
  "bool \<Rightarrow> string \<Rightarrow> datetime option \<Rightarrow> task_scheduler \<Rightarrow> scheduled_task option \<times> task_scheduler" where
  "sched_begin callback task_id slot s =
     (case sched_claim task_id slot s of
        (None, s1) \<Rightarrow> (None, s1)
      | (Some t, s1) \<Rightarrow>
          if callback \<or> sc_callback s1 then
            (Some t, update_object (sk_object t) (\<lambda>t. t\<lparr>sk_last_status := ''running''\<rparr>) s1)
          else (None, sched_release task_id s1))"

text \<open>The body of the loop of \<open>_check_and_run\<close> for one entry of the snapshot: the id, and the \<open>enabled\<close>
  and the expression of its object.\<close>

definition check_entry ::
  "datetime \<Rightarrow> string \<Rightarrow> bool \<Rightarrow> string \<Rightarrow> task_scheduler \<Rightarrow> scheduled_task option \<times> task_scheduler" where
  "check_entry now task_id enabled expr s =
     (if \<not> enabled then (None, s)
      else
        let (cron, s1) =
          (case dict_get (sc_cache s) task_id of
             Some c \<Rightarrow> (Some c, s)
           | None \<Rightarrow>
               (case parse_cron expr of
                  Inl _ \<Rightarrow> (None, s)
                | Inr c \<Rightarrow> (Some c, s\<lparr>sc_cache := dict_set task_id c (sc_cache s)\<rparr>))) in
        case cron of
          None \<Rightarrow> (None, s1)
        | Some c \<Rightarrow> if cron_matches c now then sched_begin False task_id (Some now) s1 else (None, s1))"

section \<open>The scheduler with its runs\<close>

text \<open>A run in flight: its task as claimed, whether the asynchronous executor runs it, and the slot the
  loop claimed it for.\<close>

record sched_run =
  sr_task :: scheduled_task
  sr_async :: bool
  sr_slot :: "datetime option"

record sched_system =
  ss_scheduler :: task_scheduler
  ss_runs :: "(string \<times> sched_run) list"

datatype sched_cmd =
    SAdd string string string string
  | SRemove string
  | SEnable bool string
  | SManual bool bool string
  | SCheck datetime string bool string
  | SFinish datetime string runner_result

definition begun ::
  "string \<Rightarrow> bool \<Rightarrow> datetime option \<Rightarrow> scheduled_task option \<times> task_scheduler \<Rightarrow> sched_system \<Rightarrow>
   (string \<times> datetime option) list \<times> sched_system" where
  "begun task_id async slot r q =
     (case r of
        (None, s) \<Rightarrow> ([], q\<lparr>ss_scheduler := s\<rparr>)
      | (Some t, s) \<Rightarrow>
          ([(task_id, slot)],
           q\<lparr>ss_scheduler := s,
             ss_runs := (task_id, \<lparr>sr_task = t, sr_async = async, sr_slot = slot\<rparr>) # ss_runs q\<rparr>))"

text \<open>A step, with the run it starts.\<close>

definition sched_step ::
  "(string \<Rightarrow> result_class) \<Rightarrow> sched_system \<Rightarrow> sched_cmd \<Rightarrow> (string \<times> datetime option) list \<times> sched_system" where
  "sched_step classify q cmd =
     (case cmd of
        SAdd now expr prompt i \<Rightarrow> ([], q\<lparr>ss_scheduler := snd (sched_add now expr prompt i (ss_scheduler q))\<rparr>)
      | SRemove i \<Rightarrow> ([], q\<lparr>ss_scheduler := snd (sched_remove i (ss_scheduler q))\<rparr>)
      | SEnable b i \<Rightarrow> ([], q\<lparr>ss_scheduler := snd (set_enabled b i (ss_scheduler q))\<rparr>)
      | SManual async cb i \<Rightarrow> begun i async None (sched_begin (cb \<or> async) i None (ss_scheduler q)) q
      | SCheck now i enabled expr \<Rightarrow> begun i False (Some now) (check_entry now i enabled expr (ss_scheduler q)) q
      | SFinish now i r \<Rightarrow>
          (case map_of (ss_runs q) i of
             None \<Rightarrow> ([], q)
           | Some rn \<Rightarrow>
               ([], q\<lparr>ss_scheduler := sched_release i
                        (execute_finish classify (sr_async rn) now r (sr_task rn) (ss_scheduler q)),
                      ss_runs := filter (\<lambda>(k, _). k \<noteq> i) (ss_runs q)\<rparr>)))"

end
