(* ===== verification/Cron_Scheduler_Correct.thy ===== *)
theory Cron_Scheduler_Correct
  imports Cron_Scheduler
begin

text \<open>
  The scheduler starts a task at most once for a slot and never while it runs; what it takes for that
  (a clock that does not go back, ids that are not reused, runs that are recorded), and what happens
  without it.
\<close>

section \<open>What an operation changes\<close>

lemma dict_get_map_vals: "dict_get (map (\<lambda>(k, t). (k, g t)) d) k = map_option g (dict_get d k)"
  by (simp add: dict_get_def map_of_map)

lemma dict_keys_map_vals: "dict_keys (map (\<lambda>(k, t). (k, g t)) d) = dict_keys d"
  by (simp add: dict_keys_def case_prod_beta)

lemma update_object_get:
  "dict_get (sc_tasks (update_object ob g s)) k =
     map_option (\<lambda>t. if sk_object t = ob then g t else t) (dict_get (sc_tasks s) k)"
  by (simp add: update_object_def dict_get_map_vals)

lemma update_object_frame [simp]:
  "dict_keys (sc_tasks (update_object ob g s)) = dict_keys (sc_tasks s)"
  "sc_running (update_object ob g s) = sc_running s"
  "dict_wf (sc_tasks (update_object ob g s)) = dict_wf (sc_tasks s)"
  by (simp_all add: update_object_def dict_keys_map_vals dict_wf_def case_prod_beta comp_def)

lemma sched_claim_cases:
  assumes "sched_claim i slot s = (r, s')"
  obtains "r = None" "s' = s"
  | t where "r = Some t" "s' = s\<lparr>sc_running := i # sc_running s\<rparr>" "dict_get (sc_tasks s) i = Some t"
      "i \<notin> set (sc_running s)" "\<forall>d. slot = Some d \<longrightarrow> sk_last_run t \<noteq> At d"
proof (cases "dict_get (sc_tasks s) i")
  case None
  then show ?thesis using assms that(1) by (simp add: sched_claim_def)
next
  case (Some t)
  then show ?thesis using assms that(1) that(2) [of t]
    by (cases "i \<in> set (sc_running s)"; cases "\<exists>d \<in> set_option slot. sk_last_run t = At d")
      (auto simp: sched_claim_def)
qed

text \<open>A begun run: its task is in the table, idle and unstamped for the slot, and afterwards only
  statuses have changed.\<close>

definition started_from :: "string \<Rightarrow> datetime option \<Rightarrow> scheduled_task \<Rightarrow> task_scheduler \<Rightarrow> task_scheduler \<Rightarrow> bool" where
  "started_from i slot t s s' \<longleftrightarrow>
     dict_get (sc_tasks s) i = Some t \<and> i \<notin> set (sc_running s) \<and> (\<forall>d. slot = Some d \<longrightarrow> sk_last_run t \<noteq> At d) \<and>
     sc_running s' = i # sc_running s \<and> dict_keys (sc_tasks s') = dict_keys (sc_tasks s) \<and>
     dict_wf (sc_tasks s') = dict_wf (sc_tasks s) \<and>
     (\<forall>k u. dict_get (sc_tasks s') k = Some u \<longrightarrow>
        (\<exists>v. dict_get (sc_tasks s) k = Some v \<and> sk_object u = sk_object v \<and> sk_last_run u = sk_last_run v))"

lemma sched_begin_cases:
  assumes "sched_begin cb i slot s = (r, s')"
  shows "case r of None \<Rightarrow> sc_tasks s' = sc_tasks s \<and> set (sc_running s') = set (sc_running s)
    | Some t \<Rightarrow> started_from i slot t s s'"
proof -
  obtain c s1 where c: "sched_claim i slot s = (c, s1)" by force
  from c show ?thesis
  proof (cases rule: sched_claim_cases)
    case 1
    then show ?thesis using assms c by (simp add: sched_begin_def)
  next
    case (2 t)
    show ?thesis
    proof (cases "cb \<or> sc_callback s1")
      case True
      then have "r = Some t" "s' = update_object (sk_object t) (\<lambda>t. t\<lparr>sk_last_status := ''running''\<rparr>) s1"
        using assms c 2(1) by (auto simp: sched_begin_def)
      then show ?thesis using 2(2-5) by (auto simp: started_from_def update_object_get)
    next
      case False
      then have "r = None" "s' = sched_release i s1" using assms c 2(1) by (auto simp: sched_begin_def)
      then show ?thesis using 2(2,4) by (simp add: sched_release_def)
    qed
  qed
qed

lemma check_entry_cases:
  assumes "check_entry now i enabled expr s = (r, s')"
  shows "case r of None \<Rightarrow> sc_tasks s' = sc_tasks s \<and> set (sc_running s') = set (sc_running s)
    | Some t \<Rightarrow> started_from i (Some now) t s s'"
proof -
  have same: "started_from i slot t (s\<lparr>sc_cache := x\<rparr>) s2 = started_from i slot t s s2" for slot t s2 x
    by (simp add: started_from_def)
  show ?thesis
    using assms sched_begin_cases [of False i "Some now"]
    by (fastforce simp: check_entry_def same split: if_splits option.splits sum.splits)
qed

section \<open>The invariant\<close>

text \<open>\<open>U\<close> holds the ids ever used, \<open>T\<close> the minute of the last clock reading, \<open>obs\<close> the runs begun.\<close>

definition stamped_by :: "nat \<Rightarrow> datetime \<Rightarrow> scheduled_task \<Rightarrow> bool" where
  "stamped_by T d t \<longleftrightarrow>
     (\<exists>c. sk_last_run t = At c \<and> valid_dt c \<and> minute_no d \<le> minute_no c \<and> minute_no c \<le> T)"

text \<open>A run in flight works on the object its id is bound to, if the id is still bound.\<close>

definition linked :: "(string \<times> sched_run) list \<Rightarrow> (string, scheduled_task) pydict \<Rightarrow> bool" where
  "linked rs ts \<longleftrightarrow>
     (\<forall>i rn t. map_of rs i = Some rn \<longrightarrow> dict_get ts i = Some t \<longrightarrow> sk_object t = sk_object (sr_task rn))"

lemma linkedD:
  "linked rs ts \<Longrightarrow> map_of rs i = Some rn \<Longrightarrow> dict_get ts i = Some t \<Longrightarrow> sk_object t = sk_object (sr_task rn)"
  unfolding linked_def by blast

definition runs_inv :: "string set \<Rightarrow> sched_system \<Rightarrow> bool" where
  "runs_inv U q \<longleftrightarrow>
     distinct (map fst (ss_runs q)) \<and> set (sc_running (ss_scheduler q)) = fst ` set (ss_runs q) \<and>
     dict_wf (sc_tasks (ss_scheduler q)) \<and> set (dict_keys (sc_tasks (ss_scheduler q))) \<subseteq> U \<and>
     fst ` set (ss_runs q) \<subseteq> U \<and>
     linked (ss_runs q) (sc_tasks (ss_scheduler q))"

definition stamps_inv ::
  "string set \<Rightarrow> nat \<Rightarrow> (string \<times> datetime option) set \<Rightarrow> sched_system \<Rightarrow> bool" where
  "stamps_inv U T obs q \<longleftrightarrow>
     (\<forall>i d. (i, Some d) \<in> obs \<longrightarrow> i \<in> U \<and> minute_no d \<le> T \<and>
        (i \<in> fst ` set (ss_runs q) \<or>
         (\<forall>t. dict_get (sc_tasks (ss_scheduler q)) i = Some t \<longrightarrow> stamped_by T d t)))"

definition sched_inv ::
  "string set \<Rightarrow> nat \<Rightarrow> (string \<times> datetime option) set \<Rightarrow> sched_system \<Rightarrow> bool" where
  "sched_inv U T obs q \<longleftrightarrow> runs_inv U q \<and> stamps_inv U T obs q"

lemma stamped_later: "stamped_by T d t \<Longrightarrow> T \<le> T' \<Longrightarrow> stamped_by T' d t"
  by (auto simp: stamped_by_def)

lemma stamped_cong: "sk_last_run u = sk_last_run v \<Longrightarrow> stamped_by T d u = stamped_by T d v"
  by (simp add: stamped_by_def)

lemma sched_inv_later: "sched_inv U T obs q \<Longrightarrow> T \<le> T' \<Longrightarrow> U \<subseteq> U' \<Longrightarrow> sched_inv U' T' obs q"
  unfolding sched_inv_def runs_inv_def stamps_inv_def using stamped_later by (meson order_trans subsetD)

text \<open>A change that keeps the runs, drops no stamp and changes no object.\<close>

definition gentle :: "task_scheduler \<Rightarrow> task_scheduler \<Rightarrow> bool" where
  "gentle s s' \<longleftrightarrow>
     set (sc_running s') = set (sc_running s) \<and> (dict_wf (sc_tasks s) \<longrightarrow> dict_wf (sc_tasks s')) \<and>
     set (dict_keys (sc_tasks s')) \<subseteq> set (dict_keys (sc_tasks s)) \<and>
     (dict_wf (sc_tasks s) \<longrightarrow> (\<forall>k u. dict_get (sc_tasks s') k = Some u \<longrightarrow>
        (\<exists>v. dict_get (sc_tasks s) k = Some v \<and> sk_object u = sk_object v \<and> sk_last_run u = sk_last_run v)))"

lemma runs_inv_change:
  assumes "runs_inv U q" and "set (sc_running s') = set (sc_running (ss_scheduler q))" and "dict_wf (sc_tasks s')"
    and "set (dict_keys (sc_tasks s')) \<subseteq> U"
    and "\<And>k u. dict_get (sc_tasks s') k = Some u \<Longrightarrow>
      \<exists>v. dict_get (sc_tasks (ss_scheduler q)) k = Some v \<and> sk_object u = sk_object v"
  shows "runs_inv U (q\<lparr>ss_scheduler := s'\<rparr>)"
proof -
  have "sk_object t = sk_object (sr_task rn)"
    if m: "map_of (ss_runs q) i = Some rn" and g: "dict_get (sc_tasks s') i = Some t" for i rn t
  proof -
    obtain v where v: "dict_get (sc_tasks (ss_scheduler q)) i = Some v" "sk_object t = sk_object v"
      using assms(5) [OF g] by blast
    have "sk_object v = sk_object (sr_task rn)" using assms(1) m v(1) by (auto simp: runs_inv_def intro: linkedD)
    then show ?thesis using v(2) by simp
  qed
  then have "linked (ss_runs q) (sc_tasks s')" unfolding linked_def by blast
  then show ?thesis using assms(1-4) by (simp add: runs_inv_def)
qed

lemma stamps_inv_change:
  assumes "stamps_inv U T obs q" and "fst ` set (ss_runs q) \<subseteq> fst ` set rs"
    and "\<And>k u. dict_get (sc_tasks s') k = Some u \<Longrightarrow>
      \<exists>v. dict_get (sc_tasks (ss_scheduler q)) k = Some v \<and> sk_last_run u = sk_last_run v"
  shows "stamps_inv U T obs (q\<lparr>ss_scheduler := s', ss_runs := rs\<rparr>)"
  unfolding stamps_inv_def
proof (intro allI impI)
  fix i d assume o: "(i, Some d) \<in> obs"
  have st: "stamped_by T d t"
    if m: "\<forall>t. dict_get (sc_tasks (ss_scheduler q)) i = Some t \<longrightarrow> stamped_by T d t"
      and g: "dict_get (sc_tasks s') i = Some t" for t
  proof -
    obtain v where v: "dict_get (sc_tasks (ss_scheduler q)) i = Some v" "sk_last_run t = sk_last_run v"
      using assms(3) [OF g] by blast
    then show ?thesis using m stamped_cong [OF v(2)] by blast
  qed
  show "i \<in> U \<and> minute_no d \<le> T \<and>
      (i \<in> fst ` set (ss_runs (q\<lparr>ss_scheduler := s', ss_runs := rs\<rparr>)) \<or>
       (\<forall>t. dict_get (sc_tasks (ss_scheduler (q\<lparr>ss_scheduler := s', ss_runs := rs\<rparr>))) i = Some t \<longrightarrow> stamped_by T d t))"
  proof -
    have a: "i \<in> U" "minute_no d \<le> T"
      and b: "i \<in> fst ` set (ss_runs q) \<or> (\<forall>t. dict_get (sc_tasks (ss_scheduler q)) i = Some t \<longrightarrow> stamped_by T d t)"
      using assms(1) o unfolding stamps_inv_def by blast+
    from b have "i \<in> fst ` set rs \<or> (\<forall>t. dict_get (sc_tasks s') i = Some t \<longrightarrow> stamped_by T d t)"
      using assms(2) st by blast
    then show ?thesis using a by simp
  qed
qed

lemma gentle_inv:
  assumes g: "gentle (ss_scheduler q) s'" and inv: "sched_inv U T obs q"
  shows "sched_inv U T obs (q\<lparr>ss_scheduler := s'\<rparr>)"
proof -
  have r: "runs_inv U q" and st: "stamps_inv U T obs q" using inv by (simp_all add: sched_inv_def)
  have wf: "dict_wf (sc_tasks (ss_scheduler q))" using r by (simp add: runs_inv_def)
  have old: "\<exists>v. dict_get (sc_tasks (ss_scheduler q)) k = Some v \<and> sk_object u = sk_object v \<and> sk_last_run u = sk_last_run v"
    if "dict_get (sc_tasks s') k = Some u" for k u
    using g wf that by (simp add: gentle_def)
  have "runs_inv U (q\<lparr>ss_scheduler := s'\<rparr>)"
  proof (rule runs_inv_change [OF r])
    show "\<exists>v. dict_get (sc_tasks (ss_scheduler q)) k = Some v \<and> sk_object u = sk_object v"
      if "dict_get (sc_tasks s') k = Some u" for k u using old [OF that] by blast
  qed (use g wf r in \<open>auto simp: gentle_def runs_inv_def\<close>)
  moreover have "stamps_inv U T obs (q\<lparr>ss_scheduler := s'\<rparr>)"
    using stamps_inv_change [OF st, of "ss_runs q" s'] old by force
  ultimately show ?thesis by (simp add: sched_inv_def)
qed

lemma dict_get_key: "dict_get d k = Some v \<Longrightarrow> k \<in> set (dict_keys d)"
  using dict_get_None_iff [of d k] by auto

lemma gentle_remove: "gentle s (snd (sched_remove i s))"
  by (auto simp: gentle_def sched_remove_def dict_wf_del split: if_splits)

lemma gentle_enable: "gentle s (snd (set_enabled b i s))"
proof (cases "dict_get (sc_tasks s) i")
  case None
  then show ?thesis by (simp add: gentle_def set_enabled_def)
next
  case (Some t)
  then show ?thesis using dict_get_key [OF Some] by (auto simp: gentle_def set_enabled_def dict_wf_set)
qed

lemma begun_inv:
  assumes "begun i async slot (r, s') q = (vs, q')" and inv: "sched_inv U T obs q"
    and c: "case r of None \<Rightarrow> sc_tasks s' = sc_tasks (ss_scheduler q) \<and> set (sc_running s') = set (sc_running (ss_scheduler q))
      | Some t \<Rightarrow> started_from i slot t (ss_scheduler q) s'"
    and slot: "\<And>d. slot = Some d \<Longrightarrow> valid_dt d \<and> minute_no d = T"
  shows "sched_inv U T (obs \<union> set vs) q' \<and>
    (\<forall>v \<in> set vs. v = (i, slot) \<and> (slot \<noteq> None \<longrightarrow> v \<notin> obs)) \<and> length vs \<le> 1"
proof (cases r)
  case None
  then have "gentle (ss_scheduler q) s'" using c by (simp add: gentle_def)
  then show ?thesis using gentle_inv [OF _ inv] assms(1) None by (auto simp: begun_def)
next
  case (Some t)
  have vs: "vs = [(i, slot)]"
    and q': "q' = q\<lparr>ss_scheduler := s', ss_runs := (i, \<lparr>sr_task = t, sr_async = async, sr_slot = slot\<rparr>) # ss_runs q\<rparr>"
    using assms(1) Some by (auto simp: begun_def)
  have st: "started_from i slot t (ss_scheduler q) s'" using c Some by simp
  have idle: "i \<notin> fst ` set (ss_runs q)"
    using st inv by (simp add: started_from_def sched_inv_def runs_inv_def)
  have "i \<in> set (dict_keys (sc_tasks (ss_scheduler q)))"
    using st dict_get_None_iff [of "sc_tasks (ss_scheduler q)" i] by (auto simp: started_from_def)
  then have iU: "i \<in> U" using inv by (auto simp: sched_inv_def runs_inv_def)
  have old: "\<exists>v. dict_get (sc_tasks (ss_scheduler q)) k = Some v \<and> sk_object u = sk_object v \<and> sk_last_run u = sk_last_run v"
    if "dict_get (sc_tasks s') k = Some u" for k u
    using st that by (simp add: started_from_def)
  have new: "(i, slot) \<notin> obs" if "slot \<noteq> None"
  proof
    assume o: "(i, slot) \<in> obs"
    obtain d where d: "slot = Some d" using \<open>slot \<noteq> None\<close> by auto
    have "stamped_by T d t"
      using inv o idle st unfolding d by (auto simp: sched_inv_def stamps_inv_def started_from_def)
    then obtain cc where cc: "sk_last_run t = At cc" "valid_dt cc" "minute_no d \<le> minute_no cc" "minute_no cc \<le> T"
      by (auto simp: stamped_by_def)
    then have "cc = d" using minute_no_inj slot [OF d] by force
    then show False using st cc(1) d by (auto simp: started_from_def)
  qed
  have link: "sk_object u = sk_object (sr_task rn)"
    if m: "map_of (ss_runs q') k = Some rn" and g: "dict_get (sc_tasks s') k = Some u" for k rn u
  proof -
    obtain v where v: "dict_get (sc_tasks (ss_scheduler q)) k = Some v" "sk_object u = sk_object v"
      using old [OF g] by blast
    have "sk_object v = sk_object (sr_task rn)"
    proof (cases "k = i")
      case True
      then show ?thesis using m v(1) st by (auto simp: q' started_from_def)
    next
      case False
      then have "map_of (ss_runs q) k = Some rn" using m by (simp add: q')
      then show ?thesis using inv v(1) by (auto simp: sched_inv_def runs_inv_def intro: linkedD)
    qed
    then show ?thesis using v(2) by simp
  qed
  have "linked (ss_runs q') (sc_tasks s')" unfolding linked_def using link by blast
  then have "runs_inv U q'"
    unfolding runs_inv_def using inv st idle iU
    by (simp add: q' sched_inv_def runs_inv_def started_from_def)
  moreover have "stamps_inv U T obs q'"
    unfolding q'
  proof (rule stamps_inv_change)
    show "\<exists>v. dict_get (sc_tasks (ss_scheduler q)) k = Some v \<and> sk_last_run u = sk_last_run v"
      if "dict_get (sc_tasks s') k = Some u" for k u using old [OF that] by blast
  qed (use inv in \<open>auto simp: sched_inv_def\<close>)
  then have "stamps_inv U T (obs \<union> {(i, slot)}) q'"
    using iU slot by (auto simp: stamps_inv_def q')
  ultimately have "sched_inv U T (obs \<union> {(i, slot)}) q'" by (simp add: sched_inv_def)
  then show ?thesis using vs new by auto
qed

lemma add_inv:
  assumes inv: "sched_inv U T obs q" and i: "i \<notin> U"
  shows "sched_inv (insert i U) T obs (q\<lparr>ss_scheduler := snd (sched_add created expr prompt i (ss_scheduler q))\<rparr>)"
proof (cases "parse_cron expr")
  case (Inl e)
  then have "q\<lparr>ss_scheduler := snd (sched_add created expr prompt i (ss_scheduler q))\<rparr> = q" by (simp add: sched_add_def)
  then show ?thesis using sched_inv_later [OF inv order_refl subset_insertI] by simp
next
  case (Inr c)
  define s' where "s' = snd (sched_add created expr prompt i (ss_scheduler q))"
  obtain t where ts: "sc_tasks s' = dict_set i t (sc_tasks (ss_scheduler q))"
    and rn: "sc_running s' = sc_running (ss_scheduler q)"
    using Inr by (auto simp: s'_def sched_add_def Let_def)
  have r: "runs_inv U q" and st: "stamps_inv U T obs q" using inv by (simp_all add: sched_inv_def)
  have idle: "map_of (ss_runs q) i = None" using r i by (auto simp: runs_inv_def map_of_eq_None_iff)
  have "linked (ss_runs q) (sc_tasks s')"
    unfolding linked_def ts using r idle by (auto simp: runs_inv_def intro: linkedD split: if_splits)
  then have "runs_inv (insert i U) (q\<lparr>ss_scheduler := s'\<rparr>)"
    using r by (auto simp: runs_inv_def ts rn dict_wf_set)
  moreover have "stamps_inv (insert i U) T obs (q\<lparr>ss_scheduler := s'\<rparr>)"
    using st i by (auto simp: stamps_inv_def ts)
  ultimately show ?thesis by (simp add: sched_inv_def s'_def)
qed

lemma map_of_filter_neq: "map_of (filter (\<lambda>(k, _). k \<noteq> i) xs) = (map_of xs)(i := None)"
  by (induction xs) (auto simp: fun_eq_iff)

lemma finish_object:
  assumes "r \<noteq> Cancelled"
  shows "\<exists>st res. execute_finish classify a now r t s = update_object (sk_object t) (record_run now st res) s"
  using assms by (cases r) (auto simp: execute_finish_def)

lemma finish_inv:
  assumes inv: "sched_inv U T obs q" and rn: "map_of (ss_runs q) i = Some rn" and c: "r \<noteq> Cancelled"
    and now: "valid_dt now" "T \<le> minute_no now"
  shows "sched_inv U (minute_no now) obs
    (q\<lparr>ss_scheduler := sched_release i (execute_finish classify (sr_async rn) now r (sr_task rn) (ss_scheduler q)),
       ss_runs := filter (\<lambda>(k, _). k \<noteq> i) (ss_runs q)\<rparr>)"
proof -
  obtain status res where e: "execute_finish classify (sr_async rn) now r (sr_task rn) (ss_scheduler q) =
      update_object (sk_object (sr_task rn)) (record_run now status res) (ss_scheduler q)"
    using finish_object [OF c] by blast
  define s1 where "s1 = update_object (sk_object (sr_task rn)) (record_run now status res) (ss_scheduler q)"
  define rs where "rs = filter (\<lambda>(k, _). k \<noteq> i) (ss_runs q)"
  have r: "runs_inv U q" and st: "stamps_inv U T obs q" using inv by (simp_all add: sched_inv_def)
  have rs: "distinct (map fst rs)" "fst ` set rs = fst ` set (ss_runs q) - {i}"
    "map_of rs = (map_of (ss_runs q))(i := None)"
  proof -
    show "distinct (map fst rs)" using r by (simp add: rs_def runs_inv_def distinct_map_filter)
    show "fst ` set rs = fst ` set (ss_runs q) - {i}" by (force simp: rs_def)
    show "map_of rs = (map_of (ss_runs q))(i := None)"
      unfolding rs_def by (rule map_of_filter_neq)
  qed
  have old: "\<exists>v. dict_get (sc_tasks (ss_scheduler q)) k = Some v \<and> sk_object u = sk_object v \<and>
      (if sk_object v = sk_object (sr_task rn) then sk_last_run u = At now else sk_last_run u = sk_last_run v)"
    if g: "dict_get (sc_tasks s1) k = Some u" for k u
  proof -
    obtain v where v: "dict_get (sc_tasks (ss_scheduler q)) k = Some v"
      "u = (if sk_object v = sk_object (sr_task rn) then record_run now status res v else v)"
      using g by (auto simp: s1_def update_object_get)
    show ?thesis by (rule exI [of _ v]) (use v in \<open>simp add: record_run_def\<close>)
  qed
  have "linked rs (sc_tasks s1)"
    unfolding linked_def
  proof (intro allI impI)
    fix k rk u assume a: "map_of rs k = Some rk" "dict_get (sc_tasks s1) k = Some u"
    obtain v where v: "dict_get (sc_tasks (ss_scheduler q)) k = Some v" "sk_object u = sk_object v"
      using old [OF a(2)] by blast
    have "map_of (ss_runs q) k = Some rk" using a(1) rs(3) by (auto split: if_splits)
    then show "sk_object u = sk_object (sr_task rk)" using r v by (auto simp: runs_inv_def dest: linkedD)
  qed
  then have "runs_inv U (q\<lparr>ss_scheduler := sched_release i s1, ss_runs := rs\<rparr>)"
    using r rs(1,2) by (auto simp: runs_inv_def sched_release_def s1_def)
  moreover have "stamps_inv U (minute_no now) obs (q\<lparr>ss_scheduler := sched_release i s1, ss_runs := rs\<rparr>)"
    unfolding stamps_inv_def
  proof (intro allI impI)
    fix j d assume o: "(j, Some d) \<in> obs"
    have a: "j \<in> U" "minute_no d \<le> T"
      and b: "j \<in> fst ` set (ss_runs q) \<or> (\<forall>t. dict_get (sc_tasks (ss_scheduler q)) j = Some t \<longrightarrow> stamped_by T d t)"
      using st o unfolding stamps_inv_def by blast+
    have fresh: "stamped_by (minute_no now) d u" if "sk_last_run u = At now" for u
      using that a(2) now by (simp add: stamped_by_def)
    have "stamped_by (minute_no now) d u"
      if nr: "j \<notin> fst ` set rs" and g: "dict_get (sc_tasks s1) j = Some u" for u
    proof -
      obtain v where v: "dict_get (sc_tasks (ss_scheduler q)) j = Some v"
        "if sk_object v = sk_object (sr_task rn) then sk_last_run u = At now else sk_last_run u = sk_last_run v"
        using old [OF g] by blast
      show ?thesis
      proof (cases "sk_object v = sk_object (sr_task rn)")
        case True
        then show ?thesis using v(2) fresh by simp
      next
        case False
        have "j \<noteq> i" using False v(1) rn r by (auto simp: runs_inv_def dest: linkedD)
        then have "stamped_by T d v" using b nr rs(2) v(1) by blast
        then show ?thesis using v(2) False stamped_later now(2) stamped_cong [of u v] by auto
      qed
    qed
    then show "j \<in> U \<and> minute_no d \<le> minute_no now \<and>
        (j \<in> fst ` set (ss_runs (q\<lparr>ss_scheduler := sched_release i s1, ss_runs := rs\<rparr>)) \<or>
         (\<forall>t. dict_get (sc_tasks (ss_scheduler (q\<lparr>ss_scheduler := sched_release i s1, ss_runs := rs\<rparr>))) j = Some t \<longrightarrow>
            stamped_by (minute_no now) d t))"
      using a now(2) by (auto simp: sched_release_def)
  qed
  ultimately show ?thesis unfolding sched_inv_def e s1_def rs_def by blast
qed

section \<open>Schedules\<close>

text \<open>Command sequences under which the slot guard works: the clock never goes back, an id is never
  reused, and every run is recorded.\<close>

fun fair_schedule :: "string set \<Rightarrow> nat \<Rightarrow> sched_cmd list \<Rightarrow> bool" where
  "fair_schedule U T [] = True"
| "fair_schedule U T (SAdd created expr prompt i # cs) = (i \<notin> U \<and> fair_schedule (insert i U) T cs)"
| "fair_schedule U T (SCheck now i enabled expr # cs) =
     (valid_dt now \<and> T \<le> minute_no now \<and> fair_schedule U (minute_no now) cs)"
| "fair_schedule U T (SFinish now i r # cs) =
     (valid_dt now \<and> T \<le> minute_no now \<and> r \<noteq> Cancelled \<and> fair_schedule U (minute_no now) cs)"
| "fair_schedule U T (c # cs) = fair_schedule U T cs"

text \<open>The scheduled runs among those begun.\<close>

definition slot_runs :: "(string \<times> datetime option) list \<Rightarrow> (string \<times> datetime option) list" where
  "slot_runs vs = filter (\<lambda>v. snd v \<noteq> None) vs"

lemma fair_step:
  assumes "fair_schedule U T (cmd # cs)" and inv: "sched_inv U T obs q" and s: "sched_step classify q cmd = (vs, q')"
  shows "\<exists>U' T'. sched_inv U' T' (obs \<union> set vs) q' \<and> fair_schedule U' T' cs \<and>
    distinct (slot_runs vs) \<and> set (slot_runs vs) \<inter> obs = {}"
proof (cases cmd)
  case (SAdd created expr prompt i)
  then show ?thesis using assms add_inv [OF inv, of i created expr prompt] by (auto simp: sched_step_def slot_runs_def)
next
  case (SRemove i)
  then show ?thesis using assms gentle_inv [OF gentle_remove inv, of i] by (auto simp: sched_step_def slot_runs_def)
next
  case (SEnable b i)
  then show ?thesis using assms gentle_inv [OF gentle_enable inv, of b i] by (auto simp: sched_step_def slot_runs_def)
next
  case (SManual async cb i)
  obtain r s' where b: "sched_begin (cb \<or> async) i None (ss_scheduler q) = (r, s')" by force
  have "sched_inv U T (obs \<union> set vs) q' \<and> (\<forall>v \<in> set vs. v = (i, None) \<and> ((None :: datetime option) \<noteq> None \<longrightarrow> v \<notin> obs)) \<and> length vs \<le> 1"
    by (rule begun_inv [OF _ inv sched_begin_cases [OF b]]) (use s SManual b in \<open>simp_all add: sched_step_def\<close>)
  moreover have "slot_runs vs = []" using calculation by (auto simp: slot_runs_def filter_empty_conv)
  ultimately show ?thesis using assms(1) SManual by auto
next
  case (SCheck now i enabled expr)
  then have now: "valid_dt now" "T \<le> minute_no now" "fair_schedule U (minute_no now) cs" using assms(1) by simp_all
  have inv': "sched_inv U (minute_no now) obs q" by (rule sched_inv_later [OF inv now(2) order_refl])
  obtain r s' where b: "check_entry now i enabled expr (ss_scheduler q) = (r, s')" by force
  have n: "sched_inv U (minute_no now) (obs \<union> set vs) q' \<and>
      (\<forall>v \<in> set vs. v = (i, Some now) \<and> (Some now \<noteq> None \<longrightarrow> v \<notin> obs)) \<and> length vs \<le> 1"
    by (rule begun_inv [OF _ inv' check_entry_cases [OF b]])
      (use s SCheck b now(1) in \<open>simp_all add: sched_step_def\<close>)
  then have "distinct vs" by (cases vs) auto
  then show ?thesis using n now(3) by (auto simp: slot_runs_def)
next
  case (SFinish now i r)
  then have now: "valid_dt now" "T \<le> minute_no now" "fair_schedule U (minute_no now) cs" "r \<noteq> Cancelled"
    using assms(1) by simp_all
  show ?thesis
  proof (cases "map_of (ss_runs q) i")
    case None
    then have "vs = []" "q' = q" using s SFinish by (simp_all add: sched_step_def)
    then show ?thesis using sched_inv_later [OF inv now(2) order_refl] now(3) by (auto simp: slot_runs_def)
  next
    case (Some rn)
    then show ?thesis using finish_inv [OF inv Some now(4,1,2), of classify] s SFinish now(3)
      by (auto simp: sched_step_def slot_runs_def)
  qed
qed

lemma fair_run:
  "fair_schedule U T cmds \<Longrightarrow> sched_inv U T obs q \<Longrightarrow> run_obs (sched_step classify) q cmds = (vs, q') \<Longrightarrow>
   (\<exists>U' T'. sched_inv U' T' (obs \<union> set vs) q') \<and> distinct (slot_runs vs) \<and> set (slot_runs vs) \<inter> obs = {}"
proof (induction cmds arbitrary: U T obs q vs)
  case Nil
  then show ?case by (auto simp: slot_runs_def)
next
  case (Cons c cs)
  obtain us q1 where s: "sched_step classify q c = (us, q1)" by force
  obtain ws q2 where r: "run_obs (sched_step classify) q1 cs = (ws, q2)" by force
  have eq: "vs = us @ ws" "q' = q2" using Cons.prems(3) s r by auto
  obtain U1 T1 where 1: "sched_inv U1 T1 (obs \<union> set us) q1" "fair_schedule U1 T1 cs"
    "distinct (slot_runs us)" "set (slot_runs us) \<inter> obs = {}"
    using fair_step [OF Cons.prems(1,2) s] by blast
  have 2: "(\<exists>U' T'. sched_inv U' T' (obs \<union> set us \<union> set ws) q2) \<and> distinct (slot_runs ws) \<and>
      set (slot_runs ws) \<inter> (obs \<union> set us) = {}"
    using Cons.IH [OF 1(2,1)] r eq by simp
  have sub: "set (slot_runs xs) \<subseteq> set xs" for xs by (auto simp: slot_runs_def)
  have app: "slot_runs (us @ ws) = slot_runs us @ slot_runs ws" by (simp add: slot_runs_def)
  show ?case
    unfolding eq app using 1(3,4) 2 sub [of us] by (auto simp: Un_assoc)
qed


definition no_tasks :: task_scheduler where
  "no_tasks = \<lparr>sc_tasks = [], sc_cache = [], sc_running = [], sc_callback = True, sc_next_object = 0\<rparr>"

definition nine :: "nat \<Rightarrow> datetime" where
  "nine m = \<lparr>dt_year = 1, dt_month = 1, dt_day = 1, dt_hour = 9, dt_minute = m\<rparr>"

text \<open>Three checks within the minute 9:00, the last after the run is done.\<close>

definition example_schedule :: "sched_cmd list" where
  "example_schedule =
     [SAdd ''c'' ''* * * * *'' ''p'' ''t'', SCheck (nine 0) ''t'' True ''* * * * *'',
      SCheck (nine 0) ''t'' True ''* * * * *'', SFinish (nine 0) ''t'' (Returned ''r''),
      SCheck (nine 0) ''t'' True ''* * * * *'', SCheck (nine 1) ''t'' True ''* * * * *'']"


section \<open>What the guard does otherwise\<close>

text \<open>\<open>last_run\<close> is the time a run ended, not the slot it ran for: a run that ends within the next slot
  makes the loop skip that slot.\<close>

lemma late_finish_skips_slot:
  "fst (run_obs (sched_step (\<lambda>_. RSucceeded)) \<lparr>ss_scheduler = no_tasks, ss_runs = []\<rparr>
     [SAdd ''c'' ''* * * * *'' ''p'' ''t'', SCheck (nine 0) ''t'' True ''* * * * *'',
      SFinish (nine 1) ''t'' (Returned ''r''), SCheck (nine 1) ''t'' True ''* * * * *'']) =
   [(''t'', Some (nine 0))]"
  by code_simp

text \<open>A manual run suppresses the scheduled one of the minute it ends in.\<close>

lemma manual_run_skips_slot:
  "fst (run_obs (sched_step (\<lambda>_. RSucceeded)) \<lparr>ss_scheduler = no_tasks, ss_runs = []\<rparr>
     [SAdd ''c'' ''* * * * *'' ''p'' ''t'', SManual True True ''t'',
      SFinish (nine 0) ''t'' (Raised ''e''), SCheck (nine 0) ''t'' True ''* * * * *'']) =
   [(''t'', None)]"
  by code_simp

text \<open>A cancellation in the synchronous executor is not recorded: the slot runs again, and the status
  stays \<open>running\<close> until then.\<close>

lemma sync_cancel_repeats_slot:
  "fst (run_obs (sched_step (\<lambda>_. RSucceeded)) \<lparr>ss_scheduler = no_tasks, ss_runs = []\<rparr>
     [SAdd ''c'' ''* * * * *'' ''p'' ''t'', SCheck (nine 0) ''t'' True ''* * * * *'',
      SFinish (nine 0) ''t'' Cancelled, SCheck (nine 0) ''t'' True ''* * * * *'']) =
   [(''t'', Some (nine 0)), (''t'', Some (nine 0))]"
  by code_simp

end
