(* ===== verification/Rate_Limit.thy ===== *)
theory Rate_Limit
  imports PyDict Machine Complex_Main
begin

text \<open>
  The rate limiter of \<open>core/governance.py\<close>: two token buckets, requests and tokens, for each provider
  and model. Every attempt holds the lock from the clock reading's refill to the consumption, so an
  attempt is one step, and other steps run while a caller sleeps. Floating-point balances, rates and
  clock readings are rationals. \<open>str.casefold\<close> on code points below 256: sharp s becomes two letters,
  and the micro sign, whose fold lies above 255 and is no other character's, stays.
\<close>

section \<open>Keys and policies\<close>

definition fold_char :: "char \<Rightarrow> string" where
  "fold_char c = (if code_point c = 223 then ''ss'' else [lower_char c])"

definition casefold :: "string \<Rightarrow> string" where
  "casefold s = concat (map fold_char s)"

type_synonym rate_key = "string \<times> string"

datatype rate_error =
    Empty_Key
  | Bad_Policy
  | Unknown_Rate_Key rate_key
  | Negative_Cost
  | Bad_Timeout
  | Over_Capacity int int
  | Rate_Timeout rate_key rat rat
  | Negative_Usage

definition canonical_name :: "string \<Rightarrow> rate_error + string" where
  "canonical_name v = (let n = casefold (strip v) in if n = [] then Inl Empty_Key else Inr n)"

definition rate_key_of :: "string \<Rightarrow> string \<Rightarrow> rate_error + rate_key" where
  "rate_key_of provider model =
     bind_result (canonical_name provider) (\<lambda>p. bind_result (canonical_name model) (\<lambda>m. Inr (p, m)))"

record rate_policy =
  rp_requests_per_period :: int
  rp_tokens_per_period :: int
  rp_period_seconds :: rat
  rp_request_burst :: "int option"
  rp_token_burst :: "int option"

text \<open>The field constraints of the policy's model.\<close>

definition policy_ok :: "rate_policy \<Rightarrow> bool" where
  "policy_ok p \<longleftrightarrow>
     0 < rp_requests_per_period p \<and> 0 < rp_tokens_per_period p \<and> 0 < rp_period_seconds p \<and>
     (case rp_request_burst p of None \<Rightarrow> True | Some b \<Rightarrow> 0 < b) \<and>
     (case rp_token_burst p of None \<Rightarrow> True | Some b \<Rightarrow> 0 < b)"

definition request_capacity :: "rate_policy \<Rightarrow> int" where
  "request_capacity p = (case rp_request_burst p of Some b \<Rightarrow> (if b \<noteq> 0 then b else rp_requests_per_period p)
     | None \<Rightarrow> rp_requests_per_period p)"

definition token_capacity :: "rate_policy \<Rightarrow> int" where
  "token_capacity p = (case rp_token_burst p of Some b \<Rightarrow> (if b \<noteq> 0 then b else rp_tokens_per_period p)
     | None \<Rightarrow> rp_tokens_per_period p)"

definition request_refill_rate :: "rate_policy \<Rightarrow> rat" where
  "request_refill_rate p = of_int (rp_requests_per_period p) / rp_period_seconds p"

definition token_refill_rate :: "rate_policy \<Rightarrow> rat" where
  "token_refill_rate p = of_int (rp_tokens_per_period p) / rp_period_seconds p"

section \<open>Buckets\<close>

record bucket =
  bk_policy :: rate_policy
  bk_requests :: rat
  bk_tokens :: rat
  bk_updated_at :: rat

record rate_limiter =
  rl_default :: "rate_policy option"
  rl_policies :: "(rate_key, rate_policy) pydict"
  rl_states :: "(rate_key, bucket) pydict"

definition new_limiter :: "rate_policy option \<Rightarrow> rate_limiter" where
  "new_limiter d = \<lparr>rl_default = d, rl_policies = [], rl_states = []\<rparr>"

definition register_policy :: "rate_key \<Rightarrow> rate_policy \<Rightarrow> rate_limiter \<Rightarrow> rate_error option \<times> rate_limiter" where
  "register_policy k p l =
     (if \<not> policy_ok p then (Some Bad_Policy, l)
      else (None, l\<lparr>rl_policies := dict_set k p (rl_policies l), rl_states := dict_del k (rl_states l)\<rparr>))"

definition unregister_policy :: "rate_key \<Rightarrow> rate_limiter \<Rightarrow> bool \<times> rate_limiter" where
  "unregister_policy k l =
     (dict_has (rl_policies l) k,
      l\<lparr>rl_policies := dict_del k (rl_policies l), rl_states := dict_del k (rl_states l)\<rparr>)"

definition policy_for :: "rate_limiter \<Rightarrow> rate_key \<Rightarrow> rate_policy option" where
  "policy_for l k = (case dict_get (rl_policies l) k of Some p \<Rightarrow> Some p | None \<Rightarrow> rl_default l)"

definition full_bucket :: "rate_policy \<Rightarrow> rat \<Rightarrow> bucket" where
  "full_bucket p now =
     \<lparr>bk_policy = p, bk_requests = of_int (request_capacity p), bk_tokens = of_int (token_capacity p),
      bk_updated_at = now\<rparr>"

definition state_for :: "rate_limiter \<Rightarrow> rate_key \<Rightarrow> rat \<Rightarrow> rate_error + bucket" where
  "state_for l k now =
     (case policy_for l k of
        None \<Rightarrow> Inl (Unknown_Rate_Key k)
      | Some p \<Rightarrow>
          (case dict_get (rl_states l) k of
             None \<Rightarrow> Inr (full_bucket p now)
           | Some b \<Rightarrow> if bk_policy b \<noteq> p then Inr (full_bucket p now) else Inr b))"

definition refill :: "bucket \<Rightarrow> rat \<Rightarrow> bucket" where
  "refill b now =
     (let elapsed = max 0 (now - bk_updated_at b); p = bk_policy b in
      if elapsed \<le> 0 then b
      else b\<lparr>bk_requests := min (of_int (request_capacity p)) (bk_requests b + elapsed * request_refill_rate p),
             bk_tokens := min (of_int (token_capacity p)) (bk_tokens b + elapsed * token_refill_rate p),
             bk_updated_at := now\<rparr>)"

definition required_wait :: "bucket \<Rightarrow> int \<Rightarrow> rat" where
  "required_wait b cost =
     max (max 0 (1 - bk_requests b) / request_refill_rate (bk_policy b))
         (max 0 (of_int cost - bk_tokens b) / token_refill_rate (bk_policy b))"

section \<open>Acquiring\<close>

record rate_grant =
  rg_key :: rate_key
  rg_token_cost :: int
  rg_waited :: rat
  rg_remaining_requests :: rat
  rg_remaining_tokens :: rat

datatype attempt_result = Attempt_Error rate_error | Attempt_Granted rate_grant | Attempt_Wait rat

text \<open>One round of the loop of \<open>acquire\<close> under the lock.\<close>

definition attempt ::
  "rate_key \<Rightarrow> int \<Rightarrow> rat \<Rightarrow> rat \<Rightarrow> rate_limiter \<Rightarrow> attempt_result \<times> rate_limiter" where
  "attempt k cost started now l =
     (case state_for l k now of
        Inl e \<Rightarrow> (Attempt_Error e, l)
      | Inr b \<Rightarrow>
          let l1 = l\<lparr>rl_states := dict_set k b (rl_states l)\<rparr> in
          if cost > token_capacity (bk_policy b) then
            (Attempt_Error (Over_Capacity cost (token_capacity (bk_policy b))), l1)
          else
            let b1 = refill b now; w = required_wait b1 cost in
            if w \<le> 0 then
              let b2 = b1\<lparr>bk_requests := bk_requests b1 - 1, bk_tokens := bk_tokens b1 - of_int cost\<rparr> in
              (Attempt_Granted \<lparr>rg_key = k, rg_token_cost = cost, rg_waited = max 0 (now - started),
                 rg_remaining_requests = max 0 (bk_requests b2), rg_remaining_tokens = max 0 (bk_tokens b2)\<rparr>,
               l1\<lparr>rl_states := dict_set k b2 (rl_states l1)\<rparr>)
            else (Attempt_Wait w, l1\<lparr>rl_states := dict_set k b1 (rl_states l1)\<rparr>))"

text \<open>The checks of the arguments.\<close>

definition acquire_args :: "int \<Rightarrow> rat option \<Rightarrow> rate_error option" where
  "acquire_args cost timeout =
     (if cost < 0 then Some Negative_Cost
      else (case timeout of None \<Rightarrow> None | Some t \<Rightarrow> if t < 0 then Some Bad_Timeout else None))"

text \<open>The deadline check after a round that has to wait.\<close>

definition deadline_error :: "rate_key \<Rightarrow> rat option \<Rightarrow> rat \<Rightarrow> rat \<Rightarrow> rat \<Rightarrow> rate_error option" where
  "deadline_error k timeout started now w =
     (case timeout of
        None \<Rightarrow> None
      | Some t \<Rightarrow>
          let remaining = t - max 0 (now - started) in
          if remaining \<le> 0 \<or> w > remaining then Some (Rate_Timeout k t w) else None)"

text \<open>The loop of \<open>acquire\<close> with the clock readings of its rounds; what other callers do while it
  sleeps is applied to the limiter before the next round. \<open>None\<close> is a caller still asleep when the
  readings end.\<close>

fun acquire_loop ::
  "rate_key \<Rightarrow> int \<Rightarrow> rat option \<Rightarrow> rat \<Rightarrow> (rat \<times> (rate_limiter \<Rightarrow> rate_limiter)) list \<Rightarrow> rate_limiter \<Rightarrow>
   (rate_error + rate_grant) option \<times> rate_limiter" where
  "acquire_loop k cost timeout started [] l = (None, l)"
| "acquire_loop k cost timeout started ((now, others) # rs) l =
     (case attempt k cost started now l of
        (Attempt_Error e, l1) \<Rightarrow> (Some (Inl e), l1)
      | (Attempt_Granted g, l1) \<Rightarrow> (Some (Inr g), l1)
      | (Attempt_Wait w, l1) \<Rightarrow>
          (case deadline_error k timeout started now w of
             Some e \<Rightarrow> (Some (Inl e), l1)
           | None \<Rightarrow> acquire_loop k cost timeout started rs (others l1)))"

definition acquire ::
  "string \<Rightarrow> string \<Rightarrow> int \<Rightarrow> rat option \<Rightarrow> rat \<Rightarrow> (rat \<times> (rate_limiter \<Rightarrow> rate_limiter)) list \<Rightarrow> rate_limiter \<Rightarrow>
   (rate_error + rate_grant) option \<times> rate_limiter" where
  "acquire provider model cost timeout started rs l =
     (case acquire_args cost timeout of
        Some e \<Rightarrow> (Some (Inl e), l)
      | None \<Rightarrow>
          (case rate_key_of provider model of
             Inl e \<Rightarrow> (Some (Inl e), l)
           | Inr k \<Rightarrow> acquire_loop k cost timeout started rs l))"

section \<open>Reconciling and observing\<close>

record rate_snapshot =
  rs_key :: rate_key
  rs_remaining_requests :: rat
  rs_remaining_tokens :: rat
  rs_request_capacity :: int
  rs_token_capacity :: int

definition snapshot_of :: "rate_key \<Rightarrow> bucket \<Rightarrow> rate_snapshot" where
  "snapshot_of k b =
     \<lparr>rs_key = k, rs_remaining_requests = max 0 (bk_requests b), rs_remaining_tokens = max 0 (bk_tokens b),
      rs_request_capacity = request_capacity (bk_policy b), rs_token_capacity = token_capacity (bk_policy b)\<rparr>"

definition reconcile :: "rate_grant \<Rightarrow> int \<Rightarrow> rat \<Rightarrow> rate_limiter \<Rightarrow> (rate_error + rate_snapshot) \<times> rate_limiter" where
  "reconcile g actual now l =
     (if actual < 0 then (Inl Negative_Usage, l)
      else
        (case state_for l (rg_key g) now of
           Inl e \<Rightarrow> (Inl e, l)
         | Inr b \<Rightarrow>
             let b1 = refill b now;
                 delta = actual - rg_token_cost g;
                 b2 = b1\<lparr>bk_tokens := min (of_int (token_capacity (bk_policy b1))) (bk_tokens b1 - of_int delta)\<rparr> in
             (Inr (snapshot_of (rg_key g) b2), l\<lparr>rl_states := dict_set (rg_key g) b2 (rl_states l)\<rparr>)))"

definition rate_snapshot_of :: "rate_key \<Rightarrow> rat \<Rightarrow> rate_limiter \<Rightarrow> (rate_error + rate_snapshot) \<times> rate_limiter" where
  "rate_snapshot_of k now l =
     (case state_for l k now of
        Inl e \<Rightarrow> (Inl e, l)
      | Inr b \<Rightarrow>
          let b1 = refill b now in
          (Inr (snapshot_of k b1), l\<lparr>rl_states := dict_set k b1 (rl_states l)\<rparr>))"

section \<open>Interleaved callers\<close>

datatype rate_cmd =
    RAttempt rate_key int rat rat
  | RReconcile rate_grant int rat
  | RSnapshot rate_key rat
  | RRegister rate_key rate_policy
  | RUnregister rate_key

text \<open>What a step takes from a bucket: a grant with its cost, or a correction of a grant.\<close>

datatype rate_event = Took rate_key int rat | Corrected rate_key int rat

definition rate_step :: "rate_limiter \<Rightarrow> rate_cmd \<Rightarrow> rate_event list \<times> rate_limiter" where
  "rate_step l cmd =
     (case cmd of
        RAttempt k cost started now \<Rightarrow>
          (case acquire_args cost None of
             Some e \<Rightarrow> ([], l)
           | None \<Rightarrow>
               (case attempt k cost started now l of
                  (Attempt_Granted g, l1) \<Rightarrow> ([Took k cost now], l1)
                | (_, l1) \<Rightarrow> ([], l1)))
      | RReconcile g actual now \<Rightarrow>
          (case reconcile g actual now l of
             (Inl e, l1) \<Rightarrow> ([], l1)
           | (Inr s, l1) \<Rightarrow> ([Corrected (rg_key g) (actual - rg_token_cost g) now], l1))
      | RSnapshot k now \<Rightarrow> ([], snd (rate_snapshot_of k now l))
      | RRegister k p \<Rightarrow> ([], snd (register_policy k p l))
      | RUnregister k \<Rightarrow> ([], snd (unregister_policy k l)))"

end
