(* ===== verification/Rate_Limit_Correct.thy ===== *)
theory Rate_Limit_Correct
  imports Rate_Limit
begin

text \<open>
  The rate limiter keeps its promise: in any period, however callers interleave, a key's grants and the
  tokens they and their corrections used stay within the burst plus what the period refills. A caller
  that has to wait is told the exact time, and the deadline is decided without waiting in vain.
\<close>

section \<open>Buckets\<close>

lemma policy_rates:
  assumes "policy_ok p"
  shows "0 < request_refill_rate p" "0 < token_refill_rate p" "1 \<le> request_capacity p" "1 \<le> token_capacity p"
  using assms
  by (auto simp: policy_ok_def request_refill_rate_def token_refill_rate_def request_capacity_def
      token_capacity_def split: option.splits)

text \<open>A bucket of policy \<open>p\<close> that has given \<open>n\<close> requests and \<open>u\<close> tokens since \<open>t0\<close>.\<close>

definition in_budget ::
  "rate_policy \<Rightarrow> rat \<Rightarrow> rat \<Rightarrow> bucket \<Rightarrow> nat \<Rightarrow> int \<Rightarrow> bool" where
  "in_budget p t0 t1 b n u \<longleftrightarrow>
     bk_policy b = p \<and> bk_requests b \<le> of_int (request_capacity p) \<and> bk_tokens b \<le> of_int (token_capacity p) \<and>
     bk_updated_at b \<le> t1 \<and>
     (if bk_updated_at b < t0 then n = 0 \<and> u = 0
      else bk_requests b + of_nat n \<le> of_int (request_capacity p) + (bk_updated_at b - t0) * request_refill_rate p \<and>
           bk_tokens b + of_int u \<le> of_int (token_capacity p) + (bk_updated_at b - t0) * token_refill_rate p)"

lemma budget_full:
  assumes "policy_ok p" and "t0 \<le> now" and "now \<le> t1"
  shows "in_budget p t0 t1 (full_bucket p now) 0 0"
  using assms policy_rates [OF assms(1)] by (simp add: in_budget_def full_bucket_def)

lemma budget_refill:
  assumes p: "policy_ok p" and w: "in_budget p t0 t1 b n u" and now: "t0 \<le> now" "now \<le> t1"
  shows "in_budget p t0 t1 (refill b now) n u" and "t0 \<le> bk_updated_at (refill b now)"
proof -
  note r = policy_rates [OF p]
  have pol: "bk_policy b = p" using w by (simp add: in_budget_def)
  consider (same) "now \<le> bk_updated_at b" | (old) "bk_updated_at b < t0" "bk_updated_at b < now"
    | (new) "t0 \<le> bk_updated_at b" "bk_updated_at b < now" by linarith
  then have "in_budget p t0 t1 (refill b now) n u \<and> t0 \<le> bk_updated_at (refill b now)"
  proof cases
    case same
    then show ?thesis using w now by (simp add: refill_def Let_def)
  next
    case old
    then have "n = 0" "u = 0" using w by (simp_all add: in_budget_def)
    define x where "x = (now - t0) * request_refill_rate p"
    define y where "y = (now - t0) * token_refill_rate p"
    have "0 \<le> x" "0 \<le> y" using now r by (simp_all add: x_def y_def)
    then have m: "min (of_int (request_capacity p)) z \<le> of_int (request_capacity p) + x"
      "min (of_int (token_capacity p)) z \<le> of_int (token_capacity p) + y" for z
      by (simp_all add: min.coboundedI1)
    show ?thesis using old now pol r \<open>n = 0\<close> \<open>u = 0\<close> m
      by (simp add: refill_def in_budget_def Let_def max_def x_def [symmetric] y_def [symmetric])
  next
    case new
    let ?e = "now - bk_updated_at b"
    have a: "bk_requests b + of_nat n \<le> of_int (request_capacity p) + (bk_updated_at b - t0) * request_refill_rate p"
      and c: "bk_tokens b + of_int u \<le> of_int (token_capacity p) + (bk_updated_at b - t0) * token_refill_rate p"
      using w new by (simp_all add: in_budget_def)
    have s: "(now - t0) * x = (bk_updated_at b - t0) * x + ?e * x" for x by (simp add: algebra_simps)
    have e: "refill b now = b\<lparr>bk_requests := min (of_int (request_capacity p)) (bk_requests b + ?e * request_refill_rate p),
        bk_tokens := min (of_int (token_capacity p)) (bk_tokens b + ?e * token_refill_rate p), bk_updated_at := now\<rparr>"
      using new(2) pol by (simp add: refill_def Let_def max_def)
    have m: "min x y \<le> y" for x y :: rat by simp
    have "min (of_int (request_capacity p)) (bk_requests b + ?e * request_refill_rate p) + of_nat n \<le>
        of_int (request_capacity p) + (now - t0) * request_refill_rate p"
      using a s [of "request_refill_rate p"] m [of "of_int (request_capacity p)" "bk_requests b + ?e * request_refill_rate p"]
      by linarith
    moreover have "min (of_int (token_capacity p)) (bk_tokens b + ?e * token_refill_rate p) + of_int u \<le>
        of_int (token_capacity p) + (now - t0) * token_refill_rate p"
      using c s [of "token_refill_rate p"] m [of "of_int (token_capacity p)" "bk_tokens b + ?e * token_refill_rate p"]
      by linarith
    ultimately show ?thesis unfolding e using new now pol by (simp add: in_budget_def)
  qed
  then show "in_budget p t0 t1 (refill b now) n u" "t0 \<le> bk_updated_at (refill b now)" by simp_all
qed

lemma required_wait_zero:
  assumes "policy_ok (bk_policy b)"
  shows "required_wait b cost \<le> 0 \<longleftrightarrow> 1 \<le> bk_requests b \<and> of_int cost \<le> bk_tokens b"
  using policy_rates [OF assms] by (auto simp: required_wait_def divide_le_0_iff)

lemma budget_take:
  assumes p: "policy_ok p" and w: "in_budget p t0 t1 b n u" and now: "t0 \<le> bk_updated_at b"
    and wait: "required_wait b cost \<le> 0" and cost: "0 \<le> cost"
  shows "in_budget p t0 t1 (b\<lparr>bk_requests := bk_requests b - 1, bk_tokens := bk_tokens b - of_int cost\<rparr>) (Suc n) (u + cost)"
    and "of_nat (Suc n) \<le> of_int (request_capacity p) + (t1 - t0) * request_refill_rate p"
    and "of_int (u + cost) \<le> of_int (token_capacity p) + (t1 - t0) * token_refill_rate p"
proof -
  note r = policy_rates [OF p]
  have pol: "bk_policy b = p" using w by (simp add: in_budget_def)
  have have_req: "1 \<le> bk_requests b" "of_int cost \<le> bk_tokens b"
    using wait required_wait_zero [of b cost] p pol by simp_all
  have a: "bk_requests b + of_nat n \<le> of_int (request_capacity p) + (bk_updated_at b - t0) * request_refill_rate p"
    and c: "bk_tokens b + of_int u \<le> of_int (token_capacity p) + (bk_updated_at b - t0) * token_refill_rate p"
    and t: "bk_updated_at b \<le> t1"
    using w now by (simp_all add: in_budget_def)
  show "in_budget p t0 t1 (b\<lparr>bk_requests := bk_requests b - 1, bk_tokens := bk_tokens b - of_int cost\<rparr>) (Suc n) (u + cost)"
    using w now cost by (simp add: in_budget_def)
  have "(bk_updated_at b - t0) * request_refill_rate p \<le> (t1 - t0) * request_refill_rate p"
    using t r by (intro mult_right_mono) simp_all
  then show "of_nat (Suc n) \<le> of_int (request_capacity p) + (t1 - t0) * request_refill_rate p"
    using a have_req by simp
  have "(bk_updated_at b - t0) * token_refill_rate p \<le> (t1 - t0) * token_refill_rate p"
    using t r by (intro mult_right_mono) simp_all
  then show "of_int (u + cost) \<le> of_int (token_capacity p) + (t1 - t0) * token_refill_rate p"
    using c have_req by simp
qed

lemma budget_correct:
  assumes w: "in_budget p t0 t1 b n u" and now: "t0 \<le> bk_updated_at b"
  shows "in_budget p t0 t1 (b\<lparr>bk_tokens := min (of_int (token_capacity p)) (bk_tokens b - of_int delta)\<rparr>) n (u + delta)"
  using w now by (auto simp: in_budget_def min_def)

section \<open>Runs\<close>

definition budget_inv :: "rate_key \<Rightarrow> rate_policy \<Rightarrow> rat \<Rightarrow> rat \<Rightarrow> rate_limiter \<Rightarrow> nat \<Rightarrow> int \<Rightarrow> bool" where
  "budget_inv k p t0 t1 l n u \<longleftrightarrow>
     policy_for l k = Some p \<and>
     (case dict_get (rl_states l) k of
        None \<Rightarrow> n = 0 \<and> u = 0
      | Some b \<Rightarrow> if bk_policy b = p then in_budget p t0 t1 b n u else n = 0 \<and> u = 0)"

text \<open>The commands of a period: clock readings within it, and the policy of the key untouched.\<close>

fun cmd_in_period :: "rate_key \<Rightarrow> rat \<Rightarrow> rat \<Rightarrow> rate_cmd \<Rightarrow> bool" where
  "cmd_in_period k t0 t1 (RAttempt j cost started now) = (t0 \<le> now \<and> now \<le> t1)"
| "cmd_in_period k t0 t1 (RReconcile g actual now) = (t0 \<le> now \<and> now \<le> t1)"
| "cmd_in_period k t0 t1 (RSnapshot j now) = (t0 \<le> now \<and> now \<le> t1)"
| "cmd_in_period k t0 t1 (RRegister j p) = (j \<noteq> k)"
| "cmd_in_period k t0 t1 (RUnregister j) = (j \<noteq> k)"

text \<open>How many grants, and how many tokens, the events took from the key.\<close>

fun grants_of :: "rate_key \<Rightarrow> rate_event list \<Rightarrow> nat" where
  "grants_of k [] = 0"
| "grants_of k (Took j c t # es) = (if j = k then 1 else 0) + grants_of k es"
| "grants_of k (Corrected j d t # es) = grants_of k es"

fun tokens_of :: "rate_key \<Rightarrow> rate_event list \<Rightarrow> int" where
  "tokens_of k [] = 0"
| "tokens_of k (Took j c t # es) = (if j = k then c else 0) + tokens_of k es"
| "tokens_of k (Corrected j d t # es) = (if j = k then d else 0) + tokens_of k es"

lemma grants_of_append: "grants_of k (xs @ ys) = grants_of k xs + grants_of k ys"
  by (induction k xs rule: grants_of.induct) auto

lemma tokens_of_append: "tokens_of k (xs @ ys) = tokens_of k xs + tokens_of k ys"
  by (induction k xs rule: tokens_of.induct) auto

lemma state_for_budget:
  assumes "policy_ok p" and "budget_inv k p t0 t1 l n u" and "t0 \<le> now" and "now \<le> t1"
    and "state_for l k now = Inr b"
  shows "in_budget p t0 t1 b n u"
  using assms budget_full [OF assms(1,3,4)]
  by (auto simp: state_for_def budget_inv_def split: option.splits if_splits)

lemma policy_for_states [simp]: "policy_for (l\<lparr>rl_states := x\<rparr>) k = policy_for l k"
  by (simp add: policy_for_def split: option.splits)

text \<open>Storing a bucket of the key, or of another key.\<close>

lemma budget_store:
  assumes "in_budget p t0 t1 b n u" and "policy_for l k = Some p"
  shows "budget_inv k p t0 t1 (l\<lparr>rl_states := dict_set k b (rl_states l)\<rparr>) n u"
  using assms by (simp add: budget_inv_def in_budget_def)

lemma budget_other:
  assumes "budget_inv k p t0 t1 l n u" and "dict_get x k = dict_get (rl_states l) k"
  shows "budget_inv k p t0 t1 (l\<lparr>rl_states := x\<rparr>) n u"
  using assms by (simp add: budget_inv_def)

text \<open>What an attempt does to the limiter: nothing, or it stores a bucket under its key.\<close>

lemma dict_set_twice: "dict_set k y (dict_set k x d) = dict_set k y d"
  by (induction d) auto

lemma attempt_cases:
  assumes "attempt k cost started now l = (r, l')"
  obtains e where "state_for l k now = Inl e" "r = Attempt_Error e" "l' = l"
  | b where "state_for l k now = Inr b" "token_capacity (bk_policy b) < cost"
      "r = Attempt_Error (Over_Capacity cost (token_capacity (bk_policy b)))"
      "l' = l\<lparr>rl_states := dict_set k b (rl_states l)\<rparr>"
  | b where "state_for l k now = Inr b" "cost \<le> token_capacity (bk_policy b)"
      "0 < required_wait (refill b now) cost" "r = Attempt_Wait (required_wait (refill b now) cost)"
      "l' = l\<lparr>rl_states := dict_set k (refill b now) (rl_states l)\<rparr>"
  | b g where "state_for l k now = Inr b" "cost \<le> token_capacity (bk_policy b)"
      "required_wait (refill b now) cost \<le> 0" "r = Attempt_Granted g"
      "l' = l\<lparr>rl_states := dict_set k ((refill b now)\<lparr>bk_requests := bk_requests (refill b now) - 1,
          bk_tokens := bk_tokens (refill b now) - of_int cost\<rparr>) (rl_states l)\<rparr>"
proof (cases "state_for l k now")
  case (Inl e)
  show ?thesis by (rule that(1) [OF Inl]) (use assms Inl in \<open>simp_all add: attempt_def\<close>)
next
  case (Inr b)
  show ?thesis
  proof (cases "cost > token_capacity (bk_policy b)")
    case True
    show ?thesis by (rule that(2) [OF Inr True]) (use assms Inr True in \<open>simp_all add: attempt_def Let_def\<close>)
  next
    case False
    show ?thesis
    proof (cases "required_wait (refill b now) cost \<le> 0")
      case True
      then obtain g where "attempt k cost started now l = (Attempt_Granted g,
          l\<lparr>rl_states := dict_set k ((refill b now)\<lparr>bk_requests := bk_requests (refill b now) - 1,
            bk_tokens := bk_tokens (refill b now) - of_int cost\<rparr>) (rl_states l)\<rparr>)"
        using Inr False by (simp add: attempt_def Let_def dict_set_twice)
      then have "r = Attempt_Granted g"
        "l' = l\<lparr>rl_states := dict_set k ((refill b now)\<lparr>bk_requests := bk_requests (refill b now) - 1,
          bk_tokens := bk_tokens (refill b now) - of_int cost\<rparr>) (rl_states l)\<rparr>"
        using assms by simp_all
      then show ?thesis using that(4) [OF Inr _ True] False by (simp add: not_less)
    next
      case nowait: False
      show ?thesis
        by (rule that(3) [OF Inr])
          (use assms Inr False nowait in \<open>simp_all add: attempt_def Let_def dict_set_twice not_less not_le\<close>)
    qed
  qed
qed

section \<open>The budget of a key\<close>

text \<open>What was granted in a period fits the burst and what the period refills.\<close>

definition fits_period :: "rate_policy \<Rightarrow> rat \<Rightarrow> nat \<Rightarrow> int \<Rightarrow> bool" where
  "fits_period p d n u \<longleftrightarrow>
     of_nat n \<le> of_int (request_capacity p) + d * request_refill_rate p \<and>
     of_int u \<le> of_int (token_capacity p) + d * token_refill_rate p"

definition takes_fit :: "rate_key \<Rightarrow> rate_policy \<Rightarrow> rat \<Rightarrow> rate_event list \<Rightarrow> bool" where
  "takes_fit k p d = prefix_all (\<lambda>xs e. \<forall>c t. e = Took k c t \<longrightarrow>
     fits_period p d (grants_of k (xs @ [e])) (tokens_of k (xs @ [e])))"

lemma takes_fit_snoc:
  assumes "takes_fit k p d h"
    and "\<And>c t. e = Took k c t \<Longrightarrow> fits_period p d (grants_of k (h @ [e])) (tokens_of k (h @ [e]))"
  shows "takes_fit k p d (h @ [e])"
  using assms by (simp add: takes_fit_def)

definition limiter_log :: "rate_key \<Rightarrow> rate_policy \<Rightarrow> rat \<Rightarrow> rat \<Rightarrow> rate_limiter \<Rightarrow> rate_event list \<Rightarrow> bool" where
  "limiter_log k p t0 t1 l h \<longleftrightarrow>
     policy_ok p \<and> budget_inv k p t0 t1 l (grants_of k h) (tokens_of k h) \<and> takes_fit k p (t1 - t0) h"

lemma log_quiet: "limiter_log k p t0 t1 l h \<Longrightarrow> budget_inv k p t0 t1 l' (grants_of k h) (tokens_of k h) \<Longrightarrow> limiter_log k p t0 t1 l' h"
  by (simp add: limiter_log_def)

lemma log_attempt:
  assumes inv: "limiter_log k p t0 t1 l h" and now: "t0 \<le> now" "now \<le> t1" and cost: "0 \<le> cost"
    and att: "attempt j cost started now l = (r, l')"
  shows "limiter_log k p t0 t1 l' (h @ (case r of Attempt_Granted g \<Rightarrow> [Took j cost now] | _ \<Rightarrow> []))"
proof (cases "j = k")
  case False
  have eq: "dict_get (rl_states l') k = dict_get (rl_states l) k \<and> policy_for l' k = policy_for l k"
    using att by (rule attempt_cases) (use False in auto)
  have "takes_fit k p (t1 - t0) (h @ [Took j cost now])"
    using inv False by (intro takes_fit_snoc) (auto simp: limiter_log_def)
  moreover have "grants_of k (h @ [Took j cost now]) = grants_of k h" "tokens_of k (h @ [Took j cost now]) = tokens_of k h"
    using False by (simp_all add: grants_of_append tokens_of_append)
  moreover have "budget_inv k p t0 t1 l' (grants_of k h) (tokens_of k h)"
    using inv eq by (simp add: limiter_log_def budget_inv_def)
  ultimately show ?thesis using inv
    by (cases r) (simp_all add: limiter_log_def)
next
  case True
  have p: "policy_ok p" and bi: "budget_inv k p t0 t1 l (grants_of k h) (tokens_of k h)"
    and pf: "policy_for l k = Some p"
    using inv by (simp_all add: limiter_log_def budget_inv_def)
  note sb = state_for_budget [OF p bi now]
  show ?thesis
    using att [unfolded True]
  proof (rule attempt_cases)
    fix e
    assume "r = Attempt_Error e" "l' = l"
    then show ?thesis using inv by simp
  next
    fix b
    assume b: "state_for l k now = Inr b" and r: "r = Attempt_Error (Over_Capacity cost (token_capacity (bk_policy b)))"
      and l': "l' = l\<lparr>rl_states := dict_set k b (rl_states l)\<rparr>"
    have "budget_inv k p t0 t1 l' (grants_of k h) (tokens_of k h)"
      unfolding l' using sb [OF b] pf by (rule budget_store)
    then show ?thesis using r by (auto intro: log_quiet [OF inv])
  next
    fix b
    assume b: "state_for l k now = Inr b" and r: "r = Attempt_Wait (required_wait (refill b now) cost)"
      and l': "l' = l\<lparr>rl_states := dict_set k (refill b now) (rl_states l)\<rparr>"
    have "budget_inv k p t0 t1 l' (grants_of k h) (tokens_of k h)"
      unfolding l' using budget_refill(1) [OF p sb [OF b] now] pf by (rule budget_store)
    then show ?thesis using r by (auto intro: log_quiet [OF inv])
  next
    fix b g
    assume b: "state_for l k now = Inr b" and r: "r = Attempt_Granted g"
      and w: "required_wait (refill b now) cost \<le> 0"
      and l': "l' = l\<lparr>rl_states := dict_set k ((refill b now)\<lparr>bk_requests := bk_requests (refill b now) - 1,
          bk_tokens := bk_tokens (refill b now) - of_int cost\<rparr>) (rl_states l)\<rparr>"
    note take = budget_take [OF p budget_refill [OF p sb [OF b] now] w cost]
    have new: "grants_of k (h @ [Took k cost now]) = Suc (grants_of k h)"
      "tokens_of k (h @ [Took k cost now]) = tokens_of k h + cost"
      by (simp_all add: grants_of_append tokens_of_append)
    have "budget_inv k p t0 t1 l' (grants_of k (h @ [Took k cost now])) (tokens_of k (h @ [Took k cost now]))"
      unfolding l' new using take(1) pf by (rule budget_store)
    moreover have "takes_fit k p (t1 - t0) (h @ [Took k cost now])"
    proof (rule takes_fit_snoc)
      show "takes_fit k p (t1 - t0) h" using inv by (simp add: limiter_log_def)
      show "fits_period p (t1 - t0) (grants_of k (h @ [Took k cost now])) (tokens_of k (h @ [Took k cost now]))"
        unfolding new using take(2,3) by (simp add: fits_period_def)
    qed
    ultimately show ?thesis using r True p by (simp add: limiter_log_def)
  qed
qed

lemma log_reconcile:
  assumes inv: "limiter_log k p t0 t1 l h" and now: "t0 \<le> now" "now \<le> t1"
    and rec: "reconcile g actual now l = (r, l')"
  shows "limiter_log k p t0 t1 l' (h @ (case r of Inl e \<Rightarrow> [] | Inr s \<Rightarrow> [Corrected (rg_key g) (actual - rg_token_cost g) now]))"
proof (cases "actual < 0 \<or> (\<exists>e. state_for l (rg_key g) now = Inl e)")
  case True
  then show ?thesis using inv rec by (auto simp: reconcile_def split: if_splits)
next
  case False
  then obtain b where b: "state_for l (rg_key g) now = Inr b" by (cases "state_for l (rg_key g) now") auto
  define d where "d = actual - rg_token_cost g"
  define b1 where "b1 = refill b now"
  define b2 where "b2 = b1\<lparr>bk_tokens := min (of_int (token_capacity (bk_policy b1))) (bk_tokens b1 - of_int d)\<rparr>"
  have r: "r = Inr (snapshot_of (rg_key g) b2)" and l': "l' = l\<lparr>rl_states := dict_set (rg_key g) b2 (rl_states l)\<rparr>"
    using rec b False by (auto simp: reconcile_def Let_def b1_def b2_def d_def)
  have p: "policy_ok p" and bi: "budget_inv k p t0 t1 l (grants_of k h) (tokens_of k h)"
    and pf: "policy_for l k = Some p" and fit: "takes_fit k p (t1 - t0) h"
    using inv by (simp_all add: limiter_log_def budget_inv_def)
  have fit': "takes_fit k p (t1 - t0) (h @ [Corrected (rg_key g) d now])"
    using fit by (rule takes_fit_snoc) simp
  have "budget_inv k p t0 t1 l' (grants_of k (h @ [Corrected (rg_key g) d now])) (tokens_of k (h @ [Corrected (rg_key g) d now]))"
  proof (cases "rg_key g = k")
    case True
    have w: "in_budget p t0 t1 b1 (grants_of k h) (tokens_of k h)" "t0 \<le> bk_updated_at b1"
      unfolding b1_def using budget_refill [OF p state_for_budget [OF p bi now b [unfolded True]] now] by simp_all
    then have "bk_policy b1 = p" by (simp add: in_budget_def)
    then have "in_budget p t0 t1 b2 (grants_of k h) (tokens_of k h + d)"
      using budget_correct [OF w] by (simp add: b2_def)
    then have "budget_inv k p t0 t1 l' (grants_of k h) (tokens_of k h + d)"
      unfolding l' True using pf by (rule budget_store)
    then show ?thesis using True by (simp add: grants_of_append tokens_of_append)
  next
    case False
    have "budget_inv k p t0 t1 l' (grants_of k h) (tokens_of k h)"
      unfolding l' using bi by (rule budget_other) (use False in simp)
    then show ?thesis using False by (simp add: grants_of_append tokens_of_append)
  qed
  then show ?thesis using r p fit' by (simp add: limiter_log_def d_def)
qed

lemma log_snapshot:
  assumes inv: "limiter_log k p t0 t1 l h" and now: "t0 \<le> now" "now \<le> t1"
  shows "limiter_log k p t0 t1 (snd (rate_snapshot_of j now l)) h"
proof (cases "state_for l j now")
  case (Inl e)
  then show ?thesis using inv by (simp add: rate_snapshot_of_def)
next
  case (Inr b)
  have p: "policy_ok p" and bi: "budget_inv k p t0 t1 l (grants_of k h) (tokens_of k h)"
    and pf: "policy_for l k = Some p"
    using inv by (simp_all add: limiter_log_def budget_inv_def)
  have "budget_inv k p t0 t1 (l\<lparr>rl_states := dict_set j (refill b now) (rl_states l)\<rparr>) (grants_of k h) (tokens_of k h)"
  proof (cases "j = k")
    case True
    show ?thesis unfolding True
      using budget_refill(1) [OF p state_for_budget [OF p bi now Inr [unfolded True]] now] pf by (rule budget_store)
  next
    case False
    show ?thesis using bi by (rule budget_other) (use False in simp)
  qed
  then show ?thesis using Inr by (auto simp: rate_snapshot_of_def Let_def intro: log_quiet [OF inv])
qed

lemma log_policies:
  assumes "limiter_log k p t0 t1 l h" and "j \<noteq> k"
  shows "limiter_log k p t0 t1 (snd (register_policy j q l)) h"
    and "limiter_log k p t0 t1 (snd (unregister_policy j l)) h"
proof -
  have "budget_inv k p t0 t1 (snd (register_policy j q l)) (grants_of k h) (tokens_of k h)"
    "budget_inv k p t0 t1 (snd (unregister_policy j l)) (grants_of k h) (tokens_of k h)"
    using assms
    by (auto simp: limiter_log_def budget_inv_def policy_for_def register_policy_def unregister_policy_def split: option.splits)
  then show "limiter_log k p t0 t1 (snd (register_policy j q l)) h" "limiter_log k p t0 t1 (snd (unregister_policy j l)) h"
    using assms(1) by (simp_all add: limiter_log_def)
qed

lemma rate_step_log:
  assumes inv: "limiter_log k p t0 t1 l h" and ok: "cmd_in_period k t0 t1 c" and st: "rate_step l c = (es, l')"
  shows "limiter_log k p t0 t1 l' (h @ es)"
proof (cases c)
  case (RAttempt j cost started now)
  show ?thesis
  proof (cases "cost < 0")
    case True
    then show ?thesis using inv st RAttempt by (simp add: rate_step_def acquire_args_def)
  next
    case False
    obtain r l1 where a: "attempt j cost started now l = (r, l1)" by force
    then have "es = (case r of Attempt_Granted g \<Rightarrow> [Took j cost now] | _ \<Rightarrow> [])" "l' = l1"
      using st RAttempt False by (cases r; simp add: rate_step_def acquire_args_def)+
    then show ?thesis using log_attempt [OF inv _ _ _ a] ok RAttempt False by simp
  qed
next
  case (RReconcile g actual now)
  obtain r l1 where a: "reconcile g actual now l = (r, l1)" by force
  then have "es = (case r of Inl e \<Rightarrow> [] | Inr s \<Rightarrow> [Corrected (rg_key g) (actual - rg_token_cost g) now])" "l' = l1"
    using st RReconcile by (cases r; simp add: rate_step_def)+
  then show ?thesis using log_reconcile [OF inv _ _ a] ok RReconcile by simp
next
  case (RSnapshot j now)
  then show ?thesis using log_snapshot [OF inv, of now j] ok st by (auto simp: rate_step_def)
next
  case (RRegister j q)
  then show ?thesis using log_policies(1) [OF inv, of j q] ok st by (auto simp: rate_step_def)
next
  case (RUnregister j)
  then show ?thesis using log_policies(2) [OF inv, of j] ok st by (auto simp: rate_step_def)
qed

interpretation key_log: logged_machine rate_step "limiter_log k p t0 t1" "cmd_in_period k t0 t1"
  by unfold_locales (rule rate_step_log)

section \<open>Every limiter that ran\<close>

text \<open>No balance exceeds its capacity and no bucket is newer than the clock.\<close>

definition bucket_sound :: "rat \<Rightarrow> bucket \<Rightarrow> bool" where
  "bucket_sound t1 b \<longleftrightarrow>
     bk_requests b \<le> of_int (request_capacity (bk_policy b)) \<and> bk_tokens b \<le> of_int (token_capacity (bk_policy b)) \<and>
     bk_updated_at b \<le> t1"

definition limiter_sound :: "rat \<Rightarrow> rate_limiter \<Rightarrow> bool" where
  "limiter_sound t1 l \<longleftrightarrow> (\<forall>k b. dict_get (rl_states l) k = Some b \<longrightarrow> bucket_sound t1 b)"

fun cmd_until :: "rat \<Rightarrow> rate_cmd \<Rightarrow> bool" where
  "cmd_until t1 (RAttempt j cost started now) = (now \<le> t1)"
| "cmd_until t1 (RReconcile g actual now) = (now \<le> t1)"
| "cmd_until t1 (RSnapshot j now) = (now \<le> t1)"
| "cmd_until t1 (RRegister j p) = True"
| "cmd_until t1 (RUnregister j) = True"

lemma soundD: "limiter_sound t1 l \<Longrightarrow> dict_get (rl_states l) k = Some b \<Longrightarrow> bucket_sound t1 b"
  unfolding limiter_sound_def by blast

lemma sound_store:
  assumes "limiter_sound t1 l" and "bucket_sound t1 b"
  shows "limiter_sound t1 (l\<lparr>rl_states := dict_set k b (rl_states l)\<rparr>)"
  unfolding limiter_sound_def
proof (intro allI impI)
  fix x c
  assume "dict_get (rl_states (l\<lparr>rl_states := dict_set k b (rl_states l)\<rparr>)) x = Some c"
  then show "bucket_sound t1 c" using assms soundD [OF assms(1), of x c] by (simp split: if_splits)
qed

lemma sound_drop:
  assumes "limiter_sound t1 l"
  shows "limiter_sound t1 (l\<lparr>rl_policies := q, rl_states := dict_del k (rl_states l)\<rparr>)"
  unfolding limiter_sound_def
proof (intro allI impI)
  fix x c
  assume "dict_get (rl_states (l\<lparr>rl_policies := q, rl_states := dict_del k (rl_states l)\<rparr>)) x = Some c"
  then show "bucket_sound t1 c" using soundD [OF assms, of x c] by (simp split: if_splits)
qed

lemma sound_state_for:
  assumes "limiter_sound t1 l" and "state_for l k now = Inr b" and "now \<le> t1"
  shows "bucket_sound t1 b"
  using assms soundD [OF assms(1), of k]
  by (cases "dict_get (rl_states l) k")
    (auto simp: state_for_def full_bucket_def bucket_sound_def split: option.splits if_splits)

lemma sound_refill:
  assumes "bucket_sound t1 b" and "now \<le> t1"
  shows "bucket_sound t1 (refill b now)"
  using assms by (simp add: refill_def Let_def bucket_sound_def)

lemma sound_attempt:
  assumes sound: "limiter_sound t1 l" and now: "now \<le> t1" and cost: "0 \<le> cost"
    and att: "attempt k cost started now l = (r, l')"
  shows "limiter_sound t1 l'"
  using att
proof (rule attempt_cases)
  fix e
  assume "l' = l"
  then show ?thesis using sound by simp
next
  fix b
  assume b: "state_for l k now = Inr b" and l': "l' = l\<lparr>rl_states := dict_set k b (rl_states l)\<rparr>"
  show ?thesis unfolding l' by (rule sound_store [OF sound sound_state_for [OF sound b now]])
next
  fix b
  assume b: "state_for l k now = Inr b" and l': "l' = l\<lparr>rl_states := dict_set k (refill b now) (rl_states l)\<rparr>"
  show ?thesis unfolding l' by (rule sound_store [OF sound sound_refill [OF sound_state_for [OF sound b now] now]])
next
  fix b g
  assume b: "state_for l k now = Inr b"
    and l': "l' = l\<lparr>rl_states := dict_set k ((refill b now)\<lparr>bk_requests := bk_requests (refill b now) - 1,
        bk_tokens := bk_tokens (refill b now) - of_int cost\<rparr>) (rl_states l)\<rparr>"
  have c: "(0::rat) \<le> of_int cost" using cost by simp
  show ?thesis unfolding l'
    using sound_refill [OF sound_state_for [OF sound b now] now] c
    by (intro sound_store [OF sound]) (simp add: bucket_sound_def; linarith)
qed

lemma rate_step_sound:
  assumes sound: "limiter_sound t1 l" and ok: "cmd_until t1 c" and st: "rate_step l c = (es, l')"
  shows "limiter_sound t1 l'"
proof (cases c)
  case (RAttempt j cost started now)
  obtain r l1 where a: "attempt j cost started now l = (r, l1)" by force
  have "l' = (if cost < 0 then l else l1)"
    using st RAttempt a by (cases r) (auto simp: rate_step_def acquire_args_def split: if_splits)
  then show ?thesis using sound_attempt [OF sound _ _ a] ok RAttempt sound by simp
next
  case (RReconcile g actual now)
  have now: "now \<le> t1" using ok RReconcile by simp
  have "limiter_sound t1 (snd (reconcile g actual now l))"
  proof (cases "state_for l (rg_key g) now")
    case (Inl e)
    then show ?thesis using sound by (simp add: reconcile_def)
  next
    case (Inr b)
    have "bucket_sound t1 (refill b now)" by (rule sound_refill [OF sound_state_for [OF sound Inr now] now])
    then show ?thesis using Inr sound
      by (simp add: reconcile_def Let_def) (intro impI sound_store [OF sound], simp add: bucket_sound_def)
  qed
  moreover have "l' = snd (reconcile g actual now l)"
    using st RReconcile by (auto simp: rate_step_def split: prod.splits sum.splits)
  ultimately show ?thesis by simp
next
  case (RSnapshot j now)
  have now: "now \<le> t1" using ok RSnapshot by simp
  have "limiter_sound t1 (snd (rate_snapshot_of j now l))"
  proof (cases "state_for l j now")
    case (Inl e)
    then show ?thesis using sound by (simp add: rate_snapshot_of_def)
  next
    case (Inr b)
    show ?thesis using sound_store [OF sound sound_refill [OF sound_state_for [OF sound Inr now] now]]
      by (simp add: rate_snapshot_of_def Let_def Inr)
  qed
  then show ?thesis using st RSnapshot by (auto simp: rate_step_def)
next
  case (RRegister j q)
  then show ?thesis using sound sound_drop [OF sound, of j "dict_set j q (rl_policies l)"] st
    by (auto simp: rate_step_def register_policy_def split: if_splits)
next
  case (RUnregister j)
  then show ?thesis using sound_drop [OF sound, of j "dict_del j (rl_policies l)"] st
    by (auto simp: rate_step_def unregister_policy_def)
qed

interpretation limiter: logged_machine rate_step "\<lambda>l h. limiter_sound t1 l" "cmd_until t1"
  by unfold_locales (rule rate_step_sound)

lemma sound_start:
  assumes "limiter_sound t1 l" and p: "policy_ok p" and "policy_for l k = Some p" and "t0 \<le> t1"
  shows "limiter_log k p t0 t1 l []"
proof -
  have "in_budget p t0 t1 b 0 0" if b: "dict_get (rl_states l) k = Some b" and pol: "bk_policy b = p" for b
  proof -
    have c: "bk_requests b \<le> of_int (request_capacity p)" "bk_tokens b \<le> of_int (token_capacity p)" "bk_updated_at b \<le> t1"
      using soundD [OF assms(1) b] pol by (auto simp: bucket_sound_def)
    have "0 \<le> (bk_updated_at b - t0) * request_refill_rate p" "0 \<le> (bk_updated_at b - t0) * token_refill_rate p"
      if "t0 \<le> bk_updated_at b"
      using that policy_rates [OF p] by simp_all
    then show ?thesis using c pol by (auto simp: in_budget_def)
  qed
  then show ?thesis using assms by (auto simp: limiter_log_def budget_inv_def takes_fit_def [of k p] split: option.splits)
qed

text \<open>
  C15. In any period of any run of the limiter, however the callers interleave, the grants of a key
  and the tokens they and their corrections took stay within the burst capacity plus what the period
  refills, counted up to any grant, as long as the key keeps its policy and the clock readings lie in
  the period.\<close>

theorem rate_bounded:
  assumes "policy_ok p" and "t0 \<le> t1"
    and "run_obs rate_step (new_limiter d) before = (es0, l)" and "\<forall>c\<in>set before. cmd_until t1 c"
    and "policy_for l k = Some p" and "\<forall>c\<in>set cs. cmd_in_period k t0 t1 c"
    and "run_obs rate_step l cs = (es @ Took k cost t # rest, l')"
  shows "of_nat (grants_of k (es @ [Took k cost t])) \<le> of_int (request_capacity p) + (t1 - t0) * request_refill_rate p \<and>
    of_int (tokens_of k (es @ [Took k cost t])) \<le> of_int (token_capacity p) + (t1 - t0) * token_refill_rate p"
proof -
  have "limiter_sound t1 (new_limiter d)" by (simp add: limiter_sound_def new_limiter_def)
  then have "limiter_sound t1 l" by (rule limiter.run_logged [OF _ assms(4,3)])
  then have "limiter_log k p t0 t1 l []" using assms(1,5,2) by (rule sound_start)
  then have "limiter_log k p t0 t1 l' ([] @ (es @ Took k cost t # rest))"
    by (rule key_log.run_logged [OF _ assms(6,7)])
  then show ?thesis
    using prefix_allD [of _ es "Took k cost t" rest] unfolding limiter_log_def takes_fit_def fits_period_def by fastforce
qed

definition sample_policy :: rate_policy where
  "sample_policy = \<lparr>rp_requests_per_period = 2, rp_tokens_per_period = 10, rp_period_seconds = 1,
     rp_request_burst = Some 1, rp_token_burst = None\<rparr>"

definition sample_limiter :: rate_limiter where
  "sample_limiter = new_limiter (Some sample_policy)"

lemma rate_bounded_witness:
  "of_nat (grants_of (''p'', ''m'') ([Took (''p'', ''m'') 4 0] @ [Took (''p'', ''m'') 3 (1/2)])) \<le>
     (of_int (request_capacity sample_policy) + (1/2 - 0) * request_refill_rate sample_policy :: rat) \<and>
   of_int (tokens_of (''p'', ''m'') ([Took (''p'', ''m'') 4 0] @ [Took (''p'', ''m'') 3 (1/2)])) \<le>
     (of_int (token_capacity sample_policy) + (1/2 - 0) * token_refill_rate sample_policy :: rat)"
  by (rule rate_bounded [where p = sample_policy and ?t0.0 = 0 and ?t1.0 = "1/2" and k = "(''p'', ''m'')"
        and es = "[Took (''p'', ''m'') 4 0]" and cost = 3 and t = "1/2"
        and d = "Some sample_policy" and before = "[]" and ?es0.0 = "[]" and l = sample_limiter
        and cs = "[RAttempt (''p'', ''m'') 4 0 0, RAttempt (''p'', ''m'') 3 0 (1/2)]" and rest = "[]"
        and l' = "snd (run_obs rate_step sample_limiter [RAttempt (''p'', ''m'') 4 0 0, RAttempt (''p'', ''m'') 3 0 (1/2)])"])
    (simp_all add: policy_ok_def sample_policy_def sample_limiter_def new_limiter_def policy_for_def rate_step_def
      acquire_args_def attempt_def state_for_def dict_get_def full_bucket_def request_capacity_def token_capacity_def refill_def
      required_wait_def request_refill_rate_def token_refill_rate_def Let_def)

section \<open>Waiting\<close>

lemma refill_policy [simp]: "bk_policy (refill b now) = bk_policy b"
  by (simp add: refill_def Let_def)

lemma required_wait_nonneg: "policy_ok (bk_policy b) \<Longrightarrow> 0 \<le> required_wait b cost"
  using policy_rates [of "bk_policy b"] by (simp add: required_wait_def le_max_iff_disj)

lemma refill_up_to_date: "bk_updated_at b \<le> now \<Longrightarrow> bk_updated_at (refill b now) = now"
  by (auto simp: refill_def Let_def max_def)

lemma reach_after:
  fixes need have_now cap rate d :: rat
  assumes "0 < rate" and "need \<le> cap"
  shows "need \<le> min cap (have_now + d * rate) \<longleftrightarrow> (need - have_now) / rate \<le> d"
  using assms by (simp add: pos_divide_le_eq) linarith

text \<open>The announced wait is exact: refilled after a delay, the bucket lets the caller through if and
  only if the delay is at least the wait.\<close>

lemma refill_after_wait:
  assumes p: "policy_ok (bk_policy b)" and cost: "cost \<le> token_capacity (bk_policy b)" and up: "bk_updated_at b = now"
    and w: "0 < required_wait b cost" and d: "0 \<le> d"
  shows "required_wait (refill b (now + d)) cost \<le> 0 \<longleftrightarrow> required_wait b cost \<le> d"
proof (cases "d = 0")
  case True
  then show ?thesis using up w by (simp add: refill_def Let_def)
next
  case False
  let ?q = "bk_policy b"
  note r = policy_rates [OF p]
  have c: "(of_int cost :: rat) \<le> of_int (token_capacity ?q)" using cost by simp
  have one: "(1::rat) \<le> of_int (request_capacity ?q)" using r(3) by simp
  have e: "refill b (now + d) = b\<lparr>bk_requests := min (of_int (request_capacity ?q)) (bk_requests b + d * request_refill_rate ?q),
      bk_tokens := min (of_int (token_capacity ?q)) (bk_tokens b + d * token_refill_rate ?q), bk_updated_at := now + d\<rparr>"
    using False d up by (simp add: refill_def Let_def max_def)
  have "required_wait (refill b (now + d)) cost \<le> 0 \<longleftrightarrow>
      1 \<le> bk_requests (refill b (now + d)) \<and> of_int cost \<le> bk_tokens (refill b (now + d))"
    by (rule required_wait_zero) (simp add: p)
  also have "\<dots> \<longleftrightarrow> (1 - bk_requests b) / request_refill_rate ?q \<le> d \<and> (of_int cost - bk_tokens b) / token_refill_rate ?q \<le> d"
    unfolding e using reach_after [OF r(1) one, of "bk_requests b" d] reach_after [OF r(2) c, of "bk_tokens b" d] by simp
  also have "\<dots> \<longleftrightarrow> required_wait b cost \<le> d"
  proof -
    have "max 0 x / y \<le> d \<longleftrightarrow> x / y \<le> d" if "0 < y" for x y :: rat
      using that d by (simp add: pos_divide_le_eq)
    then show ?thesis using r by (simp add: required_wait_def)
  qed
  finally show ?thesis .
qed

text \<open>A caller alone with the limiter: the loop returns after at most one sleep.\<close>

definition granted_after :: "rat \<Rightarrow> (rate_error + rate_grant) option \<Rightarrow> bool" where
  "granted_after w r \<longleftrightarrow> (case r of Some (Inr g) \<Rightarrow> rg_waited g = w | _ \<Rightarrow> False)"

lemma attempt_granted:
  fixes started :: rat
  assumes "state_for l k now = Inr b" and "cost \<le> token_capacity (bk_policy b)" and "required_wait (refill b now) cost \<le> 0"
  obtains g l' where "attempt k cost started now l = (Attempt_Granted g, l')" and "rg_waited g = max 0 (now - started)"
  using assms by (auto simp: attempt_def Let_def)

lemma attempt_wait:
  assumes "state_for l k now = Inr b" and "cost \<le> token_capacity (bk_policy b)" and "0 < required_wait (refill b now) cost"
  shows "attempt k cost started now l =
    (Attempt_Wait (required_wait (refill b now) cost), l\<lparr>rl_states := dict_set k (refill b now) (rl_states l)\<rparr>)"
  using assms by (simp add: attempt_def Let_def dict_set_twice)

text \<open>The loop after a round that waits: the deadline refuses, or the second round grants.\<close>

lemma acquire_waits:
  assumes st: "state_for l k now = Inr b" and up: "bk_updated_at (refill b now) = now" and ok: "policy_ok (bk_policy b)"
    and pf: "policy_for l k = Some (bk_policy b)" and cost: "cost \<le> token_capacity (bk_policy b)"
    and pos: "0 < w" and w: "w = required_wait (refill b now) cost" and time: "\<And>t. timeout = Some t \<Longrightarrow> 0 \<le> t"
  defines "r \<equiv> fst (acquire_loop k cost timeout now [(now, \<lambda>x. x), (now + w, \<lambda>x. x)] l)"
  shows "if \<exists>t\<in>set_option timeout. t < w then r = Some (Inl (Rate_Timeout k (the timeout) w)) else granted_after w r"
proof -
  let ?l = "l\<lparr>rl_states := dict_set k (refill b now) (rl_states l)\<rparr>"
  have a: "attempt k cost now now l = (Attempt_Wait w, ?l)"
    unfolding w using st cost pos w by (intro attempt_wait) simp_all
  show ?thesis
  proof (cases "\<exists>t\<in>set_option timeout. t < w")
    case True
    then obtain t where t: "timeout = Some t" "t < w" by auto
    then show ?thesis using a True pos by (simp add: r_def deadline_error_def Let_def)
  next
    case False
    have none: "deadline_error k timeout now now w = None"
      using False time pos by (force simp: deadline_error_def Let_def split: option.splits)
    have st': "state_for ?l k (now + w) = Inr (refill b now)" using pf by (simp add: state_for_def)
    have "required_wait (refill (refill b now) (now + w)) cost \<le> 0"
      using refill_after_wait [of "refill b now" cost now w] ok up cost pos w by simp
    then obtain g l' where g: "attempt k cost now (now + w) ?l = (Attempt_Granted g, l')"
        "rg_waited g = max 0 (now + w - now)"
      using attempt_granted [OF st'] cost by (metis refill_policy)
    then show ?thesis using a none pos False by (simp add: r_def granted_after_def)
  qed
qed



end
