(* ===== verification/Model_Router.thy ===== *)
theory Model_Router
  imports Rate_Limit
begin

text \<open>
  The model router of \<open>core/governance.py\<close>: a registration for each role, and the fall back to the default
  role. Models are values of any type; \<open>None\<close> is the missing model. What \<open>select\<close> promises of the
  registrations is proved over every history of registrations.
\<close>

datatype model_role = Role_Default | Role_Planner | Role_Executor | Role_Reflection

definition model_role_of :: "string \<Rightarrow> model_role option" where
  "model_role_of v =
     (if v = ''default'' then Some Role_Default
      else if v = ''planner'' then Some Role_Planner
      else if v = ''executor'' then Some Role_Executor
      else if v = ''reflection'' then Some Role_Reflection
      else None)"

datatype router_error = Unknown_Model_Role string | Missing_Model | Model_Not_Configured model_role

text \<open>A role is given as the enumeration's member or as a text.\<close>

datatype role_argument = Role model_role | Role_Text string

definition role_of :: "role_argument \<Rightarrow> router_error + model_role" where
  "role_of a =
     (case a of
        Role r \<Rightarrow> Inr r
      | Role_Text s \<Rightarrow>
          let v = casefold (strip s) in
          case model_role_of v of Some r \<Rightarrow> Inr r | None \<Rightarrow> Inl (Unknown_Model_Role v))"

record 'm model_registration =
  mr_model :: 'm
  mr_provider :: "string option"
  mr_model_name :: "string option"

record 'm model_selection =
  ms_requested_role :: model_role
  ms_resolved_role :: model_role
  ms_used_default :: bool
  ms_model :: 'm
  ms_provider :: "string option"
  ms_model_name :: "string option"

type_synonym 'm model_router = "(model_role, 'm model_registration) pydict"

definition stripped_name :: "string option \<Rightarrow> string option" where
  "stripped_name n = (case n of None \<Rightarrow> None | Some s \<Rightarrow> if strip s = [] then None else Some (strip s))"

definition register_model ::
  "role_argument \<Rightarrow> 'm option \<Rightarrow> string option \<Rightarrow> string option \<Rightarrow> 'm model_router \<Rightarrow> router_error + 'm model_router" where
  "register_model role model provider model_name rt =
     bind_result (role_of role) (\<lambda>r.
       case model of
         None \<Rightarrow> Inl Missing_Model
       | Some m \<Rightarrow> Inr (dict_set r \<lparr>mr_model = m, mr_provider = stripped_name provider,
                                  mr_model_name = stripped_name model_name\<rparr> rt))"

definition new_router :: "'m option \<Rightarrow> 'm model_router" where
  "new_router m0 =
     (case m0 of
        None \<Rightarrow> []
      | Some m \<Rightarrow>
          (case register_model (Role Role_Default) (Some m) None None [] of Inr rt \<Rightarrow> rt | Inl e \<Rightarrow> []))"

definition unregister_model :: "role_argument \<Rightarrow> 'm model_router \<Rightarrow> router_error + bool \<times> 'm model_router" where
  "unregister_model role rt =
     bind_result (role_of role) (\<lambda>r. Inr (dict_has rt r, dict_del r rt))"

definition select_model :: "role_argument \<Rightarrow> 'm model_router \<Rightarrow> router_error + 'm model_selection" where
  "select_model role rt =
     bind_result (role_of role) (\<lambda>requested.
       let registration = dict_get rt requested;
           falls = registration = None \<and> requested \<noteq> Role_Default;
           registration' = (if falls then dict_get rt Role_Default else registration);
           resolved = (if falls then Role_Default else requested);
           used_default = (falls \<and> registration' \<noteq> None) in
       case registration' of
         None \<Rightarrow> Inl (Model_Not_Configured requested)
       | Some g \<Rightarrow> Inr \<lparr>ms_requested_role = requested, ms_resolved_role = resolved, ms_used_default = used_default,
                        ms_model = mr_model g, ms_provider = mr_provider g, ms_model_name = mr_model_name g\<rparr>)"

definition configured_roles :: "'m model_router \<Rightarrow> model_role list" where
  "configured_roles rt = filter (dict_has rt) [Role_Default, Role_Planner, Role_Executor, Role_Reflection]"

section \<open>Selections\<close>

text \<open>A selection's model is the one last registered for the role it resolved to; the default serves only
  roles that are known and have no registration of their own, and is reported.\<close>

lemma select_model_exact:
  "select_model role rt = bind_result (role_of role) (\<lambda>r.
     let t = (if dict_get rt r = None then Role_Default else r) in
     case dict_get rt t of
       None \<Rightarrow> Inl (Model_Not_Configured r)
     | Some g \<Rightarrow> Inr \<lparr>ms_requested_role = r, ms_resolved_role = t, ms_used_default = (t \<noteq> r),
                      ms_model = mr_model g, ms_provider = mr_provider g, ms_model_name = mr_model_name g\<rparr>)"
  by (cases "role_of role") (auto simp: select_model_def Let_def split: option.splits)

lemma register_then_select:
  assumes "register_model role model provider name rt = Inr rt'" and "role_of role = Inr r"
    and "select_model role' rt' = Inr s" and "role_of role' = Inr r"
  shows "model = Some (ms_model s) \<and> \<not> ms_used_default s"
  using assms
  by (auto simp: register_model_def select_model_def bind_result_Inr_iff Let_def split: option.splits)

lemma unknown_roles_raise:
  "role_of role = Inl e \<Longrightarrow> select_model role rt = Inl e \<and> register_model role m p n rt = Inl e \<and> unregister_model role rt = Inl e"
  by (simp add: select_model_def register_model_def unregister_model_def)

text \<open>What one role is registered with never changes what another registered role gets.\<close>

lemma register_isolated:
  assumes "register_model role model provider name rt = Inr rt'" and "role_of role = Inr r"
    and "role_of role' = Inr r'" and "r \<noteq> r'" and "dict_get rt r' \<noteq> None"
  shows "select_model role' rt' = select_model role' rt"
  using assms by (auto simp: register_model_def select_model_def bind_result_Inr_iff Let_def split: option.splits)

end
