(* ===== verification/Approval_Broker.thy ===== *)
theory Approval_Broker
  imports Rate_Limit
begin

text \<open>
  The approval of the primary agent's risky calls, \<open>core/safety/approval.py\<close>: the cache of risk levels
  that are always allowed, and the broker of the web interface, whose requests wait for a decision
  that arrives by another request. Requests, decisions, timeouts and cancellations interleave as
  commands. A waiting call has a number, the \<open>asyncio.Event\<close> it waits on; event loops are numbers too.
\<close>

datatype risk_level = READ | WRITE | DANGER

datatype approval_answer = APPROVED | REJECTED | ALLOW_ONCE | ALWAYS_ALLOW_LEVEL

definition approval_answer_of :: "string \<Rightarrow> approval_answer option" where
  "approval_answer_of v =
     (if v = ''approved'' then Some APPROVED
      else if v = ''rejected'' then Some REJECTED
      else if v = ''allow_once'' then Some ALLOW_ONCE
      else if v = ''always_allow_level'' then Some ALWAYS_ALLOW_LEVEL
      else None)"

record tool_approval =
  ta_tool_name :: string
  ta_risk :: risk_level
  ta_approval_id :: string
  ta_gate_blocked_paths :: "string list"

text \<open>The answers of the terminal.\<close>

definition tui_answer :: "string option \<Rightarrow> approval_answer" where
  "tui_answer line =
     (let answer = (case line of Some l \<Rightarrow> lower (strip l) | None \<Rightarrow> ''n'') in
      if answer \<in> {''y'', ''yes''} then APPROVED
      else if answer \<in> {''o'', ''once''} then ALLOW_ONCE
      else if answer \<in> {''a'', ''always''} then ALWAYS_ALLOW_LEVEL
      else REJECTED)"

section \<open>The broker\<close>

record waiting_call =
  wc_number :: nat
  wc_request :: tool_approval
  wc_event_set :: bool

record sse_broker =
  sb_always_allowed :: "risk_level list"
  sb_pending :: "(string, nat) pydict"
  sb_pending_loops :: "(string, nat) pydict"
  sb_decisions :: "(string, approval_answer) pydict"
  sb_waiting :: "waiting_call list"
  sb_next :: nat
  sb_posted :: "(string \<times> approval_answer) list"

definition new_broker :: sse_broker where
  "new_broker = \<lparr>sb_always_allowed = [], sb_pending = [], sb_pending_loops = [], sb_decisions = [],
     sb_waiting = [], sb_next = 0, sb_posted = []\<rparr>"

definition is_level_always_allowed :: "sse_broker \<Rightarrow> risk_level \<Rightarrow> bool" where
  "is_level_always_allowed b r \<longleftrightarrow> r \<in> set (sb_always_allowed b)"

definition gate_escalated :: "tool_approval \<Rightarrow> bool" where
  "gate_escalated q \<longleftrightarrow> ta_gate_blocked_paths q \<noteq> []"

text \<open>What is observed: a request that waits, a decision that was accepted for an id, and the answer to
  a request, from the cache or from the wait.\<close>

datatype approval_event =
    Asked tool_approval
  | Resolved string approval_answer
  | Cached tool_approval
  | Answered tool_approval approval_answer

text \<open>The first half of a request: the cache, or the registration of the wait.\<close>

definition begin_request :: "tool_approval \<Rightarrow> nat \<Rightarrow> sse_broker \<Rightarrow> approval_event list \<times> sse_broker" where
  "begin_request q loop b =
     (if is_level_always_allowed b (ta_risk q) \<and> \<not> gate_escalated q then ([Cached q], b)
      else
        ([Asked q],
         b\<lparr>sb_pending := dict_set (ta_approval_id q) (sb_next b) (sb_pending b),
           sb_pending_loops := dict_set (ta_approval_id q) loop (sb_pending_loops b),
           sb_waiting := sb_waiting b @ [\<lparr>wc_number = sb_next b, wc_request = q, wc_event_set = False\<rparr>],
           sb_next := sb_next b + 1\<rparr>))"

text \<open>The \<open>finally\<close> of the wait.\<close>

definition leave_wait :: "waiting_call \<Rightarrow> sse_broker \<Rightarrow> sse_broker" where
  "leave_wait c b =
     (let i = ta_approval_id (wc_request c) in
      b\<lparr>sb_pending := dict_del i (sb_pending b), sb_pending_loops := dict_del i (sb_pending_loops b),
        sb_decisions := dict_del i (sb_decisions b),
        sb_waiting := filter (\<lambda>x. wc_number x \<noteq> wc_number c) (sb_waiting b)\<rparr>)"

definition waiting_of :: "sse_broker \<Rightarrow> nat \<Rightarrow> waiting_call option" where
  "waiting_of b n = find (\<lambda>x. wc_number x = n) (sb_waiting b)"

text \<open>The second half: the answer, and what the cache learns from it.\<close>

definition end_request :: "waiting_call \<Rightarrow> approval_answer \<Rightarrow> sse_broker \<Rightarrow> approval_event list \<times> sse_broker" where
  "end_request c a b =
     (let q = wc_request c; b1 = leave_wait c b in
      ([Answered q a],
       if a = ALWAYS_ALLOW_LEVEL \<and> \<not> gate_escalated q
       then b1\<lparr>sb_always_allowed := List.insert (ta_risk q) (sb_always_allowed b1)\<rparr>
       else b1))"

definition wake :: "nat \<Rightarrow> sse_broker \<Rightarrow> approval_event list \<times> sse_broker" where
  "wake n b =
     (case waiting_of b n of
        None \<Rightarrow> ([], b)
      | Some c \<Rightarrow>
          if wc_event_set c
          then end_request c (dict_get_or (sb_decisions b) (ta_approval_id (wc_request c)) REJECTED) b
          else ([], b))"

text \<open>The deadline has passed; an event that is set wins.\<close>

definition deadline :: "nat \<Rightarrow> sse_broker \<Rightarrow> approval_event list \<times> sse_broker" where
  "deadline n b =
     (case waiting_of b n of
        None \<Rightarrow> ([], b)
      | Some c \<Rightarrow> if wc_event_set c then wake n b else end_request c REJECTED b)"

definition cancel_wait :: "nat \<Rightarrow> sse_broker \<Rightarrow> approval_event list \<times> sse_broker" where
  "cancel_wait n b = (case waiting_of b n of None \<Rightarrow> ([], b) | Some c \<Rightarrow> ([], leave_wait c b))"

definition resolve_on_owner_loop :: "string \<Rightarrow> approval_answer \<Rightarrow> sse_broker \<Rightarrow> sse_broker" where
  "resolve_on_owner_loop i a b =
     (case dict_get (sb_pending b) i of
        None \<Rightarrow> b
      | Some n \<Rightarrow>
          b\<lparr>sb_decisions := dict_set i a (sb_decisions b),
            sb_waiting := map (\<lambda>x. if wc_number x = n then x\<lparr>wc_event_set := True\<rparr> else x) (sb_waiting b)\<rparr>)"

text \<open>The loop of the caller, if it has one, and whether the owner's loop runs.\<close>

definition resolve :: "string \<Rightarrow> string \<Rightarrow> nat option \<Rightarrow> bool \<Rightarrow> sse_broker \<Rightarrow> bool \<times> sse_broker" where
  "resolve i decision current_loop owner_running b =
     (case dict_get (sb_pending b) i of
        None \<Rightarrow> (False, b)
      | Some n \<Rightarrow>
          let resolved = (case approval_answer_of decision of Some a \<Rightarrow> a | None \<Rightarrow> REJECTED);
              owner = dict_get (sb_pending_loops b) i in
          if owner \<noteq> None \<and> owner \<noteq> current_loop then
            (if \<not> owner_running then (False, b)
             else (True, b\<lparr>sb_posted := sb_posted b @ [(i, resolved)]\<rparr>))
          else (True, resolve_on_owner_loop i resolved b))"

datatype broker_cmd =
    Request_Approval tool_approval nat
  | Resolve_Approval string string "nat option" bool
  | Run_Posted
  | Wake nat
  | Deadline nat
  | Cancel_Wait nat

definition broker_step :: "sse_broker \<Rightarrow> broker_cmd \<Rightarrow> approval_event list \<times> sse_broker" where
  "broker_step b c =
     (case c of
        Request_Approval q loop \<Rightarrow> begin_request q loop b
      | Resolve_Approval i decision current owner_running \<Rightarrow>
          (case resolve i decision current owner_running b of
             (True, b1) \<Rightarrow> ([Resolved i (case approval_answer_of decision of Some a \<Rightarrow> a | None \<Rightarrow> REJECTED)], b1)
           | (False, b1) \<Rightarrow> ([], b1))
      | Run_Posted \<Rightarrow>
          (case sb_posted b of
             [] \<Rightarrow> ([], b)
           | (i, a) # rest \<Rightarrow> ([], resolve_on_owner_loop i a (b\<lparr>sb_posted := rest\<rparr>)))
      | Wake n \<Rightarrow> wake n b
      | Deadline n \<Rightarrow> deadline n b
      | Cancel_Wait n \<Rightarrow> cancel_wait n b)"

section \<open>Which calls need an approval\<close>

text \<open>The decision of \<open>SensitiveActionPolicy\<close> in \<open>core/governance.py\<close>. The classifiers of the safety policy
  are inputs: the risk of the action, whether it is a shell action or exempt from the path gate, and
  which paths may be written.\<close>

datatype policy_outcome = ALLOW | REQUIRE_APPROVAL | DENY | DRY_RUN

record sensitive_action =
  sa_action :: string
  sa_risk :: risk_level
  sa_minimum_risk :: "risk_level option"
  sa_shell :: bool
  sa_gate_exempt :: bool
  sa_paths :: "string list option"
  sa_explicit_command :: bool
  sa_plan_mode :: bool

record safety_config =
  sc_enabled :: bool
  sc_dry_run :: bool
  sc_auto_approve :: "string list"
  sc_write_allowed :: "string \<Rightarrow> bool"

record policy_verdict =
  pv_risk :: risk_level
  pv_outcome :: policy_outcome
  pv_reason :: string
  pv_approval :: string

definition risk_number :: "risk_level \<Rightarrow> nat" where
  "risk_number r = (case r of READ \<Rightarrow> 0 | WRITE \<Rightarrow> 1 | DANGER \<Rightarrow> 2)"

definition risk_name :: "risk_level \<Rightarrow> string" where
  "risk_name r = (case r of READ \<Rightarrow> ''read'' | WRITE \<Rightarrow> ''write'' | DANGER \<Rightarrow> ''danger'')"

definition effective_risk :: "sensitive_action \<Rightarrow> risk_level" where
  "effective_risk a =
     (case sa_minimum_risk a of
        None \<Rightarrow> sa_risk a
      | Some m \<Rightarrow> if risk_number m > risk_number (sa_risk a) then m else sa_risk a)"

text \<open>The values under the path keys of a dict of arguments, in the order of the keys; \<open>None\<close> for
  arguments that are no dict. The levels of the configuration are compared without case.\<close>

definition decide_action :: "sensitive_action \<Rightarrow> safety_config \<Rightarrow> policy_verdict option" where
  "decide_action a c =
     (if strip (sa_action a) = [] then None
      else
        let risk = effective_risk a;
            verdict = (\<lambda>x y z. Some \<lparr>pv_risk = risk, pv_outcome = x, pv_reason = y, pv_approval = z\<rparr>);
            writes = risk_number risk \<ge> risk_number WRITE in
        if sa_plan_mode a \<and> writes then verdict DENY ''plan_mode_read_only'' ''rejected''
        else if \<not> sc_enabled c then verdict ALLOW ''safety_disabled'' ''safety_disabled''
        else if writes \<and> \<not> sa_gate_exempt a \<and>
            (case sa_paths a of None \<Rightarrow> False | Some ps \<Rightarrow> list_ex (\<lambda>p. p \<noteq> [] \<and> \<not> sc_write_allowed c p) ps)
          then verdict DENY ''write_path_not_allowed'' ''rejected''
        else if writes \<and> sc_dry_run c then verdict DRY_RUN ''dry_run'' ''dry_run''
        else if risk = READ \<and> \<not> sa_shell a then verdict ALLOW ''read_only'' ''auto''
        else if sa_explicit_command a then verdict ALLOW ''explicit_command'' ''explicit_command''
        else if risk_name risk \<in> set (map (\<lambda>l. casefold (strip l)) (sc_auto_approve c))
          then verdict ALLOW ''auto_approved_risk'' ''auto''
        else verdict REQUIRE_APPROVAL ''approval_required'' ''required'')"

definition resolve_verdict :: "policy_verdict \<Rightarrow> bool \<Rightarrow> string option \<Rightarrow> policy_verdict option" where
  "resolve_verdict v approved approval =
     (if pv_outcome v \<noteq> REQUIRE_APPROVAL then None
      else if approved then
        Some (v\<lparr>pv_outcome := ALLOW, pv_reason := ''user_approved'',
                pv_approval := (case approval of Some t \<Rightarrow> if t \<noteq> [] then t else ''approved'' | None \<Rightarrow> ''approved'')\<rparr>)
      else Some (v\<lparr>pv_outcome := DENY, pv_reason := ''user_rejected'', pv_approval := ''rejected''\<rparr>))"

end
