(* ===== verification/Approval_Broker_Correct.thy ===== *)
theory Approval_Broker_Correct
  imports Approval_Broker
begin

text \<open>
  However requests, decisions, timeouts and cancellations interleave, an answer that lets a call run
  was decided for that request, or comes from a level that was always allowed by such an answer; a
  request that passed the write gate's blocked paths is never served from the cache. Writing actions
  of the policy pass only with the user, the configuration or the switch that turns safety off.
\<close>

section \<open>Answers are decided\<close>

text \<open>The decision was accepted after a request with the id had been asked.\<close>

definition resolved_for :: "approval_event list \<Rightarrow> string \<Rightarrow> approval_answer \<Rightarrow> bool" where
  "resolved_for h i a \<longleftrightarrow>
     (\<exists>ys zs ws q. h = ys @ Asked q # zs @ Resolved i a # ws \<and> ta_approval_id q = i)"

lemma resolved_for_append: "resolved_for h i a \<Longrightarrow> resolved_for (h @ es) i a"
  unfolding resolved_for_def by (metis append_Cons append_assoc)

lemma resolved_for_snoc:
  assumes "Asked q \<in> set h"
  shows "resolved_for (h @ [Resolved (ta_approval_id q) a]) (ta_approval_id q) a"
  using split_list [OF assms] unfolding resolved_for_def by fastforce

text \<open>The level was always allowed by an answer to a request that no gate had escalated.\<close>

definition level_granted :: "approval_event list \<Rightarrow> risk_level \<Rightarrow> bool" where
  "level_granted h r \<longleftrightarrow> (\<exists>q. Answered q ALWAYS_ALLOW_LEVEL \<in> set h \<and> \<not> gate_escalated q \<and> ta_risk q = r)"

definition justified :: "approval_event list \<Rightarrow> approval_event \<Rightarrow> bool" where
  "justified h e \<longleftrightarrow>
     (case e of
        Answered q a \<Rightarrow> Asked q \<in> set h \<and> (a \<noteq> REJECTED \<longrightarrow> resolved_for h (ta_approval_id q) a)
      | Cached q \<Rightarrow> \<not> gate_escalated q \<and> level_granted h (ta_risk q)
      | _ \<Rightarrow> True)"

definition broker_inv :: "sse_broker \<Rightarrow> approval_event list \<Rightarrow> bool" where
  "broker_inv b h \<longleftrightarrow>
     (\<forall>i a. dict_get (sb_decisions b) i = Some a \<longrightarrow> resolved_for h i a) \<and>
     (\<forall>(i, a)\<in>set (sb_posted b). resolved_for h i a) \<and>
     (\<forall>i n. dict_get (sb_pending b) i = Some n \<longrightarrow> (\<exists>q. Asked q \<in> set h \<and> ta_approval_id q = i)) \<and>
     (\<forall>c\<in>set (sb_waiting b). Asked (wc_request c) \<in> set h) \<and>
     (\<forall>r\<in>set (sb_always_allowed b). level_granted h r) \<and>
     prefix_all justified h"

lemma level_granted_append: "level_granted h r \<Longrightarrow> level_granted (h @ es) r"
  by (auto simp: level_granted_def)

lemma broker_inv_later:
  assumes "broker_inv b h" and "justified h e"
  shows "broker_inv b (h @ [e])"
  using assms unfolding broker_inv_def
  by (auto intro: resolved_for_append level_granted_append)

lemma waiting_of_SomeD: "waiting_of b n = Some c \<Longrightarrow> c \<in> set (sb_waiting b)"
  by (auto simp: waiting_of_def find_Some_iff)

lemma leave_wait_inv: "broker_inv b h \<Longrightarrow> broker_inv (leave_wait c b) h"
  by (auto simp: broker_inv_def leave_wait_def Let_def split: if_splits)

lemma end_request_inv:
  assumes inv: "broker_inv b h" and c: "c \<in> set (sb_waiting b)"
    and a: "a \<noteq> REJECTED \<longrightarrow> resolved_for h (ta_approval_id (wc_request c)) a"
    and st: "end_request c a b = (es, b')"
  shows "broker_inv b' (h @ es)"
proof -
  have es: "es = [Answered (wc_request c) a]" using st by (simp add: end_request_def Let_def)
  have "justified h (Answered (wc_request c) a)" using inv c a by (simp add: justified_def broker_inv_def)
  then have i: "broker_inv (leave_wait c b) (h @ es)" unfolding es by (rule broker_inv_later [OF leave_wait_inv [OF inv]])
  show ?thesis
  proof (cases "a = ALWAYS_ALLOW_LEVEL \<and> \<not> gate_escalated (wc_request c)")
    case True
    then have "level_granted (h @ es) (ta_risk (wc_request c))" by (auto simp: es level_granted_def)
    moreover have "b' = (leave_wait c b)\<lparr>sb_always_allowed :=
        List.insert (ta_risk (wc_request c)) (sb_always_allowed (leave_wait c b))\<rparr>"
      using st True by (simp add: end_request_def Let_def)
    ultimately show ?thesis using i by (simp add: broker_inv_def)
  next
    case False
    then have "b' = leave_wait c b" using st by (auto simp: end_request_def Let_def)
    then show ?thesis using i by simp
  qed
qed

lemma resolve_on_loop_inv:
  assumes "broker_inv b h" and "resolved_for h i a"
  shows "broker_inv (resolve_on_owner_loop i a b) h"
  using assms by (auto simp: broker_inv_def resolve_on_owner_loop_def split: option.splits if_splits)

lemma wake_inv:
  assumes inv: "broker_inv b h" and st: "wake n b = (es, b')"
  shows "broker_inv b' (h @ es)"
proof (cases "waiting_of b n")
  case None
  then show ?thesis using inv st by (simp add: wake_def)
next
  case (Some c)
  show ?thesis
  proof (cases "wc_event_set c")
    case False
    then show ?thesis using inv st Some by (simp add: wake_def)
  next
    case True
    let ?i = "ta_approval_id (wc_request c)"
    have "resolved_for h ?i (dict_get_or (sb_decisions b) ?i REJECTED)"
      if "dict_get_or (sb_decisions b) ?i REJECTED \<noteq> REJECTED"
      using inv that by (auto simp: broker_inv_def dict_get_or_def split: option.splits)
    moreover have "end_request c (dict_get_or (sb_decisions b) ?i REJECTED) b = (es, b')"
      using st Some True by (simp add: wake_def)
    ultimately show ?thesis using end_request_inv [OF inv waiting_of_SomeD [OF Some]] by blast
  qed
qed

lemma begin_request_inv:
  assumes inv: "broker_inv b h" and st: "begin_request q loop b = (es, b')"
  shows "broker_inv b' (h @ es)"
proof (cases "is_level_always_allowed b (ta_risk q) \<and> \<not> gate_escalated q")
  case True
  then have "justified h (Cached q)" using inv by (auto simp: justified_def broker_inv_def is_level_always_allowed_def)
  then show ?thesis using st True broker_inv_later [OF inv] by (auto simp: begin_request_def)
next
  case False
  let ?h = "h @ [Asked q]"
  have i: "broker_inv b ?h" by (rule broker_inv_later [OF inv]) (simp add: justified_def)
  have "es = [Asked q]" and b': "b' = b\<lparr>sb_pending := dict_set (ta_approval_id q) (sb_next b) (sb_pending b),
      sb_pending_loops := dict_set (ta_approval_id q) loop (sb_pending_loops b),
      sb_waiting := sb_waiting b @ [\<lparr>wc_number = sb_next b, wc_request = q, wc_event_set = False\<rparr>],
      sb_next := sb_next b + 1\<rparr>"
    using st False by (auto simp: begin_request_def)
  moreover have "\<exists>q'. Asked q' \<in> set ?h \<and> ta_approval_id q' = j"
    if "dict_get (dict_set (ta_approval_id q) (sb_next b) (sb_pending b)) j = Some n" for j n
  proof (cases "j = ta_approval_id q")
    case True
    then show ?thesis by (intro exI [of _ q]) simp
  next
    case False
    then show ?thesis using i that unfolding broker_inv_def by (simp only: dict_lookup if_False)
  qed
  ultimately show ?thesis using i unfolding broker_inv_def b' by simp
qed

lemma resolve_inv:
  assumes inv: "broker_inv b h" and st: "broker_step b (Resolve_Approval i d cur run_ok) = (es, b')"
  shows "broker_inv b' (h @ es)"
proof -
  define a where "a = (case approval_answer_of d of Some a \<Rightarrow> a | None \<Rightarrow> REJECTED)"
  obtain r b1 where res: "resolve i d cur run_ok b = (r, b1)" by force
  show ?thesis
  proof (cases r)
    case False
    then have "b1 = b" using res by (auto simp: resolve_def Let_def split: option.splits if_splits)
    then show ?thesis using st res False inv by (simp add: broker_step_def)
  next
    case True
    then obtain n where n: "dict_get (sb_pending b) i = Some n"
      using res by (auto simp: resolve_def split: option.splits)
    then obtain q where q: "Asked q \<in> set h" "ta_approval_id q = i" using inv by (auto simp: broker_inv_def)
    have es: "es = [Resolved i a]" "b' = b1" using st res True by (simp_all add: broker_step_def a_def)
    have i: "broker_inv b (h @ es)" unfolding es by (rule broker_inv_later [OF inv]) (simp add: justified_def)
    have f: "resolved_for (h @ es) i a" using resolved_for_snoc [OF q(1)] q(2) es by simp
    have "b1 = b\<lparr>sb_posted := sb_posted b @ [(i, a)]\<rparr> \<or> b1 = resolve_on_owner_loop i a b"
      using res True n by (auto simp: resolve_def Let_def a_def split: if_splits)
    then show ?thesis
    proof
      assume "b1 = b\<lparr>sb_posted := sb_posted b @ [(i, a)]\<rparr>"
      then show ?thesis using i f es by (simp add: broker_inv_def)
    next
      assume "b1 = resolve_on_owner_loop i a b"
      then show ?thesis using resolve_on_loop_inv [OF i f] es by simp
    qed
  qed
qed

lemma broker_step_inv:
  assumes inv: "broker_inv b h" and st: "broker_step b c = (es, b')"
  shows "broker_inv b' (h @ es)"
proof (cases c)
  case (Request_Approval q loop)
  then show ?thesis using begin_request_inv [OF inv] st by (simp add: broker_step_def)
next
  case (Resolve_Approval i d cur r)
  then show ?thesis using resolve_inv [OF inv] st by simp
next
  case Run_Posted
  show ?thesis
  proof (cases "sb_posted b")
    case Nil
    then show ?thesis using inv st Run_Posted by (simp add: broker_step_def)
  next
    case (Cons p rest)
    obtain i a where p: "p = (i, a)" by (cases p)
    have "broker_inv (b\<lparr>sb_posted := rest\<rparr>) h" "resolved_for h i a"
      using inv Cons p by (auto simp: broker_inv_def)
    then show ?thesis using resolve_on_loop_inv st Run_Posted Cons p by (auto simp: broker_step_def)
  qed
next
  case (Wake n)
  then show ?thesis using wake_inv [OF inv] st by (simp add: broker_step_def)
next
  case (Deadline n)
  then have "deadline n b = (es, b')" using st by (simp add: broker_step_def)
  then show ?thesis
    using inv wake_inv [OF inv] end_request_inv [OF inv waiting_of_SomeD, of n _ REJECTED]
    by (auto simp: deadline_def split: option.splits if_splits)
next
  case (Cancel_Wait n)
  then show ?thesis using st inv leave_wait_inv [OF inv]
    by (auto simp: broker_step_def cancel_wait_def split: option.splits)
qed

interpretation broker: logged_machine broker_step broker_inv "\<lambda>c. True"
  by unfold_locales (rule broker_step_inv)

text \<open>
  C20. In every run of the broker, an answer other than a rejection was accepted for the id of the
  request after a request with that id was asked, and an answer from the cache goes to a request that no
  gate escalated, whose level an earlier such request was answered to always allow.\<close>

theorem approvals_justified:
  assumes "run_obs broker_step new_broker cmds = (events, b)" and "events = before @ e # after"
  shows "justified before e"
proof -
  have "broker_inv new_broker []" by (simp add: broker_inv_def new_broker_def)
  then have "broker_inv b ([] @ events)" by (rule broker.run_logged [OF _ _ assms(1)]) simp
  then show ?thesis using assms(2) by (auto simp: broker_inv_def intro: prefix_allD)
qed

definition sample_approval :: "string \<Rightarrow> string list \<Rightarrow> tool_approval" where
  "sample_approval i paths = \<lparr>ta_tool_name = ''bash'', ta_risk = DANGER, ta_approval_id = i, ta_gate_blocked_paths = paths\<rparr>"

lemma approvals_justified_witness:
  "justified [Asked (sample_approval ''a'' []), Resolved ''a'' ALWAYS_ALLOW_LEVEL, Answered (sample_approval ''a'' []) ALWAYS_ALLOW_LEVEL,
      Asked (sample_approval ''b'' [''/etc''])] (Cached (sample_approval ''c'' []))"
proof -
  let ?cmds = "[Request_Approval (sample_approval ''a'' []) 1, Resolve_Approval ''a'' ''always_allow_level'' None True, Run_Posted,
      Wake 0, Request_Approval (sample_approval ''b'' [''/etc'']) 1, Request_Approval (sample_approval ''c'' []) 1]"
  have ev: "fst (run_obs broker_step new_broker ?cmds) =
      [Asked (sample_approval ''a'' []), Resolved ''a'' ALWAYS_ALLOW_LEVEL, Answered (sample_approval ''a'' []) ALWAYS_ALLOW_LEVEL,
       Asked (sample_approval ''b'' [''/etc''])] @ [Cached (sample_approval ''c'' [])]"
    by code_simp
  obtain events b where r: "run_obs broker_step new_broker ?cmds = (events, b)" by force
  show ?thesis using approvals_justified [OF r, of _ _ "[]"] ev r by simp
qed

text \<open>A decision posted to the loop of a request that times out before the post runs is reported as
  accepted, and the request is rejected; a second decision before the request wakes replaces the first.\<close>

lemma accepted_decision_lost:
  "fst (run_obs broker_step new_broker
     [Request_Approval (sample_approval ''a'' []) 1, Resolve_Approval ''a'' ''approved'' None True, Deadline 0, Run_Posted]) =
   [Asked (sample_approval ''a'' []), Resolved ''a'' APPROVED, Answered (sample_approval ''a'' []) REJECTED]"
  by code_simp

lemma second_decision_wins:
  "fst (run_obs broker_step new_broker
     [Request_Approval (sample_approval ''a'' []) 1, Resolve_Approval ''a'' ''rejected'' (Some 1) True,
      Resolve_Approval ''a'' ''approved'' (Some 1) True, Wake 0]) =
   [Asked (sample_approval ''a'' []), Resolved ''a'' REJECTED, Resolved ''a'' APPROVED, Answered (sample_approval ''a'' []) APPROVED]"
  by code_simp

section \<open>The policy\<close>

text \<open>An action that writes is allowed only outside the plan mode, and, while safety is on, only by the
  user's own command or a level the configuration approves, with every path allowed and no dry run.\<close>

lemma policy_allows_writes_iff:
  assumes "decide_action a c = Some v" and "effective_risk a \<noteq> READ"
  shows "pv_outcome v = ALLOW \<longleftrightarrow>
    \<not> sa_plan_mode a \<and>
    (\<not> sc_enabled c \<or>
     \<not> sc_dry_run c \<and>
     (sa_gate_exempt a \<or> (\<forall>ps p. sa_paths a = Some ps \<longrightarrow> p \<in> set ps \<longrightarrow> p \<noteq> [] \<longrightarrow> sc_write_allowed c p)) \<and>
     (sa_explicit_command a \<or> risk_name (effective_risk a) \<in> set (map (\<lambda>l. casefold (strip l)) (sc_auto_approve c))))"
proof -
  have "risk_number (effective_risk a) \<ge> risk_number WRITE"
    using assms(2) by (cases "effective_risk a") (simp_all add: risk_number_def)
  moreover have "strip (sa_action a) \<noteq> []" using assms(1) by (auto simp: decide_action_def)
  ultimately show ?thesis
    using assms by (cases "sa_paths a") (auto simp: decide_action_def Let_def list_ex_iff split: if_splits)
qed

text \<open>A shell command is never waved through as a reading action, and a raised minimum never lowers the
  risk.\<close>

lemma shell_reads_ask:
  assumes "decide_action a c = Some v" and "sa_shell a" and "sc_enabled c" and "pv_outcome v = ALLOW"
  shows "sa_explicit_command a \<or> risk_name (effective_risk a) \<in> set (map (\<lambda>l. casefold (strip l)) (sc_auto_approve c))"
  using assms by (auto simp: decide_action_def Let_def split: if_splits)

lemma effective_risk_raises: "risk_number (sa_risk a) \<le> risk_number (effective_risk a)"
  by (auto simp: effective_risk_def split: option.splits)

text \<open>A pending verdict is resolved once.\<close>

lemma resolve_verdict_once:
  assumes "resolve_verdict v approved by_text = Some v'"
  shows "(pv_outcome v' = ALLOW \<longleftrightarrow> approved) \<and> resolve_verdict v' again other = None"
  using assms by (auto simp: resolve_verdict_def split: if_splits)

end
