(* ===== verification/Loop_Control.thy ===== *)
theory Loop_Control
  imports Machine
begin

text \<open>
  When the tool loop of the primary agent stops: the detector of repeated calls of
  \<open>core/stuck_detector.py\<close> and the exit decision of \<open>core/loop_exit.py\<close>. A call's arguments appear as
  their fingerprint, the sorted JSON text. The regular expressions that read an answer match Chinese
  and English phrases; what each of them says of the answer is an input, \<open>answer_signals\<close>. The
  text of the stuck reason is the pair of its numbers, and one reason of the exit decision lacks its
  Chinese half.
\<close>

section \<open>The detector of repeated calls\<close>

type_synonym tool_signature = "string \<times> string"
type_synonym tool_round = "string \<times> string \<times> bool"

record stuck_detector =
  sd_threshold :: nat
  sd_history :: "tool_round list"
  sd_stuck_reason :: "(nat \<times> nat) option"

definition new_detector :: "int \<Rightarrow> stuck_detector option" where
  "new_detector threshold =
     (if threshold < 2 then None
      else Some \<lparr>sd_threshold = nat threshold, sd_history = [], sd_stuck_reason = None\<rparr>)"

definition detector_reset :: "stuck_detector \<Rightarrow> stuck_detector" where
  "detector_reset d = d\<lparr>sd_history := [], sd_stuck_reason := None\<rparr>"

definition last_rounds :: "nat \<Rightarrow> 'a list \<Rightarrow> 'a list" where
  "last_rounds n h = drop (length h - n) h"

definition call_signature :: "tool_round \<Rightarrow> tool_signature" where
  "call_signature r = (case r of (name, fp, failed) \<Rightarrow> (name, fp))"

definition round_failed :: "tool_round \<Rightarrow> bool" where
  "round_failed r = (case r of (name, fp, failed) \<Rightarrow> failed)"

definition round_tool :: "tool_round \<Rightarrow> string" where
  "round_tool r = (case r of (name, fp, failed) \<Rightarrow> name)"

definition detect_repetition :: "nat \<Rightarrow> tool_round list \<Rightarrow> bool" where
  "detect_repetition t h = (if length h < t then False else card (set (map call_signature (last_rounds t h))) = 1)"

text \<open>One period of the search: the cycle is the beginning of the tail.\<close>

definition period_matches :: "tool_signature list \<Rightarrow> nat \<Rightarrow> bool" where
  "period_matches tail p =
     (let cycle = take p tail in
      if card (set cycle) < 2 then False
      else list_all (\<lambda>i. tail ! i = cycle ! (i mod p)) [0..<length tail])"

definition detect_alternation :: "nat \<Rightarrow> tool_round list \<Rightarrow> bool" where
  "detect_alternation t h =
     (if length h < 2 * t then False
      else list_ex (period_matches (map call_signature (last_rounds (2 * t) h))) [2..<t + 1])"

definition detect_failures :: "nat \<Rightarrow> tool_round list \<Rightarrow> bool" where
  "detect_failures t h =
     (if length h < t then False
      else let tail = last_rounds t h in
        list_all round_failed tail \<and> card (set (map round_tool tail)) = 1)"

definition detector_record :: "string \<Rightarrow> string \<Rightarrow> bool \<Rightarrow> stuck_detector \<Rightarrow> bool \<times> stuck_detector" where
  "detector_record name fp failed d =
     (let h = sd_history d @ [(name, fp, failed)]; t = sd_threshold d; d1 = d\<lparr>sd_history := h\<rparr> in
      if detect_repetition t h \<or> detect_alternation t h \<or> detect_failures t h
      then (True, d1\<lparr>sd_stuck_reason := Some (length h, t)\<rparr>)
      else (False, d1))"

definition is_stuck :: "stuck_detector \<Rightarrow> bool" where
  "is_stuck d \<longleftrightarrow> sd_stuck_reason d \<noteq> None"

definition record_round :: "stuck_detector \<Rightarrow> tool_round \<Rightarrow> bool list \<times> stuck_detector" where
  "record_round d r = (case r of (name, fp, failed) \<Rightarrow> (case detector_record name fp failed d of (b, d') \<Rightarrow> ([b], d')))"

section \<open>The exit decision\<close>

definition ERROR_LIMIT :: int where "ERROR_LIMIT = 5"

datatype react_exit = TASK_COMPLETE | FINAL_ANSWER_CALL | ERROR_LIMIT_EXIT | LLM_REQUESTS_EXIT

record react_decision =
  rd_exit :: "react_exit option"
  rd_drop_tools :: bool
  rd_reason :: string

text \<open>What the regular expressions find in the stripped answer, and whether the user's request is a
  preview task.\<close>

record answer_signals =
  as_final_answer :: bool
  as_task_complete :: bool
  as_llm_exit :: bool
  as_quoted_result :: bool
  as_incomplete_build :: bool
  as_preview_task :: bool

definition dash_to_underscore :: "string \<Rightarrow> string" where
  "dash_to_underscore = map (\<lambda>c. if c = CHR ''-'' then CHR ''_'' else c)"

definition is_final_answer_tool :: "string \<Rightarrow> bool" where
  "is_final_answer_tool name =
     (dash_to_underscore (lower (strip name)) = ''final_answer'' \<or>
      lower (strip name) \<in> {''final_answer'', ''final-answer''})"

definition has_final_answer_call :: "string list \<Rightarrow> bool" where
  "has_final_answer_call calls = list_ex is_final_answer_tool calls"

fun drop_tools_after_final_answer :: "string list \<Rightarrow> string list" where
  "drop_tools_after_final_answer [] = []"
| "drop_tools_after_final_answer (c # cs) =
     (if is_final_answer_tool c then [c] else c # drop_tools_after_final_answer cs)"

definition bump_consecutive_errors :: "int \<Rightarrow> bool \<Rightarrow> int" where
  "bump_consecutive_errors count failed = (if \<not> failed then 0 else count + 1)"

definition claimed_final_answer :: "answer_signals \<Rightarrow> bool" where
  "claimed_final_answer a \<longleftrightarrow> as_final_answer a \<or> as_task_complete a \<or> as_llm_exit a"

definition react_exit_should_stop :: "react_decision \<Rightarrow> bool \<Rightarrow> bool" where
  "react_exit_should_stop d write_still_required =
     (case rd_exit d of
        None \<Rightarrow> False
      | Some e \<Rightarrow>
          if e = ERROR_LIMIT_EXIT then True
          else if write_still_required \<and> e \<in> {FINAL_ANSWER_CALL, TASK_COMPLETE} then False
          else True)"

text \<open>The text tests answer false on an empty text before they search.\<close>

definition decide_react_turn ::
  "string list \<Rightarrow> string \<Rightarrow> answer_signals \<Rightarrow> bool \<Rightarrow> int \<Rightarrow> bool \<Rightarrow> react_decision" where
  "decide_react_turn calls answer a incomplete_dsml error_count file_write_succeeded =
     (let n = length calls;
          answered = strip answer \<noteq> [];
          dec = (\<lambda>e d r. \<lparr>rd_exit = e, rd_drop_tools = d, rd_reason = r\<rparr>) in
      if error_count \<ge> ERROR_LIMIT then dec (Some ERROR_LIMIT_EXIT) (n > 0) ''consecutive errors >= 5''
      else if has_final_answer_call calls then dec None False ''final_answer_tool''
      else if answered \<and> as_final_answer a then dec (Some FINAL_ANSWER_CALL) (n > 0) ''claimed Final Answer''
      else if answered \<and> as_task_complete a then dec (Some TASK_COMPLETE) (n > 0) ''task complete''
      else if n = 0 \<and> file_write_succeeded \<and> answered \<and> \<not> as_incomplete_build a
        then dec (Some TASK_COMPLETE) False ''write succeeded and task complete''
      else if answered \<and> as_llm_exit a then dec (Some LLM_REQUESTS_EXIT) (n > 0) ''llm requested exit''
      else if n \<noteq> 0 then dec None False ''acting''
      else if incomplete_dsml then dec None False ''incomplete_dsml''
      else if \<not> answered then dec None False ''empty''
      else if as_quoted_result a \<and> (as_preview_task a \<or> \<not> as_incomplete_build a)
        then dec (Some TASK_COMPLETE) False ''quoted tool result is the answer''
      else if as_incomplete_build a then dec None False ''incomplete_build''
      else dec None False ''no_tools_pending_nudge'')"

end
