(* ===== verification/Loop_Control_Correct.thy ===== *)
theory Loop_Control_Correct
  imports Loop_Control
begin

text \<open>
  The detector answers exactly when the last rounds repeat with a period of at most the threshold or
  the last calls of one tool all failed, and a cyclic sequence of calls is always caught. The exit
  decision in terms of the answer, and the error limit in terms of the outcomes of the turns.
\<close>

section \<open>Periods\<close>

definition shifts :: "nat \<Rightarrow> 'a list \<Rightarrow> bool" where
  "shifts p xs \<longleftrightarrow> (\<forall>i. i + p < length xs \<longrightarrow> xs ! i = xs ! (i + p))"

lemma shifts_mod:
  assumes "shifts p xs" and "0 < p" and "i < length xs"
  shows "xs ! i = xs ! (i mod p)"
  using assms(3)
proof (induction i rule: less_induct)
  case (less i)
  show ?case
  proof (cases "i < p")
    case True
    then show ?thesis by simp
  next
    case False
    then have "xs ! (i - p) = xs ! ((i - p) mod p)" using less assms(2) by simp
    moreover have "xs ! (i - p) = xs ! i" using assms(1) False less.prems by (simp add: shifts_def)
    moreover have "(i - p) mod p = i mod p" using False by (simp add: le_mod_geq)
    ultimately show ?thesis by simp
  qed
qed

lemma shifts_iff_mod:
  assumes "0 < p"
  shows "shifts p xs \<longleftrightarrow> (\<forall>i<length xs. xs ! i = xs ! (i mod p))"
proof
  assume "shifts p xs"
  then show "\<forall>i<length xs. xs ! i = xs ! (i mod p)" using shifts_mod assms by blast
next
  assume a: "\<forall>i<length xs. xs ! i = xs ! (i mod p)"
  show "shifts p xs" unfolding shifts_def
  proof (intro allI impI)
    fix i
    assume i: "i + p < length xs"
    then have "xs ! i = xs ! (i mod p)" using a by simp
    moreover have "xs ! (i + p) = xs ! ((i + p) mod p)" using a i by blast
    ultimately show "xs ! i = xs ! (i + p)" by simp
  qed
qed

lemma shifts_drop: "shifts p xs \<Longrightarrow> shifts p (drop n xs)"
  by (auto simp: shifts_def add.assoc [symmetric])

lemma shifts_one_iff:
  assumes "xs \<noteq> []"
  shows "card (set xs) = 1 \<longleftrightarrow> shifts 1 xs"
proof -
  have mem: "xs ! 0 \<in> set xs" using assms by simp
  have "shifts 1 xs \<longleftrightarrow> (\<forall>i<length xs. xs ! i = xs ! 0)" by (simp add: shifts_iff_mod)
  also have "\<dots> \<longleftrightarrow> (\<forall>x\<in>set xs. x = xs ! 0)" by (auto simp: set_conv_nth)
  also have "\<dots> \<longleftrightarrow> card (set xs) = 1"
  proof
    assume "\<forall>x\<in>set xs. x = xs ! 0"
    then have "set xs = {xs ! 0}" using mem by blast
    then show "card (set xs) = 1" by simp
  next
    assume "card (set xs) = 1"
    then obtain v where "set xs = {v}" by (rule card_1_singletonE)
    then show "\<forall>x\<in>set xs. x = xs ! 0" using mem by simp
  qed
  finally show ?thesis ..
qed

lemma period_matches_iff:
  assumes "0 < p" and "p \<le> length xs"
  shows "period_matches xs p \<longleftrightarrow> 2 \<le> card (set (take p xs)) \<and> shifts p xs"
proof -
  have "xs ! i = take p xs ! (i mod p) \<longleftrightarrow> xs ! i = xs ! (i mod p)" for i using assms by simp
  then show ?thesis
    using assms(1) by (auto simp: period_matches_def Let_def shifts_iff_mod list_all_iff atLeastLessThan_iff not_less)
qed

lemma shifts_constant:
  assumes "shifts p xs" and "0 < p" and "p \<le> length xs" and "card (set (take p xs)) < 2"
  shows "shifts 1 xs"
proof -
  have ne: "take p xs \<noteq> []" using assms(2,3) by auto
  then have "0 < card (set (take p xs))" by (simp only: card_gt_0_iff set_empty finite_set) simp
  then have "card (set (take p xs)) = 1" using assms(4) by linarith
  then have "shifts 1 (take p xs)" using shifts_one_iff ne by blast
  then have c: "take p xs ! i = take p xs ! 0" if "i < p" for i
    using that assms(3) shifts_mod [of 1 "take p xs" i] \<open>shifts 1 (take p xs)\<close> by simp
  have "xs ! i = xs ! 0" if i: "i < length xs" for i
  proof -
    have "xs ! i = xs ! (i mod p)" using shifts_mod [OF assms(1,2) i] .
    also have "\<dots> = xs ! 0" using c [of "i mod p"] assms(2) by simp
    finally show ?thesis .
  qed
  then show ?thesis by (simp add: shifts_iff_mod)
qed

section \<open>The detector\<close>

text \<open>The last \<open>n\<close> rounds exist and repeat with period \<open>p\<close>; the last \<open>t\<close> rounds are failures of one tool.\<close>

definition repeats :: "nat \<Rightarrow> nat \<Rightarrow> tool_round list \<Rightarrow> bool" where
  "repeats p n h \<longleftrightarrow> n \<le> length h \<and> shifts p (map call_signature (last_rounds n h))"

definition fails_alone :: "nat \<Rightarrow> tool_round list \<Rightarrow> bool" where
  "fails_alone t h \<longleftrightarrow>
     t \<le> length h \<and> (\<exists>tool. \<forall>r\<in>set (last_rounds t h). round_failed r \<and> round_tool r = tool)"

lemma last_rounds_length: "n \<le> length h \<Longrightarrow> length (last_rounds n h) = n"
  by (simp add: last_rounds_def)

lemma last_rounds_drop: "m + n \<le> length h \<Longrightarrow> last_rounds n h = drop m (last_rounds (m + n) h)"
  by (simp add: last_rounds_def)

lemma detect_repetition_iff:
  assumes "0 < t"
  shows "detect_repetition t h \<longleftrightarrow> repeats 1 t h"
proof (cases "t \<le> length h")
  case True
  then have "map call_signature (last_rounds t h) \<noteq> []" using assms last_rounds_length [OF True] by auto
  from shifts_one_iff [OF this] show ?thesis using True by (simp add: detect_repetition_def repeats_def)
next
  case False
  then show ?thesis by (simp add: detect_repetition_def repeats_def)
qed

lemma card_one_image:
  assumes "xs \<noteq> []"
  shows "card (set (map f xs)) = 1 \<longleftrightarrow> (\<exists>v. \<forall>x\<in>set xs. f x = v)"
  using assms by (cases xs) (auto simp: card_1_singleton_iff)

lemma detect_failures_iff:
  assumes "0 < t"
  shows "detect_failures t h \<longleftrightarrow> fails_alone t h"
proof (cases "t \<le> length h")
  case True
  then have "last_rounds t h \<noteq> []" using assms last_rounds_length [OF True] by auto
  from card_one_image [OF this, of round_tool] show ?thesis
    using True by (auto simp: detect_failures_def fails_alone_def Let_def list_all_iff)
next
  case False
  then show ?thesis by (simp add: detect_failures_def fails_alone_def)
qed

lemma detect_alternation_iff:
  assumes "2 \<le> t"
  shows "detect_repetition t h \<or> detect_alternation t h \<longleftrightarrow> repeats 1 t h \<or> (\<exists>p\<in>{2..t}. repeats p (2 * t) h)"
proof (cases "2 * t \<le> length h")
  case False
  then show ?thesis using assms by (simp add: detect_alternation_def repeats_def detect_repetition_iff)
next
  case True
  let ?xs = "map call_signature (last_rounds (2 * t) h)"
  have len: "length ?xs = 2 * t" using last_rounds_length [OF True] by simp
  have alt: "detect_alternation t h \<longleftrightarrow> (\<exists>p\<in>{2..t}. period_matches ?xs p)"
    using True by (auto simp: detect_alternation_def list_ex_iff)
  have one: "repeats 1 t h" if "shifts 1 ?xs"
  proof -
    have "map call_signature (last_rounds t h) = drop t ?xs"
      using last_rounds_drop [of t t h] True by (simp add: drop_map mult_2)
    then show ?thesis using shifts_drop [OF that, of t] True by (simp add: repeats_def)
  qed
  have m: "period_matches ?xs p \<longleftrightarrow> 2 \<le> card (set (take p ?xs)) \<and> shifts p ?xs" if "p \<in> {2..t}" for p
    using that len by (intro period_matches_iff) auto
  have s: "shifts p ?xs \<Longrightarrow> \<not> 2 \<le> card (set (take p ?xs)) \<Longrightarrow> shifts 1 ?xs" if "p \<in> {2..t}" for p
    using that len by (intro shifts_constant [of p]) auto
  have r: "repeats p (2 * t) h \<longleftrightarrow> shifts p ?xs" for p using True by (simp add: repeats_def)
  show ?thesis
    unfolding alt r using assms m s one by (subst detect_repetition_iff) (simp, blast)
qed

text \<open>
  C29. The detector reports a loop exactly when the last rounds are equal calls, as many as the
  threshold, or the last rounds, twice as many, repeat with a period of at most the threshold, or the
  last rounds are failures of one tool.\<close>

theorem detector_exact:
  fixes name fp :: string and failed :: bool
  assumes "new_detector threshold = Some d0" and "sd_threshold d = sd_threshold d0"
  defines "t \<equiv> nat threshold" and "h \<equiv> sd_history d @ [(name, fp, failed)]"
  shows "fst (detector_record name fp failed d) \<longleftrightarrow>
    repeats 1 t h \<or> (\<exists>p\<in>{2..t}. repeats p (2 * t) h) \<or> fails_alone t h"
proof -
  have t: "2 \<le> t" "sd_threshold d = t" using assms(1,2) by (auto simp: new_detector_def t_def split: if_splits)
  then show ?thesis
    using detect_alternation_iff [OF t(1), of h] detect_failures_iff [of t h]
    by (auto simp: detector_record_def Let_def h_def)
qed

lemma detector_exact_witness:
  "fst (detector_record ''read'' ''b'' False
     \<lparr>sd_threshold = 2, sd_history = [(''read'', ''a'', False), (''read'', ''b'', False), (''read'', ''a'', False)],
      sd_stuck_reason = None\<rparr>)"
proof -
  let ?d = "\<lparr>sd_threshold = 2, sd_history = [(''read'', ''a'', False), (''read'', ''b'', False), (''read'', ''a'', False)],
      sd_stuck_reason = None\<rparr>"
  have "repeats 2 (2 * nat 2) (sd_history ?d @ [(''read'', ''b'', False)])"
    by (auto simp: repeats_def shifts_def last_rounds_def call_signature_def less_Suc_eq)
  then show ?thesis
    using detector_exact [of 2 "\<lparr>sd_threshold = 2, sd_history = [], sd_stuck_reason = None\<rparr>" ?d "''read''" "''b''" False]
    by (auto simp: new_detector_def)
qed

text \<open>The history is the sequence of recorded rounds.\<close>

lemma record_history:
  "sd_history (snd (detector_record name fp failed d)) = sd_history d @ [(name, fp, failed)]"
  "sd_threshold (snd (detector_record name fp failed d)) = sd_threshold d"
  by (simp_all add: detector_record_def Let_def)

lemma run_history:
  "run_obs record_round d rs = (vs, d') \<Longrightarrow>
   sd_history d' = sd_history d @ rs \<and> sd_threshold d' = sd_threshold d \<and> length vs = length rs"
proof (induction rs arbitrary: d d' vs)
  case Nil
  then show ?case by simp
next
  case (Cons r rs)
  obtain name fp failed where r: "r = (name, fp, failed)" by (cases r)
  obtain b d1 where 1: "detector_record name fp failed d = (b, d1)" by force
  obtain ws d2 where 2: "run_obs record_round d1 rs = (ws, d2)" by force
  have "record_round d r = ([b], d1)" using 1 r by (simp add: record_round_def)
  then have "vs = b # ws" "d' = d2" using Cons.prems 2 by simp_all
  then show ?case using Cons.IH [OF 2] 1 r record_history [of name fp failed d] by simp
qed

text \<open>The tail of a cyclic sequence repeats.\<close>

lemma cyclic_repeats:
  assumes "1 \<le> p" and "p \<le> t" and "2 * t \<le> n" and "\<forall>i. call_signature (f (i + p)) = call_signature (f i)"
  shows "repeats 1 t (map f [0..<n]) \<or> (\<exists>p\<in>{2..t}. repeats p (2 * t) (map f [0..<n]))"
proof -
  have nth: "map call_signature (last_rounds k (map f [0..<n])) ! i = call_signature (f (n - k + i))" if "i < k" "k \<le> n" for i k
    using that by (simp add: last_rounds_def)
  have sh: "shifts p (map call_signature (last_rounds k (map f [0..<n])))" if "k \<le> n" for k
    unfolding shifts_def
  proof (intro allI impI)
    fix i
    assume "i + p < length (map call_signature (last_rounds k (map f [0..<n])))"
    then have i: "i + p < k" using that by (simp add: last_rounds_length)
    then show "map call_signature (last_rounds k (map f [0..<n])) ! i = map call_signature (last_rounds k (map f [0..<n])) ! (i + p)"
      using nth [of i k] nth [of "i + p" k] that assms(4) [rule_format, of "n - k + i"] by (simp only: add.assoc)
  qed
  show ?thesis
  proof (cases "p = 1")
    case True
    then show ?thesis using sh [of t] assms(3) by (simp add: repeats_def)
  next
    case False
    then have "p \<in> {2..t}" using assms(1,2) by auto
    moreover have "repeats p (2 * t) (map f [0..<n])" using sh [of "2 * t"] assms(3) by (simp add: repeats_def)
    ultimately show ?thesis by blast
  qed
qed

text \<open>
  C28. A cyclic sequence of calls, with any period up to the threshold, is reported in every round
  from twice the threshold on, whatever the arguments of the calls and whether they fail.\<close>

theorem cyclic_calls_caught:
  assumes "new_detector threshold = Some d" and "1 \<le> p" and "int p \<le> threshold" and "2 * threshold \<le> int n" and "0 < n"
    and "\<forall>i. call_signature (f (i + p)) = call_signature (f i)"
  shows "last (fst (run_obs record_round d (map f [0..<n])))"
proof -
  obtain m where n: "n = Suc m" using assms(5) by (cases n) auto
  let ?t = "nat threshold"
  have d: "sd_history d = []" "sd_threshold d = ?t" "2 \<le> ?t"
    using assms(1) by (auto simp: new_detector_def split: if_splits)
  obtain vs d1 where 1: "run_obs record_round d (map f [0..<m]) = (vs, d1)" by force
  obtain name fp failed where fm: "f m = (name, fp, failed)" by (cases "f m")
  from run_history [OF 1] have h1: "sd_history d1 = map f [0..<m]" "sd_threshold d1 = ?t" using d by simp_all
  have h: "sd_history d1 @ [(name, fp, failed)] = map f [0..<n]" using h1 fm n by simp
  have "repeats 1 ?t (map f [0..<n]) \<or> (\<exists>p\<in>{2..?t}. repeats p (2 * ?t) (map f [0..<n]))"
    using assms(2-4,6) d(3) by (intro cyclic_repeats [of p]) auto
  then have "fst (detector_record name fp failed d1)"
    using detect_alternation_iff [OF d(3), of "map f [0..<n]"] h h1 by (auto simp: detector_record_def Let_def)
  moreover have "fst (run_obs record_round d (map f [0..<n])) = vs @ [fst (detector_record name fp failed d1)]"
    using 1 fm n by (simp add: run_obs_append record_round_def split: prod.splits)
  ultimately show ?thesis by simp
qed

lemma cyclic_calls_caught_witness:
  "last (fst (run_obs record_round \<lparr>sd_threshold = 2, sd_history = [], sd_stuck_reason = None\<rparr>
     (map (\<lambda>i. (''read'', if even i then ''a'' else ''b'', i = 3)) [0..<5])))"
  by (rule cyclic_calls_caught [of 2 _ 2]) (simp_all add: new_detector_def call_signature_def)

text \<open>A loop once reported stays reported until the reset, also after calls that do not repeat.\<close>

lemma stuck_until_reset:
  assumes "is_stuck d"
  shows "is_stuck (snd (run_obs record_round d rs))"
  using assms
proof (induction rs arbitrary: d)
  case Nil
  then show ?case by simp
next
  case (Cons r rs)
  obtain name fp failed where r: "r = (name, fp, failed)" by (cases r)
  have "is_stuck (snd (detector_record name fp failed d))"
    using Cons.prems by (simp add: detector_record_def is_stuck_def Let_def)
  moreover have "record_round d r = ([fst (detector_record name fp failed d)], snd (detector_record name fp failed d))"
    using r by (simp add: record_round_def split: prod.splits)
  ultimately show ?case using Cons.IH [of "snd (detector_record name fp failed d)"] by (auto split: prod.splits)
qed

section \<open>The error limit\<close>

text \<open>The consecutive errors are the failures since the last success.\<close>

lemma consecutive_errors:
  "foldl bump_consecutive_errors 0 outcomes = int (length (takeWhile (\<lambda>f. f) (rev outcomes)))"
  by (induction outcomes rule: rev_induct) (auto simp: bump_consecutive_errors_def)

lemma last_all_iff:
  "n \<le> length (takeWhile P xs) \<longleftrightarrow> n \<le> length xs \<and> (\<forall>x\<in>set (take n xs). P x)"
proof (induction xs arbitrary: n)
  case Nil
  then show ?case by simp
next
  case (Cons x xs)
  then show ?case by (cases n) auto
qed

text \<open>
  With the consecutive errors counted over the outcomes of the turns, the loop stops for errors
  exactly when the last five turns failed, whatever the answer and the calls are.\<close>

theorem error_stop_exact:
  "rd_exit (decide_react_turn calls answer a dsml (foldl bump_consecutive_errors 0 outcomes) wrote) = Some ERROR_LIMIT_EXIT \<longleftrightarrow>
   5 \<le> length outcomes \<and> list_all (\<lambda>failed. failed) (take 5 (rev outcomes))"
proof -
  have "rd_exit (decide_react_turn calls answer a dsml (foldl bump_consecutive_errors 0 outcomes) wrote) = Some ERROR_LIMIT_EXIT \<longleftrightarrow>
      ERROR_LIMIT \<le> foldl bump_consecutive_errors 0 outcomes"
    by (simp add: decide_react_turn_def Let_def)
  also have "\<dots> \<longleftrightarrow> 5 \<le> length (takeWhile (\<lambda>f. f) (rev outcomes))"
    by (simp add: consecutive_errors ERROR_LIMIT_def)
  finally show ?thesis by (simp add: last_all_iff list_all_iff)
qed

lemma error_stop_not_overridden:
  "rd_exit d = Some ERROR_LIMIT_EXIT \<Longrightarrow> react_exit_should_stop d required"
  by (simp add: react_exit_should_stop_def)

text \<open>Below the error limit a turn ends the loop exactly when the answer, which is not empty, claims the
  end, or nothing is called and the answer closes a write or quotes a result; a call of the
  final-answer tool defers every claim to the turn after it.\<close>

lemma exit_exact:
  assumes "error_count < ERROR_LIMIT"
  shows "rd_exit (decide_react_turn calls answer a dsml error_count wrote) \<noteq> None \<longleftrightarrow>
    \<not> has_final_answer_call calls \<and> strip answer \<noteq> [] \<and>
    (claimed_final_answer a \<or>
     calls = [] \<and> wrote \<and> \<not> as_incomplete_build a \<or>
     calls = [] \<and> \<not> dsml \<and> as_quoted_result a \<and> (as_preview_task a \<or> \<not> as_incomplete_build a))"
  using assms by (auto simp: decide_react_turn_def Let_def claimed_final_answer_def)

lemma drop_tools_spec:
  "drop_tools_after_final_answer calls =
     takeWhile (\<lambda>c. \<not> is_final_answer_tool c) calls @ take 1 (dropWhile (\<lambda>c. \<not> is_final_answer_tool c) calls)"
  by (induction calls) auto

lemma drop_tools_keeps:
  "has_final_answer_call (drop_tools_after_final_answer calls) \<longleftrightarrow> has_final_answer_call calls"
  by (induction calls) (auto simp: has_final_answer_call_def)

end
