(* ===== verification/Timeout_Decision.thy ===== *)
theory Timeout_Decision
  imports PyDict Machine Complex_Main
begin

text \<open>
  The timeout decisions of \<open>core/timeout_decision.py\<close>: when a run reaches a time limit, a model may grant
  more time. Seconds, costs and confidences are rationals. What the model answers, what its response
  object carries, and how often the engine is interrupted while a decision waits are inputs; hooks do
  not raise. Event ids, time stamps and the trajectory are left out.
\<close>

section \<open>Data\<close>

datatype trigger_point = GRAPH_TASK_MAX_TIME | PIPELINE_SOFT_BUDGET | WATCHDOG_STALL | TOOL_TIMEOUT

datatype decision_action = Act_Continue | Act_Steer | Act_Stop

definition ALLOWED_ACTIONS :: "trigger_point \<Rightarrow> decision_action set" where
  "ALLOWED_ACTIONS tp =
     (case tp of
        GRAPH_TASK_MAX_TIME \<Rightarrow> {Act_Continue, Act_Steer, Act_Stop}
      | PIPELINE_SOFT_BUDGET \<Rightarrow> {Act_Continue, Act_Steer, Act_Stop}
      | WATCHDOG_STALL \<Rightarrow> {Act_Continue, Act_Stop}
      | TOOL_TIMEOUT \<Rightarrow> {Act_Continue, Act_Stop})"

record timeout_evidence =
  tv_trigger_point :: trigger_point
  tv_session_id :: string
  tv_run_id :: string
  tv_subject_id :: string
  tv_elapsed_seconds :: rat
  tv_budget_seconds :: rat

record timeout_response =
  tr_action :: decision_action
  tr_extend_seconds :: rat
  tr_note :: string
  tr_confidence :: rat

text \<open>The field constraints and the validator of the response.\<close>

definition response_ok :: "timeout_response \<Rightarrow> bool" where
  "response_ok r \<longleftrightarrow>
     0 \<le> tr_extend_seconds r \<and> 0 \<le> tr_confidence r \<and> tr_confidence r \<le> 1 \<and>
     (tr_action r \<in> {Act_Continue, Act_Steer} \<longrightarrow> 0 < tr_extend_seconds r)"

record timeout_event =
  te_session_id :: string
  te_run_id :: string
  te_seq :: nat
  te_trigger_point :: trigger_point
  te_action :: decision_action
  te_extend_seconds :: rat
  te_note :: string
  te_confidence :: rat
  te_extension_index :: nat
  te_elapsed_seconds :: rat
  te_fail_closed :: bool
  te_decision_model :: string
  te_cost :: rat

type_synonym decision_scope = "string \<times> string"

record time_grant =
  tg_granted_seconds :: rat
  tg_new_budget :: rat

record decision_section =
  ds_max_extensions :: int
  ds_extension_growth :: rat
  ds_decision_model :: "string option"
  ds_absolute_cap :: "trigger_point \<Rightarrow> rat"

definition scope_of :: "timeout_evidence \<Rightarrow> decision_scope" where
  "scope_of ev = (tv_session_id ev, tv_subject_id ev)"

definition forced_stop :: "string \<Rightarrow> timeout_response" where
  "forced_stop note = \<lparr>tr_action = Act_Stop, tr_extend_seconds = 0, tr_note = note, tr_confidence = 0\<rparr>"

section \<open>The policy and the ledger\<close>

definition pre_check :: "decision_section \<Rightarrow> timeout_evidence \<Rightarrow> nat \<Rightarrow> timeout_response option" where
  "pre_check c ev k =
     (if int k > ds_max_extensions c then Some (forced_stop ''[policy] max extensions reached'')
      else if tv_budget_seconds ev \<ge> ds_absolute_cap c (tv_trigger_point ev)
        then Some (forced_stop ''[policy] absolute cap reached'')
      else None)"

definition policy_grant :: "decision_section \<Rightarrow> trigger_point \<Rightarrow> rat \<Rightarrow> nat \<Rightarrow> rat \<Rightarrow> time_grant" where
  "policy_grant c tp budget k extend_seconds =
     (let requested = extend_seconds * ds_extension_growth c ^ (k - 1);
          room = max 0 (ds_absolute_cap c tp - budget);
          granted = min requested room in
      \<lparr>tg_granted_seconds = granted, tg_new_budget = budget + granted\<rparr>)"

type_synonym extension_ledger = "(decision_scope, rat list) pydict"

definition ledger_record :: "decision_scope \<Rightarrow> rat \<Rightarrow> extension_ledger \<Rightarrow> extension_ledger" where
  "ledger_record s x l = dict_set s (dict_get_or l s [] @ [x]) l"

definition ledger_count :: "extension_ledger \<Rightarrow> decision_scope \<Rightarrow> nat" where
  "ledger_count l s = length (dict_get_or l s [])"

definition total_extended :: "extension_ledger \<Rightarrow> decision_scope \<Rightarrow> rat" where
  "total_extended l s = sum_list (dict_get_or l s [])"

section \<open>The engine\<close>

record decision_engine =
  de_section :: decision_section
  de_client_names :: "string option list"
  de_ledger :: extension_ledger
  de_last_grants :: "(decision_scope, time_grant) pydict"
  de_last_trigger :: "(decision_scope, trigger_point) pydict"
  de_events :: "timeout_event list"
  de_total_cost :: rat
  de_void_token :: nat
  de_settled :: bool

definition new_engine :: "decision_section \<Rightarrow> string option list \<Rightarrow> decision_engine" where
  "new_engine c names =
     \<lparr>de_section = c, de_client_names = names, de_ledger = [], de_last_grants = [], de_last_trigger = [],
      de_events = [], de_total_cost = 0, de_void_token = 0, de_settled = False\<rparr>"

text \<open>The first name that is not blank.\<close>

fun first_named :: "string option list \<Rightarrow> string option" where
  "first_named [] = None"
| "first_named (None # ns) = first_named ns"
| "first_named (Some n # ns) = (if strip n \<noteq> [] then Some (strip n) else first_named ns)"

definition named_model :: "decision_engine \<Rightarrow> string \<Rightarrow> string" where
  "named_model e resolved =
     (case first_named [ds_decision_model (de_section e)] of
        Some n \<Rightarrow> n
      | None \<Rightarrow>
          if resolved \<noteq> [] \<and> resolved \<noteq> ''unknown'' then resolved
          else (case first_named (de_client_names e) of
                  Some n \<Rightarrow> n
                | None \<Rightarrow> if resolved \<noteq> [] then resolved else ''unknown''))"

text \<open>A response object: its text decoded as JSON and validated or not, its cost fields that are finite
  numbers, in the order they are read, and its names.\<close>

datatype model_answer = Unreadable string | Parsed timeout_response

record llm_raw =
  lr_answer :: model_answer
  lr_costs :: "rat option list"
  lr_names :: "string option list"

fun response_cost :: "rat option list \<Rightarrow> rat" where
  "response_cost [] = 0"
| "response_cost (None # cs) = response_cost cs"
| "response_cost (Some c # cs) = (if 0 \<le> c then c else response_cost cs)"

definition decision_model :: "decision_section \<Rightarrow> llm_raw \<Rightarrow> string" where
  "decision_model c raw =
     (case first_named (ds_decision_model c # lr_names raw) of Some n \<Rightarrow> n | None \<Rightarrow> ''unknown'')"

definition publish_decision ::
  "timeout_response \<Rightarrow> timeout_evidence \<Rightarrow> nat \<Rightarrow> bool \<Rightarrow> rat \<Rightarrow> string \<Rightarrow> decision_engine \<Rightarrow> decision_engine" where
  "publish_decision r ev index fail_closed cost model e =
     (let amount = if 0 \<le> cost then cost else 0 in
      e\<lparr>de_events := de_events e @
          [\<lparr>te_session_id = tv_session_id ev, te_run_id = tv_run_id ev, te_seq = index,
            te_trigger_point = tv_trigger_point ev, te_action = tr_action r,
            te_extend_seconds = tr_extend_seconds r, te_note = tr_note r, te_confidence = tr_confidence r,
            te_extension_index = index, te_elapsed_seconds = tv_elapsed_seconds ev,
            te_fail_closed = fail_closed, te_decision_model = model, te_cost = amount\<rparr>],
        de_total_cost := de_total_cost e + amount, de_settled := True\<rparr>)"

definition fail_closed ::
  "timeout_evidence \<Rightarrow> decision_scope \<Rightarrow> string \<Rightarrow> rat \<Rightarrow> string \<Rightarrow> decision_engine \<Rightarrow> timeout_response \<times> decision_engine" where
  "fail_closed ev s reason cost model e =
     (let r = forced_stop (''[fail-closed] '' @ reason) in
      (r, publish_decision r ev (ledger_count (de_ledger e) s) True cost model e))"

definition publish_interrupted ::
  "timeout_evidence \<Rightarrow> rat \<Rightarrow> string \<Rightarrow> decision_engine \<Rightarrow> timeout_response \<times> decision_engine" where
  "publish_interrupted ev cost model e =
     (let r = forced_stop ''[fail-closed] interrupted'' in
      (r, if de_settled e then e
          else publish_decision r ev (ledger_count (de_ledger e) (scope_of ev)) True cost model e))"

text \<open>The grant of a response; the texts of its errors.\<close>

definition response_grant ::
  "decision_section \<Rightarrow> timeout_evidence \<Rightarrow> nat \<Rightarrow> model_answer \<Rightarrow> string + timeout_response \<times> time_grant option" where
  "response_grant c ev k a =
     (case a of
        Unreadable reason \<Rightarrow> Inl reason
      | Parsed r \<Rightarrow>
          if \<not> response_ok r then Inl ''ValidationError''
          else if tr_action r \<notin> ALLOWED_ACTIONS (tv_trigger_point ev) then Inl ''ValueError: action not allowed''
          else if tr_action r = Act_Steer \<and> strip (tr_note r) = [] then Inl ''ValueError: steer note must be non-empty''
          else if tr_action r = Act_Stop then Inr (r\<lparr>tr_extend_seconds := 0\<rparr>, None)
          else
            let g = policy_grant c (tv_trigger_point ev) (tv_budget_seconds ev) k (tr_extend_seconds r) in
            if tg_granted_seconds g \<le> 0 then Inl ''ValueError: no room left under the absolute cap''
            else Inr (r\<lparr>tr_extend_seconds := tg_granted_seconds g\<rparr>, Some g))"

definition accept_answer ::
  "llm_raw \<Rightarrow> timeout_evidence \<Rightarrow> decision_scope \<Rightarrow> nat \<Rightarrow> rat \<Rightarrow> string \<Rightarrow> decision_engine \<Rightarrow>
   (string + timeout_response) \<times> decision_engine" where
  "accept_answer raw ev s k cost model e =
     (case response_grant (de_section e) ev k (lr_answer raw) of
        Inl reason \<Rightarrow> (Inl reason, e)
      | Inr (r, None) \<Rightarrow> (Inr r, publish_decision r ev (ledger_count (de_ledger e) s) False cost model e)
      | Inr (r, Some g) \<Rightarrow>
          let e1 = publish_decision r ev k False cost model e in
          (Inr r, e1\<lparr>de_ledger := ledger_record s (tg_granted_seconds g) (de_ledger e1),
                     de_last_grants := dict_set s g (de_last_grants e1),
                     de_last_trigger := dict_set s (tv_trigger_point ev) (de_last_trigger e1)\<rparr>))"

definition void_calls :: "decision_engine \<Rightarrow> decision_engine" where
  "void_calls e = e\<lparr>de_void_token := de_void_token e + 1\<rparr>"

text \<open>What happens while one decision waits: interrupts during the hook before the call and during the
  call, and the end of the call.\<close>

datatype model_outcome = Call_Cancelled | Call_Raised string | Call_Answered llm_raw

record decision_wait =
  dw_hook_interrupts :: nat
  dw_call_interrupts :: nat
  dw_outcome :: model_outcome

definition interrupts :: "nat \<Rightarrow> decision_engine \<Rightarrow> decision_engine" where
  "interrupts n e = (void_calls ^^ n) e"

definition with_base :: "decision_engine \<Rightarrow> timeout_evidence \<Rightarrow> timeout_evidence" where
  "with_base e ev = ev\<lparr>tv_budget_seconds :=
     (case dict_get (de_last_grants e) (scope_of ev) of Some g \<Rightarrow> tg_new_budget g | None \<Rightarrow> tv_budget_seconds ev)\<rparr>"

text \<open>The decision under the lock. \<open>None\<close> is a cancellation that no interrupt explains and that is
  raised again.\<close>

definition decide_locked ::
  "timeout_evidence \<Rightarrow> nat \<Rightarrow> decision_wait \<Rightarrow> decision_engine \<Rightarrow> timeout_response option \<times> decision_engine" where
  "decide_locked ev0 my_token w e0 =
     (let some = (\<lambda>(r, e). (Some r, e)) in
      if de_void_token e0 \<noteq> my_token then some (publish_interrupted ev0 0 (named_model e0 ''unknown'') e0)
      else
        let s = scope_of ev0;
            k = ledger_count (de_ledger e0) s + 1;
            ev = with_base e0 ev0;
            e = e0\<lparr>de_settled := False\<rparr> in
        case pre_check (de_section e) ev k of
          Some r \<Rightarrow> (Some r, publish_decision r ev (ledger_count (de_ledger e) s) False 0 (named_model e ''unknown'') e)
        | None \<Rightarrow>
            let e1 = interrupts (dw_hook_interrupts w) e in
            if de_void_token e1 \<noteq> my_token then some (publish_interrupted ev 0 (named_model e1 ''unknown'') e1)
            else
              let e2 = interrupts (dw_call_interrupts w) e1 in
              case dw_outcome w of
                Call_Cancelled \<Rightarrow>
                  (if de_void_token e2 \<noteq> my_token
                   then some (publish_interrupted ev 0 (named_model e2 ''unknown'') e2)
                   else (None, e2))
              | Call_Raised reason \<Rightarrow> some (fail_closed ev s reason 0 (named_model e2 ''unknown'') e2)
              | Call_Answered raw \<Rightarrow>
                  let cost = response_cost (lr_costs raw);
                      model = named_model e2 (decision_model (de_section e2) raw) in
                  if de_void_token e2 \<noteq> my_token then some (publish_interrupted ev cost model e2)
                  else
                    case accept_answer raw ev s k cost model e2 of
                      (Inr r, e3) \<Rightarrow> (Some r, e3)
                    | (Inl reason, e3) \<Rightarrow> some (fail_closed ev s reason cost model e3))"

definition decide ::
  "timeout_evidence \<Rightarrow> nat \<Rightarrow> decision_wait \<Rightarrow> decision_engine \<Rightarrow> timeout_response option \<times> decision_engine" where
  "decide ev my_token w e = (case decide_locked ev my_token w e of (r, e1) \<Rightarrow> (r, e1\<lparr>de_settled := False\<rparr>))"

definition last_grant :: "decision_engine \<Rightarrow> decision_scope \<Rightarrow> time_grant option" where
  "last_grant e s = dict_get (de_last_grants e) s"

definition granted_budget :: "decision_engine \<Rightarrow> decision_scope \<Rightarrow> rat \<Rightarrow> rat" where
  "granted_budget e s original =
     (let extended = original + total_extended (de_ledger e) s in
      case dict_get (de_last_trigger e) s of
        None \<Rightarrow> extended
      | Some tp \<Rightarrow> min extended (ds_absolute_cap (de_section e) tp))"

section \<open>Runs\<close>

text \<open>A decision carries the token its caller read when it began to wait for the lock.\<close>

datatype decision_cmd = Decide timeout_evidence nat decision_wait | Interrupt | Drain_Events

definition decision_step ::
  "decision_engine \<Rightarrow> decision_cmd \<Rightarrow> (decision_scope \<times> timeout_response option) list \<times> decision_engine" where
  "decision_step e c =
     (case c of
        Decide ev my_token w \<Rightarrow> (case decide ev my_token w e of (r, e1) \<Rightarrow> ([(scope_of ev, r)], e1))
      | Interrupt \<Rightarrow> ([], void_calls e)
      | Drain_Events \<Rightarrow> ([], e\<lparr>de_events := []\<rparr>))"

section \<open>The restart gate\<close>

datatype restart_verdict = Max_Restarts | Total_Wall

text \<open>The limits and the state of the session; \<open>None\<close> is a field that is missing or not a number. A
  first restart that is not a number is a reading that fails.\<close>

definition restart_gate_verdict ::
  "int option \<Rightarrow> rat option \<Rightarrow> int option \<Rightarrow> rat option \<Rightarrow> rat \<Rightarrow> restart_verdict option" where
  "restart_gate_verdict max_restarts wall count first now =
     (let m = (case max_restarts of Some n \<Rightarrow> n | None \<Rightarrow> 2);
          w = (case wall of Some x \<Rightarrow> x | None \<Rightarrow> 7200);
          n = (case count of Some n \<Rightarrow> n | None \<Rightarrow> 0) in
      if n \<ge> m then Some Max_Restarts
      else (case first of
              None \<Rightarrow> None
            | Some f \<Rightarrow> if now - f > w then Some Total_Wall else None))"

end
