(* ===== verification/Timeout_Decision_Correct.thy ===== *)
theory Timeout_Decision_Correct
  imports Timeout_Decision
begin

text \<open>
  A decision extends a limit only when everything allows it and stops otherwise, and over any run the
  extensions of one scope are few, positive and end below the cap; the budget the engine reports is the
  first one plus what was granted.
\<close>

lemma interrupts_simps [simp]:
  "interrupts 0 e = e"
  "de_void_token (interrupts n e) = de_void_token e + n"
  "de_section (interrupts n e) = de_section e" "de_client_names (interrupts n e) = de_client_names e"
  "de_ledger (interrupts n e) = de_ledger e" "de_last_grants (interrupts n e) = de_last_grants e"
  "de_last_trigger (interrupts n e) = de_last_trigger e" "de_settled (interrupts n e) = de_settled e"
  "de_events (interrupts n e) = de_events e" "de_total_cost (interrupts n e) = de_total_cost e"
  by (induction n) (simp_all add: interrupts_def void_calls_def)

lemma publish_simps [simp]:
  "de_section (publish_decision r ev i f c m e) = de_section e"
  "de_ledger (publish_decision r ev i f c m e) = de_ledger e"
  "de_last_grants (publish_decision r ev i f c m e) = de_last_grants e"
  "de_last_trigger (publish_decision r ev i f c m e) = de_last_trigger e"
  "de_void_token (publish_decision r ev i f c m e) = de_void_token e"
  by (simp_all add: publish_decision_def Let_def)

section \<open>One decision\<close>

text \<open>What a decision may grant: only an undisturbed call, within the number of extensions and below
  the cap, whose valid answer asks for more time.\<close>

definition allowed_grant ::
  "timeout_evidence \<Rightarrow> nat \<Rightarrow> decision_wait \<Rightarrow> decision_engine \<Rightarrow> (timeout_response \<times> time_grant) option" where
  "allowed_grant ev my_token w e =
     (let k = ledger_count (de_ledger e) (scope_of ev) + 1; base = tv_budget_seconds (with_base e ev);
          cap = ds_absolute_cap (de_section e) (tv_trigger_point ev) in
      if de_void_token e = my_token \<and> dw_hook_interrupts w = 0 \<and> dw_call_interrupts w = 0 \<and>
         int k \<le> ds_max_extensions (de_section e) \<and> base < cap
      then
        (case dw_outcome w of
           Call_Answered raw \<Rightarrow>
             (case lr_answer raw of
                Parsed r \<Rightarrow>
                  let x = min (tr_extend_seconds r * ds_extension_growth (de_section e) ^ (k - 1)) (cap - base) in
                  if response_ok r \<and> tr_action r \<in> ALLOWED_ACTIONS (tv_trigger_point ev) - {Act_Stop} \<and>
                     (tr_action r = Act_Continue \<or> strip (tr_note r) \<noteq> []) \<and> 0 < x
                  then Some (r\<lparr>tr_extend_seconds := x\<rparr>, \<lparr>tg_granted_seconds = x, tg_new_budget = base + x\<rparr>)
                  else None
              | Unreadable reason \<Rightarrow> None)
         | _ \<Rightarrow> None)
      else None)"

lemma with_base_simps [simp]:
  "tv_trigger_point (with_base e ev) = tv_trigger_point ev" "scope_of (with_base e ev) = scope_of ev"
  by (simp_all add: with_base_def scope_of_def)

text \<open>The engine after a decision: unchanged but for the grant.\<close>

definition books :: "decision_engine \<Rightarrow>
  decision_section \<times> extension_ledger \<times> (decision_scope, time_grant) pydict \<times> (decision_scope, trigger_point) pydict" where
  "books e = (de_section e, de_ledger e, de_last_grants e, de_last_trigger e)"

definition book_grant :: "timeout_evidence \<Rightarrow> (timeout_response \<times> time_grant) option \<Rightarrow> decision_engine \<Rightarrow>
  decision_section \<times> extension_ledger \<times> (decision_scope, time_grant) pydict \<times> (decision_scope, trigger_point) pydict" where
  "book_grant ev a e =
     (case a of
        None \<Rightarrow> books e
      | Some (r, g) \<Rightarrow>
          (de_section e, ledger_record (scope_of ev) (tg_granted_seconds g) (de_ledger e),
           dict_set (scope_of ev) g (de_last_grants e), dict_set (scope_of ev) (tv_trigger_point ev) (de_last_trigger e)))"

definition answer_fits :: "(timeout_response \<times> time_grant) option \<Rightarrow> timeout_response option \<Rightarrow> bool" where
  "answer_fits a r \<longleftrightarrow>
     (case a of
        Some (r', g) \<Rightarrow> r = Some r' \<and> tr_action r' \<noteq> Act_Stop
      | None \<Rightarrow> (case r of None \<Rightarrow> True | Some r' \<Rightarrow> tr_action r' = Act_Stop \<and> tr_extend_seconds r' = 0))"

lemma answer_fits_None: "answer_fits None None"
  by (simp add: answer_fits_def)

lemma interrupted_stop:
  "answer_fits None (Some (fst (publish_interrupted ev c m e)))" "books (snd (publish_interrupted ev c m e)) = books e"
  by (simp_all add: publish_interrupted_def answer_fits_def forced_stop_def books_def Let_def)

lemma fail_closed_stop:
  "answer_fits None (Some (fst (fail_closed ev s x c m e)))" "books (snd (fail_closed ev s x c m e)) = books e"
  by (simp_all add: fail_closed_def answer_fits_def forced_stop_def books_def Let_def)

lemma pre_check_stop: "pre_check c ev k = Some r \<Longrightarrow> answer_fits None (Some r)"
  by (auto simp: pre_check_def answer_fits_def forced_stop_def split: if_splits)

lemma books_simps [simp]:
  "books (interrupts n e) = books e" "books (publish_decision r ev i f c m e) = books e"
  "books (e\<lparr>de_settled := b\<rparr>) = books e"
  by (simp_all add: books_def)

lemma allowed_grant_None:
  assumes "de_void_token e \<noteq> t \<or> 0 < dw_hook_interrupts w \<or> 0 < dw_call_interrupts w \<or>
    pre_check (de_section e) (with_base e ev) (ledger_count (de_ledger e) (scope_of ev) + 1) \<noteq> None \<or>
    (\<forall>raw. dw_outcome w \<noteq> Call_Answered raw)"
  shows "allowed_grant ev t w e = None"
  using assms by (auto simp: allowed_grant_def pre_check_def Let_def split: model_outcome.splits if_splits)

text \<open>The answer to the model's call, when nothing stood in the way of it.\<close>

lemma response_grant_allowed:
  assumes "pre_check (de_section e) (with_base e ev) (ledger_count (de_ledger e) (scope_of ev) + 1) = None"
    and "de_void_token e = t" and "dw_hook_interrupts w = 0" and "dw_call_interrupts w = 0"
    and "dw_outcome w = Call_Answered raw"
  shows "case response_grant (de_section e) (with_base e ev) (ledger_count (de_ledger e) (scope_of ev) + 1) (lr_answer raw) of
      Inl reason \<Rightarrow> allowed_grant ev t w e = None
    | Inr (r, None) \<Rightarrow> allowed_grant ev t w e = None \<and> tr_action r = Act_Stop \<and> tr_extend_seconds r = 0
    | Inr (r, Some g) \<Rightarrow> allowed_grant ev t w e = Some (r, g) \<and> tr_action r \<noteq> Act_Stop"
proof (cases "lr_answer raw")
  case (Unreadable reason)
  then show ?thesis using assms by (simp add: response_grant_def allowed_grant_def Let_def)
next
  case (Parsed r)
  have base: "int (ledger_count (de_ledger e) (scope_of ev) + 1) \<le> ds_max_extensions (de_section e)"
    "tv_budget_seconds (with_base e ev) < ds_absolute_cap (de_section e) (tv_trigger_point ev)"
    using assms(1) by (simp_all add: pre_check_def not_less not_le split: if_splits)
  then have room: "max 0 (ds_absolute_cap (de_section e) (tv_trigger_point ev) - tv_budget_seconds (with_base e ev)) =
      ds_absolute_cap (de_section e) (tv_trigger_point ev) - tv_budget_seconds (with_base e ev)" by simp
  show ?thesis
    using assms base Parsed
    by (cases "tr_action r")
      (simp_all add: response_grant_def allowed_grant_def policy_grant_def room Let_def not_le min_le_iff_disj)
qed

lemma decide_exact_books:
  "answer_fits (allowed_grant ev my_token w e) (fst (decide ev my_token w e)) \<and>
   books (snd (decide ev my_token w e)) = book_grant ev (allowed_grant ev my_token w e) e"
proof -
  let ?a = "allowed_grant ev my_token w e"
  let ?k = "ledger_count (de_ledger e) (scope_of ev) + 1"
  let ?ev = "with_base e ev"
  let ?e = "e\<lparr>de_settled := False\<rparr>"
  let ?r = "decide_locked ev my_token w e"
  have "answer_fits ?a (fst ?r) \<and> books (snd ?r) = book_grant ev ?a e"
  proof (cases "de_void_token e = my_token \<and> pre_check (de_section e) ?ev ?k = None \<and> dw_hook_interrupts w = 0 \<and>
      dw_call_interrupts w = 0 \<and> (\<exists>raw. dw_outcome w = Call_Answered raw)")
    case False
    then have a: "?a = None" by (intro allowed_grant_None) auto
    have "answer_fits None (fst ?r) \<and> books (snd ?r) = books e"
    proof (cases "de_void_token e = my_token")
      case token: True
      show ?thesis
      proof (cases "pre_check (de_section e) ?ev ?k")
        case (Some r)
        then show ?thesis using token pre_check_stop [OF Some] by (simp add: decide_locked_def Let_def)
      next
        case None
        then show ?thesis using token False
          by (cases "dw_hook_interrupts w"; cases "dw_call_interrupts w"; cases "dw_outcome w")
            (simp_all add: decide_locked_def Let_def interrupted_stop fail_closed_stop case_prod_beta answer_fits_None)
      qed
    qed (simp add: decide_locked_def Let_def interrupted_stop case_prod_beta)
    then show ?thesis using a by (simp add: book_grant_def)
  next
    case True
    then obtain raw where raw: "dw_outcome w = Call_Answered raw" by blast
    note ra = response_grant_allowed [of e ev my_token w raw]
    show ?thesis
    proof (cases "response_grant (de_section e) ?ev ?k (lr_answer raw)")
      case (Inl reason)
      then show ?thesis using True raw ra
        by (simp add: decide_locked_def Let_def accept_answer_def fail_closed_stop book_grant_def case_prod_beta)
    next
      case (Inr q)
      obtain r g where q: "q = (r, g)" by (cases q)
      show ?thesis
        using True raw ra Inr q
        by (cases g) (auto simp: decide_locked_def Let_def accept_answer_def book_grant_def answer_fits_def books_def)
    qed
  qed
  then show ?thesis by (simp add: decide_def case_prod_beta)
qed

text \<open>
  C22. A decision answers with more time exactly when nothing interrupted it, the extensions of its
  scope are not used up, the budget in force lies below the cap, and the model's valid answer asks for
  it; the time is what was asked, grown with the number of extensions and cut at the cap. In every other
  case it stops, or passes a cancellation on, and the ledger and the grants stay as they were.\<close>

theorem decide_exact:
  "answer_fits (allowed_grant ev my_token w e) (fst (decide ev my_token w e)) \<and>
   books (snd (decide ev my_token w e)) = book_grant ev (allowed_grant ev my_token w e) e"
  by (rule decide_exact_books)

section \<open>Runs\<close>

text \<open>The extensions that were answered for a scope.\<close>

definition extensions_of :: "decision_scope \<Rightarrow> (decision_scope \<times> timeout_response option) list \<Rightarrow> rat list" where
  "extensions_of s answers =
     concat (map (\<lambda>(s', r). case r of
        Some r' \<Rightarrow> if s' = s \<and> tr_action r' \<noteq> Act_Stop then [tr_extend_seconds r'] else []
      | None \<Rightarrow> []) answers)"

lemma extensions_of_append: "extensions_of s (xs @ ys) = extensions_of s xs @ extensions_of s ys"
  by (simp add: extensions_of_def)

definition scope_books ::
  "decision_section \<Rightarrow> decision_scope \<Rightarrow> rat \<Rightarrow> decision_engine \<Rightarrow> (decision_scope \<times> timeout_response option) list \<Rightarrow> bool" where
  "scope_books c s b e answers \<longleftrightarrow>
     (let xs = extensions_of s answers in
      de_section e = c \<and> dict_get_or (de_ledger e) s [] = xs \<and> (\<forall>x\<in>set xs. 0 < x) \<and>
      int (length xs) \<le> max 0 (ds_max_extensions c) \<and>
      (if xs = [] then dict_get (de_last_grants e) s = None \<and> dict_get (de_last_trigger e) s = None
       else dict_get (de_last_grants e) s = Some \<lparr>tg_granted_seconds = last xs, tg_new_budget = b + sum_list xs\<rparr> \<and>
         (\<exists>tp. dict_get (de_last_trigger e) s = Some tp \<and> b + sum_list xs \<le> ds_absolute_cap c tp)))"

fun cmd_with_budget :: "decision_scope \<Rightarrow> rat \<Rightarrow> decision_cmd \<Rightarrow> bool" where
  "cmd_with_budget s b (Decide ev my_token w) = (scope_of ev = s \<longrightarrow> tv_budget_seconds ev = b)"
| "cmd_with_budget s b Interrupt = True"
| "cmd_with_budget s b Drain_Events = True"

lemma extensions_of_answer:
  assumes "answer_fits a r" and "\<And>r' g. a = Some (r', g) \<Longrightarrow> tr_extend_seconds r' = tg_granted_seconds g"
  shows "extensions_of s [(s', r)] = (case a of Some (r', g) \<Rightarrow> if s' = s then [tg_granted_seconds g] else [] | None \<Rightarrow> [])"
  using assms by (auto simp: extensions_of_def answer_fits_def split: option.splits)

lemma allowed_grant_facts:
  assumes "allowed_grant ev t w e = Some (r, g)"
  defines "base \<equiv> tv_budget_seconds (with_base e ev)"
  shows "tr_extend_seconds r = tg_granted_seconds g" "0 < tg_granted_seconds g" "tg_new_budget g = base + tg_granted_seconds g"
    "tg_new_budget g \<le> ds_absolute_cap (de_section e) (tv_trigger_point ev)"
    "int (ledger_count (de_ledger e) (scope_of ev) + 1) \<le> ds_max_extensions (de_section e)"
  using assms(1) unfolding base_def
  by (auto simp: allowed_grant_def Let_def split: if_splits model_outcome.splits model_answer.splits)

lemma decide_keeps_books:
  assumes inv: "scope_books c s b e h" and ok: "scope_of ev = s \<longrightarrow> tv_budget_seconds ev = b"
    and d: "decide ev t w e = (r, e')"
  shows "scope_books c s b e' (h @ [(scope_of ev, r)])"
proof -
  let ?a = "allowed_grant ev t w e"
  define xs where "xs = extensions_of s h"
  have fits: "answer_fits ?a r" and bk: "books e' = book_grant ev ?a e"
    using decide_exact_books [of ev t w e] d by simp_all
  have ext: "extensions_of s (h @ [(scope_of ev, r)]) =
      xs @ (case ?a of Some (r', g) \<Rightarrow> if scope_of ev = s then [tg_granted_seconds g] else [] | None \<Rightarrow> [])"
    using extensions_of_answer [OF fits, of s "scope_of ev"] allowed_grant_facts(1) by (simp add: extensions_of_append xs_def)
  show ?thesis
  proof (cases "\<exists>q g. ?a = Some (q, g) \<and> scope_of ev = s")
    case False
    then have "extensions_of s (h @ [(scope_of ev, r)]) = xs" using ext by (auto split: option.splits)
    moreover have "de_section e' = de_section e" "dict_get_or (de_ledger e') s [] = dict_get_or (de_ledger e) s []"
      "dict_get (de_last_grants e') s = dict_get (de_last_grants e) s" "dict_get (de_last_trigger e') s = dict_get (de_last_trigger e) s"
      using bk False by (cases ?a; auto simp: book_grant_def books_def ledger_record_def)+
    ultimately show ?thesis using inv by (simp add: scope_books_def xs_def Let_def)
  next
    case True
    then obtain q g where a: "?a = Some (q, g)" and s: "scope_of ev = s" by blast
    note g = allowed_grant_facts [OF a]
    have new: "extensions_of s (h @ [(scope_of ev, r)]) = xs @ [tg_granted_seconds g]" using ext a s by simp
    have e': "de_section e' = de_section e" "dict_get_or (de_ledger e') s [] = dict_get_or (de_ledger e) s [] @ [tg_granted_seconds g]"
      "dict_get (de_last_grants e') s = Some g" "dict_get (de_last_trigger e') s = Some (tv_trigger_point ev)"
      using bk a s by (simp_all add: book_grant_def books_def ledger_record_def)
    have old: "de_section e = c" "dict_get_or (de_ledger e) s [] = xs" "\<forall>x\<in>set xs. 0 < x"
      using inv by (simp_all add: scope_books_def xs_def Let_def)
    have base: "tv_budget_seconds (with_base e ev) = b + sum_list xs"
      using inv ok s by (auto simp: scope_books_def with_base_def Let_def xs_def split: if_splits)
    have "ledger_count (de_ledger e) s = length xs" using old by (simp add: ledger_count_def)
    moreover have "g = \<lparr>tg_granted_seconds = tg_granted_seconds g, tg_new_budget = b + sum_list (xs @ [tg_granted_seconds g])\<rparr>"
      using g(3) base by (simp add: time_grant.splits add.assoc)
    ultimately show ?thesis
      unfolding scope_books_def new Let_def using e' old g base s by (auto simp: add.assoc)
  qed
qed

lemma scope_books_cong:
  "books e' = books e \<Longrightarrow> scope_books c s b e h \<Longrightarrow> scope_books c s b e' h"
  by (simp add: scope_books_def books_def Let_def)

lemma decision_step_books:
  assumes "scope_books c s b e h" and "cmd_with_budget s b cmd" and "decision_step e cmd = (vs, e')"
  shows "scope_books c s b e' (h @ vs)"
proof (cases cmd)
  case (Decide ev t w)
  obtain r e1 where d: "decide ev t w e = (r, e1)" by force
  then show ?thesis using decide_keeps_books [OF assms(1) _ d] assms(2,3) Decide by (simp add: decision_step_def)
next
  case Interrupt
  have "books (void_calls e) = books e" by (simp add: void_calls_def books_def)
  then show ?thesis using assms(1,3) Interrupt by (auto simp: decision_step_def intro: scope_books_cong)
next
  case Drain_Events
  have "books (e\<lparr>de_events := []\<rparr>) = books e" by (simp add: books_def)
  then show ?thesis using assms(1,3) Drain_Events by (auto simp: decision_step_def intro: scope_books_cong)
qed

interpretation decision_log: logged_machine decision_step "scope_books c s b" "cmd_with_budget s b"
  by unfold_locales (rule decision_step_books)


definition sample_section :: decision_section where
  "sample_section = \<lparr>ds_max_extensions = 2, ds_extension_growth = 2, ds_decision_model = None,
     ds_absolute_cap = (\<lambda>tp. 100)\<rparr>"

definition sample_evidence :: timeout_evidence where
  "sample_evidence = \<lparr>tv_trigger_point = TOOL_TIMEOUT, tv_session_id = ''s'', tv_run_id = ''r'', tv_subject_id = ''j'',
     tv_elapsed_seconds = 60, tv_budget_seconds = 60\<rparr>"

definition sample_wait :: "rat \<Rightarrow> decision_wait" where
  "sample_wait x = \<lparr>dw_hook_interrupts = 0, dw_call_interrupts = 0,
     dw_outcome = Call_Answered \<lparr>lr_answer = Parsed \<lparr>tr_action = Act_Continue, tr_extend_seconds = x, tr_note = [], tr_confidence = 1\<rparr>,
       lr_costs = [], lr_names = []\<rparr>\<rparr>"


text \<open>The extensions of one trigger point count against the others of the same scope.\<close>

lemma extensions_shared_by_triggers:
  "extensions_of (''s'', ''j'') (fst (run_obs decision_step (new_engine sample_section [])
     [Decide (sample_evidence\<lparr>tv_trigger_point := WATCHDOG_STALL\<rparr>) 0 (sample_wait 1),
      Decide (sample_evidence\<lparr>tv_trigger_point := WATCHDOG_STALL\<rparr>) 0 (sample_wait 1),
      Decide sample_evidence 0 (sample_wait 1)])) = [1, 2]"
  by code_simp

end
