(* ===== verification/Recovery_Tracker.thy ===== *)
theory Recovery_Tracker
  imports Machine
begin

text \<open>
  The life cycle of a recovery as clients see it, \<open>recovery/tracker.py\<close>: one recovery at a time, its
  states and the numbered events. Recovery ids are inputs, time stamps and event ids are left out, and
  the texts are kept where an operation stores them.
\<close>

datatype recovery_state = IDLE | DETECTED | ANALYZING | RETRYING | RECOVERED | EXHAUSTED

datatype recovery_kind = TRANSPORT_RETRY | MODEL_RECOVERY | GRAPH_REPLAN

definition recovery_kind_of :: "string \<Rightarrow> recovery_kind option" where
  "recovery_kind_of v =
     (if v = ''transport_retry'' then Some TRANSPORT_RETRY
      else if v = ''model_recovery'' then Some MODEL_RECOVERY
      else if v = ''graph_replan'' then Some GRAPH_REPLAN
      else None)"

record recovery_record =
  rv_recovery_id :: string
  rv_source_call_id :: string
  rv_kind :: recovery_kind
  rv_error_kind :: string
  rv_max_attempts :: int
  rv_attempts :: int
  rv_state :: recovery_state
  rv_strategies :: "string list"

datatype recovery_note =
    Started string recovery_kind int
  | Analyzing string
  | Attempted string int string
  | Recovery_Resolved string int
  | Recovery_Exhausted string int string

record recovery_tracker =
  rt_seq :: nat
  rt_active :: "recovery_record option"
  rt_state :: recovery_state

definition new_tracker :: recovery_tracker where
  "new_tracker = \<lparr>rt_seq = 0, rt_active = None, rt_state = IDLE\<rparr>"

type_synonym recovery_event = "nat \<times> recovery_note"

text \<open>An operation fails, or answers with the event it emitted, if any.\<close>

datatype recovery_error = Unknown_Recovery string | Bad_Recovery_Kind string

definition emit_note :: "recovery_note \<Rightarrow> recovery_tracker \<Rightarrow> recovery_event list \<times> recovery_tracker" where
  "emit_note n t = ([(rt_seq t + 1, n)], t\<lparr>rt_seq := rt_seq t + 1\<rparr>)"

definition with_record :: "recovery_record \<Rightarrow> recovery_tracker \<Rightarrow> recovery_tracker" where
  "with_record r t = t\<lparr>rt_active := Some r, rt_state := rv_state r\<rparr>"

text \<open>\<open>new_id\<close> is the fresh id.\<close>

definition detect ::
  "string \<Rightarrow> string \<Rightarrow> string \<Rightarrow> string \<Rightarrow> int \<Rightarrow> recovery_tracker \<Rightarrow> recovery_error + recovery_event list \<times> recovery_tracker" where
  "detect new_id source_call_id kind error_kind max_attempts t =
     (case rt_active t of
        Some r \<Rightarrow> Inr ([], t)
      | None \<Rightarrow>
          (case recovery_kind_of kind of
             None \<Rightarrow> Inl (Bad_Recovery_Kind kind)
           | Some k \<Rightarrow>
               let r = \<lparr>rv_recovery_id = new_id, rv_source_call_id = source_call_id, rv_kind = k,
                        rv_error_kind = error_kind, rv_max_attempts = max 1 max_attempts, rv_attempts = 0,
                        rv_state = DETECTED, rv_strategies = []\<rparr> in
               Inr (emit_note (Started new_id k (rv_max_attempts r)) (with_record r t))))"

definition require_recovery :: "string \<Rightarrow> recovery_tracker \<Rightarrow> recovery_error + recovery_record" where
  "require_recovery i t =
     (case rt_active t of
        None \<Rightarrow> Inl (Unknown_Recovery i)
      | Some r \<Rightarrow> if rv_recovery_id r \<noteq> i then Inl (Unknown_Recovery i) else Inr r)"

definition analyze_recovery :: "string \<Rightarrow> recovery_tracker \<Rightarrow> recovery_error + recovery_event list \<times> recovery_tracker" where
  "analyze_recovery i t =
     bind_result (require_recovery i t) (\<lambda>r. Inr (emit_note (Analyzing i) (with_record (r\<lparr>rv_state := ANALYZING\<rparr>) t)))"

definition attempt_recovery ::
  "string \<Rightarrow> int option \<Rightarrow> string \<Rightarrow> recovery_tracker \<Rightarrow> recovery_error + recovery_event list \<times> recovery_tracker" where
  "attempt_recovery i number strategy t =
     bind_result (require_recovery i t) (\<lambda>r.
       let n = max (rv_attempts r + 1) (case number of Some k \<Rightarrow> k | None \<Rightarrow> 0) in
       Inr (emit_note (Attempted i n strategy)
         (with_record (r\<lparr>rv_attempts := n, rv_strategies := rv_strategies r @ [strategy], rv_state := RETRYING\<rparr>) t)))"

text \<open>The end of a recovery; the record's attempts are raised first.\<close>

definition raised_attempts :: "recovery_record \<Rightarrow> int option \<Rightarrow> int" where
  "raised_attempts r attempts = (case attempts of Some k \<Rightarrow> max (rv_attempts r) k | None \<Rightarrow> rv_attempts r)"

definition resolve_recovery ::
  "string \<Rightarrow> int option \<Rightarrow> recovery_tracker \<Rightarrow> recovery_error + recovery_event list \<times> recovery_tracker" where
  "resolve_recovery i attempts t =
     bind_result (require_recovery i t) (\<lambda>r.
       case emit_note (Recovery_Resolved i (raised_attempts r attempts)) (t\<lparr>rt_state := RECOVERED\<rparr>) of
         (es, t1) \<Rightarrow> Inr (es, t1\<lparr>rt_active := None\<rparr>))"

definition exhaust_recovery ::
  "string \<Rightarrow> int option \<Rightarrow> string \<Rightarrow> recovery_tracker \<Rightarrow> recovery_error + recovery_event list \<times> recovery_tracker" where
  "exhaust_recovery i attempts final_error t =
     bind_result (require_recovery i t) (\<lambda>r.
       case emit_note (Recovery_Exhausted i (raised_attempts r attempts) final_error) (t\<lparr>rt_state := EXHAUSTED\<rparr>) of
         (es, t1) \<Rightarrow> Inr (es, t1\<lparr>rt_active := None\<rparr>))"

datatype recovery_cmd =
    Detect string string string string int
  | Analyze string
  | Attempt string "int option" string
  | Resolve string "int option"
  | Exhaust string "int option" string

definition recovery_op :: "recovery_cmd \<Rightarrow> recovery_tracker \<Rightarrow> recovery_error + recovery_event list \<times> recovery_tracker" where
  "recovery_op c =
     (case c of
        Detect i s k e m \<Rightarrow> detect i s k e m
      | Analyze i \<Rightarrow> analyze_recovery i
      | Attempt i n s \<Rightarrow> attempt_recovery i n s
      | Resolve i n \<Rightarrow> resolve_recovery i n
      | Exhaust i n e \<Rightarrow> exhaust_recovery i n e)"

text \<open>An operation that raises changes nothing.\<close>

definition recovery_step :: "recovery_tracker \<Rightarrow> recovery_cmd \<Rightarrow> recovery_event list \<times> recovery_tracker" where
  "recovery_step t c = (case recovery_op c t of Inl e \<Rightarrow> ([], t) | Inr x \<Rightarrow> x)"

end
