(* ===== verification/Recovery_Tracker_Correct.thy ===== *)
theory Recovery_Tracker_Correct
  imports Recovery_Tracker
begin

text \<open>
  The events of a tracker follow the grammar of recoveries: each is started, analysed and attempted
  any number of times with rising attempt numbers, and ended once before the next one starts; the
  events are numbered without gaps.
\<close>

text \<open>The automaton of the grammar: the recovery that is open, with its attempts.\<close>

fun recovery_next :: "(string \<times> int) option \<Rightarrow> recovery_note \<Rightarrow> (string \<times> int) option option" where
  "recovery_next None (Started i k m) = (if 1 \<le> m then Some (Some (i, 0)) else None)"
| "recovery_next (Some (j, n)) (Analyzing i) = (if i = j then Some (Some (j, n)) else None)"
| "recovery_next (Some (j, n)) (Attempted i a s) = (if i = j \<and> n < a then Some (Some (j, a)) else None)"
| "recovery_next (Some (j, n)) (Recovery_Resolved i a) = (if i = j \<and> n \<le> a then Some None else None)"
| "recovery_next (Some (j, n)) (Recovery_Exhausted i a e) = (if i = j \<and> n \<le> a then Some None else None)"
| "recovery_next _ _ = None"

fun recovery_reads :: "(string \<times> int) option \<Rightarrow> recovery_note list \<Rightarrow> (string \<times> int) option option" where
  "recovery_reads q [] = Some q"
| "recovery_reads q (n # ns) = (case recovery_next q n of None \<Rightarrow> None | Some q' \<Rightarrow> recovery_reads q' ns)"

lemma recovery_reads_append:
  "recovery_reads q (xs @ ys) = (case recovery_reads q xs of None \<Rightarrow> None | Some q' \<Rightarrow> recovery_reads q' ys)"
  by (induction q xs rule: recovery_reads.induct) (auto split: option.splits)

definition open_recovery :: "recovery_tracker \<Rightarrow> (string \<times> int) option" where
  "open_recovery t = map_option (\<lambda>r. (rv_recovery_id r, rv_attempts r)) (rt_active t)"

definition tracker_inv :: "recovery_tracker \<Rightarrow> recovery_event list \<Rightarrow> bool" where
  "tracker_inv t h \<longleftrightarrow>
     recovery_reads None (map snd h) = Some (open_recovery t) \<and> map fst h = [1..<rt_seq t + 1] \<and>
     (case rt_active t of Some r \<Rightarrow> rt_state t = rv_state r \<and> rv_state r \<in> {DETECTED, ANALYZING, RETRYING}
      | None \<Rightarrow> rt_state t \<in> {IDLE, RECOVERED, EXHAUSTED})"

lemma require_recovery_Inr: "require_recovery i t = Inr r \<longleftrightarrow> rt_active t = Some r \<and> rv_recovery_id r = i"
  by (auto simp: require_recovery_def split: option.splits)

lemma recovery_op_Inr:
  assumes "recovery_op c t = Inr (es, t')"
  shows "es = [] \<and> t' = t \<or>
    (\<exists>n. es = [(rt_seq t + 1, n)] \<and> rt_seq t' = rt_seq t + 1 \<and> recovery_next (open_recovery t) n = Some (open_recovery t') \<and>
       (case rt_active t' of Some r \<Rightarrow> rt_state t' = rv_state r \<and> rv_state r \<in> {DETECTED, ANALYZING, RETRYING}
        | None \<Rightarrow> rt_state t' \<in> {IDLE, RECOVERED, EXHAUSTED}))"
proof (cases c)
  case (Detect i s k e m)
  then show ?thesis using assms
    by (auto simp: recovery_op_def detect_def emit_note_def with_record_def open_recovery_def Let_def split: option.splits)
next
  case (Analyze i)
  then show ?thesis using assms
    by (auto simp: recovery_op_def analyze_recovery_def emit_note_def with_record_def open_recovery_def bind_result_Inr_iff require_recovery_Inr)
next
  case (Attempt i n s)
  then show ?thesis using assms
    by (auto simp: recovery_op_def attempt_recovery_def emit_note_def with_record_def open_recovery_def bind_result_Inr_iff
        require_recovery_Inr Let_def)
next
  case (Resolve i n)
  then show ?thesis using assms
    by (auto simp: recovery_op_def resolve_recovery_def emit_note_def open_recovery_def bind_result_Inr_iff require_recovery_Inr
        raised_attempts_def split: option.splits)
next
  case (Exhaust i n e)
  then show ?thesis using assms
    by (auto simp: recovery_op_def exhaust_recovery_def emit_note_def open_recovery_def bind_result_Inr_iff require_recovery_Inr
        raised_attempts_def split: option.splits)
qed

lemma recovery_step_inv:
  assumes "tracker_inv t h" and "recovery_step t c = (es, t')"
  shows "tracker_inv t' (h @ es)"
proof (cases "recovery_op c t")
  case (Inl e)
  then show ?thesis using assms by (simp add: recovery_step_def)
next
  case (Inr x)
  then have "recovery_op c t = Inr (es, t')" using assms(2) by (simp add: recovery_step_def)
  from recovery_op_Inr [OF this] show ?thesis
    using assms(1) by (auto simp: tracker_inv_def recovery_reads_append)
qed

interpretation recovery_log: logged_machine recovery_step tracker_inv "\<lambda>c. True"
  by unfold_locales (rule recovery_step_inv)

text \<open>
  C30. The events of every run of the tracker are numbered from 1 without gaps and follow the grammar
  of recoveries, and the recovery the tracker holds active is the one the events leave open.\<close>

theorem recovery_events_grammar:
  assumes "run_obs recovery_step new_tracker cmds = (events, t)"
  shows "recovery_reads None (map snd events) = Some (open_recovery t) \<and> map fst events = [1..<length events + 1]"
proof -
  have "tracker_inv new_tracker []" by (simp add: tracker_inv_def new_tracker_def open_recovery_def)
  then have inv: "tracker_inv t ([] @ events)" by (rule recovery_log.run_logged [OF _ _ assms]) simp
  then have "length (map fst events) = rt_seq t" by (simp add: tracker_inv_def del: length_map)
  then show ?thesis using inv by (simp add: tracker_inv_def)
qed

lemma recovery_events_grammar_witness:
  "recovery_reads None (map snd (fst (run_obs recovery_step new_tracker
     [Detect ''r'' ''c'' ''model_recovery'' ''timeout'' 0, Attempt ''r'' None ''retry'', Detect ''x'' ''c'' ''graph_replan'' ''e'' 2,
      Attempt ''r'' (Some 5) ''retry'', Resolve ''x'' None, Resolve ''r'' None]))) = Some None"
proof -
  let ?cmds = "[Detect ''r'' ''c'' ''model_recovery'' ''timeout'' 0, Attempt ''r'' None ''retry'', Detect ''x'' ''c'' ''graph_replan'' ''e'' 2,
      Attempt ''r'' (Some 5) ''retry'', Resolve ''x'' None, Resolve ''r'' None]"
  obtain events t where r: "run_obs recovery_step new_tracker ?cmds = (events, t)" by force
  have "open_recovery (snd (run_obs recovery_step new_tracker ?cmds)) = None" by code_simp
  then show ?thesis using recovery_events_grammar [OF r] r by simp
qed

text \<open>The limit of attempts is reported and never enforced.\<close>

lemma attempts_exceed_limit:
  "\<exists>r. rt_active (snd (run_obs recovery_step new_tracker
     [Detect ''r'' ''c'' ''model_recovery'' ''timeout'' 1, Attempt ''r'' None ''retry'', Attempt ''r'' None ''retry''])) = Some r \<and>
     rv_attempts r = 2 \<and> rv_max_attempts r = 1"
proof -
  have "map_option (\<lambda>r. (rv_attempts r, rv_max_attempts r)) (rt_active (snd (run_obs recovery_step new_tracker
     [Detect ''r'' ''c'' ''model_recovery'' ''timeout'' 1, Attempt ''r'' None ''retry'', Attempt ''r'' None ''retry'']))) = Some (2, 1)"
    by code_simp
  then show ?thesis by auto
qed

end
