(* ===== verification/Compaction.thy ===== *)
theory Compaction
  imports PyDict Machine "HOL-Library.Sublist"
begin

text \<open>
  The compaction of a conversation, \<open>core/compaction.py\<close>, with the check of the pairs of
  \<open>core/cache_policy.py\<close>: old tool results become tombstones, then the middle of the conversation is
  folded into one summary message. A message carries what the code reads of it. The marker that pins a
  discovery message holds a character above 255, so that it is a flag; the JSON text of a call is a field;
  content that is a list of blocks is given by its text, whether it has an image, and its token estimate.
  The summarizer, which calls a model, is an argument.
\<close>

section \<open>Messages\<close>

datatype message_type = M_System | M_Human | M_Ai | M_Tool | M_Other

datatype content = Text string | Blocks string bool nat

record chat_call =
  cc_id :: "string option"
  cc_name :: "string option"
  cc_json :: string

record chat_message =
  cm_type :: message_type
  cm_content :: content
  cm_tool_calls :: "chat_call list"
  cm_kwarg_calls :: "chat_call list"
  cm_tool_call_id :: "string option"
  cm_name :: "string option"
  cm_kwarg_name :: "string option"
  cm_summary :: bool
  cm_pinned :: bool

definition content_text :: "content \<Rightarrow> string" where
  "content_text c = (case c of Text s \<Rightarrow> s | Blocks s img n \<Rightarrow> s)"

definition has_image :: "content \<Rightarrow> bool" where
  "has_image c = (case c of Text s \<Rightarrow> False | Blocks s img n \<Rightarrow> img)"

definition content_tokens :: "(string \<Rightarrow> nat) \<Rightarrow> content \<Rightarrow> nat" where
  "content_tokens count c = (case c of Text s \<Rightarrow> count s | Blocks s img n \<Rightarrow> n)"

definition chars_estimate :: "string \<Rightarrow> nat" where
  "chars_estimate s = length s div 3"

text \<open>The calls of a message: its own, or those of its extra arguments.\<close>

definition message_calls :: "chat_message \<Rightarrow> chat_call list" where
  "message_calls m = (if cm_tool_calls m \<noteq> [] then cm_tool_calls m else cm_kwarg_calls m)"

definition occupancy_tokens :: "(string \<Rightarrow> nat) \<Rightarrow> chat_message list \<Rightarrow> nat" where
  "occupancy_tokens count ms =
     sum_list (map (\<lambda>m. content_tokens count (cm_content m) + sum_list (map (\<lambda>c. count (cc_json c)) (message_calls m))) ms)"

definition is_tool_result :: "chat_message \<Rightarrow> bool" where
  "is_tool_result m \<longleftrightarrow> cm_type m = M_Tool"

section \<open>Tombstones\<close>

text \<open>\<open>str.splitlines\<close> on code points below 256.\<close>

definition is_line_break :: "char \<Rightarrow> bool" where
  "is_line_break c \<longleftrightarrow> code_point c \<in> {10, 11, 12, 13, 28, 29, 30, 133}"

text \<open>The line so far, and whether the character before was a carriage return, which a line feed joins.\<close>

fun splitlines_from :: "string \<Rightarrow> bool \<Rightarrow> string \<Rightarrow> string list" where
  "splitlines_from line cr [] = (if line = [] then [] else [line])"
| "splitlines_from line cr (c # s) =
     (if cr \<and> code_point c = 10 then splitlines_from [] False s
      else if is_line_break c then line # splitlines_from [] (code_point c = 13) s
      else splitlines_from (line @ [c]) False s)"

definition splitlines :: "string \<Rightarrow> string list" where
  "splitlines s = splitlines_from [] False s"

definition SPILL_PATH_PREFIX :: string where "SPILL_PATH_PREFIX = ''Full output saved to:''"
definition TOOL_RESULT_TOMBSTONE :: string where "TOOL_RESULT_TOMBSTONE = ''[tool result cleared]''"

definition spill_path_lines :: "string \<Rightarrow> string list" where
  "spill_path_lines s = map strip (filter (\<lambda>l. starts_with (strip l) SPILL_PATH_PREFIX) (splitlines s))"

definition newline :: string where "newline = [char_of (10 :: nat)]"

definition tombstone_body :: "string \<Rightarrow> string" where
  "tombstone_body s =
     (let paths = spill_path_lines s in
      if paths = [] then TOOL_RESULT_TOMBSTONE else TOOL_RESULT_TOMBSTONE @ newline @ join_with newline paths)"

definition is_cleared_tombstone :: "string \<Rightarrow> bool" where
  "is_cleared_tombstone s =
     (case filter (\<lambda>l. l \<noteq> []) (map strip (splitlines s)) of
        [] \<Rightarrow> False
      | l # ls \<Rightarrow> l = TOOL_RESULT_TOMBSTONE \<and> list_all (\<lambda>x. starts_with x SPILL_PATH_PREFIX) ls)"

definition named :: "string option \<Rightarrow> bool" where
  "named n \<longleftrightarrow> n \<noteq> None \<and> n \<noteq> Some []"

definition tool_result_name :: "chat_message \<Rightarrow> string" where
  "tool_result_name m =
     (if named (cm_name m) then the (cm_name m) else if named (cm_kwarg_name m) then the (cm_kwarg_name m) else [])"

definition tool_names_by_call_id :: "chat_message list \<Rightarrow> (string, string) pydict" where
  "tool_names_by_call_id ms =
     fold (\<lambda>c d. if named (cc_id c) \<and> named (cc_name c) then dict_set (the (cc_id c)) (the (cc_name c)) d else d)
       (concat (map message_calls ms)) []"

definition resolved_tool_name :: "(string, string) pydict \<Rightarrow> chat_message \<Rightarrow> string" where
  "resolved_tool_name names m =
     (if tool_result_name m \<noteq> [] then tool_result_name m
      else dict_get_or names (case cm_tool_call_id m of Some i \<Rightarrow> i | None \<Rightarrow> []) [])"

text \<open>The tool results after a position; the last ones are kept.\<close>

fun recent_results :: "nat \<Rightarrow> chat_message list \<Rightarrow> bool list" where
  "recent_results keep [] = []"
| "recent_results keep (m # ms) = (length (filter is_tool_result ms) < keep) # recent_results keep ms"

definition cleared :: "chat_message \<Rightarrow> chat_message" where
  "cleared m = m\<lparr>cm_content := Text (tombstone_body (content_text (cm_content m)))\<rparr>"

text \<open>Whether a message is cleared, given whether it is a recent tool result.\<close>

definition clears :: "(string, string) pydict \<Rightarrow> string list \<Rightarrow> chat_message \<Rightarrow> bool \<Rightarrow> bool" where
  "clears names exclude m recent \<longleftrightarrow>
     is_tool_result m \<and> \<not> cm_pinned m \<and> \<not> recent \<and>
     resolved_tool_name names m \<notin> set (filter (\<lambda>n. n \<noteq> []) exclude) \<and>
     \<not> is_cleared_tombstone (content_text (cm_content m))"

definition microcompact_messages :: "nat \<Rightarrow> string list \<Rightarrow> chat_message list \<Rightarrow> chat_message list" where
  "microcompact_messages keep exclude ms =
     map2 (\<lambda>m recent. if clears (tool_names_by_call_id ms) exclude m recent then cleared m else m)
       ms (recent_results keep ms)"

text \<open>The texts that were cleared, for the estimate of what was released.\<close>

definition cleared_texts :: "nat \<Rightarrow> string list \<Rightarrow> chat_message list \<Rightarrow> string list" where
  "cleared_texts keep exclude ms =
     map (\<lambda>(m, recent). content_text (cm_content m))
       (filter (\<lambda>(m, recent). clears (tool_names_by_call_id ms) exclude m recent) (zip ms (recent_results keep ms)))"

section \<open>Pairs\<close>

definition call_ids :: "chat_message \<Rightarrow> string list" where
  "call_ids m = remdups (map (the \<circ> cc_id) (filter (\<lambda>c. named (cc_id c)) (cm_tool_calls m)))"

text \<open>\<open>tool_pair_integrity\<close>: the ids the last assistant message expects, and the id of the tool message
  just before.\<close>

fun pairs_from :: "string list \<Rightarrow> string option \<Rightarrow> chat_message list \<Rightarrow> bool" where
  "pairs_from expecting prev [] = (expecting = [])"
| "pairs_from expecting prev (m # ms) =
     (case cm_type m of
        M_Ai \<Rightarrow> pairs_from (call_ids m) None ms
      | M_Tool \<Rightarrow>
          (if \<not> named (cm_tool_call_id m) then False
           else if the (cm_tool_call_id m) \<in> set expecting
           then pairs_from (remove1 (the (cm_tool_call_id m)) expecting) (cm_tool_call_id m) ms
           else if cm_tool_call_id m = prev then pairs_from expecting prev ms
           else False)
      | _ \<Rightarrow> pairs_from [] None ms)"

definition tool_pair_integrity :: "chat_message list \<Rightarrow> bool" where
  "tool_pair_integrity ms = pairs_from [] None ms"

text \<open>The tool results that directly follow an assistant message and answer its calls.\<close>

fun collect_results :: "string list \<Rightarrow> chat_message list \<Rightarrow> chat_message list \<times> chat_message list" where
  "collect_results ids [] = ([], [])"
| "collect_results ids (m # ms) =
     (if ids = [] \<or> cm_type m \<noteq> M_Tool then ([], m # ms)
      else (case cm_tool_call_id m of
              None \<Rightarrow> ([], m # ms)
            | Some i \<Rightarrow>
                if i \<in> set ids
                then (case collect_results (remove1 i ids) ms of (us, rest) \<Rightarrow> (m # us, rest))
                else ([], m # ms)))"

lemma collect_results_length: "collect_results ids ms = (us, rest) \<Longrightarrow> length us + length rest = length ms"
  by (induction ids ms arbitrary: us rest rule: collect_results.induct) (auto split: if_splits option.splits prod.splits)

lemma collect_results_rest: "length (snd (collect_results ids ms)) \<le> length ms"
  using collect_results_length [of ids ms] by (cases "collect_results ids ms") auto

text \<open>Units: an assistant message with its results, or a message alone.\<close>

function split_units :: "chat_message list \<Rightarrow> chat_message list list" where
  "split_units [] = []"
| "split_units (m # ms) =
     (if cm_type m = M_Ai \<and> cm_tool_calls m \<noteq> []
      then (m # fst (collect_results (call_ids m) ms)) # split_units (snd (collect_results (call_ids m) ms))
      else [m] # split_units ms)"
  by pat_completeness auto
termination
  by (relation "measure length") (auto intro: le_imp_less_Suc collect_results_rest)

section \<open>Folding\<close>

type_synonym message_unit = "nat \<times> chat_message list"

definition unit_has :: "message_type \<Rightarrow> chat_message list \<Rightarrow> bool" where
  "unit_has t u = list_ex (\<lambda>m. cm_type m = t) u"

definition unit_has_image :: "chat_message list \<Rightarrow> bool" where
  "unit_has_image u = list_ex (\<lambda>m. has_image (cm_content m)) u"

definition unit_pinned :: "chat_message list \<Rightarrow> bool" where
  "unit_pinned u = list_ex cm_pinned u"

definition latest_human :: "message_unit list \<Rightarrow> message_unit option" where
  "latest_human us = find (\<lambda>(i, u). unit_has M_Human u) (rev us)"

text \<open>The loop over the units from the last one; it has seen some human turns.\<close>

fun partition_from :: "int \<Rightarrow> nat option \<Rightarrow> int \<Rightarrow> message_unit list \<Rightarrow> message_unit list \<times> message_unit list" where
  "partition_from keep current seen [] = ([], [])"
| "partition_from keep current seen ((i, u) # us) =
     (let seen' = (if unit_has M_Human u then seen + 1 else seen) in
      if unit_has M_System u \<or> current = Some i then
        (case partition_from keep current seen' us of (fs, ts) \<Rightarrow> (fs, ts @ [(i, u)]))
      else if seen \<ge> keep then
        (case partition_from keep current seen us of (fs, ts) \<Rightarrow> (fs @ [(i, u)], ts))
      else
        (case partition_from keep current seen' us of (fs, ts) \<Rightarrow> (fs, ts @ [(i, u)])))"

definition partition_tail_units :: "int \<Rightarrow> message_unit list \<Rightarrow> message_unit list \<times> message_unit list" where
  "partition_tail_units keep us =
     (let current = (case latest_human us of
        Some (i, u) \<Rightarrow> if unit_has_image u then Some i else None | None \<Rightarrow> None) in
      partition_from keep current 0 (rev us))"

text \<open>The head that stays in front, and the body without former summaries.\<close>

definition is_summary :: "chat_message \<Rightarrow> bool" where
  "is_summary m \<longleftrightarrow> cm_type m = M_System \<and> cm_summary m"

definition fold_head :: "chat_message list \<Rightarrow> chat_message list \<times> chat_message list" where
  "fold_head ms =
     (let (h1, r1) = (case ms of
            m # r \<Rightarrow> if cm_type m = M_System \<and> \<not> cm_summary m then ([m], r) else ([], ms)
          | [] \<Rightarrow> ([], [])) in
      case r1 of
        m # r \<Rightarrow>
          if cm_type m = M_Human \<and> \<not> (has_image (cm_content m) \<and> list_ex (\<lambda>x. cm_type x = M_Human) r)
          then (h1 @ [m], r) else (h1, r1)
      | [] \<Rightarrow> (h1, r1))"

definition fold_body :: "chat_message list \<Rightarrow> chat_message list \<times> chat_message list" where
  "fold_body ms = (case fold_head ms of (h, r) \<Rightarrow> (h, filter (\<lambda>m. \<not> is_summary m) r))"

definition all_tombstones :: "chat_message list \<Rightarrow> bool" where
  "all_tombstones u =
     list_all (\<lambda>m. is_cleared_tombstone (content_text (cm_content m))) (filter is_tool_result u)"

text \<open>The newest unit with tool results that are all tombstones is taken out, from the reversed list.\<close>

fun take_out_newest :: "message_unit list \<Rightarrow> message_unit list" where
  "take_out_newest [] = []"
| "take_out_newest ((i, u) # us) =
     (if unit_has M_Tool u \<and> all_tombstones u then us else (i, u) # take_out_newest us)"

definition retain_visible_tombstone :: "message_unit list \<Rightarrow> message_unit list \<Rightarrow> message_unit list" where
  "retain_visible_tombstone fs ts =
     (if list_ex (\<lambda>(i, u). unit_has M_Tool u) ts then fs else rev (take_out_newest (rev fs)))"

text \<open>The units that are folded.\<close>

definition fold_units :: "int \<Rightarrow> message_unit list \<Rightarrow> message_unit list" where
  "fold_units keep us =
     (case partition_tail_units keep us of
        (fs, ts) \<Rightarrow> filter (\<lambda>(i, u). \<not> unit_pinned u) (retain_visible_tombstone fs ts))"

definition body_units :: "chat_message list \<Rightarrow> message_unit list" where
  "body_units body = enumerate 0 (split_units body)"

definition select_fold_msgs :: "chat_message list \<Rightarrow> int \<Rightarrow> chat_message list" where
  "select_fold_msgs ms keep = concat (map snd (fold_units keep (body_units (snd (fold_body ms)))))"

section \<open>Summary texts\<close>

definition build_summary_message :: "string \<Rightarrow> string \<Rightarrow> string \<Rightarrow> string" where
  "build_summary_message objective work_state next_move =
     join_with newline
       [''<summary>'', ''Objective: '' @ strip objective, ''Work State: '' @ strip work_state,
        ''Next Move: '' @ strip next_move, ''</summary>'']"

definition build_state_summary_message ::
  "string \<Rightarrow> string \<Rightarrow> string \<Rightarrow> string \<Rightarrow> string \<Rightarrow> string \<Rightarrow> string" where
  "build_state_summary_message objective constraints progress files next_step blockers =
     join_with newline
       [''<summary>'', ''Objective: '' @ strip objective, ''Constraints: '' @ strip constraints,
        ''Progress: '' @ strip progress, ''Files Touched: '' @ strip files, ''Next Step: '' @ strip next_step,
        ''Blockers: '' @ strip blockers, ''</summary>'']"

definition SUMMARY_LABELS :: "string list" where
  "SUMMARY_LABELS =
     [''objective'', ''constraints'', ''progress'', ''work state'', ''files touched'', ''next step'', ''next move'', ''blockers'']"

text \<open>\<open>str.partition\<close> at the first colon.\<close>

definition partition_colon :: "string \<Rightarrow> string \<times> bool \<times> string" where
  "partition_colon s =
     (let h = takeWhile (\<lambda>c. c \<noteq> CHR '':'') s; r = dropWhile (\<lambda>c. c \<noteq> CHR '':'') s in
      (h, r \<noteq> [], drop 1 r))"

fun summary_field_loop :: "string \<Rightarrow> bool \<Rightarrow> string list \<Rightarrow> string list" where
  "summary_field_loop want active [] = []"
| "summary_field_loop want active (raw # ls) =
     (let l = strip raw; (h, sep, t) = partition_colon l in
      if lower l \<in> {''<summary>'', ''</summary>''} then (if active then [] else summary_field_loop want active ls)
      else if sep \<and> lower (strip h) \<in> set SUMMARY_LABELS then
        (if active then []
         else if lower (strip h) = want
         then (if strip t \<noteq> [] then strip t # summary_field_loop want True ls else summary_field_loop want True ls)
         else summary_field_loop want active ls)
      else if active \<and> l \<noteq> [] then l # summary_field_loop want active ls
      else summary_field_loop want active ls)"

definition summary_field :: "string \<Rightarrow> string \<Rightarrow> string" where
  "summary_field s label = strip (join_with newline (summary_field_loop (lower label) False (splitlines s)))"

definition either_text :: "string \<Rightarrow> string \<Rightarrow> string" where
  "either_text a b = (if a \<noteq> [] then a else b)"

definition merge_rule_summary :: "string \<Rightarrow> string \<Rightarrow> string \<Rightarrow> string \<Rightarrow> string" where
  "merge_rule_summary prior objective work_state next_move =
     build_state_summary_message
       (either_text (summary_field prior ''Objective'') objective)
       (summary_field prior ''Constraints'')
       (either_text (summary_field prior ''Progress'') (either_text (summary_field prior ''Work State'') work_state))
       (summary_field prior ''Files Touched'')
       (either_text next_move (either_text (summary_field prior ''Next Step'') (summary_field prior ''Next Move'')))
       (summary_field prior ''Blockers'')"

section \<open>The fold\<close>

definition summary_message :: "string \<Rightarrow> chat_message" where
  "summary_message s =
     \<lparr>cm_type = M_System, cm_content = Text s, cm_tool_calls = [], cm_kwarg_calls = [], cm_tool_call_id = None,
      cm_name = None, cm_kwarg_name = None, cm_summary = True, cm_pinned = False\<rparr>"

text \<open>The first text of a type that is not empty, and the text of the last message of a type.\<close>

definition first_text :: "message_type \<Rightarrow> chat_message list \<Rightarrow> string" where
  "first_text t ms =
     (case find (\<lambda>m. cm_type m = t \<and> content_text (cm_content m) \<noteq> []) ms of
        Some m \<Rightarrow> take 200 (content_text (cm_content m)) | None \<Rightarrow> [])"

definition last_text :: "message_type \<Rightarrow> chat_message list \<Rightarrow> string" where
  "last_text t ms =
     (case find (\<lambda>m. cm_type m = t) (rev ms) of
        Some m \<Rightarrow> take 200 (content_text (cm_content m)) | None \<Rightarrow> [])"

type_synonym summarizer = "chat_message list \<Rightarrow> string option \<Rightarrow> string option"

text \<open>The text of the summary, and whether a model wrote it. A former summary counts if it is not empty.\<close>

definition summary_text ::
  "chat_message list \<Rightarrow> chat_message list \<Rightarrow> string option \<Rightarrow> summarizer option \<Rightarrow> bool \<Rightarrow> string \<times> bool" where
  "summary_text ms folded existing summarizer reuse =
     (let objective = first_text M_Human ms; work_state = first_text M_Ai ms; next_move = last_text M_Human ms;
          rule = (if named existing then merge_rule_summary (the existing) objective work_state next_move
                  else build_summary_message objective work_state next_move) in
      if reuse \<and> named existing then (the existing, False)
      else (case summarizer of
              None \<Rightarrow> (rule, False)
            | Some f \<Rightarrow> (case f folded existing of Some t \<Rightarrow> (t, True) | None \<Rightarrow> (rule, False))))"

text \<open>The units in order, the first folded one replaced by the summary, the other folded ones dropped.\<close>

fun rebuild :: "nat set \<Rightarrow> chat_message option \<Rightarrow> message_unit list \<Rightarrow> chat_message list" where
  "rebuild folded summary [] = []"
| "rebuild folded summary ((i, u) # us) =
     (if i \<in> folded
      then (case summary of Some s \<Rightarrow> s # rebuild folded None us | None \<Rightarrow> rebuild folded None us)
      else u @ rebuild folded summary us)"

definition fold_middle_section ::
  "chat_message list \<Rightarrow> int \<Rightarrow> string option \<Rightarrow> summarizer option \<Rightarrow> bool \<Rightarrow> chat_message list" where
  "fold_middle_section ms keep existing summarizer reuse =
     (let (h, body) = fold_body ms;
          us = body_units body;
          fs = fold_units keep us;
          folded = concat (map snd fs);
          kept = (if named existing then [summary_message (the existing)] else []) in
      if ms = [] then []
      else if body = [] then h @ kept
      else if folded = [] then h @ kept @ body
      else h @ rebuild (set (map fst fs)) (Some (summary_message (fst (summary_text ms folded existing summarizer reuse)))) us)"

section \<open>The tail budget\<close>

definition tokens_of_messages :: "chat_message list \<Rightarrow> nat" where
  "tokens_of_messages ms = sum_list (map (\<lambda>m. content_tokens chars_estimate (cm_content m)) ms)"

definition first_summary :: "chat_message list \<Rightarrow> string option" where
  "first_summary ms = map_option (\<lambda>m. content_text (cm_content m)) (find is_summary ms)"

definition fixed_overhead :: "chat_message list \<Rightarrow> nat" where
  "fixed_overhead ms = tokens_of_messages (filter (\<lambda>m. cm_type m = M_System) ms)"

definition seeded_keep_tail :: "int \<Rightarrow> int \<Rightarrow> int \<Rightarrow> int \<Rightarrow> int" where
  "seeded_keep_tail current tokens_after fixed budget_floor =
     (let c = max 0 current; overflow = (tokens_after - fixed) - budget_floor; span = max 1 (tokens_after - fixed) in
      if overflow \<le> 0 \<or> c \<le> 0 then c
      else max 0 (c - max 1 ((c * overflow + span - 1) div span)))"

text \<open>The loop that tightens the tail, with the rounds its guard leaves.\<close>

fun tighten :: "nat \<Rightarrow> string option \<Rightarrow> int \<Rightarrow> int \<Rightarrow> int \<Rightarrow> chat_message list \<Rightarrow> chat_message list" where
  "tighten 0 existing fixed budget_floor keep ms = ms"
| "tighten (Suc g) existing fixed budget_floor keep ms =
     (let after = int (tokens_of_messages ms); nxt = seeded_keep_tail keep after fixed budget_floor;
          tighter = fold_middle_section ms nxt existing None True in
      if \<not> (after - fixed > budget_floor \<and> keep > 0) \<or> nxt \<ge> keep \<or>
         int (tokens_of_messages tighter) \<ge> after \<or>
         list_ex is_tool_result ms \<and> \<not> list_ex is_tool_result tighter
      then ms
      else tighten g existing fixed budget_floor nxt tighter)"

definition compact_messages :: "chat_message list \<Rightarrow> int \<Rightarrow> summarizer option \<Rightarrow> chat_message list" where
  "compact_messages ms tail_turns summarizer =
     (let folded = fold_middle_section ms tail_turns (first_summary ms) summarizer False;
          fixed = fixed_overhead folded;
          budget_floor = max 0 (int (tokens_of_messages ms div 4) - int fixed);
          result = tighten 8 (first_summary folded) (int fixed) budget_floor tail_turns folded in
      if \<not> tool_pair_integrity result then ms else result)"

section \<open>The ladder\<close>

definition KEEP_RECENT_TOOL_RESULTS :: nat where "KEEP_RECENT_TOOL_RESULTS = 2"
definition DEFAULT_TAIL_TURNS :: int where "DEFAULT_TAIL_TURNS = 2"

datatype rung = Rung_None | Rung_Microcompact | Rung_Fold

definition usable_tokens :: "int \<Rightarrow> int \<Rightarrow> int" where
  "usable_tokens window reserved = max 0 (window - max 0 reserved)"

record compaction_options =
  co_force :: bool
  co_occupancy :: "int option"
  co_context_window :: int
  co_reserved :: int
  co_count :: "string \<Rightarrow> nat"
  co_exclude_tools :: "string list"
  co_clear_at_least :: int

definition kept_results :: "compaction_options \<Rightarrow> nat" where
  "kept_results c = (if co_force c then 0 else KEEP_RECENT_TOOL_RESULTS)"

definition plan_compaction :: "compaction_options \<Rightarrow> chat_message list \<Rightarrow> rung \<times> chat_message list" where
  "plan_compaction c ms =
     (let occ = (case co_occupancy c of Some n \<Rightarrow> n | None \<Rightarrow> int (occupancy_tokens (co_count c) ms));
          usable = usable_tokens (co_context_window c) (co_reserved c) in
      if occ \<le> usable \<and> \<not> co_force c then (Rung_None, [])
      else
        let micro = microcompact_messages (kept_results c) (co_exclude_tools c) ms;
            released = sum_list (map (co_count c) (cleared_texts (kept_results c) (co_exclude_tools c) ms)) in
        if \<not> co_force c \<and> int (occupancy_tokens (co_count c) micro) \<le> usable \<and> int released \<ge> max 0 (co_clear_at_least c)
        then (Rung_Microcompact, [])
        else (Rung_Fold, select_fold_msgs micro DEFAULT_TAIL_TURNS))"

definition run_compaction_ladder :: "compaction_options \<Rightarrow> summarizer option \<Rightarrow> chat_message list \<Rightarrow> chat_message list" where
  "run_compaction_ladder c summarizer ms =
     (let micro = microcompact_messages (kept_results c) (co_exclude_tools c) ms in
      case fst (plan_compaction c ms) of
        Rung_None \<Rightarrow> ms
      | Rung_Microcompact \<Rightarrow> micro
      | Rung_Fold \<Rightarrow> compact_messages micro DEFAULT_TAIL_TURNS summarizer)"

end
