(* ===== verification/Compaction_Correct.thy ===== *)
theory Compaction_Correct
  imports Compaction
begin

text \<open>
  Compaction never separates an assistant message from the results of its calls, keeps every system
  message and the order of what it keeps, and leaves at most one summary. Clearing tool results twice
  clears nothing more.
\<close>

section \<open>Units\<close>

text \<open>A message with calls and exactly one result for each, or a message that is no result.\<close>

definition whole_unit :: "chat_message list \<Rightarrow> bool" where
  "whole_unit u =
     (case u of
        [] \<Rightarrow> False
      | m # rs \<Rightarrow>
          if cm_type m = M_Ai \<and> cm_tool_calls m \<noteq> []
          then list_all is_tool_result rs \<and> distinct (map cm_tool_call_id rs) \<and>
            set (map cm_tool_call_id rs) = Some ` set (call_ids m)
          else rs = [] \<and> cm_type m \<noteq> M_Tool)"

text \<open>A conversation is paired if it is a sequence of such units. The proofs show that the code's own
  units are then these.\<close>

definition paired :: "chat_message list \<Rightarrow> bool" where
  "paired ms \<longleftrightarrow> (\<exists>us. ms = concat us \<and> list_all whole_unit us)"

lemma collect_results_append: "collect_results ids ms = (us, rest) \<Longrightarrow> us @ rest = ms"
  by (induction ids ms arbitrary: us rest rule: collect_results.induct) (auto split: if_splits option.splits prod.splits)

lemma concat_split_units [simp]: "concat (split_units ms) = ms"
proof (induction ms rule: split_units.induct)
  case 1
  then show ?case by simp
next
  case (2 m ms)
  have "fst (collect_results (call_ids m) ms) @ snd (collect_results (call_ids m) ms) = ms"
    by (rule collect_results_append) simp
  then show ?case using 2 by simp
qed

lemma call_ids_distinct: "distinct (call_ids m)"
  by (simp add: call_ids_def)

lemma answered_rest:
  assumes "distinct (map f (r # rs))" and "set (map f (r # rs)) = Some ` set ids" and "distinct ids"
  obtains i where "f r = Some i" and "i \<in> set ids" and "set (map f rs) = Some ` set (remove1 i ids)"
proof -
  have "f r \<in> Some ` set ids" using assms(2) by auto
  then obtain i where i: "f r = Some i" "i \<in> set ids" by auto
  have "set (map f rs) = set (map f (r # rs)) - {f r}" using assms(1) by (simp add: Diff_insert_absorb)
  also have "\<dots> = Some ` (set ids - {i})" using assms(2) i by auto
  finally show ?thesis using that i assms(3) by simp
qed

lemma collect_results_whole:
  assumes "list_all is_tool_result rs" and "distinct (map cm_tool_call_id rs)"
    and "set (map cm_tool_call_id rs) = Some ` set ids" and "distinct ids"
  shows "collect_results ids (rs @ rest) = (rs, rest)"
  using assms
proof (induction rs arbitrary: ids)
  case Nil
  then show ?case by (cases rest) auto
next
  case (Cons r rs)
  obtain i where i: "cm_tool_call_id r = Some i" "i \<in> set ids"
    "set (map cm_tool_call_id rs) = Some ` set (remove1 i ids)"
    using Cons.prems(2-4) by (rule answered_rest)
  have "collect_results (remove1 i ids) (rs @ rest) = (rs, rest)"
    using Cons.prems i(3) by (intro Cons.IH) auto
  then show ?case using i Cons.prems(1) by (auto simp: is_tool_result_def)
qed

lemma split_units_whole:
  assumes "whole_unit u"
  shows "split_units (u @ rest) = u # split_units rest"
proof (cases u)
  case Nil
  then show ?thesis using assms by (simp add: whole_unit_def)
next
  case (Cons m rs)
  then show ?thesis using assms collect_results_whole [of rs "call_ids m" rest] call_ids_distinct
    by (auto simp: whole_unit_def split: if_splits)
qed

lemma split_units_concat: "list_all whole_unit us \<Longrightarrow> split_units (concat us) = us"
  by (induction us) (simp_all add: split_units_whole)

lemma paired_split_units: "paired ms \<longleftrightarrow> list_all whole_unit (split_units ms)"
proof
  assume "list_all whole_unit (split_units ms)"
  then show "paired ms" unfolding paired_def by (intro exI [of _ "split_units ms"]) simp
next
  assume "paired ms"
  then show "list_all whole_unit (split_units ms)" by (auto simp: paired_def split_units_concat)
qed

lemma pairedI: "ms = concat us \<Longrightarrow> list_all whole_unit us \<Longrightarrow> paired ms"
  using paired_def by blast

lemma paired_append: "paired ms \<Longrightarrow> paired ns \<Longrightarrow> paired (ms @ ns)"
  unfolding paired_def by (metis concat_append list_all_append)

definition plain_message :: "chat_message \<Rightarrow> bool" where
  "plain_message m \<longleftrightarrow> cm_type m \<notin> {M_Ai, M_Tool}"

lemma paired_plain: "list_all plain_message ms \<Longrightarrow> paired ms"
proof (rule pairedI)
  show "ms = concat (map (\<lambda>m. [m]) ms)" by simp
  assume "list_all plain_message ms"
  then show "list_all whole_unit (map (\<lambda>m. [m]) ms)"
    by (auto simp: list_all_iff plain_message_def whole_unit_def)
qed

lemma paired_Cons_plain: "plain_message m \<Longrightarrow> paired (m # ms) \<longleftrightarrow> paired ms"
  by (simp add: paired_split_units plain_message_def whole_unit_def)

section \<open>Pairs pass the check\<close>

lemma pairs_from_results:
  assumes "list_all is_tool_result rs" and "distinct (map cm_tool_call_id rs)"
    and "set (map cm_tool_call_id rs) = Some ` set ids" and "distinct ids" and "[] \<notin> set ids"
  shows "\<exists>p'. pairs_from ids p (rs @ rest) = pairs_from [] p' rest"
  using assms
proof (induction rs arbitrary: ids p)
  case Nil
  then show ?case by auto
next
  case (Cons r rs)
  obtain i where i: "cm_tool_call_id r = Some i" "i \<in> set ids"
    "set (map cm_tool_call_id rs) = Some ` set (remove1 i ids)"
    using Cons.prems(2-4) by (rule answered_rest)
  have "\<exists>p'. pairs_from (remove1 i ids) (Some i) (rs @ rest) = pairs_from [] p' rest"
    using Cons.prems i(3) by (intro Cons.IH) (auto dest: notin_set_remove1)
  then show ?case using i Cons.prems(1,5) by (auto simp: is_tool_result_def named_def)
qed

lemma call_ids_named: "[] \<notin> set (call_ids m)"
  by (auto simp: call_ids_def named_def)

lemma pairs_from_whole:
  assumes "whole_unit u"
  shows "\<exists>p'. pairs_from e p (u @ rest) = pairs_from [] p' rest"
proof (cases u)
  case Nil
  then show ?thesis using assms by (simp add: whole_unit_def)
next
  case (Cons m rs)
  show ?thesis
  proof (cases "cm_type m = M_Ai \<and> cm_tool_calls m \<noteq> []")
    case True
    then show ?thesis
      using assms Cons pairs_from_results [of rs "call_ids m" None rest] call_ids_distinct call_ids_named
      by (simp add: whole_unit_def)
  next
    case False
    moreover have "call_ids m = []" if "cm_tool_calls m = []" using that by (simp add: call_ids_def)
    ultimately show ?thesis using assms Cons
      by (cases "cm_type m") (auto simp: whole_unit_def)
  qed
qed

lemma paired_integrity:
  assumes "paired ms"
  shows "tool_pair_integrity ms"
proof -
  have "pairs_from [] p (concat us)" if "list_all whole_unit us" for us p
    using that
  proof (induction us arbitrary: p)
    case Nil
    then show ?case by simp
  next
    case (Cons u us)
    obtain p' where "pairs_from [] p (u @ concat us) = pairs_from [] p' (concat us)"
      using pairs_from_whole [of u "[]" p "concat us"] Cons.prems by auto
    then show ?case using Cons by simp
  qed
  then show ?thesis using assms by (auto simp: paired_def tool_pair_integrity_def)
qed

section \<open>The fold keeps units whole\<close>

lemma fold_head_parts:
  assumes "fold_head ms = (h, r)"
  shows "ms = h @ r \<and> list_all plain_message h \<and> list_all (\<lambda>m. \<not> is_summary m) h"
  using assms by (auto simp: fold_head_def Let_def plain_message_def is_summary_def split: list.splits if_splits)

lemma paired_drop_plain: "list_all plain_message h \<Longrightarrow> paired (h @ r) \<longleftrightarrow> paired r"
  by (induction h) (simp_all add: paired_Cons_plain)

lemma whole_unit_filter:
  assumes "whole_unit u"
  shows "filter (\<lambda>m. \<not> is_summary m) u = (if u \<in> (\<lambda>m. [m]) ` {m. is_summary m} then [] else u)"
proof (cases u)
  case Nil
  then show ?thesis by simp
next
  case (Cons m rs)
  have "filter (\<lambda>m. \<not> is_summary m) rs = rs" if "list_all is_tool_result rs"
    using that by (auto simp: filter_id_conv list_all_iff is_tool_result_def is_summary_def)
  then show ?thesis using assms Cons by (auto simp: whole_unit_def is_summary_def split: if_splits)
qed

lemma paired_filter:
  assumes "paired ms"
  shows "paired (filter (\<lambda>m. \<not> is_summary m) ms)"
proof -
  let ?s = "\<lambda>u. u \<in> (\<lambda>m. [m]) ` {m. is_summary m}"
  have "filter (\<lambda>m. \<not> is_summary m) (concat us) = concat (filter (\<lambda>u. \<not> ?s u) us)" if "list_all whole_unit us" for us
    using that by (induction us) (auto simp: whole_unit_filter)
  moreover have "list_all whole_unit (filter P us)" if "list_all whole_unit us" for P us
    using that by (auto simp: list_all_iff)
  ultimately show ?thesis using assms unfolding paired_def by blast
qed

lemma rebuild_units:
  assumes "list_all whole_unit (map snd us)" and "\<And>s. summary = Some s \<Longrightarrow> plain_message s"
  shows "paired (rebuild folded summary us)"
  using assms
proof (induction folded summary us rule: rebuild.induct)
  case (1 folded summary)
  then show ?case by (simp add: paired_split_units)
next
  case (2 folded summary i u us)
  show ?case
  proof (cases "i \<in> folded")
    case True
    then show ?thesis using 2 by (cases summary) (auto simp: paired_Cons_plain)
  next
    case False
    have "paired u" using "2.prems"(1) by (intro pairedI [of u "[u]"]) simp_all
    then show ?thesis using False 2 by (auto intro: paired_append)
  qed
qed

lemma summary_message_facts [simp]:
  "plain_message (summary_message s)" "is_summary (summary_message s)" "cm_type (summary_message s) = M_System"
  by (simp_all add: plain_message_def is_summary_def summary_message_def)

lemma map_snd_units: "map snd (body_units body) = split_units body"
  by (simp add: body_units_def)

lemma fold_keeps_pairs:
  assumes "paired ms"
  shows "paired (fold_middle_section ms keep existing f reuse)"
proof -
  obtain h r where h: "fold_head ms = (h, r)" by force
  define body where "body = filter (\<lambda>m. \<not> is_summary m) r"
  note parts = fold_head_parts [OF h]
  have body: "paired body" using assms parts by (auto simp: body_def paired_drop_plain intro: paired_filter)
  have fb: "fold_body ms = (h, body)" using h by (simp add: fold_body_def body_def)
  define kept where "kept = (if named existing then [summary_message (the existing)] else [])"
  have plain: "list_all plain_message h" "list_all plain_message kept" using parts by (simp_all add: kept_def)
  have "paired (rebuild F (Some (summary_message t)) (body_units body))" for F t
    using body by (intro rebuild_units) (auto simp: map_snd_units paired_split_units)
  then show ?thesis
    using plain body
    by (auto simp: fold_middle_section_def fb Let_def kept_def [symmetric] paired_drop_plain paired_plain
        simp flip: append_assoc)
qed

lemma if_both: "P x \<Longrightarrow> P y \<Longrightarrow> P (if b then x else y)"
  by simp

lemma tighten_invariant:
  assumes "P ms" and "\<And>ns keep. P ns \<Longrightarrow> P (fold_middle_section ns keep existing None True)"
  shows "P (tighten g existing fixed b keep ms)"
  using assms(1)
proof (induction g arbitrary: keep ms)
  case 0
  then show ?case by simp
next
  case (Suc g)
  have "P (tighten g existing fixed b k (fold_middle_section ms k existing None True))" for k
    by (rule Suc.IH [OF assms(2) [OF Suc.prems]])
  then show ?case using Suc.prems unfolding tighten.simps Let_def by (intro if_both [of P])
qed

lemma compact_keeps_pairs:
  assumes "paired ms"
  shows "paired (compact_messages ms keep f)"
proof -
  have "paired (tighten g existing fixed b k (fold_middle_section ms keep e f False))" for g existing fixed b k e
    by (rule tighten_invariant [of paired]) (use assms in \<open>simp_all add: fold_keeps_pairs\<close>)
  then show ?thesis using assms by (simp add: compact_messages_def Let_def)
qed

section \<open>Clearing keeps units whole\<close>

text \<open>Messages that differ in their content only.\<close>

definition same_frame :: "chat_message \<Rightarrow> chat_message \<Rightarrow> bool" where
  "same_frame m n \<longleftrightarrow> (\<exists>c. n = m\<lparr>cm_content := c\<rparr>)"

lemma same_frame_simps:
  assumes "same_frame m n"
  shows "cm_type n = cm_type m" "cm_tool_calls n = cm_tool_calls m" "cm_tool_call_id n = cm_tool_call_id m"
    "call_ids n = call_ids m" "is_tool_result n = is_tool_result m" "message_calls n = message_calls m"
    "cm_pinned n = cm_pinned m" "tool_result_name n = tool_result_name m" "is_summary n = is_summary m"
  using assms
  by (auto simp: same_frame_def call_ids_def is_tool_result_def message_calls_def tool_result_name_def is_summary_def)

lemma same_frame_refl: "same_frame m m" "same_frame m (cleared m)"
  by (auto simp: same_frame_def cleared_def intro: exI [of _ "cm_content m"])

lemma collect_results_shape:
  assumes "list_all2 same_frame ms ns"
  shows "rel_prod (list_all2 same_frame) (list_all2 same_frame) (collect_results ids ms) (collect_results ids ns)"
  using assms
proof (induction ids ms arbitrary: ns rule: collect_results.induct)
  case (1 ids)
  then show ?case by simp
next
  case (2 ids m ms)
  then obtain n ns' where n: "ns = n # ns'" "same_frame m n" "list_all2 same_frame ms ns'"
    by (auto simp: list_all2_Cons1)
  note s = same_frame_simps [OF n(2)]
  show ?case
  proof (cases "ids = [] \<or> cm_type m \<noteq> M_Tool \<or> cm_tool_call_id m = None \<or> the (cm_tool_call_id m) \<notin> set ids")
    case True
    then show ?thesis using n s by (auto split: option.splits)
  next
    case False
    then obtain i where i: "cm_tool_call_id m = Some i" "i \<in> set ids" by auto
    have "rel_prod (list_all2 same_frame) (list_all2 same_frame)
        (collect_results (remove1 i ids) ms) (collect_results (remove1 i ids) ns')"
      using 2(1) False i n(3) by auto
    then show ?thesis using n s False i by (auto split: prod.splits)
  qed
qed

lemma split_units_shape:
  assumes "list_all2 same_frame ms ns"
  shows "list_all2 (list_all2 same_frame) (split_units ms) (split_units ns)"
  using assms
proof (induction ms arbitrary: ns rule: split_units.induct)
  case 1
  then show ?case by simp
next
  case (2 m ms)
  then obtain n ns' where n: "ns = n # ns'" "same_frame m n" "list_all2 same_frame ms ns'"
    by (auto simp: list_all2_Cons1)
  note s = same_frame_simps [OF n(2)]
  have "rel_prod (list_all2 same_frame) (list_all2 same_frame) (collect_results (call_ids m) ms) (collect_results (call_ids m) ns')"
    using n(3) by (rule collect_results_shape)
  then have "list_all2 same_frame (fst (collect_results (call_ids m) ms)) (fst (collect_results (call_ids m) ns'))"
    "list_all2 same_frame (snd (collect_results (call_ids m) ms)) (snd (collect_results (call_ids m) ns'))"
    by (auto simp: rel_prod_sel)
  then show ?case using 2(1,2) n s by simp
qed

lemma whole_unit_shape:
  assumes "list_all2 same_frame u v"
  shows "whole_unit v = whole_unit u"
proof (cases u)
  case Nil
  then show ?thesis using assms by simp
next
  case (Cons m rs)
  then obtain n ss where v: "v = n # ss" "same_frame m n" "list_all2 same_frame rs ss"
    using assms by (auto simp: list_all2_Cons1)
  have "map cm_tool_call_id ss = map cm_tool_call_id rs \<and> list_all is_tool_result ss = list_all is_tool_result rs \<and>
      (ss = []) = (rs = [])"
    using v(3) by (induction rule: list_all2_induct) (auto simp: same_frame_simps)
  then show ?thesis using Cons v(1) same_frame_simps [OF v(2)] by (auto simp: whole_unit_def)
qed

lemma paired_shape:
  assumes "list_all2 same_frame ms ns"
  shows "paired ns = paired ms"
proof -
  have "list_all whole_unit vs = list_all whole_unit us" if "list_all2 (list_all2 same_frame) us vs" for us vs
    using that by (induction rule: list_all2_induct) (auto simp: whole_unit_shape)
  then show ?thesis using split_units_shape [OF assms] by (simp add: paired_split_units)
qed

lemma recent_results_length [simp]: "length (recent_results keep ms) = length ms"
  by (induction ms) auto

lemma microcompact_shape: "list_all2 same_frame ms (microcompact_messages keep ex ms)"
  by (auto simp: microcompact_messages_def list_all2_conv_all_nth same_frame_refl)


section \<open>Clearing twice\<close>

definition unbroken :: "string \<Rightarrow> bool" where
  "unbroken s \<longleftrightarrow> list_all (\<lambda>c. \<not> is_line_break c) s"

lemma splitlines_from_unbroken: "unbroken line \<Longrightarrow> list_all unbroken (splitlines_from line cr s)"
  by (induction line cr s rule: splitlines_from.induct) (auto simp: unbroken_def)

lemma newline_breaks: "is_line_break (char_of (10 :: nat))" "code_point (char_of (10 :: nat)) = 10"
  by code_simp+

lemma splitlines_from_line:
  assumes "unbroken x"
  shows "splitlines_from line False (x @ newline @ rest) = (line @ x) # splitlines_from [] False rest"
  using assms
proof (induction x arbitrary: line)
  case Nil
  then show ?case by (simp add: newline_def newline_breaks)
next
  case (Cons c x)
  then show ?case by (simp add: unbroken_def)
qed

lemma splitlines_from_end: "unbroken x \<Longrightarrow> line @ x \<noteq> [] \<Longrightarrow> splitlines_from line False x = [line @ x]"
proof (induction x arbitrary: line)
  case Nil
  then show ?case by simp
next
  case (Cons c x)
  then show ?case using Cons.IH [of "line @ [c]"] by (simp add: unbroken_def)
qed

lemma splitlines_join:
  assumes "list_all unbroken xs" and "list_all (\<lambda>x. x \<noteq> []) xs"
  shows "splitlines (join_with newline xs) = xs"
  using assms
proof (induction xs rule: induct_list012)
  case (3 x y zs)
  then show ?case by (simp add: splitlines_def splitlines_from_line)
qed (simp_all add: splitlines_def splitlines_from_end)

lemma strip_unbroken: "unbroken s \<Longrightarrow> unbroken (strip s)"
  using set_strip [of s] by (auto simp: unbroken_def list_all_iff)

lemma tombstone_cleared: "is_cleared_tombstone (tombstone_body s)"
proof -
  define paths where "paths = spill_path_lines s"
  have p: "unbroken x \<and> starts_with x SPILL_PATH_PREFIX \<and> strip x = x" if "x \<in> set paths" for x
    using that splitlines_from_unbroken [of "[]" False s]
    by (auto simp: paths_def spill_path_lines_def splitlines_def list_all_iff strip_idem unbroken_def [of "[]"] intro: strip_unbroken)
  have ne: "x \<noteq> []" if "starts_with x SPILL_PATH_PREFIX" for x
    using that by (auto simp: starts_with_def SPILL_PATH_PREFIX_def)
  have t: "unbroken TOOL_RESULT_TOMBSTONE \<and> TOOL_RESULT_TOMBSTONE \<noteq> [] \<and> strip TOOL_RESULT_TOMBSTONE = TOOL_RESULT_TOMBSTONE"
    by code_simp
  have body: "tombstone_body s = join_with newline (TOOL_RESULT_TOMBSTONE # paths)"
    by (cases paths) (simp_all add: tombstone_body_def paths_def [symmetric])
  have "splitlines (tombstone_body s) = TOOL_RESULT_TOMBSTONE # paths"
    unfolding body using t p ne by (intro splitlines_join) (auto simp: list_all_iff)
  moreover have "map strip paths = paths" using p by (simp add: map_idI)
  moreover have "filter (\<lambda>l. l \<noteq> []) paths = paths" using p ne by (auto simp: filter_id_conv)
  ultimately show ?thesis using t p by (auto simp: is_cleared_tombstone_def list_all_iff)
qed

lemma recent_results_shape:
  "list_all2 same_frame ms ns \<Longrightarrow> recent_results keep ns = recent_results keep ms"
proof (induction rule: list_all2_induct)
  case (Cons m ms n ns)
  have "length (filter is_tool_result ns) = length (filter is_tool_result ms)"
    using Cons.hyps(2) by (induction rule: list_all2_induct) (auto simp: same_frame_simps)
  then show ?case using Cons by simp
qed simp

lemma tool_names_shape:
  assumes "list_all2 same_frame ms ns"
  shows "tool_names_by_call_id ns = tool_names_by_call_id ms"
proof -
  have "map message_calls ns = map message_calls ms"
    using assms by (induction rule: list_all2_induct) (auto simp: same_frame_simps)
  then show ?thesis by (simp add: tool_names_by_call_id_def)
qed

text \<open>
  C31. Clearing is idempotent: what a first pass left is left by a second one, with the tombstones and
  the paths in them.\<close>

theorem microcompact_idempotent:
  "microcompact_messages keep ex (microcompact_messages keep ex ms) = microcompact_messages keep ex ms"
proof -
  let ?ns = "microcompact_messages keep ex ms"
  let ?c = "clears (tool_names_by_call_id ms) ex"
  have "recent_results keep ?ns = recent_results keep ms" "tool_names_by_call_id ?ns = tool_names_by_call_id ms"
    using microcompact_shape recent_results_shape tool_names_shape by blast+
  moreover have "\<not> ?c (cleared m) r" for m r
    by (simp add: clears_def cleared_def content_text_def tombstone_cleared)
  moreover have n: "?ns ! i = (if ?c (ms ! i) (recent_results keep ms ! i) then cleared (ms ! i) else ms ! i)"
    if "i < length ms" for i
    using that by (simp add: microcompact_messages_def)
  moreover have "length ?ns = length ms" by (simp add: microcompact_messages_def)
  ultimately show ?thesis
    by (intro nth_equalityI) (simp_all add: microcompact_messages_def [of keep ex ?ns])
qed

section \<open>What the fold keeps\<close>

definition plain_system :: "chat_message \<Rightarrow> bool" where
  "plain_system m \<longleftrightarrow> cm_type m = M_System \<and> \<not> cm_summary m"

text \<open>\<open>ns\<close> comes from \<open>ms\<close>: summaries aside it drops messages only, none of them a system message, and it
  has one summary at most.\<close>

definition folded_from :: "chat_message list \<Rightarrow> chat_message list \<Rightarrow> bool" where
  "folded_from ms ns \<longleftrightarrow>
     subseq (filter (\<lambda>m. \<not> is_summary m) ns) (filter (\<lambda>m. \<not> is_summary m) ms) \<and>
     filter plain_system ns = filter plain_system ms \<and> length (filter is_summary ns) \<le> 1"

lemma partition_from_facts:
  "set (fst (partition_from keep current seen us)) \<subseteq> set us \<and>
   (\<forall>x\<in>set (fst (partition_from keep current seen us)). \<not> unit_has M_System (snd x))"
proof (induction keep current seen us rule: partition_from.induct)
  case (1 keep current seen)
  then show ?case by simp
next
  case (2 keep current seen i u us)
  note IH = 2(1) [OF refl] 2(2) [OF refl] 2(3) [OF refl]
  show ?case
  proof (cases "unit_has M_System u \<or> current = Some i")
    case True
    then show ?thesis using IH(1) by (auto simp: Let_def case_prod_beta)
  next
    case False
    then show ?thesis using IH(2,3) by (cases "seen \<ge> keep") (auto simp: Let_def case_prod_beta)
  qed
qed

lemma take_out_newest_subset: "set (take_out_newest us) \<subseteq> set us"
  by (induction us rule: take_out_newest.induct) auto

lemma fold_units_facts:
  "set (fold_units keep us) \<subseteq> set us" "(i, u) \<in> set (fold_units keep us) \<Longrightarrow> \<not> unit_has M_System u"
proof -
  obtain fs ts where p: "partition_tail_units keep us = (fs, ts)" by force
  define current where "current = (case latest_human us of
      Some (i, u) \<Rightarrow> if unit_has_image u then Some i else None | None \<Rightarrow> None)"
  have "partition_from keep current 0 (rev us) = (fs, ts)"
    using p by (simp add: partition_tail_units_def current_def Let_def)
  then have "set fs \<subseteq> set us" "\<forall>x\<in>set fs. \<not> unit_has M_System (snd x)"
    using partition_from_facts [of keep current 0 "rev us"] by simp_all
  moreover have "set (retain_visible_tombstone fs ts) \<subseteq> set fs"
    using take_out_newest_subset [of "rev fs"] by (auto simp: retain_visible_tombstone_def)
  ultimately show "set (fold_units keep us) \<subseteq> set us" "(i, u) \<in> set (fold_units keep us) \<Longrightarrow> \<not> unit_has M_System u"
    using p by (fastforce simp: fold_units_def)+
qed

lemma rebuild_facts:
  assumes "\<And>i u. (i, u) \<in> set us \<Longrightarrow> i \<in> folded \<Longrightarrow> \<not> unit_has M_System u"
    and "list_all (\<lambda>m. \<not> is_summary m) (concat (map snd us))"
  shows "subseq (filter (\<lambda>m. \<not> is_summary m) (rebuild folded (map_option summary_message t) us)) (concat (map snd us)) \<and>
    filter plain_system (rebuild folded (map_option summary_message t) us) = filter plain_system (concat (map snd us)) \<and>
    length (filter is_summary (rebuild folded (map_option summary_message t) us)) \<le> (if t = None then 0 else 1)"
  using assms
proof (induction us arbitrary: t)
  case Nil
  then show ?case by simp
next
  case (Cons x us)
  obtain i u where x: "x = (i, u)" by (cases x)
  have nosum: "filter (\<lambda>m. \<not> is_summary m) u = u" "filter is_summary u = []"
    using Cons.prems(2) x by (auto simp: list_all_iff filter_id_conv filter_empty_conv)
  have P: "\<And>i u. (i, u) \<in> set us \<Longrightarrow> i \<in> folded \<Longrightarrow> \<not> unit_has M_System u"
    by (rule Cons.prems(1)) simp_all
  have Q: "list_all (\<lambda>m. \<not> is_summary m) (concat (map snd us))" using Cons.prems(2) by simp
  have IH: "subseq (filter (\<lambda>m. \<not> is_summary m) (rebuild folded (map_option summary_message t) us)) (concat (map snd us))"
    "filter plain_system (rebuild folded (map_option summary_message t) us) = filter plain_system (concat (map snd us))"
    "length (filter is_summary (rebuild folded (map_option summary_message t) us)) \<le> (if t = None then 0 else 1)" for t
    using Cons.IH [OF P Q] by simp_all
  show ?case
  proof (cases "i \<in> folded")
    case True
    then have "\<not> unit_has M_System u" using x by (intro Cons.prems(1)) simp_all
    then have "filter plain_system u = []" by (auto simp: unit_has_def list_ex_iff plain_system_def filter_empty_conv)
    moreover have "\<not> plain_system (summary_message s)" for s by (simp add: plain_system_def summary_message_def)
    ultimately show ?thesis using True x IH [of None] by (cases t) (auto intro: list_emb_append2)
  next
    case False
    then show ?thesis using x nosum IH [of t] list_emb_append_mono [OF subseq_order.order_refl [of u] IH(1) [of t]] by simp
  qed
qed

lemma folded_units_by_index:
  assumes "(i, u) \<in> set (body_units body)" and "i \<in> set (map fst (fold_units keep (body_units body)))"
  shows "\<not> unit_has M_System u"
proof -
  obtain v where v: "(i, v) \<in> set (fold_units keep (body_units body))" using assms(2) by auto
  then have "(i, v) \<in> set (body_units body)" using fold_units_facts(1) by blast
  then have "u = v" using assms(1) by (auto simp: body_units_def in_set_enumerate_eq)
  then show ?thesis using fold_units_facts(2) [OF v] by simp
qed

lemma folded_from_fold: "folded_from ms (fold_middle_section ms keep existing f reuse)"
proof -
  obtain h r where h: "fold_head ms = (h, r)" by force
  define body where "body = filter (\<lambda>m. \<not> is_summary m) r"
  have fb: "fold_body ms = (h, body)" using h by (simp add: fold_body_def body_def)
  note parts = fold_head_parts [OF h]
  define kept where "kept = (if named existing then [summary_message (the existing)] else [])"
  have hs: "filter (\<lambda>m. \<not> is_summary m) h = h" "filter is_summary h = []"
    using parts by (auto simp: filter_id_conv filter_empty_conv list_all_iff)
  have bs: "filter (\<lambda>m. \<not> is_summary m) body = body" "filter is_summary body = []"
    by (auto simp: body_def filter_id_conv filter_empty_conv)
  have ms: "filter (\<lambda>m. \<not> is_summary m) ms = h @ body" using parts hs by (simp add: body_def)
  have sys: "filter plain_system ms = filter plain_system h @ filter plain_system body"
    using parts by (auto simp: body_def plain_system_def is_summary_def intro!: filter_cong)
  have ks: "filter (\<lambda>m. \<not> is_summary m) kept = []" "length (filter is_summary kept) \<le> 1" "filter plain_system kept = []"
    by (auto simp: kept_def plain_system_def summary_message_def is_summary_def)
  define us where "us = body_units body"
  have uc: "concat (map snd us) = body" by (simp add: us_def map_snd_units)
  define fs where "fs = set (map fst (fold_units keep us))"
  have rb: "subseq (filter (\<lambda>m. \<not> is_summary m) (rebuild fs (Some (summary_message t)) us)) body \<and>
      filter plain_system (rebuild fs (Some (summary_message t)) us) = filter plain_system body \<and>
      length (filter is_summary (rebuild fs (Some (summary_message t)) us)) \<le> 1" for t
  proof -
    have "list_all (\<lambda>m. \<not> is_summary m) (concat (map snd us))"
      using bs(1) unfolding uc by (simp add: filter_id_conv list_all_iff)
    then have "subseq (filter (\<lambda>m. \<not> is_summary m) (rebuild fs (map_option summary_message (Some t)) us)) (concat (map snd us)) \<and>
        filter plain_system (rebuild fs (map_option summary_message (Some t)) us) = filter plain_system (concat (map snd us)) \<and>
        length (filter is_summary (rebuild fs (map_option summary_message (Some t)) us)) \<le> (if Some t = None then 0 else 1)"
      by (intro rebuild_facts) (simp add: us_def fs_def folded_units_by_index)
    then show ?thesis unfolding uc by simp
  qed
  have mono: "subseq (h @ xs) (h @ body)" if "subseq xs body" for xs
    using that by (simp add: list_emb_append_mono)
  let ?res = "fold_middle_section ms keep existing f reuse"
  consider "?res = ms" "ms = []" | "?res = h @ kept" "body = []" | "?res = h @ kept @ body"
    | t where "?res = h @ rebuild fs (Some (summary_message t)) us"
    unfolding fold_middle_section_def fb Let_def prod.case kept_def us_def fs_def by metis
  then show ?thesis
  proof cases
    case 4
    then show ?thesis using hs bs ms sys rb [of t] mono by (simp add: folded_from_def)
  qed (use hs bs ks ms sys in \<open>simp_all add: folded_from_def\<close>)
qed

lemma folded_from_trans: "folded_from ms ns \<Longrightarrow> folded_from ns os \<Longrightarrow> folded_from ms os"
  by (auto simp: folded_from_def intro: subseq_order.trans)


definition said :: "message_type \<Rightarrow> string \<Rightarrow> chat_message" where
  "said t s = (summary_message s)\<lparr>cm_type := t, cm_summary := False\<rparr>"

definition called :: "string \<Rightarrow> chat_message" where
  "called i = (said M_Ai [])\<lparr>cm_tool_calls := [\<lparr>cc_id = Some i, cc_name = Some ''read'', cc_json = ''{}''\<rparr>]\<rparr>"

definition returned :: "string \<Rightarrow> string \<Rightarrow> chat_message" where
  "returned i s = (said M_Tool s)\<lparr>cm_tool_call_id := Some i\<rparr>"

definition sample_chat :: "chat_message list" where
  "sample_chat = [said M_System ''s'', said M_Human ''go'', called ''1'', returned ''1'' ''x'', said M_Human ''on'',
     called ''2'', returned ''2'' ''y'']"

definition forced :: compaction_options where
  "forced = \<lparr>co_force = True, co_occupancy = None, co_context_window = 100, co_reserved = 0, co_count = chars_estimate,
     co_exclude_tools = [], co_clear_at_least = 0\<rparr>"


text \<open>The budget of the tail can fold the newest message of the user, too: what is left of it is the first
  200 characters in the summary.\<close>

lemma newest_turn_folded:
  "filter (\<lambda>m. cm_type m = M_Human)
     (compact_messages [said M_System ''s'', said M_Human ''go'', said M_Ai ''ok'', said M_Human (replicate 400 CHR ''x'')] 2 None) =
   [said M_Human ''go'']"
  by code_simp

text \<open>The check of the pairs accepts a call without a result when another message follows it.\<close>

lemma unanswered_call_accepted:
  "tool_pair_integrity [called ''1'', said M_Human ''go''] \<and> \<not> paired [called ''1'', said M_Human ''go'']"
  unfolding paired_split_units by code_simp

text \<open>A tombstone can be longer than the result it replaces.\<close>

lemma tombstone_grows:
  "occupancy_tokens chars_estimate (microcompact_messages 0 [] [called ''1'', returned ''1'' ''x'']) >
   occupancy_tokens chars_estimate [called ''1'', returned ''1'' ''x'']"
  by code_simp

end
