(* ===== verification/Spec2Isabelle.thy ===== *)
theory Spec2Isabelle
  imports Manager_Cancel Permissions_Correct Definitions_Correct Read_Only_Correct Session_Slots Plan_Stall
    Tool_Journal_Answers Team_Run_Correct Task_Queue_Correct Cron_Intervals Cron_Scheduler_Correct
    Rate_Limit_Correct Model_Router Approval_Broker_Correct Loop_Control_Correct
    Timeout_Decision_Correct Recovery_Tracker_Correct Compaction_Correct
begin

text \<open>
  RxyCode is a coding agent: a Primary agent that plans and executes work with a language model,
  and child agents it dispatches. This development verifies the deterministic core of both, the
  code that decides what may run, when, and with which rights. What a model answers, what a tool
  does and what the clock or the file system says are arguments of the definitions.

  The parts and how they interact.

  \<^item> The sub-agent runtime, \<open>src/core/subagents/\<close> with its types in \<open>src/protocol/subagents.py\<close>. The
    manager (\<open>manager.py\<close>) admits a task, computes the child's policy, creates a session in the tree
    of its root (\<open>sessions.py\<close>), takes leases on the paths the child may write (\<open>workspace.py\<close>) and a
    place among the running children (\<open>budget.py\<close>), and hands over to the runtime (\<open>runtime.py\<close>),
    which runs the model loop behind a gate that asks the permission engine (\<open>permissions.py\<close>) and
    the workspace validator about every tool call. Each move is an event of a log
    (\<open>events.py\<close>) that a recovering client replays. What agents exist is decided by
    \<open>definitions.py\<close>, \<open>config_loader.py\<close> and \<open>builtin_agents.py\<close>.
  \<^item> The plan-and-execute graph, \<open>src/core/graph.py\<close>. A plan is a tree of tasks with dependencies
    (\<open>src/core/state.py\<close>); the decomposer (\<open>src/planning/decomposer.py\<close>) and the re-planner
    (\<open>src/validation/re_planner.py\<close>) grow it, the scheduler (\<open>src/execution/scheduler.py\<close>) selects the
    tasks that are ready, and error recovery (\<open>src/recovery/error_recovery.py\<close>) resets or cancels
    them. Routers choose the next node of the graph after each node.
  \<^item> Admission of runs to the process, \<open>SessionSlots\<close> of \<open>src/core/run_lifecycle.py\<close>.
  \<^item> The tool journal, \<open>src/execution/tool_journal.py\<close>: the record of side effects by which a retried or
    resumed run executes a call at most once.
  \<^item> Teams of agents, \<open>src/core/agents/\<close>: a team is validated (\<open>spec.py\<close>), its coordinator
    (\<open>coordinator.py\<close>) runs the stages of its procedure (\<open>sop.py\<close>) within a budget (\<open>budget.py\<close>), and its
    members share a mailbox and a blackboard (\<open>mailbox.py\<close>, \<open>blackboard.py\<close>).
  \<^item> Work that runs later: the persistent task queue (\<open>src/utils/queue.py\<close>), and cron expressions with
    the scheduler that claims their slots (\<open>src/scheduler/cron.py\<close>, \<open>src/scheduler/manager.py\<close>).
  \<^item> Governance of the primary agent: rate limits, model routing and the decision which actions need an
    approval (\<open>src/core/governance.py\<close>), the broker that asks for it (\<open>src/core/safety/approval.py\<close>), the
    stops of the tool loop (\<open>src/core/stuck_detector.py\<close>, \<open>src/core/loop_exit.py\<close>), the extension of time
    limits (\<open>src/core/timeout_decision.py\<close>), the life cycle of recoveries (\<open>src/recovery/tracker.py\<close>),
    and the compaction of the conversation (\<open>src/core/compaction.py\<close>).
    The loop of the primary agent that calls these parts is not modelled.

  The theories. A name ending in \<open>Correct\<close> holds what is proved of the theory it is named after.

  \<^item> \<open>Prelude\<close>, \<open>PyDict\<close>, \<open>Paths\<close>: results with errors, Python strings on code points below 256, dicts
    that keep their insertion order, the part of \<open>pathlib\<close> that is used. \<open>PyDict\<close> states the store
    interface as a locale and interprets it on dicts.
  \<^item> \<open>Machine\<close>: the contract of a stateful component as locales, a step function that keeps an
    invariant, moves along a preorder, keeps an invariant about the events it logged, or refines an
    abstract transition relation; the components interpret them on their own steps.
  \<^item> \<open>Protocol_Types\<close>: the dataclasses and enums of \<open>protocol/subagents.py\<close>, with the parsers of
    permissions that raise.
  \<^item> \<open>Sessions\<close> with \<open>Sessions_Correct\<close> and \<open>Tree_Correct\<close>: the life cycle table, the session tree, the
    recursive cancellation. Terminal states absorb; cancellation of a well-formed tree ends and
    cancels exactly the active sessions below its target.
  \<^item> \<open>Read_Only_Commands\<close>, \<open>Workspace\<close> with \<open>Read_Only_Correct\<close> and \<open>Workspace_Correct\<close>: the classifier
    of read-only shell commands, the lease table, the edit checks. An accepted command without
    backslashes is a sequence of permitted simple commands; leases exclude each other and are
    stable; an edit passes exactly when the mode, the scope and the lease allow it.
  \<^item> \<open>Permissions\<close> with \<open>Permissions_Correct\<close>: glob matching by segments, hard denials, last matching
    rule, approvals that are decided once.
  \<^item> \<open>Budget\<close>: step, token and wall-clock limits of one child, the concurrency guard.
  \<^item> \<open>Events\<close> with \<open>Events_Correct\<close>: the log has gap-free numbers and is append-only, and a store
    reloaded from its files agrees with the one that wrote them.
  \<^item> \<open>Definitions\<close> with \<open>Definitions_Correct\<close>: normalisation, validation and registration of agents.
  \<^item> \<open>Context_Builder\<close>, \<open>Prompt\<close>, \<open>Modes\<close>: the context a child receives, the labels on it, the flags.
  \<^item> \<open>Runtime\<close> with \<open>Runtime_Correct\<close>: one execution of a child; the gate lets through exactly the
    calls that definition and scope permit.
  \<^item> \<open>Manager\<close> with \<open>Manager_Correct\<close>, \<open>Manager_Machine\<close> and \<open>Manager_Cancel\<close>: dispatch in its two halves
    (before and after the child ran), cancellation, and their interleavings as commands of a
    machine. Leases belong to children in flight, a session has at most one terminal event,
    sessions only move forward, cancelling a root ends its whole tree.
  \<^item> \<open>Session_Slots\<close>: the slots and, as a step relation over a multiset of tasks, every interleaving
    of their callers; safety and progress.
  \<^item> \<open>Plan_Tree\<close> with \<open>Cycle_Search\<close> and \<open>Plan_Correct\<close>: task trees and their validation. The depth-first
    search finds a cycle exactly when there is one, and validation accepts exactly the plans of
    the specification \<open>plan_ok\<close>, which is stated by relations and closures.
  \<^item> \<open>Plan_Scheduler\<close> with \<open>Scheduler_Correct\<close>, \<open>Sub_Tasks_Correct\<close> and \<open>Plan_Growth\<close>: a pass of the
    scheduler as a closed form, the check of proposed sub-tasks, their selection within the node
    budget, and that decomposition and insertion keep \<open>plan_ok\<close>.
  \<^item> \<open>Plan_Graph\<close> with \<open>Plan_Graph_Correct\<close> and \<open>Plan_Stall\<close>: nodes, routers and edges of the graph as a
    step function, the runs as an inductive relation. No step of a run fails, dispatch respects
    dependencies; a task that depends on a task with sub-tasks never runs.
  \<^item> \<open>Tool_Journal\<close> with \<open>Tool_Journal_Correct\<close> and \<open>Tool_Journal_Answers\<close>: documents, reservation,
    completion, sealing, pruning, lost files and the remote adapter. The journal refines an abstract
    ledger in which an action in flight or done is never granted again; what \<open>reserve\<close> answers is stated
    branch by branch.
  \<^item> \<open>Team_Spec\<close> with \<open>Team_Spec_Correct\<close>, \<open>Team_Run\<close> with \<open>Team_Run_Correct\<close>: validation accepts exactly the
    teams of a relational specification; a run returns within its delegations, keeps to its budget and
    follows the edges of its procedure; the blackboard refines a bounded log.
  \<^item> \<open>Task_Queue\<close> with \<open>Task_Queue_Correct\<close>: claims and completions that interleave run each task once.
  \<^item> \<open>Cron\<close> with \<open>Cron_Calendar\<close>, \<open>Cron_Correct\<close>, \<open>Cron_Grammar\<close> and \<open>Cron_Intervals\<close>: the parser, the
    calendar and the search for the next run. The search finds the first matching minute after its
    start; a printed expression parses to what it means; which intervals of minutes are kept exactly.
  \<^item> \<open>Cron_Scheduler\<close> with \<open>Cron_Scheduler_Correct\<close>: claims, runs and edits of the task table as steps; a
    task runs at most once in a slot unless a run is cancelled, and the ways to lose a slot.
  \<^item> \<open>Rate_Limit\<close> with \<open>Rate_Limit_Correct\<close>: token buckets under interleaved callers; grants and tokens of
    any period fit the burst and the refill, and a caller alone waits exactly as long as announced.
  \<^item> \<open>Model_Router\<close>: registrations by role and the fall back to the default.
  \<^item> \<open>Approval_Broker\<close> with \<open>Approval_Broker_Correct\<close>: every answer that lets a call run was decided for it,
    or comes from a level always allowed by such an answer, which no gated request uses.
  \<^item> \<open>Loop_Control\<close> with \<open>Loop_Control_Correct\<close>: the detector reports exactly the repetitions it is meant
    for and catches every cycle of calls; the exit decision and the error limit.
  \<^item> \<open>Timeout_Decision\<close> with \<open>Timeout_Decision_Correct\<close>: a decision extends a limit only when policy, model
    and interrupts allow it, and extensions stay within their number and the cap.
  \<^item> \<open>Recovery_Tracker\<close> with \<open>Recovery_Tracker_Correct\<close>: the events follow the grammar of recoveries.
  \<^item> \<open>Compaction\<close> with \<open>Compaction_Correct\<close>: a long conversation is cleared and folded
    (\<open>src/core/compaction.py\<close>); calls stay with their results, system messages and the order stay.

  Bounds and fuel. The recursive cancellation takes a depth bound of one more than the number of
  sessions, enough for every well-formed tree; for the tree that a dispatch without a parent
  makes, no bound is enough, which is a property. The cycle searches take one more than the number
  of nodes; the theorems show that this always suffices. The decomposition takes one more than the
  depth limit, which suffices from a root at depth 0. Where Python would raise \<open>RecursionError\<close>,
  the value is \<open>None\<close>. The search for the next run of a cron expression looks at the 366 days the code
  looks at and answers with the code's error after them. The loop of a team needs no fuel: every round
  uses one of the delegations its budget allows, which is the measure of its termination. The tail budget
  of the compaction is tightened in the 8 rounds of the code's own guard. The loop of
  \<open>acquire\<close> takes the clock readings of its rounds; alone, two readings are enough. The integers of the
  sources are unbounded and are \<open>int\<close> or \<open>nat\<close>; times, costs and balances are rational numbers, so that
  rounding of floating-point numbers is left out.

  What the code relies on and the theorems assume: the ids \<open>uuid4\<close> makes are fresh, an
  \<open>asyncio\<close> semaphore wakes one waiter per permit. LangGraph drops a router's writes to the scalar fields of its state and keeps those to
  the shared task tree; \<open>executor_node\<close> states this in a comment and is written for it.

  Not modelled: the model loop of the Primary agent and its providers (\<open>agent_v2.py\<close>,
  \<open>core/providers/\<close>), prompts and the parsing of answers, the watchdog of a running task, tracing,
  hooks and checkpoints, the secret redaction of the context builder, the safety policy of the
  Primary agent (tables of shell patterns) and the regular expressions that read answers, whose
  findings are inputs, the JSON decoders, packets and traces of team members, the threads that drive
  the queue and the scheduler, sandboxes and shells, the circuit breaker, which a third-party package
  implements, the application server, the web platform and the user interfaces. They are input and
  output, network, operating system or text.
\<close>

end
